(* ===== verification/Prelude.thy ===== *)
theory Prelude
  imports Main "HOL-Library.List_Lexorder" "HOL-Library.Char_ord" "HOL-Library.Sublist"
begin

text \<open>
  Shared vocabulary of the ForgeCI development: results as sums, the three SQL shapes the
  PostgreSQL store is written with (\<open>UPDATE ... WHERE\<close>, \<open>RowsAffected\<close>,
  \<open>ORDER BY ... LIMIT 1\<close>), and the list lemmas that the component theories use.
  Strings are byte strings ordered bytewise (\<open>List_Lexorder\<close> over \<open>Char_ord\<close>), which is
  the order of Go's \<open>sort.Strings\<close>.
\<close>

named_theorems row_simps \<open>equations that push projections through table updates\<close>
named_theorems go_simps \<open>equations of the Go string and path functions\<close>

type_synonym ('e, 'a) result = "'e + 'a"

section \<open>Results\<close>

definition rbind :: "('e, 'a) result \<Rightarrow> ('a \<Rightarrow> ('e, 'b) result) \<Rightarrow> ('e, 'b) result" where
  "rbind r f = (case r of Inl e \<Rightarrow> Inl e | Inr x \<Rightarrow> f x)"

definition check :: "bool \<Rightarrow> 'e \<Rightarrow> ('e, unit) result" where
  "check b e = (if b then Inr () else Inl e)"

fun check_all :: "('a \<Rightarrow> ('e, unit) result) \<Rightarrow> 'a list \<Rightarrow> ('e, unit) result" where
  "check_all f [] = Inr ()"
| "check_all f (x # xs) = rbind (f x) (\<lambda>_. check_all f xs)"

section \<open>Tables\<close>

definition upd_where :: "('r \<Rightarrow> bool) \<Rightarrow> ('r \<Rightarrow> 'r) \<Rightarrow> 'r list \<Rightarrow> 'r list" where
  "upd_where P f rows = map (\<lambda>r. if P r then f r else r) rows"

definition affected :: "('r \<Rightarrow> bool) \<Rightarrow> 'r list \<Rightarrow> nat" where
  "affected P rows = length (filter P rows)"

definition first_by :: "('r \<Rightarrow> 'k::linorder) \<Rightarrow> 'r list \<Rightarrow> 'r option" where
  "first_by key rows = (case sort_key key rows of [] \<Rightarrow> None | r # _ \<Rightarrow> Some r)"

section \<open>Lemmas on results\<close>

lemma rbind_Inl [simp]: "rbind (Inl e) f = Inl e"
  and rbind_Inr [simp]: "rbind (Inr x) f = f x"
  by (simp_all add: rbind_def)

lemma rbind_eq_Inr: "rbind r f = Inr y \<longleftrightarrow> (\<exists>x. r = Inr x \<and> f x = Inr y)"
  by (cases r) auto

lemma rbind_eq_Inl: "rbind r f = Inl e \<longleftrightarrow> r = Inl e \<or> (\<exists>x. r = Inr x \<and> f x = Inl e)"
  by (cases r) auto

lemma check_eq_Inr [simp]: "check b e = Inr u \<longleftrightarrow> b"
  by (simp add: check_def)

lemma check_eq_Inl [simp]: "check b e = Inl e' \<longleftrightarrow> \<not> b \<and> e' = e"
  by (auto simp: check_def)

lemma check_all_Inr: "check_all f xs = Inr () \<longleftrightarrow> (\<forall>x \<in> set xs. f x = Inr ())"
  by (induction xs) (auto simp: rbind_eq_Inr)

section \<open>Lemmas on tables\<close>

lemma length_upd_where [simp]: "length (upd_where P f rows) = length rows"
  by (simp add: upd_where_def)

lemma upd_where_Nil [simp]: "upd_where P f [] = []"
  by (simp add: upd_where_def)

lemma upd_where_eq_Nil [simp]: "upd_where P f rows = [] \<longleftrightarrow> rows = []"
  by (simp add: upd_where_def)

lemma upd_where_Cons [simp]:
  "upd_where P f (r # rows) = (if P r then f r else r) # upd_where P f rows"
  by (simp add: upd_where_def)

lemma set_upd_where: "set (upd_where P f rows) = (\<lambda>r. if P r then f r else r) ` set rows"
  by (simp add: upd_where_def)

lemma upd_where_idle: "(\<And>r. r \<in> set rows \<Longrightarrow> \<not> P r) \<Longrightarrow> upd_where P f rows = rows"
  by (induction rows) auto

text \<open>A projection the update does not touch is unchanged, row by row.\<close>

lemma map_upd_where: "(\<And>r. g (f r) = g r) \<Longrightarrow> map g (upd_where P f rows) = map g rows"
  by (induction rows) auto

lemma in_upd_whereE:
  assumes "r \<in> set (upd_where P f rows)"
  obtains (kept) "r \<in> set rows" "\<not> P r"
  | (changed) r0 where "r0 \<in> set rows" "P r0" "r = f r0"
  using assms by (auto simp: set_upd_where split: if_splits)

lemma affected_0: "affected P rows = 0 \<longleftrightarrow> (\<forall>r \<in> set rows. \<not> P r)"
  by (simp add: affected_def filter_empty_conv)

lemma affected_pos: "0 < affected P rows \<longleftrightarrow> (\<exists>r \<in> set rows. P r)"
  by (auto simp: affected_def filter_empty_conv length_greater_0_conv)

lemma affected_Nil [simp]: "affected P [] = 0"
  and affected_Cons [simp]:
    "affected P (r # rows) = (if P r then Suc (affected P rows) else affected P rows)"
  by (simp_all add: affected_def)

text \<open>On a table with a unique key, a \<open>WHERE\<close> that fixes the key touches at most one row.\<close>

lemma affected_key_le_1:
  assumes "distinct (map k rows)" and "\<And>r. P r \<Longrightarrow> k r = v"
  shows "affected P rows \<le> 1"
  using assms(1)
proof (induction rows)
  case Nil
  then show ?case by simp
next
  case (Cons r rows)
  show ?case
  proof (cases "P r")
    case True
    with Cons.prems assms(2) have "\<forall>x \<in> set rows. \<not> P x"
      by (metis (mono_tags) distinct.simps(2) image_eqI list.simps(9) set_map)
    with True show ?thesis by (simp add: affected_0)
  next
    case False
    with Cons show ?thesis by simp
  qed
qed

lemma affected_key_1:
  assumes "distinct (map k rows)" and "\<And>r. P r \<Longrightarrow> k r = v" and "r \<in> set rows" and "P r"
  shows "affected P rows = 1"
proof -
  have "0 < affected P rows" using assms(3,4) by (auto simp: affected_pos)
  moreover have "affected P rows \<le> 1" using assms(1,2) by (rule affected_key_le_1)
  ultimately show ?thesis by simp
qed

lemma affected_upd_mono:
  assumes "\<And>r. r \<in> set rows \<Longrightarrow> P (if Q r then f r else r) \<Longrightarrow> P r"
  shows "affected P (upd_where Q f rows) \<le> affected P rows"
  using assms by (induction rows) (auto split: if_splits)

lemma affected_upd_le: "affected P (upd_where Q f rows) \<le> affected P rows + affected Q rows"
  by (induction rows) auto

lemma affected_upd_lose:
  assumes "\<And>r. Q r \<Longrightarrow> P r \<and> \<not> P (f r)"
  shows "affected P (upd_where Q f rows) + affected Q rows = affected P rows"
  using assms by (induction rows) auto

lemma key_unique: "distinct (map k rows) \<Longrightarrow> r \<in> set rows \<Longrightarrow> s \<in> set rows \<Longrightarrow> k r = k s \<Longrightarrow> r = s"
  by (meson distinct_map inj_onD)

lemma find_key:
  assumes "distinct (map k rows)" and "r \<in> set rows"
  shows "find (\<lambda>x. k x = k r) rows = Some r"
  using assms by (induction rows) (auto simp: image_iff)

lemma find_SomeD: "find P xs = Some x \<Longrightarrow> x \<in> set xs \<and> P x"
  by (induction xs) (auto split: if_splits)

lemma first_by_Some: "first_by key rows = Some r \<Longrightarrow> r \<in> set rows \<and> (\<forall>x \<in> set rows. key r \<le> key x)"
proof -
  assume a: "first_by key rows = Some r"
  then obtain rs where rs: "sort_key key rows = r # rs"
    by (auto simp: first_by_def split: list.splits)
  have "sorted (map key (r # rs))" using sorted_sort_key [of key rows] rs by simp
  moreover have "set rows = set (r # rs)" by (metis rs set_sort)
  ultimately show ?thesis by auto
qed

lemma first_by_None: "first_by key rows = None \<longleftrightarrow> rows = []"
  by (auto simp: first_by_def split: list.splits) (metis length_0_conv length_sort)

section \<open>Lemmas on lists\<close>

lemma sorted_distinct_eq:
  fixes xs ys :: "'a::linorder list"
  assumes "sorted xs" "distinct xs" "sorted ys" "distinct ys" "set xs = set ys"
  shows "xs = ys"
  using assms by (simp add: sorted_distinct_set_unique)

lemma length_filter_split:
  "length (filter P xs) = length (filter (\<lambda>x. P x \<and> Q x) xs) + length (filter (\<lambda>x. P x \<and> \<not> Q x) xs)"
  by (induction xs) auto

lemma filter_eq_distinct: "distinct xs \<Longrightarrow> filter (\<lambda>x. x = k) xs = (if k \<in> set xs then [k] else [])"
  by (induction xs) auto

definition index_of :: "'a list \<Rightarrow> 'a \<Rightarrow> nat" where
  "index_of xs x = length (takeWhile (\<lambda>y. y \<noteq> x) xs)"

lemma index_of_in: "x \<in> set xs \<Longrightarrow> index_of xs x < length xs \<and> xs ! index_of xs x = x"
  by (induction xs) (auto simp: index_of_def)

lemma index_of_le: "k < length xs \<Longrightarrow> xs ! k = x \<Longrightarrow> index_of xs x \<le> k"
proof (induction xs arbitrary: k)
  case (Cons a xs)
  then show ?case by (cases k) (auto simp: index_of_def)
qed simp

lemma map_filter_upd_where:
  assumes "\<And>r. g (f r) = g r"
  shows "List.map_filter g (upd_where P f rows) = List.map_filter g rows"
  using assms by (induction rows) (auto simp: List.map_filter_simps split: option.splits)

lemma find_unique:
  assumes "x \<in> set xs" and "P x" and "\<And>y. y \<in> set xs \<Longrightarrow> P y \<Longrightarrow> y = x"
  shows "find P xs = Some x"
proof (cases "find P xs")
  case None
  then show ?thesis using assms(1,2) by (simp add: find_None_iff)
next
  case (Some y)
  then have "y = x" using assms(3) find_SomeD [OF Some] by blast
  then show ?thesis using Some by simp
qed

lemma singleton_list:
  assumes "distinct xs" and "set xs = {x}"
  shows "xs = [x]"
proof -
  have "length xs = 1" using distinct_card [OF assms(1)] assms(2) by simp
  then obtain y where "xs = [y]" by (auto simp: length_Suc_conv)
  then show ?thesis using assms(2) by simp
qed

end
