(* ===== verification/Go_Text.thy ===== *)
theory Go_Text
  imports Prelude
begin

text \<open>
  The parts of Go's \<open>strings\<close>, \<open>unicode\<close>, \<open>path\<close> and \<open>encoding/hex\<close>
  that the repository calls. A Go string is a byte string (\<open>string\<close>); the functions that
  iterate over runes decode UTF-8 first, an invalid byte being one \<open>U+FFFD\<close> of width one, as
  the language does. The theory ends with the characterisation of the lexical path check that
  \<open>internal/config\<close>, \<open>internal/snapshot\<close>, \<open>internal/artifact\<close> and
  \<open>internal/scm\<close> share: a relative path that is its own \<open>path.Clean\<close> is exactly a
  slash-joined list of names none of which is empty, a dot or (but for leading ones) a dot-dot.
\<close>

section \<open>Runes\<close>

definition byte :: "char \<Rightarrow> nat" where
  "byte c = of_char c"

definition is_cont :: "char \<Rightarrow> bool" where
  "is_cont c \<longleftrightarrow> 128 \<le> byte c \<and> byte c < 192"

text \<open>The width in bytes of the rune at the front and the rune itself.\<close>

fun decode_rune :: "string \<Rightarrow> nat \<times> nat" where
  "decode_rune [] = (0, 65533)"
| "decode_rune (a # s) =
    (let x = byte a in
     if x < 128 then (1, x)
     else if 194 \<le> x \<and> x < 224 then
       (case s of b # _ \<Rightarrow>
          if is_cont b then (2, (x - 192) * 64 + (byte b - 128)) else (1, 65533)
        | _ \<Rightarrow> (1, 65533))
     else if 224 \<le> x \<and> x < 240 then
       (case s of b # c # _ \<Rightarrow>
          let r = (x - 224) * 4096 + (byte b - 128) * 64 + (byte c - 128) in
          if is_cont b \<and> is_cont c \<and> 2048 \<le> r \<and> \<not> (55296 \<le> r \<and> r < 57344)
          then (3, r) else (1, 65533)
        | _ \<Rightarrow> (1, 65533))
     else if 240 \<le> x \<and> x < 245 then
       (case s of b # c # d # _ \<Rightarrow>
          let r = (x - 240) * 262144 + (byte b - 128) * 4096 + (byte c - 128) * 64 + (byte d - 128) in
          if is_cont b \<and> is_cont c \<and> is_cont d \<and> 65536 \<le> r \<and> r < 1114112
          then (4, r) else (1, 65533)
        | _ \<Rightarrow> (1, 65533))
     else (1, 65533))"

lemma decode_rune_width: "s \<noteq> [] \<Longrightarrow> 0 < fst (decode_rune s) \<and> fst (decode_rune s) \<le> length s"
  by (cases s) (auto simp: Let_def split: list.splits)

function rune_chunks :: "string \<Rightarrow> (nat \<times> string) list" where
  "rune_chunks s =
    (if s = [] then []
     else let (w, r) = decode_rune s in (r, take w s) # rune_chunks (drop w s))"
  by pat_completeness auto
termination
proof (relation "measure length")
  fix s :: string and x w r
  assume "s \<noteq> []" and "x = decode_rune s" and "(w, r) = x"
  then have "0 < w" and "w \<le> length s" using decode_rune_width [of s] by (metis fst_conv)+
  then show "(drop w s, s) \<in> measure length" by simp
qed simp

declare rune_chunks.simps [simp del]

definition runes :: "string \<Rightarrow> nat list" where
  "runes s = map fst (rune_chunks s)"

definition is_control :: "nat \<Rightarrow> bool" where
  "is_control r \<longleftrightarrow> r < 32 \<or> (127 \<le> r \<and> r < 160)"

definition is_space :: "nat \<Rightarrow> bool" where
  "is_space r \<longleftrightarrow> (9 \<le> r \<and> r \<le> 13) \<or> r = 32 \<or> r = 133 \<or> r = 160 \<or> r = 5760 \<or>
     (8192 \<le> r \<and> r \<le> 8202) \<or> r = 8232 \<or> r = 8233 \<or> r = 8239 \<or> r = 8287 \<or> r = 12288"

definition trim_space :: "string \<Rightarrow> string" where
  "trim_space s =
    (let sp = (\<lambda>c. is_space (fst c)) in
     concat (map snd (rev (dropWhile sp (rev (dropWhile sp (rune_chunks s)))))))"

section \<open>Strings\<close>

definition has_prefix :: "string \<Rightarrow> string \<Rightarrow> bool" where
  "has_prefix s p \<longleftrightarrow> take (length p) s = p"

definition has_suffix :: "string \<Rightarrow> string \<Rightarrow> bool" where
  "has_suffix s p \<longleftrightarrow> has_prefix (rev s) (rev p)"

definition trim_prefix :: "string \<Rightarrow> string \<Rightarrow> string" where
  "trim_prefix s p = (if has_prefix s p then drop (length p) s else s)"

definition trim_suffix :: "string \<Rightarrow> string \<Rightarrow> string" where
  "trim_suffix s p = (if has_suffix s p then take (length s - length p) s else s)"

text \<open>\<open>strings.Trim\<close> with a one-byte cutset.\<close>

definition trim_char :: "char \<Rightarrow> string \<Rightarrow> string" where
  "trim_char c s = rev (dropWhile (\<lambda>x. x = c) (rev (dropWhile (\<lambda>x. x = c) s)))"

fun split_on :: "char \<Rightarrow> string \<Rightarrow> string list" where
  "split_on c [] = [[]]"
| "split_on c (x # xs) =
    (if x = c then [] # split_on c xs
     else (case split_on c xs of [] \<Rightarrow> [[x]] | w # ws \<Rightarrow> (x # w) # ws))"

fun join_with :: "char \<Rightarrow> string list \<Rightarrow> string" where
  "join_with c [] = []"
| "join_with c [w] = w"
| "join_with c (w # v # ws) = w @ c # join_with c (v # ws)"

fun substring :: "string \<Rightarrow> string \<Rightarrow> bool" where
  "substring [] p \<longleftrightarrow> p = []"
| "substring (x # xs) p \<longleftrightarrow> has_prefix (x # xs) p \<or> substring xs p"

definition lower_char :: "char \<Rightarrow> char" where
  "lower_char c = (if 65 \<le> byte c \<and> byte c \<le> 90 then char_of (byte c + 32) else c)"

section \<open>Paths\<close>

definition slash :: char where "slash = CHR ''/''"

definition path_is_abs :: "string \<Rightarrow> bool" where
  "path_is_abs p \<longleftrightarrow> has_prefix p ''/''"

fun clean_parts :: "bool \<Rightarrow> string list \<Rightarrow> string list \<Rightarrow> string list" where
  "clean_parts rooted st [] = rev st"
| "clean_parts rooted st (w # ws) =
    (if w = '''' \<or> w = ''.'' then clean_parts rooted st ws
     else if w = ''..'' then
       (case st of
          [] \<Rightarrow> clean_parts rooted (if rooted then [] else [w]) ws
        | t # ts \<Rightarrow> if t = ''..'' then clean_parts rooted (w # st) ws
                   else clean_parts rooted ts ws)
     else clean_parts rooted (w # st) ws)"

definition path_clean :: "string \<Rightarrow> string" where
  "path_clean p =
    (if p = '''' then ''.''
     else let rooted = path_is_abs p; ws = clean_parts rooted [] (split_on slash p) in
       if rooted then slash # join_with slash ws
       else if ws = [] then ''.'' else join_with slash ws)"

definition path_base :: "string \<Rightarrow> string" where
  "path_base p =
    (if p = '''' then ''.''
     else let q = rev (dropWhile (\<lambda>x. x = slash) (rev p)); b = last (split_on slash q) in
       if b = '''' then ''/'' else b)"

definition path_dir :: "string \<Rightarrow> string" where
  "path_dir p = path_clean (rev (dropWhile (\<lambda>x. x \<noteq> slash) (rev p)))"

definition path_join2 :: "string \<Rightarrow> string \<Rightarrow> string" where
  "path_join2 a b =
    (if a = '''' \<and> b = '''' then ''''
     else if a = '''' then path_clean b
     else path_clean (a @ slash # b))"

section \<open>Digests\<close>

definition is_hex :: "char \<Rightarrow> bool" where
  "is_hex c \<longleftrightarrow> (48 \<le> byte c \<and> byte c \<le> 57) \<or> (65 \<le> byte c \<and> byte c \<le> 70) \<or> (97 \<le> byte c \<and> byte c \<le> 102)"

text \<open>\<open>hex.DecodeString\<close> succeeds on hexadecimal strings of even length.\<close>

definition hex_decodes :: "string \<Rightarrow> bool" where
  "hex_decodes s \<longleftrightarrow> even (length s) \<and> list_all is_hex s"

text \<open>A digest as the \<open>CHECK\<close> constraints want it: 64 lower-case hexadecimal digits.\<close>

definition lower_hex64 :: "string \<Rightarrow> bool" where
  "lower_hex64 h \<longleftrightarrow> length h = 64 \<and> list_all (\<lambda>c. (48 \<le> byte c \<and> byte c \<le> 57) \<or> (97 \<le> byte c \<and> byte c \<le> 102)) h"

section \<open>Lemmas on splitting and joining\<close>

lemma split_on_not_Nil [simp]: "split_on c s \<noteq> []"
  by (induction s) (auto split: list.splits)

lemma split_on_no_sep: "w \<in> set (split_on c s) \<Longrightarrow> c \<notin> set w"
  by (induction s arbitrary: w) (auto split: if_splits list.splits)

lemma split_on_single: "c \<notin> set w \<Longrightarrow> split_on c w = [w]"
  by (induction w) auto

lemma split_on_append: "c \<notin> set w \<Longrightarrow> split_on c (w @ c # s) = w # split_on c s"
  by (induction w) auto

lemma join_split [simp]: "join_with c (split_on c s) = s"
proof (induction s)
  case Nil
  then show ?case by simp
next
  case (Cons x xs)
  obtain w ws where s: "split_on c xs = w # ws" by (meson list.exhaust split_on_not_Nil)
  with Cons show ?case by (cases ws) auto
qed

lemma split_join: "ws \<noteq> [] \<Longrightarrow> (\<And>w. w \<in> set ws \<Longrightarrow> c \<notin> set w) \<Longrightarrow> split_on c (join_with c ws) = ws"
  by (induction c ws rule: join_with.induct) (auto simp: split_on_append split_on_single)

lemma has_prefix_iff: "has_prefix s p \<longleftrightarrow> (\<exists>t. s = p @ t)"
  unfolding has_prefix_def by (metis append_eq_conv_conj append_take_drop_id)

lemma split_on_sep_append: "split_on c (s @ c # t) = split_on c s @ split_on c t"
  by (induction s) (auto split: list.splits)

lemma join_append:
  "ws \<noteq> [] \<Longrightarrow> vs \<noteq> [] \<Longrightarrow> join_with c (ws @ vs) = join_with c ws @ c # join_with c vs"
  by (induction c ws rule: join_with.induct) (auto simp: neq_Nil_conv)

lemma has_prefix_sep_iff:
  "has_prefix a (b @ [c]) \<longleftrightarrow> strict_prefix (split_on c b) (split_on c a)"
proof
  assume "has_prefix a (b @ [c])"
  then obtain t where "a = b @ c # t" by (auto simp: has_prefix_iff)
  then have "split_on c a = split_on c b @ split_on c t" by (simp add: split_on_sep_append)
  then show "strict_prefix (split_on c b) (split_on c a)" by (simp add: strict_prefix_def)
next
  assume "strict_prefix (split_on c b) (split_on c a)"
  then obtain ts where ts: "split_on c a = split_on c b @ ts" "ts \<noteq> []"
    by (auto simp: strict_prefix_def prefix_def)
  have "a = join_with c (split_on c b @ ts)" using ts(1) by (metis join_split)
  also have "\<dots> = b @ c # join_with c ts" using ts(2) by (simp add: join_append)
  finally show "has_prefix a (b @ [c])" by (auto simp: has_prefix_iff)
qed

lemma split_on_inj: "split_on c a = split_on c b \<longleftrightarrow> a = b"
  by (metis join_split)

text \<open>Two paths nest when one's components begin with the other's.\<close>

lemma nested_iff:
  "a = b \<or> has_prefix a (b @ [c]) \<or> has_prefix b (a @ [c]) \<longleftrightarrow>
     prefix (split_on c a) (split_on c b) \<or> prefix (split_on c b) (split_on c a)"
  by (auto simp: has_prefix_sep_iff prefix_order.le_less split_on_inj)

section \<open>Lemmas on cleaning paths\<close>

definition plain :: "string \<Rightarrow> bool" where
  "plain w \<longleftrightarrow> w \<noteq> '''' \<and> w \<noteq> ''.'' \<and> w \<noteq> ''..''"

definition plain_path :: "string \<Rightarrow> bool" where
  "plain_path p \<longleftrightarrow> list_all plain (split_on slash p)"

lemma clean_parts_plain: "list_all plain ws \<Longrightarrow> clean_parts rooted st ws = rev st @ ws"
  by (induction ws arbitrary: st) (auto simp: plain_def)

lemma clean_parts_subset: "set (clean_parts rooted st ws) \<subseteq> set st \<union> set ws"
proof (induction rooted st ws rule: clean_parts.induct)
  case (2 rooted st w ws)
  then show ?case by (auto split: list.splits if_splits)
qed simp

lemma clean_parts_shape:
  assumes "list_all plain gs" and "set ds \<subseteq> {''..''}" and "st = gs @ ds"
  shows "\<exists>ds' gs'. clean_parts False st ws = ds' @ gs' \<and> set ds' \<subseteq> {''..''} \<and> list_all plain gs'"
  using assms
proof (induction ws arbitrary: gs ds st)
  case Nil
  then show ?case
    by (intro exI [of _ "rev ds"] exI [of _ "rev gs"]) (auto simp: list_all_iff)
next
  case (Cons w ws)
  consider "w = '''' \<or> w = ''.''" | "w = ''..''" "gs = []" | g gs' where "w = ''..''" "gs = g # gs'"
    | "plain w" by (metis neq_Nil_conv plain_def)
  then show ?case
  proof cases
    case 1
    then show ?thesis using Cons.IH [OF Cons.prems] by auto
  next
    case 2
    then have "clean_parts False st (w # ws) = clean_parts False (w # st) ws"
      using Cons.prems by (auto split: list.splits)
    then show ?thesis using Cons.IH [of "[]" "w # st" "w # st"] Cons.prems 2 by auto
  next
    case 3
    then have "clean_parts False st (w # ws) = clean_parts False (gs' @ ds) ws"
      using Cons.prems by (auto simp: plain_def)
    then show ?thesis using Cons.IH [of gs' ds "gs' @ ds"] Cons.prems 3 by auto
  next
    case 4
    then have "clean_parts False st (w # ws) = clean_parts False (w # st) ws"
      by (auto simp: plain_def)
    then show ?thesis using Cons.IH [of "w # gs" ds "w # st"] Cons.prems 4 by auto
  qed
qed

lemma path_is_abs_split: "path_is_abs p \<longleftrightarrow> p \<noteq> [] \<and> hd (split_on slash p) = [] \<and> split_on slash p \<noteq> [[]]"
  by (cases p) (auto simp: path_is_abs_def has_prefix_def slash_def split: list.splits)

lemma plain_path_not_abs: "plain_path p \<Longrightarrow> \<not> path_is_abs p"
  unfolding plain_path_def path_is_abs_split
  by (cases "split_on slash p") (auto simp: plain_def)

lemma plain_path_clean: "plain_path p \<Longrightarrow> path_clean p = p"
  using plain_path_not_abs [of p]
  by (auto simp: path_clean_def Let_def plain_path_def clean_parts_plain plain_def)

lemma dotdot_head_prefix:
  assumes "split_on slash p = ''..'' # ws"
  shows "p = ''..'' \<or> has_prefix p ''../''"
proof (cases ws)
  case Nil
  then show ?thesis using assms by (metis join_split join_with.simps(2))
next
  case (Cons v vs)
  then have "p = ''..'' @ slash # join_with slash ws"
    using assms by (metis join_split join_with.simps(3))
  then show ?thesis by (simp add: has_prefix_def slash_def)
qed

text \<open>The check the source writes out four times says that every component is a plain name.\<close>

lemma canonical_iff_plain:
  "p \<noteq> '''' \<and> p \<noteq> ''.'' \<and> \<not> path_is_abs p \<and> path_clean p = p \<and> p \<noteq> ''..'' \<and> \<not> has_prefix p ''../''
     \<longleftrightarrow> plain_path p" (is "?canon \<longleftrightarrow> _")
proof
  assume c: ?canon
  define ws where "ws = clean_parts False [] (split_on slash p)"
  have ws: "ws \<noteq> []" "p = join_with slash ws"
    using c by (auto simp: path_clean_def ws_def Let_def split: if_splits)
  have "set ws \<subseteq> set (split_on slash p)"
    unfolding ws_def using clean_parts_subset [of False "[]" "split_on slash p"] by simp
  then have sp: "split_on slash p = ws"
    using ws split_join [of ws slash] split_on_no_sep [of _ slash p] by auto
  obtain ds gs where g: "ws = ds @ gs" "set ds \<subseteq> {''..''}" "list_all plain gs"
    unfolding ws_def using clean_parts_shape [of "[]" "[]" "[]" "split_on slash p"] by auto
  have "ds = []"
  proof (rule ccontr)
    assume "ds \<noteq> []"
    then obtain ds' where "ds = ''..'' # ds'" using g(2) by (cases ds) auto
    then show False using dotdot_head_prefix [of p] sp g(1) c by auto
  qed
  then show "plain_path p" using g sp by (simp add: plain_path_def)
next
  assume pl: "plain_path p"
  have "p \<noteq> '''' \<and> p \<noteq> ''.'' \<and> p \<noteq> ''..''"
    using pl by (auto simp: plain_path_def plain_def slash_def)
  moreover have "\<not> has_prefix p ''../''"
  proof
    assume "has_prefix p ''../''"
    then obtain t where "p = ''..'' @ slash # t" by (auto simp: has_prefix_iff slash_def)
    then have "''..'' \<in> set (split_on slash p)" by (simp add: split_on_append slash_def)
    then show False using pl by (auto simp: plain_path_def plain_def list_all_iff)
  qed
  ultimately show ?canon using plain_path_not_abs [OF pl] plain_path_clean [OF pl] by blast
qed

lemma rune_chunks_concat: "concat (map snd (rune_chunks s)) = s"
proof (induction s rule: rune_chunks.induct)
  case (1 s)
  show ?case
    using "1.IH" by (subst rune_chunks.simps) (auto split: prod.splits)
qed

section \<open>Evaluation\<close>

text \<open>On ASCII text the rune decoder is the identity; the equations let the simplifier compute
  the checks on literals.\<close>

lemma rune_chunks_Nil [go_simps]: "rune_chunks [] = []"
  by (subst rune_chunks.simps) simp

lemma rune_chunks_ascii [go_simps]: "byte c < 128 \<Longrightarrow> rune_chunks (c # s) = (byte c, [c]) # rune_chunks s"
  by (subst rune_chunks.simps) (simp add: Let_def)

lemmas text_evals = go_simps byte_def runes_def is_control_def is_space_def trim_space_def has_prefix_def
  path_is_abs_def path_clean_def path_base_def path_join2_def slash_def Let_def

end
