(* ===== verification/Pipeline_Config.thy ===== *)
theory Pipeline_Config
  imports Go_Text
begin

text \<open>
  \<open>internal/config\<close>: the pipeline data (\<open>config.go\<close>) and its validation
  (\<open>validation.go\<close>). A Go map is an association list whose order stands for the arbitrary
  iteration order; the code sorts the names before it reports, and so does the model. Every
  \<open>fmt.Errorf\<close> is a constructor of \<open>config_error\<close>, so the model decides not only whether
  a pipeline is accepted but which complaint is reported first.

  The lemmas characterise each validator by the property it checks, and end in
  \<open>Validate_iff\<close>: the validator accepts exactly the pipelines that are well formed in a
  declarative sense that mentions neither loops nor accumulators.
\<close>

section \<open>Data\<close>

record CacheEntry =
  Key :: string
  CachePath :: string

record ArtifactUpload =
  UpName :: string
  UpPath :: string

record ArtifactDownload =
  From :: string
  DlName :: string
  Into :: string

record Step =
  Run :: string

record Artifacts =
  Upload :: "ArtifactUpload list"
  Download :: "ArtifactDownload list"

record Cache =
  Restore :: "CacheEntry list"
  Save :: "CacheEntry list"

record Job =
  Needs :: "string list"
  Image :: "string option"
  Steps :: "Step list"
  JobArtifacts :: Artifacts
  JobCache :: Cache

record Pipeline =
  Version :: int
  Jobs :: "(string \<times> Job) list"

datatype config_error =
    UnsupportedVersion int
  | NoJobs
  | InvalidJobName string
  | NoSteps string
  | InvalidImage string
  | EmptyStep string nat
  | SelfDependency string
  | UnknownDependency string string
  | DuplicateDependency string string
  | InvalidRestoreKey string string
  | UnsafeRestorePath string string string
  | DuplicateRestoreKey string string
  | InvalidSaveKey string string
  | UnsafeSavePath string string string
  | DuplicateSaveKey string string
  | ConflictingCachePaths string string
  | RestoreConflictsDownload string string string
  | RestoreConflictsUpload string string string
  | InvalidArtifactName string string
  | DuplicateUpload string string
  | UnsafeUploadPath string string string
  | InvalidProducer string string
  | UnsafeDestination string string string
  | UnknownProducer string string string
  | NotDirectDependency string string string
  | UndeclaredArtifact string string string
  | DuplicateDownload string string string
  | ConflictingDestination string string

section \<open>Patterns and path checks\<close>

definition alnum :: "char \<Rightarrow> bool" where
  "alnum c \<longleftrightarrow> (48 \<le> byte c \<and> byte c \<le> 57) \<or> (65 \<le> byte c \<and> byte c \<le> 90) \<or> (97 \<le> byte c \<and> byte c \<le> 122)"

fun jobNamePattern :: "string \<Rightarrow> bool" where
  "jobNamePattern [] \<longleftrightarrow> False"
| "jobNamePattern (c # cs) \<longleftrightarrow> alnum c \<and> list_all (\<lambda>x. alnum x \<or> x \<in> set ''_-'') cs"

fun artifactNamePattern :: "string \<Rightarrow> bool" where
  "artifactNamePattern [] \<longleftrightarrow> False"
| "artifactNamePattern (c # cs) \<longleftrightarrow>
     alnum c \<and> list_all (\<lambda>x. alnum x \<or> x \<in> set ''._-'') cs \<and> length cs \<le> 63"

fun cacheKeyPattern :: "string \<Rightarrow> bool" where
  "cacheKeyPattern [] \<longleftrightarrow> False"
| "cacheKeyPattern (c # cs) \<longleftrightarrow>
     alnum c \<and> list_all (\<lambda>x. alnum x \<or> x \<in> set ''._:-'') cs \<and> length cs \<le> 127"

definition bad_bytes :: "string \<Rightarrow> bool" where
  "bad_bytes value \<longleftrightarrow>
     CHR 0x00 \<in> set value \<or> CHR 0x5C \<in> set value \<or> list_ex is_control (runes value)"

definition safeCachePath :: "string \<Rightarrow> bool" where
  "safeCachePath value =
    (if value = '''' \<or> value = ''.'' \<or> path_is_abs value \<or> bad_bytes value then False
     else let clean = path_clean value in
       clean = value \<and> clean \<noteq> ''..'' \<and> \<not> has_prefix clean ''../'')"

definition safeArtifactPath :: "string \<Rightarrow> bool" where
  "safeArtifactPath value =
    (if value = '''' \<or> value = ''.'' \<or> path_is_abs value \<or> bad_bytes value then False
     else let clean = path_clean value in
       clean = value \<and> clean \<noteq> ''..'' \<and> \<not> has_prefix clean ''../'')"

definition cachePathsConflict :: "string \<Rightarrow> string \<Rightarrow> bool" where
  "cachePathsConflict a b =
    (let a = path_clean a; b = path_clean b in
     a = b \<or> has_prefix a (b @ ''/'') \<or> has_prefix b (a @ ''/''))"

section \<open>Validation\<close>

fun check_restore :: "string \<Rightarrow> (string \<times> string) list \<Rightarrow> CacheEntry list
    \<Rightarrow> (config_error, (string \<times> string) list) result" where
  "check_restore j seen [] = Inr seen"
| "check_restore j seen (item # items) =
    (if \<not> cacheKeyPattern (Key item) then Inl (InvalidRestoreKey j (Key item))
     else if \<not> safeCachePath (CachePath item) then Inl (UnsafeRestorePath j (Key item) (CachePath item))
     else if map_of seen (Key item) \<noteq> None then Inl (DuplicateRestoreKey j (Key item))
     else check_restore j ((Key item, CachePath item) # seen) items)"

fun check_save :: "string \<Rightarrow> (string \<times> string) list \<Rightarrow> string list \<Rightarrow> CacheEntry list
    \<Rightarrow> (config_error, unit) result" where
  "check_save j restore seen [] = Inr ()"
| "check_save j restore seen (item # items) =
    (if \<not> cacheKeyPattern (Key item) then Inl (InvalidSaveKey j (Key item))
     else if \<not> safeCachePath (CachePath item) then Inl (UnsafeSavePath j (Key item) (CachePath item))
     else if Key item \<in> set seen then Inl (DuplicateSaveKey j (Key item))
     else (case map_of restore (Key item) of
         Some p \<Rightarrow> if p \<noteq> CachePath item then Inl (ConflictingCachePaths j (Key item))
                   else check_save j restore (Key item # seen) items
       | None \<Rightarrow> check_save j restore (Key item # seen) items))"

definition validateCache :: "string \<Rightarrow> Job \<Rightarrow> (config_error, unit) result" where
  "validateCache j job =
    rbind (check_restore j [] (Restore (JobCache job))) (\<lambda>restore.
    rbind (check_save j restore [] (Save (JobCache job))) (\<lambda>_.
    rbind (check_all (\<lambda>item. check_all (\<lambda>a.
        check (\<not> cachePathsConflict (CachePath item) (Into a))
          (RestoreConflictsDownload j (CachePath item) (Into a)))
        (Download (JobArtifacts job))) (Restore (JobCache job))) (\<lambda>_.
    check_all (\<lambda>item. check_all (\<lambda>a.
        check (\<not> cachePathsConflict (CachePath item) (UpPath a))
          (RestoreConflictsUpload j (CachePath item) (UpPath a)))
        (Upload (JobArtifacts job))) (Restore (JobCache job)))))"

fun check_uploads :: "string \<Rightarrow> string list \<Rightarrow> ArtifactUpload list \<Rightarrow> (config_error, unit) result" where
  "check_uploads j seen [] = Inr ()"
| "check_uploads j seen (item # items) =
    (if \<not> artifactNamePattern (UpName item) \<or> UpName item = ''..'' then Inl (InvalidArtifactName j (UpName item))
     else if UpName item \<in> set seen then Inl (DuplicateUpload j (UpName item))
     else if \<not> safeArtifactPath (UpPath item) then Inl (UnsafeUploadPath j (UpName item) (UpPath item))
     else check_uploads j (UpName item # seen) items)"

definition download_ref :: "ArtifactDownload \<Rightarrow> string" where
  "download_ref item = From item @ CHR 0x00 # DlName item"

fun check_downloads :: "string \<Rightarrow> (string \<times> Job) list \<Rightarrow> string list \<Rightarrow> string list \<Rightarrow> string list
    \<Rightarrow> ArtifactDownload list \<Rightarrow> (config_error, unit) result" where
  "check_downloads j jobs ns refs targets [] = Inr ()"
| "check_downloads j jobs ns refs targets (item # items) =
    (if \<not> jobNamePattern (From item) then Inl (InvalidProducer j (From item))
     else if \<not> artifactNamePattern (DlName item) \<or> DlName item = ''..'' then Inl (InvalidArtifactName j (DlName item))
     else if \<not> safeArtifactPath (Into item) then Inl (UnsafeDestination j (DlName item) (Into item))
     else (case map_of jobs (From item) of
         None \<Rightarrow> Inl (UnknownProducer j (DlName item) (From item))
       | Some producer \<Rightarrow>
           if From item \<notin> set ns then Inl (NotDirectDependency j (DlName item) (From item))
           else (case find (\<lambda>u. UpName u = DlName item) (Upload (JobArtifacts producer)) of
               None \<Rightarrow> Inl (UndeclaredArtifact j (DlName item) (From item))
             | Some upload \<Rightarrow>
                 let ref = download_ref item; target = path_join2 (Into item) (path_base (UpPath upload)) in
                 if ref \<in> set refs then Inl (DuplicateDownload j (DlName item) (From item))
                 else if target \<in> set targets then Inl (ConflictingDestination j target)
                 else check_downloads j jobs ns (ref # refs) (target # targets) items)))"

definition validateArtifacts :: "string \<Rightarrow> Job \<Rightarrow> (string \<times> Job) list \<Rightarrow> (config_error, unit) result" where
  "validateArtifacts j job jobs =
    rbind (check_uploads j [] (Upload (JobArtifacts job))) (\<lambda>_.
    check_downloads j jobs (Needs job) [] [] (Download (JobArtifacts job)))"

fun check_steps :: "string \<Rightarrow> nat \<Rightarrow> Step list \<Rightarrow> (config_error, unit) result" where
  "check_steps j i [] = Inr ()"
| "check_steps j i (s # ss) =
    (if trim_space (Run s) = '''' then Inl (EmptyStep j (i + 1)) else check_steps j (i + 1) ss)"

fun check_needs :: "string \<Rightarrow> (string \<times> Job) list \<Rightarrow> string list \<Rightarrow> string list \<Rightarrow> (config_error, unit) result" where
  "check_needs j jobs seen [] = Inr ()"
| "check_needs j jobs seen (d # ds) =
    (if d = j then Inl (SelfDependency j)
     else if map_of jobs d = None then Inl (UnknownDependency j d)
     else if d \<in> set seen then Inl (DuplicateDependency j d)
     else check_needs j jobs (d # seen) ds)"

definition image_ok :: "string option \<Rightarrow> bool" where
  "image_ok im = (case im of None \<Rightarrow> True
     | Some img \<Rightarrow> \<not> (img = '''' \<or> trim_space img \<noteq> img \<or>
         list_ex (\<lambda>r. is_space r \<or> is_control r) (runes img)))"

definition validate_job :: "(string \<times> Job) list \<Rightarrow> string \<Rightarrow> Job \<Rightarrow> (config_error, unit) result" where
  "validate_job jobs name job =
    rbind (check (jobNamePattern name) (InvalidJobName name)) (\<lambda>_.
    rbind (check (Steps job \<noteq> []) (NoSteps name)) (\<lambda>_.
    rbind (check (image_ok (Image job)) (InvalidImage name)) (\<lambda>_.
    rbind (check_steps name 0 (Steps job)) (\<lambda>_.
    rbind (validateArtifacts name job jobs) (\<lambda>_.
    rbind (validateCache name job) (\<lambda>_.
    check_needs name jobs [] (Needs job)))))))"

definition sorted_names :: "(string \<times> 'a) list \<Rightarrow> string list" where
  "sorted_names jobs = sort (remdups (map fst jobs))"

definition Validate :: "Pipeline \<Rightarrow> (config_error, unit) result" where
  "Validate cfg =
    (if Version cfg \<noteq> 1 then Inl (UnsupportedVersion (Version cfg))
     else if Jobs cfg = [] then Inl NoJobs
     else check_all (\<lambda>name. case map_of (Jobs cfg) name of
         Some job \<Rightarrow> validate_job (Jobs cfg) name job
       | None \<Rightarrow> Inr ())
       (sorted_names (Jobs cfg)))"

text \<open>
  \<open>Parse\<close> decodes YAML with \<open>gopkg.in/yaml.v3\<close>, asks the decoder for a second
  document, which must not exist, and then validates. The decoder is not part of the repository:
  its first and second \<open>Decode\<close> on the data are the arguments \<open>decode\<close> and
  \<open>decode_extra\<close>.
\<close>

datatype 'e extra_document = ExtraEOF | ExtraDecoded | ExtraError 'e

datatype 'e parse_error = DecodeError 'e | MultipleDocuments | ValidateError config_error

definition ParseBytes :: "(string \<Rightarrow> ('e, Pipeline) result) \<Rightarrow> (string \<Rightarrow> 'e extra_document) \<Rightarrow> string
    \<Rightarrow> ('e parse_error, Pipeline) result" where
  "ParseBytes decode decode_extra data =
    (case decode data of
       Inl e \<Rightarrow> Inl (DecodeError e)
     | Inr cfg \<Rightarrow> (case decode_extra data of
         ExtraError e \<Rightarrow> Inl (DecodeError e)
       | ExtraDecoded \<Rightarrow> Inl MultipleDocuments
       | ExtraEOF \<Rightarrow> (case Validate cfg of Inl e \<Rightarrow> Inl (ValidateError e) | Inr _ \<Rightarrow> Inr cfg)))"

section \<open>What the validators accept\<close>

definition safe_path :: "string \<Rightarrow> bool" where
  "safe_path p \<longleftrightarrow> plain_path p \<and> \<not> bad_bytes p"

definition nested :: "string \<Rightarrow> string \<Rightarrow> bool" where
  "nested a b \<longleftrightarrow> prefix (split_on slash a) (split_on slash b) \<or> prefix (split_on slash b) (split_on slash a)"

definition declared_upload :: "(string \<times> Job) list \<Rightarrow> ArtifactDownload \<Rightarrow> ArtifactUpload option" where
  "declared_upload jobs d = Option.bind (map_of jobs (From d))
     (\<lambda>producer. find (\<lambda>u. UpName u = DlName d) (Upload (JobArtifacts producer)))"

definition download_target :: "(string \<times> Job) list \<Rightarrow> ArtifactDownload \<Rightarrow> string" where
  "download_target jobs d = path_join2 (Into d) (path_base (UpPath (the (declared_upload jobs d))))"

definition uploads_ok :: "ArtifactUpload list \<Rightarrow> bool" where
  "uploads_ok us \<longleftrightarrow> distinct (map UpName us) \<and>
     (\<forall>u \<in> set us. artifactNamePattern (UpName u) \<and> safe_path (UpPath u))"

definition downloads_ok :: "(string \<times> Job) list \<Rightarrow> string list \<Rightarrow> ArtifactDownload list \<Rightarrow> bool" where
  "downloads_ok jobs ns ds \<longleftrightarrow> distinct (map (\<lambda>d. (From d, DlName d)) ds) \<and>
     distinct (map (download_target jobs) ds) \<and>
     (\<forall>d \<in> set ds. jobNamePattern (From d) \<and> artifactNamePattern (DlName d) \<and> safe_path (Into d) \<and>
        From d \<in> set ns \<and> declared_upload jobs d \<noteq> None)"

definition cache_entries_ok :: "CacheEntry list \<Rightarrow> bool" where
  "cache_entries_ok es \<longleftrightarrow> distinct (map Key es) \<and>
     (\<forall>e \<in> set es. cacheKeyPattern (Key e) \<and> safe_path (CachePath e))"

definition cache_ok :: "Job \<Rightarrow> bool" where
  "cache_ok job \<longleftrightarrow>
     cache_entries_ok (Restore (JobCache job)) \<and> cache_entries_ok (Save (JobCache job)) \<and>
     (\<forall>r \<in> set (Restore (JobCache job)). \<forall>s \<in> set (Save (JobCache job)). Key r = Key s \<longrightarrow> CachePath r = CachePath s) \<and>
     (\<forall>r \<in> set (Restore (JobCache job)).
        (\<forall>d \<in> set (Download (JobArtifacts job)). \<not> nested (CachePath r) (Into d)) \<and>
        (\<forall>u \<in> set (Upload (JobArtifacts job)). \<not> nested (CachePath r) (UpPath u)))"

definition needs_ok :: "(string \<times> Job) list \<Rightarrow> string \<Rightarrow> string list \<Rightarrow> bool" where
  "needs_ok jobs name ns \<longleftrightarrow> distinct ns \<and> name \<notin> set ns \<and> set ns \<subseteq> fst ` set jobs"

definition job_ok :: "(string \<times> Job) list \<Rightarrow> string \<Rightarrow> Job \<Rightarrow> bool" where
  "job_ok jobs name job \<longleftrightarrow> jobNamePattern name \<and> Steps job \<noteq> [] \<and> image_ok (Image job) \<and>
     (\<forall>s \<in> set (Steps job). trim_space (Run s) \<noteq> '''') \<and>
     uploads_ok (Upload (JobArtifacts job)) \<and> downloads_ok jobs (Needs job) (Download (JobArtifacts job)) \<and>
     cache_ok job \<and> needs_ok jobs name (Needs job)"

definition valid_pipeline :: "Pipeline \<Rightarrow> bool" where
  "valid_pipeline cfg \<longleftrightarrow> Version cfg = 1 \<and> Jobs cfg \<noteq> [] \<and>
     (\<forall>(name, job) \<in> set (Jobs cfg). job_ok (Jobs cfg) name job)"

section \<open>Characterising the checks\<close>

lemma safeCachePath_iff: "safeCachePath p \<longleftrightarrow> safe_path p"
  using canonical_iff_plain [of p] unfolding safeCachePath_def safe_path_def Let_def by metis

lemma safeArtifactPath_iff: "safeArtifactPath p \<longleftrightarrow> safe_path p"
  using canonical_iff_plain [of p] unfolding safeArtifactPath_def safe_path_def Let_def by metis

lemma cachePathsConflict_iff:
  assumes "safe_path a" and "safe_path b"
  shows "cachePathsConflict a b \<longleftrightarrow> nested a b"
proof -
  have "cachePathsConflict a b \<longleftrightarrow> a = b \<or> has_prefix a (b @ [slash]) \<or> has_prefix b (a @ [slash])"
    using assms by (simp add: cachePathsConflict_def safe_path_def plain_path_clean slash_def)
  then show ?thesis by (simp add: nested_iff nested_def)
qed

lemma artifact_name_not_dotdot: "artifactNamePattern n \<Longrightarrow> n \<noteq> ''..''"
  by (cases n) (auto simp: alnum_def byte_def)

lemma job_name_no_nul: "jobNamePattern n \<Longrightarrow> CHR 0x00 \<notin> set n"
  by (cases n) (auto simp: alnum_def byte_def list_all_iff)

lemma check_needs_iff:
  "check_needs j jobs seen ds = Inr () \<longleftrightarrow>
     distinct ds \<and> set ds \<inter> set seen = {} \<and> j \<notin> set ds \<and> set ds \<subseteq> fst ` set jobs"
  by (induction ds arbitrary: seen) (auto simp: map_of_eq_None_iff)

lemma check_steps_iff: "check_steps j i ss = Inr () \<longleftrightarrow> (\<forall>s \<in> set ss. trim_space (Run s) \<noteq> '''')"
  by (induction ss arbitrary: i) auto

lemma check_uploads_iff:
  "check_uploads j seen us = Inr () \<longleftrightarrow> uploads_ok us \<and> UpName ` set us \<inter> set seen = {}"
  by (induction us arbitrary: seen)
    (auto simp: uploads_ok_def safeArtifactPath_iff dest: artifact_name_not_dotdot)

lemma check_restore_iff:
  "check_restore j seen es = Inr r \<longleftrightarrow>
     cache_entries_ok es \<and> Key ` set es \<inter> fst ` set seen = {} \<and>
     r = rev (map (\<lambda>e. (Key e, CachePath e)) es) @ seen"
  by (induction es arbitrary: seen)
    (auto simp: cache_entries_ok_def safeCachePath_iff map_of_eq_None_iff)

lemma check_save_iff:
  "check_save j restore seen es = Inr () \<longleftrightarrow>
     cache_entries_ok es \<and> Key ` set es \<inter> set seen = {} \<and>
     (\<forall>e \<in> set es. \<forall>p. map_of restore (Key e) = Some p \<longrightarrow> p = CachePath e)"
  by (induction es arbitrary: seen)
    (auto simp: cache_entries_ok_def safeCachePath_iff split: option.splits)

lemma restore_lookup:
  assumes "distinct (map Key es)"
  shows "map_of (rev (map (\<lambda>e. (Key e, CachePath e)) es)) k = Some p \<longleftrightarrow>
    (\<exists>e \<in> set es. Key e = k \<and> CachePath e = p)"
proof -
  have "distinct (map fst (rev (map (\<lambda>e. (Key e, CachePath e)) es)))"
    using assms by (simp add: rev_map [symmetric] comp_def)
  then show ?thesis by (force simp: map_of_eq_Some_iff)
qed

lemma validateCache_iff:
  assumes up: "uploads_ok (Upload (JobArtifacts job))"
    and dl: "\<And>d. d \<in> set (Download (JobArtifacts job)) \<Longrightarrow> safe_path (Into d)"
  shows "validateCache j job = Inr () \<longleftrightarrow> cache_ok job"
proof (cases "cache_entries_ok (Restore (JobCache job))")
  case True
  let ?rs = "Restore (JobCache job)" and ?ss = "Save (JobCache job)"
  from True have r: "check_restore j [] ?rs = Inr (rev (map (\<lambda>e. (Key e, CachePath e)) ?rs))"
    by (simp add: check_restore_iff)
  have safe: "\<And>r. r \<in> set ?rs \<Longrightarrow> safe_path (CachePath r)" and dist: "distinct (map Key ?rs)"
    using True by (auto simp: cache_entries_ok_def)
  have u: "\<And>u. u \<in> set (Upload (JobArtifacts job)) \<Longrightarrow> safe_path (UpPath u)"
    using up by (auto simp: uploads_ok_def)
  have "validateCache j job = Inr () \<longleftrightarrow>
      cache_entries_ok ?ss \<and> (\<forall>e \<in> set ?ss. \<forall>r \<in> set ?rs. Key r = Key e \<longrightarrow> CachePath r = CachePath e) \<and>
      (\<forall>r \<in> set ?rs. \<forall>d \<in> set (Download (JobArtifacts job)). \<not> cachePathsConflict (CachePath r) (Into d)) \<and>
      (\<forall>r \<in> set ?rs. \<forall>u \<in> set (Upload (JobArtifacts job)). \<not> cachePathsConflict (CachePath r) (UpPath u))"
    by (auto simp: validateCache_def r rbind_eq_Inr check_all_Inr check_save_iff restore_lookup [OF dist])
  also have "\<dots> \<longleftrightarrow> cache_ok job"
    using safe u dl True by (auto simp: cache_ok_def cachePathsConflict_iff)
  finally show ?thesis .
next
  case False
  then have "\<And>x. check_restore j [] (Restore (JobCache job)) \<noteq> Inr x" by (simp add: check_restore_iff)
  then show ?thesis using False by (auto simp: validateCache_def rbind_eq_Inr cache_ok_def)
qed

lemma download_ref_eq:
  assumes "jobNamePattern (From a)" and "jobNamePattern (From b)"
  shows "download_ref a = download_ref b \<longleftrightarrow> From a = From b \<and> DlName a = DlName b"
proof
  assume e: "download_ref a = download_ref b"
  have "takeWhile (\<lambda>c. c \<noteq> CHR 0x00) (download_ref x) = From x" if "jobNamePattern (From x)" for x
    using job_name_no_nul [OF that]
    by (auto simp: download_ref_def takeWhile_append split: if_splits)
  then have f: "From a = From b" using e assms by metis
  with e show "From a = From b \<and> DlName a = DlName b" by (simp add: download_ref_def)
qed (simp add: download_ref_def)

definition download_ok :: "(string \<times> Job) list \<Rightarrow> string list \<Rightarrow> ArtifactDownload \<Rightarrow> bool" where
  "download_ok jobs ns d \<longleftrightarrow> jobNamePattern (From d) \<and> artifactNamePattern (DlName d) \<and> safe_path (Into d) \<and>
     From d \<in> set ns \<and> declared_upload jobs d \<noteq> None"

lemma check_downloads_Cons:
  "check_downloads j jobs ns refs targets (d # ds) = Inr () \<longleftrightarrow>
     download_ok jobs ns d \<and> download_ref d \<notin> set refs \<and> download_target jobs d \<notin> set targets \<and>
     check_downloads j jobs ns (download_ref d # refs) (download_target jobs d # targets) ds = Inr ()"
  using artifact_name_not_dotdot [of "DlName d"]
  by (auto simp: download_ok_def declared_upload_def download_target_def safeArtifactPath_iff Let_def
      split: option.splits)

lemma check_downloads_accepts:
  "check_downloads j jobs ns refs targets ds = Inr () \<longleftrightarrow>
     (\<forall>d \<in> set ds. download_ok jobs ns d) \<and>
     distinct (map download_ref ds) \<and> download_ref ` set ds \<inter> set refs = {} \<and>
     distinct (map (download_target jobs) ds) \<and> download_target jobs ` set ds \<inter> set targets = {}"
proof (induction ds arbitrary: refs targets)
  case Nil
  then show ?case by simp
next
  case (Cons d ds)
  show ?case unfolding check_downloads_Cons Cons.IH by auto
qed

lemma check_downloads_iff: "check_downloads j jobs ns [] [] ds = Inr () \<longleftrightarrow> downloads_ok jobs ns ds"
proof -
  have "distinct (map download_ref ds) \<longleftrightarrow> distinct (map (\<lambda>d. (From d, DlName d)) ds)"
    if "\<forall>d \<in> set ds. download_ok jobs ns d"
    using that by (auto simp: distinct_map inj_on_def download_ok_def download_ref_eq)
  then show ?thesis
    unfolding check_downloads_accepts downloads_ok_def by (auto simp: download_ok_def)
qed

lemma validate_job_iff: "validate_job jobs name job = Inr () \<longleftrightarrow> job_ok jobs name job"
proof (cases "uploads_ok (Upload (JobArtifacts job)) \<and> downloads_ok jobs (Needs job) (Download (JobArtifacts job))")
  case True
  then have "validateCache name job = Inr () \<longleftrightarrow> cache_ok job"
    by (intro validateCache_iff) (auto simp: downloads_ok_def)
  then show ?thesis using True
    by (auto simp: validate_job_def validateArtifacts_def rbind_eq_Inr check_steps_iff check_uploads_iff
        check_downloads_iff check_needs_iff job_ok_def needs_ok_def)
next
  case False
  then show ?thesis
    by (auto simp: validate_job_def validateArtifacts_def rbind_eq_Inr check_uploads_iff
        check_downloads_iff job_ok_def)
qed

lemma Validate_accepts:
  assumes "distinct (map fst (Jobs cfg))"
  shows "Validate cfg = Inr () \<longleftrightarrow> valid_pipeline cfg"
proof -
  have "(\<forall>name \<in> set (sorted_names (Jobs cfg)).
      (case map_of (Jobs cfg) name of Some job \<Rightarrow> validate_job (Jobs cfg) name job | None \<Rightarrow> Inr ()) = Inr ())
    \<longleftrightarrow> (\<forall>(name, job) \<in> set (Jobs cfg). job_ok (Jobs cfg) name job)"
    (is "?l \<longleftrightarrow> ?r")
  proof
    assume l: ?l
    show ?r
    proof clarify
      fix name job assume nj: "(name, job) \<in> set (Jobs cfg)"
      then have "map_of (Jobs cfg) name = Some job" using assms by simp
      moreover have "name \<in> set (sorted_names (Jobs cfg))"
        using nj by (auto simp: sorted_names_def intro: rev_image_eqI)
      ultimately show "job_ok (Jobs cfg) name job" using l by (auto simp: validate_job_iff)
    qed
  next
    assume ?r
    then show ?l by (auto simp: validate_job_iff split: option.splits dest!: map_of_SomeD)
  qed
  then show ?thesis by (auto simp: Validate_def valid_pipeline_def check_all_Inr)
qed

lemma Validate_permuted:
  assumes "distinct (map fst js)" and "distinct (map fst js')" and "set js = set js'"
  shows "Validate \<lparr> Version = v, Jobs = js \<rparr> = Validate \<lparr> Version = v, Jobs = js' \<rparr>"
proof -
  have m: "map_of js = map_of js'" using assms by (metis map_of_inject_set)
  have n: "sorted_names js = sorted_names js'"
    using assms by (simp add: sorted_names_def) (metis list.set_map sorted_list_of_set_sort_remdups)
  have e: "js = [] \<longleftrightarrow> js' = []" using assms(3) by auto
  have d: "check_downloads j js = check_downloads j js'" for j
  proof (intro ext)
    fix ns refs targets ds
    show "check_downloads j js ns refs targets ds = check_downloads j js' ns refs targets ds"
      by (induction ds arbitrary: refs targets) (auto simp: m Let_def split: option.splits)
  qed
  have ne: "check_needs j js seen ds = check_needs j js' seen ds" for j seen ds
    by (induction ds arbitrary: seen) (auto simp: m)
  have "validate_job js = validate_job js'"
    by (intro ext) (simp add: validate_job_def validateArtifacts_def d ne)
  then show ?thesis by (simp add: Validate_def m n e cong: option.case_cong)
qed

text \<open>What the rest of the system relies on after a successful parse.\<close>

lemma ParseBytes_valid:
  assumes "ParseBytes decode decode_extra data = Inr cfg" and "distinct (map fst (Jobs cfg))"
  shows "valid_pipeline cfg"
  using assms Validate_accepts [of cfg]
  by (auto simp: ParseBytes_def split: sum.splits extra_document.splits)

lemma valid_pipeline_needs:
  assumes "valid_pipeline cfg" and "(name, job) \<in> set (Jobs cfg)"
  shows "distinct (Needs job)" and "name \<notin> set (Needs job)" and "set (Needs job) \<subseteq> fst ` set (Jobs cfg)"
  using assms by (auto simp: valid_pipeline_def job_ok_def needs_ok_def)

section \<open>Properties\<close>

definition sample_build :: Job where
  "sample_build = \<lparr> Needs = [], Image = Some ''golang:1.24'', Steps = [\<lparr> Run = ''go build'' \<rparr>],
     JobArtifacts = \<lparr> Upload = [\<lparr> UpName = ''bin'', UpPath = ''out/bin'' \<rparr>], Download = [] \<rparr>,
     JobCache = \<lparr> Restore = [\<lparr> Key = ''mod'', CachePath = ''.cache/mod'' \<rparr>],
                  Save = [\<lparr> Key = ''mod'', CachePath = ''.cache/mod'' \<rparr>] \<rparr> \<rparr>"

definition sample_smoke :: Job where
  "sample_smoke = \<lparr> Needs = [''build''], Image = None, Steps = [\<lparr> Run = ''in/bin --version'' \<rparr>],
     JobArtifacts = \<lparr> Upload = [], Download = [\<lparr> From = ''build'', DlName = ''bin'', Into = ''in'' \<rparr>] \<rparr>,
     JobCache = \<lparr> Restore = [], Save = [] \<rparr> \<rparr>"

definition sample_pipeline :: Pipeline where
  "sample_pipeline = \<lparr> Version = 1, Jobs = [(''smoke'', sample_smoke), (''build'', sample_build)] \<rparr>"

lemma sample_pipeline_keys: "distinct (map fst (Jobs sample_pipeline))"
  by (simp add: sample_pipeline_def)

lemma sample_pipeline_accepted: "Validate sample_pipeline = Inr ()"
  by (simp add: Validate_def sample_pipeline_def sorted_names_def validate_job_def sample_smoke_def
      sample_build_def image_ok_def validateArtifacts_def validateCache_def safeArtifactPath_def
      safeCachePath_def bad_bytes_def cachePathsConflict_def download_ref_def alnum_def check_def text_evals)

text \<open>C25. \<open>config.Validate\<close> accepts a pipeline exactly when it is well formed: version 1, at least
  one job, and for every job a legal name, a step, non-blank commands, a clean image reference, artifact
  and cache entries with legal unique names and paths that stay inside the workspace, downloads that
  refer to artifacts declared by direct dependencies and do not collide, cache paths that overlap no
  artifact path, and needs that are distinct, known and not the job itself.\<close>

theorem Validate_iff:
  assumes "distinct (map fst (Jobs cfg))"
  shows "Validate cfg = Inr () \<longleftrightarrow> valid_pipeline cfg"
  using assms by (rule Validate_accepts)

theorem Validate_iff_witness:
  "distinct (map fst (Jobs sample_pipeline)) \<and> Validate sample_pipeline = Inr () \<and> valid_pipeline sample_pipeline"
  using Validate_iff [of sample_pipeline] sample_pipeline_keys sample_pipeline_accepted by simp

text \<open>The first complaint is deterministic: whatever the iteration order of the Go map, the same
  pipeline gets the same verdict and the same error.\<close>

theorem Validate_order_independent:
  assumes "distinct (map fst js)" and "distinct (map fst js')" and "set js = set js'"
  shows "Validate \<lparr> Version = v, Jobs = js \<rparr> = Validate \<lparr> Version = v, Jobs = js' \<rparr>"
  using assms by (rule Validate_permuted)

theorem Validate_order_independent_witness:
  "Validate \<lparr> Version = 1, Jobs = [(''smoke'', sample_smoke), (''build'', sample_build)] \<rparr>
     = Validate \<lparr> Version = 1, Jobs = [(''build'', sample_build), (''smoke'', sample_smoke)] \<rparr>"
  by (rule Validate_order_independent) auto

end
