(* ===== verification/Pipeline_Graph.thy ===== *)
theory Pipeline_Graph
  imports Pipeline_Config
begin

text \<open>
  \<open>internal/pipeline\<close>: the dependency graph of a pipeline (\<open>graph.go\<close>) and its
  topological ordering (\<open>compiler.go\<close>), Kahn's algorithm over a ready list that is kept
  sorted. The node table is an association list in the iteration order of the Go map, the
  in-degree table a total function with Go's zero value off its domain, and the nil dereference on a
  missing node is the error \<open>NilNode\<close>.

  The lemmas carry the loop invariant of \<open>kahn\<close>; the properties say that compilation of a
  validated pipeline succeeds exactly on acyclic ones, that the order is the lexicographically
  least topological order, whatever the map order, and what a cycle report contains.
\<close>

section \<open>Graph\<close>

record Node =
  NodeName :: string
  NodeJob :: Job
  NodeNeeds :: "string list"
  Dependents :: "string list"

type_synonym nodes = "(string \<times> Node) list"

record Graph =
  Nodes :: nodes
  Order :: "string list"

datatype compile_error = NilNode | DependencyCycle "string list"

definition InitialJobs :: "Graph \<Rightarrow> (compile_error, string list) result" where
  "InitialJobs g =
    (if list_all (\<lambda>name. map_of (Nodes g) name \<noteq> None) (Order g)
     then Inr (filter (\<lambda>name. NodeNeeds (the (map_of (Nodes g) name)) = []) (Order g))
     else Inl NilNode)"

section \<open>Compilation\<close>

definition make_nodes :: "Pipeline \<Rightarrow> nodes" where
  "make_nodes cfg = map (\<lambda>(name, job).
     (name, \<lparr> NodeName = name, NodeJob = job, NodeNeeds = sort (Needs job), Dependents = [] \<rparr>)) (Jobs cfg)"

definition upd_node :: "string \<Rightarrow> (Node \<Rightarrow> Node) \<Rightarrow> nodes \<Rightarrow> nodes" where
  "upd_node k f ns = map (\<lambda>(k', n). (k', if k' = k then f n else n)) ns"

definition edges :: "nodes \<Rightarrow> (string \<times> string) list" where
  "edges ns = concat (map (\<lambda>(name, node). map (\<lambda>d. (d, name)) (NodeNeeds node)) ns)"

fun link_dependents :: "(string \<times> string) list \<Rightarrow> nodes \<Rightarrow> (compile_error, nodes) result" where
  "link_dependents [] ns = Inr ns"
| "link_dependents ((d, name) # es) ns =
    (case map_of ns d of
       None \<Rightarrow> Inl NilNode
     | Some _ \<Rightarrow> link_dependents es (upd_node d (\<lambda>n. n\<lparr>Dependents := Dependents n @ [name]\<rparr>) ns))"

definition sort_dependents :: "nodes \<Rightarrow> nodes" where
  "sort_dependents ns = map (\<lambda>(k, n). (k, n\<lparr>Dependents := sort (Dependents n)\<rparr>)) ns"

definition initial_indegree :: "nodes \<Rightarrow> string \<Rightarrow> int" where
  "initial_indegree ns name = (case map_of ns name of Some n \<Rightarrow> int (length (NodeNeeds n)) | None \<Rightarrow> 0)"

definition initial_ready :: "nodes \<Rightarrow> string list" where
  "initial_ready ns = sort (map fst (filter (\<lambda>(_, n). NodeNeeds n = []) ns))"

fun release :: "string list \<Rightarrow> (string \<Rightarrow> int) \<Rightarrow> string list \<Rightarrow> (string \<Rightarrow> int) \<times> string list" where
  "release [] indegree ready = (indegree, ready)"
| "release (d # ds) indegree ready =
    (let indegree = indegree(d := indegree d - 1) in
     release ds indegree (if indegree d = 0 then sort (ready @ [d]) else ready))"

definition all_dependents :: "nodes \<Rightarrow> string set" where
  "all_dependents ns = (\<Union>(_, n) \<in> set ns. set (Dependents n))"

lemma release_measure:
  assumes "finite D" and "set ds \<subseteq> D" and "release ds indegree ready = (indegree', ready')"
  shows "length ready' + card {d \<in> D. 0 < indegree' d} \<le> length ready + card {d \<in> D. 0 < indegree d}"
  using assms(2,3)
proof (induction ds arbitrary: indegree ready)
  case (Cons d ds)
  let ?i = "indegree(d := indegree d - 1)"
  have d: "d \<in> D" and fin: "finite {x \<in> D. 0 < indegree x}" using Cons.prems assms(1) by auto
  have sub: "{x \<in> D. 0 < ?i x} \<subseteq> {x \<in> D. 0 < indegree x}" by auto
  have "(if ?i d = 0 then 1 else 0) + card {x \<in> D. 0 < ?i x} \<le> card {x \<in> D. 0 < indegree x}"
  proof (cases "?i d = 0")
    case True
    then have "d \<in> {x \<in> D. 0 < indegree x}" and "d \<notin> {x \<in> D. 0 < ?i x}" using d by simp_all
    with sub have "{x \<in> D. 0 < ?i x} \<subset> {x \<in> D. 0 < indegree x}" by blast
    then have "card {x \<in> D. 0 < ?i x} < card {x \<in> D. 0 < indegree x}" by (rule psubset_card_mono [OF fin])
    with True show ?thesis by simp
  next
    case False
    then show ?thesis using card_mono [OF fin sub] by simp
  qed
  moreover
  let ?r = "if ?i d = 0 then sort (ready @ [d]) else ready"
  have rel: "release ds ?i ?r = (indegree', ready')" using Cons.prems(2) by (simp only: release.simps Let_def)
  have "length ready' + card {d \<in> D. 0 < indegree' d} \<le> length ?r + card {x \<in> D. 0 < ?i x}"
    by (rule Cons.IH [OF _ rel]) (use Cons.prems(1) in simp)
  moreover have "length ?r = length ready + (if ?i d = 0 then 1 else 0)" by simp
  ultimately show ?case by linarith
qed simp

function kahn :: "nodes \<Rightarrow> (string \<Rightarrow> int) \<Rightarrow> string list \<Rightarrow> string list
    \<Rightarrow> (compile_error, string list \<times> (string \<Rightarrow> int)) result" where
  "kahn ns indegree [] order = Inr (order, indegree)"
| "kahn ns indegree (name # ready) order =
    (case map_of ns name of
       None \<Rightarrow> Inl NilNode
     | Some n \<Rightarrow>
         let (indegree', ready') = release (Dependents n) indegree ready in
         kahn ns indegree' ready' (order @ [name]))"
  by pat_completeness auto
termination
proof (relation "measure (\<lambda>(ns, i, r, _). length r + card {d \<in> all_dependents ns. 0 < i d})")
  fix ns :: nodes and i name and r order :: "string list" and n x i' r'
  assume m: "map_of ns name = Some n" and "x = release (Dependents n) i r" and "(i', r') = x"
  then have "release (Dependents n) i r = (i', r')" by simp
  moreover have "set (Dependents n) \<subseteq> all_dependents ns"
    using map_of_SomeD [OF m] by (auto simp: all_dependents_def)
  moreover have "finite (all_dependents ns)" by (auto simp: all_dependents_def)
  ultimately have "length r' + card {d \<in> all_dependents ns. 0 < i' d}
      \<le> length r + card {d \<in> all_dependents ns. 0 < i d}"
    using release_measure by blast
  then show "((ns, i', r', order @ [name]), (ns, i, name # r, order))
      \<in> measure (\<lambda>(ns, i, r, _). length r + card {d \<in> all_dependents ns. 0 < i d})" by simp
qed simp

definition Compile :: "Pipeline \<Rightarrow> (compile_error, Graph) result" where
  "Compile cfg =
    (let base = make_nodes cfg in
     rbind (link_dependents (edges base) base) (\<lambda>linked.
     let ns = sort_dependents linked in
     rbind (kahn ns (initial_indegree ns) (initial_ready ns) []) (\<lambda>(order, indegree).
     if length order \<noteq> length ns
     then Inl (DependencyCycle (sort (filter (\<lambda>name. 0 < indegree name) (map fst ns))))
     else Inr \<lparr> Nodes = ns, Order = order \<rparr>)))"

section \<open>Linking\<close>

definition node_needs :: "nodes \<Rightarrow> string \<Rightarrow> string set" where
  "node_needs ns name = (case map_of ns name of Some n \<Rightarrow> set (NodeNeeds n) | None \<Rightarrow> {})"

definition wf_nodes :: "nodes \<Rightarrow> bool" where
  "wf_nodes ns \<longleftrightarrow> distinct (map fst ns) \<and>
     (\<forall>(k, n) \<in> set ns. distinct (NodeNeeds n) \<and> set (NodeNeeds n) \<subseteq> fst ` set ns \<and>
        distinct (Dependents n) \<and> set (Dependents n) = {m \<in> fst ` set ns. k \<in> node_needs ns m})"

lemma map_of_upd_node: "map_of (upd_node k f ns) x = (if x = k then map_option f (map_of ns x) else map_of ns x)"
  by (induction ns) (auto simp: upd_node_def)

lemma keys_upd_node [simp]: "map fst (upd_node k f ns) = map fst ns"
  by (auto simp: upd_node_def)

lemma link_dependents_result:
  assumes "fst ` set es \<subseteq> fst ` set ns"
  shows "link_dependents es ns = Inr (map (\<lambda>(k, n).
    (k, n\<lparr>Dependents := Dependents n @ map snd (filter (\<lambda>e. fst e = k) es)\<rparr>)) ns)"
  using assms
proof (induction es arbitrary: ns)
  case Nil
  have "(\<lambda>(k, n). (k, n\<lparr>Dependents := Dependents n @ map snd (filter (\<lambda>e. fst e = k) [])\<rparr>)) = (\<lambda>x. x)"
    by (auto simp: fun_eq_iff)
  then show ?case by simp
next
  case (Cons e es)
  obtain d name where e: "e = (d, name)" by (cases e)
  let ?ns = "upd_node d (\<lambda>n. n\<lparr>Dependents := Dependents n @ [name]\<rparr>) ns"
  have keys: "fst ` set ?ns = fst ` set ns" by (metis keys_upd_node list.set_map)
  from Cons.prems e have "map_of ns d \<noteq> None" by (simp add: map_of_eq_None_iff)
  then have "link_dependents (e # es) ns = link_dependents es ?ns" using e by auto
  also have "\<dots> = Inr (map (\<lambda>(k, n).
    (k, n\<lparr>Dependents := Dependents n @ map snd (filter (\<lambda>e. fst e = k) es)\<rparr>)) ?ns)"
    using Cons.prems by (intro Cons.IH) (simp add: keys)
  finally show ?case by (simp add: e upd_node_def case_prod_unfold comp_def)
qed

definition graph_nodes :: "Pipeline \<Rightarrow> nodes" where
  "graph_nodes cfg = map (\<lambda>(name, job). (name, \<lparr> NodeName = name, NodeJob = job, NodeNeeds = sort (Needs job),
     Dependents = sort (map fst (filter (\<lambda>(_, j). name \<in> set (Needs j)) (Jobs cfg))) \<rparr>)) (Jobs cfg)"

lemma edges_of:
  assumes "\<And>name job. (name, job) \<in> set js \<Longrightarrow> distinct (Needs job)"
  shows "map snd (filter (\<lambda>e. fst e = k) (concat (map (\<lambda>(name, job). map (\<lambda>d. (d, name)) (sort (Needs job))) js)))
    = map fst (filter (\<lambda>(_, j). k \<in> set (Needs j)) js)"
  using assms
proof (induction js)
  case (Cons a js)
  obtain name job where a: "a = (name, job)" by (cases a)
  have "distinct (sort (Needs job))" using Cons.prems a by auto
  then have "filter (\<lambda>d. d = k) (sort (Needs job)) = (if k \<in> set (Needs job) then [k] else [])"
    by (simp add: filter_eq_distinct)
  then show ?case using Cons a by (auto simp: filter_map comp_def)
qed simp

lemma graph_nodes_keys [simp]: "map fst (graph_nodes cfg) = map fst (Jobs cfg)"
  by (simp add: graph_nodes_def case_prod_unfold comp_def)

lemma graph_nodes_key_set [simp]: "fst ` set (graph_nodes cfg) = fst ` set (Jobs cfg)"
  by (metis graph_nodes_keys list.set_map)

definition cfg_needs :: "Pipeline \<Rightarrow> string \<Rightarrow> string set" where
  "cfg_needs cfg name = (case map_of (Jobs cfg) name of Some job \<Rightarrow> set (Needs job) | None \<Rightarrow> {})"

lemma map_of_graph_nodes: "map_of (graph_nodes cfg) name = map_option (\<lambda>job. \<lparr> NodeName = name, NodeJob = job,
     NodeNeeds = sort (Needs job),
     Dependents = sort (map fst (filter (\<lambda>(_, j). name \<in> set (Needs j)) (Jobs cfg))) \<rparr>) (map_of (Jobs cfg) name)"
proof -
  have "map_of (map (\<lambda>(k, j). (k, f k j)) js) name = map_option (f name) (map_of js name)"
    for f :: "string \<Rightarrow> Job \<Rightarrow> Node" and js
    by (induction js) auto
  then show ?thesis unfolding graph_nodes_def by this
qed

lemma node_needs_graph_nodes [simp]: "node_needs (graph_nodes cfg) name = cfg_needs cfg name"
  by (simp add: node_needs_def cfg_needs_def map_of_graph_nodes split: option.splits)

definition compilable :: "Pipeline \<Rightarrow> bool" where
  "compilable cfg \<longleftrightarrow> distinct (map fst (Jobs cfg)) \<and>
     (\<forall>(name, job) \<in> set (Jobs cfg). distinct (Needs job) \<and> set (Needs job) \<subseteq> fst ` set (Jobs cfg))"

lemma compilableD: "compilable cfg \<Longrightarrow> (name, job) \<in> set (Jobs cfg) \<Longrightarrow>
    distinct (Needs job) \<and> set (Needs job) \<subseteq> fst ` set (Jobs cfg)"
  by (auto simp: compilable_def)

lemma linked_nodes:
  assumes c: "compilable cfg"
  obtains linked where "link_dependents (edges (make_nodes cfg)) (make_nodes cfg) = Inr linked"
    "sort_dependents linked = graph_nodes cfg"
proof -
  have e: "edges (make_nodes cfg) = concat (map (\<lambda>(name, job). map (\<lambda>d. (d, name)) (sort (Needs job))) (Jobs cfg))"
    by (simp add: edges_def make_nodes_def case_prod_unfold comp_def)
  have k: "fst ` set (make_nodes cfg) = fst ` set (Jobs cfg)"
    by (force simp: make_nodes_def)
  have "fst ` set (edges (make_nodes cfg)) \<subseteq> fst ` set (make_nodes cfg)"
    unfolding e k using compilableD [OF c] by force
  then have l: "link_dependents (edges (make_nodes cfg)) (make_nodes cfg) = Inr (map (\<lambda>(k, n).
    (k, n\<lparr>Dependents := Dependents n @ map snd (filter (\<lambda>e. fst e = k) (edges (make_nodes cfg)))\<rparr>)) (make_nodes cfg))"
    by (rule link_dependents_result)
  have "map snd (filter (\<lambda>e. fst e = k) (edges (make_nodes cfg)))
      = map fst (filter (\<lambda>(_, j). k \<in> set (Needs j)) (Jobs cfg))" for k
    unfolding e using compilableD [OF c] by (intro edges_of) blast
  then show thesis
    by (intro that [OF l])
      (simp add: sort_dependents_def graph_nodes_def make_nodes_def case_prod_unfold comp_def)
qed

lemma valid_compilable: "distinct (map fst (Jobs cfg)) \<Longrightarrow> valid_pipeline cfg \<Longrightarrow> compilable cfg"
  using valid_pipeline_needs by (fastforce simp: compilable_def)

lemma graph_nodes_wf: "compilable cfg \<Longrightarrow> wf_nodes (graph_nodes cfg)"
proof -
  assume c: "compilable cfg"
  then have d: "distinct (map fst (Jobs cfg))" by (simp add: compilable_def)
  have dep: "{m \<in> fst ` set (Jobs cfg). k \<in> cfg_needs cfg m} = fst ` {x \<in> set (Jobs cfg). k \<in> set (Needs (snd x))}" for k
    using d by (force simp: cfg_needs_def)
  have "distinct (map fst (filter P (Jobs cfg)))" for P using d by (rule distinct_map_filter)
  then have dd: "distinct (sort (map fst (filter P (Jobs cfg))))" for P by simp
  have "distinct (NodeNeeds n) \<and> set (NodeNeeds n) \<subseteq> fst ` set (Jobs cfg) \<and> distinct (Dependents n) \<and>
      set (Dependents n) = {m \<in> fst ` set (Jobs cfg). k \<in> cfg_needs cfg m}"
    if "(k, n) \<in> set (graph_nodes cfg)" for k n
  proof -
    from that obtain job where j: "(k, job) \<in> set (Jobs cfg)" and n: "NodeNeeds n = sort (Needs job)"
      "Dependents n = sort (map fst (filter (\<lambda>(_, j). k \<in> set (Needs j)) (Jobs cfg)))"
      by (auto simp: graph_nodes_def)
    show ?thesis using compilableD [OF c j] dd unfolding n dep by (simp add: case_prod_unfold)
  qed
  then show ?thesis using d
    unfolding wf_nodes_def graph_nodes_key_set node_needs_graph_nodes graph_nodes_keys by blast
qed

section \<open>The loop\<close>

lemma release_spec:
  assumes "distinct ds" and "set ds \<inter> set ready = {}" and "sorted ready" and "distinct ready"
  shows "\<exists>ready'. release ds i ready = (\<lambda>n. if n \<in> set ds then i n - 1 else i n, ready') \<and>
    sorted ready' \<and> distinct ready' \<and> set ready' = set ready \<union> {d \<in> set ds. i d = 1}"
  using assms
proof (induction ds arbitrary: i ready)
  case (Cons d ds)
  let ?i = "i(d := i d - 1)" and ?r = "if i d = 1 then sort (ready @ [d]) else ready"
  have "distinct ds" "set ds \<inter> set ?r = {}" "sorted ?r" "distinct ?r" using Cons.prems by auto
  from Cons.IH [OF this, of ?i] obtain ready' where r:
    "release ds ?i ?r = (\<lambda>n. if n \<in> set ds then ?i n - 1 else ?i n, ready')" "sorted ready'" "distinct ready'"
    "set ready' = set ?r \<union> {x \<in> set ds. ?i x = 1}" by blast
  have d: "d \<notin> set ds" using Cons.prems by simp
  have "release (d # ds) i ready = (\<lambda>n. if n \<in> set (d # ds) then i n - 1 else i n, ready')"
    using r(1) d by (auto simp: Let_def fun_eq_iff)
  moreover have "set ready' = set ready \<union> {x \<in> set (d # ds). i x = 1}" using r(4) d by auto
  ultimately show ?case using r(2,3) by blast
qed simp

definition candidates :: "nodes \<Rightarrow> string set \<Rightarrow> string set" where
  "candidates ns done = {n \<in> fst ` set ns. n \<notin> done \<and> node_needs ns n \<subseteq> done}"

definition least_topological :: "nodes \<Rightarrow> string list \<Rightarrow> bool" where
  "least_topological ns order \<longleftrightarrow> distinct order \<and>
     (\<forall>i < length order. order ! i \<in> candidates ns (set (take i order)) \<and>
        (\<forall>n \<in> candidates ns (set (take i order)). order ! i \<le> n))"

definition kahn_inv :: "nodes \<Rightarrow> (string \<Rightarrow> int) \<Rightarrow> string list \<Rightarrow> string list \<Rightarrow> bool" where
  "kahn_inv ns i ready order \<longleftrightarrow> sorted ready \<and> distinct ready \<and> set ready = candidates ns (set order) \<and>
     (\<forall>n \<in> fst ` set ns. i n = int (card (node_needs ns n - set order))) \<and>
     least_topological ns order"

lemma least_topological_snoc:
  assumes "least_topological ns order" and "x \<in> candidates ns (set order)"
    and "\<forall>n \<in> candidates ns (set order). x \<le> n"
  shows "least_topological ns (order @ [x])"
  using assms by (auto simp: least_topological_def nth_append less_Suc_eq candidates_def)

lemma wf_map_of:
  assumes "wf_nodes ns" and "name \<in> fst ` set ns"
  obtains n where "map_of ns name = Some n" "(name, n) \<in> set ns" "distinct (Dependents n)"
    "set (Dependents n) = {m \<in> fst ` set ns. name \<in> node_needs ns m}"
proof -
  from assms obtain n where n: "map_of ns name = Some n" by (metis map_of_eq_None_iff not_None_eq)
  then have "(name, n) \<in> set ns" by (rule map_of_SomeD)
  with n assms(1) that show thesis by (auto simp: wf_nodes_def)
qed

lemma finite_node_needs [simp]: "finite (node_needs ns n)"
  by (auto simp: node_needs_def split: option.splits)

lemma card_needs_step:
  assumes "name \<in> node_needs ns m" and "name \<notin> set order"
  shows "card (node_needs ns m - set order) = Suc (card (node_needs ns m - set (order @ [name])))"
proof -
  have "node_needs ns m - set (order @ [name]) = (node_needs ns m - set order) - {name}" by auto
  moreover have "name \<in> node_needs ns m - set order" using assms by simp
  ultimately show ?thesis by (metis card_Suc_Diff1 finite_Diff finite_node_needs)
qed

lemma ordered_needs:
  assumes "least_topological ns order" and "d \<in> set order"
  shows "node_needs ns d \<subseteq> set order"
proof -
  from assms(2) obtain k where k: "k < length order" "order ! k = d" by (auto simp: in_set_conv_nth)
  then have "node_needs ns d \<subseteq> set (take k order)"
    using assms(1) unfolding least_topological_def candidates_def by blast
  then show ?thesis using set_take_subset [of k order] by blast
qed

lemma release_candidates:
  assumes lt: "least_topological ns order" and name: "name \<in> candidates ns (set order)"
    and deg: "\<And>n. n \<in> fst ` set ns \<Longrightarrow> i n = int (card (node_needs ns n - set order))"
    and ds: "ds = {m \<in> fst ` set ns. name \<in> node_needs ns m}"
  shows "candidates ns (set order) - {name} \<union> {d \<in> ds. i d = 1} = candidates ns (set (order @ [name]))"
proof (rule set_eqI)
  fix m
  have fresh: "name \<notin> set order" using name by (simp add: candidates_def)
  show "m \<in> candidates ns (set order) - {name} \<union> {d \<in> ds. i d = 1} \<longleftrightarrow> m \<in> candidates ns (set (order @ [name]))"
  proof (cases "m \<in> ds")
    case True
    then have m: "m \<in> fst ` set ns" "name \<in> node_needs ns m" using ds by auto
    then have "i m = 1 \<longleftrightarrow> card (node_needs ns m - set (order @ [name])) = 0"
      using deg [of m] card_needs_step [OF _ fresh, of ns m] by simp
    also have "\<dots> \<longleftrightarrow> node_needs ns m \<subseteq> set (order @ [name])"
      by (simp only: card_0_eq finite_Diff finite_node_needs Diff_eq_empty_iff)
    finally have "i m = 1 \<longleftrightarrow> node_needs ns m \<subseteq> set (order @ [name])" .
    moreover have "m \<notin> set order" using m fresh ordered_needs [OF lt, of m] by auto
    moreover have "m \<noteq> name" "m \<notin> candidates ns (set order)" using name m fresh by (auto simp: candidates_def)
    ultimately show ?thesis using True m by (auto simp: candidates_def)
  next
    case False
    then have "m \<in> fst ` set ns \<Longrightarrow> name \<notin> node_needs ns m" using ds by auto
    then show ?thesis using False by (auto simp: candidates_def)
  qed
qed

lemma release_degrees:
  assumes "name \<notin> set order" and m: "m \<in> fst ` set ns"
    and deg: "i m = int (card (node_needs ns m - set order))"
    and ds: "ds = {m \<in> fst ` set ns. name \<in> node_needs ns m}"
  shows "(if m \<in> ds then i m - 1 else i m) = int (card (node_needs ns m - set (order @ [name])))"
proof (cases "name \<in> node_needs ns m")
  case True
  then have "m \<in> ds" using ds m by simp
  then show ?thesis using deg card_needs_step [OF True assms(1)] by simp
next
  case False
  then have "node_needs ns m - set (order @ [name]) = node_needs ns m - set order" by auto
  moreover have "m \<notin> ds" using ds False by simp
  ultimately show ?thesis using deg by simp
qed

lemma kahn_inv_step:
  assumes wf: "wf_nodes ns" and inv: "kahn_inv ns i (name # ready) order"
  obtains n i' ready' where "map_of ns name = Some n" "release (Dependents n) i ready = (i', ready')"
    "kahn_inv ns i' ready' (order @ [name])"
proof -
  from inv have cand: "set (name # ready) = candidates ns (set order)" and sd: "sorted (name # ready)" "distinct (name # ready)"
    and deg: "\<And>n. n \<in> fst ` set ns \<Longrightarrow> i n = int (card (node_needs ns n - set order))"
    and lt: "least_topological ns order" by (auto simp: kahn_inv_def)
  have name: "name \<in> candidates ns (set order)" using cand by auto
  then have key: "name \<in> fst ` set ns" and fresh: "name \<notin> set order" by (auto simp: candidates_def)
  obtain n where n: "map_of ns name = Some n" "distinct (Dependents n)"
    and ds: "set (Dependents n) = {m \<in> fst ` set ns. name \<in> node_needs ns m}" using wf_map_of [OF wf key] by metis
  have disj: "set (Dependents n) \<inter> set ready = {}"
    using cand fresh ds by (auto simp: candidates_def)
  obtain ready' where r: "release (Dependents n) i ready = (\<lambda>m. if m \<in> set (Dependents n) then i m - 1 else i m, ready')"
    "sorted ready'" "distinct ready'" "set ready' = set ready \<union> {d \<in> set (Dependents n). i d = 1}"
    using release_spec [OF n(2) disj, of i] sd by auto
  have "set ready = candidates ns (set order) - {name}" using cand sd(2) by auto
  then have "set ready' = candidates ns (set (order @ [name]))"
    using r(4) release_candidates [OF lt name deg ds] by simp
  moreover have "least_topological ns (order @ [name])"
  proof (rule least_topological_snoc [OF lt name])
    show "\<forall>n \<in> candidates ns (set order). name \<le> n" unfolding cand [symmetric] using sd(1) by simp
  qed
  moreover have "(if m \<in> set (Dependents n) then i m - 1 else i m) = int (card (node_needs ns m - set (order @ [name])))"
    if "m \<in> fst ` set ns" for m
    using release_degrees [of name order m ns i "set (Dependents n)"] fresh that deg [OF that] ds by blast
  ultimately show thesis
    using that [OF n(1) r(1)] r(2,3) unfolding kahn_inv_def by blast
qed

lemma kahn_result:
  assumes "wf_nodes ns" and "kahn_inv ns i ready order"
  shows "\<exists>order' i'. kahn ns i ready order = Inr (order', i') \<and> kahn_inv ns i' [] order'"
  using assms
proof (induction ns i ready order rule: kahn.induct)
  case (2 ns i name ready order)
  obtain n i' ready' where s: "map_of ns name = Some n" "release (Dependents n) i ready = (i', ready')"
    "kahn_inv ns i' ready' (order @ [name])" using kahn_inv_step [OF 2(2,3)] by metis
  then show ?case using 2(1) [OF s(1) s(2) [symmetric] refl "2.prems"(1)] by auto
qed auto

section \<open>What compilation returns\<close>

lemma kahn_inv_init:
  assumes "wf_nodes ns"
  shows "kahn_inv ns (initial_indegree ns) (initial_ready ns) []"
proof -
  have d: "distinct (map fst ns)" using assms by (simp add: wf_nodes_def)
  have deg: "initial_indegree ns k = int (card (node_needs ns k))" if "k \<in> fst ` set ns" for k
  proof -
    from that obtain n where n: "map_of ns k = Some n" by (metis map_of_eq_None_iff not_None_eq)
    then have "distinct (NodeNeeds n)" using assms map_of_SomeD [OF n] by (auto simp: wf_nodes_def)
    then show ?thesis by (simp add: initial_indegree_def node_needs_def n distinct_card)
  qed
  have "distinct (initial_ready ns)" using d by (auto simp: initial_ready_def intro: distinct_map_filter)
  moreover have "set (initial_ready ns) = candidates ns {}"
    using d by (force simp: initial_ready_def candidates_def node_needs_def image_iff)
  ultimately show ?thesis
    using deg by (simp add: kahn_inv_def least_topological_def initial_ready_def)
qed

lemma Compile_cases:
  assumes c: "compilable cfg"
  obtains order i where "kahn_inv (graph_nodes cfg) i [] order"
    "Compile cfg = (if length order \<noteq> length (Jobs cfg)
       then Inl (DependencyCycle (sort (filter (\<lambda>name. 0 < i name) (map fst (Jobs cfg)))))
       else Inr \<lparr> Nodes = graph_nodes cfg, Order = order \<rparr>)"
proof -
  let ?ns = "graph_nodes cfg"
  note wf = graph_nodes_wf [OF c]
  obtain order i where k: "kahn ?ns (initial_indegree ?ns) (initial_ready ?ns) [] = Inr (order, i)"
    "kahn_inv ?ns i [] order" using kahn_result [OF wf kahn_inv_init [OF wf]] by blast
  have len: "length ?ns = length (Jobs cfg)" by (metis graph_nodes_keys length_map)
  have "Compile cfg = rbind (kahn ?ns (initial_indegree ?ns) (initial_ready ?ns) []) (\<lambda>(order, indegree).
     if length order \<noteq> length ?ns
     then Inl (DependencyCycle (sort (filter (\<lambda>name. 0 < indegree name) (map fst ?ns))))
     else Inr \<lparr> Nodes = ?ns, Order = order \<rparr>)"
    by (rule linked_nodes [OF c]) (simp only: Compile_def Let_def rbind_Inr)
  then show thesis using that [OF k(2)] k(1) len by simp
qed

lemma kahn_end_set:
  assumes "kahn_inv ns i [] order"
  shows "distinct order" and "set order \<subseteq> fst ` set ns" and
    "n \<in> fst ` set ns \<Longrightarrow> 0 < i n \<longleftrightarrow> n \<notin> set order"
proof -
  have lt: "least_topological ns order" and empty: "candidates ns (set order) = {}" 
    and deg: "\<And>n. n \<in> fst ` set ns \<Longrightarrow> i n = int (card (node_needs ns n - set order))"
    using assms by (auto simp: kahn_inv_def)
  show "distinct order" "set order \<subseteq> fst ` set ns"
    using lt by (auto simp: least_topological_def candidates_def in_set_conv_nth)
  show "0 < i n \<longleftrightarrow> n \<notin> set order" if n: "n \<in> fst ` set ns"
  proof -
    have "0 < i n \<longleftrightarrow> \<not> node_needs ns n \<subseteq> set order"
      unfolding deg [OF n] by (simp only: of_nat_0_less_iff card_gt_0_iff finite_Diff finite_node_needs Diff_eq_empty_iff simp_thms)
    also have "\<dots> \<longleftrightarrow> n \<notin> set order"
      using ordered_needs [OF lt, of n] empty n by (auto simp: candidates_def)
    finally show ?thesis .
  qed
qed

lemma full_order:
  assumes "distinct (map fst js)" and "distinct order" and "set order \<subseteq> fst ` set js"
  shows "length order = length js \<longleftrightarrow> set order = fst ` set js"
proof -
  have "length js = card (fst ` set js)" using assms(1) by (metis distinct_card length_map list.set_map)
  moreover have "length order = card (set order)" using assms(2) by (simp add: distinct_card)
  ultimately show ?thesis using assms(3) by (metis List.finite_set card_subset_eq finite_imageI)
qed

definition need_rel :: "Pipeline \<Rightarrow> (string \<times> string) set" where
  "need_rel cfg = {(d, name). d \<in> cfg_needs cfg name}"

lemma ordered_acyclic:
  assumes lt: "least_topological ns order" and "set order = fst ` set ns"
  shows "acyclic {(d, n). d \<in> node_needs ns n}"
proof -
  have "index_of order d < index_of order n" if dn: "d \<in> node_needs ns n" for d n
  proof -
    from dn have "n \<in> set order" using assms(2)
      by (auto simp: node_needs_def dest: map_of_SomeD split: option.splits intro: rev_image_eqI)
    then have i: "index_of order n < length order" "order ! index_of order n = n"
      using index_of_in by metis+
    then have "d \<in> set (take (index_of order n) order)"
    proof -
      have "order ! index_of order n \<in> candidates ns (set (take (index_of order n) order))"
        using lt i(1) by (simp add: least_topological_def)
      then show ?thesis using dn unfolding i(2) candidates_def by blast
    qed
    then obtain k where "k < index_of order n" "order ! k = d" using i(1) by (auto simp: in_set_conv_nth)
    then show ?thesis using i(1) index_of_le [of k order d] by simp
  qed
  then have "{(d, n). d \<in> node_needs ns n} \<subseteq> measure (index_of order)" by auto
  then show ?thesis by (meson wf_acyclic wf_measure wf_subset)
qed

lemma least_topological_unique:
  assumes "least_topological ns order" and "least_topological ns' order'"
    and same: "\<And>done. candidates ns done = candidates ns' done" and len: "length order = length order'"
  shows "order = order'"
proof -
  have "k \<le> length order \<Longrightarrow> take k order = take k order'" for k
  proof (induction k)
    case (Suc k)
    then have t: "take k order = take k order'" by simp
    have "order ! k = order' ! k"
    proof (rule antisym)
      show "order ! k \<le> order' ! k" "order' ! k \<le> order ! k"
        using assms Suc.prems t unfolding least_topological_def by (metis Suc_le_lessD)+
    qed
    then show ?case using t Suc.prems len by (simp add: take_Suc_conv_app_nth)
  qed simp
  from this [of "length order"] show ?thesis using len by simp
qed

lemma candidates_graph_nodes:
  "candidates (graph_nodes cfg) done = {n \<in> fst ` set (Jobs cfg). n \<notin> done \<and> cfg_needs cfg n \<subseteq> done}"
  by (simp add: candidates_def)

lemma Compile_Inr:
  assumes "compilable cfg" and "Compile cfg = Inr g"
  shows "Nodes g = graph_nodes cfg" and "least_topological (graph_nodes cfg) (Order g)"
    and "set (Order g) = fst ` set (Jobs cfg)" and "length (Order g) = length (Jobs cfg)"
proof -
  obtain order i where k: "kahn_inv (graph_nodes cfg) i [] order" and c: "Compile cfg =
    (if length order \<noteq> length (Jobs cfg)
       then Inl (DependencyCycle (sort (filter (\<lambda>name. 0 < i name) (map fst (Jobs cfg)))))
       else Inr \<lparr> Nodes = graph_nodes cfg, Order = order \<rparr>)"
    using Compile_cases [OF assms(1)] by metis
  from c assms(2) have g: "g = \<lparr> Nodes = graph_nodes cfg, Order = order \<rparr>" "length order = length (Jobs cfg)"
    by (auto split: if_splits)
  have "distinct (map fst (Jobs cfg))" using assms(1) by (simp add: compilable_def)
  from full_order [OF this kahn_end_set(1) [OF k]] kahn_end_set(2) [OF k] g
  show "set (Order g) = fst ` set (Jobs cfg)" by simp
  show "Nodes g = graph_nodes cfg" "length (Order g) = length (Jobs cfg)" "least_topological (graph_nodes cfg) (Order g)"
    using g k by (simp_all add: kahn_inv_def)
qed

lemma Compile_Inl:
  assumes "compilable cfg" and "Compile cfg = Inl e"
  obtains names where "e = DependencyCycle names" "names \<noteq> []" "sorted names" "distinct names"
    "set names \<subseteq> fst ` set (Jobs cfg)" "\<forall>n \<in> set names. \<exists>d \<in> set names. d \<in> cfg_needs cfg n"
proof -
  obtain order i where k: "kahn_inv (graph_nodes cfg) i [] order" and c: "Compile cfg =
    (if length order \<noteq> length (Jobs cfg)
       then Inl (DependencyCycle (sort (filter (\<lambda>name. 0 < i name) (map fst (Jobs cfg)))))
       else Inr \<lparr> Nodes = graph_nodes cfg, Order = order \<rparr>)"
    using Compile_cases [OF assms(1)] by metis
  let ?names = "sort (filter (\<lambda>name. 0 < i name) (map fst (Jobs cfg)))"
  from c assms(2) have e: "e = DependencyCycle ?names" and len: "length order \<noteq> length (Jobs cfg)"
    by (auto split: if_splits)
  have dist: "distinct (map fst (Jobs cfg))" using assms(1) by (simp add: compilable_def)
  have pos: "n \<in> fst ` set (Jobs cfg) \<Longrightarrow> 0 < i n \<longleftrightarrow> n \<notin> set order" for n
    using kahn_end_set(3) [OF k, of n] by simp
  then have names: "set ?names = fst ` set (Jobs cfg) - set order" by auto
  have "set order \<noteq> fst ` set (Jobs cfg)"
    using full_order [OF dist kahn_end_set(1) [OF k]] kahn_end_set(2) [OF k] len by simp
  then have "set ?names \<noteq> {}" using names kahn_end_set(2) [OF k] by auto
  moreover have "\<exists>d \<in> set ?names. d \<in> cfg_needs cfg n" if "n \<in> set ?names" for n
  proof -
    have "candidates (graph_nodes cfg) (set order) = {}" using k by (simp add: kahn_inv_def)
    then have "\<not> cfg_needs cfg n \<subseteq> set order" using that names by (auto simp: candidates_def)
    moreover have "cfg_needs cfg n \<subseteq> fst ` set (Jobs cfg)"
      using compilableD [OF assms(1)] by (auto simp: cfg_needs_def split: option.splits dest!: map_of_SomeD)
    ultimately show ?thesis using names by blast
  qed
  moreover have "distinct ?names" using dist by (simp add: distinct_filter)
  ultimately show thesis using names by (intro that [OF e]) (auto simp del: set_sort)
qed

lemma cyclic_set:
  assumes "acyclic r" and "finite S" and "\<forall>n \<in> S. \<exists>d \<in> S. (d, n) \<in> r"
  shows "S = {}"
proof (rule ccontr)
  assume "S \<noteq> {}"
  let ?r = "r \<inter> S \<times> S"
  have "finite ?r" using assms(2) by auto
  moreover have "acyclic ?r" using assms(1) by (rule acyclic_subset) simp
  ultimately have "wf ?r" by (rule finite_acyclic_wf)
  then obtain n where "n \<in> S" "\<forall>d. (d, n) \<in> ?r \<longrightarrow> d \<notin> S" using \<open>S \<noteq> {}\<close> by (metis ex_in_conv wfE_min)
  then show False using assms(3) by blast
qed

section \<open>Properties\<close>

lemma sample_compilable: "compilable sample_pipeline"
  by (simp add: compilable_def sample_pipeline_def sample_smoke_def sample_build_def)

lemma validated_compilable: "distinct (map fst (Jobs cfg)) \<Longrightarrow> Validate cfg = Inr () \<Longrightarrow> compilable cfg"
  by (simp add: Validate_accepts valid_compilable)

lemma sample_needs: "cfg_needs sample_pipeline n = (if n = ''smoke'' then {''build''} else {})"
  by (simp add: cfg_needs_def sample_pipeline_def sample_smoke_def sample_build_def)

lemma sample_acyclic: "acyclic (need_rel sample_pipeline)"
proof -
  show ?thesis
    by (rule acyclic_subset [of "measure (\<lambda>n. if n = ''smoke'' then 1 else 0)"])
      (auto simp: need_rel_def sample_needs wf_acyclic split: if_splits)
qed

lemma acyclic_compiles:
  assumes "compilable cfg" and a: "acyclic (need_rel cfg)"
  shows "\<exists>g. Compile cfg = Inr g"
proof (cases "Compile cfg")
  case (Inl e)
  then obtain names where "names \<noteq> []" "\<forall>n \<in> set names. \<exists>d \<in> set names. d \<in> cfg_needs cfg n"
    using Compile_Inl [OF assms(1)] by metis
  then show ?thesis using cyclic_set [OF a, of "set names"] by (simp add: need_rel_def)
qed simp

text \<open>C23. \<open>pipeline.Compile\<close> succeeds on a validated pipeline exactly when its dependency relation
  has no cycle. It never dereferences a missing node and its loop always ends.\<close>

theorem Compile_iff_acyclic:
  assumes "distinct (map fst (Jobs cfg))" and "Validate cfg = Inr ()"
  shows "(\<exists>g. Compile cfg = Inr g) \<longleftrightarrow> acyclic (need_rel cfg)"
proof -
  note c = validated_compilable [OF assms]
  have "acyclic (need_rel cfg)" if g: "Compile cfg = Inr g" for g
    using ordered_acyclic [OF Compile_Inr(2) [OF c g]] Compile_Inr(3) [OF c g] by (simp add: need_rel_def)
  then show ?thesis using acyclic_compiles [OF c] by blast
qed

theorem Compile_iff_acyclic_witness:
  "distinct (map fst (Jobs sample_pipeline)) \<and> Validate sample_pipeline = Inr () \<and>
   (\<exists>g. Compile sample_pipeline = Inr g)"
  using Compile_iff_acyclic [OF sample_pipeline_keys sample_pipeline_accepted] sample_acyclic
    sample_pipeline_keys sample_pipeline_accepted by simp

text \<open>The order of a compiled graph lists every job exactly once and is the greedy alphabetical
  topological order: at each position stands the alphabetically least job among those not yet placed
  whose needs have all been placed.\<close>

theorem Compile_order:
  assumes "distinct (map fst (Jobs cfg))" and "Validate cfg = Inr ()" and "Compile cfg = Inr g"
  shows "distinct (Order g) \<and> set (Order g) = fst ` set (Jobs cfg) \<and>
    (\<forall>i < length (Order g). cfg_needs cfg (Order g ! i) \<subseteq> set (take i (Order g)) \<and>
       (\<forall>n \<in> fst ` set (Jobs cfg) - set (take i (Order g)).
          cfg_needs cfg n \<subseteq> set (take i (Order g)) \<longrightarrow> Order g ! i \<le> n))"
  using Compile_Inr [OF validated_compilable [OF assms(1,2)] assms(3)]
  by (auto simp: least_topological_def candidates_graph_nodes)

lemma sample_compiles:
  obtains g where "Compile sample_pipeline = Inr g" "length (Order g) = 2"
proof -
  obtain g where g: "Compile sample_pipeline = Inr g"
    using acyclic_compiles [OF sample_compilable sample_acyclic] by blast
  moreover have "length (Order g) = 2"
    using Compile_Inr(4) [OF sample_compilable g] by (simp add: sample_pipeline_def)
  ultimately show thesis using that by blast
qed

theorem Compile_order_witness:
  "\<exists>g. Compile sample_pipeline = Inr g \<and> Order g ! 0 \<le> ''build''"
proof -
  obtain g where g: "Compile sample_pipeline = Inr g" "length (Order g) = 2" by (rule sample_compiles)
  have "''build'' \<in> fst ` set (Jobs sample_pipeline)" by (simp add: sample_pipeline_def)
  then have "Order g ! 0 \<le> ''build''"
    using Compile_order [OF sample_pipeline_keys sample_pipeline_accepted g(1)] g(2) sample_needs [of "''build''"]
    by force
  with g show ?thesis by blast
qed

text \<open>C31. The compiled order does not depend on the iteration order of Go's maps: two
  association lists of the same jobs compile to the same order.\<close>

theorem Compile_order_independent:
  assumes "distinct (map fst js)" and "distinct (map fst js')" and "set js = set js'"
    and "Validate \<lparr> Version = v, Jobs = js \<rparr> = Inr ()" and "Compile \<lparr> Version = v, Jobs = js \<rparr> = Inr g"
  shows "\<exists>g'. Compile \<lparr> Version = v, Jobs = js' \<rparr> = Inr g' \<and> Order g' = Order g"
proof -
  let ?c = "\<lparr> Version = v, Jobs = js \<rparr>" and ?c' = "\<lparr> Version = v, Jobs = js' \<rparr>"
  have "Validate ?c' = Inr ()" using Validate_permuted [OF assms(1-3)] assms(4) by metis
  then have c: "compilable ?c" "compilable ?c'" using assms by (auto intro!: validated_compilable)
  have "map_of js = map_of js'" using assms by (metis map_of_inject_set)
  then have needs: "cfg_needs ?c = cfg_needs ?c'" by (simp add: cfg_needs_def fun_eq_iff)
  then have same: "candidates (graph_nodes ?c) done = candidates (graph_nodes ?c') done" for "done"
    using assms(3) by (simp add: candidates_graph_nodes)
  have "acyclic (need_rel ?c')"
    using ordered_acyclic [OF Compile_Inr(2) [OF c(1) assms(5)]] Compile_Inr(3) [OF c(1) assms(5)] needs
    by (simp add: need_rel_def)
  then obtain g' where g': "Compile ?c' = Inr g'" using acyclic_compiles [OF c(2)] by blast
  have "length js = length js'" using assms(1-3) by (metis distinct_card length_map list.set_map)
  then have "Order g = Order g'"
    using Compile_Inr [OF c(1) assms(5)] Compile_Inr [OF c(2) g'] same
    by (intro least_topological_unique [of "graph_nodes ?c" _ "graph_nodes ?c'"]) simp_all
  with g' show ?thesis by simp
qed

theorem Compile_order_independent_witness:
  "\<exists>g g'. Compile sample_pipeline = Inr g \<and>
     Compile \<lparr> Version = 1, Jobs = [(''build'', sample_build), (''smoke'', sample_smoke)] \<rparr> = Inr g' \<and> Order g' = Order g"
proof -
  obtain g where "Compile sample_pipeline = Inr g" by (rule sample_compiles)
  then show ?thesis
    using Compile_order_independent [of "Jobs sample_pipeline" "rev (Jobs sample_pipeline)" 1 g]
      sample_pipeline_keys sample_pipeline_accepted by (auto simp: sample_pipeline_def)
qed

text \<open>When compilation of a validated pipeline fails, the report is a dependency cycle: a
  non-empty, sorted, duplicate-free list of jobs of the pipeline each of which needs another job of the
  list, so that the list contains a cycle.\<close>

theorem Compile_cycle_report:
  assumes "distinct (map fst (Jobs cfg))" and "Validate cfg = Inr ()" and "Compile cfg = Inl e"
  shows "\<exists>names. e = DependencyCycle names \<and> names \<noteq> [] \<and> sorted names \<and> distinct names \<and>
    set names \<subseteq> fst ` set (Jobs cfg) \<and> (\<forall>n \<in> set names. \<exists>d \<in> set names. d \<in> cfg_needs cfg n)"
  using Compile_Inl [OF validated_compilable [OF assms(1,2)] assms(3)] by metis

definition sample_plain :: "string list \<Rightarrow> Job" where
  "sample_plain needs = \<lparr> Needs = needs, Image = None, Steps = [\<lparr> Run = ''x'' \<rparr>],
     JobArtifacts = \<lparr> Upload = [], Download = [] \<rparr>, JobCache = \<lparr> Restore = [], Save = [] \<rparr> \<rparr>"

definition sample_cycle :: Pipeline where
  "sample_cycle = \<lparr> Version = 1, Jobs = [(''b'', sample_plain [''a'']), (''a'', sample_plain [''b'']), (''c'', sample_plain [])] \<rparr>"

lemma sample_cycle_validates: "Validate sample_cycle = Inr ()" "distinct (map fst (Jobs sample_cycle))"
  by (simp_all add: Validate_def sample_cycle_def sorted_names_def validate_job_def sample_plain_def
      image_ok_def validateArtifacts_def validateCache_def alnum_def check_def text_evals)

theorem Compile_cycle_report_witness:
  "\<exists>names. Compile sample_cycle = Inl (DependencyCycle names) \<and> names \<noteq> []"
proof -
  have needs: "cfg_needs sample_cycle n = (if n = ''a'' then {''b''} else if n = ''b'' then {''a''} else {})" for n
    by (simp add: cfg_needs_def sample_cycle_def sample_plain_def)
  have "Compile sample_cycle \<noteq> Inr g" for g
  proof
    assume g: "Compile sample_cycle = Inr g"
    have "acyclic (need_rel sample_cycle)"
      using ordered_acyclic [OF Compile_Inr(2) [OF _ g]] Compile_Inr(3) [OF _ g]
        validated_compilable [OF sample_cycle_validates(2,1)] by (simp add: need_rel_def)
    moreover have "(''a'', ''a'') \<in> (need_rel sample_cycle)\<^sup>+"
      by (rule trancl_into_trancl [of _ "''b''"]) (auto simp: need_rel_def needs)
    ultimately show False by (simp add: acyclic_def)
  qed
  then obtain e where "Compile sample_cycle = Inl e" by (cases "Compile sample_cycle") auto
  then show ?thesis using Compile_cycle_report [OF sample_cycle_validates(2,1)] by blast
qed

end
