(* ===== verification/Scm.thy ===== *)
theory Scm
  imports Go_Text
begin

text \<open>
  \<open>internal/scm/scm.go\<close> and \<open>internal/scm/github/webhook.go\<close>: the provider-neutral
  source-control values, the normalisation of repository names and pipeline paths, the
  authentication of GitHub webhooks and their normalisation into events. HMAC-SHA256 (\<open>mac\<close>), the
  JSON decoder (\<open>unmarshal\<close>) and Unicode lower-casing beyond ASCII (\<open>lower_text\<close>) are
  arguments of the definitions that call them. Instants and durations are integers (nanoseconds).
\<close>

type_synonym time = int
type_synonym duration = int

section \<open>Data\<close>

datatype FailureKind = FailureTransient | FailurePermanent

datatype DeliveryStatus =
  DeliveryPending | DeliveryProcessing | DeliveryProcessed | DeliveryFailed | DeliveryIgnored

record Repository =
  RepoID :: string
  RepoProvider :: string
  FullName :: string
  PipelinePath :: string
  Enabled :: bool
  RepoCreatedAt :: time
  RepoUpdatedAt :: time

record Event =
  EvProvider :: string
  EvDeliveryID :: string
  EvRepositoryID :: string
  RepositoryFullName :: string
  EvEventType :: string
  EvAction :: string
  EvInstallationID :: string
  EvCommitSHA :: string
  EvRef :: string
  EvPullRequestNumber :: "int option"
  EvHeadRef :: string
  EvBaseRef :: string
  EvPayloadSHA256 :: string
  EvReceivedAt :: time

record Delivery =
  DvID :: string
  DvProvider :: string
  DvDeliveryID :: string
  DvRepositoryID :: string
  DvEventType :: string
  DvAction :: string
  DvInstallationID :: string
  DvCommitSHA :: string
  DvRef :: string
  DvPayloadSHA256 :: string
  DvPullRequestNumber :: "int option"
  DvHeadRef :: string
  DvBaseRef :: string
  DvStatus :: DeliveryStatus
  DvAttemptCount :: int
  DvNextAttemptAt :: "time option"
  DvLastError :: "string option"
  DvClaimToken :: "string option"
  DvClaimedBy :: "string option"
  DvClaimExpiresAt :: "time option"
  DvReceivedAt :: time
  DvProcessedAt :: "time option"

record RunTrigger =
  TrID :: string
  TrDeliveryID :: string
  TrRepositoryID :: string
  TrRunID :: string
  TrProvider :: string
  TrCommitSHA :: string
  TrRef :: string
  TrInstallationID :: string
  TrPullRequestNumber :: "int option"
  TrCheckRunID :: "string option"
  TrCheckState :: "string option"
  TrLastCheckError :: "string option"
  TrExternalID :: string
  TrDesiredStatus :: string
  TrDesiredConclusion :: "string option"
  TrLastConclusion :: "string option"
  TrClaimToken :: "string option"
  TrClaimedBy :: "string option"
  TrClaimExpiresAt :: "time option"
  TrNextAttemptAt :: "time option"
  TrAttemptCount :: int
  TrCreatedAt :: time
  TrUpdatedAt :: time

text \<open>\<open>scm.Failure\<close>: an error that is not marked is transient.\<close>

datatype 'e scm_error = Transient 'e | Permanent 'e | Unmarked 'e

fun Failure :: "'e scm_error \<Rightarrow> FailureKind" where
  "Failure (Permanent e) = FailurePermanent"
| "Failure (Transient e) = FailureTransient"
| "Failure (Unmarked e) = FailureTransient"

section \<open>Names and paths\<close>

definition ascii :: "string \<Rightarrow> bool" where
  "ascii s \<longleftrightarrow> list_all (\<lambda>c. byte c < 128) s"

definition to_lower :: "(string \<Rightarrow> string) \<Rightarrow> string \<Rightarrow> string" where
  "to_lower lower_text s = (if ascii s then map lower_char s else lower_text s)"

definition contains_any :: "string \<Rightarrow> string \<Rightarrow> bool" where
  "contains_any s cs \<longleftrightarrow> list_ex (\<lambda>c. c \<in> set cs) s"

datatype scm_invalid = UnsupportedProvider string | InvalidRepositoryName | InvalidPipelinePath
  | InvalidJSON string | InvalidPushSHA | InvalidPullRequest

definition repository_forbidden :: string where
  "repository_forbidden = [CHR '' '', CHR 0x09, CHR 0x0D, CHR 0x0A, CHR 0x00, CHR ''?'', CHR ''#'', CHR '':'', CHR 0x5C, CHR ''@'']"

definition bad_repository_part :: "string \<Rightarrow> bool" where
  "bad_repository_part w \<longleftrightarrow> w = '''' \<or> w = ''.'' \<or> w = ''..'' \<or> substring w ''..''"

definition NormalizeRepository :: "(string \<Rightarrow> string) \<Rightarrow> string \<Rightarrow> string \<Rightarrow> (scm_invalid, string) result" where
  "NormalizeRepository lower_text provider fullName =
    (if provider \<noteq> ''github'' then Inl (UnsupportedProvider provider)
     else if length fullName = 0 \<or> length fullName > 256 \<or> trim_space fullName \<noteq> fullName \<or>
       contains_any fullName repository_forbidden then Inl InvalidRepositoryName
     else (case split_on slash fullName of
         [a, b] \<Rightarrow> if bad_repository_part a \<or> bad_repository_part b then Inl InvalidRepositoryName
                   else Inr (to_lower lower_text fullName)
       | _ \<Rightarrow> Inl InvalidRepositoryName))"

definition ValidatePipelinePath :: "string \<Rightarrow> (scm_invalid, string) result" where
  "ValidatePipelinePath value =
    (if value = '''' \<or> length value > 512 \<or> CHR 0x00 \<in> set value \<or> CHR 0x5C \<in> set value \<or>
       has_prefix value ''/'' \<or> (length value \<ge> 2 \<and> value ! 1 = CHR '':'')
     then Inl InvalidPipelinePath
     else let clean = path_clean value in
       if clean = ''.'' \<or> clean = ''..'' \<or> clean \<noteq> value \<or> has_prefix clean ''../''
       then Inl InvalidPipelinePath else Inr clean)"

section \<open>Webhook authentication\<close>

definition hex_digit :: "char \<Rightarrow> nat option" where
  "hex_digit c =
    (if 48 \<le> byte c \<and> byte c \<le> 57 then Some (byte c - 48)
     else if 65 \<le> byte c \<and> byte c \<le> 70 then Some (byte c - 55)
     else if 97 \<le> byte c \<and> byte c \<le> 102 then Some (byte c - 87)
     else None)"

fun hex_decode :: "string \<Rightarrow> string option" where
  "hex_decode [] = Some []"
| "hex_decode [c] = None"
| "hex_decode (a # b # s) =
    (case (hex_digit a, hex_digit b, hex_decode s) of
       (Some x, Some y, Some t) \<Rightarrow> Some (char_of (16 * x + y) # t)
     | _ \<Rightarrow> None)"

definition SignatureHeaderMax :: nat where "SignatureHeaderMax = 80"
definition EventHeaderMax :: nat where "EventHeaderMax = 64"
definition DeliveryHeaderMax :: nat where "DeliveryHeaderMax = 256"

definition VerifySignature :: "(string \<Rightarrow> string \<Rightarrow> string) \<Rightarrow> string \<Rightarrow> string \<Rightarrow> string \<Rightarrow> bool" where
  "VerifySignature mac secret value body =
    (if length secret = 0 \<or> length value \<noteq> length ''sha256='' + 64 \<or> \<not> has_prefix value ''sha256='' then False
     else (case hex_decode (trim_prefix value ''sha256='') of
         None \<Rightarrow> False
       | Some supplied \<Rightarrow> if length supplied \<noteq> 32 then False else supplied = mac secret body))"

definition ValidateHeader :: "string \<Rightarrow> nat \<Rightarrow> bool" where
  "ValidateHeader value limit =
    (if value = '''' \<or> length value > limit then False
     else list_all (\<lambda>r. \<not> (r < 32 \<or> r = 127)) (runes value))"

section \<open>Webhook normalisation\<close>

record webhookEnvelope =
  WhAction :: string
  WhAfter :: string
  WhRef :: string
  WhInstallationID :: int
  WhFullName :: string
  WhNumber :: int
  WhDraft :: bool
  WhHeadSHA :: string
  WhHeadRef :: string
  WhBaseRef :: string

record Normalized =
  NmEvent :: Event
  Ignored :: bool

definition validSHA :: "string \<Rightarrow> bool" where
  "validSHA value = (if length value \<noteq> 40 \<and> length value \<noteq> 64 then False else hex_decode value \<noteq> None)"

definition isZeroSHA :: "string \<Rightarrow> bool" where
  "isZeroSHA value \<longleftrightarrow> value \<noteq> '''' \<and> trim_char (CHR ''0'') value = ''''"

definition validRef :: "string \<Rightarrow> bool" where
  "validRef value \<longleftrightarrow> value \<noteq> '''' \<and> length value \<le> 1024 \<and> \<not> contains_any value [CHR 0x00, CHR 0x0D, CHR 0x0A]"

text \<open>\<open>strconv.FormatInt\<close> of a positive number.\<close>

fun digits :: "nat \<Rightarrow> string" where
  "digits n = (if n < 10 then [char_of (48 + n)] else digits (n div 10) @ [char_of (48 + n mod 10)])"

declare digits.simps [simp del]

definition empty_event :: Event where
  "empty_event = \<lparr> EvProvider = [], EvDeliveryID = [], EvRepositoryID = [], RepositoryFullName = [],
     EvEventType = [], EvAction = [], EvInstallationID = [], EvCommitSHA = [], EvRef = [],
     EvPullRequestNumber = None, EvHeadRef = [], EvBaseRef = [], EvPayloadSHA256 = [], EvReceivedAt = 0 \<rparr>"

definition ignored :: Normalized where
  "ignored = \<lparr> NmEvent = empty_event, Ignored = True \<rparr>"

definition pull_request_actions :: "string list" where
  "pull_request_actions = [''opened'', ''reopened'', ''synchronize'', ''ready_for_review'', ''closed'']"

definition normalize_push :: "(string \<Rightarrow> string) \<Rightarrow> Event \<Rightarrow> webhookEnvelope \<Rightarrow> (scm_invalid, Normalized) result" where
  "normalize_push lower_text event env =
    (if \<not> has_prefix (WhRef env) ''refs/heads/'' \<or> isZeroSHA (WhAfter env) then Inr ignored
     else if \<not> validSHA (WhAfter env) then Inl InvalidPushSHA
     else Inr \<lparr> NmEvent = event\<lparr> EvEventType := ''push'', EvCommitSHA := to_lower lower_text (WhAfter env),
                                    EvRef := WhRef env \<rparr>, Ignored = False \<rparr>)"

definition normalize_pull_request :: "(string \<Rightarrow> string) \<Rightarrow> Event \<Rightarrow> webhookEnvelope \<Rightarrow> (scm_invalid, Normalized) result" where
  "normalize_pull_request lower_text event env =
    (if WhAction env \<notin> set pull_request_actions then Inr ignored
     else if WhNumber env < 1 \<or> \<not> validSHA (WhHeadSHA env) \<or> \<not> validRef (WhHeadRef env) \<or> \<not> validRef (WhBaseRef env)
       then Inl InvalidPullRequest
     else Inr \<lparr> NmEvent = event\<lparr> EvEventType := ''pull_request'', EvAction := WhAction env,
           EvCommitSHA := to_lower lower_text (WhHeadSHA env), EvPullRequestNumber := Some (WhNumber env),
           EvHeadRef := WhHeadRef env, EvBaseRef := WhBaseRef env \<rparr>,
         Ignored = (WhDraft env \<and> WhAction env \<noteq> ''ready_for_review'') \<or> WhAction env = ''closed'' \<rparr>)"

definition Normalize :: "(string \<Rightarrow> string) \<Rightarrow> (string \<Rightarrow> (string, webhookEnvelope) result) \<Rightarrow> string \<Rightarrow> string
    \<Rightarrow> string \<Rightarrow> time \<Rightarrow> (scm_invalid, Normalized) result" where
  "Normalize lower_text unmarshal eventName deliveryID body receivedAt =
    (if eventName = ''ping'' then Inr ignored
     else if eventName \<noteq> ''push'' \<and> eventName \<noteq> ''pull_request'' then Inr ignored
     else (case unmarshal body of
         Inl e \<Rightarrow> Inl (InvalidJSON e)
       | Inr env \<Rightarrow>
           rbind (NormalizeRepository lower_text ''github'' (WhFullName env)) (\<lambda>fullName.
           let installationID = (if WhInstallationID env > 0 then digits (nat (WhInstallationID env)) else '''');
               event = empty_event\<lparr> EvProvider := ''github'', EvDeliveryID := deliveryID,
                 RepositoryFullName := fullName, EvInstallationID := installationID, EvReceivedAt := receivedAt \<rparr>
           in if eventName = ''push'' then normalize_push lower_text event env
              else normalize_pull_request lower_text event env)))"

section \<open>Lemmas\<close>

definition hex_char :: "nat \<Rightarrow> char" where
  "hex_char x = char_of (if x < 10 then 48 + x else 87 + x)"

definition hex_encode :: "string \<Rightarrow> string" where
  "hex_encode s = concat (map (\<lambda>c. [hex_char (byte c div 16), hex_char (byte c mod 16)]) s)"

lemma byte_less [simp]: "byte c < 256"
  by (simp add: byte_def)

lemma byte_char_of: "n < 256 \<Longrightarrow> byte (char_of n) = n"
  by (simp add: byte_def)

lemma byte_inject: "byte c = byte d \<longleftrightarrow> c = d"
  by (simp add: byte_def)

lemma byte_lower: "byte (lower_char c) = (if 65 \<le> byte c \<and> byte c \<le> 90 then byte c + 32 else byte c)"
  by (simp add: lower_char_def byte_char_of)

lemma byte_hex_char: "x < 16 \<Longrightarrow> byte (hex_char x) = (if x < 10 then 48 + x else 87 + x)"
  by (simp add: hex_char_def byte_char_of)

lemma hex_digit_iff: "hex_digit c = Some x \<longleftrightarrow> x < 16 \<and> lower_char c = hex_char x"
proof -
  have "x < 16 \<Longrightarrow> lower_char c = hex_char x \<longleftrightarrow>
      (if 65 \<le> byte c \<and> byte c \<le> 90 then byte c + 32 else byte c) = (if x < 10 then 48 + x else 87 + x)"
    by (metis byte_hex_char byte_inject byte_lower)
  then show ?thesis by (auto simp: hex_digit_def split: if_splits)
qed

lemma byte_div [simp]: "byte c div 16 < 16"
  using byte_less [of c] by linarith

lemma byte_nibbles: "byte c = 16 * x + y \<and> x < 16 \<and> y < 16 \<longleftrightarrow> x = byte c div 16 \<and> y = byte c mod 16"
  using byte_less [of c] by auto

lemma char_of_nibbles: "x < 16 \<Longrightarrow> y < 16 \<Longrightarrow> char_of (16 * x + y) = c \<longleftrightarrow> x = byte c div 16 \<and> y = byte c mod 16"
  using byte_nibbles [of c x y] byte_char_of [of "16 * x + y"] byte_inject [of "char_of (16 * x + y)" c] by auto

text \<open>Decoding succeeds with \<open>m\<close> exactly on the hexadecimal spellings of \<open>m\<close>, in either case.\<close>

lemma hex_decode_iff: "hex_decode h = Some m \<longleftrightarrow> map lower_char h = hex_encode m"
proof (induction h arbitrary: m rule: hex_decode.induct)
  case 1
  then show ?case by (cases m) (auto simp: hex_encode_def)
next
  case (2 c)
  then show ?case by (cases m) (auto simp: hex_encode_def)
next
  case (3 a b s)
  show ?case
  proof (cases m)
    case Nil
    then show ?thesis by (auto simp: hex_encode_def split: option.splits)
  next
    case (Cons c t)
    have "hex_decode (a # b # s) = Some m \<longleftrightarrow>
        (\<exists>x y. hex_digit a = Some x \<and> hex_digit b = Some y \<and> hex_decode s = Some t \<and> char_of (16 * x + y) = c)"
      using Cons by (auto split: option.splits)
    also have "\<dots> \<longleftrightarrow> (hex_digit a = Some (byte c div 16) \<and> hex_digit b = Some (byte c mod 16) \<and> hex_decode s = Some t)"
      (is "?l \<longleftrightarrow> ?r")
    proof
      assume ?l
      then obtain x y where "hex_digit a = Some x" "hex_digit b = Some y" "hex_decode s = Some t" "char_of (16 * x + y) = c"
        by blast
      then show ?r using char_of_nibbles [of x y c] by (simp add: hex_digit_iff)
    next
      assume ?r
      then show ?l using char_of_nibbles [of "byte c div 16" "byte c mod 16" c] by auto
    qed
    also have "\<dots> \<longleftrightarrow> map lower_char (a # b # s) = hex_encode m"
      using "3.IH" Cons byte_less [of c] by (auto simp: hex_digit_iff hex_encode_def)
    finally show ?thesis .
  qed
qed

lemma length_hex_encode: "length (hex_encode m) = 2 * length m"
  by (induction m) (auto simp: hex_encode_def)

lemma repository_parts:
  assumes "NormalizeRepository lower_text provider fullName = Inr n"
  obtains a b where "provider = ''github''" "fullName = a @ slash # b" "slash \<notin> set a" "slash \<notin> set b"
    "\<not> bad_repository_part a" "\<not> bad_repository_part b" "n = to_lower lower_text fullName"
    "length fullName \<le> 256" "\<not> contains_any fullName repository_forbidden"
proof -
  from assms obtain a b where s: "split_on slash fullName = [a, b]" and rest: "provider = ''github''"
    "\<not> bad_repository_part a" "\<not> bad_repository_part b" "n = to_lower lower_text fullName"
    "length fullName \<le> 256" "\<not> contains_any fullName repository_forbidden"
    by (auto simp: NormalizeRepository_def split: if_splits list.splits)
  have "fullName = a @ slash # b" using s by (metis join_split join_with.simps(2,3))
  moreover have "slash \<notin> set a" "slash \<notin> set b"
    using split_on_no_sep [of _ slash fullName] s by auto
  ultimately show thesis using that rest by blast
qed

lemma hex_digit_ascii: "hex_digit c \<noteq> None \<Longrightarrow> byte c < 128"
  by (auto simp: hex_digit_def split: if_splits)

lemma hex_decode_ascii: "hex_decode h \<noteq> None \<Longrightarrow> ascii h"
proof (induction h rule: hex_decode.induct)
  case (3 a b s)
  then show ?case using hex_digit_ascii [of a] hex_digit_ascii [of b] by (auto simp: ascii_def split: option.splits)
qed (auto simp: ascii_def)

lemma lower_lower [simp]: "lower_char (lower_char c) = lower_char c"
  by (auto simp: byte_inject [symmetric] byte_lower)

lemma hex_decode_lower [simp]: "hex_decode (map lower_char h) = hex_decode h"
proof -
  have "hex_decode (map lower_char h) = Some m \<longleftrightarrow> hex_decode h = Some m" for m by (simp add: hex_decode_iff comp_def)
  then show ?thesis by (metis not_None_eq)
qed

lemma normalized_sha:
  assumes "validSHA v"
  shows "to_lower lower_text v = map lower_char v" and "validSHA (map lower_char v)"
  using assms hex_decode_ascii [of v] by (auto simp: validSHA_def to_lower_def split: if_splits)

section \<open>Properties\<close>

text \<open>A webhook signature is accepted exactly when a secret is configured and the header is
  \<open>sha256=\<close> followed by a hexadecimal spelling, in either case, of the HMAC of the body.\<close>

theorem VerifySignature_iff:
  assumes "\<And>k m. length (mac k m) = 32"
  shows "VerifySignature mac secret value body \<longleftrightarrow>
    secret \<noteq> [] \<and> (\<exists>h. value = ''sha256='' @ h \<and> map lower_char h = hex_encode (mac secret body))"
proof -
  have "VerifySignature mac secret value body \<longleftrightarrow>
    secret \<noteq> [] \<and> (\<exists>h. value = ''sha256='' @ h \<and> length h = 64 \<and> hex_decode h = Some (mac secret body))"
    using assms
    by (auto simp: VerifySignature_def has_prefix_iff trim_prefix_def split: option.splits if_splits)
  also have "\<dots> \<longleftrightarrow> secret \<noteq> [] \<and> (\<exists>h. value = ''sha256='' @ h \<and> map lower_char h = hex_encode (mac secret body))"
  proof -
    have "length h = 64" if "map lower_char h = hex_encode (mac secret body)" for h
      using arg_cong [OF that, of length] assms by (simp add: length_hex_encode)
    then show ?thesis by (auto simp: hex_decode_iff)
  qed
  finally show ?thesis .
qed

text \<open>\<open>ValidatePipelinePath\<close> accepts exactly the relative paths of at most 512 bytes made of
  plain names, with no NUL, no backslash and no drive letter, and returns them unchanged.\<close>

theorem ValidatePipelinePath_iff:
  "ValidatePipelinePath value = Inr p \<longleftrightarrow>
     p = value \<and> plain_path value \<and> length value \<le> 512 \<and> CHR 0x00 \<notin> set value \<and> CHR 0x5C \<notin> set value \<and>
     \<not> (2 \<le> length value \<and> value ! 1 = CHR '':'')"
proof -
  have "value \<noteq> '''' \<and> \<not> has_prefix value ''/'' \<and> \<not> (path_clean value = ''.'' \<or> path_clean value = ''..'' \<or>
      path_clean value \<noteq> value \<or> has_prefix (path_clean value) ''../'') \<longleftrightarrow> plain_path value"
    using canonical_iff_plain [of "value"] by (auto simp: path_is_abs_def)
  then show ?thesis by (auto simp: ValidatePipelinePath_def Let_def)
qed

lemma hex_encode_zeros: "hex_encode (replicate n CHR 0x00) = replicate (2 * n) CHR ''0''"
  by (induction n) (auto simp: hex_encode_def hex_char_def byte_def char_of_def bit_0)

theorem VerifySignature_iff_witness:
  "VerifySignature (\<lambda>k m. replicate 32 CHR 0x00) ''key'' (''sha256='' @ replicate 64 CHR ''0'') ''body''"
proof -
  have "map lower_char (replicate 64 CHR ''0'') = hex_encode (replicate 32 CHR 0x00)"
    by (simp add: hex_encode_zeros lower_char_def byte_def)
  then show ?thesis
    by (subst VerifySignature_iff) (simp, blast)
qed

text \<open>An event that is not ignored carries the delivery id and arrival time it came with, a
  lower-case commit hash of 40 or 64 hexadecimal digits, and is either a push to a branch or a
  non-draft (or just readied) pull request with a positive number that is being opened or updated.\<close>

theorem Normalize_event:
  assumes "Normalize lower_text unmarshal eventName deliveryID body receivedAt = Inr n" and "\<not> Ignored n"
  shows "EvDeliveryID (NmEvent n) = deliveryID \<and> EvReceivedAt (NmEvent n) = receivedAt \<and>
    EvProvider (NmEvent n) = ''github'' \<and> EvEventType (NmEvent n) = eventName \<and>
    validSHA (EvCommitSHA (NmEvent n)) \<and> map lower_char (EvCommitSHA (NmEvent n)) = EvCommitSHA (NmEvent n) \<and>
    (eventName = ''push'' \<and> has_prefix (EvRef (NmEvent n)) ''refs/heads/'' \<and> EvPullRequestNumber (NmEvent n) = None \<or>
     eventName = ''pull_request'' \<and> (\<exists>k \<ge> 1. EvPullRequestNumber (NmEvent n) = Some k) \<and>
       EvAction (NmEvent n) \<in> {''opened'', ''reopened'', ''synchronize'', ''ready_for_review''})"
proof -
  from assms have name: "eventName = ''push'' \<or> eventName = ''pull_request''"
    by (auto simp: Normalize_def ignored_def split: if_splits)
  with assms(1) obtain env where env: "unmarshal body = Inr env"
    by (cases "unmarshal body") (auto simp: Normalize_def)
  with name assms(1) obtain fullName where repo: "NormalizeRepository lower_text ''github'' (WhFullName env) = Inr fullName"
    by (cases "NormalizeRepository lower_text ''github'' (WhFullName env)") (auto simp: Normalize_def)
  obtain event where ev: "EvDeliveryID event = deliveryID" "EvReceivedAt event = receivedAt"
      "EvProvider event = ''github''" "EvPullRequestNumber event = None"
    and n: "eventName = ''push'' \<and> normalize_push lower_text event env = Inr n \<or>
      eventName = ''pull_request'' \<and> normalize_pull_request lower_text event env = Inr n"
    using assms(1) name
    by (intro that [of "empty_event\<lparr> EvProvider := ''github'', EvDeliveryID := deliveryID,
        RepositoryFullName := fullName, EvInstallationID := (if WhInstallationID env > 0 then digits (nat (WhInstallationID env)) else ''''),
        EvReceivedAt := receivedAt \<rparr>"]) (auto simp: Normalize_def env repo Let_def empty_event_def)
  from n show ?thesis
  proof
    assume p: "eventName = ''push'' \<and> normalize_push lower_text event env = Inr n"
    then have "validSHA (WhAfter env)" "has_prefix (WhRef env) ''refs/heads/''"
      using assms(2) by (auto simp: normalize_push_def ignored_def split: if_splits)
    then show ?thesis using p ev assms(2) normalized_sha(1) [of "WhAfter env" lower_text] normalized_sha(2) [of "WhAfter env"]
      by (auto simp: normalize_push_def ignored_def split: if_splits)
  next
    assume p: "eventName = ''pull_request'' \<and> normalize_pull_request lower_text event env = Inr n"
    then have "validSHA (WhHeadSHA env)" "WhAction env \<in> set pull_request_actions" "\<not> WhNumber env < 1"
      using assms(2) by (auto simp: normalize_pull_request_def ignored_def split: if_splits)
    then show ?thesis using p ev assms(2) normalized_sha(1) [of "WhHeadSHA env" lower_text] normalized_sha(2) [of "WhHeadSHA env"]
      by (auto simp: normalize_pull_request_def ignored_def pull_request_actions_def split: if_splits)
  qed
qed

definition sample_envelope :: webhookEnvelope where
  "sample_envelope = \<lparr> WhAction = '''', WhAfter = replicate 40 CHR ''A'', WhRef = ''refs/heads/main'',
     WhInstallationID = 7, WhFullName = ''octo/repo'', WhNumber = 0, WhDraft = False, WhHeadSHA = '''',
     WhHeadRef = '''', WhBaseRef = '''' \<rparr>"

lemma sample_push:
  "Normalize (\<lambda>s. s) (\<lambda>_. Inr sample_envelope) ''push'' ''d1'' ''body'' 5
     = Inr \<lparr> NmEvent = empty_event\<lparr> EvProvider := ''github'', EvDeliveryID := ''d1'', RepositoryFullName := ''octo/repo'',
         EvInstallationID := ''7'', EvReceivedAt := 5, EvEventType := ''push'',
         EvCommitSHA := replicate 40 CHR ''a'', EvRef := ''refs/heads/main'' \<rparr>, Ignored = False \<rparr>"
proof -
  have "isZeroSHA (replicate 40 CHR ''A'') = False" "validSHA (replicate 40 CHR ''A'')"
    by (simp_all add: isZeroSHA_def trim_char_def validSHA_def hex_digit_def byte_def numeral_eq_Suc)
  moreover have "NormalizeRepository (\<lambda>s. s) ''github'' ''octo/repo'' = Inr ''octo/repo''"
    by (simp add: NormalizeRepository_def bad_repository_part_def contains_any_def repository_forbidden_def
        to_lower_def ascii_def lower_char_def text_evals)
  moreover have "to_lower (\<lambda>s. s) (replicate 40 CHR ''A'') = replicate 40 CHR ''a''"
    by (simp add: to_lower_def ascii_def lower_char_def byte_def list_all_iff char_of_def bit_0)
  ultimately show ?thesis
    by (simp add: Normalize_def normalize_push_def sample_envelope_def has_prefix_def digits.simps empty_event_def char_of_def bit_0)
qed

theorem Normalize_event_witness:
  "Normalize (\<lambda>s. s) (\<lambda>_. Inr sample_envelope) ''push'' ''d1'' ''body'' 5 \<noteq> Inr ignored \<and>
   validSHA (replicate 40 CHR ''a'')"
  using Normalize_event [OF sample_push] by (simp add: sample_push ignored_def)

end
