(* ===== verification/Database.thy ===== *)
theory Database
  imports Pipeline_Config Scm "HOL-Library.Product_Lexorder"
begin

text \<open>
  The data of \<open>internal/store/store.go\<close> and the tables of \<open>internal/store/postgres\<close>. A
  table is the list of its rows, a nullable column an option, and a statement is a function on the
  whole database: \<open>exec_runs\<close>, \<open>exec_jobs\<close> and the others update the rows that satisfy
  the \<open>WHERE\<close> clause, report how many there were, and fail with \<open>ErrCheck\<close> when an updated
  row violates a \<open>CHECK\<close> constraint of the migrations. A transaction is a chain of statements
  that returns the new database with its result; an error returns none, which is the rollback. Each
  transaction is atomic.

  The struct \<open>Store\<close> becomes the record \<open>Store\<close>: the three settings of the Go struct, the
  YAML decoder that reading a stored pipeline calls, and the collation of the server,
  \<open>collate\<close>, the sort key that \<open>ORDER BY\<close> on a text column compares first (ties are
  broken bytewise). Identifiers are well-formed UUIDs.
\<close>

section \<open>Statuses\<close>

datatype RunStatus = RunQueued | RunRunning | RunPassed | RunFailed | RunCanceled | RunError | RunAborted

datatype JobStatus = JobPending | JobRunning | JobPassed | JobFailed | JobError | JobBlocked | JobCanceled | JobAborted

datatype RunnerStatus = RunnerOnline | RunnerOffline

fun Terminal :: "RunStatus \<Rightarrow> bool" where
  "Terminal RunPassed \<longleftrightarrow> True"
| "Terminal RunFailed \<longleftrightarrow> True"
| "Terminal RunCanceled \<longleftrightarrow> True"
| "Terminal RunError \<longleftrightarrow> True"
| "Terminal RunAborted \<longleftrightarrow> True"
| "Terminal _ \<longleftrightarrow> False"

datatype store_error =
    ErrNotFound
  | ErrConflict
  | ErrNoRows
  | ErrCheck
  | ErrUnique
  | ErrForeignKey
  | ErrMessage string
  | ErrParse "string parse_error"

section \<open>Rows\<close>

record SourceSnapshot =
  SourceDigest :: string
  BlobDigest :: string
  SnapFormat :: string
  SnapArchiveSize :: int
  SnapLogicalSize :: int
  SnapEntryCount :: int
  SnapCreatedAt :: time

record run_row =
  rid :: string
  rstatus :: RunStatus
  rfile :: string
  ryaml :: string
  rsha256 :: string
  rworkspace :: string
  rmax_parallel :: int
  rcreated_at :: time
  rstarted_at :: "time option"
  rfinished_at :: "time option"
  rcancel_at :: "time option"
  rerror :: "string option"
  rrunner :: "string option"
  rlease :: "string option"
  rgeneration :: int
  rlease_expires :: "time option"
  reffective :: "int option"
  rsnapshot :: "string option"

record job_row =
  jrun :: string
  jname :: string
  jstatus :: JobStatus
  jimage :: "string option"
  jstarted_at :: "time option"
  jfinished_at :: "time option"
  jerror :: "string option"
  jrunner :: "string option"
  jlease :: "string option"
  jgeneration :: int
  jlease_expires :: "time option"

record dep_row =
  drun :: string
  djob :: string
  dupstream :: string

record runner_row =
  wid :: string
  wname :: string
  wprotocol :: int
  wos :: string
  warch :: string
  wdocker :: bool
  wmax_parallel :: int
  wstatus :: RunnerStatus
  wregistered_at :: time
  wlast_seen :: time
  wcurrent_run :: "string option"

record Artifact =
  ArID :: string
  ArRunID :: string
  ArProducer :: string
  ArName :: string
  ArRootName :: string
  ArRootKind :: string
  ArContent :: string
  ArBlob :: string
  ArFormat :: string
  ArArchiveSize :: int
  ArLogicalSize :: int
  ArEntryCount :: int
  ArCreatedAt :: time
  ArExpiresAt :: "time option"
  ArDeletedAt :: "time option"

record CacheMetadata =
  CmID :: string
  CmWorkspace :: string
  CmKey :: string
  CmRootName :: string
  CmRootKind :: string
  CmContent :: string
  CmBlob :: string
  CmFormat :: string
  CmArchiveSize :: int
  CmLogicalSize :: int
  CmEntryCount :: int
  CmCreatedAt :: time
  CmLastAccessedAt :: time
  CmExpiresAt :: "time option"
  CmDeletedAt :: "time option"

record JobLogChunk =
  LgRunID :: string
  LgJobName :: string
  LgSequence :: int
  LgStream :: string
  LgCreatedAt :: time
  LgPayload :: string

record db =
  runs :: "run_row list"
  jobs :: "job_row list"
  deps :: "dep_row list"
  snapshots :: "SourceSnapshot list"
  runners :: "runner_row list"
  artifacts :: "Artifact list"
  caches :: "CacheMetadata list"
  logs :: "JobLogChunk list"
  repositories :: "Repository list"
  deliveries :: "Delivery list"
  triggers :: "RunTrigger list"

record Store =
  artifactRetention :: duration
  cacheRetention :: duration
  cacheMaxBytes :: int
  decode :: "string \<Rightarrow> (string, Pipeline) result"
  decode_extra :: "string \<Rightarrow> string extra_document"
  collate :: "string \<Rightarrow> string"

record ArtifactOwnership =
  OwRunID :: string
  OwRunnerID :: string
  OwLeaseID :: string
  OwJobName :: string
  OwGeneration :: int

type_synonym 'a tx = "(store_error, 'a \<times> db) result"

definition parse_stored :: "Store \<Rightarrow> string \<Rightarrow> (store_error, Pipeline) result" where
  "parse_stored s yaml = (case ParseBytes (decode s) (decode_extra s) yaml of
     Inl e \<Rightarrow> Inl (ErrParse e) | Inr cfg \<Rightarrow> Inr cfg)"

definition text_key :: "Store \<Rightarrow> string \<Rightarrow> string \<times> string" where
  "text_key s x = (collate s x, x)"

section \<open>Constraints of the migrations\<close>

definition remote_lease_consistent :: "run_row \<Rightarrow> bool" where
  "remote_lease_consistent r \<longleftrightarrow>
     (rrunner r = None \<and> rlease r = None \<and> rlease_expires r = None) \<or>
     (rrunner r \<noteq> None \<and> rlease r \<noteq> None \<and> rlease_expires r \<noteq> None \<and>
      (\<exists>n. reffective r = Some n \<and> n > 0) \<and> rgeneration r > 0)"

definition run_check :: "run_row \<Rightarrow> bool" where
  "run_check r \<longleftrightarrow> rmax_parallel r > 0 \<and> rgeneration r \<ge> 0 \<and>
     (case reffective r of None \<Rightarrow> True | Some n \<Rightarrow> n > 0) \<and> remote_lease_consistent r"

definition job_lease_consistent :: "job_row \<Rightarrow> bool" where
  "job_lease_consistent j \<longleftrightarrow>
     (jstatus j \<noteq> JobRunning \<and> jlease j = None \<and> jlease_expires j = None) \<or>
     (jstatus j = JobRunning \<and>
       ((jrunner j = None \<and> jlease j = None \<and> jgeneration j = 0 \<and> jlease_expires j = None) \<or>
        (jrunner j \<noteq> None \<and> jlease j \<noteq> None \<and> jgeneration j > 0 \<and> jlease_expires j \<noteq> None)))"

definition job_check :: "job_row \<Rightarrow> bool" where
  "job_check j \<longleftrightarrow> jgeneration j \<ge> 0 \<and> job_lease_consistent j"

definition artifact_check :: "Artifact \<Rightarrow> bool" where
  "artifact_check a \<longleftrightarrow> artifactNamePattern (ArName a) \<and>
     ArRootName a \<noteq> '''' \<and> CHR ''/'' \<notin> set (ArRootName a) \<and> CHR 0x5C \<notin> set (ArRootName a) \<and>
     ArRootKind a \<in> {''file'', ''directory''} \<and> lower_hex64 (ArContent a) \<and> lower_hex64 (ArBlob a) \<and>
     ArFormat a = ''artifact-tar-gzip-v1'' \<and> ArArchiveSize a \<ge> 0 \<and>
     ArLogicalSize a \<ge> 0 \<and> ArEntryCount a > 0 \<and> (ArDeletedAt a = None \<or> ArExpiresAt a \<noteq> None)"

section \<open>Statements\<close>

definition exec_runs :: "(run_row \<Rightarrow> bool) \<Rightarrow> (run_row \<Rightarrow> run_row) \<Rightarrow> db \<Rightarrow> nat tx" where
  "exec_runs P f d =
    (if list_all (\<lambda>r. P r \<longrightarrow> run_check (f r)) (runs d)
     then Inr (affected P (runs d), d\<lparr>runs := upd_where P f (runs d)\<rparr>) else Inl ErrCheck)"

definition exec_jobs :: "(job_row \<Rightarrow> bool) \<Rightarrow> (job_row \<Rightarrow> job_row) \<Rightarrow> db \<Rightarrow> nat tx" where
  "exec_jobs P f d =
    (if list_all (\<lambda>r. P r \<longrightarrow> job_check (f r)) (jobs d)
     then Inr (affected P (jobs d), d\<lparr>jobs := upd_where P f (jobs d)\<rparr>) else Inl ErrCheck)"

definition exec_artifacts :: "(Artifact \<Rightarrow> bool) \<Rightarrow> (Artifact \<Rightarrow> Artifact) \<Rightarrow> db \<Rightarrow> nat tx" where
  "exec_artifacts P f d =
    (if list_all (\<lambda>r. P r \<longrightarrow> artifact_check (f r)) (artifacts d)
     then Inr (affected P (artifacts d), d\<lparr>artifacts := upd_where P f (artifacts d)\<rparr>) else Inl ErrCheck)"

text \<open>\<open>runners_one_owner_per_run\<close> is a unique index on the non-null values.\<close>

definition exec_runners :: "(runner_row \<Rightarrow> bool) \<Rightarrow> (runner_row \<Rightarrow> runner_row) \<Rightarrow> db \<Rightarrow> nat tx" where
  "exec_runners P f d =
    (let rows = upd_where P f (runners d) in
     if \<not> list_all (\<lambda>r. wprotocol r > 0 \<and> wmax_parallel r > 0) rows then Inl ErrCheck
     else if \<not> distinct (List.map_filter wcurrent_run rows) then Inl ErrUnique
     else Inr (affected P (runners d), d\<lparr>runners := rows\<rparr>))"

text \<open>Expected number of rows: \<open>tag.RowsAffected() != 1\<close>.\<close>

definition one_row :: "store_error \<Rightarrow> nat tx \<Rightarrow> unit tx" where
  "one_row e t = rbind t (\<lambda>(n, d). if n = 1 then Inr ((), d) else Inl e)"

definition any_rows :: "nat tx \<Rightarrow> unit tx" where
  "any_rows t = rbind t (\<lambda>(n, d). Inr ((), d))"

section \<open>Lemmas on statements\<close>

lemma exec_runs_Inr: "exec_runs P f d = Inr (n, d') \<longleftrightarrow>
    (\<forall>r \<in> set (runs d). P r \<longrightarrow> run_check (f r)) \<and> n = affected P (runs d) \<and> d' = d\<lparr>runs := upd_where P f (runs d)\<rparr>"
  by (auto simp: exec_runs_def list_all_iff)

lemma exec_jobs_Inr: "exec_jobs P f d = Inr (n, d') \<longleftrightarrow>
    (\<forall>r \<in> set (jobs d). P r \<longrightarrow> job_check (f r)) \<and> n = affected P (jobs d) \<and> d' = d\<lparr>jobs := upd_where P f (jobs d)\<rparr>"
  by (auto simp: exec_jobs_def list_all_iff)

lemma exec_artifacts_Inr: "exec_artifacts P f d = Inr (n, d') \<longleftrightarrow>
    (\<forall>r \<in> set (artifacts d). P r \<longrightarrow> artifact_check (f r)) \<and> n = affected P (artifacts d) \<and>
    d' = d\<lparr>artifacts := upd_where P f (artifacts d)\<rparr>"
  by (auto simp: exec_artifacts_def list_all_iff)

lemma exec_runners_Inr: "exec_runners P f d = Inr (n, d') \<longleftrightarrow>
    (\<forall>r \<in> set (upd_where P f (runners d)). wprotocol r > 0 \<and> wmax_parallel r > 0) \<and>
    distinct (List.map_filter wcurrent_run (upd_where P f (runners d))) \<and>
    n = affected P (runners d) \<and> d' = d\<lparr>runners := upd_where P f (runners d)\<rparr>"
  by (auto simp: exec_runners_def list_all_iff Let_def)

lemma one_row_Inr: "one_row e t = Inr (u, d) \<longleftrightarrow> t = Inr (1, d)"
  by (auto simp: one_row_def rbind_eq_Inr split: if_splits)

lemma any_rows_Inr: "any_rows t = Inr (u, d) \<longleftrightarrow> (\<exists>n. t = Inr (n, d))"
  by (auto simp: any_rows_def rbind_eq_Inr)

lemmas exec_Inr = exec_runs_Inr exec_jobs_Inr exec_artifacts_Inr exec_runners_Inr one_row_Inr any_rows_Inr
  rbind_eq_Inr

lemma parse_stored_valid:
  assumes "parse_stored s yaml = Inr cfg" and "distinct (map fst (Jobs cfg))"
  shows "valid_pipeline cfg"
  using assms by (auto simp: parse_stored_def split: sum.splits intro: ParseBytes_valid)

end
