(* ===== verification/Job_Store.thy ===== *)
theory Job_Store
  imports Database
begin

text \<open>
  \<open>internal/store/postgres/jobs.go\<close>: leasing jobs to remote runners, renewing and completing
  leases, blocking the jobs downstream of a failure, finalising runs, expiring leases and recovering
  after a restart. \<open>now\<close> is the transaction time \<open>now()\<close> of PostgreSQL, \<open>clock\<close> the
  reading of \<open>time.Now()\<close>, \<open>lease\<close> the fresh UUID. The rows that concurrent transactions
  hold locked, which \<open>SKIP LOCKED\<close> passes over, are the argument \<open>locked\<close>; the iteration
  order of a Go map is the argument \<open>visit\<close>.
\<close>

section \<open>Leasing\<close>

definition jobLeaseTTL :: duration where "jobLeaseTTL = 30 * 1000000000"

record JobDefinition =
  DefImage :: "string option"
  DefSteps :: "string list"
  DefUploads :: "(string \<times> string) list"
  DefDownloads :: "(string \<times> string \<times> string) list"
  DefCacheRestore :: "(string \<times> string) list"
  DefCacheSave :: "(string \<times> string) list"

record JobLease =
  LsRunID :: string
  LsJobName :: string
  LsRunnerID :: string
  LsLeaseID :: string
  LsGeneration :: int
  LsExpiresAt :: time
  LsJob :: JobDefinition
  LsSnapshot :: SourceSnapshot

definition job_definition :: "Job \<Rightarrow> JobDefinition" where
  "job_definition job = \<lparr> DefImage = Image job, DefSteps = map Run (Steps job),
     DefUploads = map (\<lambda>u. (UpName u, UpPath u)) (Upload (JobArtifacts job)),
     DefDownloads = map (\<lambda>d. (From d, DlName d, Into d)) (Download (JobArtifacts job)),
     DefCacheRestore = map (\<lambda>c. (Key c, CachePath c)) (Restore (JobCache job)),
     DefCacheSave = map (\<lambda>c. (Key c, CachePath c)) (Save (JobCache job)) \<rparr>"

definition active_jobs :: "db \<Rightarrow> string \<Rightarrow> nat" where
  "active_jobs d runner = affected (\<lambda>j. jrunner j = Some runner \<and> jstatus j = JobRunning) (jobs d)"

definition running_in :: "db \<Rightarrow> string \<Rightarrow> nat" where
  "running_in d run = affected (\<lambda>j. jrun j = run \<and> jstatus j = JobRunning) (jobs d)"

definition upstream_with :: "(JobStatus \<Rightarrow> bool) \<Rightarrow> db \<Rightarrow> job_row \<Rightarrow> bool" where
  "upstream_with Q d j = list_ex (\<lambda>e. drun e = jrun j \<and> djob e = jname j \<and>
     list_ex (\<lambda>u. jrun u = drun e \<and> jname u = dupstream e \<and> Q (jstatus u)) (jobs d)) (deps d)"

definition leasable :: "bool \<Rightarrow> db \<Rightarrow> run_row \<times> job_row \<times> SourceSnapshot \<Rightarrow> bool" where
  "leasable docker d c = (case c of (p, j, sn) \<Rightarrow>
     jrun j = rid p \<and> rsnapshot p = Some (SourceDigest sn) \<and>
     rstatus p \<in> {RunQueued, RunRunning} \<and> rcancel_at p = None \<and> jstatus j = JobPending \<and>
     (docker \<or> jimage j = None) \<and>
     \<not> upstream_with (\<lambda>st. st \<noteq> JobPassed) d j \<and>
     int (running_in d (rid p)) < rmax_parallel p)"

definition lease_candidates :: "bool \<Rightarrow> (run_row \<times> job_row \<Rightarrow> bool) \<Rightarrow> db \<Rightarrow> (run_row \<times> job_row \<times> SourceSnapshot) list" where
  "lease_candidates docker locked d =
     filter (\<lambda>c. leasable docker d c \<and> \<not> locked (fst c, fst (snd c)))
       (List.product (runs d) (List.product (jobs d) (snapshots d)))"

definition lease_key :: "Store \<Rightarrow> run_row \<times> job_row \<times> SourceSnapshot \<Rightarrow> time \<times> string \<times> string \<times> string" where
  "lease_key s c = (case c of (p, j, _) \<Rightarrow> (rcreated_at p, rid p, text_key s (jname j)))"

definition coalesce :: "'a option \<Rightarrow> 'a \<Rightarrow> 'a option" where
  "coalesce x v = (case x of None \<Rightarrow> Some v | Some y \<Rightarrow> Some y)"

definition lease_row :: "time \<Rightarrow> time \<Rightarrow> string \<Rightarrow> string \<Rightarrow> job_row \<Rightarrow> job_row" where
  "lease_row now expires lease runner j =
     j\<lparr> jstatus := JobRunning, jrunner := Some runner, jlease := Some lease,
        jgeneration := jgeneration j + 1, jlease_expires := Some expires,
        jstarted_at := coalesce (jstarted_at j) now, jfinished_at := None, jerror := None \<rparr>"

definition LeaseJob :: "Store \<Rightarrow> (run_row \<times> job_row \<Rightarrow> bool) \<Rightarrow> time \<Rightarrow> time \<Rightarrow> string \<Rightarrow> string \<Rightarrow> db
    \<Rightarrow> JobLease option tx" where
  "LeaseJob s locked now clock lease runnerID d =
    (case find (\<lambda>w. wid w = runnerID) (runners d) of
       None \<Rightarrow> Inl ErrNotFound
     | Some w \<Rightarrow>
       if wprotocol w \<noteq> 2 \<or> wstatus w \<noteq> RunnerOnline then Inl ErrConflict
       else if int (active_jobs d runnerID) \<ge> wmax_parallel w then Inr (None, d)
       else (case first_by (lease_key s) (lease_candidates (wdocker w) locked d) of
         None \<Rightarrow> Inr (None, d)
       | Some (p, j, sn) \<Rightarrow>
         rbind (parse_stored s (ryaml p)) (\<lambda>cfg.
         case map_of (Jobs cfg) (jname j) of
           None \<Rightarrow> Inl (ErrMessage ''leased job missing from pipeline'')
         | Some job \<Rightarrow>
           let expires = clock + jobLeaseTTL in
           rbind (one_row ErrConflict (exec_jobs
               (\<lambda>x. jrun x = rid p \<and> jname x = jname j \<and> jstatus x = JobPending)
               (lease_row now expires lease runnerID) d)) (\<lambda>(_, d1).
           rbind (any_rows (exec_runs (\<lambda>r. rid r = rid p \<and> rstatus r = RunQueued)
               (\<lambda>r. r\<lparr> rstatus := RunRunning, rstarted_at := coalesce (rstarted_at r) now \<rparr>) d1)) (\<lambda>(_, d2).
           case find (\<lambda>x. jrun x = rid p \<and> jname x = jname j) (jobs d2) of
             None \<Rightarrow> Inl ErrNoRows
           | Some x \<Rightarrow> Inr (Some \<lparr> LsRunID = rid p, LsJobName = jname j, LsRunnerID = runnerID, LsLeaseID = lease,
               LsGeneration = jgeneration x, LsExpiresAt = expires, LsJob = job_definition job,
               LsSnapshot = sn \<rparr>, d2))))))"

section \<open>Heartbeats\<close>

record LeaseHeartbeat =
  HbRunID :: string
  HbJobName :: string
  HbLeaseID :: string
  HbGeneration :: int

record LeaseHeartbeatResult =
  HrLease :: LeaseHeartbeat
  HrValid :: bool
  HrCancelRequested :: bool
  HrExpiresAt :: "time option"

text \<open>The fencing predicate every lease-holder statement carries in its \<open>WHERE\<close>.\<close>

definition owns :: "string \<Rightarrow> string \<Rightarrow> string \<Rightarrow> string \<Rightarrow> int \<Rightarrow> time \<Rightarrow> job_row \<Rightarrow> bool" where
  "owns run job runner lease gen now j \<longleftrightarrow> jrun j = run \<and> jname j = job \<and> jrunner j = Some runner \<and>
     jlease j = Some lease \<and> jgeneration j = gen \<and> jstatus j = JobRunning \<and>
     (case jlease_expires j of None \<Rightarrow> False | Some e \<Rightarrow> e > now)"

definition heartbeat_one :: "string \<Rightarrow> time \<Rightarrow> LeaseHeartbeat \<Rightarrow> db \<Rightarrow> LeaseHeartbeatResult tx" where
  "heartbeat_one runnerID now l d =
    (let expires = now + jobLeaseTTL;
         P = owns (HbRunID l) (HbJobName l) runnerID (HbLeaseID l) (HbGeneration l) now in
     case find (\<lambda>p. rid p = HbRunID l) (runs d) of
       None \<Rightarrow> Inr (\<lparr> HrLease = l, HrValid = False, HrCancelRequested = False, HrExpiresAt = None \<rparr>, d)
     | Some p \<Rightarrow>
       rbind (exec_jobs P (\<lambda>j. j\<lparr> jlease_expires := Some expires \<rparr>) d) (\<lambda>(n, d').
       if n = 0 then Inr (\<lparr> HrLease = l, HrValid = False, HrCancelRequested = False, HrExpiresAt = None \<rparr>, d)
       else Inr (\<lparr> HrLease = l, HrValid = True, HrCancelRequested = (rcancel_at p \<noteq> None),
                   HrExpiresAt = Some expires \<rparr>, d')))"

fun heartbeat_loop :: "string \<Rightarrow> time \<Rightarrow> LeaseHeartbeat list \<Rightarrow> db \<Rightarrow> LeaseHeartbeatResult list tx" where
  "heartbeat_loop runnerID now [] d = Inr ([], d)"
| "heartbeat_loop runnerID now (l # ls) d =
    rbind (heartbeat_one runnerID now l d) (\<lambda>(r, d1).
    rbind (heartbeat_loop runnerID now ls d1) (\<lambda>(rs, d2). Inr (r # rs, d2)))"

definition HeartbeatJobLeases :: "string \<Rightarrow> LeaseHeartbeat list \<Rightarrow> time \<Rightarrow> db \<Rightarrow> LeaseHeartbeatResult list tx" where
  "HeartbeatJobLeases runnerID leases now d =
    rbind (one_row ErrNotFound (exec_runners (\<lambda>w. wid w = runnerID)
      (\<lambda>w. w\<lparr> wlast_seen := now, wstatus := RunnerOnline \<rparr>) d)) (\<lambda>(_, d1).
    heartbeat_loop runnerID now leases d1)"

section \<open>Completion\<close>

definition artifactSetCommittedTx :: "Store \<Rightarrow> string \<Rightarrow> string \<Rightarrow> string \<Rightarrow> db \<Rightarrow> (store_error, bool) result" where
  "artifactSetCommittedTx s yaml run job d =
    rbind (parse_stored s yaml) (\<lambda>cfg.
    case map_of (Jobs cfg) job of
      None \<Rightarrow> Inl ErrNotFound
    | Some j \<Rightarrow>
      let actual = map ArName (sort_key (\<lambda>a. text_key s (ArName a))
            (filter (\<lambda>a. ArRunID a = run \<and> ArProducer a = job \<and> ArDeletedAt a = None) (artifacts d)));
          expected = sort (map UpName (Upload (JobArtifacts j)))
      in Inr (expected = actual))"

definition failed_status :: "JobStatus \<Rightarrow> bool" where
  "failed_status st \<longleftrightarrow> st \<in> {JobFailed, JobError, JobBlocked, JobCanceled, JobAborted}"

definition blockable :: "db \<Rightarrow> string \<Rightarrow> job_row \<Rightarrow> bool" where
  "blockable d run j \<longleftrightarrow> jrun j = run \<and> jstatus j = JobPending \<and> upstream_with failed_status d j"

definition block_row :: "time \<Rightarrow> job_row \<Rightarrow> job_row" where
  "block_row now j = j\<lparr> jstatus := JobBlocked, jfinished_at := Some now,
     jerror := Some ''upstream dependency did not pass'' \<rparr>"

lemma block_row_sel [simp]:
  "jrun (block_row now j) = jrun j" "jname (block_row now j) = jname j" "jstatus (block_row now j) = JobBlocked"
  "jgeneration (block_row now j) = jgeneration j" "jlease (block_row now j) = jlease j"
  "jlease_expires (block_row now j) = jlease_expires j" "jimage (block_row now j) = jimage j"
  "jrunner (block_row now j) = jrunner j"
  by (simp_all add: block_row_def)

function blockDependents :: "time \<Rightarrow> string \<Rightarrow> db \<Rightarrow> unit tx" where
  "blockDependents now run d =
    (case exec_jobs (blockable d run) (block_row now) d of
       Inl e \<Rightarrow> Inl e
     | Inr (n, d') \<Rightarrow> if n = 0 then Inr ((), d') else blockDependents now run d')"
  by pat_completeness auto
termination
proof (relation "measure (\<lambda>(now, run, d). affected (\<lambda>j. jrun j = run \<and> jstatus j = JobPending) (jobs d))")
  fix now run and d :: db and x n d'
  assume a: "exec_jobs (blockable d run) (block_row now) d = Inr x" "(n, d') = x" "n \<noteq> 0"
  then have e: "exec_jobs (blockable d run) (block_row now) d = Inr (n, d')" by simp
  have "affected (\<lambda>j. jrun j = run \<and> jstatus j = JobPending) (upd_where (blockable d run) (block_row now) (jobs d))
      + affected (blockable d run) (jobs d) = affected (\<lambda>j. jrun j = run \<and> jstatus j = JobPending) (jobs d)"
    by (rule affected_upd_lose) (simp add: blockable_def)
  then have "affected (\<lambda>j. jrun j = run \<and> jstatus j = JobPending) (jobs d')
      < affected (\<lambda>j. jrun j = run \<and> jstatus j = JobPending) (jobs d)"
    using e a(3) by (simp add: exec_jobs_Inr)
  then show "((now, run, d'), (now, run, d)) \<in>
      measure (\<lambda>(now, run, d). affected (\<lambda>j. jrun j = run \<and> jstatus j = JobPending) (jobs d))" by simp
qed simp

declare blockDependents.simps [simp del]

definition run_verdict :: "bool \<Rightarrow> JobStatus list \<Rightarrow> RunStatus" where
  "run_verdict cancel sts =
    (if JobError \<in> set sts then RunError
     else if JobAborted \<in> set sts then RunAborted
     else if cancel then RunCanceled
     else if JobFailed \<in> set sts \<or> JobBlocked \<in> set sts then RunFailed
     else RunPassed)"

definition expire_artifacts_of :: "Store \<Rightarrow> string \<Rightarrow> db \<Rightarrow> unit tx" where
  "expire_artifacts_of s run d =
    any_rows (exec_artifacts (\<lambda>a. ArRunID a = run \<and> ArExpiresAt a = None)
      (\<lambda>a. a\<lparr> ArExpiresAt := Option.bind (find (\<lambda>r. rid r = run) (runs d))
         (\<lambda>r. map_option (\<lambda>f. f + artifactRetention s) (rfinished_at r)) \<rparr>) d)"

definition finalizeRun :: "Store \<Rightarrow> time \<Rightarrow> string \<Rightarrow> db \<Rightarrow> unit tx" where
  "finalizeRun s now run d =
    (if 0 < affected (\<lambda>j. jrun j = run \<and> jstatus j \<in> {JobPending, JobRunning}) (jobs d) then Inr ((), d)
     else (case (find (\<lambda>r. rid r = run) (runs d), filter (\<lambda>j. jrun j = run) (jobs d)) of
         (None, _) \<Rightarrow> Inl ErrNoRows
       | (_, []) \<Rightarrow> Inl ErrNoRows
       | (Some p, js) \<Rightarrow>
         let status = run_verdict (rcancel_at p \<noteq> None) (map jstatus js) in
         rbind (exec_runs (\<lambda>r. rid r = run \<and> rstatus r \<in> {RunQueued, RunRunning})
             (\<lambda>r. r\<lparr> rstatus := status, rfinished_at := Some now,
                rerror := (if status = RunError then Some ''job infrastructure failure''
                           else if status = RunAborted then Some ''job execution ownership lost''
                           else rerror r) \<rparr>) d) (\<lambda>(n, d1).
         if n = 0 then Inr ((), d1) else expire_artifacts_of s run d1)))"

definition complete_row :: "time \<Rightarrow> JobStatus \<Rightarrow> string option \<Rightarrow> job_row \<Rightarrow> job_row" where
  "complete_row now status message j = j\<lparr> jstatus := status, jfinished_at := Some now, jerror := message,
     jlease := None, jlease_expires := None \<rparr>"

definition CompleteJob :: "Store \<Rightarrow> time \<Rightarrow> ArtifactOwnership \<Rightarrow> JobStatus \<Rightarrow> string option \<Rightarrow> db \<Rightarrow> unit tx" where
  "CompleteJob s now owner status message d =
    (if status \<notin> {JobPassed, JobFailed, JobError, JobCanceled} then Inl ErrConflict
     else (case (find (owns (OwRunID owner) (OwJobName owner) (OwRunnerID owner) (OwLeaseID owner)
                   (OwGeneration owner) now) (jobs d), find (\<lambda>r. rid r = OwRunID owner) (runs d)) of
         (Some _, Some p) \<Rightarrow>
           rbind (if status = JobPassed
                  then rbind (artifactSetCommittedTx s (ryaml p) (OwRunID owner) (OwJobName owner) d)
                         (\<lambda>ok. if ok then Inr () else Inl ErrConflict)
                  else Inr ()) (\<lambda>_.
           rbind (any_rows (exec_jobs (\<lambda>j. jrun j = OwRunID owner \<and> jname j = OwJobName owner)
               (complete_row now status message) d)) (\<lambda>(_, d1).
           rbind (if status \<noteq> JobPassed then blockDependents now (OwRunID owner) d1 else Inr ((), d1)) (\<lambda>(_, d2).
           finalizeRun s now (OwRunID owner) d2)))
       | _ \<Rightarrow> Inl ErrConflict))"

section \<open>Expiry and recovery\<close>

fun settle_runs :: "Store \<Rightarrow> time \<Rightarrow> string list \<Rightarrow> db \<Rightarrow> unit tx" where
  "settle_runs s now [] d = Inr ((), d)"
| "settle_runs s now (run # ids) d =
    rbind (blockDependents now run d) (\<lambda>(_, d1).
    rbind (finalizeRun s now run d1) (\<lambda>(_, d2). settle_runs s now ids d2))"

definition abort_row :: "time \<Rightarrow> string \<Rightarrow> job_row \<Rightarrow> job_row" where
  "abort_row at msg j = j\<lparr> jstatus := JobAborted, jfinished_at := Some at, jerror := Some msg,
     jlease := None, jlease_expires := None \<rparr>"

definition returning_runs :: "(job_row \<Rightarrow> bool) \<Rightarrow> db \<Rightarrow> string list" where
  "returning_runs P d = remdups (map jrun (filter P (jobs d)))"

definition lease_expired :: "time \<Rightarrow> job_row \<Rightarrow> bool" where
  "lease_expired t j \<longleftrightarrow> jstatus j = JobRunning \<and> (case jlease_expires j of None \<Rightarrow> False | Some e \<Rightarrow> e \<le> t)"

definition ExpireJobLeases :: "Store \<Rightarrow> (string list \<Rightarrow> string list) \<Rightarrow> time \<Rightarrow> time \<Rightarrow> db \<Rightarrow> unit tx" where
  "ExpireJobLeases s visit now clock d =
    rbind (any_rows (exec_jobs (lease_expired clock) (abort_row clock ''job lease expired'') d)) (\<lambda>(_, d1).
    rbind (settle_runs s now (visit (returning_runs (lease_expired clock) d)) d1) (\<lambda>(_, d2).
    any_rows (exec_runners (\<lambda>w. wlast_seen w < clock - jobLeaseTTL) (\<lambda>w. w\<lparr> wstatus := RunnerOffline \<rparr>) d2)))"

definition legacy_run :: "run_row \<Rightarrow> bool" where
  "legacy_run r \<longleftrightarrow> rstatus r = RunRunning \<and> rrunner r \<noteq> None"

fun abort_legacy :: "Store \<Rightarrow> time \<Rightarrow> string list \<Rightarrow> db \<Rightarrow> unit tx" where
  "abort_legacy s now [] d = Inr ((), d)"
| "abort_legacy s now (run # ids) d =
    rbind (any_rows (exec_jobs (\<lambda>j. jrun j = run \<and> jstatus j \<in> {JobPending, JobRunning})
      (\<lambda>j. j\<lparr> jstatus := JobAborted, jfinished_at := Some now,
              jerror := Some ''legacy run lease ownership lost'' \<rparr>) d)) (\<lambda>(_, d1).
    rbind (expire_artifacts_of s run d1) (\<lambda>(_, d2). abort_legacy s now ids d2))"

definition RecoverRemoteJobs :: "Store \<Rightarrow> (string list \<Rightarrow> string list) \<Rightarrow> time \<Rightarrow> db \<Rightarrow> unit tx" where
  "RecoverRemoteJobs s visit now d =
    rbind (any_rows (exec_runs legacy_run
      (\<lambda>r. r\<lparr> rstatus := RunAborted, rfinished_at := Some now,
              rerror := Some ''control plane restarted during legacy run lease'',
              rrunner := None, rlease := None, rlease_expires := None, reffective := None \<rparr>) d)) (\<lambda>(_, d1).
    rbind (abort_legacy s now (map rid (filter legacy_run (runs d))) d1) (\<lambda>(_, d2).
    rbind (any_rows (exec_jobs (\<lambda>j. jstatus j = JobRunning)
      (abort_row now ''control plane restarted during job execution'') d2)) (\<lambda>(_, d3).
    settle_runs s now (visit (returning_runs (\<lambda>j. jstatus j = JobRunning) d2)) d3)))"

section \<open>Table invariants\<close>

definition job_key :: "job_row \<Rightarrow> string \<times> string" where
  "job_key j = (jrun j, jname j)"

definition tables_ok :: "db \<Rightarrow> bool" where
  "tables_ok d \<longleftrightarrow>
     distinct (map rid (runs d)) \<and> distinct (map job_key (jobs d)) \<and> distinct (map wid (runners d)) \<and>
     (\<forall>j \<in> set (jobs d). jrun j \<in> rid ` set (runs d)) \<and>
     (\<forall>e \<in> set (deps d). (drun e, djob e) \<in> job_key ` set (jobs d) \<and> (drun e, dupstream e) \<in> job_key ` set (jobs d)) \<and>
     (\<forall>r \<in> set (runs d). run_check r) \<and> (\<forall>j \<in> set (jobs d). job_check j) \<and>
     (\<forall>a \<in> set (artifacts d). artifact_check a) \<and>
     (\<forall>w \<in> set (runners d). wprotocol w > 0 \<and> wmax_parallel w > 0) \<and>
     distinct (List.map_filter wcurrent_run (runners d))"

lemma tables_okD:
  assumes "tables_ok d"
  shows "distinct (map rid (runs d))" and "distinct (map job_key (jobs d))" and "distinct (map wid (runners d))"
    and "j \<in> set (jobs d) \<Longrightarrow> jrun j \<in> rid ` set (runs d)"
    and "e \<in> set (deps d) \<Longrightarrow> (drun e, djob e) \<in> job_key ` set (jobs d)"
    and "e \<in> set (deps d) \<Longrightarrow> (drun e, dupstream e) \<in> job_key ` set (jobs d)"
    and "r \<in> set (runs d) \<Longrightarrow> run_check r" and "j \<in> set (jobs d) \<Longrightarrow> job_check j"
    and "a \<in> set (artifacts d) \<Longrightarrow> artifact_check a"
    and "w \<in> set (runners d) \<Longrightarrow> wprotocol w > 0 \<and> wmax_parallel w > 0"
    and "distinct (List.map_filter wcurrent_run (runners d))"
  using assms by (auto simp: tables_ok_def)

lemma upd_key_set: "(\<And>r. k (f r) = k r) \<Longrightarrow> k ` set (upd_where P f rows) = k ` set rows"
  by (metis list.set_map map_upd_where)

lemma tables_ok_jobs:
  assumes "tables_ok d" and "exec_jobs P f d = Inr (n, d')" and "\<And>j. job_key (f j) = job_key j"
  shows "tables_ok d'"
proof -
  have d': "d' = d\<lparr>jobs := upd_where P f (jobs d)\<rparr>" and chk: "\<And>j. j \<in> set (jobs d) \<Longrightarrow> P j \<Longrightarrow> job_check (f j)"
    using assms(2) by (auto simp: exec_jobs_Inr)
  have keys: "map job_key (upd_where P f (jobs d)) = map job_key (jobs d)"
    using assms(3) by (rule map_upd_where)
  have "jrun j \<in> rid ` set (runs d) \<and> job_check j" if "j \<in> set (upd_where P f (jobs d))" for j
    using that
  proof (cases rule: in_upd_whereE)
    case (changed r)
    then show ?thesis using chk assms(3) [of r] tables_okD(4) [OF assms(1)] by (auto simp: job_key_def)
  qed (use tables_okD [OF assms(1)] in auto)
  then show ?thesis
    using assms(1) keys by (auto simp: tables_ok_def d' simp flip: set_map)
qed

lemma tables_ok_runs:
  assumes "tables_ok d" and "exec_runs P f d = Inr (n, d')" and "\<And>r. rid (f r) = rid r"
  shows "tables_ok d'"
proof -
  have d': "d' = d\<lparr>runs := upd_where P f (runs d)\<rparr>" and chk: "\<And>r. r \<in> set (runs d) \<Longrightarrow> P r \<Longrightarrow> run_check (f r)"
    using assms(2) by (auto simp: exec_runs_Inr)
  have "map rid (upd_where P f (runs d)) = map rid (runs d)" using assms(3) by (rule map_upd_where)
  moreover have "rid ` set (upd_where P f (runs d)) = rid ` set (runs d)" using assms(3) by (rule upd_key_set)
  moreover have "run_check r" if "r \<in> set (upd_where P f (runs d))" for r
    using that by (cases rule: in_upd_whereE) (use chk tables_okD [OF assms(1)] in auto)
  ultimately show ?thesis using assms(1) by (auto simp: tables_ok_def d')
qed

lemma tables_ok_artifacts:
  assumes "tables_ok d" and "exec_artifacts P f d = Inr (n, d')"
  shows "tables_ok d'"
proof -
  have d': "d' = d\<lparr>artifacts := upd_where P f (artifacts d)\<rparr>" and
    chk: "\<And>a. a \<in> set (artifacts d) \<Longrightarrow> P a \<Longrightarrow> artifact_check (f a)"
    using assms(2) by (auto simp: exec_artifacts_Inr)
  have "artifact_check a" if "a \<in> set (upd_where P f (artifacts d))" for a
    using that by (cases rule: in_upd_whereE) (use chk tables_okD [OF assms(1)] in auto)
  then show ?thesis using assms(1) by (auto simp: tables_ok_def d')
qed

lemma tables_ok_runners:
  assumes "tables_ok d" and "exec_runners P f d = Inr (n, d')" and "\<And>w. wid (f w) = wid w"
  shows "tables_ok d'"
  using assms(1,2) map_upd_where [of wid f P "runners d", OF assms(3)]
  by (auto simp: tables_ok_def exec_runners_Inr)

section \<open>Blocking\<close>

text \<open>The pending jobs with a failed job somewhere upstream, along pending jobs.\<close>

definition upstream_of :: "db \<Rightarrow> job_row \<Rightarrow> job_row \<Rightarrow> bool" where
  "upstream_of d j u \<longleftrightarrow> u \<in> set (jobs d) \<and>
     (\<exists>e \<in> set (deps d). drun e = jrun j \<and> djob e = jname j \<and> jrun u = drun e \<and> jname u = dupstream e)"

lemma upstream_with_iff: "upstream_with Q d j \<longleftrightarrow> (\<exists>u. upstream_of d j u \<and> Q (jstatus u))"
  by (auto simp: upstream_with_def upstream_of_def list_ex_iff)

inductive doomed :: "db \<Rightarrow> job_row \<Rightarrow> bool" for d where
  direct: "j \<in> set (jobs d) \<Longrightarrow> jstatus j = JobPending \<Longrightarrow> upstream_of d j u \<Longrightarrow> failed_status (jstatus u) \<Longrightarrow> doomed d j"
| inherited: "j \<in> set (jobs d) \<Longrightarrow> jstatus j = JobPending \<Longrightarrow> upstream_of d j u \<Longrightarrow> doomed d u \<Longrightarrow> doomed d j"

lemma doomed_pending: "doomed d j \<Longrightarrow> j \<in> set (jobs d) \<and> jstatus j = JobPending"
  by (induction rule: doomed.induct) auto

lemma failed_status_simps [simp]:
  "failed_status JobBlocked" "failed_status JobFailed" "failed_status JobError" "failed_status JobCanceled"
  "failed_status JobAborted" "\<not> failed_status JobPending" "\<not> failed_status JobRunning" "\<not> failed_status JobPassed"
  by (simp_all add: failed_status_def)

lemma upstream_of_block:
  assumes "upstream_of (d\<lparr>jobs := upd_where B (block_row now) (jobs d)\<rparr>) j u"
  obtains (same) "upstream_of d j u" "\<not> B u" | (blocked) v where "upstream_of d j v" "B v" "u = block_row now v"
proof -
  from assms have "u \<in> set (upd_where B (block_row now) (jobs d))" by (simp add: upstream_of_def)
  then show thesis
  proof (cases rule: in_upd_whereE)
    case kept
    then show ?thesis using assms same by (auto simp: upstream_of_def)
  next
    case (changed v)
    then show ?thesis using assms blocked [of v] by (auto simp: upstream_of_def)
  qed
qed

lemma doomed_after_block:
  assumes "doomed (d\<lparr>jobs := upd_where B (block_row now) (jobs d)\<rparr>) j" and "\<And>v. B v \<Longrightarrow> doomed d v"
  shows "doomed d j"
  using assms(1)
proof (induction rule: doomed.induct)
  case (direct j u)
  have j: "j \<in> set (jobs d)" using direct(1,2) by (auto elim!: in_upd_whereE)
  from direct(3) show ?case
  proof (cases rule: upstream_of_block)
    case same
    then show ?thesis using j direct doomed.direct by blast
  next
    case (blocked v)
    then show ?thesis using j direct(2) assms(2) doomed.inherited by blast
  qed
next
  case (inherited j u)
  have j: "j \<in> set (jobs d)" using inherited(1,2) by (auto elim!: in_upd_whereE)
  from inherited(3) show ?case
  proof (cases rule: upstream_of_block)
    case same
    then show ?thesis using j inherited doomed.inherited by blast
  next
    case (blocked v)
    then show ?thesis using j inherited(2) assms(2) doomed.inherited by blast
  qed
qed

lemma upd_where_compose:
  assumes "\<And>r. B r \<Longrightarrow> \<not> C (f r)"
  shows "upd_where C f (upd_where B f rows) = upd_where (\<lambda>r. B r \<or> C r) f rows"
  using assms by (induction rows) auto

lemma block_check: "job_check j \<Longrightarrow> jstatus j = JobPending \<Longrightarrow> job_check (block_row now j)"
  by (simp add: job_check_def job_lease_consistent_def)

lemma blockDependents_loop:
  assumes "\<And>j. j \<in> set (jobs d) \<Longrightarrow> job_check j"
  shows "\<exists>B. blockDependents now run d = Inr ((), d\<lparr>jobs := upd_where B (block_row now) (jobs d)\<rparr>) \<and>
    (\<forall>j. B j \<longrightarrow> doomed d j \<and> jrun j = run) \<and>
    (\<forall>j \<in> set (upd_where B (block_row now) (jobs d)).
       \<not> blockable (d\<lparr>jobs := upd_where B (block_row now) (jobs d)\<rparr>) run j)"
  using assms
proof (induction now run d rule: blockDependents.induct)
  case (1 now run d)
  let ?B = "\<lambda>j. j \<in> set (jobs d) \<and> blockable d run j"
  let ?d = "d\<lparr>jobs := upd_where ?B (block_row now) (jobs d)\<rparr>"
  have upd: "upd_where (blockable d run) (block_row now) (jobs d) = upd_where ?B (block_row now) (jobs d)"
    unfolding upd_where_def by (rule map_cong) auto
  have e: "exec_jobs (blockable d run) (block_row now) d = Inr (affected (blockable d run) (jobs d), ?d)"
    using "1.prems" block_check upd by (auto simp: exec_jobs_Inr blockable_def)
  have doom: "doomed d j \<and> jrun j = run" if "?B j" for j
    using that doomed.direct [of j d] by (auto simp: blockable_def upstream_with_iff)
  show ?case
  proof (cases "affected (blockable d run) (jobs d) = 0")
    case True
    then have "\<not> ?B j" for j by (auto simp: affected_0)
    then have same: "upd_where ?B (block_row now) (jobs d) = jobs d" by (intro upd_where_idle)
    have "blockDependents now run d = Inr ((), ?d)" using True by (subst blockDependents.simps) (simp add: e)
    moreover have "\<forall>j \<in> set (jobs d). \<not> blockable d run j" using True by (simp add: affected_0)
    ultimately show ?thesis using doom same by (intro exI [of _ ?B]) simp
  next
    case False
    have ok: "job_check j" if "j \<in> set (jobs ?d)" for j
      using that "1.prems" block_check by (auto elim!: in_upd_whereE simp: blockable_def)
    obtain C where C: "blockDependents now run ?d = Inr ((), ?d\<lparr>jobs := upd_where C (block_row now) (jobs ?d)\<rparr>)"
      "\<forall>j. C j \<longrightarrow> doomed ?d j \<and> jrun j = run"
      "\<forall>j \<in> set (upd_where C (block_row now) (jobs ?d)).
         \<not> blockable (?d\<lparr>jobs := upd_where C (block_row now) (jobs ?d)\<rparr>) run j"
      using "1.IH" [OF e refl False ok] by blast
    have "\<not> C (block_row now j)" for j using C(2) doomed_pending by fastforce
    then have comp: "upd_where C (block_row now) (jobs ?d) = upd_where (\<lambda>j. ?B j \<or> C j) (block_row now) (jobs d)"
      using upd_where_compose [of ?B C "block_row now" "jobs d"] by simp
    have "doomed d j \<and> jrun j = run" if "C j" for j
      using that C(2) doomed_after_block [where d = d and B = ?B and now = now and j = j] doom by blast
    moreover have "blockDependents now run d = Inr ((), ?d\<lparr>jobs := upd_where C (block_row now) (jobs ?d)\<rparr>)"
      using False C(1) by (subst blockDependents.simps) (simp add: e)
    ultimately show ?thesis
      using C(3) doom unfolding comp by (intro exI [of _ "\<lambda>j. ?B j \<or> C j"]) auto
  qed
qed

text \<open>The loop blocks exactly the doomed jobs of the run.\<close>

lemma blockDependents_exact:
  assumes "\<And>j. j \<in> set (jobs d) \<Longrightarrow> job_check j"
  shows "blockDependents now run d
    = Inr ((), d\<lparr>jobs := upd_where (\<lambda>j. doomed d j \<and> jrun j = run) (block_row now) (jobs d)\<rparr>)"
    and "j \<in> set (upd_where (\<lambda>j. doomed d j \<and> jrun j = run) (block_row now) (jobs d)) \<Longrightarrow>
      \<not> blockable (d\<lparr>jobs := upd_where (\<lambda>j. doomed d j \<and> jrun j = run) (block_row now) (jobs d)\<rparr>) run j"
proof -
  let ?u = "\<lambda>B. upd_where B (block_row now) (jobs d)"
  obtain B where B: "blockDependents now run d = Inr ((), d\<lparr>jobs := ?u B\<rparr>)"
    "\<And>j. B j \<Longrightarrow> doomed d j \<and> jrun j = run"
    "\<And>j. j \<in> set (?u B) \<Longrightarrow> \<not> blockable (d\<lparr>jobs := ?u B\<rparr>) run j"
    using blockDependents_loop [OF assms] by metis
  have img: "(if B v then block_row now v else v) \<in> set (?u B)" if "v \<in> set (jobs d)" for v
    using that by (auto simp: set_upd_where)
  have stuck: "B j" if "j \<in> set (jobs d)" "jstatus j = JobPending" "jrun j = run" "upstream_of d j v"
      "failed_status (jstatus v) \<or> B v" for j v
  proof (rule ccontr)
    assume nb: "\<not> B j"
    let ?v = "if B v then block_row now v else v"
    have "failed_status (jstatus ?v)" using that(5) by auto
    moreover have "upstream_of (d\<lparr>jobs := ?u B\<rparr>) j ?v" using that(4) img [of v] by (auto simp: upstream_of_def)
    ultimately have "blockable (d\<lparr>jobs := ?u B\<rparr>) run j" using that by (auto simp: blockable_def upstream_with_iff)
    then show False using B(3) img [OF that(1)] nb by auto
  qed
  have "doomed d j \<Longrightarrow> jrun j = run \<Longrightarrow> B j" for j
  proof (induction rule: doomed.induct)
    case (direct j u)
    then show ?case using stuck by blast
  next
    case (inherited j u)
    then show ?case using stuck [of j u] by (auto simp: upstream_of_def)
  qed
  then have eq: "B = (\<lambda>j. doomed d j \<and> jrun j = run)" using B(2) by blast
  show "blockDependents now run d = Inr ((), d\<lparr>jobs := ?u (\<lambda>j. doomed d j \<and> jrun j = run)\<rparr>)"
    using B(1) unfolding eq .
  show "j \<in> set (?u (\<lambda>j. doomed d j \<and> jrun j = run)) \<Longrightarrow>
      \<not> blockable (d\<lparr>jobs := ?u (\<lambda>j. doomed d j \<and> jrun j = run)\<rparr>) run j"
    using B(3) unfolding eq .
qed

end
