(* ===== verification/Run_Store.thy ===== *)
theory Run_Store
  imports Job_Store
begin

text \<open>
  \<open>internal/store/postgres/postgres.go\<close>, the part about runs and runners: creating and reading
  runs, the run-level claim and lease, job events of a run-level lease, cancellation and recovery. The
  artifact half of the file is in \<open>Artifact_Store\<close>.
\<close>

section \<open>Creating runs\<close>

record CreateRun =
  CrID :: string
  CrFile :: string
  CrSHA256 :: string
  CrWorkspace :: string
  CrYAML :: string
  CrMaxParallel :: int
  CrJobs :: "(string \<times> string option) list"
  CrDependencies :: "(string \<times> string) list"
  CrSnapshot :: "SourceSnapshot option"

definition snapshot_check :: "SourceSnapshot \<Rightarrow> bool" where
  "snapshot_check sn \<longleftrightarrow> lower_hex64 (SourceDigest sn) \<and> lower_hex64 (BlobDigest sn) \<and>
     SnapFormat sn = ''tar-gzip-v1'' \<and> SnapArchiveSize sn \<ge> 0 \<and> SnapLogicalSize sn \<ge> 0 \<and> SnapEntryCount sn \<ge> 0"

definition insert_snapshot :: "SourceSnapshot \<Rightarrow> db \<Rightarrow> unit tx" where
  "insert_snapshot sn d =
    (if \<not> snapshot_check sn then Inl ErrCheck
     else if SourceDigest sn \<in> SourceDigest ` set (snapshots d) then Inr ((), d)
     else Inr ((), d\<lparr>snapshots := snapshots d @ [sn]\<rparr>))"

definition same_snapshot :: "SourceSnapshot \<Rightarrow> SourceSnapshot \<Rightarrow> bool" where
  "same_snapshot a b \<longleftrightarrow> BlobDigest a = BlobDigest b \<and> SnapFormat a = SnapFormat b \<and>
     SnapArchiveSize a = SnapArchiveSize b \<and> SnapLogicalSize a = SnapLogicalSize b \<and> SnapEntryCount a = SnapEntryCount b"

definition new_run_row :: "time \<Rightarrow> CreateRun \<Rightarrow> string \<Rightarrow> run_row" where
  "new_run_row now cr digest = \<lparr> rid = CrID cr, rstatus = RunQueued, rfile = CrFile cr, ryaml = CrYAML cr,
     rsha256 = CrSHA256 cr, rworkspace = CrWorkspace cr, rmax_parallel = CrMaxParallel cr, rcreated_at = now,
     rstarted_at = None, rfinished_at = None, rcancel_at = None, rerror = None, rrunner = None, rlease = None,
     rgeneration = 0, rlease_expires = None, reffective = None, rsnapshot = Some digest \<rparr>"

definition new_job_row :: "string \<Rightarrow> string \<times> string option \<Rightarrow> job_row" where
  "new_job_row run j = \<lparr> jrun = run, jname = fst j, jstatus = JobPending, jimage = snd j, jstarted_at = None,
     jfinished_at = None, jerror = None, jrunner = None, jlease = None, jgeneration = 0, jlease_expires = None \<rparr>"

definition insert_run :: "run_row \<Rightarrow> db \<Rightarrow> unit tx" where
  "insert_run r d =
    (if \<not> run_check r then Inl ErrCheck
     else if rid r \<in> rid ` set (runs d) then Inl ErrUnique
     else Inr ((), d\<lparr>runs := runs d @ [r]\<rparr>))"

fun insert_jobs :: "string \<Rightarrow> (string \<times> string option) list \<Rightarrow> db \<Rightarrow> unit tx" where
  "insert_jobs run [] d = Inr ((), d)"
| "insert_jobs run (j # js) d =
    (if (run, fst j) \<in> job_key ` set (jobs d) then Inl ErrUnique
     else if run \<notin> rid ` set (runs d) then Inl ErrForeignKey
     else insert_jobs run js (d\<lparr>jobs := jobs d @ [new_job_row run j]\<rparr>))"

fun insert_deps :: "string \<Rightarrow> (string \<times> string) list \<Rightarrow> db \<Rightarrow> unit tx" where
  "insert_deps run [] d = Inr ((), d)"
| "insert_deps run ((a, b) # es) d =
    (if a = b then Inl ErrCheck
     else if \<lparr> drun = run, djob = a, dupstream = b \<rparr> \<in> set (deps d) then Inl ErrUnique
     else if (run, a) \<notin> job_key ` set (jobs d) \<or> (run, b) \<notin> job_key ` set (jobs d) then Inl ErrForeignKey
     else insert_deps run es (d\<lparr>deps := deps d @ [\<lparr> drun = run, djob = a, dupstream = b \<rparr>]\<rparr>))"

definition createRun :: "time \<Rightarrow> CreateRun \<Rightarrow> db \<Rightarrow> unit tx" where
  "createRun now cr d =
    (case CrSnapshot cr of
       None \<Rightarrow> Inl (ErrMessage ''source snapshot is required for new runs'')
     | Some sn \<Rightarrow>
       rbind (insert_snapshot sn d) (\<lambda>(_, d1).
       case find (\<lambda>x. SourceDigest x = SourceDigest sn) (snapshots d1) of
         None \<Rightarrow> Inl ErrNoRows
       | Some x \<Rightarrow>
         if \<not> same_snapshot x sn then Inl (ErrMessage ''conflicting source snapshot metadata'')
         else rbind (insert_run (new_run_row now cr (SourceDigest sn)) d1) (\<lambda>(_, d2).
           rbind (insert_jobs (CrID cr) (CrJobs cr) d2) (\<lambda>(_, d3).
           insert_deps (CrID cr) (CrDependencies cr) d3))))"

section \<open>Reading runs\<close>

record Run =
  RunRow :: run_row
  RunBlob :: string
  RunFormat :: string
  RunArchiveSize :: int
  RunLogicalSize :: int
  RunEntryCount :: int
  RunJobs :: "job_row list"

definition scanRun :: "db \<Rightarrow> run_row \<Rightarrow> Run" where
  "scanRun d r = (case Option.bind (rsnapshot r) (\<lambda>g. find (\<lambda>x. SourceDigest x = g) (snapshots d)) of
     Some sn \<Rightarrow> \<lparr> RunRow = r, RunBlob = BlobDigest sn, RunFormat = SnapFormat sn, RunArchiveSize = SnapArchiveSize sn,
       RunLogicalSize = SnapLogicalSize sn, RunEntryCount = SnapEntryCount sn, RunJobs = [] \<rparr>
   | None \<Rightarrow> \<lparr> RunRow = r, RunBlob = '''', RunFormat = '''', RunArchiveSize = 0, RunLogicalSize = 0,
       RunEntryCount = 0, RunJobs = [] \<rparr>)"

definition GetRun :: "Store \<Rightarrow> string \<Rightarrow> db \<Rightarrow> (store_error, Run) result" where
  "GetRun s run d =
    (case find (\<lambda>r. rid r = run) (runs d) of
       None \<Rightarrow> Inl ErrNotFound
     | Some r \<Rightarrow> Inr ((scanRun d r)\<lparr>RunJobs :=
         sort_key (\<lambda>j. text_key s (jname j)) (filter (\<lambda>j. jrun j = run) (jobs d))\<rparr>))"

definition CreateRun_op :: "Store \<Rightarrow> time \<Rightarrow> CreateRun \<Rightarrow> db \<Rightarrow> Run tx" where
  "CreateRun_op s now cr d =
    rbind (createRun now cr d) (\<lambda>(_, d1). rbind (GetRun s (CrID cr) d1) (\<lambda>r. Inr (r, d1)))"

definition ListRuns :: "int \<Rightarrow> db \<Rightarrow> (store_error, Run list) result" where
  "ListRuns limit d =
    (if limit < 0 then Inl ErrCheck
     else Inr (map (scanRun d) (take (nat limit) (rev (sort_key (\<lambda>r. (rcreated_at r, rid r)) (runs d))))))"

section \<open>Local execution\<close>

definition ClaimNextQueuedRun :: "Store \<Rightarrow> (run_row \<Rightarrow> bool) \<Rightarrow> time \<Rightarrow> db \<Rightarrow> Run option tx" where
  "ClaimNextQueuedRun s locked now d =
    (case first_by (\<lambda>r. (rcreated_at r, rid r)) (filter (\<lambda>r. rstatus r = RunQueued \<and> \<not> locked r) (runs d)) of
       None \<Rightarrow> Inr (None, d)
     | Some p \<Rightarrow>
       rbind (one_row ErrConflict (exec_runs (\<lambda>r. rid r = rid p \<and> rstatus r = RunQueued)
         (\<lambda>r. r\<lparr> rstatus := RunRunning, rstarted_at := Some now \<rparr>) d)) (\<lambda>(_, d1).
       rbind (GetRun s (rid p) d1) (\<lambda>run. Inr (Some run, d1))))"

definition FinishRun :: "Store \<Rightarrow> time \<Rightarrow> string \<Rightarrow> RunStatus \<Rightarrow> string option \<Rightarrow> db \<Rightarrow> unit tx" where
  "FinishRun s now run status message d =
    rbind (one_row ErrConflict (exec_runs (\<lambda>r. rid r = run \<and> rstatus r = RunRunning)
      (\<lambda>r. r\<lparr> rstatus := status, rfinished_at := Some now, rerror := message \<rparr>) d)) (\<lambda>(_, d1).
    expire_artifacts_of s run d1)"

definition artifactSetCommitted :: "Store \<Rightarrow> string \<Rightarrow> string \<Rightarrow> db \<Rightarrow> (store_error, bool) result" where
  "artifactSetCommitted s run job d =
    (case find (\<lambda>r. rid r = run) (runs d) of
       None \<Rightarrow> Inl ErrNotFound
     | Some r \<Rightarrow> artifactSetCommittedTx s (ryaml r) run job d)"

definition finished_statuses :: "JobStatus set" where
  "finished_statuses = {JobPassed, JobFailed, JobError, JobBlocked, JobCanceled, JobAborted}"

definition UpdateJob :: "Store \<Rightarrow> time \<Rightarrow> string \<Rightarrow> string \<Rightarrow> JobStatus \<Rightarrow> string option \<Rightarrow> db \<Rightarrow> unit tx" where
  "UpdateJob s now run job status message d =
    rbind (if status = JobPassed
           then rbind (artifactSetCommitted s run job d) (\<lambda>ok. if ok then Inr () else Inl ErrConflict)
           else Inr ()) (\<lambda>_.
    one_row ErrNotFound (exec_jobs (\<lambda>j. jrun j = run \<and> jname j = job)
      (\<lambda>j. j\<lparr> jstatus := status,
         jstarted_at := (if status = JobRunning then coalesce (jstarted_at j) now else jstarted_at j),
         jfinished_at := (if status \<in> finished_statuses then Some now else jfinished_at j),
         jerror := message \<rparr>) d))"

section \<open>Cancellation and recovery\<close>

definition CancelQueued :: "time \<Rightarrow> string \<Rightarrow> db \<Rightarrow> unit tx" where
  "CancelQueued now run d =
    rbind (one_row ErrConflict (exec_runs (\<lambda>r. rid r = run \<and> rstatus r = RunQueued)
      (\<lambda>r. r\<lparr> rstatus := RunCanceled, rcancel_at := Some now, rfinished_at := Some now \<rparr>) d)) (\<lambda>(_, d1).
    any_rows (exec_jobs (\<lambda>j. jrun j = run \<and> jstatus j = JobPending)
      (\<lambda>j. j\<lparr> jstatus := JobCanceled, jfinished_at := Some now \<rparr>) d1))"

definition cancel_row :: "time \<Rightarrow> job_row \<Rightarrow> job_row" where
  "cancel_row now j = j\<lparr> jstatus := JobCanceled, jfinished_at := Some now,
     jerror := Some ''run cancellation requested'' \<rparr>"

text \<open>The status that \<open>RequestCancel\<close> returns beside an error is the \<open>Inl\<close> pair's second half.\<close>

definition RequestCancel :: "Store \<Rightarrow> time \<Rightarrow> string \<Rightarrow> db \<Rightarrow> (store_error \<times> RunStatus option, RunStatus \<times> db) result" where
  "RequestCancel s now run d =
    (case exec_runs (\<lambda>r. rid r = run \<and> rstatus r = RunRunning)
        (\<lambda>r. r\<lparr> rcancel_at := coalesce (rcancel_at r) now \<rparr>) d of
       Inl e \<Rightarrow> Inl (e, None)
     | Inr (n, d1) \<Rightarrow>
       if n = 0 then (case GetRun s run d of
           Inl e \<Rightarrow> Inl (e, None) | Inr r \<Rightarrow> Inl (ErrConflict, Some (rstatus (RunRow r))))
       else (case rbind (any_rows (exec_jobs (\<lambda>j. jrun j = run \<and> jstatus j = JobPending) (cancel_row now) d1)) (\<lambda>(_, d2).
                  finalizeRun s now run d2) of
           Inl e \<Rightarrow> Inl (e, Some RunRunning)
         | Inr (_, d3) \<Rightarrow> Inr (RunRunning, d3)))"

fun abort_runs :: "Store \<Rightarrow> time \<Rightarrow> string \<Rightarrow> string list \<Rightarrow> db \<Rightarrow> unit tx" where
  "abort_runs s now msg [] d = Inr ((), d)"
| "abort_runs s now msg (run # ids) d =
    rbind (any_rows (exec_jobs (\<lambda>j. jrun j = run \<and> jstatus j \<in> {JobPending, JobRunning})
      (\<lambda>j. j\<lparr> jstatus := JobAborted, jfinished_at := Some now, jerror := Some msg \<rparr>) d)) (\<lambda>(_, d1).
    rbind (expire_artifacts_of s run d1) (\<lambda>(_, d2). abort_runs s now msg ids d2))"

definition RecoverInterrupted :: "Store \<Rightarrow> time \<Rightarrow> db \<Rightarrow> unit tx" where
  "RecoverInterrupted s now d =
    (let msg = ''control plane restarted before run completed'' in
     rbind (any_rows (exec_runs (\<lambda>r. rstatus r = RunRunning)
       (\<lambda>r. r\<lparr> rstatus := RunAborted, rfinished_at := Some now, rerror := Some msg \<rparr>) d)) (\<lambda>(_, d1).
     abort_runs s now msg (sort (map rid (filter (\<lambda>r. rstatus r = RunRunning) (runs d)))) d1))"

section \<open>Runners\<close>

definition RegisterRunner :: "time \<Rightarrow> runner_row \<Rightarrow> db \<Rightarrow> unit tx" where
  "RegisterRunner now w d =
    (if wid w \<in> wid ` set (runners d)
     then any_rows (exec_runners (\<lambda>x. wid x = wid w)
       (\<lambda>x. x\<lparr> wname := wname w, wprotocol := wprotocol w, wos := wos w, warch := warch w, wdocker := wdocker w,
          wmax_parallel := wmax_parallel w, wstatus := RunnerOnline, wlast_seen := now \<rparr>) d)
     else if wprotocol w \<le> 0 \<or> wmax_parallel w \<le> 0 then Inl ErrCheck
     else Inr ((), d\<lparr>runners := runners d @ [w\<lparr> wstatus := RunnerOnline, wregistered_at := now, wlast_seen := now,
       wcurrent_run := None \<rparr>]\<rparr>))"

definition GetRunner :: "string \<Rightarrow> db \<Rightarrow> (store_error, runner_row \<times> nat) result" where
  "GetRunner w d = (case find (\<lambda>x. wid x = w) (runners d) of
     None \<Rightarrow> Inl ErrNotFound | Some x \<Rightarrow> Inr (x, active_jobs d w))"

definition ListRunners :: "Store \<Rightarrow> db \<Rightarrow> (runner_row \<times> nat) list" where
  "ListRunners s d = map (\<lambda>x. (x, active_jobs d (wid x))) (sort_key (\<lambda>x. (text_key s (wname x), wid x)) (runners d))"

definition UpdateRunnerLiveness :: "string \<Rightarrow> time \<Rightarrow> db \<Rightarrow> unit tx" where
  "UpdateRunnerLiveness runnerID at d =
    one_row ErrNotFound (exec_runners (\<lambda>w. wid w = runnerID) (\<lambda>w. w\<lparr> wlast_seen := at, wstatus := RunnerOnline \<rparr>) d)"

section \<open>Run-level leases\<close>

definition runLeaseTTL :: duration where "runLeaseTTL = 30 * 1000000000"

definition run_has_image :: "db \<Rightarrow> run_row \<Rightarrow> bool" where
  "run_has_image d r = list_ex (\<lambda>j. jrun j = rid r \<and> jimage j \<noteq> None) (jobs d)"

definition LeaseRun :: "Store \<Rightarrow> (run_row \<Rightarrow> bool) \<Rightarrow> time \<Rightarrow> time \<Rightarrow> string \<Rightarrow> string \<Rightarrow> db \<Rightarrow> Run option tx" where
  "LeaseRun s locked now clock lease runnerID d =
    (case find (\<lambda>w. wid w = runnerID) (runners d) of
       None \<Rightarrow> Inl ErrNotFound
     | Some w \<Rightarrow>
       if wcurrent_run w \<noteq> None then Inr (None, d)
       else (case first_by (\<lambda>r. (rcreated_at r, rid r))
           (filter (\<lambda>r. rstatus r = RunQueued \<and> (wdocker w \<or> \<not> run_has_image d r) \<and> \<not> locked r) (runs d)) of
         None \<Rightarrow> Inr (None, d)
       | Some p \<Rightarrow>
         let effective = (if wmax_parallel w < rmax_parallel p then wmax_parallel w else rmax_parallel p) in
         rbind (one_row ErrConflict (exec_runs (\<lambda>r. rid r = rid p \<and> rstatus r = RunQueued)
           (\<lambda>r. r\<lparr> rstatus := RunRunning, rstarted_at := Some now, rrunner := Some runnerID, rlease := Some lease,
              rgeneration := rgeneration r + 1, rlease_expires := Some (clock + runLeaseTTL),
              reffective := Some effective \<rparr>) d)) (\<lambda>(_, d1).
         rbind (any_rows (exec_runners (\<lambda>x. wid x = runnerID) (\<lambda>x. x\<lparr> wcurrent_run := Some (rid p) \<rparr>) d1)) (\<lambda>(_, d2).
         rbind (GetRun s (rid p) d2) (\<lambda>run. Inr (Some run, d2))))))"

definition owns_run :: "string \<Rightarrow> string \<Rightarrow> string \<Rightarrow> int \<Rightarrow> time \<Rightarrow> run_row \<Rightarrow> bool" where
  "owns_run run runner lease gen now r \<longleftrightarrow> rid r = run \<and> rrunner r = Some runner \<and> rlease r = Some lease \<and>
     rgeneration r = gen \<and> rstatus r = RunRunning \<and> (case rlease_expires r of None \<Rightarrow> False | Some e \<Rightarrow> e > now)"

definition RenewLease :: "time \<Rightarrow> string \<Rightarrow> string \<Rightarrow> string \<Rightarrow> int \<Rightarrow> time \<Rightarrow> db \<Rightarrow> unit tx" where
  "RenewLease now run runner lease gen expires d =
    one_row ErrConflict (exec_runs (owns_run run runner lease gen now) (\<lambda>r. r\<lparr> rlease_expires := Some expires \<rparr>) d)"

definition event_allowed :: "JobStatus \<Rightarrow> JobStatus \<Rightarrow> bool" where
  "event_allowed old new \<longleftrightarrow> old = new \<or>
     (old = JobPending \<and> new \<in> {JobRunning, JobBlocked, JobCanceled}) \<or>
     (old = JobRunning \<and> new \<in> {JobPassed, JobFailed, JobCanceled})"

definition ReportJobEvent :: "Store \<Rightarrow> time \<Rightarrow> string \<Rightarrow> string \<Rightarrow> string \<Rightarrow> int \<Rightarrow> string \<Rightarrow> JobStatus \<Rightarrow> db \<Rightarrow> unit tx" where
  "ReportJobEvent s now run runner lease gen job status d =
    rbind (if status = JobPassed
           then rbind (artifactSetCommitted s run job d) (\<lambda>ok. if ok then Inr () else Inl ErrConflict)
           else Inr ()) (\<lambda>_.
    one_row ErrConflict (exec_jobs
      (\<lambda>j. list_ex (owns_run run runner lease gen now) (runs d) \<and> jrun j = run \<and> jname j = job \<and> event_allowed (jstatus j) status)
      (\<lambda>j. j\<lparr> jstatus := status,
         jstarted_at := (if status = JobRunning then coalesce (jstarted_at j) now else jstarted_at j),
         jfinished_at := (if status \<in> {JobPassed, JobFailed, JobBlocked, JobCanceled}
                          then coalesce (jfinished_at j) now else jfinished_at j) \<rparr>) d))"

definition CompleteRun :: "Store \<Rightarrow> time \<Rightarrow> string \<Rightarrow> string \<Rightarrow> string \<Rightarrow> int \<Rightarrow> RunStatus \<Rightarrow> string option \<Rightarrow> db \<Rightarrow> unit tx" where
  "CompleteRun s now run runner lease gen status message d =
    (if \<not> list_ex (owns_run run runner lease gen now) (runs d) then Inl ErrConflict
     else rbind (one_row ErrConflict (exec_runs (\<lambda>r. rid r = run \<and> rstatus r = RunRunning)
         (\<lambda>r. r\<lparr> rstatus := status, rfinished_at := Some now, rerror := message, rlease := None, rrunner := None,
            rlease_expires := None, reffective := None \<rparr>) d)) (\<lambda>(_, d1).
       rbind (expire_artifacts_of s run d1) (\<lambda>(_, d2).
       any_rows (exec_runners (\<lambda>w. wid w = runner) (\<lambda>w. w\<lparr> wcurrent_run := None \<rparr>) d2))))"

definition run_lease_expired :: "time \<Rightarrow> run_row \<Rightarrow> bool" where
  "run_lease_expired at r \<longleftrightarrow> rstatus r = RunRunning \<and> rrunner r \<noteq> None \<and>
     (case rlease_expires r of None \<Rightarrow> False | Some e \<Rightarrow> e < at)"

fun expire_run_leases :: "Store \<Rightarrow> time \<Rightarrow> string list \<Rightarrow> db \<Rightarrow> unit tx" where
  "expire_run_leases s now [] d = Inr ((), d)"
| "expire_run_leases s now (run # ids) d =
    rbind (any_rows (exec_runs (\<lambda>r. rid r = run)
      (\<lambda>r. r\<lparr> rstatus := RunAborted, rfinished_at := Some now, rerror := Some ''runner lease expired'', rlease := None,
         rrunner := None, rlease_expires := None, reffective := None \<rparr>) d)) (\<lambda>(_, d1).
    rbind (any_rows (exec_jobs (\<lambda>j. jrun j = run \<and> jstatus j \<in> {JobPending, JobRunning})
      (\<lambda>j. j\<lparr> jstatus := JobAborted, jfinished_at := Some now, jerror := Some ''runner lease expired'' \<rparr>) d1)) (\<lambda>(_, d2).
    rbind (expire_artifacts_of s run d2) (\<lambda>(_, d3). expire_run_leases s now ids d3)))"

definition ExpireLeases :: "Store \<Rightarrow> time \<Rightarrow> time \<Rightarrow> db \<Rightarrow> unit tx" where
  "ExpireLeases s now clock d =
    rbind (expire_run_leases s now (map rid (filter (run_lease_expired clock) (runs d))) d) (\<lambda>(_, d1).
    any_rows (exec_runners
      (\<lambda>w. list_ex (\<lambda>r. wcurrent_run w = Some (rid r) \<and> rstatus r = RunAborted) (runs d1))
      (\<lambda>w. w\<lparr> wstatus := RunnerOffline, wcurrent_run := None \<rparr>) d1))"

end
