(* ===== verification/Artifact_Store.thy ===== *)
theory Artifact_Store
  imports Run_Store "HOL-Library.Multiset"
begin

text \<open>
  \<open>internal/store/postgres/postgres.go\<close>, the artifact half: committing the declared artifact
  set of a job, reading artifacts back, and their retention. \<open>fresh i\<close> is the UUID generated for
  the \<open>i\<close>-th inserted row. The fence of \<open>CommitArtifacts\<close> is an SQL expression over nullable
  columns, so it has three values; scanning NULL into a Go \<open>bool\<close> is an error of the driver.

  The lemmas show that a commit is all or nothing, records exactly the declared set, can be repeated,
  can be read back, and satisfies the check that completing the job makes; and that expiry releases a
  blob only when no live artifact refers to it.
\<close>

section \<open>Digests and format\<close>

definition Format :: string where "Format = ''artifact-tar-gzip-v1''"

definition ValidDigest :: "string \<Rightarrow> bool" where
  "ValidDigest v = (if length v \<noteq> 64 then False else hex_decodes v)"

section \<open>Committing\<close>

text \<open>SQL conjunction: false if a conjunct is false, else NULL if one is NULL.\<close>

definition sql_and :: "bool option list \<Rightarrow> bool option" where
  "sql_and bs = (if Some False \<in> set bs then Some False else if None \<in> set bs then None else Some True)"

definition commit_fence :: "ArtifactOwnership \<Rightarrow> time \<Rightarrow> job_row \<Rightarrow> bool option" where
  "commit_fence owner now j =
    (if OwRunnerID owner = '''' then Some True
     else sql_and [map_option (\<lambda>x. x = OwRunnerID owner) (jrunner j), map_option (\<lambda>x. x = OwLeaseID owner) (jlease j),
       Some (jgeneration j = OwGeneration owner), map_option (\<lambda>e. e > now) (jlease_expires j)])"

definition expected_roots :: "Job \<Rightarrow> (string \<times> string) list" where
  "expected_roots job = map (\<lambda>u. (UpName u, path_base (UpPath u))) (Upload (JobArtifacts job))"

definition item_ok :: "ArtifactOwnership \<Rightarrow> string \<Rightarrow> Artifact \<Rightarrow> bool" where
  "item_ok owner root item \<longleftrightarrow>
    \<not> (ArProducer item \<noteq> OwJobName owner \<or> (ArRunID item \<noteq> '''' \<and> ArRunID item \<noteq> OwRunID owner) \<or>
       \<not> ValidDigest (ArContent item) \<or> \<not> ValidDigest (ArBlob item) \<or> ArFormat item \<noteq> Format \<or>
       ArRootName item \<noteq> root \<or> (ArRootKind item \<noteq> ''file'' \<and> ArRootKind item \<noteq> ''directory'') \<or>
       ArArchiveSize item < 0 \<or> ArLogicalSize item < 0 \<or> ArEntryCount item < 1)"

text \<open>The map of expected roots is built by assignment, so the last upload of a name wins.\<close>

fun check_items :: "ArtifactOwnership \<Rightarrow> (string \<times> string) list \<Rightarrow> string list \<Rightarrow> Artifact list \<Rightarrow> bool" where
  "check_items owner expected seen [] \<longleftrightarrow> True"
| "check_items owner expected seen (item # items) \<longleftrightarrow>
    (case map_of (rev expected) (ArName item) of
       None \<Rightarrow> False
     | Some root \<Rightarrow> ArName item \<notin> set seen \<and> item_ok owner root item \<and>
         check_items owner expected (ArName item # seen) items)"

definition same_metadata :: "Artifact \<Rightarrow> Artifact \<Rightarrow> bool" where
  "same_metadata x y \<longleftrightarrow> ArRootName x = ArRootName y \<and> ArRootKind x = ArRootKind y \<and> ArContent x = ArContent y \<and>
     ArBlob x = ArBlob y \<and> ArFormat x = ArFormat y \<and> ArArchiveSize x = ArArchiveSize y \<and>
     ArLogicalSize x = ArLogicalSize y \<and> ArEntryCount x = ArEntryCount y"

definition sameArtifactSet :: "Artifact list \<Rightarrow> Artifact list \<Rightarrow> bool" where
  "sameArtifactSet a b =
    (if length a \<noteq> length b then False
     else list_all (\<lambda>x. case map_of (rev (map (\<lambda>y. (ArName y, y)) b)) (ArName x) of
        None \<Rightarrow> False | Some y \<Rightarrow> same_metadata x y) a)"

definition artifact_key :: "Artifact \<Rightarrow> string \<times> string \<times> string" where
  "artifact_key a = (ArRunID a, ArProducer a, ArName a)"

definition artifact_row :: "string \<Rightarrow> ArtifactOwnership \<Rightarrow> Artifact \<Rightarrow> Artifact" where
  "artifact_row ident owner item = item\<lparr> ArID := ident, ArRunID := OwRunID owner, ArProducer := OwJobName owner,
     ArExpiresAt := None, ArDeletedAt := None \<rparr>"

fun insert_artifacts :: "(nat \<Rightarrow> string) \<Rightarrow> nat \<Rightarrow> ArtifactOwnership \<Rightarrow> Artifact list \<Rightarrow> db \<Rightarrow> unit tx" where
  "insert_artifacts fresh i owner [] d = Inr ((), d)"
| "insert_artifacts fresh i owner (item # items) d =
    (let row = artifact_row (fresh i) owner item in
     if \<not> artifact_check row then Inl ErrCheck
     else if ArID row \<in> ArID ` set (artifacts d) \<or> artifact_key row \<in> artifact_key ` set (artifacts d) then Inl ErrUnique
     else if (ArRunID row, ArProducer row) \<notin> job_key ` set (jobs d) then Inl ErrForeignKey
     else insert_artifacts fresh (Suc i) owner items (d\<lparr> artifacts := artifacts d @ [row] \<rparr>))"

definition artifacts_of :: "string \<Rightarrow> string \<Rightarrow> db \<Rightarrow> Artifact list" where
  "artifacts_of run job d = filter (\<lambda>a. ArRunID a = run \<and> ArProducer a = job) (artifacts d)"

definition CommitArtifacts :: "Store \<Rightarrow> (nat \<Rightarrow> string) \<Rightarrow> time \<Rightarrow> ArtifactOwnership \<Rightarrow> Artifact list \<Rightarrow> db \<Rightarrow> unit tx" where
  "CommitArtifacts s fresh now owner items d =
    (case (find (\<lambda>r. rid r = OwRunID owner \<and> rstatus r = RunRunning) (runs d),
           find (\<lambda>j. jrun j = OwRunID owner \<and> jname j = OwJobName owner) (jobs d)) of
       (Some p, Some j) \<Rightarrow>
         (case commit_fence owner now j of
            None \<Rightarrow> Inl (ErrMessage ''cannot scan NULL into *bool'')
          | Some valid \<Rightarrow>
            if \<not> valid \<or> jstatus j \<noteq> JobRunning then Inl ErrConflict
            else rbind (parse_stored s (ryaml p)) (\<lambda>cfg.
              case map_of (Jobs cfg) (OwJobName owner) of
                None \<Rightarrow> Inl ErrNotFound
              | Some job \<Rightarrow>
                let expected = expected_roots job in
                if length items \<noteq> length (remdups (map fst expected)) then Inl ErrConflict
                else if \<not> check_items owner expected [] items then Inl ErrConflict
                else
                  let existing = sort_key (\<lambda>a. text_key s (ArName a)) (artifacts_of (OwRunID owner) (OwJobName owner) d) in
                  if existing \<noteq> [] then
                    (if sameArtifactSet existing items then Inr ((), d) else Inl ErrConflict)
                  else insert_artifacts fresh 0 owner items d))
     | _ \<Rightarrow> Inl ErrNotFound)"

section \<open>Reading\<close>

text \<open>A scanned artifact is its row with the availability computed by the query.\<close>

definition scanArtifact :: "Artifact \<Rightarrow> Artifact \<times> bool" where
  "scanArtifact a = (a, ArDeletedAt a = None)"

definition readable_for :: "ArtifactOwnership \<Rightarrow> string \<Rightarrow> string \<Rightarrow> time \<Rightarrow> db \<Rightarrow> Artifact \<Rightarrow> bool" where
  "readable_for owner producer name now d a \<longleftrightarrow>
     ArRunID a = OwRunID owner \<and> ArProducer a = producer \<and> ArName a = name \<and> ArDeletedAt a = None \<and>
     list_ex (\<lambda>p. rid p = ArRunID a \<and> rstatus p = RunRunning) (runs d) \<and>
     list_ex (\<lambda>j. jrun j = ArRunID a \<and> jname j = ArProducer a \<and> jstatus j = JobPassed) (jobs d) \<and>
     list_ex (owns (ArRunID a) (OwJobName owner) (OwRunnerID owner) (OwLeaseID owner) (OwGeneration owner) now) (jobs d) \<and>
     list_ex (\<lambda>e. drun e = ArRunID a \<and> djob e = OwJobName owner \<and> dupstream e = ArProducer a) (deps d)"

definition GetArtifactForLease :: "ArtifactOwnership \<Rightarrow> string \<Rightarrow> string \<Rightarrow> time \<Rightarrow> db \<Rightarrow> (store_error, Artifact \<times> bool) result" where
  "GetArtifactForLease owner producer name now d =
    (case find (readable_for owner producer name now d) (artifacts d) of
       None \<Rightarrow> Inl ErrNotFound | Some a \<Rightarrow> Inr (scanArtifact a))"

definition ListArtifacts :: "Store \<Rightarrow> string \<Rightarrow> db \<Rightarrow> (store_error, (Artifact \<times> bool) list) result" where
  "ListArtifacts s run d =
    (let result = map scanArtifact (sort_key (\<lambda>a. (text_key s (ArProducer a), text_key s (ArName a)))
           (filter (\<lambda>a. ArRunID a = run) (artifacts d))) in
     if result = [] \<and> \<not> list_ex (\<lambda>r. rid r = run) (runs d) then Inl ErrNotFound else Inr result)"

definition GetArtifact :: "string \<Rightarrow> string \<Rightarrow> string \<Rightarrow> db \<Rightarrow> (store_error, Artifact \<times> bool) result" where
  "GetArtifact run job name d =
    (case find (\<lambda>a. ArRunID a = run \<and> ArProducer a = job \<and> ArName a = name) (artifacts d) of
       None \<Rightarrow> Inl ErrNotFound | Some a \<Rightarrow> Inr (scanArtifact a))"

section \<open>Retention\<close>

definition SetArtifactExpiry :: "string \<Rightarrow> time \<Rightarrow> db \<Rightarrow> unit tx" where
  "SetArtifactExpiry run at d =
    any_rows (exec_artifacts (\<lambda>a. ArRunID a = run \<and> ArExpiresAt a = None) (\<lambda>a. a\<lparr> ArExpiresAt := Some at \<rparr>) d)"

definition artifact_expired :: "time \<Rightarrow> Artifact \<Rightarrow> bool" where
  "artifact_expired now a \<longleftrightarrow> ArDeletedAt a = None \<and> (case ArExpiresAt a of None \<Rightarrow> False | Some e \<Rightarrow> e \<le> now)"

definition live_artifact_blob :: "db \<Rightarrow> string \<Rightarrow> bool" where
  "live_artifact_blob d digest = list_ex (\<lambda>a. ArBlob a = digest \<and> ArDeletedAt a = None) (artifacts d)"

definition ExpireArtifacts :: "time \<Rightarrow> db \<Rightarrow> string list tx" where
  "ExpireArtifacts now d =
    rbind (exec_artifacts (artifact_expired now) (\<lambda>a. a\<lparr> ArDeletedAt := Some now \<rparr>) d) (\<lambda>(_, d1).
    let candidates = remdups (map (\<lambda>a. trim_space (ArBlob a)) (filter (artifact_expired now) (artifacts d)));
        removable = filter (\<lambda>digest. \<not> live_artifact_blob d1 digest) candidates in
    Inr (sort removable, d1))"

definition LiveArtifactBlobs :: "db \<Rightarrow> string set" where
  "LiveArtifactBlobs d = set (map (\<lambda>a. trim_space (ArBlob a)) (filter (\<lambda>a. ArDeletedAt a = None) (artifacts d)))"

section \<open>Lemmas on committing\<close>

lemma artifact_row_sel [simp]:
  "ArRunID (artifact_row i owner item) = OwRunID owner" "ArProducer (artifact_row i owner item) = OwJobName owner"
  "ArName (artifact_row i owner item) = ArName item" "ArID (artifact_row i owner item) = i"
  "ArDeletedAt (artifact_row i owner item) = None" "ArExpiresAt (artifact_row i owner item) = None"
  "artifact_key (artifact_row i owner item) = (OwRunID owner, OwJobName owner, ArName item)"
  by (simp_all add: artifact_row_def artifact_key_def)

lemma artifact_row_metadata [simp]: "same_metadata (artifact_row i owner item) item"
  by (simp add: artifact_row_def same_metadata_def)

lemma map_of_rev_Some:
  "(\<exists>v. map_of (rev xs) k = Some v) \<longleftrightarrow> k \<in> fst ` set xs"
  by (metis map_of_eq_None_iff not_None_eq option.simps(3) set_rev)

lemma check_items_iff:
  "check_items owner expected seen items \<longleftrightarrow> distinct (map ArName items) \<and> set seen \<inter> ArName ` set items = {} \<and>
     (\<forall>item \<in> set items. \<exists>root. map_of (rev expected) (ArName item) = Some root \<and> item_ok owner root item)"
  by (induction items arbitrary: seen) (auto split: option.splits)

text \<open>As many items as declared names, all declared and pairwise different: exactly the declared names.\<close>

lemma checked_names:
  assumes "check_items owner (expected_roots job) [] items"
    and "length items = length (remdups (map fst (expected_roots job)))"
  shows "ArName ` set items = UpName ` set (Upload (JobArtifacts job))"
proof -
  have e: "fst ` set (expected_roots job) = UpName ` set (Upload (JobArtifacts job))"
    by (simp add: expected_roots_def image_image)
  have d: "distinct (map ArName items)"
    and "\<forall>item \<in> set items. \<exists>root. map_of (rev (expected_roots job)) (ArName item) = Some root"
    using assms(1) by (auto simp: check_items_iff)
  then have sub: "ArName ` set items \<subseteq> fst ` set (expected_roots job)"
    by (auto simp: map_of_rev_Some [symmetric])
  have "card (ArName ` set items) = length items" using d by (metis distinct_card length_map set_map)
  moreover have "card (fst ` set (expected_roots job)) = length items"
    using assms(2) by (metis length_remdups_card_conv set_map)
  ultimately have "ArName ` set items = fst ` set (expected_roots job)"
    using sub by (intro card_subset_eq) auto
  then show ?thesis using e by simp
qed

definition artifact_rows :: "(nat \<Rightarrow> string) \<Rightarrow> nat \<Rightarrow> ArtifactOwnership \<Rightarrow> Artifact list \<Rightarrow> Artifact list" where
  "artifact_rows fresh i owner items = map (\<lambda>(k, item). artifact_row (fresh k) owner item) (zip [i..<i + length items] items)"

lemma artifact_rows_simps [simp]:
  "artifact_rows fresh i owner [] = []"
  "artifact_rows fresh i owner (item # items) = artifact_row (fresh i) owner item # artifact_rows fresh (Suc i) owner items"
proof -
  show "artifact_rows fresh i owner [] = []" by (simp add: artifact_rows_def)
  have "[i..<i + length (item # items)] = i # [Suc i..<Suc i + length items]"
    by (simp add: upt_conv_Cons del: upt_Suc)
  then show "artifact_rows fresh i owner (item # items) =
      artifact_row (fresh i) owner item # artifact_rows fresh (Suc i) owner items"
    by (simp add: artifact_rows_def)
qed

lemma artifact_rows_names [simp]: "map ArName (artifact_rows fresh i owner items) = map ArName items"
  by (induction items arbitrary: i) auto

lemma artifact_rows_owner:
  "a \<in> set (artifact_rows fresh i owner items) \<Longrightarrow>
     ArRunID a = OwRunID owner \<and> ArProducer a = OwJobName owner \<and> ArDeletedAt a = None"
  by (induction items arbitrary: i) auto

lemma artifact_rows_metadata:
  "item \<in> set items \<Longrightarrow> \<exists>a \<in> set (artifact_rows fresh i owner items). ArName a = ArName item \<and> same_metadata a item"
  by (induction items arbitrary: i) fastforce+

lemma insert_artifacts_Inr:
  assumes "insert_artifacts fresh i owner items d = Inr (u, d')"
  shows "d' = d\<lparr> artifacts := artifacts d @ artifact_rows fresh i owner items \<rparr> \<and>
    (\<forall>a \<in> set (artifact_rows fresh i owner items). artifact_check a) \<and>
    (distinct (map artifact_key (artifacts d)) \<longrightarrow> distinct (map artifact_key (artifacts d')))"
  using assms
proof (induction items arbitrary: i d)
  case (Cons item items)
  let ?row = "artifact_row (fresh i) owner item"
  let ?d = "d\<lparr> artifacts := artifacts d @ [?row] \<rparr>"
  have new: "artifact_check ?row" "artifact_key ?row \<notin> artifact_key ` set (artifacts d)"
    and rest: "insert_artifacts fresh (Suc i) owner items ?d = Inr (u, d')"
    using Cons.prems by (auto simp: Let_def split: if_splits)
  have "distinct (map artifact_key (artifacts ?d))" if "distinct (map artifact_key (artifacts d))"
    using that new(2) by simp
  moreover note IH = Cons.IH [OF rest]
  moreover have "d' = d\<lparr> artifacts := artifacts d @ artifact_rows fresh i owner (item # items) \<rparr>" using IH by simp
  ultimately show ?case using new(1) by (simp del: distinct_map)
qed simp

section \<open>What a commit does\<close>

text \<open>The shape of a successful commit: who the caller is, what was declared, and the two ways it ends.\<close>

lemma CommitArtifacts_cases:
  assumes "CommitArtifacts s fresh now owner items d = Inr (u, d')"
  obtains p j cfg job where
    "find (\<lambda>r. rid r = OwRunID owner \<and> rstatus r = RunRunning) (runs d) = Some p"
    "find (\<lambda>j. jrun j = OwRunID owner \<and> jname j = OwJobName owner) (jobs d) = Some j"
    "commit_fence owner now j = Some True" "jstatus j = JobRunning"
    "parse_stored s (ryaml p) = Inr cfg" "map_of (Jobs cfg) (OwJobName owner) = Some job"
    "length items = length (remdups (map fst (expected_roots job)))" "check_items owner (expected_roots job) [] items"
    "artifacts_of (OwRunID owner) (OwJobName owner) d \<noteq> [] \<and> d' = d \<and>
       sameArtifactSet (sort_key (\<lambda>a. text_key s (ArName a)) (artifacts_of (OwRunID owner) (OwJobName owner) d)) items \<or>
     artifacts_of (OwRunID owner) (OwJobName owner) d = [] \<and> insert_artifacts fresh 0 owner items d = Inr ((), d')"
proof -
  from assms obtain p j where f: "find (\<lambda>r. rid r = OwRunID owner \<and> rstatus r = RunRunning) (runs d) = Some p"
    "find (\<lambda>j. jrun j = OwRunID owner \<and> jname j = OwJobName owner) (jobs d) = Some j"
    by (auto simp: CommitArtifacts_def split: option.splits)
  from assms have v: "commit_fence owner now j = Some True" "jstatus j = JobRunning"
    by (auto simp: CommitArtifacts_def f split: option.splits if_splits)
  from assms obtain cfg job where c: "parse_stored s (ryaml p) = Inr cfg" "map_of (Jobs cfg) (OwJobName owner) = Some job"
    by (auto simp: CommitArtifacts_def f v rbind_eq_Inr split: option.splits)
  have sort_Nil: "sort_key k xs = [] \<longleftrightarrow> xs = []" for k :: "Artifact \<Rightarrow> string \<times> string" and xs
    by (metis length_0_conv length_sort)
  from assms show thesis
    by (intro that [OF f v c]) (auto simp: CommitArtifacts_def f v c Let_def sort_Nil split: if_splits)
qed

lemma sameArtifactSet_iff:
  assumes "distinct (map ArName b)" and "distinct (map ArName a)"
  shows "sameArtifactSet a b \<longleftrightarrow> ArName ` set a = ArName ` set b \<and>
    (\<forall>x \<in> set a. \<forall>y \<in> set b. ArName x = ArName y \<longrightarrow> same_metadata x y)"
proof -
  let ?m = "map_of (rev (map (\<lambda>y. (ArName y, y)) b))"
  have m: "?m n = Some y \<longleftrightarrow> y \<in> set b \<and> ArName y = n" for n y
    using assms(1) by (subst map_of_eq_Some_iff) (auto simp: rev_map [symmetric] comp_def)
  have dom: "?m n = None \<longleftrightarrow> n \<notin> ArName ` set b" for n
    by (simp add: map_of_eq_None_iff image_image)
  have card: "card (ArName ` set a) = length a" "card (ArName ` set b) = length b"
    using assms by (metis distinct_card length_map set_map)+
  show ?thesis
  proof
    assume s: "sameArtifactSet a b"
    then have len: "length a = length b" and all: "\<forall>x \<in> set a. \<exists>y. ?m (ArName x) = Some y \<and> same_metadata x y"
      by (auto simp: sameArtifactSet_def list_all_iff split: if_splits option.splits)
    have all': "\<exists>y \<in> set b. ArName y = ArName x \<and> same_metadata x y" if "x \<in> set a" for x
      using bspec [OF all that] by (simp add: m) blast
    then have "ArName ` set a \<subseteq> ArName ` set b" by (metis (no_types, lifting) image_eqI image_subsetI)
    then have "ArName ` set a = ArName ` set b" using card len by (intro card_subset_eq) auto
    moreover have "same_metadata x y" if "x \<in> set a" "y \<in> set b" "ArName x = ArName y" for x y
      using all' [OF that(1)] key_unique [OF assms(1) that(2)] that(3) by metis
    ultimately show "ArName ` set a = ArName ` set b \<and>
        (\<forall>x \<in> set a. \<forall>y \<in> set b. ArName x = ArName y \<longrightarrow> same_metadata x y)" by blast
  next
    assume r: "ArName ` set a = ArName ` set b \<and> (\<forall>x \<in> set a. \<forall>y \<in> set b. ArName x = ArName y \<longrightarrow> same_metadata x y)"
    then have "length a = length b" using card by simp
    moreover have "case ?m (ArName x) of None \<Rightarrow> False | Some y \<Rightarrow> same_metadata x y" if x: "x \<in> set a" for x
    proof (cases "?m (ArName x)")
      case None
      then show ?thesis using dom x r by (metis imageI)
    next
      case (Some y)
      then show ?thesis using m [of "ArName x" y] r x by simp
    qed
    ultimately show "sameArtifactSet a b" by (simp add: sameArtifactSet_def list_all_iff)
  qed
qed

lemma artifacts_of_distinct: "distinct (map artifact_key (artifacts d)) \<Longrightarrow> distinct (map ArName (artifacts_of run job d))"
  by (auto simp: artifacts_of_def distinct_map artifact_key_def inj_on_def intro: distinct_filter)

text \<open>After a commit the rows of the job carry exactly the declared names and the items' metadata.\<close>

definition records_items :: "db \<Rightarrow> string \<Rightarrow> string \<Rightarrow> Artifact list \<Rightarrow> bool" where
  "records_items d run job items \<longleftrightarrow> ArName ` set (artifacts_of run job d) = ArName ` set items \<and>
     (\<forall>a \<in> set (artifacts_of run job d). \<forall>item \<in> set items. ArName a = ArName item \<longrightarrow> same_metadata a item)"

lemma CommitArtifacts_records:
  assumes c: "CommitArtifacts s fresh now owner items d = Inr (u, d')" and uniq: "distinct (map artifact_key (artifacts d))"
  shows "records_items d' (OwRunID owner) (OwJobName owner) items" and "distinct (map artifact_key (artifacts d'))"
proof -
  let ?of = "artifacts_of (OwRunID owner) (OwJobName owner)"
  have "records_items d' (OwRunID owner) (OwJobName owner) items \<and> distinct (map artifact_key (artifacts d'))"
    using c
  proof (rule CommitArtifacts_cases)
    fix p j cfg job
    assume chk: "check_items owner (expected_roots job) [] items"
      and or: "?of d \<noteq> [] \<and> d' = d \<and> sameArtifactSet (sort_key (\<lambda>a. text_key s (ArName a)) (?of d)) items \<or>
        ?of d = [] \<and> insert_artifacts fresh 0 owner items d = Inr ((), d')"
    have di: "distinct (map ArName items)" using chk by (simp add: check_items_iff)
    from or show ?thesis
    proof
      assume "?of d \<noteq> [] \<and> d' = d \<and> sameArtifactSet (sort_key (\<lambda>a. text_key s (ArName a)) (?of d)) items"
      moreover have "distinct (map ArName (sort_key k (?of d)))" for k :: "Artifact \<Rightarrow> string \<times> string"
        using artifacts_of_distinct [OF uniq] by (simp add: distinct_map)
      ultimately show ?thesis using di uniq by (auto simp: sameArtifactSet_iff records_items_def)
    next
      assume new: "?of d = [] \<and> insert_artifacts fresh 0 owner items d = Inr ((), d')"
      note ins = insert_artifacts_Inr [OF conjunct2 [OF new]]
      have of: "?of d' = artifact_rows fresh 0 owner items"
        using ins new artifact_rows_owner by (auto simp: artifacts_of_def filter_empty_conv intro!: filter_True)
      have "ArName ` set (?of d') = ArName ` set items"
        unfolding of by (metis artifact_rows_names list.set_map)
      moreover have "same_metadata a item" if a: "a \<in> set (?of d')" "item \<in> set items" "ArName a = ArName item" for a item
      proof -
        obtain b where b: "b \<in> set (?of d')" "ArName b = ArName item" "same_metadata b item"
          using artifact_rows_metadata [OF a(2)] unfolding of by blast
        have "distinct (map ArName (?of d'))" unfolding of using di by simp
        then have "a = b" using a b by (intro key_unique [of ArName]) auto
        then show ?thesis using b by simp
      qed
      ultimately have "records_items d' (OwRunID owner) (OwJobName owner) items" by (simp add: records_items_def)
      then show ?thesis using ins uniq by blast
    qed
  qed
  then show "records_items d' (OwRunID owner) (OwJobName owner) items" and "distinct (map artifact_key (artifacts d'))" by auto
qed

section \<open>The completion check\<close>

lemma sorted_pairs: "sorted (map (\<lambda>x. (x, x)) xs) \<longleftrightarrow> sorted (xs :: string list)"
  by (induction xs) auto

lemma names_by_key:
  assumes "collate s = (\<lambda>x. x)"
  shows "map ArName (sort_key (\<lambda>a. text_key s (ArName a)) as) = sort (map ArName as)"
proof (rule sym, rule properties_for_sort)
  have "sorted (map (\<lambda>a. text_key s (ArName a)) (sort_key (\<lambda>a. text_key s (ArName a)) as))" by (rule sorted_sort_key)
  then have "sorted (map (\<lambda>x. (x, x)) (map ArName (sort_key (\<lambda>a. text_key s (ArName a)) as)))"
    by (simp add: text_key_def assms comp_def)
  then show "sorted (map ArName (sort_key (\<lambda>a. text_key s (ArName a)) as))" by (simp only: sorted_pairs)
qed simp

lemma artifactSetCommitted_mset:
  assumes "collate s = (\<lambda>x. x)" and "parse_stored s yaml = Inr cfg" and "map_of (Jobs cfg) job = Some j"
  shows "artifactSetCommittedTx s yaml run job d = Inr (mset (map UpName (Upload (JobArtifacts j)))
    = mset (map ArName (filter (\<lambda>a. ArRunID a = run \<and> ArProducer a = job \<and> ArDeletedAt a = None) (artifacts d))))"
proof -
  have "sort xs = sort ys \<longleftrightarrow> mset xs = mset ys" for xs ys :: "string list"
    by (metis mset_sort properties_for_sort sorted_sort)
  then show ?thesis using assms(2,3) by (simp add: artifactSetCommittedTx_def names_by_key [OF assms(1)])
qed

section \<open>Repeating a commit and reading it back\<close>

lemma CommitArtifacts_frame:
  assumes "CommitArtifacts s fresh now owner items d = Inr (u, d')"
  obtains xs where "d' = d\<lparr> artifacts := xs \<rparr>"
proof -
  have "d' = d\<lparr> artifacts := artifacts d' \<rparr>"
    using assms by (rule CommitArtifacts_cases) (auto dest!: insert_artifacts_Inr)
  then show thesis by (rule that)
qed

lemma CommitArtifacts_checks:
  assumes "CommitArtifacts s fresh now owner items d = Inr (u, d')" and "\<And>a. a \<in> set (artifacts d) \<Longrightarrow> artifact_check a"
    and "a \<in> set (artifacts d')"
  shows "artifact_check a"
  using assms(1) by (rule CommitArtifacts_cases) (use assms(2,3) in \<open>auto dest!: insert_artifacts_Inr\<close>)

lemma CommitArtifacts_repeat:
  assumes c: "CommitArtifacts s fresh now owner items d = Inr (u, d')" and uniq: "distinct (map artifact_key (artifacts d))"
    and fence: "\<And>j. j \<in> set (jobs d) \<Longrightarrow> jrun j = OwRunID owner \<Longrightarrow> jname j = OwJobName owner \<Longrightarrow> commit_fence owner now' j = Some True"
  shows "CommitArtifacts s fresh' now' owner items d' = Inr ((), d')"
  using c
proof (rule CommitArtifacts_cases)
  let ?of = "artifacts_of (OwRunID owner) (OwJobName owner)"
  fix p j cfg job
  assume f: "find (\<lambda>r. rid r = OwRunID owner \<and> rstatus r = RunRunning) (runs d) = Some p"
      "find (\<lambda>j. jrun j = OwRunID owner \<and> jname j = OwJobName owner) (jobs d) = Some j" "jstatus j = JobRunning"
      "parse_stored s (ryaml p) = Inr cfg" "map_of (Jobs cfg) (OwJobName owner) = Some job"
    and chk: "length items = length (remdups (map fst (expected_roots job)))" "check_items owner (expected_roots job) [] items"
    and or: "?of d \<noteq> [] \<and> d' = d \<and> sameArtifactSet (sort_key (\<lambda>a. text_key s (ArName a)) (?of d)) items \<or>
        ?of d = [] \<and> insert_artifacts fresh 0 owner items d = Inr ((), d')"
  have v: "commit_fence owner now' j = Some True" using find_SomeD [OF f(2)] fence by simp
  have frame: "runs d' = runs d" "jobs d' = jobs d" using CommitArtifacts_frame [OF c] by fastforce+
  note rec = CommitArtifacts_records [OF c uniq]
  have di: "distinct (map ArName items)" using chk(2) by (simp add: check_items_iff)
  have same: "sameArtifactSet (sort_key k (?of d')) items" for k :: "Artifact \<Rightarrow> string \<times> string"
    using rec(1) artifacts_of_distinct [OF rec(2)] di
    by (subst sameArtifactSet_iff) (auto simp: records_items_def distinct_map)
  have sort_Nil: "sort_key k xs = [] \<longleftrightarrow> xs = []" for k :: "Artifact \<Rightarrow> string \<times> string" and xs
    by (metis length_0_conv length_sort)
  have "items = []" if "?of d' = []" using rec(1) that by (simp add: records_items_def)
  then show ?thesis
    using chk same by (auto simp: CommitArtifacts_def frame f v Let_def sort_Nil)
qed

lemma GetArtifact_in:
  assumes "distinct (map artifact_key (artifacts d))" and "a \<in> set (artifacts d)"
  shows "GetArtifact (ArRunID a) (ArProducer a) (ArName a) d = Inr (scanArtifact a)"
proof -
  have "(\<lambda>x. ArRunID x = ArRunID a \<and> ArProducer x = ArProducer a \<and> ArName x = ArName a) = (\<lambda>x. artifact_key x = artifact_key a)"
    by (auto simp: artifact_key_def)
  then show ?thesis using find_key [OF assms] by (simp add: GetArtifact_def)
qed

lemma CommitArtifacts_read:
  assumes c: "CommitArtifacts s fresh now owner items d = Inr (u, d')" and uniq: "distinct (map artifact_key (artifacts d))"
    and item: "item \<in> set items"
  obtains a where "GetArtifact (OwRunID owner) (OwJobName owner) (ArName item) d' = Inr (scanArtifact a)"
    and "same_metadata a item" and "ArName a = ArName item"
proof -
  note rec = CommitArtifacts_records [OF c uniq]
  obtain a where a: "a \<in> set (artifacts_of (OwRunID owner) (OwJobName owner) d')" "ArName a = ArName item"
    using rec(1) item unfolding records_items_def by (metis (no_types, lifting) imageE imageI)
  then have "same_metadata a item" using rec(1) item by (simp add: records_items_def)
  moreover have "GetArtifact (OwRunID owner) (OwJobName owner) (ArName item) d' = Inr (scanArtifact a)"
    using GetArtifact_in [OF rec(2), of a] a by (simp add: artifacts_of_def)
  ultimately show thesis using that a(2) by blast
qed

lemma CommitArtifacts_complete:
  assumes c: "CommitArtifacts s fresh now owner items d = Inr (u, d')" and uniq: "distinct (map artifact_key (artifacts d))"
    and live: "\<And>a. a \<in> set (artifacts_of (OwRunID owner) (OwJobName owner) d) \<Longrightarrow> ArDeletedAt a = None"
    and bytewise: "collate s = (\<lambda>x. x)"
    and p: "find (\<lambda>r. rid r = OwRunID owner \<and> rstatus r = RunRunning) (runs d) = Some p"
    and cfg: "parse_stored s (ryaml p) = Inr cfg" "distinct (map fst (Jobs cfg))"
  shows "artifactSetCommittedTx s (ryaml p) (OwRunID owner) (OwJobName owner) d' = Inr True"
  using c
proof (rule CommitArtifacts_cases)
  let ?of = "artifacts_of (OwRunID owner) (OwJobName owner)"
  fix p' j cfg' job
  assume f: "find (\<lambda>r. rid r = OwRunID owner \<and> rstatus r = RunRunning) (runs d) = Some p'" "parse_stored s (ryaml p') = Inr cfg'"
      "map_of (Jobs cfg') (OwJobName owner) = Some job"
    and chk: "length items = length (remdups (map fst (expected_roots job)))" "check_items owner (expected_roots job) [] items"
    and or: "?of d \<noteq> [] \<and> d' = d \<and> sameArtifactSet (sort_key (\<lambda>a. text_key s (ArName a)) (?of d)) items \<or>
        ?of d = [] \<and> insert_artifacts fresh 0 owner items d = Inr ((), d')"
  have eq: "p' = p" "cfg' = cfg" using f p cfg by auto
  note rec = CommitArtifacts_records [OF c uniq]
  have alive: "ArDeletedAt a = None" if "a \<in> set (?of d')" for a
    using or
  proof
    assume "?of d = [] \<and> insert_artifacts fresh 0 owner items d = Inr ((), d')"
    then show ?thesis using that artifact_rows_owner by (fastforce simp: artifacts_of_def filter_empty_conv dest: insert_artifacts_Inr)
  qed (use that live in auto)
  have "job_ok (Jobs cfg) (OwJobName owner) job"
    using parse_stored_valid [OF cfg] map_of_SomeD [OF f(3)] by (auto simp: valid_pipeline_def eq)
  then have "distinct (map UpName (Upload (JobArtifacts job)))" by (auto simp: job_ok_def uploads_ok_def)
  moreover have "distinct (map ArName (?of d'))" using artifacts_of_distinct [OF rec(2)] .
  moreover have "set (map UpName (Upload (JobArtifacts job))) = set (map ArName (?of d'))"
    using checked_names [OF chk(2,1)] rec(1) by (simp add: records_items_def)
  ultimately have "mset (map UpName (Upload (JobArtifacts job))) = mset (map ArName (?of d'))"
    by (metis set_eq_iff_mset_eq_distinct)
  moreover have "filter (\<lambda>a. ArRunID a = OwRunID owner \<and> ArProducer a = OwJobName owner \<and> ArDeletedAt a = None) (artifacts d') = ?of d'"
    using alive unfolding artifacts_of_def by (intro filter_cong) auto
  ultimately show ?thesis
    using artifactSetCommitted_mset [OF bytewise cfg(1), of "OwJobName owner" job "OwRunID owner" d'] f(3) by (simp only: eq simp_thms)
qed

section \<open>Lemmas on retention\<close>

lemma trim_space_ascii:
  assumes "\<And>c. c \<in> set s \<Longrightarrow> byte c < 128 \<and> \<not> is_space (byte c)"
  shows "trim_space s = s"
proof -
  have r: "rune_chunks s = map (\<lambda>c. (byte c, [c])) s" using assms by (induction s) (simp_all add: go_simps)
  have "dropWhile (\<lambda>c. is_space (fst c)) xs = xs" if "set xs \<subseteq> (\<lambda>c. (byte c, [c])) ` set s" for xs
    using that assms by (cases xs) auto
  then show ?thesis by (simp add: trim_space_def r comp_def)
qed

lemma trim_digest: "lower_hex64 h \<Longrightarrow> trim_space h = h"
  by (rule trim_space_ascii) (auto simp: lower_hex64_def list_all_iff is_space_def)

lemma artifact_blob_trim: "artifact_check a \<Longrightarrow> trim_space (ArBlob a) = ArBlob a"
  by (simp add: artifact_check_def trim_digest)

lemma ExpireArtifacts_eq:
  assumes "\<And>a. a \<in> set (artifacts d) \<Longrightarrow> artifact_check a"
  shows "ExpireArtifacts now d =
    (let d' = d\<lparr> artifacts := upd_where (artifact_expired now) (\<lambda>a. a\<lparr> ArDeletedAt := Some now \<rparr>) (artifacts d) \<rparr> in
     Inr (sort (filter (\<lambda>b. \<not> live_artifact_blob d' b) (remdups (map ArBlob (filter (artifact_expired now) (artifacts d))))), d'))"
proof -
  have "artifact_check (a\<lparr> ArDeletedAt := Some now \<rparr>)" if "a \<in> set (artifacts d)" "artifact_expired now a" for a
    using assms [OF that(1)] that(2) by (auto simp: artifact_check_def artifact_expired_def split: option.splits)
  then have "exec_artifacts (artifact_expired now) (\<lambda>a. a\<lparr> ArDeletedAt := Some now \<rparr>) d = Inr (affected (artifact_expired now) (artifacts d),
      d\<lparr> artifacts := upd_where (artifact_expired now) (\<lambda>a. a\<lparr> ArDeletedAt := Some now \<rparr>) (artifacts d) \<rparr>)"
    by (simp add: exec_artifacts_Inr)
  moreover have "map (\<lambda>a. trim_space (ArBlob a)) (filter (artifact_expired now) (artifacts d)) = map ArBlob (filter (artifact_expired now) (artifacts d))"
    using assms artifact_blob_trim by simp
  ultimately show ?thesis by (simp only: ExpireArtifacts_def Let_def rbind_Inr prod.case)
qed

lemma live_blob_iff: "live_artifact_blob d b \<longleftrightarrow> (\<exists>a \<in> set (artifacts d). ArBlob a = b \<and> ArDeletedAt a = None)"
  by (simp add: live_artifact_blob_def list_ex_iff)

lemma ExpireArtifacts_releases:
  assumes chk: "\<And>a. a \<in> set (artifacts d) \<Longrightarrow> artifact_check a" and e: "ExpireArtifacts now d = Inr (removable, d')"
  shows "sorted removable \<and> distinct removable" and "set removable = {b. live_artifact_blob d b \<and> \<not> live_artifact_blob d' b}"
proof -
  let ?up = "\<lambda>a. a\<lparr> ArDeletedAt := Some now \<rparr>"
  have d': "d' = d\<lparr> artifacts := upd_where (artifact_expired now) ?up (artifacts d) \<rparr>"
    and r: "removable = sort (filter (\<lambda>b. \<not> live_artifact_blob d' b) (remdups (map ArBlob (filter (artifact_expired now) (artifacts d)))))"
    using e by (auto simp: ExpireArtifacts_eq [OF chk] Let_def)
  show "sorted removable \<and> distinct removable" unfolding r by simp
  have gone: "\<exists>a \<in> set (artifacts d). artifact_expired now a \<and> ArBlob a = b" if b: "live_artifact_blob d b" "\<not> live_artifact_blob d' b" for b
  proof -
    obtain a where a: "a \<in> set (artifacts d)" "ArBlob a = b" "ArDeletedAt a = None" using b(1) by (auto simp: live_blob_iff)
    then have "artifact_expired now a" using b(2) by (auto simp: live_blob_iff d' set_upd_where)
    then show ?thesis using a by blast
  qed
  show "set removable = {b. live_artifact_blob d b \<and> \<not> live_artifact_blob d' b}"
  proof (intro equalityI subsetI)
    fix b assume "b \<in> set removable"
    then show "b \<in> {b. live_artifact_blob d b \<and> \<not> live_artifact_blob d' b}"
      by (auto simp: r live_blob_iff artifact_expired_def)
  next
    fix b assume "b \<in> {b. live_artifact_blob d b \<and> \<not> live_artifact_blob d' b}"
    then show "b \<in> set removable" using gone [of b] by (auto simp: r)
  qed
qed

end
