(* ===== verification/Cache_Store.thy ===== *)
theory Cache_Store
  imports Run_Store
begin

text \<open>
  \<open>internal/store/postgres/cache.go\<close>: the metadata of the build cache. \<open>now\<close> is the
  transaction time \<open>now()\<close>, \<open>clock\<close> the reading of \<open>time.Now()\<close> where the code passes
  one; \<open>ident\<close> is the UUID PostgreSQL generates for a new row. Byte counts are unbounded here:
  the sums of \<open>ExpireCache\<close> stay below \<open>2^63\<close> on any disk.

  The lemmas show that at most one live row exists per workspace and key, that a commit is idempotent and
  never overwrites, that eviction brings the distinct live blobs under the budget, and that the blobs
  reported for removal are exactly the unreferenced ones.
\<close>

section \<open>Operations\<close>

definition cache_check :: "CacheMetadata \<Rightarrow> bool" where
  "cache_check m \<longleftrightarrow> cacheKeyPattern (CmKey m) \<and>
     CmRootName m \<noteq> '''' \<and> CHR ''/'' \<notin> set (CmRootName m) \<and> CHR 0x5C \<notin> set (CmRootName m) \<and>
     CmRootKind m \<in> {''file'', ''directory''} \<and> lower_hex64 (CmContent m) \<and> lower_hex64 (CmBlob m) \<and>
     CmFormat m = ''cache-tar-gzip-v1'' \<and> CmArchiveSize m \<ge> 0 \<and> CmLogicalSize m \<ge> 0 \<and> CmEntryCount m > 0"

definition live_cache :: "string \<Rightarrow> string \<Rightarrow> CacheMetadata \<Rightarrow> bool" where
  "live_cache workspace key m \<longleftrightarrow> CmWorkspace m = workspace \<and> CmKey m = key \<and> CmDeletedAt m = None"

definition unexpired :: "time \<Rightarrow> CacheMetadata \<Rightarrow> bool" where
  "unexpired t m \<longleftrightarrow> (case CmExpiresAt m of None \<Rightarrow> True | Some e \<Rightarrow> e > t)"

definition LookupCache :: "Store \<Rightarrow> string \<Rightarrow> string \<Rightarrow> time \<Rightarrow> db \<Rightarrow> CacheMetadata tx" where
  "LookupCache s workspace key clock d =
    (let P = (\<lambda>m. live_cache workspace key m \<and> unexpired clock m);
         touch = (\<lambda>m. m\<lparr> CmLastAccessedAt := clock, CmExpiresAt := Some (clock + cacheRetention s) \<rparr>)
     in case find P (caches d) of
       None \<Rightarrow> Inl ErrNotFound
     | Some m \<Rightarrow> Inr (touch m, d\<lparr> caches := upd_where P touch (caches d) \<rparr>))"

definition sameCacheMetadata :: "CacheMetadata \<Rightarrow> CacheMetadata \<Rightarrow> bool" where
  "sameCacheMetadata a b \<longleftrightarrow> CmWorkspace a = CmWorkspace b \<and> CmKey a = CmKey b \<and> CmRootName a = CmRootName b \<and>
     CmRootKind a = CmRootKind b \<and> CmContent a = CmContent b \<and> CmBlob a = CmBlob b \<and> CmFormat a = CmFormat b \<and>
     CmArchiveSize a = CmArchiveSize b \<and> CmLogicalSize a = CmLogicalSize b \<and> CmEntryCount a = CmEntryCount b"

definition cache_row :: "Store \<Rightarrow> string \<Rightarrow> time \<Rightarrow> CacheMetadata \<Rightarrow> CacheMetadata" where
  "cache_row s ident clock m = m\<lparr> CmID := ident, CmLastAccessedAt := CmCreatedAt m,
     CmExpiresAt := (if CmExpiresAt m = None \<and> cacheRetention s > 0 then Some (clock + cacheRetention s) else CmExpiresAt m),
     CmDeletedAt := None \<rparr>"

text \<open>\<open>INSERT ... ON CONFLICT DO NOTHING\<close> on the partial unique index of live keys.\<close>

definition insert_cache :: "CacheMetadata \<Rightarrow> db \<Rightarrow> unit tx" where
  "insert_cache row d =
    (if \<not> cache_check row then Inl ErrCheck
     else if CmID row \<in> CmID ` set (caches d) then Inl ErrUnique
     else if list_ex (live_cache (CmWorkspace row) (CmKey row)) (caches d) then Inr ((), d)
     else Inr ((), d\<lparr> caches := caches d @ [row] \<rparr>))"

definition CommitCache :: "Store \<Rightarrow> string \<Rightarrow> time \<Rightarrow> CacheMetadata \<Rightarrow> db \<Rightarrow> unit tx" where
  "CommitCache s ident clock m d =
    (case find (live_cache (CmWorkspace m) (CmKey m)) (caches d) of
       Some existing \<Rightarrow> if sameCacheMetadata existing m then Inr ((), d) else Inl ErrConflict
     | None \<Rightarrow>
       rbind (insert_cache (cache_row s ident clock m) d) (\<lambda>(_, d1).
       case find (live_cache (CmWorkspace m) (CmKey m)) (caches d1) of
         None \<Rightarrow> Inl ErrNoRows
       | Some existingAfterInsert \<Rightarrow>
         if \<not> sameCacheMetadata existingAfterInsert m then Inl ErrConflict else Inr ((), d1)))"

definition ListCache :: "Store \<Rightarrow> string \<Rightarrow> int \<Rightarrow> time \<Rightarrow> db \<Rightarrow> CacheMetadata list" where
  "ListCache s workspace limit now d =
    take (nat (if limit < 1 \<or> limit > 1000 then 100 else limit)) (sort_key (\<lambda>m. text_key s (CmKey m))
      (filter (\<lambda>m. CmWorkspace m = workspace \<and> CmDeletedAt m = None \<and> unexpired now m) (caches d)))"

definition DeleteCache :: "string \<Rightarrow> string \<Rightarrow> time \<Rightarrow> db \<Rightarrow> unit tx" where
  "DeleteCache workspace key now d =
    (if affected (live_cache workspace key) (caches d) = 0 then Inl ErrNotFound
     else Inr ((), d\<lparr> caches := upd_where (live_cache workspace key) (\<lambda>m. m\<lparr> CmDeletedAt := Some now \<rparr>) (caches d) \<rparr>))"

definition live_rows :: "db \<Rightarrow> CacheMetadata list" where
  "live_rows d = filter (\<lambda>m. CmDeletedAt m = None) (caches d)"

text \<open>\<open>SELECT blob_sha256, max(archive_size_bytes) ... GROUP BY blob_sha256\<close>, summed.\<close>

definition blob_size :: "CacheMetadata list \<Rightarrow> string \<Rightarrow> int" where
  "blob_size rows digest = Max (set (map CmArchiveSize (filter (\<lambda>m. CmBlob m = digest) rows)))"

definition total_size :: "CacheMetadata list \<Rightarrow> int" where
  "total_size rows = sum_list (map (blob_size rows) (remdups (map CmBlob rows)))"

text \<open>The loop over the live rows in order of last access: the digests to evict.\<close>

fun evict_loop :: "int \<Rightarrow> int \<Rightarrow> string list \<Rightarrow> CacheMetadata list \<Rightarrow> string list" where
  "evict_loop maxBytes tot seen [] = []"
| "evict_loop maxBytes tot seen (m # rows) =
    (if tot \<le> maxBytes then []
     else if CmBlob m \<in> set seen then evict_loop maxBytes tot seen rows
     else CmBlob m # evict_loop maxBytes (tot - CmArchiveSize m) (CmBlob m # seen) rows)"

definition delete_blob :: "time \<Rightarrow> db \<Rightarrow> string \<Rightarrow> db" where
  "delete_blob clock d digest = d\<lparr> caches := upd_where (\<lambda>m. CmBlob m = digest \<and> CmDeletedAt m = None)
     (\<lambda>m. m\<lparr> CmDeletedAt := Some clock \<rparr>) (caches d) \<rparr>"

definition unreferencedCacheBlobs :: "db \<Rightarrow> string list" where
  "unreferencedCacheBlobs d = sort (remdups (map CmBlob (filter (\<lambda>e. CmDeletedAt e \<noteq> None \<and>
     \<not> list_ex (\<lambda>live. CmBlob live = CmBlob e \<and> CmDeletedAt live = None) (caches d)) (caches d))))"

definition expire_by_time :: "time \<Rightarrow> db \<Rightarrow> db" where
  "expire_by_time clock d = d\<lparr> caches := upd_where (\<lambda>m. CmDeletedAt m = None \<and> \<not> unexpired clock m)
     (\<lambda>m. m\<lparr> CmDeletedAt := Some clock \<rparr>) (caches d) \<rparr>"

definition evict_by_size :: "time \<Rightarrow> int \<Rightarrow> db \<Rightarrow> db" where
  "evict_by_size clock maxBytes d =
    (let total = total_size (live_rows d) in
     if total > maxBytes
     then foldl (delete_blob clock) d (evict_loop maxBytes total []
       (sort_key (\<lambda>m. (CmLastAccessedAt m, CmCreatedAt m, CmID m)) (live_rows d)))
     else d)"

definition ExpireCache :: "time \<Rightarrow> int \<Rightarrow> db \<Rightarrow> string list tx" where
  "ExpireCache clock maxBytes d =
    (let d1 = expire_by_time clock d;
         d2 = (if maxBytes > 0 then evict_by_size clock maxBytes d1 else d1)
     in Inr (unreferencedCacheBlobs d2, d2))"

definition LiveCacheBlobs :: "time \<Rightarrow> db \<Rightarrow> string set" where
  "LiveCacheBlobs now d = set (map CmBlob (filter (\<lambda>m. CmDeletedAt m = None \<and> unexpired now m) (caches d)))"

section \<open>Invariant\<close>

definition cache_key_of :: "CacheMetadata \<Rightarrow> string \<times> string" where
  "cache_key_of m = (CmWorkspace m, CmKey m)"

definition caches_ok :: "db \<Rightarrow> bool" where
  "caches_ok d \<longleftrightarrow> distinct (map CmID (caches d)) \<and> distinct (map cache_key_of (live_rows d)) \<and>
     (\<forall>m \<in> set (caches d). cache_check m)"

lemma set_live_rows: "m \<in> set (live_rows d) \<longleftrightarrow> m \<in> set (caches d) \<and> CmDeletedAt m = None"
  by (auto simp: live_rows_def)

lemma live_cache_iff: "live_cache ws key m \<longleftrightarrow> cache_key_of m = (ws, key) \<and> CmDeletedAt m = None"
  by (auto simp: live_cache_def cache_key_of_def)

text \<open>Updates that only delete rows, or keep liveness and the key.\<close>

lemma live_rows_upd:
  assumes "\<And>m. CmDeletedAt (f m) = CmDeletedAt m \<or> CmDeletedAt (f m) \<noteq> None" and "\<And>m. cache_key_of (f m) = cache_key_of m"
    and "distinct (map cache_key_of (filter (\<lambda>m. CmDeletedAt m = None) rows))"
  shows "distinct (map cache_key_of (filter (\<lambda>m. CmDeletedAt m = None) (upd_where P f rows)))"
proof -
  have sub: "cache_key_of ` {m \<in> set (upd_where P f rows). CmDeletedAt m = None} \<subseteq> cache_key_of ` {m \<in> set rows. CmDeletedAt m = None}" for rows
  proof
    fix k assume "k \<in> cache_key_of ` {m \<in> set (upd_where P f rows). CmDeletedAt m = None}"
    then obtain m where m: "m \<in> set (upd_where P f rows)" "CmDeletedAt m = None" "k = cache_key_of m" by auto
    from m(1) show "k \<in> cache_key_of ` {m \<in> set rows. CmDeletedAt m = None}"
    proof (cases rule: in_upd_whereE)
      case (changed r0)
      then show ?thesis using m(2,3) assms(1,2) [of r0] by (metis (mono_tags, lifting) imageI mem_Collect_eq)
    qed (use m in auto)
  qed
  have del: "CmDeletedAt (f m) = None \<Longrightarrow> CmDeletedAt m = None" for m using assms(1) [of m] by auto
  from assms(3) show ?thesis
  proof (induction rows)
    case (Cons r rows)
    then show ?case using sub [of rows] del [of r] assms(2) [of r] by (auto split: if_splits)
  qed simp
qed

lemma caches_ok_upd:
  assumes "caches_ok d" and "\<And>m. CmDeletedAt (f m) = CmDeletedAt m \<or> CmDeletedAt (f m) \<noteq> None"
    and "\<And>m. cache_key_of (f m) = cache_key_of m" and "\<And>m. CmID (f m) = CmID m" and "\<And>m. cache_check m \<Longrightarrow> cache_check (f m)"
  shows "caches_ok (d\<lparr> caches := upd_where P f (caches d) \<rparr>)"
proof -
  have "distinct (map CmID (upd_where P f (caches d)))" using assms(1,4) by (simp add: caches_ok_def map_upd_where)
  moreover have "distinct (map cache_key_of (filter (\<lambda>m. CmDeletedAt m = None) (upd_where P f (caches d))))"
    using assms(1) by (intro live_rows_upd assms(2,3)) (simp add: caches_ok_def live_rows_def)
  moreover have "cache_check m" if "m \<in> set (upd_where P f (caches d))" for m
    using that assms(1,5) by (cases rule: in_upd_whereE) (auto simp: caches_ok_def)
  ultimately show ?thesis by (simp add: caches_ok_def live_rows_def)
qed

lemma deleted_sel [simp]:
  "cache_key_of (m\<lparr> CmDeletedAt := x \<rparr>) = cache_key_of m" "cache_check (m\<lparr> CmDeletedAt := x \<rparr>) = cache_check m"
  by (simp_all add: cache_key_of_def cache_check_def)

lemma LookupCache_ok:
  assumes "caches_ok d" and "LookupCache s ws key clock d = Inr (m, d')"
  shows "caches_ok d'"
proof -
  let ?P = "\<lambda>m. live_cache ws key m \<and> unexpired clock m"
  let ?f = "\<lambda>m. m\<lparr> CmLastAccessedAt := clock, CmExpiresAt := Some (clock + cacheRetention s) \<rparr>"
  have "d' = d\<lparr> caches := upd_where ?P ?f (caches d) \<rparr>"
    using assms(2) by (auto simp: LookupCache_def Let_def split: option.splits)
  then show ?thesis
    using assms(1) by (auto intro!: caches_ok_upd simp: cache_key_of_def cache_check_def)
qed

lemma DeleteCache_ok: "caches_ok d \<Longrightarrow> DeleteCache ws key now d = Inr (u, d') \<Longrightarrow> caches_ok d'"
  by (auto simp: DeleteCache_def split: if_splits intro!: caches_ok_upd)

lemma delete_blob_ok: "caches_ok d \<Longrightarrow> caches_ok (delete_blob clock d digest)"
  unfolding delete_blob_def by (rule caches_ok_upd) auto

lemma delete_blobs_ok: "caches_ok d \<Longrightarrow> caches_ok (foldl (delete_blob clock) d digests)"
  by (induction digests arbitrary: d) (auto simp: delete_blob_ok)

lemma expire_by_time_ok: "caches_ok d \<Longrightarrow> caches_ok (expire_by_time clock d)"
  unfolding expire_by_time_def by (rule caches_ok_upd) auto

lemma evict_by_size_ok: "caches_ok d \<Longrightarrow> caches_ok (evict_by_size clock maxBytes d)"
  by (simp add: evict_by_size_def Let_def delete_blobs_ok)

lemma ExpireCache_ok: "caches_ok d \<Longrightarrow> ExpireCache clock maxBytes d = Inr (r, d') \<Longrightarrow> caches_ok d'"
  by (auto simp: ExpireCache_def Let_def evict_by_size_ok expire_by_time_ok)

lemma cache_row_sel [simp]:
  "CmID (cache_row s ident clock m) = ident" "CmDeletedAt (cache_row s ident clock m) = None"
  "cache_key_of (cache_row s ident clock m) = cache_key_of m" "CmWorkspace (cache_row s ident clock m) = CmWorkspace m"
  "CmKey (cache_row s ident clock m) = CmKey m" "sameCacheMetadata (cache_row s ident clock m) m"
  by (simp_all add: cache_row_def cache_key_of_def sameCacheMetadata_def)

section \<open>Committing\<close>

text \<open>A commit finds the key taken or inserts it; it never changes a row.\<close>

lemma CommitCache_cases:
  assumes "CommitCache s ident clock m d = Inr (u, d')"
  obtains (kept) e where "find (live_cache (CmWorkspace m) (CmKey m)) (caches d) = Some e" "sameCacheMetadata e m" "d' = d"
  | (inserted) "find (live_cache (CmWorkspace m) (CmKey m)) (caches d) = None" "cache_check (cache_row s ident clock m)"
      "ident \<notin> CmID ` set (caches d)" "d' = d\<lparr> caches := caches d @ [cache_row s ident clock m] \<rparr>"
proof (cases "find (live_cache (CmWorkspace m) (CmKey m)) (caches d)")
  case None
  then have "\<not> list_ex (live_cache (CmWorkspace m) (CmKey m)) (caches d)" by (simp add: find_None_iff list_ex_iff)
  then show thesis
    using assms None inserted by (auto simp: CommitCache_def insert_cache_def rbind_eq_Inr split: if_splits option.splits)
next
  case (Some e)
  then show thesis using assms kept by (auto simp: CommitCache_def split: if_splits)
qed

lemma CommitCache_ok:
  assumes "caches_ok d" and "CommitCache s ident clock m d = Inr (u, d')"
  shows "caches_ok d'"
  using assms(2)
proof (cases rule: CommitCache_cases)
  case inserted
  have "cache_key_of m \<notin> cache_key_of ` set (live_rows d)"
    using inserted(1) by (auto simp: find_None_iff live_cache_iff set_live_rows cache_key_of_def)
  then show ?thesis using assms(1) inserted by (auto simp: caches_ok_def live_rows_def)
qed (use assms(1) in simp)

lemma find_live:
  assumes "caches_ok d" and "e \<in> set (caches d)" and "live_cache ws key e"
  shows "find (live_cache ws key) (caches d) = Some e"
proof (cases "find (live_cache ws key) (caches d)")
  case None
  then show ?thesis using assms by (auto simp: find_None_iff)
next
  case (Some x)
  note x = find_SomeD [OF Some]
  have "x = e" using assms x by (intro key_unique [of cache_key_of "live_rows d"])
    (auto simp: caches_ok_def live_cache_iff set_live_rows)
  then show ?thesis using Some by simp
qed

text \<open>After a successful commit the key has one live row, with the committed metadata.\<close>

lemma CommitCache_live:
  assumes "CommitCache s ident clock m d = Inr (u, d')"
  obtains e where "find (live_cache (CmWorkspace m) (CmKey m)) (caches d') = Some e" and "sameCacheMetadata e m"
  using assms
proof (cases rule: CommitCache_cases)
  case (kept e)
  then show thesis using that by blast
next
  case inserted
  have "live_cache (CmWorkspace m) (CmKey m) (cache_row s ident clock m)" by (simp add: live_cache_def)
  moreover have "find P (xs @ [x]) = Some x" if "find P xs = None" "P x" for P :: "CacheMetadata \<Rightarrow> bool" and xs x
    using that by (induction xs) (auto split: if_splits)
  ultimately have "find (live_cache (CmWorkspace m) (CmKey m)) (caches d') = Some (cache_row s ident clock m)"
    using inserted by simp
  then show thesis using that by simp
qed

lemma sameCacheMetadata_sym: "sameCacheMetadata a b \<Longrightarrow> sameCacheMetadata b a"
  and sameCacheMetadata_trans: "sameCacheMetadata a b \<Longrightarrow> sameCacheMetadata b c \<Longrightarrow> sameCacheMetadata a c"
  by (simp_all add: sameCacheMetadata_def)

lemma CommitCache_again:
  assumes "CommitCache s ident clock m d = Inr (u, d')" and "CmWorkspace m' = CmWorkspace m" and "CmKey m' = CmKey m"
  shows "CommitCache s ident' clock' m' d' = (if sameCacheMetadata m m' then Inr ((), d') else Inl ErrConflict)"
  using assms(1)
proof (rule CommitCache_live)
  fix e assume e: "find (live_cache (CmWorkspace m) (CmKey m)) (caches d') = Some e" "sameCacheMetadata e m"
  have "sameCacheMetadata e m' \<longleftrightarrow> sameCacheMetadata m m'"
    using e(2) sameCacheMetadata_sym sameCacheMetadata_trans by blast
  then show ?thesis using e(1) assms(2,3) by (simp add: CommitCache_def)
qed

section \<open>Eviction\<close>

lemma delete_blobs_live:
  "live_rows (foldl (delete_blob clock) d digests) = filter (\<lambda>m. CmBlob m \<notin> set digests) (live_rows d)"
proof (induction digests arbitrary: d)
  case Nil
  then show ?case by (simp add: live_rows_def)
next
  case (Cons g digests)
  have "filter (\<lambda>m. CmDeletedAt m = None) (upd_where (\<lambda>m. CmBlob m = g \<and> CmDeletedAt m = None) (\<lambda>m. m\<lparr> CmDeletedAt := Some clock \<rparr>) rows)
      = filter (\<lambda>m. CmBlob m \<noteq> g) (filter (\<lambda>m. CmDeletedAt m = None) rows)" for rows
    by (induction rows) auto
  then have "live_rows (delete_blob clock d g) = filter (\<lambda>m. CmBlob m \<noteq> g) (live_rows d)"
    by (simp add: live_rows_def delete_blob_def)
  then show ?case using Cons [of "delete_blob clock d g"] by (simp add: filter_filter conj_commute)
qed

lemma total_size_sum: "total_size rows = (\<Sum>x \<in> CmBlob ` set rows. blob_size rows x)"
  unfolding total_size_def by (subst sum_list_distinct_conv_sum_set) auto

lemma total_size_filter:
  "total_size (filter (\<lambda>m. CmBlob m \<notin> E) rows) = (\<Sum>x \<in> CmBlob ` set rows - E. blob_size rows x)"
proof -
  have "blob_size (filter (\<lambda>m. CmBlob m \<notin> E) rows) x = blob_size rows x" if "x \<notin> E" for x
  proof -
    have "filter (\<lambda>m. CmBlob m = x) (filter (\<lambda>m. CmBlob m \<notin> E) rows) = filter (\<lambda>m. CmBlob m = x) rows"
      using that by (induction rows) auto
    then show ?thesis by (simp add: blob_size_def)
  qed
  moreover have "CmBlob ` set (filter (\<lambda>m. CmBlob m \<notin> E) rows) = CmBlob ` set rows - E" by auto
  ultimately show ?thesis by (simp add: total_size_sum)
qed

lemma blob_size_ge: "m \<in> set rows \<Longrightarrow> CmArchiveSize m \<le> blob_size rows (CmBlob m)"
  unfolding blob_size_def by (rule Max_ge) auto

text \<open>The loop subtracts the size of one row of a blob, which is at most the size counted for it, so the
  running total never falls below what the blobs not yet chosen occupy.\<close>

lemma evict_loop_budget:
  assumes "finite D" and "D \<subseteq> set seen \<union> CmBlob ` set rows" and "0 \<le> maxBytes"
    and "\<And>m. m \<in> set rows \<Longrightarrow> CmArchiveSize m \<le> bs (CmBlob m) \<and> CmBlob m \<in> D"
    and "(\<Sum>x \<in> D - set seen. bs x) \<le> tot"
  shows "(\<Sum>x \<in> D - set seen - set (evict_loop maxBytes tot seen rows). bs x) \<le> maxBytes"
  using assms
proof (induction rows arbitrary: tot seen)
  case Nil
  then have "D - set seen - E = {}" for E by auto
  then show ?case using Nil.prems(3) by (metis sum.empty)
next
  case (Cons m rows)
  consider "tot \<le> maxBytes" | "tot > maxBytes" "CmBlob m \<in> set seen" | "tot > maxBytes" "CmBlob m \<notin> set seen" by linarith
  then show ?case
  proof cases
    case 1
    then show ?thesis using Cons.prems(5) by simp
  next
    case 2
    then show ?thesis using Cons.IH [of seen tot] Cons.prems by auto
  next
    case 3
    let ?b = "CmBlob m"
    have b: "?b \<in> D - set seen" and size: "CmArchiveSize m \<le> bs ?b" using 3 Cons.prems(4) [of m] by auto
    have "(\<Sum>x \<in> D - set seen. bs x) = bs ?b + (\<Sum>x \<in> D - set seen - {?b}. bs x)"
      using b Cons.prems(1) by (intro sum.remove) auto
    moreover have seen: "D - set seen - {?b} = D - set (?b # seen)" by auto
    ultimately have "(\<Sum>x \<in> D - set (?b # seen). bs x) \<le> tot - CmArchiveSize m" using Cons.prems(5) size by simp
    then have "(\<Sum>x \<in> D - set (?b # seen) - set (evict_loop maxBytes (tot - CmArchiveSize m) (?b # seen) rows). bs x) \<le> maxBytes"
      using Cons.prems by (intro Cons.IH) auto
    moreover have "D - set (?b # seen) - E = D - set seen - insert ?b E" for E by auto
    ultimately show ?thesis using 3 by simp
  qed
qed

lemma evict_by_size_budget:
  assumes "0 \<le> maxBytes"
  shows "total_size (live_rows (evict_by_size clock maxBytes d)) \<le> maxBytes"
proof (cases "total_size (live_rows d) > maxBytes")
  case True
  let ?rows = "sort_key (\<lambda>m. (CmLastAccessedAt m, CmCreatedAt m, CmID m)) (live_rows d)"
  let ?evict = "evict_loop maxBytes (total_size (live_rows d)) [] ?rows"
  have "(\<Sum>x \<in> CmBlob ` set (live_rows d) - set [] - set ?evict. blob_size (live_rows d) x) \<le> maxBytes"
    by (rule evict_loop_budget) (auto simp: assms total_size_sum blob_size_ge)
  then show ?thesis using True by (simp add: evict_by_size_def Let_def delete_blobs_live total_size_filter)
qed (simp add: evict_by_size_def Let_def)

text \<open>Eviction is in order of last access: no blob is kept of which a row was used before every row of
  an evicted blob.\<close>

lemma evict_loop_order:
  assumes "sorted (map key rows)" and "x \<in> set (evict_loop maxBytes tot seen rows)"
    and "y \<notin> set seen" and "y \<notin> set (evict_loop maxBytes tot seen rows)"
  shows "\<exists>a \<in> set rows. CmBlob a = x \<and> (\<forall>b \<in> set rows. CmBlob b = y \<longrightarrow> key a \<le> key b)"
  using assms
proof (induction rows arbitrary: tot seen)
  case (Cons m rows)
  from Cons.prems have tot: "\<not> tot \<le> maxBytes" by auto
  show ?case
  proof (cases "CmBlob m \<in> set seen")
    case True
    then have x: "x \<in> set (evict_loop maxBytes tot seen rows)" "y \<notin> set (evict_loop maxBytes tot seen rows)" "CmBlob m \<noteq> y"
      using Cons.prems tot by auto
    then show ?thesis using Cons.IH [OF _ x(1) Cons.prems(3) x(2)] Cons.prems(1) by auto
  next
    case False
    let ?l = "evict_loop maxBytes (tot - CmArchiveSize m) (CmBlob m # seen) rows"
    have l: "evict_loop maxBytes tot seen (m # rows) = CmBlob m # ?l" using False tot by simp
    have y: "CmBlob m \<noteq> y" "y \<notin> set ?l" "y \<notin> set (CmBlob m # seen)" using Cons.prems(3,4) unfolding l by auto
    show ?thesis
    proof (cases "x = CmBlob m")
      case True
      then show ?thesis using Cons.prems(1) by auto
    next
      case xm: False
      then have "x \<in> set ?l" using Cons.prems(2) unfolding l by simp
      then show ?thesis using Cons.IH [OF _ _ y(3,2)] Cons.prems(1) y(1) by auto
    qed
  qed
qed simp

definition lru_key :: "CacheMetadata \<Rightarrow> time \<times> time \<times> string" where
  "lru_key m = (CmLastAccessedAt m, CmCreatedAt m, CmID m)"

lemma evict_by_size_lru:
  assumes x: "x \<in> CmBlob ` set (live_rows d)" "x \<notin> CmBlob ` set (live_rows (evict_by_size clock maxBytes d))"
    and y: "y \<in> CmBlob ` set (live_rows (evict_by_size clock maxBytes d))"
  shows "\<exists>a \<in> set (live_rows d). CmBlob a = x \<and> (\<forall>b \<in> set (live_rows d). CmBlob b = y \<longrightarrow> lru_key a \<le> lru_key b)"
proof (cases "total_size (live_rows d) > maxBytes")
  case True
  let ?rows = "sort_key lru_key (live_rows d)"
  let ?evict = "evict_loop maxBytes (total_size (live_rows d)) [] ?rows"
  have lru: "lru_key = (\<lambda>m. (CmLastAccessedAt m, CmCreatedAt m, CmID m))" by (auto simp: lru_key_def)
  have live: "set (live_rows (evict_by_size clock maxBytes d)) = {m \<in> set (live_rows d). CmBlob m \<notin> set ?evict}"
    using True by (simp add: evict_by_size_def Let_def delete_blobs_live lru)
  have "x \<in> set ?evict" "y \<notin> set ?evict" using x y unfolding live by auto
  then show ?thesis using evict_loop_order [of lru_key ?rows x maxBytes "total_size (live_rows d)" "[]" y] by auto
qed (use x in \<open>simp add: evict_by_size_def Let_def\<close>)

lemma unreferenced_set:
  "set (unreferencedCacheBlobs d) = {CmBlob e | e. e \<in> set (caches d)} - CmBlob ` set (live_rows d)"
proof -
  have "CmDeletedAt e \<noteq> None \<and> \<not> (\<exists>l \<in> set (caches d). CmBlob l = CmBlob e \<and> CmDeletedAt l = None) \<longleftrightarrow>
      CmBlob e \<notin> CmBlob ` set (live_rows d)" if "e \<in> set (caches d)" for e
    using that by (auto simp: live_rows_def image_iff)
  then show ?thesis by (auto simp: unreferencedCacheBlobs_def list_ex_iff)
qed

lemma expire_by_time_live: "live_rows (expire_by_time clock d) = filter (unexpired clock) (live_rows d)"
proof -
  have "filter (\<lambda>m. CmDeletedAt m = None) (upd_where (\<lambda>m. CmDeletedAt m = None \<and> \<not> unexpired clock m) (\<lambda>m. m\<lparr> CmDeletedAt := Some clock \<rparr>) rows)
      = filter (unexpired clock) (filter (\<lambda>m. CmDeletedAt m = None) rows)" for rows
    by (induction rows) auto
  then show ?thesis by (simp add: live_rows_def expire_by_time_def)
qed

lemma delete_blobs_blobs: "map CmBlob (caches (foldl (delete_blob clock) d digests)) = map CmBlob (caches d)"
  by (induction digests arbitrary: d) (simp_all add: delete_blob_def map_upd_where)

lemma ExpireCache_blobs: "ExpireCache clock maxBytes d = Inr (r, d') \<Longrightarrow> CmBlob ` set (caches d') = CmBlob ` set (caches d)"
proof -
  assume e: "ExpireCache clock maxBytes d = Inr (r, d')"
  have "map CmBlob (caches (expire_by_time clock d)) = map CmBlob (caches d)"
    by (simp add: expire_by_time_def map_upd_where)
  then have "map CmBlob (caches d') = map CmBlob (caches d)"
    using e by (auto simp: ExpireCache_def Let_def evict_by_size_def delete_blobs_blobs split: if_splits)
  then show ?thesis by (metis list.set_map)
qed

end
