(* ===== verification/Log_Store.thy ===== *)
theory Log_Store
  imports Run_Store
begin

text \<open>
  \<open>internal/store/postgres/job_logs.go\<close>: the durable log of a job, a table of numbered chunks.
  Instants count from Go's zero time, so \<open>IsZero\<close> is equality with 0; \<open>clock\<close> is the
  reading of \<open>time.Now()\<close>. A payload is its byte string.

  The lemmas show that the chunks of a job are numbered 1, 2, 3, ... without a gap in every state the
  operations produce, that appending a chunk again is harmless and appending a different one under the same
  number is refused, that a batch is applied as a whole, and that a page read from a cursor is a slice
  of the log.
\<close>

section \<open>Operations\<close>

definition maxJobLogChunk :: nat where "maxJobLogChunk = 65536"

definition valid_chunk :: "JobLogChunk \<Rightarrow> bool" where
  "valid_chunk c \<longleftrightarrow> \<not> (LgRunID c = '''' \<or> LgJobName c = '''' \<or> LgSequence c < 1 \<or> length (LgPayload c) = 0 \<or>
     length (LgPayload c) > maxJobLogChunk \<or> (LgStream c \<noteq> ''stdout'' \<and> LgStream c \<noteq> ''stderr''))"

definition job_exists :: "string \<Rightarrow> string \<Rightarrow> db \<Rightarrow> bool" where
  "job_exists run job d = list_ex (\<lambda>j. jrun j = run \<and> jname j = job) (jobs d)"

definition job_log :: "db \<Rightarrow> string \<Rightarrow> string \<Rightarrow> JobLogChunk list" where
  "job_log d run job = filter (\<lambda>c. LgRunID c = run \<and> LgJobName c = job) (logs d)"

definition max_sequence :: "JobLogChunk list \<Rightarrow> int" where
  "max_sequence rows = (if rows = [] then 0 else Max (set (map LgSequence rows)))"

text \<open>A chunk without a time gets the current one.\<close>

definition stamped :: "time \<Rightarrow> JobLogChunk \<Rightarrow> JobLogChunk" where
  "stamped clock c = (if LgCreatedAt c = 0 then c\<lparr> LgCreatedAt := clock \<rparr> else c)"

text \<open>The statements that both operations run for one chunk.\<close>

definition append_chunk :: "time \<Rightarrow> JobLogChunk \<Rightarrow> db \<Rightarrow> unit tx" where
  "append_chunk clock c0 d =
    (let c = stamped clock c0;
         rows = job_log d (LgRunID c) (LgJobName c)
     in case find (\<lambda>x. LgSequence x = LgSequence c) rows of
       Some x \<Rightarrow> if LgStream x \<noteq> LgStream c \<or> LgPayload x \<noteq> LgPayload c then Inl ErrConflict else Inr ((), d)
     | None \<Rightarrow>
       if LgSequence c \<noteq> max_sequence rows + 1 then Inl ErrConflict
       else Inr ((), d\<lparr> logs := logs d @ [c] \<rparr>))"

definition AppendJobLog :: "time \<Rightarrow> JobLogChunk \<Rightarrow> db \<Rightarrow> unit tx" where
  "AppendJobLog clock c d =
    (if \<not> valid_chunk c then Inl (ErrMessage ''invalid job log chunk'')
     else if \<not> job_exists (LgRunID c) (LgJobName c) d then Inl ErrNotFound
     else append_chunk clock c d)"

fun valid_batch :: "string \<Rightarrow> string \<Rightarrow> int \<Rightarrow> JobLogChunk list \<Rightarrow> bool" where
  "valid_batch run job previous [] \<longleftrightarrow> True"
| "valid_batch run job previous (c # cs) \<longleftrightarrow> valid_chunk c \<and> LgRunID c = run \<and> LgJobName c = job \<and>
     LgSequence c > previous \<and> valid_batch run job (LgSequence c) cs"

fun append_chunks :: "time \<Rightarrow> JobLogChunk list \<Rightarrow> db \<Rightarrow> unit tx" where
  "append_chunks clock [] d = Inr ((), d)"
| "append_chunks clock (c # cs) d = rbind (append_chunk clock c d) (\<lambda>(_, d1). append_chunks clock cs d1)"

definition AppendJobLogs :: "time \<Rightarrow> JobLogChunk list \<Rightarrow> db \<Rightarrow> unit tx" where
  "AppendJobLogs clock chunks d =
    (case chunks of
       [] \<Rightarrow> Inl (ErrMessage ''invalid job log batch'')
     | first # _ \<Rightarrow>
       if \<not> valid_batch (LgRunID first) (LgJobName first) 0 chunks then Inl (ErrMessage ''invalid job log batch'')
       else if \<not> job_exists (LgRunID first) (LgJobName first) d then Inl ErrNotFound
       else append_chunks clock chunks d)"

definition clamp_limit :: "int \<Rightarrow> nat" where
  "clamp_limit limit = (let l = (if limit < 1 then 256 else limit) in nat (if l > 1000 then 1000 else l))"

definition ListJobLogs :: "string \<Rightarrow> string \<Rightarrow> int \<Rightarrow> int \<Rightarrow> db \<Rightarrow> (store_error, JobLogChunk list) result" where
  "ListJobLogs run job after limit d =
    (if \<not> job_exists run job d then Inl ErrNotFound
     else Inr (take (clamp_limit limit) (sort_key LgSequence (filter (\<lambda>c. LgSequence c > after) (job_log d run job)))))"

section \<open>The numbering\<close>

text \<open>The chunks of a job stand in the table in order, numbered from 1.\<close>

definition numbered :: "JobLogChunk list \<Rightarrow> bool" where
  "numbered rows \<longleftrightarrow> map LgSequence rows = map (\<lambda>i. int i + 1) [0..<length rows]"

definition logs_ok :: "db \<Rightarrow> bool" where
  "logs_ok d \<longleftrightarrow> (\<forall>run job. numbered (job_log d run job)) \<and>
     (\<forall>c \<in> set (logs d). valid_chunk c \<and> job_exists (LgRunID c) (LgJobName c) d)"

lemma numbered_nth: "numbered rows \<longleftrightarrow> (\<forall>i < length rows. LgSequence (rows ! i) = int i + 1)"
  unfolding numbered_def list_eq_iff_nth_eq by simp

lemma numbered_snoc: "numbered (rows @ [c]) \<longleftrightarrow> numbered rows \<and> LgSequence c = int (length rows) + 1"
  by (simp add: numbered_def)

lemma numbered_max: "numbered rows \<Longrightarrow> max_sequence rows = int (length rows)"
proof (induction rows rule: rev_induct)
  case (snoc c rows)
  then have n: "numbered rows" "LgSequence c = int (length rows) + 1" by (auto simp: numbered_snoc)
  have "LgSequence x \<le> LgSequence c" if "x \<in> set rows" for x
    using that n by (auto simp: numbered_nth in_set_conv_nth)
  then have "Max (insert (LgSequence c) (LgSequence ` set rows)) = LgSequence c" by (intro Max_eqI) auto
  then show ?case using n(2) by (simp add: max_sequence_def)
qed (simp add: max_sequence_def)

lemma numbered_find:
  assumes "numbered rows"
  shows "find (\<lambda>x. LgSequence x = q) rows = (if 1 \<le> q \<and> q \<le> int (length rows) then Some (rows ! (nat q - 1)) else None)"
proof (cases "1 \<le> q \<and> q \<le> int (length rows)")
  case True
  have seq: "LgSequence (rows ! i) = int i + 1" if "i < length rows" for i using assms that by (simp add: numbered_nth)
  have "find (\<lambda>x. LgSequence x = q) rows = Some (rows ! (nat q - 1))"
    unfolding find_Some_iff
  proof (intro exI [of _ "nat q - 1"] conjI allI impI)
    show "nat q - 1 < length rows" using True by linarith
    then show "LgSequence (rows ! (nat q - 1)) = q" using True seq [of "nat q - 1"] by linarith
    show "LgSequence (rows ! j) \<noteq> q" if "j < nat q - 1" for j using seq [of j] that True by linarith
  qed simp
  then show ?thesis using True by simp
next
  case False
  then have "find (\<lambda>x. LgSequence x = q) rows = None"
    using assms by (auto simp: find_None_iff numbered_nth in_set_conv_nth)
  then show ?thesis using False by auto
qed

section \<open>Appending\<close>

text \<open>What appending does to the numbered log of a job: a replay is compared, the next number is appended,
  everything else is refused.\<close>

definition same_chunk :: "JobLogChunk \<Rightarrow> JobLogChunk \<Rightarrow> bool" where
  "same_chunk a b \<longleftrightarrow> LgSequence a = LgSequence b \<and> LgStream a = LgStream b \<and> LgPayload a = LgPayload b"

lemma stamped_sel [simp]:
  "LgRunID (stamped clock c) = LgRunID c" "LgJobName (stamped clock c) = LgJobName c" "LgSequence (stamped clock c) = LgSequence c"
  "LgStream (stamped clock c) = LgStream c" "LgPayload (stamped clock c) = LgPayload c" "same_chunk (stamped clock c) c"
  "valid_chunk (stamped clock c) = valid_chunk c"
  by (simp_all add: stamped_def same_chunk_def valid_chunk_def)

lemma append_chunk_eq:
  assumes "numbered (job_log d (LgRunID c) (LgJobName c))" and "LgSequence c \<ge> 1"
  shows "append_chunk clock c d =
    (let rows = job_log d (LgRunID c) (LgJobName c) in
     if LgSequence c \<le> int (length rows)
     then (if same_chunk (rows ! (nat (LgSequence c) - 1)) c then Inr ((), d) else Inl ErrConflict)
     else if LgSequence c = int (length rows) + 1 then Inr ((), d\<lparr> logs := logs d @ [stamped clock c] \<rparr>)
     else Inl ErrConflict)"
proof -
  let ?rows = "job_log d (LgRunID c) (LgJobName c)"
  have s: "append_chunk clock c d = (case find (\<lambda>x. LgSequence x = LgSequence c) ?rows of
       Some x \<Rightarrow> if LgStream x \<noteq> LgStream c \<or> LgPayload x \<noteq> LgPayload c then Inl ErrConflict else Inr ((), d)
     | None \<Rightarrow> if LgSequence c \<noteq> max_sequence ?rows + 1 then Inl ErrConflict
       else Inr ((), d\<lparr> logs := logs d @ [stamped clock c] \<rparr>))"
    by (simp add: append_chunk_def Let_def split: option.split)
  have "LgSequence (?rows ! (nat (LgSequence c) - 1)) = LgSequence c" if "LgSequence c \<le> int (length ?rows)"
    using assms that by (auto simp: numbered_nth)
  then show ?thesis
    using assms(2) unfolding s by (simp add: numbered_find [OF assms(1)] numbered_max [OF assms(1)] Let_def same_chunk_def)
qed

lemma job_log_append:
  "job_log (d\<lparr> logs := logs d @ [c] \<rparr>) run job
    = job_log d run job @ (if LgRunID c = run \<and> LgJobName c = job then [c] else [])"
  by (simp add: job_log_def)

lemma append_chunk_cases:
  assumes "logs_ok d" and "LgSequence c \<ge> 1" and "append_chunk clock c d = Inr (u, d')"
  obtains (replayed) "LgSequence c \<le> int (length (job_log d (LgRunID c) (LgJobName c)))" "d' = d"
      "same_chunk (job_log d (LgRunID c) (LgJobName c) ! (nat (LgSequence c) - 1)) c"
  | (appended) "LgSequence c = int (length (job_log d (LgRunID c) (LgJobName c))) + 1"
      "d' = d\<lparr> logs := logs d @ [stamped clock c] \<rparr>"
proof -
  have n: "numbered (job_log d (LgRunID c) (LgJobName c))" using assms(1) by (simp add: logs_ok_def)
  show thesis
    using assms(3) replayed appended unfolding append_chunk_eq [OF n assms(2)] by (auto simp: Let_def split: if_splits)
qed

lemma append_chunk_ok:
  assumes ok: "logs_ok d" and c: "valid_chunk c" "job_exists (LgRunID c) (LgJobName c) d" and a: "append_chunk clock c d = Inr (u, d')"
  shows "logs_ok d' \<and> jobs d' = jobs d"
proof -
  have q: "LgSequence c \<ge> 1" using c(1) by (auto simp: valid_chunk_def)
  from ok q a show ?thesis
  proof (cases rule: append_chunk_cases)
    case appended
    have "numbered (job_log d' run job)" for run job
      using ok appended by (auto simp: job_log_append logs_ok_def numbered_snoc)
    moreover have "valid_chunk x \<and> job_exists (LgRunID x) (LgJobName x) d'" if "x \<in> set (logs d')" for x
      using that ok c appended(2) by (auto simp: logs_ok_def job_exists_def)
    ultimately show ?thesis using appended(2) by (simp add: logs_ok_def)
  qed (use ok in simp)
qed

lemma AppendJobLog_ok: "logs_ok d \<Longrightarrow> AppendJobLog clock c d = Inr (u, d') \<Longrightarrow> logs_ok d'"
  using append_chunk_ok by (auto simp: AppendJobLog_def split: if_splits)

section \<open>Batches\<close>

definition recorded :: "db \<Rightarrow> JobLogChunk \<Rightarrow> bool" where
  "recorded d c \<longleftrightarrow> 1 \<le> LgSequence c \<and> LgSequence c \<le> int (length (job_log d (LgRunID c) (LgJobName c))) \<and>
     same_chunk (job_log d (LgRunID c) (LgJobName c) ! (nat (LgSequence c) - 1)) c"

text \<open>How the logs of a database may change: every log only grows at its end.\<close>

definition logs_grow :: "db \<Rightarrow> db \<Rightarrow> bool" where
  "logs_grow d d' \<longleftrightarrow> (\<forall>run job. prefix (job_log d run job) (job_log d' run job))"

lemma logs_grow_refl [simp]: "logs_grow d d"
  and logs_grow_trans: "logs_grow a b \<Longrightarrow> logs_grow b c \<Longrightarrow> logs_grow a c"
  unfolding logs_grow_def by simp (meson prefix_order.trans)

lemma recorded_grow: "recorded d c \<Longrightarrow> logs_grow d d' \<Longrightarrow> recorded d' c"
proof -
  assume r: "recorded d c" and "logs_grow d d'"
  then obtain t where t: "job_log d' (LgRunID c) (LgJobName c) = job_log d (LgRunID c) (LgJobName c) @ t"
    unfolding logs_grow_def prefix_def by blast
  have "nat (LgSequence c) - 1 < length (job_log d (LgRunID c) (LgJobName c))" using r unfolding recorded_def by linarith
  then show ?thesis using r by (simp add: recorded_def t nth_append)
qed

lemma append_chunk_records:
  assumes ok: "logs_ok d" and q: "LgSequence c \<ge> 1" and a: "append_chunk clock c d = Inr (u, d')"
  shows "recorded d' c \<and> logs_grow d d' \<and> d' = d\<lparr> logs := logs d' \<rparr>"
  using ok q a
proof (cases rule: append_chunk_cases)
  case replayed
  then show ?thesis using q by (simp add: recorded_def)
next
  case appended
  have "nat (LgSequence c) - 1 = length (job_log d (LgRunID c) (LgJobName c))" using appended(1) by simp
  then have "recorded d' c" using appended q by (simp add: recorded_def job_log_append)
  then show ?thesis using appended(2) by (simp add: logs_grow_def job_log_append)
qed

lemma append_chunk_recorded:
  assumes "logs_ok d" and "recorded d c"
  shows "append_chunk clock c d = Inr ((), d)"
proof -
  have "numbered (job_log d (LgRunID c) (LgJobName c))" using assms(1) by (simp add: logs_ok_def)
  from append_chunk_eq [OF this] assms(2) show ?thesis by (simp add: recorded_def Let_def)
qed

lemma append_chunks_records:
  assumes "logs_ok d" and "\<And>c. c \<in> set cs \<Longrightarrow> valid_chunk c \<and> job_exists (LgRunID c) (LgJobName c) d"
    and "append_chunks clock cs d = Inr (u, d')"
  shows "logs_ok d' \<and> (\<forall>c \<in> set cs. recorded d' c) \<and> logs_grow d d' \<and> d' = d\<lparr> logs := logs d' \<rparr>"
  using assms
proof (induction cs arbitrary: d)
  case (Cons c cs)
  then obtain d1 where d1: "append_chunk clock c d = Inr ((), d1)" "append_chunks clock cs d1 = Inr (u, d')"
    by (auto simp: rbind_eq_Inr)
  have c: "valid_chunk c" "job_exists (LgRunID c) (LgJobName c) d" and q: "LgSequence c \<ge> 1"
    using Cons.prems(2) [of c] by (auto simp: valid_chunk_def)
  note ok = append_chunk_ok [OF Cons.prems(1) c d1(1)] and rec = append_chunk_records [OF Cons.prems(1) q d1(1)]
  have "valid_chunk x \<and> job_exists (LgRunID x) (LgJobName x) d1" if "x \<in> set cs" for x
    using Cons.prems(2) [of x] that ok by (auto simp: job_exists_def)
  note IH = Cons.IH [OF conjunct1 [OF ok] this d1(2)]
  have "recorded d' c" using rec IH recorded_grow by blast
  moreover have "d' = d\<lparr> logs := logs d' \<rparr>" using rec IH by (metis db.update_convs(8) db.surjective)
  ultimately show ?case using rec IH logs_grow_trans by auto
qed simp

text \<open>The rows a batch adds to a log are chunks of the batch.\<close>

lemma append_chunks_adds:
  assumes "append_chunks clock cs d = Inr (u, d')"
  shows "\<exists>ext. job_log d' run job = job_log d run job @ ext \<and> (\<forall>x \<in> set ext. \<exists>c \<in> set cs. same_chunk x c)"
  using assms
proof (induction cs arbitrary: d)
  case (Cons c cs)
  then obtain d1 where d1: "append_chunk clock c d = Inr ((), d1)" "append_chunks clock cs d1 = Inr (u, d')"
    by (auto simp: rbind_eq_Inr)
  obtain e1 where e1: "job_log d1 run job = job_log d run job @ e1" "\<forall>x \<in> set e1. same_chunk x c"
  proof -
    have "d1 = d \<or> d1 = d\<lparr> logs := logs d @ [stamped clock c] \<rparr>"
      using d1(1) by (auto simp: append_chunk_def Let_def split: option.splits if_splits)
    then show thesis
    proof
      assume "d1 = d\<lparr> logs := logs d @ [stamped clock c] \<rparr>"
      then show thesis
        by (intro that [of "if LgRunID c = run \<and> LgJobName c = job then [stamped clock c] else []"]) (simp_all add: job_log_append)
    qed (use that [of "[]"] in simp)
  qed
  from Cons.IH [OF d1(2)] obtain e2 where "job_log d' run job = job_log d1 run job @ e2" "\<forall>x \<in> set e2. \<exists>c \<in> set cs. same_chunk x c" by blast
  then show ?case using e1 by (intro exI [of _ "e1 @ e2"]) auto
qed simp

lemma append_chunks_recorded:
  "logs_ok d \<Longrightarrow> (\<And>c. c \<in> set cs \<Longrightarrow> recorded d c) \<Longrightarrow> append_chunks clock cs d = Inr ((), d)"
  by (induction cs) (simp_all add: append_chunk_recorded)

lemma valid_batch_chunks:
  "valid_batch run job previous cs \<Longrightarrow> c \<in> set cs \<Longrightarrow> valid_chunk c \<and> LgRunID c = run \<and> LgJobName c = job"
  by (induction cs arbitrary: previous) auto

lemma AppendJobLogs_cases:
  assumes "AppendJobLogs clock cs d = Inr (u, d')"
  obtains run job where "valid_batch run job 0 cs" "cs \<noteq> []" "job_exists run job d" "append_chunks clock cs d = Inr ((), d')"
    "LgRunID (hd cs) = run" "LgJobName (hd cs) = job"
  using assms by (auto simp: AppendJobLogs_def split: list.splits if_splits)

lemma AppendJobLogs_records:
  assumes "logs_ok d" and "AppendJobLogs clock cs d = Inr (u, d')"
  shows "logs_ok d' \<and> (\<forall>c \<in> set cs. recorded d' c) \<and> logs_grow d d' \<and> d' = d\<lparr> logs := logs d' \<rparr>"
  using assms(2)
proof (rule AppendJobLogs_cases)
  fix run job assume b: "valid_batch run job 0 cs" "job_exists run job d" "append_chunks clock cs d = Inr ((), d')"
  have "valid_chunk c \<and> job_exists (LgRunID c) (LgJobName c) d" if "c \<in> set cs" for c
    using valid_batch_chunks [OF b(1) that] b(2) by simp
  then show ?thesis using append_chunks_records [OF assms(1) _ b(3)] by blast
qed

lemma AppendJobLogs_again:
  assumes "logs_ok d" and a: "AppendJobLogs clock cs d = Inr (u, d')"
  shows "AppendJobLogs clock' cs d' = Inr ((), d')"
  using a
proof (rule AppendJobLogs_cases)
  fix run job assume b: "valid_batch run job 0 cs" "cs \<noteq> []" "job_exists run job d" "LgRunID (hd cs) = run" "LgJobName (hd cs) = job"
  note r = AppendJobLogs_records [OF assms]
  have "jobs d' = jobs d" using r by (metis db.select_convs(2) db.update_convs(8) db.surjective)
  then have "job_exists run job d'" using b(3) by (simp add: job_exists_def)
  then show ?thesis
    using b r append_chunks_recorded [of d' cs clock'] by (cases cs) (auto simp: AppendJobLogs_def)
qed

section \<open>Reading\<close>

lemma numbered_filter: "numbered rows \<Longrightarrow> 0 \<le> after \<Longrightarrow> filter (\<lambda>c. LgSequence c > after) rows = drop (nat after) rows"
proof (induction rows rule: rev_induct)
  case (snoc c rows)
  then have n: "numbered rows" "LgSequence c = int (length rows) + 1" by (auto simp: numbered_snoc)
  show ?case
  proof (cases "after \<le> int (length rows)")
    case True
    then show ?thesis using snoc n by (simp add: nat_le_iff)
  next
    case False
    then show ?thesis using snoc n by simp
  qed
qed simp

lemma numbered_sorted: "numbered rows \<Longrightarrow> sorted (map LgSequence rows)"
  by (auto simp: numbered_def sorted_map sorted_wrt_map intro: sorted_wrt_upt)

lemma ListJobLogs_slice:
  assumes "logs_ok d" and "job_exists run job d" and "0 \<le> after"
  shows "ListJobLogs run job after limit d = Inr (take (clamp_limit limit) (drop (nat after) (job_log d run job)))"
proof -
  have n: "numbered (job_log d run job)" using assms(1) by (simp add: logs_ok_def)
  have "sorted (map LgSequence (drop (nat after) (job_log d run job)))"
    using numbered_sorted [OF n] by (simp add: drop_map [symmetric] sorted_wrt_drop)
  then show ?thesis using assms(2,3) by (simp add: ListJobLogs_def numbered_filter [OF n] sort_key_id_if_sorted)
qed

end
