(* ===== verification/Storage_Step.thy ===== *)
theory Storage_Step
  imports Artifact_Store Cache_Store Log_Store
begin

text \<open>
  The store operations on artifacts, caches and logs as one step relation, with the part of the database they
  leave alone and the invariant of the three tables. \<open>Scheduler\<close> interleaves these steps with those on
  runs and jobs.
\<close>

inductive storage_step :: "Store \<Rightarrow> db \<Rightarrow> db \<Rightarrow> bool" for s where
  commit_artifacts: "CommitArtifacts s fresh now owner items d = Inr (u, d') \<Longrightarrow> storage_step s d d'"
| set_expiry: "SetArtifactExpiry run at d = Inr (u, d') \<Longrightarrow> storage_step s d d'"
| expire_artifacts: "ExpireArtifacts now d = Inr (r, d') \<Longrightarrow> storage_step s d d'"
| lookup_cache: "LookupCache s ws key clock d = Inr (m, d') \<Longrightarrow> storage_step s d d'"
| commit_cache: "CommitCache s ident clock m d = Inr (u, d') \<Longrightarrow> storage_step s d d'"
| delete_cache: "DeleteCache ws key now d = Inr (u, d') \<Longrightarrow> storage_step s d d'"
| expire_cache: "ExpireCache clock maxBytes d = Inr (r, d') \<Longrightarrow> storage_step s d d'"
| append_log: "AppendJobLog clock c d = Inr (u, d') \<Longrightarrow> storage_step s d d'"
| append_logs: "AppendJobLogs clock cs d = Inr (u, d') \<Longrightarrow> storage_step s d d'"

definition storage_ok :: "db \<Rightarrow> bool" where
  "storage_ok d \<longleftrightarrow> distinct (map artifact_key (artifacts d)) \<and> (\<forall>a \<in> set (artifacts d). artifact_check a) \<and> caches_ok d \<and> logs_ok d"

text \<open>What a storage step does not touch.\<close>

definition storage_frame :: "db \<Rightarrow> db \<Rightarrow> bool" where
  "storage_frame d d' \<longleftrightarrow> (\<exists>a c l. d' = d\<lparr> artifacts := a, caches := c, logs := l \<rparr>)"

lemma frame_refl [simp]: "storage_frame d d"
  and frame_artifacts [simp]: "storage_frame d (d\<lparr> artifacts := a \<rparr>)"
  and frame_caches [simp]: "storage_frame d (d\<lparr> caches := c \<rparr>)"
  and frame_logs [simp]: "storage_frame d (d\<lparr> logs := l \<rparr>)"
proof -
  show "storage_frame d d" unfolding storage_frame_def
    by (intro exI [of _ "artifacts d"] exI [of _ "caches d"] exI [of _ "logs d"]) simp
  show "storage_frame d (d\<lparr> artifacts := a \<rparr>)" unfolding storage_frame_def
    by (intro exI [of _ a] exI [of _ "caches d"] exI [of _ "logs d"]) simp
  show "storage_frame d (d\<lparr> caches := c \<rparr>)" unfolding storage_frame_def
    by (intro exI [of _ "artifacts d"] exI [of _ c] exI [of _ "logs d"]) simp
  show "storage_frame d (d\<lparr> logs := l \<rparr>)" unfolding storage_frame_def
    by (intro exI [of _ "artifacts d"] exI [of _ "caches d"] exI [of _ l]) simp
qed

lemma frame_trans: "storage_frame a b \<Longrightarrow> storage_frame b c \<Longrightarrow> storage_frame a c"
  unfolding storage_frame_def by (elim exE) (simp, blast)

lemma delete_blobs_frame: "storage_frame d (foldl (delete_blob clock) d digests)"
proof (induction digests arbitrary: d)
  case (Cons g gs)
  have "storage_frame d (delete_blob clock d g)" by (simp add: delete_blob_def)
  then show ?case using Cons frame_trans by fastforce
qed simp

lemma ExpireCache_frame: "ExpireCache clock maxBytes d = Inr (r, d') \<Longrightarrow> storage_frame d d'"
proof -
  assume e: "ExpireCache clock maxBytes d = Inr (r, d')"
  have "storage_frame d (expire_by_time clock d)" by (simp add: expire_by_time_def)
  moreover have "storage_frame x (evict_by_size clock maxBytes x)" for x
    by (simp add: evict_by_size_def Let_def delete_blobs_frame)
  ultimately show ?thesis using e frame_trans by (auto simp: ExpireCache_def Let_def split: if_splits)
qed

lemma append_chunk_frame: "append_chunk clock c d = Inr (u, d') \<Longrightarrow> storage_frame d d'"
  by (auto simp: append_chunk_def Let_def split: option.splits if_splits)

lemma append_chunks_frame: "append_chunks clock cs d = Inr (u, d') \<Longrightarrow> storage_frame d d'"
proof (induction cs arbitrary: d)
  case (Cons c cs)
  then obtain d1 where "append_chunk clock c d = Inr ((), d1)" "append_chunks clock cs d1 = Inr (u, d')"
    by (auto simp: rbind_eq_Inr)
  then show ?case using append_chunk_frame Cons.IH frame_trans by blast
qed simp

lemma storage_step_frame:
  assumes "storage_step s d d'"
  shows "storage_frame d d'"
  using assms
proof (cases rule: storage_step.cases)
  case (commit_artifacts fresh now owner items u)
  then show ?thesis using CommitArtifacts_frame by fastforce
next
  case (expire_artifacts now r)
  then show ?thesis by (auto simp: ExpireArtifacts_def rbind_eq_Inr exec_artifacts_Inr Let_def)
next
  case (commit_cache ident clock m u)
  then show ?thesis by (cases rule: CommitCache_cases) auto
next
  case (append_log clock c u)
  then show ?thesis by (auto simp: AppendJobLog_def append_chunk_frame split: if_splits)
next
  case (append_logs clock cs u)
  then show ?thesis using append_chunks_frame by (elim AppendJobLogs_cases) blast
qed (auto simp: SetArtifactExpiry_def any_rows_Inr exec_artifacts_Inr LookupCache_def DeleteCache_def Let_def ExpireCache_frame
    split: option.splits if_splits)

text \<open>The rows of \<open>artifacts\<close> satisfy the constraints, and no step adds a second row for a name.\<close>

lemma storage_artifacts:
  assumes chk: "\<And>a. a \<in> set (artifacts d) \<Longrightarrow> artifact_check a" and "exec_artifacts P f d = Inr (n, d')" and "\<And>a. artifact_key (f a) = artifact_key a"
  shows "(\<forall>a \<in> set (artifacts d'). artifact_check a) \<and> map artifact_key (artifacts d') = map artifact_key (artifacts d)"
proof -
  have "artifact_check a" if "a \<in> set (upd_where P f (artifacts d))" for a
    using that assms(1,2) by (cases rule: in_upd_whereE) (auto simp: exec_artifacts_Inr)
  then show ?thesis using assms(2,3) by (auto simp: exec_artifacts_Inr map_upd_where)
qed

lemma storage_step_artifacts:
  assumes chk: "\<And>a. a \<in> set (artifacts d) \<Longrightarrow> artifact_check a" and step: "storage_step s d d'"
  shows "(\<forall>a \<in> set (artifacts d'). artifact_check a) \<and>
    (distinct (map artifact_key (artifacts d)) \<longrightarrow> distinct (map artifact_key (artifacts d')))"
  using step
proof (cases rule: storage_step.cases)
  case (commit_artifacts fresh now owner items u)
  then show ?thesis using CommitArtifacts_checks [OF _ chk] CommitArtifacts_records(2) by blast
next
  case (set_expiry run at u)
  then obtain n where "exec_artifacts (\<lambda>a. ArRunID a = run \<and> ArExpiresAt a = None) (\<lambda>a. a\<lparr> ArExpiresAt := Some at \<rparr>) d = Inr (n, d')"
    by (auto simp: SetArtifactExpiry_def any_rows_Inr)
  from storage_artifacts [OF chk this] show ?thesis by (simp add: artifact_key_def del: distinct_map)
next
  case (expire_artifacts now r)
  then obtain n where "exec_artifacts (artifact_expired now) (\<lambda>a. a\<lparr> ArDeletedAt := Some now \<rparr>) d = Inr (n, d')"
    by (auto simp: ExpireArtifacts_def rbind_eq_Inr Let_def)
  from storage_artifacts [OF chk this] show ?thesis by (simp add: artifact_key_def del: distinct_map)
next
  case (commit_cache ident clock m u)
  then show ?thesis using chk by (cases rule: CommitCache_cases) auto
next
  case (expire_cache clock maxBytes r)
  have "artifacts (foldl (delete_blob clock) x gs) = artifacts x" for x gs
    by (induction gs arbitrary: x) (auto simp: delete_blob_def)
  then show ?thesis
    using expire_cache chk by (auto simp: ExpireCache_def Let_def evict_by_size_def expire_by_time_def split: if_splits)
next
  case (append_log clock c u)
  then show ?thesis using chk by (auto simp: AppendJobLog_def append_chunk_def Let_def split: if_splits option.splits)
next
  case (append_logs clock cs u)
  have "append_chunks clock cs x = Inr (v, y) \<Longrightarrow> artifacts y = artifacts x" for x y v
    by (induction cs arbitrary: x) (auto simp: rbind_eq_Inr append_chunk_def Let_def split: if_splits option.splits)
  then show ?thesis using chk append_logs by (elim AppendJobLogs_cases) auto
qed (use chk in \<open>auto simp: LookupCache_def DeleteCache_def Let_def split: option.splits if_splits\<close>)

end
