(* ===== verification/Scheduler.thy ===== *)
theory Scheduler
  imports Storage_Step
begin

text \<open>
  The invariant of the remote scheduler and its preservation by every store operation that a control
  plane in remote mode performs on runs and jobs. \<open>sched_mid B F\<close> is the invariant between the
  statements of a transaction: the runs of \<open>B\<close> may still have pending jobs behind a failed one,
  and the runs of \<open>F\<close> may still be open although all their jobs are finished. The two helpers
  \<open>blockDependents\<close> and \<open>finalizeRun\<close> each discharge one of the two debts, and
  \<open>sched_ok\<close> is the state with none.
\<close>

section \<open>The invariant\<close>

definition unfinished :: "db \<Rightarrow> string \<Rightarrow> bool" where
  "unfinished d run \<longleftrightarrow> (\<exists>j \<in> set (jobs d). jrun j = run \<and> jstatus j \<in> {JobPending, JobRunning})"

definition run_open :: "run_row \<Rightarrow> bool" where
  "run_open r \<longleftrightarrow> rstatus r \<in> {RunQueued, RunRunning}"

definition jobs_inv :: "string set \<Rightarrow> db \<Rightarrow> bool" where
  "jobs_inv B d \<longleftrightarrow> (\<forall>j \<in> set (jobs d).
     (jstatus j = JobPending \<longrightarrow> jgeneration j = 0) \<and>
     (jstatus j = JobRunning \<longrightarrow> jlease j \<noteq> None) \<and>
     (jrun j \<notin> B \<longrightarrow> \<not> blockable d (jrun j) j))"

definition run_inv :: "string set \<Rightarrow> db \<Rightarrow> run_row \<Rightarrow> bool" where
  "run_inv F d r \<longleftrightarrow>
     int (running_in d (rid r)) \<le> rmax_parallel r \<and>
     (unfinished d (rid r) \<longrightarrow> run_open r) \<and>
     (rid r \<notin> F \<longrightarrow> run_open r \<longrightarrow> unfinished d (rid r)) \<and>
     (rstatus r = RunQueued \<longrightarrow> (\<forall>j \<in> set (jobs d). jrun j = rid r \<longrightarrow> jstatus j = JobPending)) \<and>
     (rcancel_at r \<noteq> None \<longrightarrow> (\<forall>j \<in> set (jobs d). jrun j = rid r \<longrightarrow> jstatus j \<noteq> JobPending)) \<and>
     rrunner r = None \<and> rid r \<in> jrun ` set (jobs d)"

definition sched_mid :: "string set \<Rightarrow> string set \<Rightarrow> db \<Rightarrow> bool" where
  "sched_mid B F d \<longleftrightarrow> tables_ok d \<and> jobs_inv B d \<and> (\<forall>r \<in> set (runs d). run_inv F d r)"

abbreviation sched_ok :: "db \<Rightarrow> bool" where
  "sched_ok \<equiv> sched_mid {} {}"

lemma sched_midD:
  assumes "sched_mid B F d"
  shows "tables_ok d" and "jobs_inv B d" and "r \<in> set (runs d) \<Longrightarrow> run_inv F d r"
  using assms by (auto simp: sched_mid_def)

lemma jobs_invD:
  assumes "jobs_inv B d" and "j \<in> set (jobs d)"
  shows "jstatus j = JobPending \<Longrightarrow> jgeneration j = 0" and "jstatus j = JobRunning \<Longrightarrow> jlease j \<noteq> None"
    and "jrun j \<notin> B \<Longrightarrow> \<not> blockable d (jrun j) j"
  using assms by (auto simp: jobs_inv_def)

lemma blockable_iff: "blockable d run j \<longleftrightarrow> jrun j = run \<and> jstatus j = JobPending \<and> (\<exists>u. upstream_of d j u \<and> failed_status (jstatus u))"
  by (simp add: blockable_def upstream_with_iff)

lemma finished_not:
  "st \<in> finished_statuses \<Longrightarrow> st \<noteq> JobPending \<and> st \<noteq> JobRunning"
  by (auto simp: finished_statuses_def)

lemma run_invD:
  assumes "run_inv F d r"
  shows "int (running_in d (rid r)) \<le> rmax_parallel r" and "unfinished d (rid r) \<Longrightarrow> run_open r"
    and "rid r \<notin> F \<Longrightarrow> run_open r \<Longrightarrow> unfinished d (rid r)"
    and "rstatus r = RunQueued \<Longrightarrow> j \<in> set (jobs d) \<Longrightarrow> jrun j = rid r \<Longrightarrow> jstatus j = JobPending"
    and "rcancel_at r \<noteq> None \<Longrightarrow> j \<in> set (jobs d) \<Longrightarrow> jrun j = rid r \<Longrightarrow> jstatus j \<noteq> JobPending"
    and "rrunner r = None" and "rid r \<in> jrun ` set (jobs d)"
  using assms by (auto simp: run_inv_def)

lemma run_invI:
  assumes "int (running_in d (rid r)) \<le> rmax_parallel r" and "unfinished d (rid r) \<Longrightarrow> run_open r"
    and "rid r \<notin> F \<Longrightarrow> run_open r \<Longrightarrow> unfinished d (rid r)"
    and "\<And>j. rstatus r = RunQueued \<Longrightarrow> j \<in> set (jobs d) \<Longrightarrow> jrun j = rid r \<Longrightarrow> jstatus j = JobPending"
    and "\<And>j. rcancel_at r \<noteq> None \<Longrightarrow> j \<in> set (jobs d) \<Longrightarrow> jrun j = rid r \<Longrightarrow> jstatus j \<noteq> JobPending"
    and "rrunner r = None" and "rid r \<in> jrun ` set (jobs d)"
  shows "run_inv F d r"
  unfolding run_inv_def by (intro conjI impI ballI) (use assms in blast)+

section \<open>Statements that finish jobs\<close>

definition finishes :: "(job_row \<Rightarrow> bool) \<Rightarrow> (job_row \<Rightarrow> job_row) \<Rightarrow> string set \<Rightarrow> db \<Rightarrow> bool" where
  "finishes P f X d \<longleftrightarrow> (\<forall>j. job_key (f j) = job_key j \<and> jstatus (f j) \<in> finished_statuses) \<and>
     (\<forall>j \<in> set (jobs d). P j \<longrightarrow> jrun j \<in> X) \<and> (\<forall>r \<in> set (runs d). rid r \<in> X \<longrightarrow> rstatus r \<noteq> RunQueued)"

lemma finishesD:
  assumes "finishes P f X d" and d': "d' = d\<lparr>jobs := upd_where P f (jobs d)\<rparr>"
  shows "job_key (f j) = job_key j" and "jrun (f j) = jrun j"
    and "j \<in> set (jobs d') \<Longrightarrow> jstatus j \<in> {JobPending, JobRunning} \<Longrightarrow> j \<in> set (jobs d)"
    and "jrun j \<notin> X \<Longrightarrow> j \<in> set (jobs d') \<longleftrightarrow> j \<in> set (jobs d)"
proof -
  have k: "job_key (f j) = job_key j" "jstatus (f j) \<noteq> JobPending" "jstatus (f j) \<noteq> JobRunning" for j
    using assms(1) finished_not [of "jstatus (f j)"] by (auto simp: finishes_def)
  then show "job_key (f j) = job_key j" "jrun (f j) = jrun j" by (auto simp: job_key_def)
  show "j \<in> set (jobs d') \<Longrightarrow> jstatus j \<in> {JobPending, JobRunning} \<Longrightarrow> j \<in> set (jobs d)"
    using k(2,3) by (auto simp: d' elim!: in_upd_whereE)
  have "jrun (f j) = jrun j" for j using k(1) [of j] by (simp add: job_key_def)
  then show "jrun j \<notin> X \<Longrightarrow> j \<in> set (jobs d') \<longleftrightarrow> j \<in> set (jobs d)"
    using assms(1) by (auto simp: d' finishes_def set_upd_where image_iff)
qed

lemma finish_jobs_inv:
  assumes inv: "jobs_inv B d" and fin: "finishes P f X d" and d': "d' = d\<lparr>jobs := upd_where P f (jobs d)\<rparr>"
    and B': "B \<subseteq> B'" "X \<subseteq> B' \<or> (\<forall>j. jstatus (f j) = JobPassed)"
  shows "jobs_inv B' d'"
  unfolding jobs_inv_def
proof (intro ballI conjI impI)
  note kept = finishesD(3) [OF fin d'] and kept' = finishesD(4) [OF fin d']
  fix j assume j: "j \<in> set (jobs d')"
  show "jgeneration j = 0" if "jstatus j = JobPending" using that j kept jobs_invD(1) [OF inv] by auto
  show "jlease j \<noteq> None" if "jstatus j = JobRunning" using that j kept jobs_invD(2) [OF inv] by auto
  assume nB: "jrun j \<notin> B'"
  show "\<not> blockable d' (jrun j) j"
  proof
    assume "blockable d' (jrun j) j"
    then obtain u where u: "jstatus j = JobPending" "upstream_of d' j u" "failed_status (jstatus u)"
      by (auto simp: blockable_iff)
    have jd: "j \<in> set (jobs d)" using j u(1) kept by simp
    have ud: "u \<in> set (jobs d')" "jrun u = jrun j" using u(2) by (auto simp: upstream_of_def)
    have "u \<in> set (jobs d)"
    proof (cases "X \<subseteq> B'")
      case True
      then show ?thesis using kept' [of u] ud nB by auto
    next
      case False
      then have "jstatus (f v) = JobPassed" for v using B'(2) by simp
      then show ?thesis using ud(1) u(3) by (auto simp: d' failed_status_def elim!: in_upd_whereE)
    qed
    then have "upstream_of d j u" using u(2) by (auto simp: upstream_of_def d')
    then have "blockable d (jrun j) j" using u by (auto simp: blockable_iff)
    then show False using jobs_invD(3) [OF inv jd] nB B'(1) by blast
  qed
qed

lemma finish_run_inv:
  assumes inv: "run_inv F d r" and r: "r \<in> set (runs d)" and fin: "finishes P f X d"
    and d': "d' = d\<lparr>jobs := upd_where P f (jobs d)\<rparr>"
  shows "run_inv (F \<union> X) d' r"
proof (rule run_invI)
  note kept = finishesD(3) [OF fin d'] and kept' = finishesD(4) [OF fin d']
  have nf: "jstatus (f j) \<noteq> JobRunning" for j using fin finished_not [of "jstatus (f j)"] by (auto simp: finishes_def)
  have "running_in d' (rid r) \<le> running_in d (rid r)"
    using nf by (auto simp: running_in_def d' intro!: affected_upd_mono split: if_splits)
  then show "int (running_in d' (rid r)) \<le> rmax_parallel r" using run_invD(1) [OF inv] by linarith
  show "run_open r" if "unfinished d' (rid r)"
    using that kept run_invD(2) [OF inv] by (auto simp: unfinished_def)
  show "unfinished d' (rid r)" if "rid r \<notin> F \<union> X" "run_open r"
    using that kept' run_invD(3) [OF inv] by (auto simp: unfinished_def)
  show "jstatus j = JobPending" if "rstatus r = RunQueued" "j \<in> set (jobs d')" "jrun j = rid r" for j
    using that fin r kept' [of j] run_invD(4) [OF inv, of j] by (auto simp: finishes_def)
  show "jstatus j \<noteq> JobPending" if "rcancel_at r \<noteq> None" "j \<in> set (jobs d')" "jrun j = rid r" for j
    using that kept [of j] run_invD(5) [OF inv, of j] by auto
  show "rrunner r = None" by (rule run_invD(6) [OF inv])
  show "rid r \<in> jrun ` set (jobs d')"
    using run_invD(7) [OF inv] upd_key_set [of jrun f P "jobs d", OF finishesD(2) [OF fin d']] by (simp add: d')
qed

lemma mid_finish:
  assumes mid: "sched_mid B F d" and e: "exec_jobs P f d = Inr (n, d')" and fin: "finishes P f X d"
    and B': "B \<subseteq> B'" "X \<subseteq> B' \<or> (\<forall>j. jstatus (f j) = JobPassed)"
  shows "sched_mid B' (F \<union> X) d'"
proof -
  have d': "d' = d\<lparr>jobs := upd_where P f (jobs d)\<rparr>" using e by (auto simp: exec_jobs_Inr)
  have "tables_ok d'" using tables_ok_jobs [OF sched_midD(1) [OF mid] e finishesD(1) [OF fin d']] .
  moreover have "jobs_inv B' d'" using finish_jobs_inv [OF sched_midD(2) [OF mid] fin d' B'] .
  moreover have "run_inv (F \<union> X) d' r" if "r \<in> set (runs d')" for r
    using that finish_run_inv [OF sched_midD(3) [OF mid] _ fin d'] by (auto simp: d')
  ultimately show ?thesis by (simp add: sched_mid_def)
qed

section \<open>The two helpers\<close>

lemma mid_block:
  assumes mid: "sched_mid B F d" and nq: "\<And>r. r \<in> set (runs d) \<Longrightarrow> rid r = run \<Longrightarrow> rstatus r \<noteq> RunQueued"
  obtains d' where "blockDependents now run d = Inr ((), d')" "sched_mid (B - {run}) (insert run F) d'" "runs d' = runs d"
proof -
  let ?P = "\<lambda>j. doomed d j \<and> jrun j = run"
  let ?d = "d\<lparr>jobs := upd_where ?P (block_row now) (jobs d)\<rparr>"
  have ok: "\<And>j. j \<in> set (jobs d) \<Longrightarrow> job_check j" using tables_okD(8) [OF sched_midD(1) [OF mid]] .
  have e: "exec_jobs ?P (block_row now) d = Inr (affected ?P (jobs d), ?d)"
    using ok block_check doomed_pending by (auto simp: exec_jobs_Inr)
  have fin: "finishes ?P (block_row now) {run} d"
    using nq by (auto simp: finishes_def job_key_def finished_statuses_def)
  have "sched_mid (insert run B) (insert run F) ?d"
    using mid_finish [OF mid e fin, of "insert run B"] by auto
  moreover have "\<not> blockable ?d run j" if "j \<in> set (jobs ?d)" for j
    using that blockDependents_exact(2) [OF ok] by simp
  ultimately have "sched_mid (B - {run}) (insert run F) ?d"
    unfolding sched_mid_def jobs_inv_def by auto
  then show thesis using that blockDependents_exact(1) [OF ok] by simp
qed

lemma run_verdict_terminal: "Terminal (run_verdict c sts)"
  by (auto simp: run_verdict_def)

lemma Terminal_iff: "Terminal st \<longleftrightarrow> st \<noteq> RunQueued \<and> st \<noteq> RunRunning"
  by (cases st) auto

lemma expire_artifacts_of_ok:
  assumes "tables_ok d"
  obtains as where "expire_artifacts_of s run d = Inr ((), d\<lparr>artifacts := as\<rparr>)" "tables_ok (d\<lparr>artifacts := as\<rparr>)"
proof -
  let ?P = "\<lambda>a. ArRunID a = run \<and> ArExpiresAt a = None" and ?f = "\<lambda>a. a\<lparr> ArExpiresAt :=
    Option.bind (find (\<lambda>r. rid r = run) (runs d)) (\<lambda>r. map_option (\<lambda>f. f + artifactRetention s) (rfinished_at r)) \<rparr>"
  have "artifact_check (?f a)" if "a \<in> set (artifacts d)" "?P a" for a
    using that tables_okD(9) [OF assms, of a] by (auto simp: artifact_check_def)
  then have e: "exec_artifacts ?P ?f d = Inr (affected ?P (artifacts d), d\<lparr>artifacts := upd_where ?P ?f (artifacts d)\<rparr>)"
    by (simp add: exec_artifacts_Inr)
  show thesis
    using that [of "upd_where ?P ?f (artifacts d)"] e tables_ok_artifacts [OF assms e]
    by (auto simp: expire_artifacts_of_def any_rows_Inr)
qed

lemma running_in_runs [simp]: "running_in (d\<lparr>runs := rs\<rparr>) run = running_in d run"
  and unfinished_runs [simp]: "unfinished (d\<lparr>runs := rs\<rparr>) run = unfinished d run"
  and running_in_artifacts [simp]: "running_in (d\<lparr>artifacts := as\<rparr>) run = running_in d run"
  and unfinished_artifacts [simp]: "unfinished (d\<lparr>artifacts := as\<rparr>) run = unfinished d run"
  and running_in_runners [simp]: "running_in (d\<lparr>runners := ws\<rparr>) run = running_in d run"
  and unfinished_runners [simp]: "unfinished (d\<lparr>runners := ws\<rparr>) run = unfinished d run"
  by (simp_all add: running_in_def unfinished_def)

lemma upstream_of_other [simp]:
  "upstream_of (d\<lparr>runs := rs\<rparr>) = upstream_of d" "upstream_of (d\<lparr>artifacts := as\<rparr>) = upstream_of d"
  "upstream_of (d\<lparr>runners := ws\<rparr>) = upstream_of d"
  by (auto simp: upstream_of_def fun_eq_iff)

lemma blockable_other [simp]:
  "blockable (d\<lparr>runs := rs\<rparr>) = blockable d" "blockable (d\<lparr>artifacts := as\<rparr>) = blockable d"
  "blockable (d\<lparr>runners := ws\<rparr>) = blockable d"
  by (simp_all add: blockable_iff fun_eq_iff)

lemma jobs_inv_other [simp]:
  "jobs_inv B (d\<lparr>runs := rs\<rparr>) = jobs_inv B d" "jobs_inv B (d\<lparr>artifacts := as\<rparr>) = jobs_inv B d"
  "jobs_inv B (d\<lparr>runners := ws\<rparr>) = jobs_inv B d"
  by (simp_all add: jobs_inv_def)

lemma run_inv_other [simp]:
  "run_inv F (d\<lparr>runs := rs\<rparr>) = run_inv F d" "run_inv F (d\<lparr>artifacts := as\<rparr>) = run_inv F d"
  "run_inv F (d\<lparr>runners := ws\<rparr>) = run_inv F d"
  by (simp_all add: run_inv_def fun_eq_iff)

lemma mid_artifacts: "sched_mid B F d \<Longrightarrow> tables_ok (d\<lparr>artifacts := as\<rparr>) \<Longrightarrow> sched_mid B F (d\<lparr>artifacts := as\<rparr>)"
  by (simp add: sched_mid_def)

lemma mid_runners: "sched_mid B F d \<Longrightarrow> tables_ok (d\<lparr>runners := ws\<rparr>) \<Longrightarrow> sched_mid B F (d\<lparr>runners := ws\<rparr>)"
  by (simp add: sched_mid_def)

text \<open>Closing runs whose jobs are all finished.\<close>

lemma mid_close:
  assumes mid: "sched_mid B F d" and e: "exec_runs P f d = Inr (n, d')"
    and f: "\<And>r. rid (f r) = rid r \<and> rmax_parallel (f r) = rmax_parallel r \<and> rcancel_at (f r) = rcancel_at r \<and>
      rrunner (f r) = rrunner r \<and> Terminal (rstatus (f r))"
    and closed: "\<And>r. r \<in> set (runs d) \<Longrightarrow> P r \<Longrightarrow> \<not> unfinished d (rid r)"
  shows "sched_mid B F d'"
proof -
  have d': "d' = d\<lparr>runs := upd_where P f (runs d)\<rparr>" using e by (auto simp: exec_runs_Inr)
  have "run_inv F d r" if "r \<in> set (upd_where P f (runs d))" for r
    using that
  proof (cases rule: in_upd_whereE)
    case (changed r0)
    have "rstatus (f r0) \<noteq> RunQueued" "rstatus (f r0) \<noteq> RunRunning" using f [of r0] by (auto simp: Terminal_iff)
    then show ?thesis
      using sched_midD(3) [OF mid changed(1)] closed [OF changed(1,2)] f [of r0] changed(3)
      by (simp add: run_inv_def run_open_def)
  qed (use sched_midD(3) [OF mid] in auto)
  moreover have "tables_ok d'" using tables_ok_runs [OF sched_midD(1) [OF mid] e] f by blast
  ultimately show ?thesis using sched_midD(2) [OF mid] by (simp add: sched_mid_def d')
qed

definition closes :: "db \<Rightarrow> db \<Rightarrow> bool" where
  "closes d d' \<longleftrightarrow> rid ` set (runs d') = rid ` set (runs d) \<and>
     (\<forall>r \<in> set (runs d'). r \<in> set (runs d) \<or> Terminal (rstatus r))"

lemma closes_refl [simp]: "closes d d"
  by (simp add: closes_def)

lemma closes_trans: "closes d d' \<Longrightarrow> closes d' d'' \<Longrightarrow> closes d d''"
  by (auto simp: closes_def)

lemma closes_not_queued:
  "closes d d' \<Longrightarrow> (\<And>r. r \<in> set (runs d) \<Longrightarrow> rid r \<in> X \<Longrightarrow> rstatus r \<noteq> RunQueued) \<Longrightarrow>
    r \<in> set (runs d') \<Longrightarrow> rid r \<in> X \<Longrightarrow> rstatus r \<noteq> RunQueued"
  by (auto simp: closes_def Terminal_iff)

lemma mid_discharge:
  assumes "sched_mid B F d" and "\<And>r. r \<in> set (runs d) \<Longrightarrow> rid r = run \<Longrightarrow> run_open r \<Longrightarrow> unfinished d run"
  shows "sched_mid B (F - {run}) d"
  using assms by (auto simp: sched_mid_def run_inv_def)

definition final_row :: "time \<Rightarrow> RunStatus \<Rightarrow> run_row \<Rightarrow> run_row" where
  "final_row now status r = r\<lparr> rstatus := status, rfinished_at := Some now,
     rerror := (if status = RunError then Some ''job infrastructure failure''
                else if status = RunAborted then Some ''job execution ownership lost'' else rerror r) \<rparr>"

lemma final_row_check: "run_check r \<Longrightarrow> run_check (final_row now status r)"
  by (simp add: run_check_def remote_lease_consistent_def final_row_def)

lemma finalizeRun_step:
  assumes "\<not> unfinished d run" and "find (\<lambda>r. rid r = run) (runs d) = Some p" and "filter (\<lambda>j. jrun j = run) (jobs d) = j # js"
  shows "finalizeRun s now run d =
    rbind (exec_runs (\<lambda>r. rid r = run \<and> rstatus r \<in> {RunQueued, RunRunning})
      (final_row now (run_verdict (rcancel_at p \<noteq> None) (map jstatus (j # js)))) d)
      (\<lambda>(n, d1). if n = 0 then Inr ((), d1) else expire_artifacts_of s run d1)"
proof -
  have "affected (\<lambda>j. jrun j = run \<and> jstatus j \<in> {JobPending, JobRunning}) (jobs d) = 0"
    using assms(1) by (auto simp: affected_0 unfinished_def)
  then show ?thesis using assms(2,3) unfolding finalizeRun_def Let_def final_row_def by simp
qed

lemma mid_finalize:
  assumes mid: "sched_mid B F d" and run: "run \<in> rid ` set (runs d)"
  obtains d' where "finalizeRun s now run d = Inr ((), d')" "sched_mid B (F - {run}) d'" "closes d d'" "jobs d' = jobs d"
proof (cases "unfinished d run")
  case True
  then have "0 < affected (\<lambda>j. jrun j = run \<and> jstatus j \<in> {JobPending, JobRunning}) (jobs d)"
    by (auto simp: affected_pos unfinished_def)
  then have "finalizeRun s now run d = Inr ((), d)" by (simp add: finalizeRun_def)
  moreover have "sched_mid B (F - {run}) d" using mid True by (intro mid_discharge) auto
  ultimately show ?thesis using that by simp
next
  case False
  note ok = sched_midD(1) [OF mid]
  from run obtain p where p: "p \<in> set (runs d)" "rid p = run" by auto
  then have fp: "find (\<lambda>r. rid r = run) (runs d) = Some p" using find_key [OF tables_okD(1) [OF ok]] by blast
  have "rid p \<in> jrun ` set (jobs d)" using run_invD(7) [OF sched_midD(3) [OF mid p(1)]] .
  then obtain j js where js: "filter (\<lambda>j. jrun j = run) (jobs d) = j # js"
    using p(2) by (cases "filter (\<lambda>j. jrun j = run) (jobs d)") (auto simp: filter_empty_conv)
  define P where "P = (\<lambda>r :: run_row. rid r = run \<and> rstatus r \<in> {RunQueued, RunRunning})"
  define f where "f = final_row now (run_verdict (rcancel_at p \<noteq> None) (map jstatus (j # js)))"
  have fin: "finalizeRun s now run d = rbind (exec_runs P f d)
      (\<lambda>(n, d1). if n = 0 then Inr ((), d1) else expire_artifacts_of s run d1)"
    unfolding P_def f_def by (rule finalizeRun_step [OF False fp js])
  let ?d = "d\<lparr>runs := upd_where P f (runs d)\<rparr>"
  have e: "exec_runs P f d = Inr (affected P (runs d), ?d)"
    using tables_okD(7) [OF ok] final_row_check by (auto simp: exec_runs_Inr f_def)
  have f: "rid (f r) = rid r \<and> rmax_parallel (f r) = rmax_parallel r \<and> rcancel_at (f r) = rcancel_at r \<and>
      rrunner (f r) = rrunner r \<and> Terminal (rstatus (f r))" for r
    by (simp add: f_def final_row_def run_verdict_terminal)
  have "sched_mid B F ?d" using False by (intro mid_close [OF mid e f]) (simp add: P_def)
  moreover have "\<not> run_open r" if "r \<in> set (runs ?d)" "rid r = run" for r
    using that f by (auto simp: run_open_def P_def Terminal_iff elim!: in_upd_whereE)
  ultimately have mid': "sched_mid B (F - {run}) ?d" by (intro mid_discharge) auto
  have cl: "closes d ?d"
    using f upd_key_set [of rid f P "runs d"] by (auto simp: closes_def elim!: in_upd_whereE)
  obtain as where as: "expire_artifacts_of s run ?d = Inr ((), ?d\<lparr>artifacts := as\<rparr>)" "tables_ok (?d\<lparr>artifacts := as\<rparr>)"
    using expire_artifacts_of_ok [OF sched_midD(1) [OF mid']] by blast
  show ?thesis
  proof (cases "affected P (runs d) = 0")
    case True
    then show ?thesis using that [of ?d] fin e mid' cl by simp
  next
    case False
    then show ?thesis using that [of "?d\<lparr>artifacts := as\<rparr>"] fin e as mid_artifacts [OF mid' as(2)] cl
      by (simp add: closes_def)
  qed
qed

section \<open>Completion, expiry and recovery\<close>

lemma settle_runs_ok:
  assumes "sched_mid B F d" and "set ids \<subseteq> rid ` set (runs d)"
    and "\<And>r. r \<in> set (runs d) \<Longrightarrow> rid r \<in> set ids \<Longrightarrow> rstatus r \<noteq> RunQueued"
  shows "\<exists>d'. settle_runs s now ids d = Inr ((), d') \<and> sched_mid (B - set ids) (F - set ids) d' \<and> closes d d'"
  using assms
proof (induction ids arbitrary: B F d)
  case (Cons run ids)
  obtain d1 where d1: "blockDependents now run d = Inr ((), d1)" "sched_mid (B - {run}) (insert run F) d1" "runs d1 = runs d"
    using mid_block [OF Cons.prems(1), of run] Cons.prems(3) by auto
  obtain d2 where d2: "finalizeRun s now run d1 = Inr ((), d2)" "sched_mid (B - {run}) (insert run F - {run}) d2" "closes d1 d2"
    using mid_finalize [OF d1(2), of run s now] Cons.prems(2) d1(3) by auto
  have cl: "closes d d2" using d2(3) d1(3) by (simp add: closes_def)
  then have "set ids \<subseteq> rid ` set (runs d2)" using Cons.prems(2) by (auto simp: closes_def)
  moreover have "rstatus r \<noteq> RunQueued" if "r \<in> set (runs d2)" "rid r \<in> set ids" for r
    using closes_not_queued [OF cl, of "set (run # ids)" r] Cons.prems(3) that by auto
  ultimately obtain d3 where "settle_runs s now ids d2 = Inr ((), d3)"
    "sched_mid (B - {run} - set ids) (insert run F - {run} - set ids) d3" "closes d2 d3"
    using Cons.IH [OF d2(2)] by blast
  moreover have "B - {run} - set ids = B - set (run # ids)" "insert run F - {run} - set ids = F - set (run # ids)" by auto
  ultimately show ?case using d1(1) d2(1) closes_trans [OF cl] by auto
qed simp

lemma mid_mono: "sched_mid B F d \<Longrightarrow> B \<subseteq> B' \<Longrightarrow> F \<subseteq> F' \<Longrightarrow> sched_mid B' F' d"
  by (auto simp: sched_mid_def jobs_inv_def run_inv_def)

lemma running_run:
  assumes "sched_mid B F d" and "j \<in> set (jobs d)" and "jstatus j = JobRunning"
    and "r \<in> set (runs d)" and "rid r = jrun j"
  shows "rstatus r \<noteq> RunQueued"
  using run_invD(4) [OF sched_midD(3) [OF assms(1,4)] _ assms(2)] assms(3,5) by auto

lemma owned_row:
  assumes "find (owns run job runner lease gen now) (jobs d) = Some j"
  shows "j \<in> set (jobs d)" and "jrun j = run" and "jname j = job" and "jstatus j = JobRunning"
    and "jrunner j = Some runner" and "jlease j = Some lease" and "jgeneration j = gen"
    and "\<exists>e > now. jlease_expires j = Some e"
  using find_SomeD [OF assms] by (auto simp: owns_def split: option.splits)

lemma CompleteJob_cases:
  assumes "CompleteJob s now owner status message d = Inr (u, d')"
  obtains j p d1 d2 where
    "status \<in> {JobPassed, JobFailed, JobError, JobCanceled}"
    "find (owns (OwRunID owner) (OwJobName owner) (OwRunnerID owner) (OwLeaseID owner) (OwGeneration owner) now) (jobs d) = Some j"
    "find (\<lambda>r. rid r = OwRunID owner) (runs d) = Some p"
    "status = JobPassed \<longrightarrow> artifactSetCommittedTx s (ryaml p) (OwRunID owner) (OwJobName owner) d = Inr True"
    "any_rows (exec_jobs (\<lambda>j. jrun j = OwRunID owner \<and> jname j = OwJobName owner) (complete_row now status message) d) = Inr ((), d1)"
    "(if status \<noteq> JobPassed then blockDependents now (OwRunID owner) d1 else Inr ((), d1)) = Inr ((), d2)"
    "finalizeRun s now (OwRunID owner) d2 = Inr ((), d')"
  using assms unfolding CompleteJob_def
  by (auto simp: rbind_eq_Inr split: if_splits option.splits)

lemma complete_finishes:
  assumes mid: "sched_mid B F d" and "j \<in> set (jobs d)" "jrun j = run" "jstatus j = JobRunning"
    and "status \<in> {JobPassed, JobFailed, JobError, JobCanceled}"
  shows "finishes (\<lambda>x. jrun x = run \<and> jname x = name) (complete_row now status message) {run} d"
  using assms running_run [OF mid assms(2,4)]
  by (auto simp: finishes_def job_key_def complete_row_def finished_statuses_def)

lemma CompleteJob_ok:
  assumes mid: "sched_ok d" and c: "CompleteJob s now owner status message d = Inr (u, d')"
  shows "sched_ok d'"
  using c
proof (rule CompleteJob_cases)
  fix j p d1 d2
  let ?run = "OwRunID owner"
  assume st: "status \<in> {JobPassed, JobFailed, JobError, JobCanceled}"
    and f: "find (owns ?run (OwJobName owner) (OwRunnerID owner) (OwLeaseID owner) (OwGeneration owner) now) (jobs d) = Some j"
    and e: "any_rows (exec_jobs (\<lambda>j. jrun j = ?run \<and> jname j = OwJobName owner) (complete_row now status message) d) = Inr ((), d1)"
    and b: "(if status \<noteq> JobPassed then blockDependents now ?run d1 else Inr ((), d1)) = Inr ((), d2)"
    and fin: "finalizeRun s now ?run d2 = Inr ((), d')"
  note j = owned_row [OF f]
  obtain n where n: "exec_jobs (\<lambda>j. jrun j = ?run \<and> jname j = OwJobName owner) (complete_row now status message) d = Inr (n, d1)"
    using e by (auto simp: any_rows_Inr)
  have runs1: "runs d1 = runs d" using n by (auto simp: exec_jobs_Inr)
  note fins = complete_finishes [OF mid j(1,2,4) st, of "OwJobName owner" now message]
  let ?B = "if status = JobPassed then {} else {?run}"
  have mid1: "sched_mid ?B {?run} d1"
    using mid_finish [OF mid n fins, of ?B] by (auto simp: complete_row_def)
  have mid2: "sched_mid {} {?run} d2" and runs2: "runs d2 = runs d"
  proof -
    have "sched_mid {} {?run} d2 \<and> runs d2 = runs d"
    proof (cases "status = JobPassed")
      case True
      then show ?thesis using b mid1 runs1 by simp
    next
      case False
      have nq: "rstatus r \<noteq> RunQueued" if "r \<in> set (runs d1)" "rid r = ?run" for r
        using that running_run [OF mid j(1,4)] j(2) runs1 by simp
      obtain x where x: "blockDependents now ?run d1 = Inr ((), x)" "sched_mid (?B - {?run}) (insert ?run {?run}) x" "runs x = runs d1"
        by (rule mid_block [OF mid1 nq])
      then have "x = d2" using b False by simp
      then show ?thesis using x False runs1 by simp
    qed
    then show "sched_mid {} {?run} d2" "runs d2 = runs d" by auto
  qed
  have "?run \<in> rid ` set (runs d2)" using tables_okD(4) [OF sched_midD(1) [OF mid] j(1)] j(2) runs2 by simp
  from mid_finalize [OF mid2 this, of s now]
  obtain x where "finalizeRun s now ?run d2 = Inr ((), x)" "sched_mid {} ({?run} - {?run}) x" by blast
  then show "sched_ok d'" using fin by simp
qed

lemma abort_finishes:
  assumes mid: "sched_mid B F d" and "\<And>j. P j \<Longrightarrow> jstatus j = JobRunning" and X: "X = jrun ` {j \<in> set (jobs d). P j}"
  shows "finishes P (abort_row at msg) X d"
proof -
  have "rstatus r \<noteq> RunQueued" if "r \<in> set (runs d)" "rid r \<in> X" for r
    using that assms(2) running_run [OF mid] unfolding X by fastforce
  then show ?thesis by (auto simp: finishes_def job_key_def abort_row_def finished_statuses_def X)
qed

lemma abort_exec:
  assumes "tables_ok d" and "\<And>j. P j \<Longrightarrow> jstatus j = JobRunning"
  shows "exec_jobs P (abort_row at msg) d = Inr (affected P (jobs d), d\<lparr>jobs := upd_where P (abort_row at msg) (jobs d)\<rparr>)"
  using tables_okD(8) [OF assms(1)]
  by (auto simp: exec_jobs_Inr abort_row_def job_check_def job_lease_consistent_def)

lemma abort_and_settle:
  assumes mid: "sched_ok d" and P: "\<And>j. P j \<Longrightarrow> jstatus j = JobRunning"
    and visit: "\<And>ids. set (visit ids) = set ids"
  shows "\<exists>d1 d2. any_rows (exec_jobs P (abort_row at msg) d) = Inr ((), d1) \<and>
    settle_runs s now (visit (returning_runs P d)) d1 = Inr ((), d2) \<and> sched_ok d2"
proof -
  let ?X = "jrun ` {j \<in> set (jobs d). P j}"
  let ?d = "d\<lparr>jobs := upd_where P (abort_row at msg) (jobs d)\<rparr>"
  have e: "exec_jobs P (abort_row at msg) d = Inr (affected P (jobs d), ?d)"
    by (rule abort_exec [OF sched_midD(1) [OF mid] P])
  have fin: "finishes P (abort_row at msg) ?X d" by (rule abort_finishes [OF mid P refl])
  have mid1: "sched_mid ?X ?X ?d" using mid_finish [OF mid e fin, of ?X] by simp
  have ids: "set (visit (returning_runs P d)) = ?X" using visit by (auto simp: returning_runs_def)
  have "?X \<subseteq> rid ` set (runs ?d)" using tables_okD(4) [OF sched_midD(1) [OF mid]] by auto
  moreover have "rstatus r \<noteq> RunQueued" if "r \<in> set (runs ?d)" "rid r \<in> ?X" for r
    using that fin by (auto simp: finishes_def)
  ultimately have "\<exists>d'. settle_runs s now (visit (returning_runs P d)) ?d = Inr ((), d') \<and>
      sched_mid (?X - ?X) (?X - ?X) d' \<and> closes ?d d'"
    using settle_runs_ok [OF mid1, of "visit (returning_runs P d)" s now] unfolding ids by blast
  then show ?thesis using e by (auto simp: any_rows_Inr)
qed

lemma offline_exec:
  assumes "tables_ok d"
  shows "exec_runners P (\<lambda>w. w\<lparr> wstatus := st \<rparr>) d
    = Inr (affected P (runners d), d\<lparr>runners := upd_where P (\<lambda>w. w\<lparr> wstatus := st \<rparr>) (runners d)\<rparr>)"
proof -
  let ?rows = "upd_where P (\<lambda>w. w\<lparr> wstatus := st \<rparr>) (runners d)"
  have "List.map_filter wcurrent_run ?rows = List.map_filter wcurrent_run (runners d)"
    by (rule map_filter_upd_where) simp
  then show ?thesis
    using tables_okD(10,11) [OF assms] by (auto simp: exec_runners_Inr elim!: in_upd_whereE)
qed

lemma ExpireJobLeases_ok:
  assumes mid: "sched_ok d" and visit: "\<And>ids. set (visit ids) = set ids"
  shows "\<exists>d'. ExpireJobLeases s visit now clock d = Inr ((), d') \<and> sched_ok d'"
proof -
  have P: "\<And>j. lease_expired clock j \<Longrightarrow> jstatus j = JobRunning" by (simp add: lease_expired_def)
  obtain d1 d2 where d: "any_rows (exec_jobs (lease_expired clock) (abort_row clock ''job lease expired'') d) = Inr ((), d1)"
    "settle_runs s now (visit (returning_runs (lease_expired clock) d)) d1 = Inr ((), d2)" "sched_ok d2"
    using abort_and_settle [of d "lease_expired clock" visit clock "''job lease expired''" s now] mid P visit by blast
  let ?P = "\<lambda>w. wlast_seen w < clock - jobLeaseTTL" and ?f = "\<lambda>w. w\<lparr> wstatus := RunnerOffline \<rparr>"
  note o = offline_exec [OF sched_midD(1) [OF d(3)], of ?P RunnerOffline]
  have "tables_ok (d2\<lparr>runners := upd_where ?P ?f (runners d2)\<rparr>)"
    by (rule tables_ok_runners [OF sched_midD(1) [OF d(3)] o]) simp
  then have "sched_ok (d2\<lparr>runners := upd_where ?P ?f (runners d2)\<rparr>)" using d(3) by (intro mid_runners)
  then show ?thesis using d(1,2) o by (simp add: ExpireJobLeases_def any_rows_def)
qed

lemma no_legacy: "sched_mid B F d \<Longrightarrow> filter legacy_run (runs d) = []"
  using run_invD(6) [OF sched_midD(3)] by (fastforce simp: filter_empty_conv legacy_run_def)

lemma RecoverRemoteJobs_ok:
  assumes mid: "sched_ok d" and visit: "\<And>ids. set (visit ids) = set ids"
  shows "\<exists>d'. RecoverRemoteJobs s visit now d = Inr ((), d') \<and> sched_ok d'"
proof -
  have none: "\<not> legacy_run r" if "r \<in> set (runs d)" for r
    using no_legacy [OF mid] that by (auto simp: filter_empty_conv)
  have legacy: "any_rows (exec_runs legacy_run f d) = Inr ((), d)" for f
  proof -
    have "upd_where legacy_run f (runs d) = runs d" using none by (rule upd_where_idle)
    then show ?thesis using none by (simp add: any_rows_Inr exec_runs_Inr)
  qed
  obtain d1 d2 where "any_rows (exec_jobs (\<lambda>j. jstatus j = JobRunning)
      (abort_row now ''control plane restarted during job execution'') d) = Inr ((), d1)"
    "settle_runs s now (visit (returning_runs (\<lambda>j. jstatus j = JobRunning) d)) d1 = Inr ((), d2)" "sched_ok d2"
    using abort_and_settle [OF mid, of "\<lambda>j. jstatus j = JobRunning" visit now
        "''control plane restarted during job execution''" s now] visit by blast
  then show ?thesis by (simp add: RecoverRemoteJobs_def legacy no_legacy [OF mid])
qed

section \<open>Leasing\<close>

lemma LeaseJob_cases:
  assumes "LeaseJob s locked now clock lease runnerID d = Inr (res, d')"
  obtains (idle) "res = None" "d' = d"
  | (leased) w p j sn cfg job d1 x where
      "find (\<lambda>w. wid w = runnerID) (runners d) = Some w" "wprotocol w = 2" "wstatus w = RunnerOnline"
      "int (active_jobs d runnerID) < wmax_parallel w"
      "first_by (lease_key s) (lease_candidates (wdocker w) locked d) = Some (p, j, sn)"
      "parse_stored s (ryaml p) = Inr cfg" "map_of (Jobs cfg) (jname j) = Some job"
      "exec_jobs (\<lambda>x. jrun x = rid p \<and> jname x = jname j \<and> jstatus x = JobPending)
         (lease_row now (clock + jobLeaseTTL) lease runnerID) d = Inr (1, d1)"
      "any_rows (exec_runs (\<lambda>r. rid r = rid p \<and> rstatus r = RunQueued)
         (\<lambda>r. r\<lparr> rstatus := RunRunning, rstarted_at := coalesce (rstarted_at r) now \<rparr>) d1) = Inr ((), d')"
      "find (\<lambda>x. jrun x = rid p \<and> jname x = jname j) (jobs d') = Some x"
      "res = Some \<lparr> LsRunID = rid p, LsJobName = jname j, LsRunnerID = runnerID, LsLeaseID = lease,
         LsGeneration = jgeneration x, LsExpiresAt = clock + jobLeaseTTL, LsJob = job_definition job, LsSnapshot = sn \<rparr>"
  using assms unfolding LeaseJob_def
  by (auto simp: rbind_eq_Inr one_row_Inr Let_def split: if_splits option.splits prod.splits)

lemma lease_candidate:
  assumes "first_by (lease_key s) (lease_candidates docker locked d) = Some (p, j, sn)"
  shows "p \<in> set (runs d)" and "j \<in> set (jobs d)" and "sn \<in> set (snapshots d)" and "leasable docker d (p, j, sn)"
    and "\<not> locked (p, j)"
    and "leasable docker d (p', j', sn') \<Longrightarrow> \<not> locked (p', j') \<Longrightarrow> p' \<in> set (runs d) \<Longrightarrow> j' \<in> set (jobs d) \<Longrightarrow>
      sn' \<in> set (snapshots d) \<Longrightarrow> lease_key s (p, j, sn) \<le> lease_key s (p', j', sn')"
  using first_by_Some [OF assms] by (auto simp: lease_candidates_def)

lemma lease_row_sel [simp]:
  "jrun (lease_row now e l w j) = jrun j" "jname (lease_row now e l w j) = jname j" "jimage (lease_row now e l w j) = jimage j"
  "jstatus (lease_row now e l w j) = JobRunning" "jlease (lease_row now e l w j) = Some l"
  "jrunner (lease_row now e l w j) = Some w" "jgeneration (lease_row now e l w j) = jgeneration j + 1"
  "jlease_expires (lease_row now e l w j) = Some e"
  by (simp_all add: lease_row_def)

lemma lease_jobs_inv:
  assumes inv: "jobs_inv {} d" and d': "jobs d' = upd_where P (lease_row now e l w) (jobs d)" and deps: "deps d' = deps d"
    and P: "\<And>x. P x \<Longrightarrow> jstatus x = JobPending"
  shows "jobs_inv {} d'"
  unfolding jobs_inv_def
proof (intro ballI conjI impI)
  fix j assume j: "j \<in> set (jobs d')"
  have kept: "x \<in> set (jobs d)" if "x \<in> set (jobs d')" "jstatus x \<noteq> JobRunning" for x
    using that by (auto simp: d' elim!: in_upd_whereE)
  show "jgeneration j = 0" if "jstatus j = JobPending" using that j kept jobs_invD(1) [OF inv] by simp
  show "jlease j \<noteq> None" if "jstatus j = JobRunning"
    using that j jobs_invD(2) [OF inv] by (auto simp: d' elim!: in_upd_whereE)
  show "\<not> blockable d' (jrun j) j"
  proof
    assume "blockable d' (jrun j) j"
    then obtain u where u: "jstatus j = JobPending" "upstream_of d' j u" "failed_status (jstatus u)"
      by (auto simp: blockable_iff)
    then have "u \<in> set (jobs d)" using kept [of u] by (auto simp: upstream_of_def failed_status_def)
    then have "blockable d (jrun j) j" using u deps by (auto simp: blockable_iff upstream_of_def)
    then show False using jobs_invD(3) [OF inv] kept [OF j] u(1) by simp
  qed
qed

lemma lease_run_inv:
  assumes inv: "run_inv {} d r" and d': "jobs d' = upd_where P (lease_row now e l w) (jobs d)"
    and P: "\<And>x. P x \<Longrightarrow> jrun x = run \<and> jstatus x = JobPending" and one: "affected P (jobs d) = 1"
    and room: "rid r = run \<Longrightarrow> int (running_in d run) < rmax_parallel r" and nq: "rid r = run \<Longrightarrow> rstatus r \<noteq> RunQueued"
  shows "run_inv {} d' r"
proof (rule run_invI)
  have unf: "unfinished d' x \<longleftrightarrow> unfinished d x" for x
  proof -
    have a: "jrun (if P j then lease_row now e l w j else j) = jrun j"
      "jstatus (if P j then lease_row now e l w j else j) \<in> {JobPending, JobRunning} \<longleftrightarrow> jstatus j \<in> {JobPending, JobRunning}" for j
      using P [of j] by simp_all
    show ?thesis by (simp only: unfinished_def d' set_upd_where bex_simps a)
  qed
  have other: "j \<in> set (jobs d') \<longleftrightarrow> j \<in> set (jobs d)" if "jrun j \<noteq> run" for j
    using that P by (auto simp: d' set_upd_where image_iff)
  show "int (running_in d' (rid r)) \<le> rmax_parallel r"
  proof (cases "rid r = run")
    case True
    have "running_in d' run \<le> running_in d run + 1"
      using affected_upd_le [of _ P "lease_row now e l w" "jobs d"] one by (simp add: running_in_def d')
    then show ?thesis using room True by simp
  next
    case False
    have "running_in d' (rid r) \<le> running_in d (rid r)"
      unfolding running_in_def d' using P False by (intro affected_upd_mono) (auto split: if_splits)
    then show ?thesis using run_invD(1) [OF inv] by linarith
  qed
  show "run_open r" if "unfinished d' (rid r)" using that unf run_invD(2) [OF inv] by simp
  show "unfinished d' (rid r)" if "run_open r" using that unf run_invD(3) [OF inv] by simp
  show "jstatus j = JobPending" if "rstatus r = RunQueued" "j \<in> set (jobs d')" "jrun j = rid r" for j
    using that nq other [of j] run_invD(4) [OF inv, of j] by auto
  show "jstatus j \<noteq> JobPending" if "rcancel_at r \<noteq> None" "j \<in> set (jobs d')" "jrun j = rid r" for j
    using that run_invD(5) [OF inv, of j] by (auto simp: d' elim!: in_upd_whereE)
  show "rrunner r = None" by (rule run_invD(6) [OF inv])
  show "rid r \<in> jrun ` set (jobs d')"
    using run_invD(7) [OF inv] upd_key_set [of jrun "lease_row now e l w" P "jobs d"] by (simp add: d')
qed

lemma LeaseJob_ok:
  assumes mid: "sched_ok d" and l: "LeaseJob s locked now clock lease runnerID d = Inr (res, d')"
  shows "sched_ok d'"
  using l
proof (cases rule: LeaseJob_cases)
  case idle
  then show ?thesis using mid by simp
next
  case (leased w p j sn cfg job d1 x)
  note c = lease_candidate [OF leased(5)]
  let ?P = "\<lambda>x. jrun x = rid p \<and> jname x = jname j \<and> jstatus x = JobPending"
  let ?f = "lease_row now (clock + jobLeaseTTL) lease runnerID"
  let ?Q = "\<lambda>r. rid r = rid p \<and> rstatus r = RunQueued"
  let ?g = "\<lambda>r. r\<lparr> rstatus := RunRunning, rstarted_at := coalesce (rstarted_at r) now \<rparr>"
  have d1: "d1 = d\<lparr>jobs := upd_where ?P ?f (jobs d)\<rparr>" and one: "affected ?P (jobs d) = 1"
    using leased(8) by (auto simp: exec_jobs_Inr)
  obtain n where n: "exec_runs ?Q ?g d1 = Inr (n, d')" using leased(9) by (auto simp: any_rows_Inr)
  then have d': "d' = d1\<lparr>runs := upd_where ?Q ?g (runs d)\<rparr>" by (auto simp: exec_runs_Inr d1)
  have jobs': "jobs d' = upd_where ?P ?f (jobs d)" "deps d' = deps d" by (simp_all add: d' d1)
  have "tables_ok d1" using tables_ok_jobs [OF sched_midD(1) [OF mid] leased(8)] by (simp add: job_key_def)
  then have "tables_ok d'" using tables_ok_runs [OF _ n] by simp
  moreover have "jobs_inv {} d'" using lease_jobs_inv [OF sched_midD(2) [OF mid] jobs'] by blast
  moreover have "run_inv {} d' r" if r: "r \<in> set (runs d')" for r
  proof -
    from r have "r \<in> set (upd_where ?Q ?g (runs d))" by (simp add: d')
    then obtain r0 where r0: "r0 \<in> set (runs d)" "rid r = rid r0" "rmax_parallel r = rmax_parallel r0" "rcancel_at r = rcancel_at r0"
      "rrunner r = rrunner r0" "rstatus r = rstatus r0 \<or> rstatus r0 = RunQueued \<and> rstatus r = RunRunning"
      "rid r = rid p \<longrightarrow> rstatus r \<noteq> RunQueued"
      by (cases rule: in_upd_whereE) auto
    have "run_inv {} d r" using sched_midD(3) [OF mid r0(1)] r0 by (auto simp: run_inv_def run_open_def)
    moreover have "int (running_in d (rid p)) < rmax_parallel r" if "rid r = rid p"
      using that c(4) r0 key_unique [OF tables_okD(1) [OF sched_midD(1) [OF mid]] r0(1) c(1)] by (auto simp: leasable_def)
    ultimately show ?thesis using r0(7) by (intro lease_run_inv [OF _ jobs'(1) _ one]) auto
  qed
  ultimately show ?thesis by (simp add: sched_mid_def)
qed

section \<open>Heartbeats\<close>

lemma mid_same:
  assumes mid: "sched_mid B F d" and e: "exec_jobs P f d = Inr (n, d')"
    and f: "\<And>j. job_key (f j) = job_key j \<and> jstatus (f j) = jstatus j \<and> jgeneration (f j) = jgeneration j \<and> jlease (f j) = jlease j"
  shows "sched_mid B F d'"
proof -
  have d': "d' = d\<lparr>jobs := upd_where P f (jobs d)\<rparr>" using e by (auto simp: exec_jobs_Inr)
  have old: "\<exists>x \<in> set (jobs d). jrun x = jrun j \<and> jname x = jname j \<and> jstatus x = jstatus j \<and> jgeneration x = jgeneration j \<and> jlease x = jlease j"
    if "j \<in> set (jobs d')" for j
    using that f by (auto simp: d' job_key_def elim!: in_upd_whereE)
  have new: "\<exists>x \<in> set (jobs d'). jrun x = jrun j \<and> jstatus x = jstatus j" if "j \<in> set (jobs d)" for j
    using that f [of j] by (auto simp: d' set_upd_where job_key_def)
  have "\<not> blockable d' (jrun j) j" if j: "j \<in> set (jobs d')" "jrun j \<notin> B" for j
  proof
    assume "blockable d' (jrun j) j"
    then obtain u where u: "jstatus j = JobPending" "upstream_of d' j u" "failed_status (jstatus u)" by (auto simp: blockable_iff)
    obtain x where x: "x \<in> set (jobs d)" "jrun x = jrun j" "jname x = jname j" "jstatus x = jstatus j" using old [OF j(1)] by blast
    obtain v where v: "v \<in> set (jobs d)" "jrun v = jrun u" "jname v = jname u" "jstatus v = jstatus u"
      using old [of u] u(2) by (auto simp: upstream_of_def)
    have "upstream_of d x v" using u(2) v x by (auto simp: upstream_of_def d')
    then have "blockable d (jrun x) x" using u x v by (auto simp: blockable_iff)
    then show False using jobs_invD(3) [OF sched_midD(2) [OF mid] x(1)] j(2) x(2) by simp
  qed
  then have "jobs_inv B d'" using old jobs_invD(1,2) [OF sched_midD(2) [OF mid]] unfolding jobs_inv_def by metis
  moreover have "run_inv F d' r" if "r \<in> set (runs d')" for r
  proof -
    have inv: "run_inv F d r" using that sched_midD(3) [OF mid] by (simp add: d')
    have "affected Q (upd_where P f (jobs d)) \<le> affected Q (jobs d)" if "\<And>j. Q (f j) = Q j" for Q
      using that by (intro affected_upd_mono) (auto split: if_splits)
    from this [of "\<lambda>j. jrun j = rid r \<and> jstatus j = JobRunning"] have "running_in d' (rid r) \<le> running_in d (rid r)"
      using f by (simp add: running_in_def d' job_key_def)
    then have cap: "int (running_in d' (rid r)) \<le> rmax_parallel r" using run_invD(1) [OF inv] by linarith
    have unf: "unfinished d' (rid r) \<longleftrightarrow> unfinished d (rid r)"
      unfolding unfinished_def using old new by metis
    have "rid r \<in> jrun ` set (jobs d')"
      using run_invD(7) [OF inv] upd_key_set [of jrun f P "jobs d"] f by (simp add: d' job_key_def)
    then show ?thesis
    proof (intro run_invI cap)
      show "jstatus j = JobPending" if "rstatus r = RunQueued" "j \<in> set (jobs d')" "jrun j = rid r" for j
        using that old [of j] run_invD(4) [OF inv] by metis
      show "jstatus j \<noteq> JobPending" if "rcancel_at r \<noteq> None" "j \<in> set (jobs d')" "jrun j = rid r" for j
        using that old [of j] run_invD(5) [OF inv] by metis
    qed (use unf run_invD(2,3,6) [OF inv] in auto)
  qed
  moreover have "tables_ok d'" using tables_ok_jobs [OF sched_midD(1) [OF mid] e] f by blast
  ultimately show ?thesis by (simp add: sched_mid_def)
qed

lemma heartbeat_one_ok:
  assumes "sched_ok d" and "heartbeat_one runnerID now l d = Inr (r, d')"
  shows "sched_ok d'"
proof (cases "find (\<lambda>p. rid p = HbRunID l) (runs d)")
  case None
  then show ?thesis using assms by (simp add: heartbeat_one_def Let_def)
next
  case (Some p)
  let ?P = "owns (HbRunID l) (HbJobName l) runnerID (HbLeaseID l) (HbGeneration l) now"
  let ?f = "\<lambda>j. j\<lparr> jlease_expires := Some (now + jobLeaseTTL) \<rparr>"
  obtain n d1 where e: "exec_jobs ?P ?f d = Inr (n, d1)" and "d' = d \<or> d' = d1"
    using assms(2) Some by (cases "exec_jobs ?P ?f d") (auto simp: heartbeat_one_def Let_def split: if_splits)
  moreover have "sched_ok d1" by (rule mid_same [OF assms(1) e]) (simp add: job_key_def)
  ultimately show ?thesis using assms(1) by auto
qed

lemma heartbeat_loop_ok: "sched_ok d \<Longrightarrow> heartbeat_loop runnerID now ls d = Inr (rs, d') \<Longrightarrow> sched_ok d'"
proof (induction ls arbitrary: d rs)
  case (Cons l ls)
  from Cons.prems(2) obtain r d1 rs' where "heartbeat_one runnerID now l d = Inr (r, d1)"
    "heartbeat_loop runnerID now ls d1 = Inr (rs', d')" by (auto simp: rbind_eq_Inr)
  then show ?case using heartbeat_one_ok [OF Cons.prems(1)] Cons.IH by blast
qed simp

lemma mid_exec_runners:
  assumes "sched_mid B F d" and "exec_runners P f d = Inr (n, d')" and "\<And>w. wid (f w) = wid w"
  shows "sched_mid B F d'"
proof -
  have "tables_ok d'" using tables_ok_runners [OF sched_midD(1) [OF assms(1)] assms(2,3)] .
  then show ?thesis using assms(1,2) by (auto simp: exec_runners_Inr intro: mid_runners)
qed

lemma HeartbeatJobLeases_ok:
  assumes "sched_ok d" and "HeartbeatJobLeases runnerID leases now d = Inr (rs, d')"
  shows "sched_ok d'"
proof -
  obtain d1 where d1: "exec_runners (\<lambda>w. wid w = runnerID) (\<lambda>w. w\<lparr> wlast_seen := now, wstatus := RunnerOnline \<rparr>) d = Inr (1, d1)"
    "heartbeat_loop runnerID now leases d1 = Inr (rs, d')"
    using assms(2) by (auto simp: HeartbeatJobLeases_def rbind_eq_Inr one_row_Inr)
  have "sched_ok d1" by (rule mid_exec_runners [OF assms(1) d1(1)]) simp
  then show ?thesis using d1(2) by (rule heartbeat_loop_ok)
qed

section \<open>Cancellation\<close>

lemma mid_cancel_flag:
  assumes mid: "sched_mid B F d" and e: "exec_runs P f d = Inr (n, d')"
    and f: "\<And>r. rid (f r) = rid r \<and> rmax_parallel (f r) = rmax_parallel r \<and> rrunner (f r) = rrunner r \<and> rstatus (f r) = rstatus r"
    and none: "\<And>r j. r \<in> set (runs d) \<Longrightarrow> P r \<Longrightarrow> j \<in> set (jobs d) \<Longrightarrow> jrun j = rid r \<Longrightarrow> jstatus j \<noteq> JobPending"
  shows "sched_mid B F d'"
proof -
  have d': "d' = d\<lparr>runs := upd_where P f (runs d)\<rparr>" using e by (auto simp: exec_runs_Inr)
  have "run_inv F d r" if "r \<in> set (upd_where P f (runs d))" for r
    using that
  proof (cases rule: in_upd_whereE)
    case (changed r0)
    then show ?thesis
      using sched_midD(3) [OF mid changed(1)] none [OF changed(1,2)] f [of r0] by (simp add: run_inv_def run_open_def)
  qed (use sched_midD(3) [OF mid] in auto)
  moreover have "tables_ok d'" using tables_ok_runs [OF sched_midD(1) [OF mid] e] f by blast
  ultimately show ?thesis using sched_midD(2) [OF mid] by (simp add: sched_mid_def d')
qed

lemma RequestCancel_ok:
  assumes mid: "sched_ok d" and rc: "RequestCancel s now run d = Inr (st, d')"
  shows "sched_ok d'"
proof -
  let ?P = "\<lambda>r. rid r = run \<and> rstatus r = RunRunning" and ?f = "\<lambda>r. r\<lparr> rcancel_at := coalesce (rcancel_at r) now \<rparr>"
  let ?Q = "\<lambda>j. jrun j = run \<and> jstatus j = JobPending"
  let ?g = "cancel_row now"
  obtain n d1 m d2 where e: "exec_runs ?P ?f d = Inr (n, d1)" "n \<noteq> 0" "exec_jobs ?Q ?g d1 = Inr (m, d2)"
    "finalizeRun s now run d2 = Inr ((), d')"
    using rc by (auto simp: RequestCancel_def rbind_eq_Inr any_rows_Inr split: sum.splits if_splits)
  have d1: "d1 = d\<lparr>runs := upd_where ?P ?f (runs d)\<rparr>" and n: "n = affected ?P (runs d)" and d2: "d2 = d1\<lparr>jobs := upd_where ?Q ?g (jobs d)\<rparr>"
    using e by (auto simp: exec_runs_Inr exec_jobs_Inr)
  let ?dj = "d\<lparr>jobs := upd_where ?Q ?g (jobs d)\<rparr>"
  have ej: "exec_jobs ?Q ?g d = Inr (m, ?dj)" using e(3) d1 by (auto simp: exec_jobs_Inr)
  obtain p where p: "p \<in> set (runs d)" "rid p = run" "rstatus p = RunRunning" using e(2) n by (auto simp: affected_0)
  have "rstatus r \<noteq> RunQueued" if "r \<in> set (runs d)" "rid r = run" for r
    using that p key_unique [OF tables_okD(1) [OF sched_midD(1) [OF mid]] p(1) that(1)] by simp
  then have "finishes ?Q ?g {run} d"
    by (simp add: finishes_def job_key_def finished_statuses_def cancel_row_def)
  then have "sched_mid {run} {run} ?dj" using mid_finish [OF mid ej, of "{run}" "{run}"] by simp
  moreover have none: "jstatus j \<noteq> JobPending" if "j \<in> set (jobs ?dj)" "jrun j = run" for j
  proof -
    from that(1) have "j \<in> set (upd_where ?Q ?g (jobs d))" by simp
    then show ?thesis by (cases rule: in_upd_whereE) (use that(2) in \<open>simp_all add: cancel_row_def\<close>)
  qed
  ultimately have mj: "sched_mid {} {run} ?dj" unfolding sched_mid_def jobs_inv_def blockable_iff by auto
  have er: "exec_runs ?P ?f ?dj = Inr (n, d2)" using e(1) d1 d2 by (auto simp: exec_runs_Inr)
  have "sched_mid {} {run} d2" using none by (intro mid_cancel_flag [OF mj er]) auto
  moreover have "run \<in> rid ` set (runs d2)" using p upd_key_set [of rid ?f ?P "runs d"] by (force simp: d2 d1)
  ultimately obtain x where "finalizeRun s now run d2 = Inr ((), x)" "sched_mid {} ({run} - {run}) x"
    using mid_finalize [of "{}" "{run}" d2 run s now] by blast
  then show ?thesis using e(4) by simp
qed

lemma CancelQueued_ok:
  assumes mid: "sched_ok d" and c: "CancelQueued now run d = Inr (u, d')"
  shows "sched_ok d'"
proof -
  let ?P = "\<lambda>r. rid r = run \<and> rstatus r = RunQueued"
  let ?f = "\<lambda>r. r\<lparr> rstatus := RunCanceled, rcancel_at := Some now, rfinished_at := Some now \<rparr>"
  let ?Q = "\<lambda>j. jrun j = run \<and> jstatus j = JobPending"
  let ?g = "\<lambda>j. j\<lparr> jstatus := JobCanceled, jfinished_at := Some now \<rparr>"
  note ok = sched_midD(1) [OF mid]
  obtain d1 m where e: "exec_runs ?P ?f d = Inr (1, d1)" "exec_jobs ?Q ?g d1 = Inr (m, d')"
    using c by (auto simp: CancelQueued_def rbind_eq_Inr one_row_Inr any_rows_Inr)
  have d1: "d1 = d\<lparr>runs := upd_where ?P ?f (runs d)\<rparr>" and one: "affected ?P (runs d) = 1"
    and d': "d' = d1\<lparr>jobs := upd_where ?Q ?g (jobs d)\<rparr>"
    using e by (auto simp: exec_runs_Inr exec_jobs_Inr)
  obtain p where p: "p \<in> set (runs d)" "rid p = run" "rstatus p = RunQueued"
    using one affected_pos [of ?P "runs d"] by auto
  have pending: "jstatus j = JobPending" if "j \<in> set (jobs d)" "jrun j = run" for j
    using run_invD(4) [OF sched_midD(3) [OF mid p(1)] p(3) that(1)] that(2) p(2) by simp
  have mine: "jstatus j = JobCanceled" if "j \<in> set (jobs d')" "jrun j = run" for j
  proof -
    from that(1) have "j \<in> set (upd_where ?Q ?g (jobs d))" by (simp add: d')
    then show ?thesis by (cases rule: in_upd_whereE) (use that(2) pending in auto)
  qed
  have other: "j \<in> set (jobs d') \<longleftrightarrow> j \<in> set (jobs d)" if "jrun j \<noteq> run" for j
    using that by (auto simp: d' d1 set_upd_where image_iff)
  have "tables_ok d'"
    using tables_ok_jobs [OF tables_ok_runs [OF ok e(1)] e(2)] by (simp add: job_key_def)
  moreover have "jobs_inv {} d'" unfolding jobs_inv_def
  proof (intro ballI)
    fix j assume j: "j \<in> set (jobs d')"
    show "(jstatus j = JobPending \<longrightarrow> jgeneration j = 0) \<and> (jstatus j = JobRunning \<longrightarrow> jlease j \<noteq> None) \<and>
        (jrun j \<notin> {} \<longrightarrow> \<not> blockable d' (jrun j) j)"
    proof (cases "jrun j = run")
      case True
      then show ?thesis using mine [OF j] by (simp add: blockable_iff)
    next
      case False
      then have jd: "j \<in> set (jobs d)" using j other by simp
      have "blockable d' (jrun j) j \<Longrightarrow> blockable d (jrun j) j"
        using False other by (auto simp: blockable_iff upstream_of_def d' d1)
      then show ?thesis using jobs_invD [OF sched_midD(2) [OF mid] jd] by auto
    qed
  qed
  moreover have "run_inv {} d' r" if r: "r \<in> set (runs d')" for r
  proof (cases "rid r = run")
    case True
    from r have "r \<in> set (upd_where ?P ?f (runs d))" by (simp add: d' d1)
    then obtain r0 where r0: "r0 \<in> set (runs d)" "rid r0 = run" "r = (if ?P r0 then ?f r0 else r0)"
      using True by (cases rule: in_upd_whereE) auto
    then have "r = ?f p" using key_unique [OF tables_okD(1) [OF ok] r0(1) p(1)] p by simp
    moreover have "running_in d' run = 0" using mine by (auto simp: running_in_def affected_0)
    moreover have "\<not> unfinished d' run" using mine by (auto simp: unfinished_def)
    moreover have "run \<in> jrun ` set (jobs d')"
      using run_invD(7) [OF sched_midD(3) [OF mid p(1)]] p(2) upd_key_set [of jrun ?g ?Q "jobs d"] by (simp add: d')
    ultimately show ?thesis
      using run_invD(6) [OF sched_midD(3) [OF mid p(1)]] tables_okD(7) [OF ok p(1)] mine p(2)
      by (intro run_invI) (auto simp: run_open_def run_check_def)
  next
    case False
    then have rd: "r \<in> set (runs d)" using r by (auto simp: d' d1 elim!: in_upd_whereE)
    have "running_in d' (rid r) \<le> running_in d (rid r)"
      unfolding running_in_def d' using False by (simp, intro affected_upd_mono) (auto split: if_splits)
    moreover have "unfinished d' (rid r) \<longleftrightarrow> unfinished d (rid r)" using other False by (auto simp: unfinished_def)
    moreover have "rid r \<in> jrun ` set (jobs d')"
      using run_invD(7) [OF sched_midD(3) [OF mid rd]] upd_key_set [of jrun ?g ?Q "jobs d"] by (simp add: d')
    ultimately show ?thesis
      using run_invD [OF sched_midD(3) [OF mid rd]] other False by (intro run_invI) auto
  qed
  ultimately show ?thesis by (simp add: sched_mid_def)
qed

section \<open>Creating runs\<close>

lemma insert_jobs_Inr:
  "insert_jobs run js d = Inr (u, d') \<Longrightarrow>
     d' = d\<lparr>jobs := jobs d @ map (new_job_row run) js\<rparr> \<and> distinct (map fst js) \<and>
     (\<forall>j \<in> set js. (run, fst j) \<notin> job_key ` set (jobs d)) \<and> (js \<noteq> [] \<longrightarrow> run \<in> rid ` set (runs d))"
proof (induction js arbitrary: d)
  case (Cons j js)
  then have g: "(run, fst j) \<notin> job_key ` set (jobs d)" "run \<in> rid ` set (runs d)" and
    r: "insert_jobs run js (d\<lparr>jobs := jobs d @ [new_job_row run j]\<rparr>) = Inr (u, d')" by (auto split: if_splits)
  from Cons.IH [OF r] g show ?case by (auto simp: job_key_def new_job_row_def)
qed simp

lemma insert_deps_Inr:
  "insert_deps run es d = Inr (u, d') \<Longrightarrow>
     d' = d\<lparr>deps := deps d @ map (\<lambda>(a, b). \<lparr> drun = run, djob = a, dupstream = b \<rparr>) es\<rparr> \<and>
     (\<forall>(a, b) \<in> set es. (run, a) \<in> job_key ` set (jobs d) \<and> (run, b) \<in> job_key ` set (jobs d))"
proof (induction es arbitrary: d)
  case (Cons e es)
  obtain a b where e: "e = (a, b)" by (cases e)
  then have g: "(run, a) \<in> job_key ` set (jobs d)" "(run, b) \<in> job_key ` set (jobs d)" and
    r: "insert_deps run es (d\<lparr>deps := deps d @ [\<lparr> drun = run, djob = a, dupstream = b \<rparr>]\<rparr>) = Inr (u, d')"
    using Cons.prems by (auto split: if_splits)
  from Cons.IH [OF r] g show ?case by (auto simp: e)
qed simp

lemma createRun_Inr:
  assumes "createRun now cr d = Inr (u, d')"
  obtains sn sns where "CrSnapshot cr = Some sn" "run_check (new_run_row now cr (SourceDigest sn))" "CrID cr \<notin> rid ` set (runs d)"
    "distinct (map fst (CrJobs cr))" "\<And>j. j \<in> set (CrJobs cr) \<Longrightarrow> (CrID cr, fst j) \<notin> job_key ` set (jobs d)"
    "\<And>a b. (a, b) \<in> set (CrDependencies cr) \<Longrightarrow> (CrID cr, a) \<in> job_key ` set (jobs d') \<and> (CrID cr, b) \<in> job_key ` set (jobs d')"
    "SourceDigest ` set sns = insert (SourceDigest sn) (SourceDigest ` set (snapshots d))"
    "d' = d\<lparr>snapshots := sns, runs := runs d @ [new_run_row now cr (SourceDigest sn)],
      jobs := jobs d @ map (new_job_row (CrID cr)) (CrJobs cr),
      deps := deps d @ map (\<lambda>(a, b). \<lparr> drun = CrID cr, djob = a, dupstream = b \<rparr>) (CrDependencies cr)\<rparr>"
proof -
  from assms obtain sn where sn: "CrSnapshot cr = Some sn" by (auto simp: createRun_def split: option.splits)
  with assms obtain d1 d2 d3 where i1: "insert_snapshot sn d = Inr ((), d1)"
    and i2: "insert_run (new_run_row now cr (SourceDigest sn)) d1 = Inr ((), d2)"
    and i3: "insert_jobs (CrID cr) (CrJobs cr) d2 = Inr ((), d3)" and i4: "insert_deps (CrID cr) (CrDependencies cr) d3 = Inr (u, d')"
    by (auto simp: createRun_def rbind_eq_Inr split: option.splits if_splits)
  obtain sns where sns: "d1 = d\<lparr>snapshots := sns\<rparr>" "SourceDigest ` set sns = insert (SourceDigest sn) (SourceDigest ` set (snapshots d))"
  proof (cases "SourceDigest sn \<in> SourceDigest ` set (snapshots d)")
    case True
    then show ?thesis using i1 that [of "snapshots d"] by (auto simp: insert_snapshot_def split: if_splits)
  next
    case False
    then show ?thesis using i1 that [of "snapshots d @ [sn]"] by (auto simp: insert_snapshot_def split: if_splits)
  qed
  have d2: "d2 = d1\<lparr>runs := runs d @ [new_run_row now cr (SourceDigest sn)]\<rparr>" "run_check (new_run_row now cr (SourceDigest sn))"
    "CrID cr \<notin> rid ` set (runs d)"
    using i2 sns(1) by (auto simp: insert_run_def new_run_row_def split: if_splits)
  show thesis
    using that [OF sn d2(2,3) _ _ _ sns(2)] insert_jobs_Inr [OF i3] insert_deps_Inr [OF i4] d2(1) sns(1) by fastforce
qed

lemma new_rows [simp]:
  "jrun (new_job_row run j) = run" "jname (new_job_row run j) = fst j" "jstatus (new_job_row run j) = JobPending"
  "jgeneration (new_job_row run j) = 0" "job_key (new_job_row run j) = (run, fst j)" "jlease (new_job_row run j) = None"
  "rid (new_run_row now cr g) = CrID cr" "rstatus (new_run_row now cr g) = RunQueued" "rcancel_at (new_run_row now cr g) = None"
  "rrunner (new_run_row now cr g) = None" "rmax_parallel (new_run_row now cr g) = CrMaxParallel cr"
  "rsnapshot (new_run_row now cr g) = Some g"
  by (simp_all add: new_job_row_def new_run_row_def job_key_def)

lemma new_job_check: "job_check (new_job_row run j)"
  by (simp add: new_job_row_def job_check_def job_lease_consistent_def)

lemma createRun_ok:
  assumes mid: "sched_ok d" and c: "createRun now cr d = Inr (u, d')" and jobs: "CrJobs cr \<noteq> []"
  shows "sched_ok d'"
  using c
proof (rule createRun_Inr)
  fix sn sns
  assume chk: "run_check (new_run_row now cr (SourceDigest sn))" and fresh: "CrID cr \<notin> rid ` set (runs d)"
    and dist: "distinct (map fst (CrJobs cr))" and nokey: "\<And>j. j \<in> set (CrJobs cr) \<Longrightarrow> (CrID cr, fst j) \<notin> job_key ` set (jobs d)"
    and deps: "\<And>a b. (a, b) \<in> set (CrDependencies cr) \<Longrightarrow> (CrID cr, a) \<in> job_key ` set (jobs d') \<and> (CrID cr, b) \<in> job_key ` set (jobs d')"
    and d': "d' = d\<lparr>snapshots := sns, runs := runs d @ [new_run_row now cr (SourceDigest sn)],
      jobs := jobs d @ map (new_job_row (CrID cr)) (CrJobs cr),
      deps := deps d @ map (\<lambda>(a, b). \<lparr> drun = CrID cr, djob = a, dupstream = b \<rparr>) (CrDependencies cr)\<rparr>"
  note ok = sched_midD(1) [OF mid]
  have old: "jrun j \<noteq> CrID cr" if "j \<in> set (jobs d)" for j using that fresh tables_okD(4) [OF ok that] by auto
  have mine: "jstatus j = JobPending \<and> jgeneration j = 0" if "j \<in> set (jobs d')" "jrun j = CrID cr" for j
    using that old by (auto simp: d')
  have other: "j \<in> set (jobs d') \<longleftrightarrow> j \<in> set (jobs d)" if "jrun j \<noteq> CrID cr" for j
    using that by (auto simp: d')
  have "inj_on (new_job_row (CrID cr)) (set (CrJobs cr))"
    by (auto simp: inj_on_def new_job_row_def)
  then have "distinct (map job_key (jobs d'))"
    using tables_okD(2) [OF ok] dist nokey by (auto simp: d' distinct_map inj_on_def image_iff)
  moreover have "(drun e, djob e) \<in> job_key ` set (jobs d') \<and> (drun e, dupstream e) \<in> job_key ` set (jobs d')"
    if ed: "e \<in> set (deps d')" for e
  proof (cases "e \<in> set (deps d)")
    case True
    have "job_key ` set (jobs d) \<subseteq> job_key ` set (jobs d')" by (auto simp: d')
    then show ?thesis using tables_okD(5,6) [OF ok True] by blast
  next
    case False
    then obtain a b where "(a, b) \<in> set (CrDependencies cr)" "e = \<lparr> drun = CrID cr, djob = a, dupstream = b \<rparr>"
      using ed by (auto simp: d')
    then show ?thesis using deps by simp
  qed
  ultimately have "tables_ok d'"
    using ok fresh chk new_job_check by (auto simp: tables_ok_def d')
  moreover have "jobs_inv {} d'" unfolding jobs_inv_def
  proof (intro ballI)
    fix j assume j: "j \<in> set (jobs d')"
    show "(jstatus j = JobPending \<longrightarrow> jgeneration j = 0) \<and> (jstatus j = JobRunning \<longrightarrow> jlease j \<noteq> None) \<and>
        (jrun j \<notin> {} \<longrightarrow> \<not> blockable d' (jrun j) j)"
    proof (cases "jrun j = CrID cr")
      case True
      have "\<not> blockable d' (jrun j) j" using mine True by (auto simp: blockable_iff upstream_of_def)
      then show ?thesis using mine [OF j True] by simp
    next
      case False
      then have jd: "j \<in> set (jobs d)" using j other by simp
      have "blockable d' (jrun j) j \<Longrightarrow> blockable d (jrun j) j"
        using False other by (auto simp: blockable_iff upstream_of_def d')
      then show ?thesis using jobs_invD [OF sched_midD(2) [OF mid] jd] by auto
    qed
  qed
  moreover have "run_inv {} d' r" if r: "r \<in> set (runs d')" for r
  proof (cases "rid r = CrID cr")
    case True
    then have "r \<notin> set (runs d)" using fresh by (metis imageI)
    then have rr: "r = new_run_row now cr (SourceDigest sn)" using r by (auto simp: d')
    obtain j js where js: "CrJobs cr = j # js" using jobs by (cases "CrJobs cr") auto
    have "new_job_row (CrID cr) j \<in> set (jobs d')" by (simp add: d' js)
    then have "unfinished d' (CrID cr)" "CrID cr \<in> jrun ` set (jobs d')" by (force simp: unfinished_def)+
    moreover have "running_in d' (CrID cr) = 0" using mine by (auto simp: running_in_def affected_0)
    ultimately show ?thesis using mine chk by (intro run_invI) (auto simp: rr run_open_def run_check_def)
  next
    case False
    then have rd: "r \<in> set (runs d)" using r by (auto simp: d')
    have "running_in d' (rid r) = running_in d (rid r)"
      using False by (simp add: running_in_def d' affected_def filter_empty_conv)
    moreover have "unfinished d' (rid r) \<longleftrightarrow> unfinished d (rid r)" using other False by (auto simp: unfinished_def)
    moreover have "rid r \<in> jrun ` set (jobs d')"
      using run_invD(7) [OF sched_midD(3) [OF mid rd]] by (auto simp: d')
    ultimately show ?thesis
      using run_invD [OF sched_midD(3) [OF mid rd]] other False by (intro run_invI) auto
  qed
  ultimately show ?thesis by (simp add: sched_mid_def)
qed

section \<open>The remote control plane as a step relation\<close>

lemma RegisterRunner_ok:
  assumes mid: "sched_ok d" and r: "RegisterRunner now w d = Inr (u, d')"
  shows "sched_ok d'"
proof (cases "wid w \<in> wid ` set (runners d)")
  case True
  then show ?thesis using r mid_exec_runners [OF mid] by (auto simp: RegisterRunner_def any_rows_Inr)
next
  case False
  let ?w = "w\<lparr> wstatus := RunnerOnline, wregistered_at := now, wlast_seen := now, wcurrent_run := None \<rparr>"
  have d': "d' = d\<lparr>runners := runners d @ [?w]\<rparr>" and pos: "0 < wprotocol w" "0 < wmax_parallel w"
    using False r by (auto simp: RegisterRunner_def split: if_splits)
  have "List.map_filter wcurrent_run (runners d @ [?w]) = List.map_filter wcurrent_run (runners d)"
    by (simp add: List.map_filter_def)
  then have "tables_ok d'" using False pos sched_midD(1) [OF mid] by (auto simp: tables_ok_def d')
  then show ?thesis using mid by (simp add: d' mid_runners)
qed

lemma storage_step_ok:
  assumes mid: "sched_mid B F d" and step: "storage_step s d d'"
  shows "sched_mid B F d'"
proof -
  obtain a c l where d': "d' = d\<lparr> artifacts := a, caches := c, logs := l \<rparr>"
    using storage_step_frame [OF step] by (auto simp: storage_frame_def)
  have "\<forall>x \<in> set (artifacts d'). artifact_check x"
    using storage_step_artifacts [OF tables_okD(9) [OF sched_midD(1) [OF mid]] step] by blast
  then have "tables_ok d'" using sched_midD(1) [OF mid] by (simp add: tables_ok_def d')
  moreover have "run_inv F d' r = run_inv F d r" for r
    by (simp add: d' run_inv_def running_in_def unfinished_def)
  moreover have "jobs_inv B d' = jobs_inv B d"
    by (simp add: d' jobs_inv_def blockable_def upstream_with_def)
  ultimately show ?thesis using mid by (simp add: sched_mid_def d')
qed

text \<open>Every transition of the database in remote mode.\<close>

inductive remote_step :: "Store \<Rightarrow> db \<Rightarrow> db \<Rightarrow> bool" for s where
  create: "CrJobs cr \<noteq> [] \<Longrightarrow> createRun now cr d = Inr (u, d') \<Longrightarrow> remote_step s d d'"
| register: "RegisterRunner now w d = Inr (u, d') \<Longrightarrow> remote_step s d d'"
| lease: "LeaseJob s locked now clock lease runnerID d = Inr (res, d') \<Longrightarrow> remote_step s d d'"
| heartbeat: "HeartbeatJobLeases runnerID leases now d = Inr (rs, d') \<Longrightarrow> remote_step s d d'"
| complete: "CompleteJob s now owner status message d = Inr (u, d') \<Longrightarrow> remote_step s d d'"
| expire: "(\<And>ids. set (visit ids) = set ids) \<Longrightarrow> ExpireJobLeases s visit now clock d = Inr (u, d') \<Longrightarrow> remote_step s d d'"
| recover: "(\<And>ids. set (visit ids) = set ids) \<Longrightarrow> RecoverRemoteJobs s visit now d = Inr (u, d') \<Longrightarrow> remote_step s d d'"
| cancel: "RequestCancel s now run d = Inr (st, d') \<Longrightarrow> remote_step s d d'"
| cancel_queued: "CancelQueued now run d = Inr (u, d') \<Longrightarrow> remote_step s d d'"
| storage: "storage_step s d d' \<Longrightarrow> remote_step s d d'"

inductive_cases remote_stepE: "remote_step s d d'"

definition empty_db :: db where
  "empty_db = \<lparr> runs = [], jobs = [], deps = [], snapshots = [], runners = [], artifacts = [], caches = [], logs = [],
     repositories = [], deliveries = [], triggers = [] \<rparr>"

definition remote_reachable :: "Store \<Rightarrow> db \<Rightarrow> bool" where
  "remote_reachable s d \<longleftrightarrow> (remote_step s)\<^sup>*\<^sup>* empty_db d"

lemma empty_db_ok: "sched_ok empty_db"
  by (simp add: sched_mid_def tables_ok_def jobs_inv_def empty_db_def List.map_filter_def)

lemma remote_step_ok:
  assumes ok: "sched_ok d" and step: "remote_step s d d'"
  shows "sched_ok d'"
  using step
proof (cases rule: remote_step.cases)
  case (expire visit now clock u)
  then show ?thesis using ExpireJobLeases_ok [OF ok expire(1), of s now clock] by auto
next
  case (recover visit now u)
  then show ?thesis using RecoverRemoteJobs_ok [OF ok recover(1), of s now] by auto
qed (use ok in \<open>blast intro: createRun_ok RegisterRunner_ok LeaseJob_ok HeartbeatJobLeases_ok CompleteJob_ok
      RequestCancel_ok CancelQueued_ok storage_step_ok\<close>)+

lemma remote_reachable_ok: "remote_reachable s d \<Longrightarrow> sched_ok d"
proof -
  assume "remote_reachable s d"
  then have "(remote_step s)\<^sup>*\<^sup>* empty_db d" by (simp add: remote_reachable_def)
  then show ?thesis by (induction rule: rtranclp_induct) (auto simp: empty_db_ok remote_step_ok)
qed

end
