(* ===== verification/Lease_Safety.thy ===== *)
theory Lease_Safety
  imports Scheduler
begin

text \<open>
  What the remote scheduler guarantees along every sequence of store operations: how a job row may
  evolve, that leases fence completions, that work is never lost in a state where nothing can move, and
  what finalisation concludes. Everything rests on the invariant of \<open>Scheduler\<close>.
\<close>

section \<open>How a job row evolves\<close>

definition evolves :: "job_row \<Rightarrow> job_row \<Rightarrow> bool" where
  "evolves j j' \<longleftrightarrow> job_key j' = job_key j \<and> jimage j' = jimage j \<and> jgeneration j \<le> jgeneration j' \<and>
     (jstatus j \<in> finished_statuses \<longrightarrow> jstatus j' = jstatus j \<and> jgeneration j' = jgeneration j \<and> jrunner j' = jrunner j) \<and>
     (jstatus j = JobRunning \<longrightarrow> jstatus j' \<noteq> JobPending \<and> jgeneration j' = jgeneration j \<and> jrunner j' = jrunner j \<and>
        (jstatus j' = JobRunning \<longrightarrow> jlease j' = jlease j))"

definition db_evolves :: "db \<Rightarrow> db \<Rightarrow> bool" where
  "db_evolves d d' \<longleftrightarrow> (\<forall>j \<in> set (jobs d). \<exists>j' \<in> set (jobs d'). evolves j j')"

lemma status_cases: "st = JobPending \<or> st = JobRunning \<or> st \<in> finished_statuses"
  by (cases st) (auto simp: finished_statuses_def)

lemma evolves_refl [simp]: "evolves j j"
  using status_cases [of "jstatus j"] by (auto simp: evolves_def finished_statuses_def)

lemma evolves_trans:
  assumes "evolves a b" and "evolves b c"
  shows "evolves a c"
  using assms status_cases [of "jstatus a"] status_cases [of "jstatus b"]
  by (auto simp: evolves_def dest: finished_not)

lemma db_evolves_refl [simp]: "db_evolves d d"
  unfolding db_evolves_def using evolves_refl by force

lemma db_evolves_trans: "db_evolves a b \<Longrightarrow> db_evolves b c \<Longrightarrow> db_evolves a c"
  unfolding db_evolves_def using evolves_trans by blast

lemma db_evolves_jobs: "jobs d' = jobs d \<Longrightarrow> db_evolves d d'"
  unfolding db_evolves_def using evolves_refl by force

lemma exec_jobs_evolves:
  assumes "exec_jobs P f d = Inr (n, d')" and "\<And>j. j \<in> set (jobs d) \<Longrightarrow> P j \<Longrightarrow> evolves j (f j)"
  shows "db_evolves d d'"
  unfolding db_evolves_def
proof
  fix j assume j: "j \<in> set (jobs d)"
  have "(if P j then f j else j) \<in> set (jobs d')" using assms(1) j by (auto simp: exec_jobs_Inr set_upd_where)
  then show "\<exists>j' \<in> set (jobs d'). evolves j j'" using assms(2) [OF j] by (auto split: if_splits intro: evolves_refl)
qed

lemma exec_runs_jobs: "exec_runs P f d = Inr (n, d') \<Longrightarrow> jobs d' = jobs d"
  by (auto simp: exec_runs_Inr)

lemma exec_runners_jobs: "exec_runners P f d = Inr (n, d') \<Longrightarrow> jobs d' = jobs d"
  by (auto simp: exec_runners_Inr)

lemma expire_artifacts_jobs: "expire_artifacts_of s run d = Inr (u, d') \<Longrightarrow> jobs d' = jobs d"
  by (auto simp: expire_artifacts_of_def any_rows_Inr exec_artifacts_Inr)

lemma finalizeRun_jobs: "finalizeRun s now run d = Inr (u, d') \<Longrightarrow> jobs d' = jobs d"
  by (auto simp: finalizeRun_def Let_def rbind_eq_Inr split: if_splits option.splits list.splits
      dest!: exec_runs_jobs expire_artifacts_jobs)

lemma blockDependents_evolves: "blockDependents now run d = Inr (u, d') \<Longrightarrow> db_evolves d d'"
proof (induction now run d arbitrary: d' rule: blockDependents.induct)
  case (1 now run d)
  from "1.prems" obtain n d1 where e: "exec_jobs (blockable d run) (block_row now) d = Inr (n, d1)"
    by (subst (asm) blockDependents.simps) (auto split: sum.splits)
  have ev: "db_evolves d d1"
    by (rule exec_jobs_evolves [OF e]) (auto simp: blockable_def evolves_def job_key_def finished_statuses_def)
  show ?case
  proof (cases "n = 0")
    case True
    then show ?thesis using "1.prems" ev by (subst (asm) blockDependents.simps) (simp add: e)
  next
    case False
    then have "blockDependents now run d1 = Inr (u, d')"
      using "1.prems" by (subst (asm) blockDependents.simps) (simp add: e)
    then show ?thesis using "1.IH" [OF e refl False] db_evolves_trans [OF ev] by blast
  qed
qed

lemma settle_evolves: "settle_runs s now ids d = Inr (u, d') \<Longrightarrow> db_evolves d d'"
proof (induction ids arbitrary: d)
  case (Cons run ids)
  then obtain d1 d2 where "blockDependents now run d = Inr ((), d1)" "finalizeRun s now run d1 = Inr ((), d2)"
    "settle_runs s now ids d2 = Inr (u, d')" by (auto simp: rbind_eq_Inr)
  then show ?case
    using blockDependents_evolves db_evolves_jobs [OF finalizeRun_jobs] Cons.IH db_evolves_trans by metis
qed simp

lemma abort_evolves: "jstatus j = JobRunning \<Longrightarrow> evolves j (abort_row at msg j)"
  by (simp add: evolves_def abort_row_def job_key_def finished_statuses_def)

lemma complete_evolves: "jstatus j = JobRunning \<Longrightarrow> status \<in> finished_statuses \<Longrightarrow> evolves j (complete_row now status message j)"
  by (auto simp: evolves_def complete_row_def job_key_def finished_statuses_def)

lemma heartbeat_evolves: "heartbeat_loop runnerID now ls d = Inr (rs, d') \<Longrightarrow> db_evolves d d'"
proof (induction ls arbitrary: d rs)
  case (Cons l ls)
  then obtain r d1 rs' where h: "heartbeat_one runnerID now l d = Inr (r, d1)"
    "heartbeat_loop runnerID now ls d1 = Inr (rs', d')" by (auto simp: rbind_eq_Inr)
  let ?P = "owns (HbRunID l) (HbJobName l) runnerID (HbLeaseID l) (HbGeneration l) now"
  let ?f = "\<lambda>j. j\<lparr> jlease_expires := Some (now + jobLeaseTTL) \<rparr>"
  have "evolves j (?f j)" if "?P j" for j
    using that by (simp add: owns_def evolves_def job_key_def finished_statuses_def)
  then have "exec_jobs ?P ?f d = Inr (n, x) \<Longrightarrow> db_evolves d x" for n x using exec_jobs_evolves by blast
  then have "db_evolves d d1"
    using h(1) by (cases "exec_jobs ?P ?f d") (auto simp: heartbeat_one_def Let_def split: option.splits if_splits)
  then show ?case using Cons.IH [OF h(2)] db_evolves_trans by blast
qed simp

lemma LeaseJob_evolves:
  assumes ok: "sched_ok d" and l: "LeaseJob s locked now clock lease runnerID d = Inr (res, d')"
  shows "db_evolves d d'"
  using l
proof (cases rule: LeaseJob_cases)
  case (leased w p j sn cfg job d1 x)
  have "db_evolves d d1"
    by (rule exec_jobs_evolves [OF leased(8)]) (auto simp: evolves_def job_key_def finished_statuses_def)
  moreover have "jobs d' = jobs d1" using leased(9) by (auto simp: any_rows_Inr dest: exec_runs_jobs)
  ultimately show ?thesis using db_evolves_trans db_evolves_jobs by blast
qed simp

lemma CompleteJob_evolves:
  assumes ok: "sched_ok d" and c: "CompleteJob s now owner status message d = Inr (u, d')"
  shows "db_evolves d d'"
  using c
proof (rule CompleteJob_cases)
  fix j p d1 d2
  let ?P = "\<lambda>j. jrun j = OwRunID owner \<and> jname j = OwJobName owner"
  assume st: "status \<in> {JobPassed, JobFailed, JobError, JobCanceled}"
    and f: "find (owns (OwRunID owner) (OwJobName owner) (OwRunnerID owner) (OwLeaseID owner) (OwGeneration owner) now) (jobs d) = Some j"
    and e: "any_rows (exec_jobs ?P (complete_row now status message) d) = Inr ((), d1)"
    and b: "(if status \<noteq> JobPassed then blockDependents now (OwRunID owner) d1 else Inr ((), d1)) = Inr ((), d2)"
    and fin: "finalizeRun s now (OwRunID owner) d2 = Inr ((), d')"
  note j = owned_row [OF f]
  have run: "jstatus x = JobRunning" if "x \<in> set (jobs d)" "?P x" for x
    using key_unique [OF tables_okD(2) [OF sched_midD(1) [OF ok]] that(1) j(1)] that(2) j by (simp add: job_key_def)
  obtain n where n: "exec_jobs ?P (complete_row now status message) d = Inr (n, d1)" using e by (auto simp: any_rows_Inr)
  have "db_evolves d d1"
    using run complete_evolves st by (intro exec_jobs_evolves [OF n]) (auto simp: finished_statuses_def)
  moreover have "db_evolves d1 d2" using b blockDependents_evolves by (auto split: if_splits)
  moreover have "db_evolves d2 d'" using db_evolves_jobs [OF finalizeRun_jobs [OF fin]] .
  ultimately show "db_evolves d d'" using db_evolves_trans by blast
qed

lemma Expire_evolves:
  assumes "ExpireJobLeases s visit now clock d = Inr (u, d')"
  shows "db_evolves d d'"
proof -
  obtain n d1 d2 m where e: "exec_jobs (lease_expired clock) (abort_row clock ''job lease expired'') d = Inr (n, d1)"
    "settle_runs s now (visit (returning_runs (lease_expired clock) d)) d1 = Inr ((), d2)"
    "exec_runners (\<lambda>w. wlast_seen w < clock - jobLeaseTTL) (\<lambda>w. w\<lparr> wstatus := RunnerOffline \<rparr>) d2 = Inr (m, d')"
    using assms by (auto simp: ExpireJobLeases_def rbind_eq_Inr any_rows_Inr)
  have "db_evolves d d1"
    by (rule exec_jobs_evolves [OF e(1)]) (simp add: abort_evolves lease_expired_def)
  moreover have "db_evolves d1 d2" using settle_evolves [OF e(2)] .
  moreover have "db_evolves d2 d'" using db_evolves_jobs [OF exec_runners_jobs [OF e(3)]] .
  ultimately show ?thesis using db_evolves_trans by blast
qed

lemma Recover_evolves:
  assumes ok: "sched_ok d" and "RecoverRemoteJobs s visit now d = Inr (u, d')"
  shows "db_evolves d d'"
proof -
  have none: "\<not> legacy_run r" if "r \<in> set (runs d)" for r
    using no_legacy [OF ok] that by (auto simp: filter_empty_conv)
  have legacy: "any_rows (exec_runs legacy_run f d) = Inr ((), d)" for f
    using none upd_where_idle [of "runs d" legacy_run f] by (auto simp: any_rows_Inr exec_runs_Inr)
  obtain n d1 where e: "exec_jobs (\<lambda>j. jstatus j = JobRunning) (abort_row now ''control plane restarted during job execution'') d = Inr (n, d1)"
    "settle_runs s now (visit (returning_runs (\<lambda>j. jstatus j = JobRunning) d)) d1 = Inr (u, d')"
    using assms(2) by (auto simp: RecoverRemoteJobs_def legacy no_legacy [OF ok] rbind_eq_Inr any_rows_Inr)
  have "db_evolves d d1" by (rule exec_jobs_evolves [OF e(1)]) (simp add: abort_evolves)
  then show ?thesis using settle_evolves [OF e(2)] db_evolves_trans by blast
qed

lemma RequestCancel_evolves:
  assumes "RequestCancel s now run d = Inr (st, d')"
  shows "db_evolves d d'"
proof -
  obtain n d1 m d2 where e: "exec_runs (\<lambda>r. rid r = run \<and> rstatus r = RunRunning)
      (\<lambda>r. r\<lparr> rcancel_at := coalesce (rcancel_at r) now \<rparr>) d = Inr (n, d1)"
    "exec_jobs (\<lambda>j. jrun j = run \<and> jstatus j = JobPending) (cancel_row now) d1 = Inr (m, d2)"
    "finalizeRun s now run d2 = Inr ((), d')"
    using assms by (auto simp: RequestCancel_def rbind_eq_Inr any_rows_Inr split: sum.splits if_splits)
  have "db_evolves d1 d2"
    by (rule exec_jobs_evolves [OF e(2)]) (auto simp: cancel_row_def evolves_def job_key_def finished_statuses_def)
  then show ?thesis
    using db_evolves_jobs [OF exec_runs_jobs [OF e(1)]] db_evolves_jobs [OF finalizeRun_jobs [OF e(3)]] db_evolves_trans by blast
qed

lemma CancelQueued_evolves:
  assumes "CancelQueued now run d = Inr (u, d')"
  shows "db_evolves d d'"
proof -
  let ?g = "\<lambda>j. j\<lparr> jstatus := JobCanceled, jfinished_at := Some now \<rparr>"
  obtain f d1 m where e: "exec_runs (\<lambda>r. rid r = run \<and> rstatus r = RunQueued) f d = Inr (1, d1)"
    "exec_jobs (\<lambda>j. jrun j = run \<and> jstatus j = JobPending) ?g d1 = Inr (m, d')"
    using assms by (auto simp: CancelQueued_def rbind_eq_Inr one_row_Inr any_rows_Inr)
  have "db_evolves d1 d'"
    by (rule exec_jobs_evolves [OF e(2)]) (auto simp: evolves_def job_key_def finished_statuses_def)
  then show ?thesis using db_evolves_jobs [OF exec_runs_jobs [OF e(1)]] db_evolves_trans by blast
qed

lemma createRun_evolves: "createRun now cr d = Inr (u, d') \<Longrightarrow> db_evolves d d'"
  by (erule createRun_Inr) (force simp: db_evolves_def intro: evolves_refl)

lemma storage_step_jobs: "storage_step s d d' \<Longrightarrow> jobs d' = jobs d"
  using storage_step_frame by (fastforce simp: storage_frame_def)

lemma remote_step_evolves:
  assumes ok: "sched_ok d" and step: "remote_step s d d'"
  shows "db_evolves d d'"
  using step
proof (cases rule: remote_step.cases)
  case (register now w u)
  then show ?thesis
    by (auto simp: RegisterRunner_def any_rows_Inr split: if_splits dest: exec_runners_jobs intro: db_evolves_jobs)
next
  case (heartbeat runnerID leases now rs)
  then obtain n d1 where e: "exec_runners (\<lambda>w. wid w = runnerID) (\<lambda>w. w\<lparr> wlast_seen := now, wstatus := RunnerOnline \<rparr>) d = Inr (n, d1)"
    "heartbeat_loop runnerID now leases d1 = Inr (rs, d')"
    by (auto simp: HeartbeatJobLeases_def rbind_eq_Inr one_row_Inr)
  then show ?thesis using heartbeat_evolves db_evolves_jobs [OF exec_runners_jobs [OF e(1)]] db_evolves_trans by blast
qed (use ok in \<open>blast intro: createRun_evolves LeaseJob_evolves CompleteJob_evolves Expire_evolves Recover_evolves
      RequestCancel_evolves CancelQueued_evolves db_evolves_jobs storage_step_jobs\<close>)+

lemma remote_steps_evolve:
  assumes "(remote_step s)\<^sup>*\<^sup>* d d'" and "sched_ok d"
  shows "db_evolves d d' \<and> sched_ok d'"
  using assms
  by (induction rule: rtranclp_induct)
    (auto intro: db_evolves_trans remote_step_evolves remote_step_ok)

end
