(* ===== verification/Sample.thy ===== *)
theory Sample
  imports Lease_Safety Pipeline_Graph
begin

text \<open>
  A small concrete history of the store, for the witnesses: a run with two jobs, the second needing the
  first, is created, a runner registers and leases the first job.
\<close>

definition sample_two :: Pipeline where
  "sample_two = \<lparr> Version = 1, Jobs = [(''a'', sample_plain []), (''b'', sample_plain [''a''])] \<rparr>"

lemma sample_two_validates: "Validate sample_two = Inr ()"
  by (simp add: Validate_def sample_two_def sorted_names_def validate_job_def sample_plain_def
      image_ok_def validateArtifacts_def validateCache_def alnum_def check_def text_evals)

definition sample_store :: Store where
  "sample_store = \<lparr> artifactRetention = 100, cacheRetention = 100, cacheMaxBytes = 0,
     decode = (\<lambda>_. Inr sample_two), decode_extra = (\<lambda>_. ExtraEOF), collate = (\<lambda>x. x) \<rparr>"

definition sample_digest :: string where "sample_digest = replicate 64 CHR ''a''"

definition sample_snapshot :: SourceSnapshot where
  "sample_snapshot = \<lparr> SourceDigest = sample_digest, BlobDigest = sample_digest, SnapFormat = ''tar-gzip-v1'',
     SnapArchiveSize = 1, SnapLogicalSize = 1, SnapEntryCount = 1, SnapCreatedAt = 0 \<rparr>"

definition sample_create :: CreateRun where
  "sample_create = \<lparr> CrID = ''r'', CrFile = ''f'', CrSHA256 = sample_digest, CrWorkspace = ''w'', CrYAML = ''y'',
     CrMaxParallel = 2, CrJobs = [(''a'', None), (''b'', None)], CrDependencies = [(''b'', ''a'')],
     CrSnapshot = Some sample_snapshot \<rparr>"

definition sample_runner :: runner_row where
  "sample_runner = \<lparr> wid = ''w1'', wname = ''one'', wprotocol = 2, wos = ''linux'', warch = ''amd64'', wdocker = False,
     wmax_parallel = 1, wstatus = RunnerOnline, wregistered_at = 0, wlast_seen = 0, wcurrent_run = None \<rparr>"

definition sample_db0 :: db where
  "sample_db0 = empty_db\<lparr> snapshots := [sample_snapshot], runs := [new_run_row 0 sample_create sample_digest],
     jobs := [new_job_row ''r'' (''a'', None), new_job_row ''r'' (''b'', None)],
     deps := [\<lparr> drun = ''r'', djob = ''b'', dupstream = ''a'' \<rparr>] \<rparr>"

definition sample_db1 :: db where
  "sample_db1 = sample_db0\<lparr> runners := [sample_runner] \<rparr>"

definition sample_db2 :: db where
  "sample_db2 = sample_db1\<lparr> runs := [(new_run_row 0 sample_create sample_digest)\<lparr> rstatus := RunRunning, rstarted_at := Some 1 \<rparr>],
     jobs := [lease_row 1 (1 + jobLeaseTTL) ''l1'' ''w1'' (new_job_row ''r'' (''a'', None)), new_job_row ''r'' (''b'', None)] \<rparr>"

lemma sample_digest_hex: "lower_hex64 sample_digest"
  by (simp add: lower_hex64_def sample_digest_def byte_def list_all_iff)

lemma sample_created: "createRun 0 sample_create empty_db = Inr ((), sample_db0)"
  using sample_digest_hex
  by (simp add: createRun_def sample_create_def sample_snapshot_def insert_snapshot_def snapshot_check_def empty_db_def
      same_snapshot_def insert_run_def new_run_row_def new_job_row_def run_check_def remote_lease_consistent_def job_key_def sample_db0_def)

lemma sample_registered: "RegisterRunner 0 sample_runner sample_db0 = Inr ((), sample_db1)"
  by (simp add: RegisterRunner_def sample_db0_def sample_db1_def sample_runner_def empty_db_def)

lemma sample_parse: "parse_stored sample_store y = Inr sample_two"
  by (simp add: parse_stored_def ParseBytes_def sample_store_def sample_two_validates)

lemma sample_lease:
  "\<exists>res. LeaseJob sample_store (\<lambda>_. False) 1 1 ''l1'' ''w1'' sample_db1 = Inr (Some res, sample_db2)"
  by (simp add: LeaseJob_def sample_db1_def sample_db0_def sample_db2_def sample_runner_def empty_db_def active_jobs_def
      lease_candidates_def leasable_def first_by_def lease_key_def upstream_with_def running_in_def sample_parse
      sample_two_def one_row_def any_rows_def exec_jobs_def exec_runs_def new_run_row_def sample_create_def sample_snapshot_def
      new_job_row_def lease_row_def coalesce_def job_check_def job_lease_consistent_def run_check_def remote_lease_consistent_def Let_def)

lemma sample_reachable0: "remote_reachable sample_store sample_db0"
  using remote_step.create [OF _ sample_created, of sample_store] by (auto simp: remote_reachable_def sample_create_def)

lemma sample_reachable1: "remote_reachable sample_store sample_db1"
  using sample_reachable0 remote_step.register [OF sample_registered]
  unfolding remote_reachable_def by (rule rtranclp.rtrancl_into_rtrancl)

lemma sample_reachable2: "remote_reachable sample_store sample_db2"
  using sample_reachable1 remote_step.lease [of sample_store] sample_lease
  unfolding remote_reachable_def by (meson rtranclp.rtrancl_into_rtrancl)

lemmas sample_evals = sample_db0_def sample_db1_def sample_db2_def sample_runner_def empty_db_def sample_create_def
  sample_snapshot_def new_run_row_def new_job_row_def lease_row_def coalesce_def complete_row_def block_row_def
  exec_jobs_def exec_runs_def exec_artifacts_def one_row_def any_rows_def job_check_def job_lease_consistent_def
  run_check_def remote_lease_consistent_def Let_def

definition sample_owner :: "string \<Rightarrow> string \<Rightarrow> ArtifactOwnership" where
  "sample_owner job lease = \<lparr> OwRunID = ''r'', OwRunnerID = ''w1'', OwLeaseID = lease, OwJobName = job, OwGeneration = 1 \<rparr>"

definition sample_db3 :: db where
  "sample_db3 = sample_db2\<lparr> jobs := [complete_row 2 JobPassed None (lease_row 1 (1 + jobLeaseTTL) ''l1'' ''w1'' (new_job_row ''r'' (''a'', None))),
     new_job_row ''r'' (''b'', None)] \<rparr>"

definition sample_db4 :: db where
  "sample_db4 = sample_db3\<lparr> jobs := [complete_row 2 JobPassed None (lease_row 1 (1 + jobLeaseTTL) ''l1'' ''w1'' (new_job_row ''r'' (''a'', None))),
     lease_row 3 (3 + jobLeaseTTL) ''l2'' ''w1'' (new_job_row ''r'' (''b'', None))] \<rparr>"

definition sample_db5 :: db where
  "sample_db5 = sample_db4\<lparr> runs := [final_row 4 RunPassed ((new_run_row 0 sample_create sample_digest)\<lparr> rstatus := RunRunning, rstarted_at := Some 1 \<rparr>)],
     jobs := [complete_row 2 JobPassed None (lease_row 1 (1 + jobLeaseTTL) ''l1'' ''w1'' (new_job_row ''r'' (''a'', None))),
     complete_row 4 JobCanceled None (lease_row 3 (3 + jobLeaseTTL) ''l2'' ''w1'' (new_job_row ''r'' (''b'', None)))] \<rparr>"

lemma sample_complete_a: "CompleteJob sample_store 2 (sample_owner ''a'' ''l1'') JobPassed None sample_db2 = Inr ((), sample_db3)"
  by (simp add: CompleteJob_def sample_owner_def owns_def jobLeaseTTL_def artifactSetCommittedTx_def sample_parse
      sample_two_def sample_plain_def finalizeRun_def sample_db3_def sample_evals)

lemma sample_lease_b:
  "\<exists>res. LeaseJob sample_store (\<lambda>_. False) 3 3 ''l2'' ''w1'' sample_db3 = Inr (Some res, sample_db4)"
  by (simp add: LeaseJob_def active_jobs_def lease_candidates_def leasable_def first_by_def lease_key_def upstream_with_def
      running_in_def sample_parse sample_two_def sample_db4_def sample_db3_def sample_evals)

lemma sample_cancel_b: "CompleteJob sample_store 4 (sample_owner ''b'' ''l2'') JobCanceled None sample_db4 = Inr ((), sample_db5)"
  by (simp add: CompleteJob_def sample_owner_def owns_def jobLeaseTTL_def blockDependents.simps [of 4] blockable_def
      upstream_with_def finalizeRun_def run_verdict_def final_row_def expire_artifacts_of_def
      sample_db5_def sample_db4_def sample_db3_def sample_evals)

lemma sample_reachable3: "remote_reachable sample_store sample_db3"
  using sample_reachable2 remote_step.complete [OF sample_complete_a]
  unfolding remote_reachable_def by (rule rtranclp.rtrancl_into_rtrancl)

lemma sample_reachable4: "remote_reachable sample_store sample_db4"
  using sample_reachable3 remote_step.lease [of sample_store] sample_lease_b
  unfolding remote_reachable_def by (meson rtranclp.rtrancl_into_rtrancl)

section \<open>A job with artifacts\<close>

definition sample_upload_job :: Job where
  "sample_upload_job = (sample_plain [])\<lparr> JobArtifacts :=
     \<lparr> Upload = [\<lparr> UpName = ''B'', UpPath = ''x'' \<rparr>, \<lparr> UpName = ''a'', UpPath = ''y'' \<rparr>], Download = [] \<rparr> \<rparr>"

definition sample_upload :: Pipeline where
  "sample_upload = \<lparr> Version = 1, Jobs = [(''j'', sample_upload_job)] \<rparr>"

lemma sample_upload_validates: "Validate sample_upload = Inr ()"
  by (simp add: Validate_def sample_upload_def sample_upload_job_def sorted_names_def validate_job_def sample_plain_def
      image_ok_def validateArtifacts_def validateCache_def safeArtifactPath_def bad_bytes_def alnum_def check_def text_evals)

definition sample_artifact :: "string \<Rightarrow> Artifact" where
  "sample_artifact name = \<lparr> ArID = name, ArRunID = ''r'', ArProducer = ''j'', ArName = name, ArRootName = ''x'',
     ArRootKind = ''file'', ArContent = sample_digest, ArBlob = sample_digest, ArFormat = ''artifact-tar-gzip-v1'',
     ArArchiveSize = 1, ArLogicalSize = 1, ArEntryCount = 1, ArCreatedAt = 0, ArExpiresAt = None, ArDeletedAt = None \<rparr>"

end
