(* ===== verification/Remote_Properties.thy ===== *)
theory Remote_Properties
  imports Sample "HOL-Library.Multiset"
begin

text \<open>
  The properties of the remote scheduler, over every state reachable from the empty database by the
  operations of \<open>remote_step\<close>, with their witnesses.
\<close>

section \<open>Helper lemmas\<close>

lemma job_row_unique:
  assumes "sched_mid B F d" and "j \<in> set (jobs d)" and "j' \<in> set (jobs d)" and "job_key j = job_key j'"
  shows "j = j'"
  using key_unique [OF tables_okD(2) [OF sched_midD(1) [OF assms(1)]] assms(2,3,4)] .

lemma reachable_steps:
  "remote_reachable s d \<Longrightarrow> (remote_step s)\<^sup>*\<^sup>* d d' \<Longrightarrow> remote_reachable s d'"
  unfolding remote_reachable_def by (rule rtranclp_trans)

lemma leased_row:
  assumes ok: "sched_ok d" and l: "LeaseJob s locked now clock lease runnerID d = Inr (Some res, d')"
  obtains w p j sn cfg job where
    "w \<in> set (runners d)" "wid w = runnerID" "wprotocol w = 2" "wstatus w = RunnerOnline"
    "int (active_jobs d runnerID) < wmax_parallel w"
    "p \<in> set (runs d)" "j \<in> set (jobs d)" "leasable (wdocker w) d (p, j, sn)"
    "parse_stored s (ryaml p) = Inr cfg" "map_of (Jobs cfg) (jname j) = Some job"
    "lease_row now (clock + jobLeaseTTL) lease runnerID j \<in> set (jobs d')"
    "jobs d' = upd_where (\<lambda>x. x = j) (lease_row now (clock + jobLeaseTTL) lease runnerID) (jobs d)"
    "res = \<lparr> LsRunID = rid p, LsJobName = jname j, LsRunnerID = runnerID, LsLeaseID = lease,
       LsGeneration = 1, LsExpiresAt = clock + jobLeaseTTL, LsJob = job_definition job, LsSnapshot = sn \<rparr>"
    "\<And>p' j' sn'. leasable (wdocker w) d (p', j', sn') \<Longrightarrow> \<not> locked (p', j') \<Longrightarrow> p' \<in> set (runs d) \<Longrightarrow> j' \<in> set (jobs d) \<Longrightarrow>
       sn' \<in> set (snapshots d) \<Longrightarrow> lease_key s (p, j, sn) \<le> lease_key s (p', j', sn')"
  using l
proof (cases rule: LeaseJob_cases)
  case (leased w p j sn cfg job d1 x)
  note c = lease_candidate [OF leased(5)]
  let ?f = "lease_row now (clock + jobLeaseTTL) lease runnerID"
  let ?P = "\<lambda>x. jrun x = rid p \<and> jname x = jname j \<and> jstatus x = JobPending"
  have jp: "jrun j = rid p" "jstatus j = JobPending" using c(4) by (auto simp: leasable_def)
  have "upd_where ?P ?f (jobs d) = upd_where (\<lambda>x. x = j) ?f (jobs d)"
    unfolding upd_where_def using job_row_unique [OF ok _ c(2)] jp by (intro map_cong) (auto simp: job_key_def)
  moreover have "jobs d' = upd_where ?P ?f (jobs d)"
    using leased(8,9) by (auto simp: any_rows_Inr exec_jobs_Inr dest: exec_runs_jobs)
  ultimately have jobs: "jobs d' = upd_where (\<lambda>x. x = j) ?f (jobs d)" by simp
  then have new: "?f j \<in> set (jobs d')" using c(2) by (auto simp: set_upd_where)
  have "sched_ok d'" using LeaseJob_ok [OF ok l] .
  then have "x = ?f j" using job_row_unique [OF _ _ new] find_SomeD [OF leased(10)] jp by (auto simp: job_key_def)
  then have "jgeneration x = 1" using jobs_invD(1) [OF sched_midD(2) [OF ok] c(2) jp(2)] by simp
  then show ?thesis
    using that [OF _ _ leased(2,3,4) c(1,2,4) leased(6,7) new jobs _ c(6)] leased(11) find_SomeD [OF leased(1)] by auto
qed auto

lemma running_kept:
  assumes "settle_runs s now ids d = Inr (u, d')" and "j \<in> set (jobs d')" and "jstatus j = JobRunning"
  shows "j \<in> set (jobs d)"
  using assms
proof (induction ids arbitrary: d)
  case (Cons run ids)
  then obtain d1 d2 where d: "blockDependents now run d = Inr ((), d1)" "finalizeRun s now run d1 = Inr ((), d2)"
    "settle_runs s now ids d2 = Inr (u, d')" by (auto simp: rbind_eq_Inr)
  have "j \<in> set (jobs d1)" using Cons.IH [OF d(3)] Cons.prems finalizeRun_jobs [OF d(2)] by simp
  moreover have "blockDependents now run e = Inr (v, e') \<Longrightarrow> j \<in> set (jobs e') \<Longrightarrow> j \<in> set (jobs e)" for e e' v
  proof (induction now run e arbitrary: e' rule: blockDependents.induct)
    case (1 now run e)
    show ?case
    proof (cases "exec_jobs (blockable e run) (block_row now) e")
      case (Inr x)
      obtain n e1 where x: "x = (n, e1)" by (cases x)
      have "j \<in> set (jobs e1) \<Longrightarrow> j \<in> set (jobs e)"
        using Inr x Cons.prems(3) by (auto simp: exec_jobs_Inr elim!: in_upd_whereE)
      moreover have "j \<in> set (jobs e1)"
        using "1.IH" [OF Inr [unfolded x] refl] "1.prems" Inr x
        by (cases "n = 0") (auto simp: blockDependents.simps [of now run e])
      ultimately show ?thesis by blast
    qed (use "1.prems" in \<open>simp add: blockDependents.simps [of now run e]\<close>)
  qed
  ultimately show ?case using d(1) by blast
qed simp

section \<open>Properties\<close>



text \<open>C3. A job is leased at most once: whatever happens between them, two leases that the store hands
  out in one history are for different jobs. In particular a job whose runner was lost is never
  reassigned, and every lease has generation 1.\<close>

theorem leased_at_most_once:
  assumes "remote_reachable s d" and "LeaseJob s locked now clock lease runnerID d = Inr (Some l, d1)"
    and "(remote_step s)\<^sup>*\<^sup>* d1 d2" and "LeaseJob s locked' now' clock' lease' runnerID' d2 = Inr (Some l', d3)"
  shows "LsGeneration l = 1 \<and> LsGeneration l' = 1 \<and> (LsRunID l, LsJobName l) \<noteq> (LsRunID l', LsJobName l')"
proof -
  note ok = remote_reachable_ok [OF assms(1)]
  have ok1: "sched_ok d1" using LeaseJob_ok [OF ok assms(2)] .
  have ev: "db_evolves d1 d2" and ok2: "sched_ok d2" using remote_steps_evolve [OF assms(3) ok1] by auto
  obtain p j g where j: "lease_row now (clock + jobLeaseTTL) lease runnerID j \<in> set (jobs d1)"
    "LsGeneration l = 1" "(LsRunID l, LsJobName l) = job_key j"
    by (rule leased_row [OF ok assms(2)]) (auto simp: job_key_def leasable_def)
  obtain j' where j': "j' \<in> set (jobs d2)" "jstatus j' = JobPending" "LsGeneration l' = 1" "(LsRunID l', LsJobName l') = job_key j'"
    by (rule leased_row [OF ok2 assms(4)]) (auto simp: job_key_def leasable_def)
  obtain x where x: "x \<in> set (jobs d2)" "evolves (lease_row now (clock + jobLeaseTTL) lease runnerID j) x"
    using ev j(1) by (auto simp: db_evolves_def)
  then have "jstatus x \<noteq> JobPending" "job_key x = job_key j" by (auto simp: evolves_def job_key_def)
  then have "job_key j \<noteq> job_key j'" using job_row_unique [OF ok2 x(1) j'(1)] j'(2) by auto
  then show ?thesis using j j' by simp
qed

theorem leased_at_most_once_witness:
  "\<exists>l l'. LeaseJob sample_store (\<lambda>_. False) 1 1 ''l1'' ''w1'' sample_db1 = Inr (Some l, sample_db2) \<and>
     LeaseJob sample_store (\<lambda>_. False) 3 3 ''l2'' ''w1'' sample_db3 = Inr (Some l', sample_db4) \<and>
     LsGeneration l' = 1 \<and> (LsRunID l, LsJobName l) \<noteq> (LsRunID l', LsJobName l')"
proof -
  obtain l where l: "LeaseJob sample_store (\<lambda>_. False) 1 1 ''l1'' ''w1'' sample_db1 = Inr (Some l, sample_db2)"
    using sample_lease by blast
  obtain l' where l': "LeaseJob sample_store (\<lambda>_. False) 3 3 ''l2'' ''w1'' sample_db3 = Inr (Some l', sample_db4)"
    using sample_lease_b by blast
  have "(remote_step sample_store)\<^sup>*\<^sup>* sample_db2 sample_db3" using remote_step.complete [OF sample_complete_a] by blast
  from leased_at_most_once [OF sample_reachable1 l this l'] l l' show ?thesis by blast
qed

text \<open>C5. Completion is fenced and happens once: when a completion of a job is accepted, every later
  completion of the same job, by whatever owner and with whatever status, is refused as a conflict.\<close>

theorem completed_at_most_once:
  assumes "remote_reachable s d" and "CompleteJob s now owner status message d = Inr (u, d1)"
    and "(remote_step s)\<^sup>*\<^sup>* d1 d2"
    and "OwRunID owner' = OwRunID owner" and "OwJobName owner' = OwJobName owner"
  shows "CompleteJob s now' owner' status' message' d2 = Inl ErrConflict"
proof -
  note ok = remote_reachable_ok [OF assms(1)]
  have ok1: "sched_ok d1" using CompleteJob_ok [OF ok assms(2)] .
  have ev: "db_evolves d1 d2" and ok2: "sched_ok d2" using remote_steps_evolve [OF assms(3) ok1] by auto
  obtain x where x: "x \<in> set (jobs d1)" "job_key x = (OwRunID owner, OwJobName owner)" "jstatus x \<in> finished_statuses"
    using assms(2)
  proof (rule CompleteJob_cases)
    fix j p e1 e2
    let ?P = "\<lambda>j. jrun j = OwRunID owner \<and> jname j = OwJobName owner"
    assume st: "status \<in> {JobPassed, JobFailed, JobError, JobCanceled}"
      and f: "find (owns (OwRunID owner) (OwJobName owner) (OwRunnerID owner) (OwLeaseID owner) (OwGeneration owner) now) (jobs d) = Some j"
      and e: "any_rows (exec_jobs ?P (complete_row now status message) d) = Inr ((), e1)"
      and b: "(if status \<noteq> JobPassed then blockDependents now (OwRunID owner) e1 else Inr ((), e1)) = Inr ((), e2)"
      and fin: "finalizeRun s now (OwRunID owner) e2 = Inr ((), d1)"
    have c: "complete_row now status message j \<in> set (jobs e1)"
      using e owned_row(1,2,3) [OF f] by (auto simp: any_rows_Inr exec_jobs_Inr set_upd_where)
    have "db_evolves e1 e2" using b blockDependents_evolves by (auto split: if_splits)
    then obtain x where "x \<in> set (jobs e2)" "evolves (complete_row now status message j) x"
      using c by (auto simp: db_evolves_def)
    moreover have "jobs d1 = jobs e2" using finalizeRun_jobs [OF fin] .
    ultimately show thesis using that [of x] st owned_row(2,3) [OF f]
      by (auto simp: evolves_def complete_row_def job_key_def finished_statuses_def)
  qed
  then obtain y where y: "y \<in> set (jobs d2)" "job_key y = job_key x" "jstatus y \<in> finished_statuses"
    using ev by (fastforce simp: db_evolves_def evolves_def)
  have "\<not> owns (OwRunID owner') (OwJobName owner') (OwRunnerID owner') (OwLeaseID owner') (OwGeneration owner') now' z"
    if "z \<in> set (jobs d2)" for z
    using job_row_unique [OF ok2 that y(1)] y x(2) assms(4,5) finished_not [of "jstatus y"] by (auto simp: owns_def job_key_def)
  then have "find (owns (OwRunID owner') (OwJobName owner') (OwRunnerID owner') (OwLeaseID owner') (OwGeneration owner') now') (jobs d2) = None"
    by (simp add: find_None_iff)
  then show ?thesis by (simp add: CompleteJob_def)
qed

theorem completed_at_most_once_witness:
  "CompleteJob sample_store 5 (sample_owner ''a'' ''l1'') JobFailed None sample_db4 = Inl ErrConflict"
proof -
  have "(remote_step sample_store)\<^sup>*\<^sup>* sample_db3 sample_db4"
    using remote_step.lease [of sample_store] sample_lease_b by blast
  from completed_at_most_once [OF sample_reachable2 sample_complete_a this] show ?thesis by simp
qed

text \<open>C19. No completion is accepted from anyone but the current holder: an accepted completion names the
  runner, the lease id and the generation that the row carries, before its lease expires.\<close>

theorem completion_fenced:
  assumes "CompleteJob s now owner status message d = Inr (u, d')"
  shows "\<exists>j \<in> set (jobs d). job_key j = (OwRunID owner, OwJobName owner) \<and> jstatus j = JobRunning \<and>
    jrunner j = Some (OwRunnerID owner) \<and> jlease j = Some (OwLeaseID owner) \<and> jgeneration j = OwGeneration owner \<and>
    (\<exists>e > now. jlease_expires j = Some e) \<and> status \<in> {JobPassed, JobFailed, JobError, JobCanceled}"
  using assms
proof (rule CompleteJob_cases)
  fix j assume st: "status \<in> {JobPassed, JobFailed, JobError, JobCanceled}"
    and "find (owns (OwRunID owner) (OwJobName owner) (OwRunnerID owner) (OwLeaseID owner) (OwGeneration owner) now) (jobs d) = Some j"
  from st owned_row [OF this(2)] show ?thesis by (intro bexI [of _ j]) (auto simp: job_key_def)
qed

theorem completion_fenced_witness:
  "\<exists>j \<in> set (jobs sample_db2). jrunner j = Some ''w1'' \<and> jlease j = Some ''l1'' \<and> jgeneration j = 1"
  using completion_fenced [OF sample_complete_a] by (auto simp: sample_owner_def)

definition run_needs :: "db \<Rightarrow> string \<Rightarrow> (string \<times> string) set" where
  "run_needs d run = {(dupstream e, djob e) | e. e \<in> set (deps d) \<and> drun e = run}"



text \<open>Expiry always succeeds on a reachable state and leaves no running job whose lease has expired
  by the given clock; the state stays reachable, so its runs are blocked and closed as needed.\<close>

theorem expiry_total:
  assumes "remote_reachable s d" and "\<And>ids. set (visit ids) = set ids"
  shows "\<exists>d'. ExpireJobLeases s visit now clock d = Inr ((), d') \<and> remote_reachable s d' \<and>
    (\<forall>j \<in> set (jobs d'). \<not> lease_expired clock j)"
proof -
  note ok = remote_reachable_ok [OF assms(1)]
  obtain d' where d': "ExpireJobLeases s visit now clock d = Inr ((), d')"
    using ExpireJobLeases_ok [OF ok assms(2)] by blast
  obtain n d1 d2 m where e: "exec_jobs (lease_expired clock) (abort_row clock ''job lease expired'') d = Inr (n, d1)"
    "settle_runs s now (visit (returning_runs (lease_expired clock) d)) d1 = Inr ((), d2)"
    "exec_runners (\<lambda>w. wlast_seen w < clock - jobLeaseTTL) (\<lambda>w. w\<lparr> wstatus := RunnerOffline \<rparr>) d2 = Inr (m, d')"
    using d' by (auto simp: ExpireJobLeases_def rbind_eq_Inr any_rows_Inr)
  have "\<not> lease_expired clock j" if "j \<in> set (jobs d')" for j
  proof
    assume x: "lease_expired clock j"
    then have "j \<in> set (jobs d1)"
      using running_kept [OF e(2)] that exec_runners_jobs [OF e(3)] by (simp add: lease_expired_def)
    then show False using e(1) x by (auto simp: exec_jobs_Inr abort_row_def lease_expired_def elim!: in_upd_whereE)
  qed
  moreover have "remote_reachable s d'"
    using remote_step.expire [OF assms(2) d'] assms(1) reachable_steps by blast
  ultimately show ?thesis using d' by blast
qed

theorem expiry_total_witness:
  "\<exists>d'. ExpireJobLeases sample_store rev 99 99 sample_db2 = Inr ((), d') \<and> (\<forall>j \<in> set (jobs d'). \<not> lease_expired 99 j)"
  using expiry_total [OF sample_reachable2, of rev 99 99] by auto

text \<open>Recovery after a restart of the control plane always succeeds on a reachable state and leaves no
  job running: every job that was running is ABORTED, none goes back to PENDING.\<close>

theorem recovery_total:
  assumes "remote_reachable s d" and "\<And>ids. set (visit ids) = set ids"
  shows "\<exists>d'. RecoverRemoteJobs s visit now d = Inr ((), d') \<and> remote_reachable s d' \<and>
    (\<forall>j \<in> set (jobs d'). jstatus j \<noteq> JobRunning) \<and>
    (\<forall>j \<in> set (jobs d). jstatus j = JobRunning \<longrightarrow> (\<exists>j' \<in> set (jobs d'). job_key j' = job_key j \<and> jstatus j' = JobAborted))"
proof -
  note ok = remote_reachable_ok [OF assms(1)]
  obtain d' where d': "RecoverRemoteJobs s visit now d = Inr ((), d')" using RecoverRemoteJobs_ok [OF ok assms(2)] by blast
  have none: "\<not> legacy_run r" if "r \<in> set (runs d)" for r
    using no_legacy [OF ok] that by (auto simp: filter_empty_conv)
  have legacy: "any_rows (exec_runs legacy_run f d) = Inr ((), d)" for f
    using none upd_where_idle [of "runs d" legacy_run f] by (auto simp: any_rows_Inr exec_runs_Inr)
  let ?f = "abort_row now ''control plane restarted during job execution''"
  obtain n d1 where e: "exec_jobs (\<lambda>j. jstatus j = JobRunning) ?f d = Inr (n, d1)"
    "settle_runs s now (visit (returning_runs (\<lambda>j. jstatus j = JobRunning) d)) d1 = Inr ((), d')"
    using d' by (auto simp: RecoverRemoteJobs_def legacy no_legacy [OF ok] rbind_eq_Inr any_rows_Inr)
  have j1: "jobs d1 = upd_where (\<lambda>j. jstatus j = JobRunning) ?f (jobs d)" using e(1) by (auto simp: exec_jobs_Inr)
  have "jstatus j \<noteq> JobRunning" if "j \<in> set (jobs d1)" for j
    using that by (auto simp: j1 abort_row_def elim!: in_upd_whereE)
  then have "\<forall>j \<in> set (jobs d'). jstatus j \<noteq> JobRunning" using running_kept [OF e(2)] by blast
  moreover have "\<exists>j' \<in> set (jobs d'). job_key j' = job_key j \<and> jstatus j' = JobAborted"
    if "j \<in> set (jobs d)" "jstatus j = JobRunning" for j
  proof -
    have "?f j \<in> set (jobs d1)" using that by (auto simp: j1 set_upd_where)
    then obtain x where "x \<in> set (jobs d')" "evolves (?f j) x" using settle_evolves [OF e(2)] by (auto simp: db_evolves_def)
    then show ?thesis by (auto simp: evolves_def abort_row_def job_key_def finished_statuses_def)
  qed
  moreover have "remote_reachable s d'" using remote_step.recover [OF assms(2) d'] assms(1) reachable_steps by blast
  ultimately show ?thesis using d' by blast
qed

theorem recovery_total_witness:
  "\<exists>d'. RecoverRemoteJobs sample_store rev 9 sample_db2 = Inr ((), d') \<and> (\<forall>j \<in> set (jobs d'). jstatus j \<noteq> JobRunning)"
  using recovery_total [OF sample_reachable2, of rev 9] by auto

text \<open>A lease goes to an online protocol-2 runner with a free slot, for the first job, in the order of run
  creation time, run id and job name, among the pending jobs of open uncancelled runs below their
  parallelism whose needs have all passed and which the runner can execute; that row and no other job
  row changes, to RUNNING under this runner and lease until 30 seconds later.\<close>

theorem lease_grants_first:
  assumes "remote_reachable s d" and "LeaseJob s locked now clock lease runnerID d = Inr (Some l, d')"
  shows "\<exists>w \<in> set (runners d). \<exists>p \<in> set (runs d). \<exists>j \<in> set (jobs d). \<exists>sn.
    wid w = runnerID \<and> wprotocol w = 2 \<and> wstatus w = RunnerOnline \<and> int (active_jobs d runnerID) < wmax_parallel w \<and>
    leasable (wdocker w) d (p, j, sn) \<and> LsRunID l = rid p \<and> LsJobName l = jname j \<and>
    LsExpiresAt l = clock + jobLeaseTTL \<and> LsSnapshot l = sn \<and>
    jobs d' = upd_where (\<lambda>x. x = j) (lease_row now (clock + jobLeaseTTL) lease runnerID) (jobs d) \<and>
    (\<forall>p' \<in> set (runs d). \<forall>j' \<in> set (jobs d). \<forall>sn' \<in> set (snapshots d).
       leasable (wdocker w) d (p', j', sn') \<longrightarrow> \<not> locked (p', j') \<longrightarrow> lease_key s (p, j, sn) \<le> lease_key s (p', j', sn'))"
  by (rule leased_row [OF remote_reachable_ok [OF assms(1)] assms(2)])
    (fastforce intro!: bexI exI)

theorem lease_grants_first_witness:
  "\<exists>j \<in> set (jobs sample_db1). jobs sample_db2 = upd_where (\<lambda>x. x = j) (lease_row 1 (1 + jobLeaseTTL) ''l1'' ''w1'') (jobs sample_db1)"
proof -
  obtain l where "LeaseJob sample_store (\<lambda>_. False) 1 1 ''l1'' ''w1'' sample_db1 = Inr (Some l, sample_db2)"
    using sample_lease by blast
  from lease_grants_first [OF sample_reachable1 this] show ?thesis by blast
qed

text \<open>\<open>blockDependents\<close> ends, and blocks exactly the pending jobs of the run that have a failed
  job upstream along pending jobs, however long the chain; nothing else changes.\<close>

theorem block_exact:
  assumes "\<And>j. j \<in> set (jobs d) \<Longrightarrow> job_check j"
  shows "blockDependents now run d
    = Inr ((), d\<lparr>jobs := upd_where (\<lambda>j. doomed d j \<and> jrun j = run) (block_row now) (jobs d)\<rparr>)"
  using assms by (rule blockDependents_exact)

theorem block_exact_witness:
  "blockDependents 3 ''r'' sample_db2
    = Inr ((), sample_db2\<lparr>jobs := upd_where (\<lambda>j. doomed sample_db2 j \<and> jrun j = ''r'') (block_row 3) (jobs sample_db2)\<rparr>)"
  by (rule block_exact) (use tables_okD(8) [OF sched_midD(1) [OF remote_reachable_ok [OF sample_reachable2]]] in blast)

text \<open>A job may be completed as PASSED only when the names of its live artifacts are exactly the
  declared ones; on a server whose text order is bytewise the check decides that equality.\<close>

theorem artifact_set_committed_iff:
  assumes "collate s = (\<lambda>x. x)" and "parse_stored s yaml = Inr cfg" and "map_of (Jobs cfg) job = Some j"
  shows "artifactSetCommittedTx s yaml run job d = Inr (mset (map UpName (Upload (JobArtifacts j)))
    = mset (map ArName (filter (\<lambda>a. ArRunID a = run \<and> ArProducer a = job \<and> ArDeletedAt a = None) (artifacts d))))"
  using assms by (rule artifactSetCommitted_mset)

theorem artifact_set_committed_iff_witness:
  "artifactSetCommittedTx sample_store ''y'' ''r'' ''a'' sample_db2 = Inr True"
proof -
  have "collate sample_store = (\<lambda>x. x)" "map_of (Jobs sample_two) ''a'' = Some (sample_plain [])"
    by (simp_all add: sample_store_def sample_two_def)
  from artifact_set_committed_iff [OF this(1) sample_parse this(2), of "''y''" "''r''" sample_db2] show ?thesis
    by (simp add: sample_plain_def sample_db2_def sample_db1_def sample_db0_def empty_db_def)
qed

section \<open>Behaviours the comments and documents do not expect\<close>

definition sample_icase_store :: Store where
  "sample_icase_store = sample_store\<lparr> decode := (\<lambda>_. Inr sample_upload), collate := map lower_char \<rparr>"

lemma sample_upload_parse: "parse_stored sample_icase_store y = Inr sample_upload"
proof -
  show ?thesis using sample_upload_validates by (simp add: parse_stored_def ParseBytes_def sample_icase_store_def sample_store_def)
qed


text \<open>C33. A run may end as PASSED although one of its jobs was CANCELED: when the holder of a leaf job
  completes it as CANCELED and nobody has requested the cancellation of the run, finalisation finds
  neither an error nor a failure.\<close>

theorem canceled_job_in_passed_run:
  "\<exists>d d' owner. remote_reachable sample_store d \<and> CompleteJob sample_store 4 owner JobCanceled None d = Inr ((), d') \<and>
     (\<exists>r \<in> set (runs d'). rstatus r = RunPassed \<and> (\<exists>j \<in> set (jobs d'). jrun j = rid r \<and> jstatus j = JobCanceled))"
  using sample_reachable4 sample_cancel_b
  by (intro exI [of _ sample_db4] exI [of _ sample_db5] exI [of _ "sample_owner ''b'' ''l2''"])
    (simp add: sample_db5_def final_row_def complete_row_def lease_row_def new_job_row_def new_run_row_def sample_create_def)


end
