(* ===== verification/Storage_Safety.thy ===== *)
theory Storage_Safety
  imports Lease_Safety
begin

text \<open>
  What holds of artifacts, caches and logs in every reachable state of the remote control plane, when their
  operations interleave with leasing, completion, expiry and cancellation. \<open>calm K\<close> says what a step on
  runs and jobs leaves alone: caches, logs, the source-control tables, the keys of the artifacts, the stored pipelines, and which jobs
  have passed, but for the jobs of \<open>K\<close>.
\<close>

section \<open>Steps on runs and jobs\<close>

definition calm :: "(string \<times> string) set \<Rightarrow> db \<Rightarrow> db \<Rightarrow> bool" where
  "calm K d d' \<longleftrightarrow> caches d' = caches d \<and> logs d' = logs d \<and>
     repositories d' = repositories d \<and> deliveries d' = deliveries d \<and> triggers d' = triggers d \<and> map artifact_key (artifacts d') = map artifact_key (artifacts d) \<and>
     (\<forall>j' \<in> set (jobs d'). jstatus j' = JobPassed \<longrightarrow>
        job_key j' \<in> K \<or> (\<exists>j \<in> set (jobs d). job_key j = job_key j' \<and> jstatus j = JobPassed)) \<and>
     (\<forall>r' \<in> set (runs d'). rid r' \<in> rid ` set (runs d) \<longrightarrow> (\<exists>r \<in> set (runs d). rid r = rid r' \<and> ryaml r = ryaml r')) \<and>
     rid ` set (runs d) \<subseteq> rid ` set (runs d')"

lemma calm_refl [simp]: "calm K d d"
  by (auto simp: calm_def)

lemma calm_trans:
  assumes "calm K a b" and "calm K b c"
  shows "calm K a c"
proof -
  have "\<exists>r \<in> set (runs a). rid r = rid r' \<and> ryaml r = ryaml r'" if r: "r' \<in> set (runs c)" "rid r' \<in> rid ` set (runs a)" for r'
  proof -
    have "rid r' \<in> rid ` set (runs b)" using r(2) assms(1) by (auto simp: calm_def)
    then obtain s where s: "s \<in> set (runs b)" "rid s = rid r'" "ryaml s = ryaml r'"
      using assms(2) r(1) unfolding calm_def by blast
    then obtain t where "t \<in> set (runs a)" "rid t = rid s" "ryaml t = ryaml s"
      using assms(1) r(2) unfolding calm_def by metis
    then show ?thesis using s by auto
  qed
  moreover have "job_key j' \<in> K \<or> (\<exists>j \<in> set (jobs a). job_key j = job_key j' \<and> jstatus j = JobPassed)"
    if "j' \<in> set (jobs c)" "jstatus j' = JobPassed" for j'
    using assms that unfolding calm_def by metis
  moreover have "rid ` set (runs a) \<subseteq> rid ` set (runs c)" using assms unfolding calm_def by (meson order_trans)
  ultimately show ?thesis using assms unfolding calm_def by simp
qed

lemma calm_jobs:
  assumes e: "exec_jobs P f d = Inr (n, d')"
    and f: "\<And>j. j \<in> set (jobs d) \<Longrightarrow> P j \<Longrightarrow> job_key (f j) = job_key j \<and> (jstatus (f j) = JobPassed \<longrightarrow> jstatus j = JobPassed \<or> job_key j \<in> K)"
  shows "calm K d d'"
proof -
  have d': "d' = d\<lparr> jobs := upd_where P f (jobs d) \<rparr>" using e by (simp add: exec_jobs_Inr)
  have "job_key j' \<in> K \<or> (\<exists>j \<in> set (jobs d). job_key j = job_key j' \<and> jstatus j = JobPassed)"
    if j': "j' \<in> set (upd_where P f (jobs d))" "jstatus j' = JobPassed" for j'
    using j'(1)
  proof (cases rule: in_upd_whereE)
    case (changed j0)
    then show ?thesis using f [of j0] j'(2) by metis
  qed (use j'(2) in auto)
  then show ?thesis by (auto simp: calm_def d')
qed

lemma calm_runs:
  assumes e: "exec_runs P f d = Inr (n, d')" and f: "\<And>r. rid (f r) = rid r \<and> ryaml (f r) = ryaml r"
  shows "calm K d d'"
proof -
  have d': "d' = d\<lparr> runs := upd_where P f (runs d) \<rparr>" using e by (simp add: exec_runs_Inr)
  have "\<exists>r \<in> set (runs d). rid r = rid r' \<and> ryaml r = ryaml r'" if "r' \<in> set (upd_where P f (runs d))" for r'
    using that by (cases rule: in_upd_whereE) (use f in auto)
  moreover have "rid ` set (upd_where P f (runs d)) = rid ` set (runs d)" using f by (intro upd_key_set) simp
  ultimately show ?thesis by (auto simp: calm_def d')
qed

lemma calm_runners: "exec_runners P f d = Inr (n, d') \<Longrightarrow> calm K d d'"
  by (auto simp: exec_runners_Inr calm_def)

lemma calm_artifacts:
  assumes "exec_artifacts P f d = Inr (n, d')" and "\<And>a. artifact_key (f a) = artifact_key a"
  shows "calm K d d'"
  using assms by (auto simp: exec_artifacts_Inr calm_def map_upd_where)

lemma calm_finalize:
  assumes "finalizeRun s now run d = Inr (u, d')"
  shows "calm K d d'"
proof -
  have fin: "calm K x y" if "exec_runs P (\<lambda>r. r\<lparr> rstatus := st, rfinished_at := Some now, rerror := h r \<rparr>) x = Inr (n, y)" for P st h x y n
    by (rule calm_runs [OF that]) simp
  have art: "calm K x y" if "expire_artifacts_of s run x = Inr (v, y)" for x y v
    using that calm_artifacts by (auto simp: expire_artifacts_of_def any_rows_Inr artifact_key_def)
  show ?thesis
    using assms by (auto simp: finalizeRun_def Let_def rbind_eq_Inr split: if_splits option.splits list.splits
      dest!: fin art intro: calm_trans)
qed

lemma calm_block: "blockDependents now run d = Inr (u, d') \<Longrightarrow> calm K d d'"
proof (induction now run d arbitrary: d' rule: blockDependents.induct)
  case (1 now run d)
  from "1.prems" obtain n d1 where e: "exec_jobs (blockable d run) (block_row now) d = Inr (n, d1)"
    by (subst (asm) blockDependents.simps) (auto split: sum.splits)
  have "calm K d d1" by (rule calm_jobs [OF e]) (simp add: job_key_def)
  show ?case
  proof (cases "n = 0")
    case True
    then show ?thesis using "1.prems" \<open>calm K d d1\<close> by (subst (asm) blockDependents.simps) (simp add: e)
  next
    case False
    then have "blockDependents now run d1 = Inr (u, d')"
      using "1.prems" by (subst (asm) blockDependents.simps) (simp add: e)
    then show ?thesis using "1.IH" [OF e refl False] calm_trans [OF \<open>calm K d d1\<close>] by blast
  qed
qed

lemma calm_settle: "settle_runs s now ids d = Inr (u, d') \<Longrightarrow> calm K d d'"
proof (induction ids arbitrary: d)
  case (Cons run ids)
  then obtain d1 d2 where "blockDependents now run d = Inr ((), d1)" "finalizeRun s now run d1 = Inr ((), d2)"
    "settle_runs s now ids d2 = Inr (u, d')" by (auto simp: rbind_eq_Inr)
  then show ?case using calm_block calm_finalize Cons.IH calm_trans by metis
qed simp

lemma calm_heartbeats: "heartbeat_loop runnerID now ls d = Inr (rs, d') \<Longrightarrow> calm K d d'"
proof (induction ls arbitrary: d rs)
  case (Cons l ls)
  then obtain r d1 rs' where h: "heartbeat_one runnerID now l d = Inr (r, d1)"
    "heartbeat_loop runnerID now ls d1 = Inr (rs', d')" by (auto simp: rbind_eq_Inr)
  let ?P = "owns (HbRunID l) (HbJobName l) runnerID (HbLeaseID l) (HbGeneration l) now"
  let ?f = "\<lambda>j. j\<lparr> jlease_expires := Some (now + jobLeaseTTL) \<rparr>"
  have "exec_jobs ?P ?f d = Inr (n, x) \<Longrightarrow> calm K d x" for n x by (erule calm_jobs) (simp add: job_key_def)
  then have "calm K d d1"
    using h(1) by (cases "exec_jobs ?P ?f d") (auto simp: heartbeat_one_def Let_def split: option.splits if_splits)
  then show ?case using Cons.IH [OF h(2)] calm_trans by blast
qed simp

lemma calm_abort: "exec_jobs P (abort_row at msg) d = Inr (n, d') \<Longrightarrow> calm K d d'"
  by (erule calm_jobs) (simp add: abort_row_def job_key_def)

lemma calm_expire:
  assumes "ExpireJobLeases s visit now clock d = Inr (u, d')"
  shows "calm K d d'"
proof -
  obtain n d1 d2 m where e: "exec_jobs (lease_expired clock) (abort_row clock ''job lease expired'') d = Inr (n, d1)"
    "settle_runs s now (visit (returning_runs (lease_expired clock) d)) d1 = Inr ((), d2)"
    "exec_runners (\<lambda>w. wlast_seen w < clock - jobLeaseTTL) (\<lambda>w. w\<lparr> wstatus := RunnerOffline \<rparr>) d2 = Inr (m, d')"
    using assms by (auto simp: ExpireJobLeases_def rbind_eq_Inr any_rows_Inr)
  show ?thesis by (rule calm_trans [OF calm_trans [OF calm_abort [OF e(1)] calm_settle [OF e(2)]] calm_runners [OF e(3)]])
qed

lemma calm_recover:
  assumes ok: "sched_ok d" and "RecoverRemoteJobs s visit now d = Inr (u, d')"
  shows "calm K d d'"
proof -
  have none: "\<not> legacy_run r" if "r \<in> set (runs d)" for r
    using no_legacy [OF ok] that by (auto simp: filter_empty_conv)
  have legacy: "any_rows (exec_runs legacy_run f d) = Inr ((), d)" for f
    using none upd_where_idle [of "runs d" legacy_run f] by (auto simp: any_rows_Inr exec_runs_Inr)
  obtain n d1 where e: "exec_jobs (\<lambda>j. jstatus j = JobRunning) (abort_row now ''control plane restarted during job execution'') d = Inr (n, d1)"
    "settle_runs s now (visit (returning_runs (\<lambda>j. jstatus j = JobRunning) d)) d1 = Inr (u, d')"
    using assms(2) by (auto simp: RecoverRemoteJobs_def legacy no_legacy [OF ok] rbind_eq_Inr any_rows_Inr)
  show ?thesis by (rule calm_trans [OF calm_abort [OF e(1)] calm_settle [OF e(2)]])
qed

lemma calm_cancel:
  assumes "RequestCancel s now run d = Inr (st, d')"
  shows "calm K d d'"
proof -
  obtain n d1 m d2 where e: "exec_runs (\<lambda>r. rid r = run \<and> rstatus r = RunRunning)
      (\<lambda>r. r\<lparr> rcancel_at := coalesce (rcancel_at r) now \<rparr>) d = Inr (n, d1)"
    "exec_jobs (\<lambda>j. jrun j = run \<and> jstatus j = JobPending) (cancel_row now) d1 = Inr (m, d2)"
    "finalizeRun s now run d2 = Inr ((), d')"
    using assms by (auto simp: RequestCancel_def rbind_eq_Inr any_rows_Inr split: sum.splits if_splits)
  have "calm K d d1" by (rule calm_runs [OF e(1)]) simp
  moreover have "calm K d1 d2" by (rule calm_jobs [OF e(2)]) (simp add: cancel_row_def job_key_def)
  ultimately show ?thesis using calm_finalize [OF e(3)] calm_trans by blast
qed

lemma calm_cancel_queued:
  assumes "CancelQueued now run d = Inr (u, d')"
  shows "calm K d d'"
proof -
  let ?f = "\<lambda>r. r\<lparr> rstatus := RunCanceled, rcancel_at := Some now, rfinished_at := Some now \<rparr>"
  let ?g = "\<lambda>j. j\<lparr> jstatus := JobCanceled, jfinished_at := Some now \<rparr>"
  obtain d1 m where e: "exec_runs (\<lambda>r. rid r = run \<and> rstatus r = RunQueued) ?f d = Inr (1, d1)"
    "exec_jobs (\<lambda>j. jrun j = run \<and> jstatus j = JobPending) ?g d1 = Inr (m, d')"
    using assms by (auto simp: CancelQueued_def rbind_eq_Inr one_row_Inr any_rows_Inr)
  have "calm K d d1" by (rule calm_runs [OF e(1)]) simp
  moreover have "calm K d1 d'" by (rule calm_jobs [OF e(2)]) (simp add: job_key_def)
  ultimately show ?thesis using calm_trans by blast
qed

lemma calm_lease:
  assumes "LeaseJob s locked now clock lease runnerID d = Inr (res, d')"
  shows "calm K d d'"
  using assms
proof (cases rule: LeaseJob_cases)
  case (leased w p j sn cfg job d1 x)
  have "calm K d d1" by (rule calm_jobs [OF leased(8)]) (simp add: lease_row_def job_key_def)
  moreover have "calm K d1 d'" using leased(9) calm_runs by (fastforce simp: any_rows_Inr)
  ultimately show ?thesis using calm_trans by blast
qed simp

lemma calm_complete:
  assumes "CompleteJob s now owner status message d = Inr (u, d')"
  shows "calm (if status = JobPassed then {(OwRunID owner, OwJobName owner)} else {}) d d'" (is "calm ?K d d'")
  using assms
proof (rule CompleteJob_cases)
  fix j p d1 d2
  assume e: "any_rows (exec_jobs (\<lambda>j. jrun j = OwRunID owner \<and> jname j = OwJobName owner) (complete_row now status message) d) = Inr ((), d1)"
    and b: "(if status \<noteq> JobPassed then blockDependents now (OwRunID owner) d1 else Inr ((), d1)) = Inr ((), d2)"
    and f: "finalizeRun s now (OwRunID owner) d2 = Inr ((), d')"
  obtain n where n: "exec_jobs (\<lambda>j. jrun j = OwRunID owner \<and> jname j = OwJobName owner) (complete_row now status message) d = Inr (n, d1)"
    using e by (auto simp: any_rows_Inr)
  have "calm ?K d d1" by (rule calm_jobs [OF n]) (auto simp: complete_row_def job_key_def)
  moreover have "calm ?K d1 d2" using b calm_block by (auto split: if_splits)
  ultimately show ?thesis using calm_finalize [OF f] calm_trans by blast
qed

lemma calm_create: "createRun now cr d = Inr (u, d') \<Longrightarrow> calm K d d'"
  by (erule createRun_Inr) (auto simp: calm_def)

lemma calm_register: "RegisterRunner now w d = Inr (u, d') \<Longrightarrow> calm K d d'"
  by (auto simp: RegisterRunner_def any_rows_Inr calm_runners split: if_splits) (auto simp: calm_def)

text \<open>A step is a storage step, a completion as passed, or calm.\<close>

lemma remote_step_kinds:
  assumes ok: "sched_ok d" and step: "remote_step s d d'"
  obtains (storage) "storage_step s d d'"
  | (passed) now owner message u where "CompleteJob s now owner JobPassed message d = Inr (u, d')"
      "calm {(OwRunID owner, OwJobName owner)} d d'"
  | (quiet) "calm {} d d'"
  using step
proof (cases rule: remote_step.cases)
  case (heartbeat runnerID leases now rs)
  then obtain n d1 where e: "exec_runners (\<lambda>w. wid w = runnerID) (\<lambda>w. w\<lparr> wlast_seen := now, wstatus := RunnerOnline \<rparr>) d = Inr (n, d1)"
    "heartbeat_loop runnerID now leases d1 = Inr (rs, d')"
    by (auto simp: HeartbeatJobLeases_def rbind_eq_Inr one_row_Inr)
  then show thesis using quiet calm_heartbeats calm_runners calm_trans by metis
next
  case (complete now owner status message u)
  then show thesis using calm_complete [OF complete] passed quiet by (auto split: if_splits)
qed (use ok storage quiet in \<open>blast intro: calm_create calm_register calm_lease calm_expire calm_recover calm_cancel calm_cancel_queued\<close>)+

section \<open>The tables of artifacts, caches and logs\<close>

lemma job_exists_evolves: "db_evolves d d' \<Longrightarrow> job_exists run job d \<Longrightarrow> job_exists run job d'"
  by (fastforce simp: db_evolves_def evolves_def job_exists_def list_ex_iff job_key_def)

lemma job_log_same: "logs d' = logs d \<Longrightarrow> job_log d' = job_log d"
  by (simp add: job_log_def fun_eq_iff)

lemma calm_storage_ok:
  assumes st: "storage_ok d" and c: "calm K d d'" and ev: "db_evolves d d'" and ok: "sched_ok d'"
  shows "storage_ok d'"
proof -
  have same: "caches d' = caches d" "logs d' = logs d" "map artifact_key (artifacts d') = map artifact_key (artifacts d)"
    using c by (auto simp: calm_def)
  have "caches_ok d'" using st same(1) by (simp add: storage_ok_def caches_ok_def live_rows_def)
  moreover have "logs_ok d'"
    using st same(2) job_log_same [OF same(2)] job_exists_evolves [OF ev] by (auto simp: storage_ok_def logs_ok_def)
  moreover have "\<forall>a \<in> set (artifacts d'). artifact_check a" using tables_okD(9) [OF sched_midD(1) [OF ok]] by blast
  ultimately show ?thesis using st same(3) by (simp add: storage_ok_def del: distinct_map)
qed

lemma frame_parts:
  assumes "storage_frame d d'"
  shows "runs d' = runs d" and "jobs d' = jobs d"
  using assms by (auto simp: storage_frame_def)

lemma caches_ok_same: "caches d' = caches d \<Longrightarrow> caches_ok d \<Longrightarrow> caches_ok d'"
  by (simp add: caches_ok_def live_rows_def)

lemma logs_ok_same: "logs d' = logs d \<Longrightarrow> jobs d' = jobs d \<Longrightarrow> logs_ok d \<Longrightarrow> logs_ok d'"
  by (simp add: logs_ok_def job_log_def job_exists_def)

lemma storage_step_storage_ok:
  assumes st: "storage_ok d" and step: "storage_step s d d'"
  shows "storage_ok d'"
proof -
  have parts: "caches_ok d" "logs_ok d" "distinct (map artifact_key (artifacts d))" "\<And>a. a \<in> set (artifacts d) \<Longrightarrow> artifact_check a"
    using st by (auto simp: storage_ok_def)
  have jobs: "jobs d' = jobs d" using frame_parts(2) [OF storage_step_frame [OF step]] .
  note art = storage_step_artifacts [OF parts(4) step]
  have delete: "logs (foldl (delete_blob clock) x gs) = logs x" for x gs clock
    by (induction gs arbitrary: x) (auto simp: delete_blob_def)
  have "caches_ok d' \<and> logs_ok d'"
    using step
  proof (cases rule: storage_step.cases)
    case (commit_artifacts fresh now owner items u)
    then obtain xs where "d' = d\<lparr> artifacts := xs \<rparr>" using CommitArtifacts_frame by blast
    then show ?thesis using parts by (auto intro: caches_ok_same logs_ok_same)
  next
    case (expire_cache clock maxBytes r)
    then have "logs d' = logs d"
      by (auto simp: ExpireCache_def Let_def evict_by_size_def expire_by_time_def delete split: if_splits)
    then show ?thesis using ExpireCache_ok [OF parts(1) expire_cache] logs_ok_same [OF _ jobs parts(2)] by blast
  next
    case (lookup_cache ws key clock m)
    then have "logs d' = logs d" by (auto simp: LookupCache_def Let_def split: option.splits)
    then show ?thesis using LookupCache_ok [OF parts(1) lookup_cache] logs_ok_same [OF _ jobs parts(2)] by blast
  next
    case (commit_cache ident clock m u)
    then have "logs d' = logs d" by (cases rule: CommitCache_cases) auto
    then show ?thesis using CommitCache_ok [OF parts(1) commit_cache] logs_ok_same [OF _ jobs parts(2)] by blast
  next
    case (delete_cache ws key now u)
    then have "logs d' = logs d" by (auto simp: DeleteCache_def split: if_splits)
    then show ?thesis using DeleteCache_ok [OF parts(1) delete_cache] logs_ok_same [OF _ jobs parts(2)] by blast
  next
    case (append_log clock c u)
    then have "caches d' = caches d" by (auto simp: AppendJobLog_def append_chunk_def Let_def split: if_splits option.splits)
    then show ?thesis using AppendJobLog_ok [OF parts(2) append_log] caches_ok_same parts(1) by blast
  next
    case (append_logs clock cs u)
    then have r: "logs_ok d'" "d' = d\<lparr> logs := logs d' \<rparr>" using AppendJobLogs_records [OF parts(2) append_logs] by auto
    obtain l where "d' = d\<lparr> logs := l \<rparr>" using r(2) by blast
    then show ?thesis using r(1) parts(1) caches_ok_same by fastforce
  qed (auto simp: SetArtifactExpiry_def ExpireArtifacts_def any_rows_Inr rbind_eq_Inr exec_artifacts_Inr Let_def
      intro: caches_ok_same [OF _ parts(1)] logs_ok_same [OF _ _ parts(2)])
  then show ?thesis using art parts(3) by (simp add: storage_ok_def)
qed

lemma remote_step_storage_ok:
  assumes ok: "sched_ok d" and st: "storage_ok d" and step: "remote_step s d d'"
  shows "storage_ok d'"
  using ok step
proof (cases rule: remote_step_kinds)
  case storage
  then show ?thesis using storage_step_storage_ok st by blast
qed (use calm_storage_ok [OF st _ remote_step_evolves [OF ok step] remote_step_ok [OF ok step]] in blast)+

lemma empty_storage_ok: "storage_ok empty_db"
  by (simp add: storage_ok_def empty_db_def caches_ok_def live_rows_def logs_ok_def job_log_def numbered_def)

lemma remote_reachable_storage_ok:
  assumes "remote_reachable s d"
  shows "storage_ok d"
proof -
  have "(remote_step s)\<^sup>*\<^sup>* empty_db d" using assms by (simp add: remote_reachable_def)
  then have "storage_ok d \<and> sched_ok d"
    by (induction rule: rtranclp_induct) (auto simp: empty_storage_ok empty_db_ok remote_step_ok intro: remote_step_storage_ok)
  then show ?thesis by simp
qed

section \<open>Passed jobs have committed their artifacts\<close>

definition declared_committed :: "Store \<Rightarrow> db \<Rightarrow> run_row \<Rightarrow> string \<Rightarrow> bool" where
  "declared_committed s d r job \<longleftrightarrow> (\<exists>cfg decl. parse_stored s (ryaml r) = Inr cfg \<and> map_of (Jobs cfg) job = Some decl \<and>
     UpName ` set (Upload (JobArtifacts decl)) \<subseteq> ArName ` set (artifacts_of (rid r) job d))"

definition passed_committed :: "Store \<Rightarrow> db \<Rightarrow> bool" where
  "passed_committed s d \<longleftrightarrow> (\<forall>j \<in> set (jobs d). \<forall>r \<in> set (runs d).
     jstatus j = JobPassed \<longrightarrow> jrun j = rid r \<longrightarrow> declared_committed s d r (jname j))"

lemma declared_mono:
  assumes "declared_committed s d r job" and "artifact_key ` set (artifacts d) \<subseteq> artifact_key ` set (artifacts d')"
    and "rid r' = rid r" and "ryaml r' = ryaml r"
  shows "declared_committed s d' r' job"
proof -
  have names: "ArName ` set (artifacts_of run job x) = {n. (run, job, n) \<in> artifact_key ` set (artifacts x)}" for run job x
    by (auto simp: artifacts_of_def artifact_key_def image_iff)
  obtain cfg decl where c: "parse_stored s (ryaml r) = Inr cfg" "map_of (Jobs cfg) job = Some decl"
      "UpName ` set (Upload (JobArtifacts decl)) \<subseteq> {n. (rid r, job, n) \<in> artifact_key ` set (artifacts d)}"
    using assms(1) unfolding declared_committed_def names by blast
  have "{n. (rid r, job, n) \<in> artifact_key ` set (artifacts d)} \<subseteq> {n. (rid r, job, n) \<in> artifact_key ` set (artifacts d')}"
    using assms(2) by blast
  then have "UpName ` set (Upload (JobArtifacts decl)) \<subseteq> {n. (rid r', job, n) \<in> artifact_key ` set (artifacts d')}"
    using c(3) assms(3) by auto
  then show ?thesis unfolding declared_committed_def names using c(1,2) assms(4) by auto
qed

lemma artifact_key_upd [simp]:
  "artifact_key (a\<lparr> ArExpiresAt := x \<rparr>) = artifact_key a" "artifact_key (a\<lparr> ArDeletedAt := x \<rparr>) = artifact_key a"
  by (simp_all add: artifact_key_def)

lemma storage_step_keys:
  assumes "storage_step s d d'"
  shows "artifact_key ` set (artifacts d) \<subseteq> artifact_key ` set (artifacts d')"
  using assms
proof (cases rule: storage_step.cases)
  case (commit_artifacts fresh now owner items u)
  then show ?thesis by (rule CommitArtifacts_cases) (auto dest!: insert_artifacts_Inr)
next
  case (set_expiry run at u)
  then show ?thesis by (auto simp: SetArtifactExpiry_def any_rows_Inr exec_artifacts_Inr upd_key_set)
next
  case (expire_artifacts now r)
  then show ?thesis
    by (auto simp: ExpireArtifacts_def rbind_eq_Inr exec_artifacts_Inr Let_def upd_key_set)
next
  case (expire_cache clock maxBytes r)
  have "artifacts (foldl (delete_blob clock) x gs) = artifacts x" for x gs
    by (induction gs arbitrary: x) (auto simp: delete_blob_def)
  then show ?thesis
    using expire_cache by (auto simp: ExpireCache_def Let_def evict_by_size_def expire_by_time_def split: if_splits)
next
  case (commit_cache ident clock m u)
  then show ?thesis by (cases rule: CommitCache_cases) auto
next
  case (append_logs clock cs u)
  have "append_chunks clock cs x = Inr (v, y) \<Longrightarrow> artifacts y = artifacts x" for x y v
    by (induction cs arbitrary: x) (auto simp: rbind_eq_Inr append_chunk_def Let_def split: if_splits option.splits)
  then show ?thesis using append_logs by (elim AppendJobLogs_cases) auto
qed (auto simp: LookupCache_def DeleteCache_def AppendJobLog_def append_chunk_def Let_def split: option.splits if_splits)

lemma calm_passed:
  assumes tab: "tables_ok d" "tables_ok d'" and inv: "passed_committed s d" and c: "calm K d d'"
    and new: "\<And>j r. j \<in> set (jobs d') \<Longrightarrow> r \<in> set (runs d') \<Longrightarrow> jrun j = rid r \<Longrightarrow> job_key j \<in> K \<Longrightarrow> declared_committed s d' r (jname j)"
  shows "passed_committed s d'"
  unfolding passed_committed_def
proof (intro ballI impI)
  fix j r assume j: "j \<in> set (jobs d')" "r \<in> set (runs d')" "jstatus j = JobPassed" "jrun j = rid r"
  have keys: "artifact_key ` set (artifacts d) \<subseteq> artifact_key ` set (artifacts d')"
    using c unfolding calm_def by (metis list.set_map order_refl)
  show "declared_committed s d' r (jname j)"
  proof (cases "job_key j \<in> K")
    case False
    then obtain j0 where j0: "j0 \<in> set (jobs d)" "job_key j0 = job_key j" "jstatus j0 = JobPassed"
      using c j(1,3) unfolding calm_def by blast
    then have "rid r \<in> rid ` set (runs d)" using tables_okD(4) [OF tab(1) j0(1)] j(4) by (simp add: job_key_def)
    then obtain r0 where r0: "r0 \<in> set (runs d)" "rid r0 = rid r" "ryaml r0 = ryaml r"
      using c j(2) unfolding calm_def by blast
    then have "declared_committed s d r0 (jname j)"
      using inv j0 j(4) unfolding passed_committed_def job_key_def by (metis prod.inject)
    then show ?thesis using declared_mono keys r0(2,3) by metis
  qed (use new j in blast)
qed

lemma completed_declared:
  assumes "artifactSetCommittedTx s (ryaml p) run job d = Inr True" and "rid p = run"
  shows "declared_committed s d p job"
proof -
  obtain cfg decl where c: "parse_stored s (ryaml p) = Inr cfg" "map_of (Jobs cfg) job = Some decl"
      "sort (map UpName (Upload (JobArtifacts decl))) = map ArName (sort_key (\<lambda>a. text_key s (ArName a))
        (filter (\<lambda>a. ArRunID a = run \<and> ArProducer a = job \<and> ArDeletedAt a = None) (artifacts d)))"
    using assms(1) by (auto simp: artifactSetCommittedTx_def rbind_eq_Inr Let_def split: option.splits)
  have "set (map UpName (Upload (JobArtifacts decl))) \<subseteq> ArName ` set (artifacts_of run job d)"
    using arg_cong [OF c(3), of set] by (auto simp: artifacts_of_def)
  then show ?thesis using c(1,2) assms(2) by (auto simp: declared_committed_def)
qed

lemma remote_step_passed:
  assumes ok: "sched_ok d" and inv: "passed_committed s d" and step: "remote_step s d d'"
  shows "passed_committed s d'"
proof -
  note tab = sched_midD(1) [OF ok] sched_midD(1) [OF remote_step_ok [OF ok step]]
  from ok step show ?thesis
  proof (cases rule: remote_step_kinds)
    case storage
    then show ?thesis
      using inv storage_step_keys [OF storage] frame_parts [OF storage_step_frame [OF storage]]
      by (auto simp: passed_committed_def intro: declared_mono)
  next
    case (passed now owner message u)
    show ?thesis
    proof (rule calm_passed [OF tab inv passed(2)])
      fix j r
      assume j: "r \<in> set (runs d')" "jrun j = rid r" "job_key j \<in> {(OwRunID owner, OwJobName owner)}"
      from passed(1) show "declared_committed s d' r (jname j)"
      proof (rule CompleteJob_cases)
        fix x p
        assume p: "find (\<lambda>r. rid r = OwRunID owner) (runs d) = Some p"
          "JobPassed = JobPassed \<longrightarrow> artifactSetCommittedTx s (ryaml p) (OwRunID owner) (OwJobName owner) d = Inr True"
        have pr: "p \<in> set (runs d)" "rid p = OwRunID owner" using find_SomeD [OF p(1)] by auto
        have "rid r = rid p" using j pr by (simp add: job_key_def)
        then have "rid r \<in> rid ` set (runs d)" using pr(1) by auto
        then obtain r0 where r0: "r0 \<in> set (runs d)" "rid r0 = rid r" "ryaml r0 = ryaml r"
          using passed(2) j(1) unfolding calm_def by blast
        have "r0 = p" using key_unique [OF tables_okD(1) [OF tab(1)] r0(1) pr(1)] r0(2) \<open>rid r = rid p\<close> by simp
        moreover have "artifact_key ` set (artifacts d) \<subseteq> artifact_key ` set (artifacts d')"
          using passed(2) unfolding calm_def by (metis list.set_map order_refl)
        moreover have "declared_committed s d p (OwJobName owner)" using completed_declared [OF _ pr(2)] p(2) by blast
        moreover have "jname j = OwJobName owner" using j(3) by (simp add: job_key_def)
        ultimately show ?thesis using declared_mono [of s d p "OwJobName owner" d' r] r0(2,3) by simp
      qed
    qed
  next
    case quiet
    then show ?thesis using calm_passed [OF tab inv] by blast
  qed
qed

lemma remote_reachable_passed:
  assumes "remote_reachable s d"
  shows "passed_committed s d"
proof -
  have "(remote_step s)\<^sup>*\<^sup>* empty_db d" using assms by (simp add: remote_reachable_def)
  moreover have "passed_committed s empty_db" by (simp add: passed_committed_def empty_db_def)
  ultimately have "passed_committed s d \<and> sched_ok d"
    by (induction rule: rtranclp_induct) (auto simp: empty_db_ok remote_step_ok intro: remote_step_passed)
  then show ?thesis by simp
qed

end
