(* ===== verification/Blob_Store.thy ===== *)
theory Blob_Store
  imports Artifact_Store
begin

text \<open>
  \<open>internal/artifact/store.go\<close>: the content-addressed store that artifacts, caches and (through
  \<open>internal/cache/cache.go\<close>) cache blobs share. A blob is the file below \<open>blobs/sha256\<close> named by
  its digest, with its modification time; \<open>sha\<close> is SHA-256 in lower-case hexadecimal, an argument of the
  definitions. A call either runs to its end or fails; an I/O error of the operating system at a given
  point is not modelled, a canceled or failing reader is (\<open>src\<close> is then an error).

  The lemmas show that a stored blob always hashes to its name, that what was put is what is read, that a
  second upload of a blob changes nothing, and that the collector removes no live and no young blob.
\<close>

section \<open>Operations\<close>

record Limits =
  MaxEntries :: int
  MaxPathBytes :: int
  MaxLogicalBytes :: int
  MaxArchiveBytes :: int
  MaxFileBytes :: int

definition DefaultLimits :: Limits where
  "DefaultLimits = \<lparr> MaxEntries = 100000, MaxPathBytes = 4096, MaxLogicalBytes = 2 ^ 30, MaxArchiveBytes = 512 * 2 ^ 20,
     MaxFileBytes = 2 ^ 30 \<rparr>"

definition validateLimits :: "Limits \<Rightarrow> bool" where
  "validateLimits l \<longleftrightarrow> \<not> (MaxEntries l < 1 \<or> MaxPathBytes l < 1 \<or> MaxLogicalBytes l < 1 \<or> MaxArchiveBytes l < 1 \<or> MaxFileBytes l < 1)"

record blob_store =
  limits :: Limits
  blobs :: "string \<Rightarrow> (string \<times> time) option"
  temps :: "(string \<times> time) list"

datatype blob_error = InvalidDigest | InvalidBlobMetadata | UploadFailed | SizeMismatch | DigestMismatch | Collision | NotExist

definition Open :: "Limits \<Rightarrow> blob_store option" where
  "Open l = (if validateLimits l then Some \<lparr> limits = l, blobs = (\<lambda>_. None), temps = [] \<rparr> else None)"

definition OpenBlob :: "string \<Rightarrow> blob_store \<Rightarrow> (blob_error, string) result" where
  "OpenBlob digest st =
    (if \<not> ValidDigest digest then Inl InvalidDigest
     else (case blobs st digest of None \<Rightarrow> Inl NotExist | Some (content, _) \<Rightarrow> Inr content))"

definition HasBlob :: "string \<Rightarrow> int \<Rightarrow> blob_store \<Rightarrow> bool" where
  "HasBlob digest sz st = (case OpenBlob digest st of Inl _ \<Rightarrow> False | Inr content \<Rightarrow> int (length content) = sz)"

text \<open>\<open>src\<close> is what the reader delivers: a failure or cancellation, or its bytes, of which at most one more
  than the expected size is read. Publishing is a hard link: an existing blob stays as it is.\<close>

definition Put :: "(string \<Rightarrow> string) \<Rightarrow> time \<Rightarrow> string \<Rightarrow> int \<Rightarrow> string option \<Rightarrow> blob_store \<Rightarrow> (blob_error, int \<times> blob_store) result" where
  "Put sha now expected expectedSize src st =
    (if \<not> ValidDigest expected \<or> expectedSize < 0 \<or> expectedSize > MaxArchiveBytes (limits st) then Inl InvalidBlobMetadata
     else (case src of
         None \<Rightarrow> Inl UploadFailed
       | Some bytes \<Rightarrow>
         let content = take (nat (expectedSize + 1)) bytes; n = int (length content) in
         if n \<noteq> expectedSize then Inl SizeMismatch
         else if sha content \<noteq> expected then Inl DigestMismatch
         else
           let st' = (case blobs st expected of
                 Some _ \<Rightarrow> st | None \<Rightarrow> st\<lparr> blobs := (blobs st)(expected := Some (content, now)) \<rparr>) in
           (case blobs st' expected of
              None \<Rightarrow> Inl NotExist
            | Some (stored, _) \<Rightarrow>
              if int (length stored) \<noteq> expectedSize \<or> sha stored \<noteq> expected then Inl Collision else Inr (n, st'))))"

definition RemoveBlob :: "string \<Rightarrow> blob_store \<Rightarrow> (blob_error, blob_store) result" where
  "RemoveBlob digest st =
    (if \<not> ValidDigest digest then Inl InvalidDigest else Inr (st\<lparr> blobs := (blobs st)(digest := None) \<rparr>))"

definition CleanupTemps :: "time \<Rightarrow> duration \<Rightarrow> blob_store \<Rightarrow> blob_store" where
  "CleanupTemps now grace st = st\<lparr> temps := filter (\<lambda>(_, modified). \<not> modified < now - grace) (temps st) \<rparr>"

definition CleanupOrphans :: "time \<Rightarrow> duration \<Rightarrow> string set \<Rightarrow> blob_store \<Rightarrow> blob_store" where
  "CleanupOrphans now grace live st = st\<lparr> blobs := (\<lambda>digest.
     case blobs st digest of
       None \<Rightarrow> None
     | Some (content, modified) \<Rightarrow>
       if \<not> ValidDigest digest \<or> digest \<in> live \<or> modified > now - grace then Some (content, modified) else None) \<rparr>"

section \<open>Integrity\<close>

definition intact :: "(string \<Rightarrow> string) \<Rightarrow> blob_store \<Rightarrow> bool" where
  "intact sha st \<longleftrightarrow> (\<forall>digest content modified. blobs st digest = Some (content, modified) \<longrightarrow>
     sha content = digest \<and> ValidDigest digest \<and> int (length content) \<le> MaxArchiveBytes (limits st))"

lemma Open_intact: "Open l = Some st \<Longrightarrow> intact sha st"
  by (auto simp: Open_def intact_def split: if_splits)

lemma Put_cases:
  assumes "Put sha now expected sz src st = Inr (n, st')"
  obtains content where "ValidDigest expected" "n = sz" "int (length content) = sz" "sz \<le> MaxArchiveBytes (limits st)"
    "sha content = expected" "src = Some content"
    "blobs st expected = None \<and> st' = st\<lparr> blobs := (blobs st)(expected := Some (content, now)) \<rparr> \<or>
     (\<exists>stored t. blobs st expected = Some (stored, t) \<and> sha stored = expected \<and> int (length stored) = sz \<and> st' = st)"
proof -
  from assms obtain bytes where b: "src = Some bytes" "\<not> (\<not> ValidDigest expected \<or> sz < 0 \<or> sz > MaxArchiveBytes (limits st))"
    by (auto simp: Put_def split: if_splits option.splits)
  let ?c = "take (nat (sz + 1)) bytes"
  have c: "int (length ?c) = sz" "sha ?c = expected" "n = sz"
    and or: "blobs st expected = None \<and> st' = st\<lparr> blobs := (blobs st)(expected := Some (?c, now)) \<rparr> \<or>
     (\<exists>stored t. blobs st expected = Some (stored, t) \<and> sha stored = expected \<and> int (length stored) = sz \<and> st' = st)"
    using assms b by (auto simp: Put_def Let_def split: if_splits option.splits)
  have "length bytes < nat (sz + 1)"
  proof (rule ccontr)
    assume "\<not> ?thesis"
    then have "length ?c = nat (sz + 1)" by simp
    then show False using c(1) by linarith
  qed
  then have "?c = bytes" by simp
  then show thesis using that [of bytes] b c or by simp
qed

lemma Put_intact: "intact sha st \<Longrightarrow> Put sha now expected sz src st = Inr (n, st') \<Longrightarrow> intact sha st'"
  by (erule Put_cases) (auto simp: intact_def split: if_splits, blast)

lemma RemoveBlob_intact: "intact sha st \<Longrightarrow> RemoveBlob digest st = Inr st' \<Longrightarrow> intact sha st'"
  by (auto simp: intact_def RemoveBlob_def split: if_splits) blast

lemma CleanupOrphans_intact: "intact sha st \<Longrightarrow> intact sha (CleanupOrphans now grace live st)"
  by (auto simp: intact_def CleanupOrphans_def split: option.splits if_splits)

section \<open>Reading back\<close>

lemma Put_OpenBlob:
  assumes "Put sha now expected sz src st = Inr (n, st')"
  shows "\<exists>stored. OpenBlob expected st' = Inr stored \<and> sha stored = expected \<and> int (length stored) = sz \<and> HasBlob expected sz st'"
  using assms by (rule Put_cases) (auto simp: OpenBlob_def HasBlob_def split: option.splits)

lemma Put_keeps:
  assumes "Put sha now expected sz src st = Inr (n, st')" and "OpenBlob digest st = Inr content"
  shows "OpenBlob digest st' = Inr content"
  using assms(1) by (rule Put_cases) (use assms(2) in \<open>auto simp: OpenBlob_def split: if_splits option.splits\<close>)

lemma Put_again:
  assumes "Put sha now expected sz src st = Inr (n, st')"
  shows "Put sha now' expected sz src st' = Inr (n, st')"
  using assms by (rule Put_cases) (auto simp: Put_def Let_def)

lemma CleanupOrphans_keeps:
  assumes "blobs st digest = Some (content, modified)" and "digest \<in> live \<or> modified > now - grace"
  shows "blobs (CleanupOrphans now grace live st) digest = Some (content, modified)"
  using assms by (auto simp: CleanupOrphans_def)

end
