(* ===== verification/Log_Writer.thy ===== *)
theory Log_Writer
  imports Log_Store
begin

text \<open>
  \<open>internal/joblog\<close>: the writer that cuts the output of a job into chunks and appends them to the
  durable log (\<open>writer.go\<close>), and the session that copies what was stored to the terminal
  (\<open>session.go\<close>). The writer is code over an interface, \<open>store.JobLogStore\<close>; its
  correctness is proved once in the locale \<open>numbered_log\<close>, whose laws are what the writer needs of
  \<open>AppendJobLog\<close>, and the locale is interpreted on the PostgreSQL store. A store call returns an
  error and no new state, or a new state. \<open>ctxErr offset\<close> is what \<open>ctx.Err()\<close> returns when
  the loop polls it at \<open>offset\<close>.
\<close>

section \<open>Writer\<close>

definition MaxChunk :: nat where "MaxChunk = 65536"

record 'e Writer =
  wRunID :: string
  wJobName :: string
  wSequence :: int
  wFirstErr :: "'e option"

definition New :: "string \<Rightarrow> string \<Rightarrow> 'e Writer" where
  "New runID jobName = \<lparr> wRunID = runID, wJobName = jobName, wSequence = 0, wFirstErr = None \<rparr>"

definition next_chunk :: "'e Writer \<Rightarrow> string \<Rightarrow> string \<Rightarrow> JobLogChunk" where
  "next_chunk w stream payload = \<lparr> LgRunID = wRunID w, LgJobName = wJobName w, LgSequence = wSequence w + 1,
     LgStream = stream, LgCreatedAt = 0, LgPayload = payload \<rparr>"

function write_loop :: "(JobLogChunk \<Rightarrow> 'st \<Rightarrow> ('e, 'st) result) \<Rightarrow> (nat \<Rightarrow> 'e option) \<Rightarrow> string \<Rightarrow> string \<Rightarrow> nat
    \<Rightarrow> 'e Writer \<Rightarrow> 'st \<Rightarrow> (nat \<times> 'e option) \<times> 'e Writer \<times> 'st" where
  "write_loop put ctxErr stream p offset w st =
    (if offset < length p then
       (case ctxErr offset of
          Some e \<Rightarrow> ((offset, Some e), w, st)
        | None \<Rightarrow>
          let n = min (length p - offset) MaxChunk in
          (case put (next_chunk w stream (take n (drop offset p))) st of
             Inl e \<Rightarrow> ((offset, Some e), w\<lparr> wFirstErr := Some e \<rparr>, st)
           | Inr st' \<Rightarrow> write_loop put ctxErr stream p (offset + n) (w\<lparr> wSequence := wSequence w + 1 \<rparr>) st'))
     else ((length p, None), w, st))"
  by pat_completeness auto
termination
  by (relation "measure (\<lambda>(put, ctxErr, stream, p, offset, w, st). length p - offset)")
    (auto simp: MaxChunk_def)

declare write_loop.simps [simp del]

definition Write :: "(JobLogChunk \<Rightarrow> 'st \<Rightarrow> ('e, 'st) result) \<Rightarrow> (nat \<Rightarrow> 'e option) \<Rightarrow> string \<Rightarrow> string
    \<Rightarrow> 'e Writer \<Rightarrow> 'st \<Rightarrow> (nat \<times> 'e option) \<times> 'e Writer \<times> 'st" where
  "Write put ctxErr stream p w st =
    (if p = [] then ((0, None), w, st)
     else (case wFirstErr w of
         Some e \<Rightarrow> ((0, Some e), w, st)
       | None \<Rightarrow> write_loop put ctxErr stream p 0 w st))"

definition Err :: "'e Writer \<Rightarrow> 'e option" where
  "Err w = wFirstErr w"

section \<open>Session\<close>

text \<open>\<open>tee.Write\<close>: the destination receives what the store accepted.\<close>

definition tee_write :: "('w \<Rightarrow> (nat \<times> 'e option) \<times> 'w) \<Rightarrow> string \<Rightarrow> (string \<Rightarrow> 'o \<Rightarrow> (nat \<times> 'e option) \<times> 'o) option
    \<Rightarrow> 'w \<Rightarrow> 'o \<Rightarrow> (nat \<times> 'e option) \<times> 'w \<times> 'o" where
  "tee_write w p dst ws os =
    (case w ws of ((n, err), ws') \<Rightarrow>
       (case err of
          Some e \<Rightarrow> ((n, Some e), ws', os)
        | None \<Rightarrow> (case dst of
            None \<Rightarrow> ((n, None), ws', os)
          | Some d \<Rightarrow> (case d (take n p) os of (r, os') \<Rightarrow> (r, ws', os')))))"

section \<open>What a writer needs of the log store\<close>

definition stream_text :: "string \<Rightarrow> JobLogChunk list \<Rightarrow> string" where
  "stream_text stream rows = concat (map LgPayload (filter (\<lambda>c. LgStream c = stream) rows))"

lemma stream_text_append [simp]: "stream_text stream (xs @ ys) = stream_text stream xs @ stream_text stream ys"
  by (simp add: stream_text_def)

lemma stream_text_of:
  assumes "\<And>c. c \<in> set cs \<Longrightarrow> LgStream c = stream"
  shows "stream_text s cs = (if s = stream then concat (map LgPayload cs) else [])"
  using assms by (induction cs) (auto simp: stream_text_def)

locale numbered_log =
  fixes put :: "JobLogChunk \<Rightarrow> 'st \<Rightarrow> ('e, 'st) result"
    and log_of :: "'st \<Rightarrow> JobLogChunk list"
    and inv :: "'st \<Rightarrow> bool"
    and known :: "'st \<Rightarrow> bool"
    and run :: string
    and job :: string
  assumes append_inv: "inv st \<Longrightarrow> put c st = Inr st' \<Longrightarrow> inv st' \<and> (known st \<longrightarrow> known st')"
    and append_next: "inv st \<Longrightarrow> LgRunID c = run \<Longrightarrow> LgJobName c = job \<Longrightarrow> LgSequence c = int (length (log_of st)) + 1 \<Longrightarrow>
      put c st = Inr st' \<Longrightarrow> \<exists>c'. same_chunk c' c \<and> log_of st' = log_of st @ [c']"
    and append_accepts: "inv st \<Longrightarrow> known st \<Longrightarrow> valid_chunk c \<Longrightarrow> LgRunID c = run \<Longrightarrow> LgJobName c = job \<Longrightarrow>
      LgSequence c = int (length (log_of st)) + 1 \<Longrightarrow> \<exists>st'. put c st = Inr st'"
begin

definition follows :: "'x Writer \<Rightarrow> 'st \<Rightarrow> bool" where
  "follows w st \<longleftrightarrow> wRunID w = run \<and> wJobName w = job \<and> wSequence w = int (length (log_of st))"

lemma next_chunk_sel [simp]:
  "LgRunID (next_chunk w stream p) = wRunID w" "LgJobName (next_chunk w stream p) = wJobName w"
  "LgSequence (next_chunk w stream p) = wSequence w + 1" "LgStream (next_chunk w stream p) = stream"
  "LgPayload (next_chunk w stream p) = p"
  by (simp_all add: next_chunk_def)

lemma append_chunk_of_writer:
  assumes "inv st" and "follows w st" and "put (next_chunk w stream q) st = Inr st'"
  obtains c where "log_of st' = log_of st @ [c]" and "LgStream c = stream" and "LgPayload c = q"
    and "inv st'" and "follows (w\<lparr> wSequence := wSequence w + 1 \<rparr>) st'"
proof -
  obtain c where c: "same_chunk c (next_chunk w stream q)" "log_of st' = log_of st @ [c]"
    using append_next [OF assms(1) _ _ _ assms(3)] assms(2) by (auto simp: follows_def)
  then show thesis
    using that [of c] append_inv [OF assms(1,3)] assms(2) by (simp add: same_chunk_def follows_def)
qed

lemma write_loop_spec:
  assumes "inv st" and "follows w st" and "offset \<le> length p"
    and "write_loop put ctxErr stream p offset w st = ((n, e), w', st')"
  shows "inv st' \<and> follows w' st' \<and> offset \<le> n \<and> n \<le> length p \<and> (e = None \<longleftrightarrow> n = length p) \<and>
    (\<exists>cs. log_of st' = log_of st @ cs \<and> (\<forall>c \<in> set cs. LgStream c = stream) \<and>
       concat (map LgPayload cs) = take (n - offset) (drop offset p))"
  using assms
proof (induction "length p - offset" arbitrary: offset w st rule: less_induct)
  case less
  let ?k = "min (length p - offset) MaxChunk"
  let ?c = "next_chunk w stream (take ?k (drop offset p))"
  show ?case
  proof (cases "offset < length p \<and> ctxErr offset = None")
    case False
    then show ?thesis
      using less.prems by (subst (asm) write_loop.simps) (auto split: if_splits option.splits dest: sym [of "Some _"])
  next
    case go: True
    show ?thesis
    proof (cases "put ?c st")
      case (Inl err)
      then have "write_loop put ctxErr stream p offset w st = ((offset, Some err), w\<lparr> wFirstErr := Some err \<rparr>, st)"
        using go by (subst write_loop.simps) (simp add: Let_def)
      then show ?thesis using less.prems go by (auto simp: follows_def)
    next
      case (Inr st1)
      let ?w = "w\<lparr> wSequence := wSequence w + 1 \<rparr>"
      have step: "write_loop put ctxErr stream p offset w st = write_loop put ctxErr stream p (offset + ?k) ?w st1"
        using go Inr by (subst write_loop.simps) (simp add: Let_def)
      obtain c where c: "log_of st1 = log_of st @ [c]" "LgStream c = stream" "LgPayload c = take ?k (drop offset p)"
          "inv st1" "follows ?w st1"
        by (rule append_chunk_of_writer [OF less.prems(1,2) Inr])
      have k: "0 < ?k" "offset + ?k \<le> length p" using go by (auto simp: MaxChunk_def)
      have IH: "inv st' \<and> follows w' st' \<and> offset + ?k \<le> n \<and> n \<le> length p \<and> (e = None \<longleftrightarrow> n = length p) \<and>
          (\<exists>cs. log_of st' = log_of st1 @ cs \<and> (\<forall>c \<in> set cs. LgStream c = stream) \<and>
             concat (map LgPayload cs) = take (n - (offset + ?k)) (drop (offset + ?k) p))"
      proof (rule less.hyps [OF _ c(4,5)])
        show "length p - (offset + ?k) < length p - offset" using k go by linarith
        show "write_loop put ctxErr stream p (offset + ?k) ?w st1 = ((n, e), w', st')" using less.prems(4) by (simp only: step)
      qed (rule k(2))
      then obtain cs where cs: "log_of st' = log_of st1 @ cs" "\<forall>c \<in> set cs. LgStream c = stream"
          "concat (map LgPayload cs) = take (n - (offset + ?k)) (drop (offset + ?k) p)" by blast
      have "take ?k (drop offset p) @ take (n - (offset + ?k)) (drop (offset + ?k) p) = take (n - offset) (drop offset p)"
      proof -
        have "n - offset = ?k + (n - (offset + ?k))" using IH by simp
        then show ?thesis by (metis add.commute drop_drop take_add)
      qed
      then have "concat (map LgPayload (c # cs)) = take (n - offset) (drop offset p)" using cs(3) c(3) by simp
      moreover have "log_of st' = log_of st @ (c # cs)" using cs(1) c(1) by simp
      moreover have "\<forall>x \<in> set (c # cs). LgStream x = stream" using cs(2) c(2) by simp
      ultimately show ?thesis using IH k by (metis add_leD1)
    qed
  qed
qed

text \<open>The bytes a write reports as written are exactly the bytes added to its stream of the durable log.\<close>

lemma Write_records:
  assumes "inv st" and "follows w st" and "Write put ctxErr stream p w st = ((n, e), w', st')"
  shows "inv st' \<and> follows w' st' \<and> n \<le> length p \<and> (e = None \<longleftrightarrow> n = length p \<and> (p = [] \<or> wFirstErr w = None)) \<and>
    stream_text stream (log_of st') = stream_text stream (log_of st) @ take n p \<and>
    (s \<noteq> stream \<longrightarrow> stream_text s (log_of st') = stream_text s (log_of st))"
proof (cases "p = [] \<or> wFirstErr w \<noteq> None")
  case True
  then show ?thesis using assms by (auto simp: Write_def split: if_splits option.splits dest: sym [of "Some _"])
next
  case False
  then have l: "write_loop put ctxErr stream p 0 w st = ((n, e), w', st')" using assms(3) by (auto simp: Write_def)
  from write_loop_spec [OF assms(1,2) _ l] obtain cs where cs: "inv st'" "follows w' st'" "n \<le> length p"
      "e = None \<longleftrightarrow> n = length p" "log_of st' = log_of st @ cs" "\<forall>c \<in> set cs. LgStream c = stream"
      "concat (map LgPayload cs) = take n p" by auto
  have "stream_text s cs = (if s = stream then take n p else [])" for s
    using stream_text_of [of cs stream s] cs(6,7) by simp
  then show ?thesis using cs False by simp
qed

text \<open>On a known job, without cancellation, every write of a legal stream succeeds.\<close>

lemma write_loop_total:
  assumes "inv st" and "follows w st" and "known st" and "run \<noteq> []" and "job \<noteq> []" and "stream = ''stdout'' \<or> stream = ''stderr''"
    and "\<And>i. ctxErr i = None"
  shows "\<exists>w' st'. write_loop put ctxErr stream p offset w st = ((length p, None), w', st')"
  using assms
proof (induction "length p - offset" arbitrary: offset w st rule: less_induct)
  case less
  let ?k = "min (length p - offset) MaxChunk"
  let ?c = "next_chunk w stream (take ?k (drop offset p))"
  show ?case
  proof (cases "offset < length p")
    case True
    then have "valid_chunk ?c"
      using less.prems by (auto simp: valid_chunk_def follows_def MaxChunk_def maxJobLogChunk_def)
    then obtain st1 where st1: "put ?c st = Inr st1"
      using append_accepts [OF less.prems(1,3), of ?c] less.prems(2) by (auto simp: follows_def)
    obtain c where c: "inv st1" "follows (w\<lparr> wSequence := wSequence w + 1 \<rparr>) st1"
      by (rule append_chunk_of_writer [OF less.prems(1,2) st1])
    have "known st1" using append_inv [OF less.prems(1) st1] less.prems(3) by simp
    then have "\<exists>w' st'. write_loop put ctxErr stream p (offset + ?k) (w\<lparr> wSequence := wSequence w + 1 \<rparr>) st1 = ((length p, None), w', st')"
      using True c less.prems by (intro less.hyps) (auto simp: MaxChunk_def)
    then show ?thesis using True st1 less.prems(7) by (subst write_loop.simps) (simp add: Let_def)
  qed (subst write_loop.simps, simp)
qed

end

section \<open>The PostgreSQL store keeps the contract\<close>

definition pg_append :: "(JobLogChunk \<Rightarrow> time) \<Rightarrow> JobLogChunk \<Rightarrow> db \<Rightarrow> (store_error, db) result" where
  "pg_append clock c d = (case AppendJobLog (clock c) c d of Inl e \<Rightarrow> Inl e | Inr (_, d') \<Rightarrow> Inr d')"

lemma pg_append_Inr: "pg_append clock c d = Inr d' \<longleftrightarrow> AppendJobLog (clock c) c d = Inr ((), d')"
  by (auto simp: pg_append_def split: sum.splits)

interpretation pg_log: numbered_log "pg_append clock" "\<lambda>d. job_log d run job" logs_ok "job_exists run job" run job
  for clock run job
proof
  fix st st' c
  assume ok: "logs_ok st" and a: "pg_append clock c st = Inr st'"
  then have v: "valid_chunk c" "job_exists (LgRunID c) (LgJobName c) st" "append_chunk (clock c) c st = Inr ((), st')"
    by (auto simp: pg_append_Inr AppendJobLog_def split: if_splits)
  show "logs_ok st' \<and> (job_exists run job st \<longrightarrow> job_exists run job st')"
    using append_chunk_ok [OF ok v] by (simp add: job_exists_def)
  assume c: "LgRunID c = run" "LgJobName c = job" "LgSequence c = int (length (job_log st run job)) + 1"
  have q: "LgSequence c \<ge> 1" using v(1) by (auto simp: valid_chunk_def)
  from ok q v(3) show "\<exists>c'. same_chunk c' c \<and> job_log st' run job = job_log st run job @ [c']"
  proof (cases rule: append_chunk_cases)
    case appended
    then show ?thesis using c by (auto simp: job_log_append intro: stamped_sel)
  qed (use c in simp)
next
  fix st c
  assume ok: "logs_ok st" and k: "job_exists run job st" and v: "valid_chunk c" and c: "LgRunID c = run" "LgJobName c = job"
    "LgSequence c = int (length (job_log st run job)) + 1"
  have "numbered (job_log st (LgRunID c) (LgJobName c))" "LgSequence c \<ge> 1" using ok c by (auto simp: logs_ok_def)
  then show "\<exists>st'. pg_append clock c st = Inr st'"
    using k v c by (simp add: pg_append_def AppendJobLog_def append_chunk_eq)
qed

end
