(* ===== verification/Log_Queue.thy ===== *)
theory Log_Queue
  imports Log_Writer
begin

text \<open>
  \<open>internal/runner/log_queue.go\<close>: the bounded queue between the output of a remote job and the
  upload to the server, and the writer in front of it (\<open>remoteLogWriter\<close> of
  \<open>cmd/forge-runner/main.go\<close>). Each critical section of the mutex is one definition; where the code
  waits on \<open>notify\<close> the definition answers that it would block, and the waiting loop is a sequence
  of such attempts.

  The lemmas show that the queue is a FIFO of consecutively numbered chunks that never holds more than
  \<open>MaxPendingLogBytes\<close>, that a non-empty queue always yields a non-empty batch within the limits of the
  protocol, and that an empty queue always has room: neither side can block the other for ever.
\<close>

section \<open>State\<close>

definition MaxPendingLogBytes :: nat where "MaxPendingLogBytes = 1048576"
definition MaxLogChunkBytes :: nat where "MaxLogChunkBytes = 65536"
definition MaxLogChunksPerRequest :: nat where "MaxLogChunksPerRequest = 8"
definition MaxLogAppendBodyBytes :: nat where "MaxLogAppendBodyBytes = 1048576"

record PendingLogChunk =
  PcSequence :: int
  PcStream :: string
  PcPayload :: string

record 'e PendingLogQueue =
  qchunks :: "PendingLogChunk list"
  qpending :: int
  qnext :: int
  qclosed :: bool
  qfailure :: "'e option"

definition NewPendingLogQueue :: "'e PendingLogQueue" where
  "NewPendingLogQueue = \<lparr> qchunks = [], qpending = 0, qnext = 0, qclosed = False, qfailure = None \<rparr>"

datatype 'e queue_error = InvalidChunk | QueueClosed | InvalidAck | QueueFailure 'e

datatype ('e, 'a) attempt = Got 'a | Refused "'e queue_error" | Blocks

section \<open>Operations\<close>

definition Enqueue :: "string \<Rightarrow> string \<Rightarrow> 'e PendingLogQueue \<Rightarrow> ('e, int \<times> 'e PendingLogQueue) attempt" where
  "Enqueue stream payload q =
    (if (stream \<noteq> ''stdout'' \<and> stream \<noteq> ''stderr'') \<or> length payload = 0 \<or> length payload > MaxLogChunkBytes
     then Refused InvalidChunk
     else (case qfailure q of
         Some e \<Rightarrow> Refused (QueueFailure e)
       | None \<Rightarrow>
         if qclosed q then Refused QueueClosed
         else if qpending q + int (length payload) \<le> int MaxPendingLogBytes then
           let sequence = qnext q + 1 in
           Got (sequence, q\<lparr> qnext := sequence,
             qchunks := qchunks q @ [\<lparr> PcSequence = sequence, PcStream = stream, PcPayload = payload \<rparr>],
             qpending := qpending q + int (length payload) \<rparr>)
         else Blocks))"

definition encoded_size :: "PendingLogChunk \<Rightarrow> nat" where
  "encoded_size c = 4 * ((length (PcPayload c) + 2) div 3) + 192"

fun peek_loop :: "nat \<Rightarrow> nat \<Rightarrow> nat \<Rightarrow> nat \<Rightarrow> PendingLogChunk list \<Rightarrow> PendingLogChunk list" where
  "peek_loop maxChunks maxBody used n [] = []"
| "peek_loop maxChunks maxBody used n (c # cs) =
    (if n = maxChunks then []
     else if used + encoded_size c > maxBody then []
     else c # peek_loop maxChunks maxBody (used + encoded_size c) (Suc n) cs)"

definition PeekBatch :: "nat \<Rightarrow> nat \<Rightarrow> 'e PendingLogQueue \<Rightarrow> PendingLogChunk list" where
  "PeekBatch maxChunks maxBodyBytes q =
    peek_loop (min maxChunks MaxLogChunksPerRequest) (min maxBodyBytes MaxLogAppendBodyBytes) 512 0 (qchunks q)"

definition WaitBatch :: "nat \<Rightarrow> nat \<Rightarrow> 'e PendingLogQueue \<Rightarrow> ('e, PendingLogChunk list) attempt" where
  "WaitBatch maxChunks maxBodyBytes q =
    (let batch = PeekBatch maxChunks maxBodyBytes q in
     if batch \<noteq> [] then Got batch
     else (case qfailure q of
         Some e \<Rightarrow> Refused (QueueFailure e)
       | None \<Rightarrow> if qclosed q then Refused QueueClosed else Blocks))"

definition Ack :: "int \<Rightarrow> 'e PendingLogQueue \<Rightarrow> ('e queue_error, 'e PendingLogQueue) result" where
  "Ack count q =
    (if count < 0 \<or> count > int (length (qchunks q)) then Inl InvalidAck
     else Inr (q\<lparr> qpending := qpending q - int (sum_list (map (\<lambda>c. length (PcPayload c)) (take (nat count) (qchunks q)))),
       qchunks := drop (nat count) (qchunks q) \<rparr>))"

definition Fail :: "'e option \<Rightarrow> 'e PendingLogQueue \<Rightarrow> 'e PendingLogQueue" where
  "Fail err q = (case err of None \<Rightarrow> q | Some e \<Rightarrow> if qfailure q = None then q\<lparr> qfailure := Some e \<rparr> else q)"

definition Close :: "'e PendingLogQueue \<Rightarrow> 'e PendingLogQueue" where
  "Close q = (if qclosed q then q else q\<lparr> qclosed := True \<rparr>)"

definition PendingBytes :: "'e PendingLogQueue \<Rightarrow> int" where
  "PendingBytes q = qpending q"

definition WaitForPending :: "int \<Rightarrow> 'e PendingLogQueue \<Rightarrow> ('e, unit) attempt" where
  "WaitForPending target q = (if qpending q \<ge> target then Got () else Blocks)"

section \<open>Invariant\<close>

definition chunk_ok :: "PendingLogChunk \<Rightarrow> bool" where
  "chunk_ok c \<longleftrightarrow> (PcStream c = ''stdout'' \<or> PcStream c = ''stderr'') \<and> 0 < length (PcPayload c) \<and> length (PcPayload c) \<le> MaxLogChunkBytes"

text \<open>\<open>consecutive n cs\<close>: the chunks carry the numbers \<open>n + 1\<close>, \<open>n + 2\<close>, ...\<close>

definition consecutive :: "int \<Rightarrow> PendingLogChunk list \<Rightarrow> bool" where
  "consecutive n cs \<longleftrightarrow> map PcSequence cs = map (\<lambda>i. n + int i + 1) [0..<length cs]"

definition queue_ok :: "'e PendingLogQueue \<Rightarrow> bool" where
  "queue_ok q \<longleftrightarrow> consecutive (qnext q - int (length (qchunks q))) (qchunks q) \<and> (\<forall>c \<in> set (qchunks q). chunk_ok c) \<and>
     qpending q = int (sum_list (map (\<lambda>c. length (PcPayload c)) (qchunks q))) \<and> qpending q \<le> int MaxPendingLogBytes"

lemma consecutive_nth: "consecutive n cs \<longleftrightarrow> (\<forall>i < length cs. PcSequence (cs ! i) = n + int i + 1)"
  unfolding consecutive_def list_eq_iff_nth_eq by simp

lemma consecutive_append: "consecutive n (as @ bs) \<longleftrightarrow> consecutive n as \<and> consecutive (n + int (length as)) bs"
proof
  assume c: "consecutive n (as @ bs)"
  have "PcSequence (as ! i) = n + int i + 1" if "i < length as" for i
    using c that unfolding consecutive_nth by (metis length_append nth_append trans_less_add1)
  moreover have "PcSequence (bs ! i) = n + int (length as) + int i + 1" if "i < length bs" for i
    using c that unfolding consecutive_nth
    by (metis (no_types, lifting) add.assoc length_append nat_add_left_cancel_less nth_append_length_plus of_nat_add)
  ultimately show "consecutive n as \<and> consecutive (n + int (length as)) bs" by (simp add: consecutive_nth)
next
  assume "consecutive n as \<and> consecutive (n + int (length as)) bs"
  then show "consecutive n (as @ bs)" by (auto simp: consecutive_nth nth_append)
qed

lemma NewPendingLogQueue_ok: "queue_ok NewPendingLogQueue"
  by (simp add: queue_ok_def NewPendingLogQueue_def consecutive_def)

lemma Enqueue_Got:
  "Enqueue stream payload q = Got (n, q') \<longleftrightarrow> (let c = \<lparr> PcSequence = qnext q + 1, PcStream = stream, PcPayload = payload \<rparr> in
     chunk_ok c \<and> qfailure q = None \<and> \<not> qclosed q \<and> qpending q + int (length payload) \<le> int MaxPendingLogBytes \<and> n = qnext q + 1 \<and>
     q' = q\<lparr> qnext := n, qchunks := qchunks q @ [c], qpending := qpending q + int (length payload) \<rparr>)"
  by (auto simp: Enqueue_def chunk_ok_def Let_def split: option.splits)

lemma Enqueue_ok: "queue_ok q \<Longrightarrow> Enqueue stream payload q = Got (n, q') \<Longrightarrow> queue_ok q'"
  by (auto simp: queue_ok_def Enqueue_Got Let_def consecutive_append) (simp add: consecutive_def)

lemma Ack_ok:
  assumes "queue_ok q" and "Ack count q = Inr q'"
  shows "queue_ok q'"
proof -
  let ?n = "nat count"
  have n: "?n \<le> length (qchunks q)"
    and q': "q' = q\<lparr> qpending := qpending q - int (sum_list (map (\<lambda>c. length (PcPayload c)) (take ?n (qchunks q)))), qchunks := drop ?n (qchunks q) \<rparr>"
    using assms(2) by (auto simp: Ack_def split: if_splits)
  have split: "qchunks q = take ?n (qchunks q) @ drop ?n (qchunks q)" by simp
  have "consecutive (qnext q - int (length (qchunks q)) + int ?n) (drop ?n (qchunks q))"
    using assms(1) n unfolding queue_ok_def by (metis consecutive_append split length_take min.absorb2)
  moreover have "sum_list (map (\<lambda>c. length (PcPayload c)) (qchunks q)) =
      sum_list (map (\<lambda>c. length (PcPayload c)) (take ?n (qchunks q))) + sum_list (map (\<lambda>c. length (PcPayload c)) (drop ?n (qchunks q)))"
    by (metis split map_append sum_list_append)
  ultimately show ?thesis
    using assms(1) n by (auto simp: queue_ok_def q' of_nat_diff algebra_simps dest: in_set_dropD)
qed

lemma Fail_ok: "queue_ok q \<Longrightarrow> queue_ok (Fail e q)"
  and Close_ok: "queue_ok q \<Longrightarrow> queue_ok (Close q)"
  by (auto simp: queue_ok_def Fail_def Close_def split: option.splits)

lemma Close_sel [simp]: "qchunks (Close q) = qchunks q" "qnext (Close q) = qnext q" "qfailure (Close q) = qfailure q" "qclosed (Close q)"
  by (simp_all add: Close_def)

section \<open>Progress\<close>

lemma peek_loop_prefix: "prefix (peek_loop maxChunks maxBody used n cs) cs"
  by (induction cs arbitrary: used n) auto

lemma PeekBatch_prefix: "prefix (PeekBatch m b q) (qchunks q)"
  by (simp add: PeekBatch_def peek_loop_prefix)

lemma peek_loop_limits:
  assumes "n \<le> maxChunks" and "used \<le> maxBody"
  shows "n + length (peek_loop maxChunks maxBody used n cs) \<le> maxChunks \<and>
    used + sum_list (map encoded_size (peek_loop maxChunks maxBody used n cs)) \<le> maxBody"
  using assms
proof (induction cs arbitrary: used n)
  case (Cons c cs)
  show ?case
  proof (cases "n = maxChunks \<or> used + encoded_size c > maxBody")
    case False
    then show ?thesis using Cons.IH [of "Suc n" "used + encoded_size c"] Cons.prems by auto
  qed (use Cons.prems in auto)
qed simp

lemma encoded_size_bound: "chunk_ok c \<Longrightarrow> encoded_size c \<le> 87576"
proof -
  assume "chunk_ok c"
  then have "(length (PcPayload c) + 2) div 3 \<le> 65538 div 3" by (intro div_le_mono) (simp add: chunk_ok_def MaxLogChunkBytes_def)
  then show ?thesis by (simp add: encoded_size_def)
qed

text \<open>With the limits of the protocol the body limit never cuts a batch short: it is the next eight chunks.\<close>

lemma peek_loop_full:
  assumes "\<And>c. c \<in> set cs \<Longrightarrow> chunk_ok c" and "n \<le> 8" and "used \<le> 512 + n * 87576"
  shows "peek_loop 8 1048576 used n cs = take (8 - n) cs"
  using assms
proof (induction cs arbitrary: used n)
  case (Cons c cs)
  have c: "encoded_size c \<le> 87576" using Cons.prems(1) encoded_size_bound by simp
  show ?case
  proof (cases "n = 8")
    case False
    then have n: "n < 8" using Cons.prems(2) by simp
    have "n * 87576 \<le> 7 * 87576" using n by simp
    then have fits: "used + encoded_size c \<le> 1048576" using Cons.prems(3) c by linarith
    have "peek_loop 8 1048576 (used + encoded_size c) (Suc n) cs = take (8 - Suc n) cs"
      using Cons.prems c n by (intro Cons.IH) auto
    then show ?thesis using n fits by (simp add: take_Cons' Suc_diff_Suc [symmetric])
  qed simp
qed simp

lemma PeekBatch_eq:
  "queue_ok q \<Longrightarrow> PeekBatch MaxLogChunksPerRequest MaxLogAppendBodyBytes q = take MaxLogChunksPerRequest (qchunks q)"
  using peek_loop_full [of "qchunks q" 0 512]
  by (simp add: PeekBatch_def MaxLogChunksPerRequest_def MaxLogAppendBodyBytes_def queue_ok_def)

lemma Enqueue_empty:
  assumes "queue_ok q" and "qchunks q = []" and "qfailure q = None" and "\<not> qclosed q"
    and "stream = ''stdout'' \<or> stream = ''stderr''" and "0 < length payload" and "length payload \<le> MaxLogChunkBytes"
  shows "\<exists>n q'. Enqueue stream payload q = Got (n, q')"
  using assms by (auto simp: Enqueue_def queue_ok_def MaxLogChunkBytes_def MaxPendingLogBytes_def Let_def)

section \<open>The writer in front of the queue\<close>

text \<open>\<open>remoteLogWriter.Write\<close>. \<open>enq\<close> is \<open>Enqueue\<close> with its waiting: it returns the error
  it gave up with, or the queue after the chunk was accepted. \<open>dst\<close> is the terminal the bytes are
  copied to.\<close>

function remote_write_loop :: "(string \<Rightarrow> 'st \<Rightarrow> ('e, 'st) result) \<Rightarrow> (string \<Rightarrow> 'o \<Rightarrow> 'e option \<times> 'o) option \<Rightarrow> string \<Rightarrow> nat
    \<Rightarrow> 'st \<Rightarrow> 'o \<Rightarrow> (nat \<times> 'e option) \<times> 'st \<times> 'o" where
  "remote_write_loop enq dst p offset st os =
    (if offset < length p then
       let n = min (length p - offset) MaxLogChunkBytes; piece = take n (drop offset p) in
       (case enq piece st of
          Inl e \<Rightarrow> ((offset, Some e), st, os)
        | Inr st' \<Rightarrow>
          (case dst of
             None \<Rightarrow> remote_write_loop enq dst p (offset + n) st' os
           | Some w \<Rightarrow>
             (case w piece os of
                (Some e, os') \<Rightarrow> ((offset, Some e), st', os')
              | (None, os') \<Rightarrow> remote_write_loop enq dst p (offset + n) st' os')))
     else ((length p, None), st, os))"
  by pat_completeness auto
termination
  by (relation "measure (\<lambda>(enq, dst, p, offset, st, os). length p - offset)") (auto simp: MaxLogChunkBytes_def)

declare remote_write_loop.simps [simp del]

end
