(* ===== verification/Log_Delivery.thy ===== *)
theory Log_Delivery
  imports Log_Queue
begin

text \<open>
  The upload of a remote job's output (\<open>uploadLogQueue\<close>, \<open>appendLogBatchWithRetry\<close> and
  \<open>isTransientLogUploadError\<close> of \<open>cmd/forge-runner/main.go\<close>), composed with the queue on one
  side and a server on the other. The three run concurrently, so the composition is a step relation: the job
  writes, the queue is closed, the uploader takes a batch, sends it, the network loses the request or the
  response, the uploader retries, acknowledges or gives up, and the server serves other requests.

  What the uploader needs of the server is the locale \<open>log_sink\<close>; \<open>Runner_Proto\<close> interprets it on
  the HTTP handler over the PostgreSQL store. Inside the locale: in every reachable state the durable log is
  a prefix of what the job wrote, whatever was lost or repeated on the way, and when the uploader has stopped
  without a recorded failure and without cancellation it is all of it.
\<close>

section \<open>Retries\<close>

datatype upload_error = UpNet | UpStatus nat | UpCanceled | UpQueue

definition logUploadAttempts :: nat where "logUploadAttempts = 5"

definition isTransientLogUploadError :: "upload_error \<Rightarrow> bool" where
  "isTransientLogUploadError e = (case e of UpNet \<Rightarrow> True | UpStatus code \<Rightarrow> code \<ge> 500 \<and> code \<le> 599 | _ \<Rightarrow> False)"

definition retry_delay :: "nat \<Rightarrow> nat" where
  "retry_delay attempt = (let delay = 100 * 2 ^ attempt in if delay > 2000 then 2000 else delay)"

datatype retry = Return "upload_error option" | Again nat

text \<open>What \<open>appendLogBatchWithRetry\<close> does after the attempt number \<open>attempt\<close> ended with
  \<open>err\<close>; \<open>ctxDone\<close> tells whether the context ends during the delay.\<close>

definition after_attempt :: "nat \<Rightarrow> upload_error option \<Rightarrow> bool \<Rightarrow> retry" where
  "after_attempt attempt err ctxDone =
    (case err of
       None \<Rightarrow> Return None
     | Some e \<Rightarrow>
       if \<not> isTransientLogUploadError e \<or> attempt = logUploadAttempts - 1 then Return (Some e)
       else if ctxDone then Return (Some UpCanceled) else Again (Suc attempt))"

section \<open>The composed system\<close>

datatype phase = Idle | Sending "PendingLogChunk list" nat | Stopped

text \<open>\<open>sWritten\<close> records the chunks the queue accepted and \<open>sCanceled\<close> whether the uploader left
  because its context ended; no operation reads either.\<close>

record 'srv upload_state =
  sQueue :: "upload_error PendingLogQueue"
  sServer :: 'srv
  sPhase :: phase
  sWritten :: "PendingLogChunk list"
  sCanceled :: bool

definition upload_init :: "'srv \<Rightarrow> 'srv upload_state" where
  "upload_init srv = \<lparr> sQueue = NewPendingLogQueue, sServer = srv, sPhase = Idle, sWritten = [], sCanceled = False \<rparr>"

text \<open>The part of \<open>uploadLogQueue\<close> after the batch was sent: acknowledge, give up, or try again.\<close>

definition finish_attempt :: "PendingLogChunk list \<Rightarrow> retry \<Rightarrow> 'srv upload_state \<Rightarrow> 'srv upload_state" where
  "finish_attempt batch r s =
    (case r of
       Again k \<Rightarrow> s\<lparr> sPhase := Sending batch k \<rparr>
     | Return (Some e) \<Rightarrow> s\<lparr> sPhase := Stopped, sQueue := Fail (Some e) (sQueue s) \<rparr>
     | Return None \<Rightarrow> (case Ack (int (length batch)) (sQueue s) of
         Inl _ \<Rightarrow> s\<lparr> sPhase := Stopped, sQueue := Fail (Some UpQueue) (sQueue s) \<rparr>
       | Inr q \<Rightarrow> s\<lparr> sPhase := Idle, sQueue := q \<rparr>))"

inductive upload_step :: "(PendingLogChunk list \<Rightarrow> 'srv \<Rightarrow> nat \<times> 'srv) \<Rightarrow> ('srv \<Rightarrow> 'srv \<Rightarrow> bool) \<Rightarrow>
    'srv upload_state \<Rightarrow> 'srv upload_state \<Rightarrow> bool" for serve others where
  job_writes: "Enqueue stream payload (sQueue s) = Got (n, q) \<Longrightarrow>
    upload_step serve others s (s\<lparr> sQueue := q,
      sWritten := sWritten s @ [\<lparr> PcSequence = n, PcStream = stream, PcPayload = payload \<rparr>] \<rparr>)"
| job_ends: "upload_step serve others s (s\<lparr> sQueue := Close (sQueue s) \<rparr>)"
| takes_batch: "sPhase s = Idle \<Longrightarrow> WaitBatch MaxLogChunksPerRequest MaxLogAppendBodyBytes (sQueue s) = Got batch \<Longrightarrow>
    upload_step serve others s (s\<lparr> sPhase := Sending batch 0 \<rparr>)"
| stops: "sPhase s = Idle \<Longrightarrow> WaitBatch MaxLogChunksPerRequest MaxLogAppendBodyBytes (sQueue s) = Refused e \<Longrightarrow>
    upload_step serve others s (s\<lparr> sPhase := Stopped \<rparr>)"
| canceled: "sPhase s = Idle \<Longrightarrow> WaitBatch MaxLogChunksPerRequest MaxLogAppendBodyBytes (sQueue s) = Blocks \<Longrightarrow>
    upload_step serve others s (s\<lparr> sPhase := Stopped, sCanceled := True \<rparr>)"
| request_lost: "sPhase s = Sending batch k \<Longrightarrow>
    upload_step serve others s (finish_attempt batch (after_attempt k (Some UpNet) ctxDone) s)"
| response_lost: "sPhase s = Sending batch k \<Longrightarrow> serve batch (sServer s) = (code, srv) \<Longrightarrow>
    upload_step serve others s (finish_attempt batch (after_attempt k (Some UpNet) ctxDone) (s\<lparr> sServer := srv \<rparr>))"
| answered: "sPhase s = Sending batch k \<Longrightarrow> serve batch (sServer s) = (code, srv) \<Longrightarrow>
    upload_step serve others s
      (finish_attempt batch (after_attempt k (if code = 204 then None else Some (UpStatus code)) ctxDone) (s\<lparr> sServer := srv \<rparr>))"
| server_moves: "others (sServer s) srv \<Longrightarrow> upload_step serve others s (s\<lparr> sServer := srv \<rparr>)"

definition upload_reachable :: "(PendingLogChunk list \<Rightarrow> 'srv \<Rightarrow> nat \<times> 'srv) \<Rightarrow> ('srv \<Rightarrow> 'srv \<Rightarrow> bool) \<Rightarrow> 'srv \<Rightarrow> 'srv upload_state \<Rightarrow> bool" where
  "upload_reachable serve others srv s \<longleftrightarrow> (upload_step serve others)\<^sup>*\<^sup>* (upload_init srv) s"

section \<open>What the uploader needs of the server\<close>

definition chunk_matches :: "JobLogChunk \<Rightarrow> PendingLogChunk \<Rightarrow> bool" where
  "chunk_matches x c \<longleftrightarrow> LgSequence x = PcSequence c \<and> LgStream x = PcStream c \<and> LgPayload x = PcPayload c"

definition log_holds :: "JobLogChunk list \<Rightarrow> PendingLogChunk \<Rightarrow> bool" where
  "log_holds rows c \<longleftrightarrow> (\<exists>x \<in> set rows. chunk_matches x c)"

definition extended_from :: "PendingLogChunk list \<Rightarrow> JobLogChunk list \<Rightarrow> JobLogChunk list \<Rightarrow> bool" where
  "extended_from batch old new \<longleftrightarrow> (\<exists>ext. new = old @ ext \<and> (\<forall>x \<in> set ext. \<exists>c \<in> set batch. chunk_matches x c))"

lemma prefix_drop_nth:
  assumes "prefix b (drop a xs)" and "i < length b" and "a \<le> length xs"
  shows "b ! i = xs ! (a + i)"
proof -
  obtain t where "drop a xs = b @ t" using assms(1) by (auto simp: prefix_def)
  then have "drop a xs ! i = b ! i" using assms(2) by (simp add: nth_append)
  then show ?thesis using assms(3) by simp
qed

locale log_sink =
  fixes serve :: "PendingLogChunk list \<Rightarrow> 'srv \<Rightarrow> nat \<times> 'srv"
    and others :: "'srv \<Rightarrow> 'srv \<Rightarrow> bool"
    and log_of :: "'srv \<Rightarrow> JobLogChunk list"
    and inv :: "'srv \<Rightarrow> bool"
  assumes numbered: "inv srv \<Longrightarrow> numbered (log_of srv)"
    and serve_inv: "inv srv \<Longrightarrow> serve batch srv = (code, srv') \<Longrightarrow> inv srv'"
    and serve_extends: "inv srv \<Longrightarrow> serve batch srv = (code, srv') \<Longrightarrow> extended_from batch (log_of srv) (log_of srv')"
    and serve_records: "inv srv \<Longrightarrow> serve batch srv = (204, srv') \<Longrightarrow> c \<in> set batch \<Longrightarrow> log_holds (log_of srv') c"
    and others_inv: "inv srv \<Longrightarrow> others srv srv' \<Longrightarrow> inv srv' \<and> log_of srv' = log_of srv"
begin

text \<open>Nothing is out of order, lost behind the acknowledged part, or invented.\<close>

definition delivered :: "'srv upload_state \<Rightarrow> nat \<Rightarrow> bool" where
  "delivered s acked \<longleftrightarrow> inv (sServer s) \<and> queue_ok (sQueue s) \<and> consecutive 0 (sWritten s) \<and>
     qnext (sQueue s) = int (length (sWritten s)) \<and> acked \<le> length (sWritten s) \<and> qchunks (sQueue s) = drop acked (sWritten s) \<and>
     acked \<le> length (log_of (sServer s)) \<and> length (log_of (sServer s)) \<le> length (sWritten s) \<and>
     (\<forall>i < length (log_of (sServer s)). chunk_matches (log_of (sServer s) ! i) (sWritten s ! i)) \<and>
     (\<forall>batch k. sPhase s = Sending batch k \<longrightarrow> prefix batch (qchunks (sQueue s)))"

lemma deliveredD:
  assumes "delivered s acked"
  shows "inv (sServer s)" and "queue_ok (sQueue s)" and "consecutive 0 (sWritten s)" and "qnext (sQueue s) = int (length (sWritten s))"
    and "acked \<le> length (sWritten s)" and "qchunks (sQueue s) = drop acked (sWritten s)" and "acked \<le> length (log_of (sServer s))"
    and "length (log_of (sServer s)) \<le> length (sWritten s)"
    and "i < length (log_of (sServer s)) \<Longrightarrow> chunk_matches (log_of (sServer s) ! i) (sWritten s ! i)"
    and "sPhase s = Sending batch k \<Longrightarrow> prefix batch (qchunks (sQueue s))"
  using assms by (auto simp: delivered_def)

text \<open>Whatever happens to the response, a request leaves the log a prefix of what was written.\<close>

lemma serve_delivered:
  assumes d: "delivered s acked" and ph: "sPhase s = Sending batch k" and sv: "serve batch (sServer s) = (code, srv)"
  shows "delivered (s\<lparr> sServer := srv \<rparr>) acked"
proof -
  note D = deliveredD [OF d]
  obtain ext where ext: "log_of srv = log_of (sServer s) @ ext" "\<forall>x \<in> set ext. \<exists>c \<in> set batch. chunk_matches x c"
    using serve_extends [OF D(1) sv] by (auto simp: extended_from_def)
  have num: "numbered (log_of srv)" using numbered serve_inv [OF D(1) sv] by blast
  have "set batch \<subseteq> set (sWritten s)"
    using set_mono_prefix [OF D(10) [OF ph]] D(6) set_drop_subset by fastforce
  have new: "i < length (sWritten s) \<and> chunk_matches (log_of srv ! i) (sWritten s ! i)"
    if i: "i < length (log_of srv)" "length (log_of (sServer s)) \<le> i" for i
  proof -
    have "log_of srv ! i \<in> set ext" using i by (simp add: ext(1) nth_append)
    then obtain c where c: "c \<in> set (sWritten s)" "chunk_matches (log_of srv ! i) c"
      using ext(2) \<open>set batch \<subseteq> set (sWritten s)\<close> by blast
    then obtain m where m: "m < length (sWritten s)" "sWritten s ! m = c" by (auto simp: in_set_conv_nth)
    have "LgSequence (log_of srv ! i) = int i + 1" using num i(1) by (simp add: numbered_nth)
    moreover have "PcSequence c = int m + 1" using D(3) m by (auto simp: consecutive_nth)
    ultimately have "m = i" using c(2) by (simp add: chunk_matches_def)
    then show ?thesis using m c by simp
  qed
  have old: "i < length (sWritten s) \<and> chunk_matches (log_of srv ! i) (sWritten s ! i)" if "i < length (log_of (sServer s))" for i
    using D(8,9) that by (auto simp: ext(1) nth_append)
  have all: "i < length (sWritten s) \<and> chunk_matches (log_of srv ! i) (sWritten s ! i)" if "i < length (log_of srv)" for i
    using new old that by (metis not_less)
  have "length (log_of srv) \<le> length (sWritten s)"
    using all [of "length (log_of srv) - 1"] by (cases "log_of srv") auto
  then show ?thesis
    using D all ph serve_inv [OF D(1) sv] ext(1) unfolding delivered_def by auto
qed

lemma serve_acked:
  assumes d: "delivered s acked" and ph: "sPhase s = Sending batch k" and sv: "serve batch (sServer s) = (204, srv)"
  shows "acked + length batch \<le> length (log_of srv)"
proof (cases "batch = []")
  case True
  then show ?thesis using deliveredD(7) [OF serve_delivered [OF d ph sv]] by simp
next
  case False
  note D = deliveredD [OF d]
  have pre: "prefix batch (drop acked (sWritten s))" using D(6,10) ph by auto
  then have len: "acked + length batch \<le> length (sWritten s)" using D(5) prefix_length_le by fastforce
  have "last batch = sWritten s ! (acked + (length batch - 1))"
    using False prefix_drop_nth [OF pre, of "length batch - 1"] D(5) by (simp add: last_conv_nth)
  then have "PcSequence (last batch) = int (acked + length batch)"
    using D(3) len False by (cases "length batch") (auto simp: consecutive_nth)
  moreover have "log_holds (log_of srv) (last batch)" using serve_records [OF D(1) sv] False by simp
  moreover have "numbered (log_of srv)" using numbered serve_inv [OF D(1) sv] by blast
  ultimately show ?thesis by (auto simp: log_holds_def chunk_matches_def numbered_nth in_set_conv_nth)
qed

lemma delivered_fail: "delivered s acked \<Longrightarrow> delivered (s\<lparr> sPhase := Stopped, sQueue := Fail e (sQueue s) \<rparr>) acked"
  by (auto simp: delivered_def Fail_ok) (auto simp: Fail_def split: option.splits)

lemma delivered_phase: "delivered s acked \<Longrightarrow> (\<And>b k. ph = Sending b k \<Longrightarrow> prefix b (qchunks (sQueue s))) \<Longrightarrow>
    delivered (s\<lparr> sPhase := ph \<rparr>) acked"
  by (auto simp: delivered_def)

lemma delivered_ack:
  assumes d: "delivered s acked" and ph: "sPhase s = Sending batch k" and rec: "acked + length batch \<le> length (log_of (sServer s))"
  shows "delivered (finish_attempt batch (Return None) s) (acked + length batch)"
proof -
  note D = deliveredD [OF d]
  have len: "length batch \<le> length (qchunks (sQueue s))" using prefix_length_le [OF D(10) [OF ph]] .
  then obtain q where q: "Ack (int (length batch)) (sQueue s) = Inr q" by (simp add: Ack_def)
  then have "qchunks q = drop (length batch) (qchunks (sQueue s))" "qnext q = qnext (sQueue s)"
    by (auto simp: Ack_def split: if_splits)
  then show ?thesis
    using D Ack_ok [OF D(2) q] q rec len by (auto simp: finish_attempt_def delivered_def add.commute)
qed

lemma delivered_finish:
  assumes d: "delivered s acked" and ph: "sPhase s = Sending batch k"
  shows "\<exists>a. delivered (finish_attempt batch (after_attempt j (Some e) ctxDone) s) a"
proof -
  have "delivered (s\<lparr> sPhase := Sending batch i \<rparr>) acked" for i
    using d deliveredD(10) [OF d ph] by (intro delivered_phase) auto
  then show ?thesis
    using delivered_fail [OF d] by (auto simp: after_attempt_def finish_attempt_def split: option.splits if_splits)
qed

lemma upload_step_delivered:
  assumes d: "delivered s acked" and step: "upload_step serve others s s'"
  shows "\<exists>a. delivered s' a"
  using step
proof (cases rule: upload_step.cases)
  case (job_writes stream payload n q)
  note D = deliveredD [OF d]
  have n: "n = int (length (sWritten s)) + 1" "qchunks q = qchunks (sQueue s) @ [\<lparr> PcSequence = n, PcStream = stream, PcPayload = payload \<rparr>]"
      "qnext q = n" using job_writes(2) D(4) by (auto simp: Enqueue_Got Let_def)
  have "prefix batch (qchunks q)" if "sPhase s = Sending batch k" for batch k using D(10) [OF that] by (simp add: n(2))
  then have "delivered s' acked"
    using D Enqueue_ok [OF D(2) job_writes(2)] unfolding delivered_def job_writes(1)
    by (auto simp: n consecutive_append nth_append) (simp add: consecutive_def)
  then show ?thesis by blast
next
  case job_ends
  have "delivered s' acked" using deliveredD [OF d] Close_ok unfolding delivered_def job_ends by simp
  then show ?thesis by blast
next
  case (takes_batch batch)
  then have "prefix batch (qchunks (sQueue s))"
    using PeekBatch_prefix by (auto simp: WaitBatch_def Let_def split: if_splits option.splits)
  then show ?thesis using takes_batch(1) delivered_phase [OF d] by blast
next
  case (stops e)
  then show ?thesis using delivered_phase [OF d] by blast
next
  case canceled
  then show ?thesis using delivered_phase [OF d, of Stopped] by (auto simp: delivered_def)
next
  case (request_lost batch k ctxDone)
  then show ?thesis using delivered_finish [OF d] by blast
next
  case (response_lost batch k code srv ctxDone)
  then show ?thesis using delivered_finish [OF serve_delivered [OF d response_lost(2,3)]] by simp
next
  case (answered batch k code srv ctxDone)
  note d' = serve_delivered [OF d answered(2,3)]
  show ?thesis
  proof (cases "code = 204")
    case True
    then show ?thesis
      using delivered_ack [OF d', of batch k] serve_acked [OF d answered(2)] answered by (auto simp: after_attempt_def)
  next
    case False
    then show ?thesis using delivered_finish [OF d', of batch k] answered by simp
  qed
next
  case (server_moves srv)
  then show ?thesis using others_inv [OF deliveredD(1) [OF d]] d by (auto simp: delivered_def)
qed

lemma upload_reachable_delivered:
  assumes "inv srv" and "log_of srv = []" and "upload_reachable serve others srv s"
  shows "\<exists>a. delivered s a"
proof -
  have init: "delivered (upload_init srv) 0"
    using assms(1,2) NewPendingLogQueue_ok by (simp add: delivered_def upload_init_def NewPendingLogQueue_def consecutive_def)
  from assms(3) show ?thesis unfolding upload_reachable_def
    by (induction rule: rtranclp_induct) (use init upload_step_delivered in blast)+
qed

text \<open>The durable log is a prefix of what the job wrote.\<close>

lemma durable_prefix:
  assumes "inv srv" and "log_of srv = []" and "upload_reachable serve others srv s"
  shows "list_all2 chunk_matches (log_of (sServer s)) (take (length (log_of (sServer s))) (sWritten s))"
proof -
  obtain a where "delivered s a" using upload_reachable_delivered [OF assms] by blast
  then show ?thesis by (auto simp: delivered_def list_all2_conv_all_nth)
qed

text \<open>An uploader that stopped on its own account, without a failure, has delivered everything; and nothing
  can be written any more.\<close>

definition settled :: "'srv upload_state \<Rightarrow> bool" where
  "settled s \<longleftrightarrow> (sPhase s = Stopped \<and> qfailure (sQueue s) = None \<and> \<not> sCanceled s \<longrightarrow> qclosed (sQueue s) \<and> qchunks (sQueue s) = [])"

lemma finish_attempt_settled:
  assumes "sPhase s = Sending batch k"
  shows "settled (finish_attempt batch r (s\<lparr> sServer := srv \<rparr>))"
  by (auto simp: settled_def finish_attempt_def Fail_def split: retry.splits option.splits sum.splits)

lemma upload_step_settled:
  assumes q: "queue_ok (sQueue s)" and st: "settled s" and step: "upload_step serve others s s'"
  shows "settled s'"
  using step
proof (cases rule: upload_step.cases)
  case (job_writes stream payload n q)
  then show ?thesis using st by (auto simp: settled_def Enqueue_Got Let_def)
next
  case job_ends
  then show ?thesis using st by (auto simp: settled_def Close_def)
next
  case (stops e)
  have "PeekBatch MaxLogChunksPerRequest MaxLogAppendBodyBytes (sQueue s) = []"
    using stops(3) by (auto simp: WaitBatch_def Let_def split: if_splits)
  then have "qchunks (sQueue s) = []" using PeekBatch_eq [OF q] by (auto simp: MaxLogChunksPerRequest_def)
  then show ?thesis using stops by (auto simp: settled_def WaitBatch_def Let_def split: if_splits option.splits)
next
  case (request_lost batch k ctxDone)
  then show ?thesis using finish_attempt_settled [OF request_lost(2), of _ "sServer s"] by simp
qed (use st finish_attempt_settled in \<open>auto simp: settled_def\<close>)

lemma complete_delivery:
  assumes init: "inv srv" "log_of srv = []" and r: "upload_reachable serve others srv s"
    and stopped: "sPhase s = Stopped" "qfailure (sQueue s) = None" "\<not> sCanceled s"
  shows "list_all2 chunk_matches (log_of (sServer s)) (sWritten s)"
proof -
  have "settled (upload_init srv)" by (simp add: settled_def upload_init_def)
  have "settled s \<and> upload_reachable serve others srv s" using r unfolding upload_reachable_def
  proof (induction rule: rtranclp_induct)
    case base
    then show ?case using \<open>settled (upload_init srv)\<close> by simp
  next
    case (step y z)
    then have "\<exists>a. delivered y a" using upload_reachable_delivered [OF init] by (simp add: upload_reachable_def)
    then have "queue_ok (sQueue y)" using deliveredD(2) by blast
    then show ?case using step upload_step_settled by (meson rtranclp.rtrancl_into_rtrancl)
  qed
  then have q: "qchunks (sQueue s) = []" using stopped by (simp add: settled_def)
  obtain a where d: "delivered s a" using upload_reachable_delivered [OF assms(1-3)] by blast
  have "length (log_of (sServer s)) = length (sWritten s)" using deliveredD(5,6,7,8) [OF d] q by simp
  then show ?thesis using deliveredD(9) [OF d] by (simp add: list_all2_conv_all_nth)
qed

end

end
