(* ===== verification/Runner_Proto.thy ===== *)
theory Runner_Proto
  imports Storage_Step Blob_Store Log_Delivery Scheduler
begin

text \<open>
  \<open>internal/runnerproto\<close>: the HTTP protocol between the control plane and remote runners. A handler is a
  function of the request, the server's settings and state, and the times it reads; it returns the response
  and the new state. The path is the decoded \<open>r.URL.Path\<close>, \<open>Query\<close> is \<open>r.URL.Query().Get\<close>. JSON decoding
  is the argument \<open>dec\<close>, which returns the first value of the body and the rest; \<open>uuid.Parse\<close> is the field
  \<open>validUUID\<close>. Headers and error texts that carry no decision are left out of the responses.

  The lemmas show which lease a handler demands before it changes anything, that log uploads satisfy the
  contract of the uploader, and which request paths reach which handler.
\<close>

section \<open>Requests and responses\<close>

definition ProtocolVersion :: int where "ProtocolVersion = 2"

record http_request =
  Method :: string
  Path :: string
  Query :: "string \<Rightarrow> string"
  ContentLength :: int
  Authorization :: "string list"
  Body :: string

datatype 'a response = Reply nat 'a | Error nat string

fun response_code :: "'a response \<Rightarrow> nat" where
  "response_code (Reply code _) = code"
| "response_code (Error code _) = code"

record Handlers =
  token :: string
  shutting :: bool
  openBlob :: "(string \<Rightarrow> string option) option"
  has_artifacts :: bool
  has_cache :: bool
  validUUID :: "string \<Rightarrow> bool"
  sha256 :: "string \<Rightarrow> string"

record server =
  sDb :: db
  sArtifacts :: blob_store
  sCaches :: blob_store

definition AuthMiddleware :: "Handlers \<Rightarrow> http_request \<Rightarrow> 'a response option" where
  "AuthMiddleware h r =
    (if length (Authorization r) \<noteq> 1 \<or> token h = '''' \<or> hd (Authorization r) \<noteq> ''Bearer '' @ token h
     then Some (Error 401 ''unauthorized'') else None)"

definition smallRequestLimit :: nat where "smallRequestLimit = 16 * 1024"

definition json_space :: "string \<Rightarrow> bool" where
  "json_space s = list_all (\<lambda>c. byte c \<in> {9, 10, 13, 32}) s"

definition decodeStrictLimit :: "(string \<Rightarrow> ('q \<times> string) option) \<Rightarrow> nat \<Rightarrow> http_request \<Rightarrow> 'q option" where
  "decodeStrictLimit dec limit r =
    (if length (Body r) > limit then None
     else (case dec (Body r) of None \<Rightarrow> None | Some (v, rest) \<Rightarrow> if json_space rest then Some v else None))"

definition decodeStrict :: "(string \<Rightarrow> ('q \<times> string) option) \<Rightarrow> http_request \<Rightarrow> 'q option" where
  "decodeStrict dec r = decodeStrictLimit dec smallRequestLimit r"

text \<open>\<open>strconv.Atoi\<close> and \<open>strconv.ParseInt(_, 10, 64)\<close>.\<close>

definition digit_value :: "char \<Rightarrow> int option" where
  "digit_value c = (if 48 \<le> byte c \<and> byte c \<le> 57 then Some (int (byte c) - 48) else None)"

fun digits_value :: "int \<Rightarrow> string \<Rightarrow> int option" where
  "digits_value acc [] = Some acc"
| "digits_value acc (c # cs) = (case digit_value c of None \<Rightarrow> None | Some v \<Rightarrow> digits_value (10 * acc + v) cs)"

definition Atoi :: "string \<Rightarrow> int option" where
  "Atoi s =
    (let (neg, ds) = (case s of c # cs \<Rightarrow> if c = CHR ''-'' then (True, cs) else if c = CHR ''+'' then (False, cs) else (False, s)
                      | [] \<Rightarrow> (False, [])) in
     if ds = [] then None
     else (case digits_value 0 ds of
         None \<Rightarrow> None
       | Some v \<Rightarrow> let n = (if neg then - v else v) in if - (2 ^ 63) \<le> n \<and> n < 2 ^ 63 then Some n else None))"

definition path_parts :: "http_request \<Rightarrow> string list" where
  "path_parts r = split_on slash (trim_char slash (Path r))"

fun runnerNamePattern :: "string \<Rightarrow> bool" where
  "runnerNamePattern [] \<longleftrightarrow> False"
| "runnerNamePattern (c # cs) \<longleftrightarrow> alnum c \<and> list_all (\<lambda>x. alnum x \<or> x \<in> set ''._-'') cs \<and> length cs \<le> 127"

section \<open>Registration and heartbeats\<close>

record RegisterRequest =
  RqID :: string
  RqName :: string
  RqProtocol :: int
  RqOS :: string
  RqArch :: string
  RqDocker :: bool
  RqMaxParallel :: int

definition Register :: "Handlers \<Rightarrow> (string \<Rightarrow> (RegisterRequest \<times> string) option) \<Rightarrow> time \<Rightarrow> http_request \<Rightarrow> server
    \<Rightarrow> runner_row response \<times> server" where
  "Register h dec now r sv =
    (if Method r \<noteq> ''POST'' then (Error 405 '''', sv)
     else (case decodeStrict dec r of
         None \<Rightarrow> (Error 400 ''invalid request body'', sv)
       | Some q \<Rightarrow>
         if \<not> validUUID h (RqID q) \<or> \<not> runnerNamePattern (RqName q) \<or> RqOS q = '''' \<or> RqArch q = '''' \<or> RqMaxParallel q < 1
         then (Error 400 ''invalid runner configuration'', sv)
         else if RqProtocol q \<noteq> ProtocolVersion then (Error 400 ''unsupported protocol version'', sv)
         else
           let w = \<lparr> wid = RqID q, wname = RqName q, wprotocol = RqProtocol q, wos = RqOS q, warch = RqArch q,
             wdocker = RqDocker q, wmax_parallel = RqMaxParallel q, wstatus = RunnerOnline, wregistered_at = now,
             wlast_seen = now, wcurrent_run = None \<rparr> in
           (case RegisterRunner now w (sDb sv) of
              Inl _ \<Rightarrow> (Error 500 ''registration failed'', sv)
            | Inr (_, d) \<Rightarrow>
              (case find (\<lambda>x. wid x = RqID q) (runners d) of
                 None \<Rightarrow> (Error 500 ''registration failed'', sv\<lparr> sDb := d \<rparr>)
               | Some x \<Rightarrow> (Reply 200 x, sv\<lparr> sDb := d \<rparr>)))))"

definition heartbeat_key :: "LeaseHeartbeat \<Rightarrow> string" where
  "heartbeat_key l = HbRunID l @ [CHR 0x00] @ HbJobName l @ [CHR 0x00] @ HbLeaseID l"

fun check_leases :: "Handlers \<Rightarrow> string list \<Rightarrow> LeaseHeartbeat list \<Rightarrow> string option" where
  "check_leases h seen [] = None"
| "check_leases h seen (l # ls) =
    (if \<not> validUUID h (HbRunID l) \<or> HbJobName l = '''' \<or> \<not> validUUID h (HbLeaseID l) \<or> HbGeneration l < 1
     then Some ''invalid job lease''
     else if heartbeat_key l \<in> set seen then Some ''duplicate job lease''
     else check_leases h (heartbeat_key l # seen) ls)"

definition Heartbeat :: "Handlers \<Rightarrow> (string \<Rightarrow> ((string \<times> LeaseHeartbeat list) \<times> string) option) \<Rightarrow> time \<Rightarrow> http_request \<Rightarrow> server
    \<Rightarrow> (LeaseHeartbeatResult list \<times> bool) response \<times> server" where
  "Heartbeat h dec clock r sv =
    (if Method r \<noteq> ''POST'' then (Error 405 '''', sv)
     else (case decodeStrict dec r of
         None \<Rightarrow> (Error 400 ''invalid request body'', sv)
       | Some (runnerID, leases) \<Rightarrow>
         if \<not> validUUID h runnerID then (Error 400 ''missing runner_id'', sv)
         else (case check_leases h [] leases of
             Some e \<Rightarrow> (Error 400 e, sv)
           | None \<Rightarrow>
             (case HeartbeatJobLeases runnerID leases clock (sDb sv) of
                Inl _ \<Rightarrow> (Error 500 ''heartbeat failed'', sv)
              | Inr (results, d) \<Rightarrow> (Reply 200 (results, shutting h), sv\<lparr> sDb := d \<rparr>)))))"

section \<open>Leasing\<close>

text \<open>One turn of the long poll: what other requests did to the server before it, the call of \<open>LeaseJob\<close> with
  the rows locked by others and the times it reads, and what ends the wait if there is nothing to lease.\<close>

datatype wake = Signal | Timer | Gone

record lease_turn =
  tBefore :: "server \<Rightarrow> server"
  tLocked :: "run_row \<times> job_row \<Rightarrow> bool"
  tNow :: time
  tClock :: time
  tLease :: string
  tWake :: wake

text \<open>The result is None while the handler waits for a turn that has not come yet.\<close>

fun lease_loop :: "Store \<Rightarrow> string \<Rightarrow> lease_turn list \<Rightarrow> server \<Rightarrow> (JobLease response \<times> server) option" where
  "lease_loop s runnerID [] sv = None"
| "lease_loop s runnerID (t # ts) sv =
    (let sv1 = tBefore t sv in
     case LeaseJob s (tLocked t) (tNow t) (tClock t) (tLease t) runnerID (sDb sv1) of
       Inl _ \<Rightarrow> Some (Error 500 ''lease acquisition failed'', sv1)
     | Inr (Some lease, d) \<Rightarrow> Some (Reply 200 lease, sv1\<lparr> sDb := d \<rparr>)
     | Inr (None, d) \<Rightarrow>
       (case tWake t of
          Signal \<Rightarrow> lease_loop s runnerID ts (sv1\<lparr> sDb := d \<rparr>)
        | Timer \<Rightarrow> Some (Error 204 '''', sv1\<lparr> sDb := d \<rparr>)
        | Gone \<Rightarrow> Some (Error 408 '''', sv1\<lparr> sDb := d \<rparr>)))"

definition Lease :: "Store \<Rightarrow> Handlers \<Rightarrow> (string \<Rightarrow> (string \<times> string) option) \<Rightarrow> lease_turn list \<Rightarrow> http_request \<Rightarrow> server
    \<Rightarrow> (JobLease response \<times> server) option" where
  "Lease s h dec turns r sv =
    (if Method r \<noteq> ''POST'' then Some (Error 405 '''', sv)
     else (case decodeStrict dec r of
         None \<Rightarrow> Some (Error 400 ''invalid request body'', sv)
       | Some runnerID \<Rightarrow>
         if \<not> validUUID h runnerID then Some (Error 400 ''missing runner_id'', sv)
         else lease_loop s runnerID turns sv))"

section \<open>Events and completion\<close>

definition job_status_of :: "string \<Rightarrow> JobStatus option" where
  "job_status_of st = map_of [(''PENDING'', JobPending), (''RUNNING'', JobRunning), (''PASSED'', JobPassed), (''FAILED'', JobFailed),
     (''ERROR'', JobError), (''BLOCKED'', JobBlocked), (''CANCELED'', JobCanceled), (''ABORTED'', JobAborted)] st"

definition validJobEventStatus :: "JobStatus \<Rightarrow> bool" where
  "validJobEventStatus st \<longleftrightarrow> st \<in> {JobRunning, JobPassed, JobFailed, JobBlocked, JobCanceled}"

definition validCompletionStatus :: "RunStatus \<Rightarrow> bool" where
  "validCompletionStatus st \<longleftrightarrow> st \<in> {RunPassed, RunFailed, RunCanceled, RunError}"

record JobEventRequest =
  EqRunnerID :: string
  EqRunID :: string
  EqLeaseID :: string
  EqGeneration :: int
  EqJobName :: string
  EqStatus :: string

definition owner_of :: "JobEventRequest \<Rightarrow> ArtifactOwnership" where
  "owner_of q = \<lparr> OwRunID = EqRunID q, OwRunnerID = EqRunnerID q, OwLeaseID = EqLeaseID q, OwJobName = EqJobName q,
     OwGeneration = EqGeneration q \<rparr>"

definition missing_fields :: "Handlers \<Rightarrow> JobEventRequest \<Rightarrow> bool" where
  "missing_fields h q \<longleftrightarrow> \<not> validUUID h (EqRunnerID q) \<or> \<not> validUUID h (EqRunID q) \<or> \<not> validUUID h (EqLeaseID q) \<or>
     EqGeneration q < 1 \<or> EqJobName q = ''''"

definition JobEvent :: "Store \<Rightarrow> Handlers \<Rightarrow> (string \<Rightarrow> (JobEventRequest \<times> string) option) \<Rightarrow> time \<Rightarrow> http_request \<Rightarrow> server
    \<Rightarrow> unit response \<times> server" where
  "JobEvent s h dec now r sv =
    (if Method r \<noteq> ''POST'' then (Error 405 '''', sv)
     else (case decodeStrict dec r of
         None \<Rightarrow> (Error 400 ''invalid request body'', sv)
       | Some q \<Rightarrow>
         if missing_fields h q then (Error 400 ''missing required fields'', sv)
         else (case job_status_of (EqStatus q) of
             None \<Rightarrow> (Error 400 ''invalid job status'', sv)
           | Some st \<Rightarrow>
             if \<not> validJobEventStatus st then (Error 400 ''invalid job status'', sv)
             else (case GetRun s (EqRunID q) (sDb sv) of
                 Inl _ \<Rightarrow> (Error 404 ''run not found'', sv)
               | Inr run \<Rightarrow>
                 if rlease (RunRow run) \<noteq> Some (EqLeaseID q) \<or> rgeneration (RunRow run) \<noteq> EqGeneration q
                 then (Error 409 ''invalid lease'', sv)
                 else (case ReportJobEvent s now (EqRunID q) (EqRunnerID q) (EqLeaseID q) (EqGeneration q) (EqJobName q) st (sDb sv) of
                     Inl _ \<Rightarrow> (Error 409 ''event processing failed'', sv)
                   | Inr (_, d) \<Rightarrow> (Reply 200 (), sv\<lparr> sDb := d \<rparr>))))))"

definition CompleteRun_handler :: "Store \<Rightarrow> Handlers \<Rightarrow> (string \<Rightarrow> ((JobEventRequest \<times> string option) \<times> string) option) \<Rightarrow> time \<Rightarrow> http_request
    \<Rightarrow> server \<Rightarrow> unit response \<times> server" where
  "CompleteRun_handler s h dec now r sv =
    (if Method r \<noteq> ''POST'' then (Error 405 '''', sv)
     else (case decodeStrict dec r of
         None \<Rightarrow> (Error 400 ''invalid request body'', sv)
       | Some (q, message) \<Rightarrow>
         if missing_fields h q then (Error 400 ''missing required fields'', sv)
         else (case job_status_of (EqStatus q) of
             None \<Rightarrow> (Error 400 ''invalid run status'', sv)
           | Some st \<Rightarrow>
             if st \<notin> {JobPassed, JobFailed, JobError, JobCanceled} then (Error 400 ''invalid run status'', sv)
             else (case CompleteJob s now (owner_of q) st message (sDb sv) of
                 Inl _ \<Rightarrow> (Error 409 ''completion failed'', sv)
               | Inr (_, d) \<Rightarrow> (Reply 200 (), sv\<lparr> sDb := d \<rparr>)))))"

section \<open>Leases as the handlers check them\<close>

text \<open>The handlers read the run and compare the job with the caller's claim; the store checks again.\<close>

definition validArtifactLease :: "Run \<Rightarrow> ArtifactOwnership \<Rightarrow> JobStatus \<Rightarrow> time \<Rightarrow> bool" where
  "validArtifactLease run owner st clock =
    (if rstatus (RunRow run) \<noteq> RunRunning then False
     else (case find (\<lambda>j. jname j = OwJobName owner) (RunJobs run) of
         None \<Rightarrow> False
       | Some j \<Rightarrow> jstatus j = st \<and> jrunner j = Some (OwRunnerID owner) \<and> jlease j = Some (OwLeaseID owner) \<and>
           jgeneration j = OwGeneration owner \<and> (case jlease_expires j of None \<Rightarrow> False | Some e \<Rightarrow> clock < e)))"

definition artifactOwner :: "Handlers \<Rightarrow> http_request \<Rightarrow> string \<Rightarrow> string \<Rightarrow> ArtifactOwnership option" where
  "artifactOwner h r leaseID job =
    (case Atoi (Query r ''generation'') of
       None \<Rightarrow> None
     | Some generation \<Rightarrow>
       if \<not> validUUID h (Query r ''run_id'') \<or> \<not> validUUID h (Query r ''runner_id'') \<or> generation < 1 \<or> job = '''' then None
       else Some \<lparr> OwRunID = Query r ''run_id'', OwRunnerID = Query r ''runner_id'', OwLeaseID = leaseID, OwJobName = job,
         OwGeneration = generation \<rparr>)"

section \<open>Logs\<close>

record jobLogAppendRequest =
  LqRunnerID :: string
  LqRunID :: string
  LqLeaseID :: string
  LqGeneration :: int
  LqJobName :: string
  LqChunks :: "PendingLogChunk list"

fun check_chunks :: "string \<Rightarrow> string \<Rightarrow> int \<Rightarrow> PendingLogChunk list \<Rightarrow> JobLogChunk list option" where
  "check_chunks run job previous [] = Some []"
| "check_chunks run job previous (c # cs) =
    (if PcSequence c < 1 \<or> PcSequence c \<le> previous \<or> length (PcPayload c) = 0 \<or> length (PcPayload c) > MaxLogChunkBytes \<or>
        (PcStream c \<noteq> ''stdout'' \<and> PcStream c \<noteq> ''stderr'') then None
     else map_option ((#) \<lparr> LgRunID = run, LgJobName = job, LgSequence = PcSequence c, LgStream = PcStream c, LgCreatedAt = 0,
         LgPayload = PcPayload c \<rparr>) (check_chunks run job (PcSequence c) cs))"

definition JobLogAppend :: "Store \<Rightarrow> Handlers \<Rightarrow> (string \<Rightarrow> (jobLogAppendRequest \<times> string) option) \<Rightarrow> time \<Rightarrow> http_request \<Rightarrow> server
    \<Rightarrow> unit response \<times> server" where
  "JobLogAppend s h dec clock r sv =
    (if Method r \<noteq> ''POST'' then (Error 405 ''method not allowed'', sv)
     else let parts = path_parts r in
     if length parts \<noteq> 7 \<or> parts ! 4 \<noteq> ''jobs'' \<or> parts ! 6 \<noteq> ''logs'' \<or> \<not> validUUID h (parts ! 3) \<or> parts ! 5 = ''''
     then (Error 400 ''invalid log path'', sv)
     else if ContentLength r > int MaxLogAppendBodyBytes then (Error 413 ''log request too large'', sv)
     else (case decodeStrictLimit dec MaxLogAppendBodyBytes r of
         None \<Rightarrow> (Error 400 ''invalid request body'', sv)
       | Some q \<Rightarrow>
         if \<not> validUUID h (LqRunID q) \<or> \<not> validUUID h (LqRunnerID q) \<or> \<not> validUUID h (LqLeaseID q) \<or>
            LqRunID q \<noteq> Query r ''run_id'' \<or> LqRunnerID q \<noteq> Query r ''runner_id'' \<or> LqLeaseID q \<noteq> parts ! 3 \<or>
            LqJobName q \<noteq> parts ! 5 \<or> LqGeneration q < 1
         then (Error 400 ''invalid log ownership'', sv)
         else if LqChunks q = [] \<or> length (LqChunks q) > MaxLogChunksPerRequest then (Error 400 ''invalid log batch'', sv)
         else (case check_chunks (LqRunID q) (LqJobName q) 0 (LqChunks q) of
             None \<Rightarrow> (Error 400 ''invalid log chunk'', sv)
           | Some chunks \<Rightarrow>
             let owner = \<lparr> OwRunID = LqRunID q, OwRunnerID = LqRunnerID q, OwLeaseID = LqLeaseID q, OwJobName = LqJobName q,
               OwGeneration = LqGeneration q \<rparr> in
             (case GetRun s (LqRunID q) (sDb sv) of
                Inl _ \<Rightarrow> (Error 409 ''invalid or expired log lease'', sv)
              | Inr run \<Rightarrow>
                if rid (RunRow run) \<noteq> LqRunID q \<or> \<not> validArtifactLease run owner JobRunning clock
                then (Error 409 ''invalid or expired log lease'', sv)
                else (case AppendJobLogs clock chunks (sDb sv) of
                    Inl ErrConflict \<Rightarrow> (Error 409 ''log conflict'', sv)
                  | Inl _ \<Rightarrow> (Error 400 ''append failed'', sv)
                  | Inr (_, d) \<Rightarrow> (Reply 204 (), sv\<lparr> sDb := d \<rparr>))))))"

section \<open>Artifacts\<close>

definition ArtifactUpload :: "Store \<Rightarrow> Handlers \<Rightarrow> time \<Rightarrow> http_request \<Rightarrow> server \<Rightarrow> unit response \<times> server" where
  "ArtifactUpload s h clock r sv =
    (if Method r \<noteq> ''PUT'' \<or> \<not> has_artifacts h then (Error 404 '''', sv)
     else let parts = path_parts r in
     if length parts \<noteq> 8 \<or> parts ! 4 \<noteq> ''jobs'' \<or> parts ! 6 \<noteq> ''artifact-blobs'' \<or> \<not> validUUID h (parts ! 3) \<or> parts ! 5 = '''' \<or>
        \<not> ValidDigest (parts ! 7)
     then (Error 400 ''invalid artifact upload path'', sv)
     else (case artifactOwner h r (parts ! 3) (parts ! 5) of
         None \<Rightarrow> (Error 400 ''invalid artifact ownership'', sv)
       | Some owner \<Rightarrow>
         if ContentLength r < 0 then (Error 400 ''artifact content length required'', sv)
         else (case GetRun s (OwRunID owner) (sDb sv) of
             Inl _ \<Rightarrow> (Error 409 ''invalid or expired lease'', sv)
           | Inr run \<Rightarrow>
             if \<not> validArtifactLease run owner JobRunning clock then (Error 409 ''invalid or expired lease'', sv)
             else (case Put (sha256 h) clock (parts ! 7) (ContentLength r) (Some (Body r)) (sArtifacts sv) of
                 Inl _ \<Rightarrow> (Error 400 ''artifact upload failed'', sv)
               | Inr (_, st) \<Rightarrow> (Reply 204 (), sv\<lparr> sArtifacts := st \<rparr>)))))"

record artifactCommitItem =
  CiName :: string
  CiRootName :: string
  CiRootKind :: string
  CiContent :: string
  CiBlob :: string
  CiFormat :: string
  CiArchiveSize :: int
  CiLogicalSize :: int
  CiEntryCount :: int

definition commit_item :: "JobEventRequest \<Rightarrow> time \<Rightarrow> artifactCommitItem \<Rightarrow> Artifact" where
  "commit_item q clock w = \<lparr> ArID = '''', ArRunID = EqRunID q, ArProducer = EqJobName q, ArName = CiName w, ArRootName = CiRootName w,
     ArRootKind = CiRootKind w, ArContent = CiContent w, ArBlob = CiBlob w, ArFormat = CiFormat w, ArArchiveSize = CiArchiveSize w,
     ArLogicalSize = CiLogicalSize w, ArEntryCount = CiEntryCount w, ArCreatedAt = clock, ArExpiresAt = None, ArDeletedAt = None \<rparr>"

text \<open>The request's \<open>EqStatus\<close> is not sent here and stays empty.\<close>

definition ArtifactCommit :: "Store \<Rightarrow> Handlers \<Rightarrow> (string \<Rightarrow> ((JobEventRequest \<times> artifactCommitItem list) \<times> string) option)
    \<Rightarrow> (nat \<Rightarrow> string) \<Rightarrow> time \<Rightarrow> time \<Rightarrow> http_request \<Rightarrow> server \<Rightarrow> unit response \<times> server" where
  "ArtifactCommit s h dec fresh now clock r sv =
    (if Method r \<noteq> ''POST'' \<or> \<not> has_artifacts h then (Error 404 '''', sv)
     else let parts = path_parts r in
     if length parts \<noteq> 8 \<or> parts ! 4 \<noteq> ''jobs'' \<or> parts ! 6 \<noteq> ''artifacts'' \<or> parts ! 7 \<noteq> ''commit'' \<or> \<not> validUUID h (parts ! 3)
     then (Error 400 ''invalid artifact commit path'', sv)
     else (case decodeStrict dec r of
         None \<Rightarrow> (Error 400 ''invalid request body'', sv)
       | Some (q, wires) \<Rightarrow>
         if EqLeaseID q \<noteq> parts ! 3 \<or> EqJobName q \<noteq> parts ! 5 \<or> \<not> validUUID h (EqRunnerID q) \<or> \<not> validUUID h (EqRunID q) \<or> EqGeneration q < 1
         then (Error 400 ''invalid artifact ownership'', sv)
         else (case GetRun s (EqRunID q) (sDb sv) of
             Inl _ \<Rightarrow> (Error 409 ''invalid or expired lease'', sv)
           | Inr run \<Rightarrow>
             if \<not> validArtifactLease run (owner_of q) JobRunning clock then (Error 409 ''invalid or expired lease'', sv)
             else let items = map (commit_item q clock) wires in
             if \<not> list_all (\<lambda>i. ValidDigest (ArContent i) \<and> ValidDigest (ArBlob i) \<and> ArFormat i = Format \<and>
                    HasBlob (ArBlob i) (ArArchiveSize i) (sArtifacts sv)) items
             then (Error 400 ''invalid or missing artifact blob'', sv)
             else (case CommitArtifacts s fresh now (owner_of q) items (sDb sv) of
                 Inl _ \<Rightarrow> (Error 409 ''artifact commit rejected'', sv)
               | Inr (_, d) \<Rightarrow> (Reply 200 (), sv\<lparr> sDb := d \<rparr>)))))"

definition ArtifactDownload :: "Handlers \<Rightarrow> time \<Rightarrow> http_request \<Rightarrow> server \<Rightarrow> (Artifact \<times> string) response" where
  "ArtifactDownload h now r sv =
    (if Method r \<noteq> ''GET'' \<or> \<not> has_artifacts h then Error 404 ''''
     else let parts = path_parts r in
     if length parts \<noteq> 7 \<or> parts ! 4 \<noteq> ''artifacts'' \<or> \<not> validUUID h (parts ! 3) \<or> parts ! 5 = '''' \<or> parts ! 6 = ''''
     then Error 400 ''invalid artifact download path''
     else (case artifactOwner h r (parts ! 3) (Query r ''consumer_job'') of
         None \<Rightarrow> Error 400 ''invalid artifact ownership''
       | Some owner \<Rightarrow>
         (case GetArtifactForLease owner (parts ! 5) (parts ! 6) now (sDb sv) of
            Inl _ \<Rightarrow> Error 409 ''artifact unavailable''
          | Inr (item, _) \<Rightarrow>
            (case OpenBlob (ArBlob item) (sArtifacts sv) of
               Inl _ \<Rightarrow> Error 500 ''artifact blob unavailable''
             | Inr content \<Rightarrow> Reply 200 (item, take (nat (ArArchiveSize item)) content)))))"

definition Source :: "Store \<Rightarrow> Handlers \<Rightarrow> time \<Rightarrow> http_request \<Rightarrow> server \<Rightarrow> string response" where
  "Source s h clock r sv =
    (case openBlob h of
       None \<Rightarrow> Error 404 ''''
     | Some opener \<Rightarrow>
       if Method r \<noteq> ''GET'' then Error 404 ''''
       else let parts = path_parts r in
       if length parts \<noteq> 5 \<or> parts ! 0 \<noteq> ''v1'' \<or> parts ! 1 \<noteq> ''runner'' \<or> parts ! 2 \<noteq> ''leases'' \<or> parts ! 4 \<noteq> ''source'' \<or>
          \<not> validUUID h (parts ! 3)
       then Error 400 ''invalid source request''
       else (case artifactOwner h r (parts ! 3) (Query r ''job_name'') of
           None \<Rightarrow> Error 400 ''invalid source ownership''
         | Some owner \<Rightarrow>
           (case GetRun s (OwRunID owner) (sDb sv) of
              Inl _ \<Rightarrow> Error 404 ''run not found''
            | Inr run \<Rightarrow>
              (case rsnapshot (RunRow run) of
                 None \<Rightarrow> Error 409 ''invalid or expired lease''
               | Some digest \<Rightarrow>
                 if \<not> validArtifactLease run owner JobRunning clock then Error 409 ''invalid or expired lease''
                 else (case opener digest of
                     None \<Rightarrow> Error 500 ''source unavailable''
                   | Some content \<Rightarrow> Reply 200 (take (nat (RunArchiveSize run)) content))))))"

section \<open>Caches\<close>

definition CacheFormat :: string where "CacheFormat = ''cache-tar-gzip-v1''"

definition declares_cache :: "Job \<Rightarrow> string \<Rightarrow> string \<Rightarrow> bool" where
  "declares_cache job key path = list_ex (\<lambda>c. Key c = key \<and> (path = '''' \<or> CachePath c = path))
     (Restore (JobCache job) @ Save (JobCache job))"

definition cacheOwner :: "Store \<Rightarrow> Handlers \<Rightarrow> time \<Rightarrow> http_request \<Rightarrow> string \<Rightarrow> string \<Rightarrow> string \<Rightarrow> string \<Rightarrow> db \<Rightarrow> Run option" where
  "cacheOwner s h clock r leaseID jobName key path d =
    (case artifactOwner h r leaseID jobName of
       None \<Rightarrow> None
     | Some owner \<Rightarrow>
       if \<not> validUUID h leaseID then None
       else (case GetRun s (OwRunID owner) d of
           Inl _ \<Rightarrow> None
         | Inr run \<Rightarrow>
           if \<not> validArtifactLease run owner JobRunning clock then None
           else (case find (\<lambda>j. jname j = jobName) (RunJobs run) of
               None \<Rightarrow> None
             | Some _ \<Rightarrow>
               (case parse_stored s (ryaml (RunRow run)) of
                  Inl _ \<Rightarrow> None
                | Inr cfg \<Rightarrow>
                  (case map_of (Jobs cfg) jobName of
                     None \<Rightarrow> None
                   | Some job \<Rightarrow> if declares_cache job key path then Some run else None)))))"

definition lease_path :: "string list \<Rightarrow> bool" where
  "lease_path parts \<longleftrightarrow> parts ! 0 = ''v1'' \<and> parts ! 1 = ''runner'' \<and> parts ! 2 = ''leases''"

definition CacheDownload :: "Store \<Rightarrow> Handlers \<Rightarrow> time \<Rightarrow> http_request \<Rightarrow> server \<Rightarrow> (CacheMetadata \<times> string) response \<times> server" where
  "CacheDownload s h clock r sv =
    (let parts = path_parts r in
     if length parts \<noteq> 6 \<or> \<not> lease_path parts \<or> parts ! 4 \<noteq> ''cache'' \<or> Method r \<noteq> ''GET'' then (Error 404 ''not found'', sv)
     else (case cacheOwner s h clock r (parts ! 3) (Query r ''job_name'') (parts ! 5) (Query r ''path'') (sDb sv) of
         None \<Rightarrow> (Error 409 ''cache refused'', sv)
       | Some run \<Rightarrow>
         if \<not> has_cache h then (Error 503 ''cache unavailable'', sv)
         else (case LookupCache s (rworkspace (RunRow run)) (parts ! 5) clock (sDb sv) of
             Inl ErrNotFound \<Rightarrow> (Error 404 ''cache miss'', sv)
           | Inl _ \<Rightarrow> (Error 503 ''cache unavailable'', sv)
           | Inr (m, d) \<Rightarrow>
             (case OpenBlob (CmBlob m) (sCaches sv) of
                Inl _ \<Rightarrow> (Error 404 ''cache miss'', sv\<lparr> sDb := d \<rparr>)
              | Inr content \<Rightarrow> (Reply 200 (m, take (nat (CmArchiveSize m)) content), sv\<lparr> sDb := d \<rparr>)))))"

definition CacheUpload :: "Store \<Rightarrow> Handlers \<Rightarrow> time \<Rightarrow> http_request \<Rightarrow> server \<Rightarrow> unit response \<times> server" where
  "CacheUpload s h clock r sv =
    (let parts = path_parts r in
     if length parts \<noteq> 8 \<or> \<not> lease_path parts \<or> parts ! 4 \<noteq> ''jobs'' \<or> parts ! 6 \<noteq> ''cache-blobs'' \<or> Method r \<noteq> ''PUT''
     then (Error 404 ''not found'', sv)
     else (case cacheOwner s h clock r (parts ! 3) (parts ! 5) (Query r ''key'') (Query r ''path'') (sDb sv) of
         None \<Rightarrow> (Error 409 ''cache refused'', sv)
       | Some _ \<Rightarrow>
         if \<not> lower_hex64 (parts ! 7) then (Error 400 ''invalid cache digest'', sv)
         else if \<not> has_cache h then (Error 503 ''cache unavailable'', sv)
         else if ContentLength r < 0 then (Error 411 ''content length required'', sv)
         else (case Put (sha256 h) clock (parts ! 7) (ContentLength r) (Some (Body r)) (sCaches sv) of
             Inl _ \<Rightarrow> (Error 400 ''cache upload failed'', sv)
           | Inr (_, st) \<Rightarrow> (Reply 204 (), sv\<lparr> sCaches := st \<rparr>))))"

record cacheCommitRequest =
  CqJobName :: string
  CqLeaseID :: string
  CqKey :: string
  CqPath :: string
  CqRootName :: string
  CqRootKind :: string
  CqContent :: string
  CqBlob :: string
  CqFormat :: string
  CqArchiveSize :: int
  CqLogicalSize :: int
  CqEntryCount :: int

definition CacheCommit :: "Store \<Rightarrow> Handlers \<Rightarrow> (string \<Rightarrow> (cacheCommitRequest \<times> string) option) \<Rightarrow> string \<Rightarrow> time \<Rightarrow> http_request
    \<Rightarrow> server \<Rightarrow> unit response \<times> server" where
  "CacheCommit s h dec ident clock r sv =
    (let parts = path_parts r in
     if length parts \<noteq> 8 \<or> \<not> lease_path parts \<or> parts ! 4 \<noteq> ''jobs'' \<or> parts ! 6 \<noteq> ''cache'' \<or> parts ! 7 \<noteq> ''commit'' \<or>
        Method r \<noteq> ''POST''
     then (Error 404 ''not found'', sv)
     else (case decodeStrict dec r of
         None \<Rightarrow> (Error 400 ''invalid request body'', sv)
       | Some q \<Rightarrow>
         if CqLeaseID q \<noteq> parts ! 3 \<or> CqJobName q \<noteq> parts ! 5 then (Error 400 ''cache ownership mismatch'', sv)
         else (case cacheOwner s h clock r (CqLeaseID q) (CqJobName q) (CqKey q) (CqPath q) (sDb sv) of
             None \<Rightarrow> (Error 409 ''cache refused'', sv)
           | Some run \<Rightarrow>
             if CqFormat q \<noteq> CacheFormat then (Error 400 ''invalid cache format'', sv)
             else (case CommitCache s ident clock \<lparr> CmID = '''', CmWorkspace = rworkspace (RunRow run), CmKey = CqKey q,
                   CmRootName = CqRootName q, CmRootKind = CqRootKind q, CmContent = CqContent q, CmBlob = CqBlob q,
                   CmFormat = CqFormat q, CmArchiveSize = CqArchiveSize q, CmLogicalSize = CqLogicalSize q,
                   CmEntryCount = CqEntryCount q, CmCreatedAt = clock, CmLastAccessedAt = 0, CmExpiresAt = None, CmDeletedAt = None \<rparr> (sDb sv) of
                 Inl ErrConflict \<Rightarrow> (Error 409 ''cache key conflict'', sv)
               | Inl _ \<Rightarrow> (Error 503 ''cache commit failed'', sv)
               | Inr (_, d) \<Rightarrow> (Reply 200 (), sv\<lparr> sDb := d \<rparr>)))))"

section \<open>Routing\<close>

datatype route = RSource | RCacheUpload | RCacheCommit | RCacheDownload | RArtifactUpload | RArtifactCommit | RArtifactDownload
  | RJobLogAppend | RCompleteRun | RNotFound

definition pathContains :: "string \<Rightarrow> string \<Rightarrow> bool" where
  "pathContains path substr = list_ex (\<lambda>i. take (length substr) (drop i path) = substr) [0..<length path + 1 - length substr]"

definition HandleLeaseRoute :: "string \<Rightarrow> route" where
  "HandleLeaseRoute path =
    (if has_suffix path ''/source'' then RSource
     else if pathContains path ''/cache-blobs/'' then RCacheUpload
     else if has_suffix path ''/cache/commit'' then RCacheCommit
     else if pathContains path ''/cache/'' then RCacheDownload
     else if pathContains path ''/artifact-blobs/'' then RArtifactUpload
     else if has_suffix path ''/artifacts/commit'' then RArtifactCommit
     else if pathContains path ''/artifacts/'' then RArtifactDownload
     else if pathContains path ''/jobs/'' \<and> has_suffix path ''/logs'' then RJobLogAppend
     else if pathContains path ''/complete'' then RCompleteRun
     else RNotFound)"

section \<open>Routes of the requests a runner sends\<close>

lemma pathContains_iff: "pathContains p x \<longleftrightarrow> (\<exists>a b. p = a @ x @ b)"
proof
  assume "pathContains p x"
  then obtain i where "take (length x) (drop i p) = x" by (auto simp: pathContains_def list_ex_iff)
  then have "p = take i p @ x @ drop (length x) (drop i p)" by (metis append_take_drop_id)
  then show "\<exists>a b. p = a @ x @ b" by blast
next
  assume "\<exists>a b. p = a @ x @ b"
  then obtain a b where p: "p = a @ x @ b" by blast
  then have "length a \<in> set [0..<length p + 1 - length x]" by simp
  moreover have "take (length x) (drop (length a) p) = x" by (simp add: p)
  ultimately show "pathContains p x" unfolding pathContains_def list_ex_iff by blast
qed

text \<open>A name between slashes is an inner component of the path.\<close>

lemma pathContains_component:
  assumes "slash \<notin> set x"
  shows "pathContains p (slash # x @ [slash]) \<longleftrightarrow> (\<exists>u v. split_on slash p = u @ x # v \<and> u \<noteq> [] \<and> v \<noteq> [])"
proof
  assume "pathContains p (slash # x @ [slash])"
  then obtain a b where "p = a @ slash # (x @ slash # b)" by (auto simp: pathContains_iff)
  then have "split_on slash p = split_on slash a @ x # split_on slash b"
    using assms by (simp add: split_on_sep_append split_on_single)
  then show "\<exists>u v. split_on slash p = u @ x # v \<and> u \<noteq> [] \<and> v \<noteq> []" by (metis split_on_not_Nil)
next
  assume "\<exists>u v. split_on slash p = u @ x # v \<and> u \<noteq> [] \<and> v \<noteq> []"
  then obtain u v where s: "split_on slash p = u @ x # v" "u \<noteq> []" "v \<noteq> []" by blast
  obtain y ys where v: "v = y # ys" using s(3) by (cases v) auto
  have "p = join_with slash (u @ x # v)" using s(1) by (metis join_split)
  also have "\<dots> = join_with slash u @ slash # join_with slash (x # v)" using s(2) by (intro join_append) auto
  also have "join_with slash (x # v) = x @ slash # join_with slash v" by (simp add: v)
  finally have "p = join_with slash u @ (slash # x @ [slash]) @ join_with slash v" by simp
  then show "pathContains p (slash # x @ [slash])" by (auto simp: pathContains_iff)
qed

definition log_path :: "string \<Rightarrow> string \<Rightarrow> string" where
  "log_path lease job = ''/v1/runner/leases/'' @ lease @ ''/jobs/'' @ job @ ''/logs''"

lemma log_path_split:
  assumes "slash \<notin> set lease" and "slash \<notin> set job"
  shows "split_on slash (log_path lease job) = ['''', ''v1'', ''runner'', ''leases'', lease, ''jobs'', job, ''logs'']"
proof -
  let ?ws = "['''', ''v1'', ''runner'', ''leases'', lease, ''jobs'', job, ''logs'']"
  have "log_path lease job = join_with slash ?ws" by (simp add: log_path_def slash_def)
  moreover have "split_on slash (join_with slash ?ws) = ?ws"
    by (rule split_join) (use assms in \<open>auto simp: slash_def\<close>)
  ultimately show ?thesis by simp
qed

lemma inner_component: "(\<exists>u v. ws = u @ x # v \<and> u \<noteq> [] \<and> v \<noteq> []) \<longleftrightarrow> x \<in> set (butlast (tl ws))"
proof
  assume "\<exists>u v. ws = u @ x # v \<and> u \<noteq> [] \<and> v \<noteq> []"
  then show "x \<in> set (butlast (tl ws))" by (auto simp: butlast_append)
next
  assume x: "x \<in> set (butlast (tl ws))"
  then obtain a b where ab: "butlast (tl ws) = a @ x # b" by (meson split_list)
  have "tl ws \<noteq> []" using x by auto
  then have "ws = hd ws # (a @ x # b) @ [last (tl ws)]" using ab by (metis append_butlast_last_id list.exhaust_sel list.sel(2))
  then show "\<exists>u v. ws = u @ x # v \<and> u \<noteq> [] \<and> v \<noteq> []"
    by (intro exI [of _ "hd ws # a"] exI [of _ "b @ [last (tl ws)]"]) simp
qed

lemma log_path_contains:
  assumes "slash \<notin> set lease" and "slash \<notin> set job" and "slash \<notin> set x"
  shows "pathContains (log_path lease job) (slash # x @ [slash]) \<longleftrightarrow> x \<in> {''v1'', ''runner'', ''leases'', lease, ''jobs'', job}"
  unfolding pathContains_component [OF assms(3)] inner_component log_path_split [OF assms(1,2)] by simp

lemma log_path_suffix:
  "has_suffix (log_path lease job) ''/source'' = False" "has_suffix (log_path lease job) ''/cache/commit'' = False"
  "has_suffix (log_path lease job) ''/artifacts/commit'' = False" "has_suffix (log_path lease job) ''/logs'' = True"
  by (simp_all add: has_suffix_def has_prefix_def log_path_def)

definition reserved_components :: "string set" where
  "reserved_components = {''cache-blobs'', ''cache'', ''artifact-blobs'', ''artifacts''}"

lemma log_route:
  assumes "slash \<notin> set lease" and "slash \<notin> set job" and "lease \<notin> reserved_components"
  shows "HandleLeaseRoute (log_path lease job) = RJobLogAppend \<longleftrightarrow> job \<notin> reserved_components"
proof -
  have other: "pathContains (log_path lease job) (CHR ''/'' # x @ ''/'') \<longleftrightarrow> job = x"
    if "x \<in> reserved_components" for x
  proof -
    have "slash \<notin> set x" "x \<notin> {''v1'', ''runner'', ''leases'', lease, ''jobs''}"
      using that assms(3) by (auto simp: reserved_components_def slash_def)
    then show ?thesis using log_path_contains [OF assms(1,2), of x] by (auto simp: slash_def)
  qed
  have x: "pathContains (log_path lease job) ''/cache-blobs/'' \<longleftrightarrow> job = ''cache-blobs''"
    using other [of "''cache-blobs''"] by (simp add: reserved_components_def)
  have y: "pathContains (log_path lease job) ''/cache/'' \<longleftrightarrow> job = ''cache''"
    using other [of "''cache''"] by (simp add: reserved_components_def)
  have z: "pathContains (log_path lease job) ''/artifact-blobs/'' \<longleftrightarrow> job = ''artifact-blobs''"
    using other [of "''artifact-blobs''"] by (simp add: reserved_components_def)
  have w: "pathContains (log_path lease job) ''/artifacts/'' \<longleftrightarrow> job = ''artifacts''"
    using other [of "''artifacts''"] by (simp add: reserved_components_def)
  have l: "pathContains (log_path lease job) ''/jobs/''"
    using log_path_contains [OF assms(1,2), of "''jobs''"] by (simp add: slash_def)
  show ?thesis by (simp add: HandleLeaseRoute_def log_path_suffix x y z w l reserved_components_def)
qed

section \<open>Every change needs a lease\<close>

definition lease_held :: "db \<Rightarrow> ArtifactOwnership \<Rightarrow> time \<Rightarrow> bool" where
  "lease_held d owner clock \<longleftrightarrow>
     (\<exists>j \<in> set (jobs d). owns (OwRunID owner) (OwJobName owner) (OwRunnerID owner) (OwLeaseID owner) (OwGeneration owner) clock j) \<and>
     (\<exists>r \<in> set (runs d). rid r = OwRunID owner \<and> rstatus r = RunRunning)"

lemma validArtifactLease_held:
  assumes g: "GetRun s (OwRunID owner) d = Inr run" and v: "validArtifactLease run owner JobRunning clock"
  shows "lease_held d owner clock"
proof -
  obtain r where r: "find (\<lambda>r. rid r = OwRunID owner) (runs d) = Some r"
    using g by (auto simp: GetRun_def split: option.splits)
  have sr: "RunRow (scanRun d r) = r" by (simp add: scanRun_def split: option.splits)
  have run: "RunRow run = r" "set (RunJobs run) = {j \<in> set (jobs d). jrun j = OwRunID owner}"
    using g r sr by (auto simp: GetRun_def)
  from v obtain j where j: "find (\<lambda>j. jname j = OwJobName owner) (RunJobs run) = Some j" "rstatus r = RunRunning"
      "jstatus j = JobRunning" "jrunner j = Some (OwRunnerID owner)" "jlease j = Some (OwLeaseID owner)"
      "jgeneration j = OwGeneration owner" "case jlease_expires j of None \<Rightarrow> False | Some e \<Rightarrow> clock < e"
    by (auto simp: validArtifactLease_def run split: if_splits option.splits)
  have "j \<in> set (jobs d)" "owns (OwRunID owner) (OwJobName owner) (OwRunnerID owner) (OwLeaseID owner) (OwGeneration owner) clock j"
    using find_SomeD [OF j(1)] j(3-7) run(2) by (auto simp: owns_def split: option.splits)
  moreover have "r \<in> set (runs d)" "rid r = OwRunID owner" using find_SomeD [OF r] by auto
  ultimately show ?thesis using j(2) unfolding lease_held_def by blast
qed

lemma JobLogAppend_cases:
  assumes "JobLogAppend s h dec clock r sv = (resp, sv')"
  obtains (refused) "sv' = sv" "response_code resp \<noteq> 204"
  | (appended) q chunks d where "decodeStrictLimit dec MaxLogAppendBodyBytes r = Some q" "resp = Reply 204 ()"
      "LqLeaseID q = path_parts r ! 3" "LqJobName q = path_parts r ! 5" "check_chunks (LqRunID q) (LqJobName q) 0 (LqChunks q) = Some chunks"
      "lease_held (sDb sv) \<lparr> OwRunID = LqRunID q, OwRunnerID = LqRunnerID q, OwLeaseID = LqLeaseID q, OwJobName = LqJobName q,
         OwGeneration = LqGeneration q \<rparr> clock"
      "AppendJobLogs clock chunks (sDb sv) = Inr ((), d)" "sv' = sv\<lparr> sDb := d \<rparr>"
proof (cases "sv' = sv \<and> response_code resp \<noteq> 204")
  case True
  then show thesis using refused by blast
next
  case False
  let ?o = "\<lambda>q. \<lparr> OwRunID = LqRunID q, OwRunnerID = LqRunnerID q, OwLeaseID = LqLeaseID q, OwJobName = LqJobName q, OwGeneration = LqGeneration q \<rparr>"
  have "\<exists>q chunks run d. decodeStrictLimit dec MaxLogAppendBodyBytes r = Some q \<and>
      resp = Reply 204 () \<and> LqLeaseID q = path_parts r ! 3 \<and> LqJobName q = path_parts r ! 5 \<and>
      check_chunks (LqRunID q) (LqJobName q) 0 (LqChunks q) = Some chunks \<and> GetRun s (LqRunID q) (sDb sv) = Inr run \<and>
      validArtifactLease run (?o q) JobRunning clock \<and> AppendJobLogs clock chunks (sDb sv) = Inr ((), d) \<and> sv' = sv\<lparr> sDb := d \<rparr>"
    using assms False unfolding JobLogAppend_def Let_def
    by (auto split: if_splits option.splits sum.splits prod.splits store_error.splits)
  then obtain q chunks run d where q: "decodeStrictLimit dec MaxLogAppendBodyBytes r = Some q"
      "resp = Reply 204 ()" "LqLeaseID q = path_parts r ! 3" "LqJobName q = path_parts r ! 5"
      "check_chunks (LqRunID q) (LqJobName q) 0 (LqChunks q) = Some chunks" "GetRun s (LqRunID q) (sDb sv) = Inr run"
      "validArtifactLease run (?o q) JobRunning clock" "AppendJobLogs clock chunks (sDb sv) = Inr ((), d)" "sv' = sv\<lparr> sDb := d \<rparr>"
    by blast
  have "lease_held (sDb sv) (?o q) clock" using q(6,7) by (intro validArtifactLease_held) auto
  then show thesis using appended q by blast
qed

lemma artifactOwner_Some:
  "artifactOwner h r lease job = Some owner \<Longrightarrow> OwLeaseID owner = lease \<and> OwJobName owner = job"
  by (auto simp: artifactOwner_def split: option.splits if_splits)

lemma ArtifactUpload_lease:
  assumes "snd (ArtifactUpload s h clock r sv) \<noteq> sv"
  shows "\<exists>owner. OwLeaseID owner = path_parts r ! 3 \<and> OwJobName owner = path_parts r ! 5 \<and> lease_held (sDb sv) owner clock"
proof -
  obtain owner run where "artifactOwner h r (path_parts r ! 3) (path_parts r ! 5) = Some owner"
      "GetRun s (OwRunID owner) (sDb sv) = Inr run" "validArtifactLease run owner JobRunning clock"
    using assms unfolding ArtifactUpload_def Let_def by (auto split: if_splits option.splits sum.splits)
  then show ?thesis using validArtifactLease_held artifactOwner_Some by blast
qed

lemma ArtifactCommit_lease:
  assumes "snd (ArtifactCommit s h dec fresh now clock r sv) \<noteq> sv"
  shows "\<exists>owner. OwLeaseID owner = path_parts r ! 3 \<and> OwJobName owner = path_parts r ! 5 \<and> lease_held (sDb sv) owner clock"
proof -
  obtain q run where q: "EqLeaseID q = path_parts r ! 3" "EqJobName q = path_parts r ! 5"
      "GetRun s (EqRunID q) (sDb sv) = Inr run" "validArtifactLease run (owner_of q) JobRunning clock"
    using assms unfolding ArtifactCommit_def Let_def by (auto split: if_splits option.splits sum.splits)
  have "lease_held (sDb sv) (owner_of q) clock"
    using q(3,4) by (intro validArtifactLease_held) (auto simp: owner_of_def)
  then show ?thesis using q(1,2) by (intro exI [of _ "owner_of q"]) (simp add: owner_of_def)
qed

lemma cacheOwner_lease:
  assumes "cacheOwner s h clock r lease job key path d = Some run"
  shows "\<exists>owner. OwLeaseID owner = lease \<and> OwJobName owner = job \<and> lease_held d owner clock"
proof -
  obtain owner where "artifactOwner h r lease job = Some owner" "GetRun s (OwRunID owner) d = Inr run"
      "validArtifactLease run owner JobRunning clock"
    using assms unfolding cacheOwner_def by (auto split: if_splits option.splits sum.splits)
  then show ?thesis using validArtifactLease_held artifactOwner_Some by blast
qed

lemma CacheUpload_lease:
  assumes "snd (CacheUpload s h clock r sv) \<noteq> sv"
  shows "\<exists>owner. OwLeaseID owner = path_parts r ! 3 \<and> OwJobName owner = path_parts r ! 5 \<and> lease_held (sDb sv) owner clock"
  using assms cacheOwner_lease unfolding CacheUpload_def Let_def
  by (auto split: if_splits option.splits sum.splits)

lemma CacheCommit_lease:
  assumes "snd (CacheCommit s h dec ident clock r sv) \<noteq> sv"
  shows "\<exists>owner. OwLeaseID owner = path_parts r ! 3 \<and> OwJobName owner = path_parts r ! 5 \<and> lease_held (sDb sv) owner clock"
proof -
  obtain q :: cacheCommitRequest and run where "CqLeaseID q = path_parts r ! 3" "CqJobName q = path_parts r ! 5"
      "cacheOwner s h clock r (CqLeaseID q) (CqJobName q) (CqKey q) (CqPath q) (sDb sv) = Some run"
    using assms unfolding CacheCommit_def Let_def
    by (auto split: if_splits option.splits sum.splits store_error.splits)
  then show ?thesis using cacheOwner_lease by metis
qed

section \<open>Log uploads satisfy the contract of the uploader\<close>

text \<open>\<open>appendLogBatch\<close> of \<open>cmd/forge-runner/main.go\<close>: the request a runner sends for a batch under its lease.\<close>

definition log_request :: "JobEventRequest \<Rightarrow> PendingLogChunk list \<Rightarrow> http_request" where
  "log_request q batch = \<lparr> Method = ''POST'', Path = log_path (EqLeaseID q) (EqJobName q),
     Query = (\<lambda>k. if k = ''run_id'' then EqRunID q else if k = ''runner_id'' then EqRunnerID q else ''''),
     ContentLength = int (512 + sum_list (map encoded_size batch)), Authorization = [], Body = '''' \<rparr>"

definition log_body :: "JobEventRequest \<Rightarrow> PendingLogChunk list \<Rightarrow> jobLogAppendRequest" where
  "log_body q batch = \<lparr> LqRunnerID = EqRunnerID q, LqRunID = EqRunID q, LqLeaseID = EqLeaseID q, LqGeneration = EqGeneration q,
     LqJobName = EqJobName q, LqChunks = batch \<rparr>"

text \<open>The server's side: the route, then the handler on the body that the request encodes. A request that is
  routed elsewhere is refused, since no other route accepts its method and path.\<close>

definition serve_logs :: "Store \<Rightarrow> Handlers \<Rightarrow> (PendingLogChunk list \<Rightarrow> time) \<Rightarrow> JobEventRequest \<Rightarrow> PendingLogChunk list \<Rightarrow> server \<Rightarrow> nat \<times> server" where
  "serve_logs s h clock q batch sv =
    (if HandleLeaseRoute (Path (log_request q batch)) \<noteq> RJobLogAppend then (404, sv)
     else (case JobLogAppend s h (\<lambda>_. Some (log_body q batch, '''')) (clock batch) (log_request q batch) sv of
         (resp, sv') \<Rightarrow> (response_code resp, sv')))"

text \<open>Other requests leave the log of this job alone.\<close>

definition other_requests :: "JobEventRequest \<Rightarrow> server \<Rightarrow> server \<Rightarrow> bool" where
  "other_requests q sv sv' \<longleftrightarrow> logs_ok (sDb sv') \<and>
     job_log (sDb sv') (EqRunID q) (EqJobName q) = job_log (sDb sv) (EqRunID q) (EqJobName q)"

lemma check_chunks_matches:
  "check_chunks run job previous cs = Some chunks \<Longrightarrow>
     list_all2 (\<lambda>x c. chunk_matches x c \<and> LgRunID x = run \<and> LgJobName x = job) chunks cs"
  by (induction cs arbitrary: previous chunks) (auto simp: chunk_matches_def split: if_splits)

lemma serve_logs_cases:
  assumes "serve_logs s h clock q batch sv = (code, sv')"
  obtains (refused) "sv' = sv" "code \<noteq> 204"
  | (appended) chunks d where "code = 204" "AppendJobLogs (clock batch) chunks (sDb sv) = Inr ((), d)" "sv' = sv\<lparr> sDb := d \<rparr>"
      "list_all2 (\<lambda>x c. chunk_matches x c \<and> LgRunID x = EqRunID q \<and> LgJobName x = EqJobName q) chunks batch"
proof (cases "HandleLeaseRoute (Path (log_request q batch)) = RJobLogAppend")
  case True
  obtain resp where resp: "JobLogAppend s h (\<lambda>_. Some (log_body q batch, '''')) (clock batch) (log_request q batch) sv = (resp, sv')"
      "code = response_code resp" using assms True by (auto simp: serve_logs_def split: prod.splits)
  from resp(1) show thesis
  proof (cases rule: JobLogAppend_cases)
    case (appended b chunks d)
    have "b = log_body q batch" using appended(1) by (auto simp: decodeStrictLimit_def log_request_def split: if_splits)
    then show thesis using that(2) [of chunks d] appended resp(2) check_chunks_matches by (auto simp: log_body_def)
  next
    case refused
    then show thesis using resp(2) by (intro that(1)) simp_all
  qed
next
  case False
  then have "code = 404" "sv' = sv" using assms by (simp_all add: serve_logs_def)
  then show thesis by (intro that(1)) simp_all
qed

interpretation runner_logs: log_sink "serve_logs s h clock q" "other_requests q"
  "\<lambda>sv. job_log (sDb sv) (EqRunID q) (EqJobName q)" "\<lambda>sv. logs_ok (sDb sv)" for s h clock q
proof
  fix sv sv' :: server and batch code
  assume ok: "logs_ok (sDb sv)"
  show "numbered (job_log (sDb sv) (EqRunID q) (EqJobName q))" using ok by (simp add: logs_ok_def)
  show "logs_ok (sDb sv') \<and> job_log (sDb sv') (EqRunID q) (EqJobName q) = job_log (sDb sv) (EqRunID q) (EqJobName q)"
    if "other_requests q sv sv'" using that by (simp add: other_requests_def)
  {
    assume "serve_logs s h clock q batch sv = (code, sv')"
    then show "logs_ok (sDb sv')"
      by (cases rule: serve_logs_cases) (use ok AppendJobLogs_records in auto)
  next
    assume "serve_logs s h clock q batch sv = (code, sv')"
    then show "extended_from batch (job_log (sDb sv) (EqRunID q) (EqJobName q)) (job_log (sDb sv') (EqRunID q) (EqJobName q))"
    proof (cases rule: serve_logs_cases)
      case (appended chunks d)
      obtain run job where "append_chunks (clock batch) chunks (sDb sv) = Inr ((), d)"
        using appended(2) by (rule AppendJobLogs_cases)
      from append_chunks_adds [OF this] obtain ext where ext: "job_log d (EqRunID q) (EqJobName q) = job_log (sDb sv) (EqRunID q) (EqJobName q) @ ext"
          "\<forall>x \<in> set ext. \<exists>c \<in> set chunks. same_chunk x c" by blast
      have "\<exists>c \<in> set batch. chunk_matches x c" if "x \<in> set ext" for x
      proof -
        obtain y where y: "y \<in> set chunks" "same_chunk x y" using ext(2) \<open>x \<in> set ext\<close> by blast
        then obtain c where "c \<in> set batch" "chunk_matches y c"
          using appended(4) by (auto simp: list_all2_conv_all_nth in_set_conv_nth) metis
        then show ?thesis using y(2) by (auto simp: chunk_matches_def same_chunk_def)
      qed
      then show ?thesis using ext(1) appended(3) by (auto simp: extended_from_def)
    qed (auto simp: extended_from_def)
  next
    fix c assume "serve_logs s h clock q batch sv = (204, sv')" and c: "c \<in> set batch"
    then show "log_holds (job_log (sDb sv') (EqRunID q) (EqJobName q)) c"
    proof (cases rule: serve_logs_cases)
      case (appended chunks d)
      obtain y where y: "y \<in> set chunks" "chunk_matches y c" "LgRunID y = EqRunID q" "LgJobName y = EqJobName q"
        using appended(4) c by (auto simp: list_all2_conv_all_nth in_set_conv_nth) metis
      have "recorded d y" using AppendJobLogs_records [OF ok appended(2)] y(1) by blast
      then have "job_log d (EqRunID q) (EqJobName q) ! (nat (LgSequence y) - 1) \<in> set (job_log d (EqRunID q) (EqJobName q))"
          "same_chunk (job_log d (EqRunID q) (EqJobName q) ! (nat (LgSequence y) - 1)) y"
        using y(3,4) by (auto simp: recorded_def)
      then show ?thesis
        using y(2) appended(3) unfolding log_holds_def by (auto simp: chunk_matches_def same_chunk_def)
    qed simp
  }
qed

end
