(* ===== verification/Storage_Sample.thy ===== *)
theory Storage_Sample
  imports Storage_Safety Runner_Proto Sample
begin

text \<open>
  A concrete history with artifacts, for the witnesses of the storage properties: a run whose only job
  declares two artifacts is created, leased, its artifacts committed, and completed.
\<close>

definition upload_store :: Store where
  "upload_store = sample_store\<lparr> decode := (\<lambda>_. Inr sample_upload) \<rparr>"

definition upload_create :: CreateRun where
  "upload_create = sample_create\<lparr> CrJobs := [(''j'', None)], CrDependencies := [] \<rparr>"

definition upload_run :: run_row where
  "upload_run = (new_run_row 0 upload_create sample_digest)\<lparr> rstatus := RunRunning, rstarted_at := Some 1 \<rparr>"

definition upload_db0 :: db where
  "upload_db0 = empty_db\<lparr> snapshots := [sample_snapshot], runs := [new_run_row 0 upload_create sample_digest],
     jobs := [new_job_row ''r'' (''j'', None)] \<rparr>"

definition upload_db1 :: db where
  "upload_db1 = upload_db0\<lparr> runners := [sample_runner] \<rparr>"

definition upload_db2 :: db where
  "upload_db2 = upload_db1\<lparr> runs := [upload_run],
     jobs := [lease_row 1 (1 + jobLeaseTTL) ''l1'' ''w1'' (new_job_row ''r'' (''j'', None))] \<rparr>"

definition upload_items :: "Artifact list" where
  "upload_items = [sample_artifact ''B'', (sample_artifact ''a'')\<lparr> ArRootName := ''y'' \<rparr>]"

definition upload_fresh :: "nat \<Rightarrow> string" where
  "upload_fresh i = replicate (Suc i) CHR ''i''"

definition upload_owner :: ArtifactOwnership where
  "upload_owner = sample_owner ''j'' ''l1''"

definition upload_db3 :: db where
  "upload_db3 = upload_db2\<lparr> artifacts :=
     [artifact_row (upload_fresh 0) upload_owner (upload_items ! 0), artifact_row (upload_fresh 1) upload_owner (upload_items ! 1)] \<rparr>"

definition upload_db4 :: db where
  "upload_db4 = upload_db3\<lparr> runs := [final_row 3 RunPassed upload_run],
     jobs := [complete_row 3 JobPassed None (lease_row 1 (1 + jobLeaseTTL) ''l1'' ''w1'' (new_job_row ''r'' (''j'', None)))],
     artifacts := map (\<lambda>a. a\<lparr> ArExpiresAt := Some 103 \<rparr>) (artifacts upload_db3) \<rparr>"

lemma upload_parse: "parse_stored upload_store y = Inr sample_upload"
  by (simp add: parse_stored_def ParseBytes_def upload_store_def sample_store_def sample_upload_validates)

lemma upload_created: "createRun 0 upload_create empty_db = Inr ((), upload_db0)"
  using sample_digest_hex
  by (simp add: createRun_def upload_create_def sample_create_def sample_snapshot_def insert_snapshot_def snapshot_check_def empty_db_def
      same_snapshot_def insert_run_def new_run_row_def new_job_row_def run_check_def remote_lease_consistent_def job_key_def upload_db0_def)

lemma upload_registered: "RegisterRunner 0 sample_runner upload_db0 = Inr ((), upload_db1)"
  by (simp add: RegisterRunner_def upload_db0_def upload_db1_def sample_runner_def empty_db_def)

lemmas upload_evals = upload_db0_def upload_db1_def upload_db2_def upload_run_def upload_create_def upload_owner_def sample_owner_def
  sample_upload_def sample_upload_job_def sample_plain_def sample_evals

lemma upload_leased:
  "\<exists>res. LeaseJob upload_store (\<lambda>_. False) 1 1 ''l1'' ''w1'' upload_db1 = Inr (Some res, upload_db2)"
  by (simp add: LeaseJob_def active_jobs_def lease_candidates_def leasable_def first_by_def lease_key_def upstream_with_def
      running_in_def upload_parse upload_evals)

lemma sample_digest_valid: "ValidDigest sample_digest"
  by (simp add: ValidDigest_def hex_decodes_def sample_digest_def is_hex_def list_all_iff text_evals)

lemma upload_committed: "CommitArtifacts upload_store upload_fresh 2 upload_owner upload_items upload_db2 = Inr ((), upload_db3)"
  using sample_digest_hex sample_digest_valid
  by (simp add: CommitArtifacts_def commit_fence_def sql_and_def upload_parse expected_roots_def check_items.simps item_ok_def
      upload_items_def sample_artifact_def artifacts_of_def artifact_row_def artifact_check_def artifact_key_def job_key_def
      upload_fresh_def upload_db3_def jobLeaseTTL_def Format_def alnum_def upload_evals text_evals)

lemma upload_completed: "CompleteJob upload_store 3 upload_owner JobPassed None upload_db3 = Inr ((), upload_db4)"
proof -
  have "collate upload_store = (\<lambda>x. x)" by (simp add: upload_store_def sample_store_def)
  have "artifactSetCommittedTx upload_store y ''r'' ''j'' upload_db3 = Inr True" for y
    using artifactSetCommitted_mset [OF \<open>collate upload_store = _\<close> upload_parse]
    by (simp add: upload_db3_def upload_items_def artifact_row_def sample_artifact_def upload_evals)
  moreover have "artifactRetention upload_store = 100" by (simp add: upload_store_def sample_store_def)
  ultimately show ?thesis
    using sample_digest_hex
    by (simp add: CompleteJob_def alnum_def owns_def jobLeaseTTL_def finalizeRun_def run_verdict_def final_row_def expire_artifacts_of_def
        upload_db4_def upload_db3_def upload_items_def artifact_row_def artifact_check_def sample_artifact_def upload_evals text_evals)
qed

lemma upload_reachable2: "remote_reachable upload_store upload_db2"
proof -
  have "remote_step upload_store empty_db upload_db0"
    using remote_step.create [OF _ upload_created, of upload_store] by (simp add: upload_create_def sample_create_def)
  moreover have "remote_step upload_store upload_db0 upload_db1" by (rule remote_step.register [OF upload_registered])
  moreover have "remote_step upload_store upload_db1 upload_db2" using upload_leased remote_step.lease by blast
  ultimately show ?thesis unfolding remote_reachable_def by (meson rtranclp.rtrancl_into_rtrancl rtranclp.rtrancl_refl)
qed

lemma upload_reachable4: "remote_reachable upload_store upload_db4"
proof -
  have "remote_step upload_store upload_db2 upload_db3"
    by (intro remote_step.storage storage_step.commit_artifacts [OF upload_committed])
  moreover have "remote_step upload_store upload_db3 upload_db4" by (rule remote_step.complete [OF upload_completed])
  ultimately show ?thesis using upload_reachable2 unfolding remote_reachable_def by (meson rtranclp.rtrancl_into_rtrancl)
qed

end
