(* ===== verification/Storage_Properties.thy ===== *)
theory Storage_Properties
  imports Storage_Sample
begin

text \<open>
  The properties of the storage side of the server: artifacts, caches and logs in the database, the blob
  store, the upload of logs by a remote runner, and the HTTP handlers in front of them; with their witnesses.
\<close>

section \<open>Helper lemmas\<close>

lemma reachable_storageD:
  assumes "remote_reachable s d"
  shows "distinct (map artifact_key (artifacts d))" and "a \<in> set (artifacts d) \<Longrightarrow> artifact_check a"
    and "caches_ok d" and "logs_ok d"
  using remote_reachable_storage_ok [OF assms] by (auto simp: storage_ok_def)

lemma owns_fence:
  assumes "owns (OwRunID owner) (OwJobName owner) (OwRunnerID owner) (OwLeaseID owner) (OwGeneration owner) now j"
  shows "commit_fence owner now j = Some True"
  using assms by (auto simp: owns_def commit_fence_def sql_and_def split: option.splits)

lemma held_fence:
  assumes ok: "tables_ok d" and held: "lease_held d owner now"
    and j: "j \<in> set (jobs d)" "jrun j = OwRunID owner" "jname j = OwJobName owner"
  shows "commit_fence owner now j = Some True"
proof -
  obtain i where i: "i \<in> set (jobs d)"
      "owns (OwRunID owner) (OwJobName owner) (OwRunnerID owner) (OwLeaseID owner) (OwGeneration owner) now i"
    using held by (auto simp: lease_held_def)
  then have "job_key i = job_key j" using j by (simp add: owns_def job_key_def)
  then have "i = j" using key_unique [OF tables_okD(2) [OF ok] i(1) j(1)] by simp
  then show ?thesis using owns_fence i(2) by blast
qed

section \<open>The database\<close>

text \<open>C7. In every reachable state an artifact is identified by its run, job and name, a live cache entry by
  its workspace and key, and the log chunks of every job are numbered from 1 without a gap, belong to an
  existing job and respect the size and stream limits.\<close>

theorem storage_invariant:
  assumes "remote_reachable s d"
  shows "distinct (map artifact_key (artifacts d)) \<and> distinct (map cache_key_of (live_rows d)) \<and>
    (\<forall>run job. numbered (job_log d run job)) \<and>
    (\<forall>c \<in> set (logs d). valid_chunk c \<and> job_exists (LgRunID c) (LgJobName c) d)"
  using reachable_storageD [OF assms] by (simp add: caches_ok_def logs_ok_def)

theorem storage_invariant_witness:
  "remote_reachable upload_store upload_db4 \<and> distinct (map artifact_key (artifacts upload_db4)) \<and>
   map ArName (artifacts upload_db4) = [''B'', ''a'']"
  using storage_invariant [OF upload_reachable4] upload_reachable4
  by (simp add: upload_db4_def upload_db3_def artifact_row_def upload_items_def sample_artifact_def)

text \<open>C6. A job that is PASSED has committed every artifact its pipeline declares for it.\<close>

theorem passed_job_committed:
  assumes "remote_reachable s d" and "j \<in> set (jobs d)" and "jstatus j = JobPassed"
    and "r \<in> set (runs d)" and "jrun j = rid r"
  shows "\<exists>cfg decl. parse_stored s (ryaml r) = Inr cfg \<and> map_of (Jobs cfg) (jname j) = Some decl \<and>
    UpName ` set (Upload (JobArtifacts decl)) \<subseteq> ArName ` set (artifacts_of (rid r) (jname j) d)"
  using remote_reachable_passed [OF assms(1)] assms(2-) by (auto simp: passed_committed_def declared_committed_def)

theorem passed_job_committed_witness:
  "\<exists>j \<in> set (jobs upload_db4). jstatus j = JobPassed \<and> {''B'', ''a''} \<subseteq> ArName ` set (artifacts_of ''r'' (jname j) upload_db4)"
proof -
  let ?j = "complete_row 3 JobPassed None (lease_row 1 (1 + jobLeaseTTL) ''l1'' ''w1'' (new_job_row ''r'' (''j'', None)))"
  let ?r = "final_row 3 RunPassed upload_run"
  have j: "?j \<in> set (jobs upload_db4)" "jstatus ?j = JobPassed" "?r \<in> set (runs upload_db4)" "jrun ?j = rid ?r"
    by (simp_all add: upload_db4_def upload_run_def complete_row_def lease_row_def new_job_row_def final_row_def new_run_row_def
        upload_create_def sample_create_def)
  have "rid ?r = ''r''" "jname ?j = ''j''"
    by (simp_all add: upload_run_def complete_row_def lease_row_def new_job_row_def final_row_def new_run_row_def
        upload_create_def sample_create_def)
  then have "{''B'', ''a''} \<subseteq> ArName ` set (artifacts_of ''r'' (jname ?j) upload_db4)"
    using passed_job_committed [OF upload_reachable4 j] by (simp add: upload_parse sample_upload_def sample_upload_job_def)
  then show ?thesis using j(1,2) by blast
qed

text \<open>Every artifact of an accepted commit can be read back with the committed metadata, and repeating
  the commit while the lease is held changes nothing and is accepted again.\<close>

theorem artifact_roundtrip:
  assumes reach: "remote_reachable s d" and c: "CommitArtifacts s fresh now owner items d = Inr (u, d')"
  shows "(\<forall>item \<in> set items. \<exists>a. GetArtifact (OwRunID owner) (OwJobName owner) (ArName item) d' = Inr (a, ArDeletedAt a = None) \<and>
      ArName a = ArName item \<and> same_metadata a item) \<and>
    (lease_held d owner now' \<longrightarrow> CommitArtifacts s fresh' now' owner items d' = Inr ((), d'))"
proof (intro conjI ballI impI)
  note uniq = reachable_storageD(1) [OF reach]
  fix item assume "item \<in> set items"
  then show "\<exists>a. GetArtifact (OwRunID owner) (OwJobName owner) (ArName item) d' = Inr (a, ArDeletedAt a = None) \<and>
      ArName a = ArName item \<and> same_metadata a item"
    using CommitArtifacts_read [OF c uniq] by (metis scanArtifact_def)
next
  assume "lease_held d owner now'"
  then show "CommitArtifacts s fresh' now' owner items d' = Inr ((), d')"
    using CommitArtifacts_repeat [OF c reachable_storageD(1) [OF reach]]
      held_fence [OF sched_midD(1) [OF remote_reachable_ok [OF reach]]] by blast
qed

theorem artifact_roundtrip_witness:
  "\<exists>a. GetArtifact ''r'' ''j'' ''B'' upload_db3 = Inr (a, ArDeletedAt a = None) \<and> same_metadata a (sample_artifact ''B'')"
  using artifact_roundtrip [OF upload_reachable2 upload_committed]
  by (auto simp: upload_items_def upload_owner_def sample_owner_def sample_artifact_def)

text \<open>On a bytewise collation an accepted commit is what completion as PASSED asks for: the check of the
  artifact set that \<open>CompleteJob\<close> makes succeeds afterwards, unless one of the job's artifacts had
  already been deleted.\<close>

theorem commit_enables_completion:
  assumes reach: "remote_reachable s d" and c: "CommitArtifacts s fresh now owner items d = Inr (u, d')"
    and live: "\<forall>a \<in> set (artifacts_of (OwRunID owner) (OwJobName owner) d). ArDeletedAt a = None"
    and bytewise: "collate s = (\<lambda>x. x)"
    and p: "find (\<lambda>r. rid r = OwRunID owner \<and> rstatus r = RunRunning) (runs d) = Some p"
    and cfg: "parse_stored s (ryaml p) = Inr cfg" "distinct (map fst (Jobs cfg))"
  shows "artifactSetCommittedTx s (ryaml p) (OwRunID owner) (OwJobName owner) d' = Inr True"
  using CommitArtifacts_complete [OF c reachable_storageD(1) [OF reach] _ bytewise p cfg] live by blast

theorem commit_enables_completion_witness:
  "artifactSetCommittedTx upload_store ''y'' ''r'' ''j'' upload_db3 = Inr True"
proof -
  have "find (\<lambda>r. rid r = OwRunID upload_owner \<and> rstatus r = RunRunning) (runs upload_db2) = Some upload_run"
    by (simp add: upload_evals)
  moreover have "collate upload_store = (\<lambda>x. x)" by (simp add: upload_store_def sample_store_def)
  moreover have "artifacts upload_db2 = []" by (simp add: upload_evals)
  moreover have "distinct (map fst (Jobs sample_upload))" by (simp add: sample_upload_def)
  moreover have "OwRunID upload_owner = ''r''" "OwJobName upload_owner = ''j''" "ryaml upload_run = ''y''"
    by (simp_all add: upload_evals)
  ultimately show ?thesis
    using commit_enables_completion [OF upload_reachable2 upload_committed _ _ _ upload_parse]
    by (metis artifacts_of_def filter.simps(1) list.set(1) empty_iff)
qed

text \<open>Expiring artifacts always succeeds, and the blobs it hands out for removal, sorted and without
  repetition, are exactly those that lost their last live artifact in this transaction.\<close>

theorem artifact_expiry_releases:
  assumes "remote_reachable s d"
  shows "\<exists>removable d'. ExpireArtifacts now d = Inr (removable, d') \<and> sorted removable \<and> distinct removable \<and>
    set removable = LiveArtifactBlobs d - LiveArtifactBlobs d'"
proof -
  note chk = reachable_storageD(2) [OF assms]
  obtain removable d' where e: "ExpireArtifacts now d = Inr (removable, d')"
    using ExpireArtifacts_eq [OF chk] by (simp add: Let_def)
  have d': "d' = d\<lparr> artifacts := upd_where (artifact_expired now) (\<lambda>a. a\<lparr> ArDeletedAt := Some now \<rparr>) (artifacts d) \<rparr>"
    using e by (auto simp: ExpireArtifacts_eq [OF chk] Let_def)
  have chk': "\<And>a. a \<in> set (artifacts d') \<Longrightarrow> trim_space (ArBlob a) = ArBlob a"
    using chk artifact_blob_trim by (auto simp: d' set_upd_where)
  have live: "LiveArtifactBlobs x = {b. live_artifact_blob x b}" if "\<And>a. a \<in> set (artifacts x) \<Longrightarrow> trim_space (ArBlob a) = ArBlob a" for x
    using that by (auto simp: LiveArtifactBlobs_def live_blob_iff image_iff)
  have "LiveArtifactBlobs d = {b. live_artifact_blob d b}" "LiveArtifactBlobs d' = {b. live_artifact_blob d' b}"
    using live chk chk' artifact_blob_trim by blast+
  then show ?thesis using ExpireArtifacts_releases [OF chk e] e by blast
qed

theorem artifact_expiry_releases_witness:
  "\<exists>removable d'. ExpireArtifacts 200 upload_db4 = Inr (removable, d') \<and> set removable = LiveArtifactBlobs upload_db4 - LiveArtifactBlobs d'"
  using artifact_expiry_releases [OF upload_reachable4] by blast


definition sample_cache :: "string \<Rightarrow> string \<Rightarrow> time \<Rightarrow> CacheMetadata" where
  "sample_cache key blob used = \<lparr> CmID = key, CmWorkspace = ''w'', CmKey = key, CmRootName = ''m'', CmRootKind = ''file'',
     CmContent = sample_digest, CmBlob = blob, CmFormat = CacheFormat, CmArchiveSize = 3, CmLogicalSize = 3, CmEntryCount = 1,
     CmCreatedAt = 0, CmLastAccessedAt = used, CmExpiresAt = None, CmDeletedAt = None \<rparr>"

definition sample_cache_db :: db where
  "sample_cache_db = empty_db\<lparr> caches := [sample_cache ''k1'' ''b1'' 7, sample_cache ''k2'' ''b2'' 5] \<rparr>"


text \<open>An accepted cache commit leaves exactly one live entry under its key, with the committed metadata, that
  a lookup returns until it expires; a second commit of the key is accepted when it carries the same
  metadata, without changing anything, and refused as a conflict otherwise.\<close>

theorem cache_roundtrip:
  assumes reach: "remote_reachable s d" and c: "CommitCache s ident clock m d = Inr (u, d')"
    and key: "CmWorkspace m' = CmWorkspace m" "CmKey m' = CmKey m"
  shows "(\<exists>e. filter (live_cache (CmWorkspace m) (CmKey m)) (caches d') = [e] \<and> sameCacheMetadata e m \<and>
      (unexpired t e \<longrightarrow> (\<exists>e' d''. LookupCache s (CmWorkspace m) (CmKey m) t d' = Inr (e', d'') \<and> sameCacheMetadata e' m))) \<and>
    CommitCache s ident' clock' m' d' = (if sameCacheMetadata m m' then Inr ((), d') else Inl ErrConflict)"
proof (rule conjI)
  let ?P = "live_cache (CmWorkspace m) (CmKey m)"
  have ok: "caches_ok d'" using CommitCache_ok [OF reachable_storageD(3) [OF reach] c] .
  obtain e where e: "find ?P (caches d') = Some e" "sameCacheMetadata e m" using c by (rule CommitCache_live)
  have all: "x = e" if "x \<in> set (caches d')" "?P x" for x using find_live [OF ok that] e(1) by simp
  have "distinct (filter ?P (caches d'))" using ok by (auto simp: caches_ok_def distinct_map intro: distinct_filter)
  moreover have "set (filter ?P (caches d')) = {e}" using all find_SomeD [OF e(1)] by auto
  ultimately have one: "filter ?P (caches d') = [e]"
    by (rule singleton_list)
  have "\<exists>e' d''. LookupCache s (CmWorkspace m) (CmKey m) t d' = Inr (e', d'') \<and> sameCacheMetadata e' m" if u: "unexpired t e"
  proof -
    have "find (\<lambda>x. ?P x \<and> unexpired t x) (caches d') = Some e"
      using find_SomeD [OF e(1)] all u by (intro find_unique) auto
    then show ?thesis using e(2) by (simp add: LookupCache_def Let_def sameCacheMetadata_def)
  qed
  then show "\<exists>e. filter ?P (caches d') = [e] \<and> sameCacheMetadata e m \<and>
      (unexpired t e \<longrightarrow> (\<exists>e' d''. LookupCache s (CmWorkspace m) (CmKey m) t d' = Inr (e', d'') \<and> sameCacheMetadata e' m))"
    using one e(2) by blast
  show "CommitCache s ident' clock' m' d' = (if sameCacheMetadata m m' then Inr ((), d') else Inl ErrConflict)"
    using CommitCache_again [OF c key] .
qed

lemma sample_cache_committed:
  "\<exists>d'. CommitCache upload_store ''id'' 2 (sample_cache ''k'' sample_digest 0) upload_db2 = Inr ((), d')"
  using sample_digest_hex
  by (simp add: CommitCache_def insert_cache_def cache_row_def cache_check_def sample_cache_def CacheFormat_def live_cache_def
      sameCacheMetadata_def cacheKeyPattern.simps alnum_def upload_evals text_evals)

theorem cache_roundtrip_witness:
  "\<exists>d'. CommitCache upload_store ''id'' 2 (sample_cache ''k'' sample_digest 0) upload_db2 = Inr ((), d') \<and>
     CommitCache upload_store ''id2'' 3 ((sample_cache ''k'' sample_digest 0)\<lparr> CmEntryCount := 2 \<rparr>) d' = Inl ErrConflict"
proof -
  obtain d' where c: "CommitCache upload_store ''id'' 2 (sample_cache ''k'' sample_digest 0) upload_db2 = Inr ((), d')"
    using sample_cache_committed by blast
  then show ?thesis
    using cache_roundtrip [OF upload_reachable2 c, of "(sample_cache ''k'' sample_digest 0)\<lparr> CmEntryCount := 2 \<rparr>" 0 "''id2''" 3]
    by (simp add: sameCacheMetadata_def sample_cache_def)
qed

section \<open>Logs\<close>

text \<open>Writing through the log writer of a job: the number of bytes a write reports is exactly what it added
  to its own stream of the durable log, in order, and it adds nothing to another stream; all bytes are
  reported exactly when no error is.\<close>

theorem log_writer_roundtrip:
  assumes reach: "remote_reachable s d"
    and w: "wRunID w = run" "wJobName w = job" "wSequence w = int (length (job_log d run job))"
    and wr: "Write (pg_append clock) ctxErr stream p w d = ((n, e), w', d')"
  shows "n \<le> length p \<and> (e = None \<longleftrightarrow> n = length p \<and> (p = [] \<or> wFirstErr w = None)) \<and>
    stream_text stream (job_log d' run job) = stream_text stream (job_log d run job) @ take n p \<and>
    (other \<noteq> stream \<longrightarrow> stream_text other (job_log d' run job) = stream_text other (job_log d run job)) \<and>
    wSequence w' = int (length (job_log d' run job))"
proof -
  have f: "pg_log.follows run job w d" using w by (simp add: pg_log.follows_def)
  show ?thesis
    using pg_log.Write_records [OF reachable_storageD(4) [OF reach] f wr, of other] by (auto simp: pg_log.follows_def)
qed

text \<open>A write to the log of an existing job that is not cancelled always returns, with every byte
  recorded, whatever its length.\<close>

theorem log_writer_total:
  assumes reach: "remote_reachable s d" and job: "job_exists run job d" "run \<noteq> []" "job \<noteq> []" and fresh: "job_log d run job = []"
    and stream: "stream = ''stdout'' \<or> stream = ''stderr''" and ctx: "\<forall>i. ctxErr i = None"
  shows "\<exists>w' d'. Write (pg_append clock) ctxErr stream p (New run job) d = ((length p, None), w', d') \<and>
    stream_text stream (job_log d' run job) = p"
proof -
  note ok = reachable_storageD(4) [OF reach]
  have f: "pg_log.follows run job (New run job) d" using fresh by (simp add: pg_log.follows_def New_def)
  obtain w' d' where l: "write_loop (pg_append clock) ctxErr stream p 0 (New run job) d = ((length p, None), w', d')"
    using pg_log.write_loop_total [where ctxErr = ctxErr and clock = clock and p = p and offset = 0, OF ok f job(1,2,3) stream] ctx by blast
  have none: "wFirstErr (New run job :: store_error Writer) = None" by (simp add: New_def)
  show ?thesis
  proof (cases "p = []")
    case True
    then show ?thesis using fresh by (auto simp: Write_def stream_text_def)
  next
    case False
    then have "Write (pg_append clock) ctxErr stream p (New run job) d = ((length p, None), w', d')"
      using l none by (simp add: Write_def)
    then show ?thesis using pg_log.Write_records [OF ok f] fresh by (fastforce simp: stream_text_def)
  qed
qed

theorem log_writer_total_witness:
  "\<exists>w' d'. Write (pg_append (\<lambda>_. 2)) (\<lambda>_. None) ''stdout'' ''ok'' (New ''r'' ''j'') upload_db2 = ((2, None), w', d') \<and>
     stream_text ''stdout'' (job_log d' ''r'' ''j'') = ''ok''"
proof -
  have "job_exists ''r'' ''j'' upload_db2" "job_log upload_db2 ''r'' ''j'' = []"
    by (simp_all add: job_exists_def job_log_def upload_evals)
  then show ?thesis
    using log_writer_total [OF upload_reachable2, of "''r''" "''j''" "''stdout''" "\<lambda>_. None" "\<lambda>_. 2" "''ok''"]
    by (simp add: numeral_2_eq_2)
qed

theorem log_writer_roundtrip_witness:
  "\<exists>n e w' d'. Write (pg_append (\<lambda>_. 2)) (\<lambda>_. None) ''stdout'' ''ok'' (New ''r'' ''j'') upload_db2 = ((n, e), w', d') \<and>
     stream_text ''stdout'' (job_log d' ''r'' ''j'') = take n ''ok'' \<and> stream_text ''stderr'' (job_log d' ''r'' ''j'') = ''''"
proof -
  obtain n e w' d' where w: "Write (pg_append (\<lambda>_. 2)) (\<lambda>_. None) ''stdout'' ''ok'' (New ''r'' ''j'') upload_db2 = ((n, e), w', d')"
    by (metis prod.exhaust)
  have "job_log upload_db2 ''r'' ''j'' = []" by (simp add: job_log_def upload_evals)
  then show ?thesis
    using log_writer_roundtrip [OF upload_reachable2 _ _ _ w, of "''r''" "''j''" "''stderr''"] w by (simp add: New_def stream_text_def)
qed

text \<open>An accepted batch of log chunks is recorded completely, repeating it is accepted and changes nothing,
  and reading the log of any job from a position returns the next chunks after that position, as many as the
  clamped limit allows.\<close>

theorem log_pages:
  assumes reach: "remote_reachable s d" and a: "AppendJobLogs clock cs d = Inr (u, d')"
  shows "(\<forall>c \<in> set cs. recorded d' c) \<and> AppendJobLogs clock' cs d' = Inr ((), d') \<and>
    (job_exists run job d \<longrightarrow> 0 \<le> after \<longrightarrow>
      ListJobLogs run job after limit d' = Inr (take (clamp_limit limit) (drop (nat after) (job_log d' run job))))"
proof -
  note ok = reachable_storageD(4) [OF reach]
  have r: "logs_ok d'" "\<forall>c \<in> set cs. recorded d' c" "d' = d\<lparr> logs := logs d' \<rparr>"
    using AppendJobLogs_records [OF ok a] by auto
  have "jobs d' = jobs d" using r(3) by (metis db.select_convs(2) db.update_convs(8) db.surjective)
  then have "job_exists run job d' = job_exists run job d" by (simp add: job_exists_def)
  then show ?thesis using r AppendJobLogs_again [OF ok a] ListJobLogs_slice [OF r(1)] by simp
qed

definition sample_chunk :: "int \<Rightarrow> string \<Rightarrow> JobLogChunk" where
  "sample_chunk n p = \<lparr> LgRunID = ''r'', LgJobName = ''j'', LgSequence = n, LgStream = ''stdout'', LgCreatedAt = 1, LgPayload = p \<rparr>"

lemma sample_chunks_appended:
  "\<exists>d'. AppendJobLogs 2 [sample_chunk 1 ''a'', sample_chunk 2 ''b''] upload_db2 = Inr ((), d')"
  by (simp add: AppendJobLogs_def append_chunk_def stamped_def max_sequence_def valid_chunk_def maxJobLogChunk_def job_exists_def
      job_log_def sample_chunk_def upload_evals)

theorem log_pages_witness:
  "\<exists>d'. AppendJobLogs 2 [sample_chunk 1 ''a'', sample_chunk 2 ''b''] upload_db2 = Inr ((), d') \<and>
     recorded d' (sample_chunk 2 ''b'') \<and> AppendJobLogs 3 [sample_chunk 1 ''a'', sample_chunk 2 ''b''] d' = Inr ((), d')"
proof -
  obtain d' where a: "AppendJobLogs 2 [sample_chunk 1 ''a'', sample_chunk 2 ''b''] upload_db2 = Inr ((), d')"
    using sample_chunks_appended by blast
  then show ?thesis using log_pages [OF upload_reachable2 a] by auto
qed

text \<open>C30. The queue between a remote job and its uploader stays well formed: its chunks carry consecutive
  numbers, obey the size limits, and their bytes are counted exactly and never exceed 1 MiB. A batch is
  the next eight chunks (or fewer), its request stays below 1 MiB, and a chunk is always accepted by an open,
  empty queue, so that neither side waits for the other forever.\<close>

theorem queue_bounds:
  assumes ok: "queue_ok q"
  shows "(\<forall>stream payload n q'. Enqueue stream payload q = Got (n, q') \<longrightarrow> queue_ok q') \<and>
    (\<forall>count q'. Ack count q = Inr q' \<longrightarrow> queue_ok q') \<and> (\<forall>e. queue_ok (Fail e q)) \<and> queue_ok (Close q) \<and>
    0 \<le> PendingBytes q \<and> PendingBytes q \<le> 1048576 \<and>
    PeekBatch MaxLogChunksPerRequest MaxLogAppendBodyBytes q = take 8 (qchunks q) \<and>
    512 + sum_list (map encoded_size (PeekBatch MaxLogChunksPerRequest MaxLogAppendBodyBytes q)) \<le> 1048576 \<and>
    (qchunks q = [] \<longrightarrow> qfailure q = None \<longrightarrow> \<not> qclosed q \<longrightarrow>
      (\<forall>payload. 0 < length payload \<longrightarrow> length payload \<le> 65536 \<longrightarrow> (\<exists>n q'. Enqueue ''stdout'' payload q = Got (n, q'))))"
proof -
  have "512 + sum_list (map encoded_size (peek_loop 8 1048576 512 0 (qchunks q))) \<le> 1048576"
    using peek_loop_limits [of 0 8 512 1048576 "qchunks q"] by simp
  moreover have "PeekBatch MaxLogChunksPerRequest MaxLogAppendBodyBytes q = peek_loop 8 1048576 512 0 (qchunks q)"
    by (simp add: PeekBatch_def MaxLogChunksPerRequest_def MaxLogAppendBodyBytes_def)
  moreover have "0 \<le> PendingBytes q" "PendingBytes q \<le> 1048576"
    using ok by (auto simp: PendingBytes_def queue_ok_def MaxPendingLogBytes_def)
  moreover have "PeekBatch MaxLogChunksPerRequest MaxLogAppendBodyBytes q = take 8 (qchunks q)"
    using PeekBatch_eq [OF ok] by (simp add: MaxLogChunksPerRequest_def)
  moreover have "\<exists>n q'. Enqueue ''stdout'' payload q = Got (n, q')"
    if "qchunks q = []" "qfailure q = None" "\<not> qclosed q" "0 < length payload" "length payload \<le> 65536" for payload
    using Enqueue_empty [OF ok] that by (simp add: MaxLogChunkBytes_def)
  ultimately show ?thesis using ok Enqueue_ok Ack_ok Fail_ok Close_ok by auto
qed

theorem queue_bounds_witness:
  "\<exists>n q'. Enqueue ''stdout'' ''x'' (NewPendingLogQueue :: upload_error PendingLogQueue) = Got (n, q') \<and> queue_ok q'"
proof -
  let ?q = "NewPendingLogQueue :: upload_error PendingLogQueue"
  have "qchunks ?q = []" "qfailure ?q = None" "\<not> qclosed ?q" by (simp_all add: NewPendingLogQueue_def)
  moreover have "0 < length ''x''" "length ''x'' \<le> 65536" by simp_all
  ultimately show ?thesis using queue_bounds [OF NewPendingLogQueue_ok, where ?'a = upload_error] by metis
qed

text \<open>C4. Remote log delivery: whatever requests or responses are lost and repeated, the durable log of the
  job in the database is at every moment a prefix of what the job wrote, and when the uploader has stopped
  without a recorded failure and without being cancelled it is all of it.\<close>

theorem log_delivery:
  assumes "logs_ok (sDb sv)" and "job_log (sDb sv) (EqRunID q) (EqJobName q) = []"
    and "upload_reachable (serve_logs s h clock q) (other_requests q) sv st"
  shows "list_all2 chunk_matches (job_log (sDb (sServer st)) (EqRunID q) (EqJobName q))
      (take (length (job_log (sDb (sServer st)) (EqRunID q) (EqJobName q))) (sWritten st)) \<and>
    (sPhase st = Stopped \<longrightarrow> qfailure (sQueue st) = None \<longrightarrow> \<not> sCanceled st \<longrightarrow>
      list_all2 chunk_matches (job_log (sDb (sServer st)) (EqRunID q) (EqJobName q)) (sWritten st))"
  using runner_logs.durable_prefix [OF assms] runner_logs.complete_delivery [OF assms] by blast

definition sample_handlers :: Handlers where
  "sample_handlers = \<lparr> token = ''t'', shutting = False, openBlob = None, has_artifacts = True, has_cache = True,
     validUUID = (\<lambda>_. True), sha256 = (\<lambda>_. sample_digest) \<rparr>"

definition sample_server :: server where
  "sample_server = \<lparr> sDb = upload_db2, sArtifacts = \<lparr> limits = DefaultLimits, blobs = (\<lambda>_. None), temps = [] \<rparr>,
     sCaches = \<lparr> limits = DefaultLimits, blobs = (\<lambda>_. None), temps = [] \<rparr> \<rparr>"

definition sample_request :: JobEventRequest where
  "sample_request = \<lparr> EqRunnerID = ''w1'', EqRunID = ''r'', EqLeaseID = ''l1'', EqGeneration = 1, EqJobName = ''j'', EqStatus = '''' \<rparr>"

theorem log_delivery_witness:
  "\<exists>st. upload_reachable (serve_logs upload_store sample_handlers (\<lambda>_. 2) sample_request) (other_requests sample_request) sample_server st \<and>
     map PcPayload (sWritten st) = [''hi''] \<and>
     list_all2 chunk_matches (job_log (sDb (sServer st)) ''r'' ''j'') (take (length (job_log (sDb (sServer st)) ''r'' ''j'')) (sWritten st))"
proof -
  let ?serve = "serve_logs upload_store sample_handlers (\<lambda>_. 2) sample_request"
  let ?other = "other_requests sample_request"
  obtain n q where e: "Enqueue ''stdout'' ''hi'' (sQueue (upload_init sample_server)) = Got (n, q)"
    by (simp add: upload_init_def NewPendingLogQueue_def Enqueue_def MaxLogChunkBytes_def MaxPendingLogBytes_def Let_def)
  let ?st = "(upload_init sample_server)\<lparr> sQueue := q,
    sWritten := sWritten (upload_init sample_server) @ [\<lparr> PcSequence = n, PcStream = ''stdout'', PcPayload = ''hi'' \<rparr>] \<rparr>"
  have "upload_step ?serve ?other (upload_init sample_server) ?st" by (rule upload_step.job_writes [OF e])
  then have r: "upload_reachable ?serve ?other sample_server ?st" by (auto simp: upload_reachable_def)
  have ok: "logs_ok (sDb sample_server)" using reachable_storageD(4) [OF upload_reachable2] by (simp add: sample_server_def)
  have none: "job_log (sDb sample_server) (EqRunID sample_request) (EqJobName sample_request) = []"
    by (simp add: sample_server_def job_log_def upload_evals)
  have names: "EqRunID sample_request = ''r''" "EqJobName sample_request = ''j''" by (simp_all add: sample_request_def)
  have "list_all2 chunk_matches (job_log (sDb (sServer ?st)) ''r'' ''j'')
      (take (length (job_log (sDb (sServer ?st)) ''r'' ''j'')) (sWritten ?st))"
    using log_delivery [OF ok none r] unfolding names by (rule conjunct1)
  moreover have "map PcPayload (sWritten ?st) = [''hi'']" by (simp add: upload_init_def)
  ultimately show ?thesis using r by (intro exI [of _ ?st] conjI)
qed

section \<open>The handlers\<close>


definition sample_batch :: "PendingLogChunk list" where
  "sample_batch = [\<lparr> PcSequence = 1, PcStream = ''stdout'', PcPayload = ''hi'' \<rparr>]"

lemma sample_path: "path_parts (log_request sample_request sample_batch) = [''v1'', ''runner'', ''leases'', ''l1'', ''jobs'', ''j'', ''logs'']"
  by (simp add: path_parts_def log_request_def log_path_def sample_request_def trim_char_def slash_def)

lemma sample_get_run:
  "\<exists>run. GetRun upload_store ''r'' upload_db2 = Inr run \<and> rid (RunRow run) = ''r'' \<and>
     validArtifactLease run (owner_of sample_request) JobRunning 2"
  by (simp add: GetRun_def scanRun_def validArtifactLease_def owner_of_def sample_request_def jobLeaseTTL_def upload_evals)

lemma sample_log_append:
  "snd (JobLogAppend upload_store sample_handlers (\<lambda>_. Some (log_body sample_request sample_batch, '''')) 2
     (log_request sample_request sample_batch) sample_server) \<noteq> sample_server"
proof -
  obtain run where run: "GetRun upload_store ''r'' upload_db2 = Inr run" "rid (RunRow run) = ''r''"
      "validArtifactLease run (owner_of sample_request) JobRunning 2"
    using sample_get_run by blast
  have chunks: "check_chunks ''r'' ''j'' 0 sample_batch = Some [(sample_chunk 1 ''hi'')\<lparr> LgCreatedAt := 0 \<rparr>]"
    by (simp add: sample_batch_def sample_chunk_def MaxLogChunkBytes_def)
  obtain d where d: "AppendJobLogs 2 [(sample_chunk 1 ''hi'')\<lparr> LgCreatedAt := 0 \<rparr>] upload_db2 = Inr ((), d)" "logs d \<noteq> logs upload_db2"
    by (simp add: AppendJobLogs_def append_chunk_def stamped_def max_sequence_def valid_chunk_def maxJobLogChunk_def job_exists_def
        job_log_def sample_chunk_def upload_evals)
  have req: "Method (log_request sample_request sample_batch) = ''POST''" "ContentLength (log_request sample_request sample_batch) = 708"
      "Query (log_request sample_request sample_batch) ''run_id'' = ''r''" "Query (log_request sample_request sample_batch) ''runner_id'' = ''w1''"
      "Body (log_request sample_request sample_batch) = ''''"
    by (simp_all add: log_request_def sample_request_def sample_batch_def encoded_size_def)
  have body: "LqRunID (log_body sample_request sample_batch) = ''r''" "LqRunnerID (log_body sample_request sample_batch) = ''w1''"
      "LqLeaseID (log_body sample_request sample_batch) = ''l1''" "LqJobName (log_body sample_request sample_batch) = ''j''"
      "LqGeneration (log_body sample_request sample_batch) = 1" "LqChunks (log_body sample_request sample_batch) = sample_batch"
    by (simp_all add: log_body_def sample_request_def)
  have batch: "sample_batch \<noteq> []" "length sample_batch = 1" by (simp_all add: sample_batch_def)
  have owner: "owner_of sample_request = \<lparr> OwRunID = ''r'', OwRunnerID = ''w1'', OwLeaseID = ''l1'', OwJobName = ''j'', OwGeneration = 1 \<rparr>"
    by (simp add: owner_of_def sample_request_def)
  have "JobLogAppend upload_store sample_handlers (\<lambda>_. Some (log_body sample_request sample_batch, '''')) 2
      (log_request sample_request sample_batch) sample_server = (Reply 204 (), sample_server\<lparr> sDb := d \<rparr>)"
    using run chunks d(1)
    by (simp add: JobLogAppend_def sample_path Let_def decodeStrictLimit_def req body batch owner sample_handlers_def json_space_def
        sample_server_def MaxLogAppendBodyBytes_def MaxLogChunksPerRequest_def del: check_chunks.simps)
  then show ?thesis using d(2) by (auto simp: sample_server_def)
qed


text \<open>C35. A log upload of a job reaches the log handler exactly when the job is not named
  \<open>cache\<close>, \<open>cache-blobs\<close>, \<open>artifacts\<close> or
  \<open>artifact-blobs\<close>: the router looks for these words anywhere in the path before it looks for
  the log route, and job names are not restricted to avoid them.\<close>

theorem log_route_iff:
  assumes "slash \<notin> set lease" and "slash \<notin> set job" and "lease \<notin> reserved_components"
  shows "HandleLeaseRoute (log_path lease job) = RJobLogAppend \<longleftrightarrow> job \<notin> {''cache'', ''cache-blobs'', ''artifacts'', ''artifact-blobs''}"
  using log_route [OF assms] by (auto simp: reserved_components_def)

theorem log_route_iff_witness:
  "HandleLeaseRoute (log_path ''l1'' ''build'') = RJobLogAppend \<and> HandleLeaseRoute (log_path ''l1'' ''cache'') \<noteq> RJobLogAppend"
  using log_route_iff [of "''l1''" "''build''"] log_route_iff [of "''l1''" "''cache''"]
  by (simp add: slash_def reserved_components_def)

text \<open>The blob store stays intact: every stored blob has the digest it is stored under and respects the
  size limit. An accepted upload can be read back with the announced size and digest, leaves every other blob
  readable, and can be repeated without effect; removing orphans keeps live blobs and recent ones.\<close>

theorem blob_store_intact:
  assumes "intact sha st" and p: "Put sha now digest sz src st = Inr (n, st')"
  shows "intact sha st' \<and> (\<exists>content. OpenBlob digest st' = Inr content \<and> sha content = digest \<and> int (length content) = sz) \<and>
    HasBlob digest sz st' \<and> Put sha now' digest sz src st' = Inr (n, st') \<and>
    (\<forall>other content. OpenBlob other st = Inr content \<longrightarrow> OpenBlob other st' = Inr content) \<and>
    intact sha (CleanupOrphans now' grace live st') \<and>
    (digest \<in> live \<longrightarrow> OpenBlob digest (CleanupOrphans now' grace live st') = OpenBlob digest st')"
proof -
  have i: "intact sha st'" using Put_intact [OF assms] .
  have "OpenBlob digest (CleanupOrphans now' grace live st') = OpenBlob digest st'" if "digest \<in> live"
    using that by (auto simp: OpenBlob_def CleanupOrphans_def split: option.splits)
  then show ?thesis
    using i Put_OpenBlob [OF p] Put_again [OF p] Put_keeps [OF p] CleanupOrphans_intact [OF i] by blast
qed

theorem blob_store_intact_witness:
  "\<exists>st'. Put (\<lambda>_. sample_digest) 1 sample_digest 2 (Some ''hi'') (sArtifacts sample_server) = Inr (2, st') \<and>
     intact (\<lambda>_. sample_digest) st' \<and> HasBlob sample_digest 2 st'"
proof -
  have "intact (\<lambda>_. sample_digest) (sArtifacts sample_server)" by (simp add: intact_def sample_server_def)
  moreover have "\<exists>st'. Put (\<lambda>_. sample_digest) 1 sample_digest 2 (Some ''hi'') (sArtifacts sample_server) = Inr (2, st')"
    using sample_digest_valid by (simp add: Put_def sample_server_def DefaultLimits_def Let_def)
  ultimately show ?thesis using blob_store_intact by blast
qed

end
