(* ===== verification/Scm_Store.thy ===== *)
theory Scm_Store
  imports Run_Store
begin

text \<open>
  The source-control tables (\<open>internal/store/postgres/scm_repositories.go\<close>,
  \<open>scm_deliveries.go\<close>, \<open>scm_triggers.go\<close> and \<open>scm_checks.go\<close>): registered
  repositories, webhook deliveries with their claims, the run a delivery started, and the check that reports
  the run. \<open>now\<close> is the time a caller passes, \<open>clock\<close> the time of the database, and
  \<open>ident\<close> or \<open>token\<close> the UUID the operation draws. An empty string stands for the NULL that
  \<open>NULLIF\<close> stores, the instant 0 for the zero time, and \<open>locked\<close> for the rows that
  \<open>SKIP LOCKED\<close> passes over.
\<close>

section \<open>Statements\<close>

definition exec_deliveries :: "(Delivery \<Rightarrow> bool) \<Rightarrow> (Delivery \<Rightarrow> Delivery) \<Rightarrow> db \<Rightarrow> nat tx" where
  "exec_deliveries P f d =
    (if list_all (\<lambda>v. P v \<longrightarrow> DvAttemptCount (f v) \<ge> 0) (deliveries d)
     then Inr (affected P (deliveries d), d\<lparr> deliveries := upd_where P f (deliveries d) \<rparr>) else Inl ErrCheck)"

definition exec_triggers :: "(RunTrigger \<Rightarrow> bool) \<Rightarrow> (RunTrigger \<Rightarrow> RunTrigger) \<Rightarrow> db \<Rightarrow> nat tx" where
  "exec_triggers P f d = Inr (affected P (triggers d), d\<lparr> triggers := upd_where P f (triggers d) \<rparr>)"

section \<open>Repositories\<close>

definition repository_name :: "(string \<Rightarrow> string) \<Rightarrow> Repository \<Rightarrow> string" where
  "repository_name lower_text r = to_lower lower_text (FullName r)"

definition CreateSCMRepository :: "(string \<Rightarrow> string) \<Rightarrow> string \<Rightarrow> time \<Rightarrow> Repository \<Rightarrow> db \<Rightarrow> (scm_invalid + store_error, Repository \<times> db) result" where
  "CreateSCMRepository lower_text ident clock r d =
    (case NormalizeRepository lower_text (RepoProvider r) (FullName r) of
       Inl e \<Rightarrow> Inl (Inl e)
     | Inr normalized \<Rightarrow>
       (case ValidatePipelinePath (PipelinePath r) of
          Inl e \<Rightarrow> Inl (Inl e)
        | Inr pipeline \<Rightarrow>
          let row = r\<lparr> RepoID := (if RepoID r = '''' then ident else RepoID r), PipelinePath := pipeline,
                RepoCreatedAt := clock, RepoUpdatedAt := clock \<rparr> in
          if RepoID row \<in> RepoID ` set (repositories d) \<or>
             list_ex (\<lambda>x. RepoProvider x = RepoProvider r \<and> repository_name lower_text x = normalized) (repositories d)
          then Inl (Inr ErrConflict)
          else Inr (row, d\<lparr> repositories := repositories d @ [row] \<rparr>)))"

definition GetSCMRepository :: "string \<Rightarrow> db \<Rightarrow> (store_error, Repository) result" where
  "GetSCMRepository ident d = (case find (\<lambda>r. RepoID r = ident) (repositories d) of None \<Rightarrow> Inl ErrNotFound | Some r \<Rightarrow> Inr r)"

definition GetSCMRepositoryByIdentity :: "(string \<Rightarrow> string) \<Rightarrow> string \<Rightarrow> string \<Rightarrow> db \<Rightarrow> (scm_invalid + store_error, Repository) result" where
  "GetSCMRepositoryByIdentity lower_text provider fullName d =
    (case NormalizeRepository lower_text provider fullName of
       Inl e \<Rightarrow> Inl (Inl e)
     | Inr normalized \<Rightarrow>
       (case find (\<lambda>r. RepoProvider r = provider \<and> repository_name lower_text r = normalized) (repositories d) of
          None \<Rightarrow> Inl (Inr ErrNotFound) | Some r \<Rightarrow> Inr r))"

definition ListSCMRepositories :: "Store \<Rightarrow> (string \<Rightarrow> string) \<Rightarrow> db \<Rightarrow> Repository list" where
  "ListSCMRepositories s lower_text d =
    sort_key (\<lambda>r. (text_key s (RepoProvider r), text_key s (repository_name lower_text r), RepoID r)) (repositories d)"

definition DeleteSCMRepository :: "string \<Rightarrow> db \<Rightarrow> unit tx" where
  "DeleteSCMRepository ident d =
    (if ident \<notin> RepoID ` set (repositories d) then Inl ErrNotFound
     else if ident \<in> DvRepositoryID ` set (deliveries d) \<or> ident \<in> TrRepositoryID ` set (triggers d) then Inl ErrForeignKey
     else Inr ((), d\<lparr> repositories := filter (\<lambda>r. RepoID r \<noteq> ident) (repositories d) \<rparr>))"

section \<open>Deliveries\<close>

definition delivery_due :: "time \<Rightarrow> Delivery \<Rightarrow> bool" where
  "delivery_due now v \<longleftrightarrow>
     (DvStatus v = DeliveryPending \<and> (case DvNextAttemptAt v of None \<Rightarrow> True | Some t \<Rightarrow> t \<le> now)) \<or>
     (DvStatus v = DeliveryFailed \<and> (case DvNextAttemptAt v of None \<Rightarrow> False | Some t \<Rightarrow> t \<le> now)) \<or>
     (DvStatus v = DeliveryProcessing \<and> (case DvClaimExpiresAt v of None \<Rightarrow> False | Some t \<Rightarrow> t \<le> now))"

definition claim_row :: "string \<Rightarrow> string \<Rightarrow> time \<Rightarrow> Delivery \<Rightarrow> Delivery" where
  "claim_row token worker expires v = v\<lparr> DvStatus := DeliveryProcessing, DvAttemptCount := DvAttemptCount v + 1,
     DvClaimToken := Some token, DvClaimedBy := Some worker, DvClaimExpiresAt := Some expires, DvNextAttemptAt := None \<rparr>"

definition ClaimSCMDelivery :: "(Delivery \<Rightarrow> bool) \<Rightarrow> string \<Rightarrow> string \<Rightarrow> time \<Rightarrow> duration \<Rightarrow> db \<Rightarrow> Delivery option tx" where
  "ClaimSCMDelivery locked token worker now lease d =
    (if worker = '''' \<or> length worker > 256 \<or> lease \<le> 0 then Inl (ErrMessage ''invalid SCM delivery claim'')
     else (case first_by (\<lambda>v. (DvReceivedAt v, DvID v)) (filter (\<lambda>v. delivery_due now v \<and> \<not> locked v) (deliveries d)) of
         None \<Rightarrow> Inr (None, d)
       | Some v \<Rightarrow>
         rbind (exec_deliveries (\<lambda>x. DvID x = DvID v) (claim_row token worker (now + lease)) d) (\<lambda>(_, d1).
           Inr (Some (claim_row token worker (now + lease) v), d1))))"

definition holds_claim :: "string \<Rightarrow> string \<Rightarrow> time \<Rightarrow> Delivery \<Rightarrow> bool" where
  "holds_claim ident token t v \<longleftrightarrow> DvID v = ident \<and> DvStatus v = DeliveryProcessing \<and> DvClaimToken v = Some token \<and>
     (case DvClaimExpiresAt v of None \<Rightarrow> False | Some e \<Rightarrow> e > t)"

definition RenewSCMDeliveryClaim :: "string \<Rightarrow> string \<Rightarrow> time \<Rightarrow> duration \<Rightarrow> db \<Rightarrow> unit tx" where
  "RenewSCMDeliveryClaim ident token now lease d =
    (if ident = '''' \<or> token = '''' \<or> lease \<le> 0 then Inl (ErrMessage ''invalid SCM delivery claim renewal'')
     else one_row ErrConflict (exec_deliveries (holds_claim ident token now) (\<lambda>v. v\<lparr> DvClaimExpiresAt := Some (now + lease) \<rparr>) d))"

definition complete_delivery_row :: "time \<Rightarrow> DeliveryStatus \<Rightarrow> Delivery \<Rightarrow> Delivery" where
  "complete_delivery_row clock status v = v\<lparr> DvStatus := status, DvProcessedAt := Some clock, DvClaimToken := None, DvClaimedBy := None,
     DvClaimExpiresAt := None, DvNextAttemptAt := None, DvLastError := None \<rparr>"

definition CompleteSCMDelivery :: "string \<Rightarrow> string \<Rightarrow> DeliveryStatus \<Rightarrow> time \<Rightarrow> db \<Rightarrow> unit tx" where
  "CompleteSCMDelivery ident token status clock d =
    (if status \<noteq> DeliveryProcessed \<and> status \<noteq> DeliveryIgnored then Inl (ErrMessage ''invalid completed SCM delivery status'')
     else one_row ErrConflict (exec_deliveries (holds_claim ident token clock) (complete_delivery_row clock status) d))"

definition fail_delivery_row :: "time option \<Rightarrow> string \<Rightarrow> Delivery \<Rightarrow> Delivery" where
  "fail_delivery_row retryAt message v = v\<lparr> DvStatus := DeliveryFailed, DvLastError := Some (take 4096 message), DvNextAttemptAt := retryAt,
     DvClaimToken := None, DvClaimedBy := None, DvClaimExpiresAt := None \<rparr>"

definition FailSCMDelivery :: "string \<Rightarrow> string \<Rightarrow> time option \<Rightarrow> string \<Rightarrow> time \<Rightarrow> db \<Rightarrow> unit tx" where
  "FailSCMDelivery ident token retryAt message clock d =
    one_row ErrConflict (exec_deliveries (holds_claim ident token clock) (fail_delivery_row retryAt message) d)"

definition GetSCMDelivery :: "string \<Rightarrow> db \<Rightarrow> (store_error, Delivery) result" where
  "GetSCMDelivery ident d = (case find (\<lambda>v. DvID v = ident) (deliveries d) of None \<Rightarrow> Inl ErrNotFound | Some v \<Rightarrow> Inr v)"

definition GetSCMDeliveryByProviderDeliveryID :: "string \<Rightarrow> string \<Rightarrow> db \<Rightarrow> (store_error, Delivery) result" where
  "GetSCMDeliveryByProviderDeliveryID provider deliveryID d =
    (case find (\<lambda>v. DvProvider v = provider \<and> DvDeliveryID v = deliveryID) (deliveries d) of None \<Rightarrow> Inl ErrNotFound | Some v \<Rightarrow> Inr v)"

text \<open>Superseding the earlier work of a pull request. A stored commit that is NULL is distinct from every text.\<close>

definition superseded_delivery :: "Delivery \<Rightarrow> Delivery \<Rightarrow> bool" where
  "superseded_delivery new v \<longleftrightarrow> DvRepositoryID v = DvRepositoryID new \<and> DvEventType v = ''pull_request'' \<and>
     DvPullRequestNumber v = DvPullRequestNumber new \<and> DvID v \<noteq> DvID new \<and>
     DvStatus v \<in> {DeliveryPending, DeliveryProcessing, DeliveryFailed} \<and>
     (DvAction new = ''closed'' \<or> DvCommitSHA v = '''' \<or> DvCommitSHA v \<noteq> DvCommitSHA new)"

definition ignore_row :: "time \<Rightarrow> Delivery \<Rightarrow> Delivery" where
  "ignore_row clock v = v\<lparr> DvStatus := DeliveryIgnored, DvProcessedAt := Some clock,
     DvLastError := Some ''superseded by newer pull request delivery'', DvClaimToken := None, DvClaimedBy := None,
     DvClaimExpiresAt := None, DvNextAttemptAt := None \<rparr>"

definition superseded_run :: "Delivery \<Rightarrow> db \<Rightarrow> run_row \<Rightarrow> bool" where
  "superseded_run new d r \<longleftrightarrow> rstatus r \<in> {RunQueued, RunRunning} \<and>
     list_ex (\<lambda>t. TrRunID t = rid r \<and> TrRepositoryID t = DvRepositoryID new \<and> TrPullRequestNumber t = DvPullRequestNumber new \<and>
       (DvAction new = ''closed'' \<or> TrCommitSHA t \<noteq> DvCommitSHA new)) (triggers d)"

definition supersede_row :: "time \<Rightarrow> run_row \<Rightarrow> run_row" where
  "supersede_row clock r = r\<lparr> rstatus := (if rstatus r = RunQueued then RunCanceled else rstatus r),
     rfinished_at := (if rstatus r = RunQueued then Some clock else rfinished_at r),
     rcancel_at := (if rstatus r = RunRunning then Some clock else rcancel_at r) \<rparr>"

definition supersedes :: "Delivery \<Rightarrow> bool" where
  "supersedes v \<longleftrightarrow> DvEventType v = ''pull_request'' \<and> DvPullRequestNumber v \<noteq> None \<and>
     (DvStatus v = DeliveryPending \<or> DvAction v = ''closed'')"

definition CreateSCMDelivery :: "string \<Rightarrow> time \<Rightarrow> Delivery \<Rightarrow> db \<Rightarrow> Delivery tx" where
  "CreateSCMDelivery ident clock v0 d =
    (if DvProvider v0 = '''' \<or> DvDeliveryID v0 = '''' \<or> length (DvDeliveryID v0) > 256 \<or> length (DvPayloadSHA256 v0) \<noteq> 64 \<or>
        DvRepositoryID v0 = '''' \<or> DvEventType v0 = ''''
     then Inl (ErrMessage ''invalid SCM delivery'')
     else
       let v = v0\<lparr> DvID := (if DvID v0 = '''' then ident else DvID v0), DvReceivedAt := (if DvReceivedAt v0 = 0 then clock else DvReceivedAt v0),
             DvClaimToken := None, DvClaimedBy := None, DvClaimExpiresAt := None \<rparr> in
       if DvAttemptCount v < 0 then Inl ErrCheck
       else (case GetSCMDeliveryByProviderDeliveryID (DvProvider v) (DvDeliveryID v) d of
           Inr out \<Rightarrow> if DvPayloadSHA256 out \<noteq> DvPayloadSHA256 v then Inl ErrConflict else Inr (out, d)
         | Inl _ \<Rightarrow>
           if DvID v \<in> DvID ` set (deliveries d) then Inl ErrUnique
           else if DvRepositoryID v \<notin> RepoID ` set (repositories d) then Inl ErrForeignKey
           else
             let d1 = d\<lparr> deliveries := deliveries d @ [v] \<rparr> in
             if supersedes v then
               rbind (any_rows (exec_deliveries (superseded_delivery v) (ignore_row clock) d1)) (\<lambda>(_, d2).
               rbind (any_rows (exec_runs (superseded_run v d2) (supersede_row clock) d2)) (\<lambda>(_, d3). Inr (v, d3)))
             else Inr (v, d1)))"

section \<open>Triggers\<close>

definition GetSCMRunTrigger :: "string \<Rightarrow> db \<Rightarrow> (store_error, RunTrigger) result" where
  "GetSCMRunTrigger ident d = (case find (\<lambda>t. TrID t = ident) (triggers d) of None \<Rightarrow> Inl ErrNotFound | Some t \<Rightarrow> Inr t)"

definition GetSCMRunTriggerByDelivery :: "string \<Rightarrow> db \<Rightarrow> (store_error, RunTrigger) result" where
  "GetSCMRunTriggerByDelivery delivery d = (case find (\<lambda>t. TrDeliveryID t = delivery) (triggers d) of None \<Rightarrow> Inl ErrNotFound | Some t \<Rightarrow> Inr t)"

definition GetSCMRunTriggerByRunID :: "string \<Rightarrow> db \<Rightarrow> (store_error, RunTrigger) result" where
  "GetSCMRunTriggerByRunID run d = (case find (\<lambda>t. TrRunID t = run) (triggers d) of None \<Rightarrow> Inl ErrNotFound | Some t \<Rightarrow> Inr t)"

text \<open>The defaults both operations fill in, and the columns the table fills in.\<close>

definition trigger_row :: "string \<Rightarrow> time \<Rightarrow> RunTrigger \<Rightarrow> RunTrigger" where
  "trigger_row ident clock t = t\<lparr> TrID := (if TrID t = '''' then ident else TrID t),
     TrExternalID := (if TrExternalID t = '''' then TrRunID t else TrExternalID t),
     TrDesiredStatus := (if TrDesiredStatus t = '''' then ''queued'' else TrDesiredStatus t),
     TrLastConclusion := None, TrClaimToken := None, TrClaimedBy := None, TrClaimExpiresAt := None, TrNextAttemptAt := None,
     TrAttemptCount := 0, TrCreatedAt := clock, TrUpdatedAt := clock \<rparr>"

definition insert_trigger :: "RunTrigger \<Rightarrow> db \<Rightarrow> RunTrigger tx" where
  "insert_trigger row d =
    (if TrID row \<in> TrID ` set (triggers d) \<or> TrDeliveryID row \<in> TrDeliveryID ` set (triggers d) \<or>
        TrRunID row \<in> TrRunID ` set (triggers d) then Inl ErrUnique
     else if TrDeliveryID row \<notin> DvID ` set (deliveries d) \<or> TrRepositoryID row \<notin> RepoID ` set (repositories d) \<or>
        TrRunID row \<notin> rid ` set (runs d) then Inl ErrForeignKey
     else Inr (row, d\<lparr> triggers := triggers d @ [row] \<rparr>))"

definition CreateSCMRunTrigger :: "string \<Rightarrow> time \<Rightarrow> RunTrigger \<Rightarrow> db \<Rightarrow> RunTrigger tx" where
  "CreateSCMRunTrigger ident clock t d =
    (if TrDeliveryID t = '''' \<or> TrRepositoryID t = '''' \<or> TrRunID t = '''' \<or> TrProvider t = '''' \<or> TrCommitSHA t = ''''
     then Inl (ErrMessage ''invalid SCM run trigger'')
     else (case insert_trigger (trigger_row ident clock t) d of
         Inr out \<Rightarrow> Inr out
       | Inl e \<Rightarrow>
         if e \<noteq> ErrUnique then Inl e
         else rbind (GetSCMRunTriggerByDelivery (TrDeliveryID t) d) (\<lambda>out.
           if TrRunID out \<noteq> TrRunID t then Inl ErrConflict else Inr (out, d))))"

definition CreateSCMRun :: "Store \<Rightarrow> string \<Rightarrow> time \<Rightarrow> string \<Rightarrow> CreateRun \<Rightarrow> RunTrigger \<Rightarrow> db \<Rightarrow> (Run \<times> RunTrigger) tx" where
  "CreateSCMRun s ident clock claimToken cr t d =
    (if claimToken = '''' \<or> TrDeliveryID t = '''' \<or> CrID cr = '''' \<or> TrRunID t \<noteq> CrID cr then Inl (ErrMessage ''invalid SCM run'')
     else if \<not> list_ex (holds_claim (TrDeliveryID t) claimToken clock) (deliveries d) then Inl ErrConflict
     else rbind (createRun clock cr d) (\<lambda>(_, d1).
       rbind (insert_trigger (trigger_row ident clock t) d1) (\<lambda>(trigger, d2).
       rbind (GetRun s (CrID cr) d2) (\<lambda>run. Inr ((run, trigger), d2)))))"

section \<open>Checks\<close>

fun desired_status :: "RunStatus \<Rightarrow> string" where
  "desired_status RunQueued = ''queued''"
| "desired_status RunRunning = ''in_progress''"
| "desired_status _ = ''completed''"

fun desired_conclusion :: "RunStatus \<Rightarrow> string option" where
  "desired_conclusion RunPassed = Some ''success''"
| "desired_conclusion RunFailed = Some ''failure''"
| "desired_conclusion RunError = Some ''failure''"
| "desired_conclusion RunCanceled = Some ''cancelled''"
| "desired_conclusion RunAborted = Some ''cancelled''"
| "desired_conclusion _ = None"

text \<open>The first statement of \<open>ClaimSCMCheck\<close> brings every trigger up to date with its run. It is a
  transaction of its own.\<close>

definition refresh_row :: "time \<Rightarrow> run_row list \<Rightarrow> RunTrigger \<Rightarrow> RunTrigger" where
  "refresh_row clock rs t = (case find (\<lambda>r. rid r = TrRunID t) rs of
     None \<Rightarrow> t
   | Some r \<Rightarrow> t\<lparr> TrDesiredStatus := desired_status (rstatus r), TrDesiredConclusion := desired_conclusion (rstatus r),
       TrUpdatedAt := (if TrDesiredStatus t \<noteq> desired_status (rstatus r) \<or> TrDesiredConclusion t \<noteq> desired_conclusion (rstatus r)
         then clock else TrUpdatedAt t) \<rparr>)"

definition refresh_checks :: "time \<Rightarrow> db \<Rightarrow> db" where
  "refresh_checks clock d = d\<lparr> triggers := map (refresh_row clock (runs d)) (triggers d) \<rparr>"

definition check_due :: "time \<Rightarrow> RunTrigger \<Rightarrow> bool" where
  "check_due now t \<longleftrightarrow> (case TrClaimExpiresAt t of None \<Rightarrow> True | Some e \<Rightarrow> e \<le> now) \<and>
     (case TrNextAttemptAt t of None \<Rightarrow> True | Some n \<Rightarrow> n \<le> now) \<and>
     (TrCheckRunID t = None \<or> TrCheckState t \<noteq> Some (TrDesiredStatus t) \<or> TrLastConclusion t \<noteq> TrDesiredConclusion t)"

definition claim_check_row :: "string \<Rightarrow> string \<Rightarrow> time \<Rightarrow> RunTrigger \<Rightarrow> RunTrigger" where
  "claim_check_row token worker expires t = t\<lparr> TrClaimToken := Some token, TrClaimedBy := Some worker, TrClaimExpiresAt := Some expires,
     TrAttemptCount := TrAttemptCount t + 1 \<rparr>"

definition ClaimSCMCheck :: "(RunTrigger \<Rightarrow> bool) \<Rightarrow> string \<Rightarrow> string \<Rightarrow> time \<Rightarrow> time \<Rightarrow> duration \<Rightarrow> db \<Rightarrow> RunTrigger option tx" where
  "ClaimSCMCheck locked token worker clock now lease d =
    (if worker = '''' \<or> lease \<le> 0 then Inl (ErrMessage ''invalid SCM check claim'')
     else let d1 = refresh_checks clock d in
     (case first_by (\<lambda>t. (TrUpdatedAt t, TrID t)) (filter (\<lambda>t. check_due now t \<and> \<not> locked t) (triggers d1)) of
        None \<Rightarrow> Inr (None, d1)
      | Some t \<Rightarrow> rbind (exec_triggers (\<lambda>x. TrID x = TrID t) (claim_check_row token worker (now + lease)) d1) (\<lambda>(_, d2).
          Inr (Some (claim_check_row token worker (now + lease) t), d2))))"

definition holds_check :: "string \<Rightarrow> string \<Rightarrow> time \<Rightarrow> RunTrigger \<Rightarrow> bool" where
  "holds_check ident token clock t \<longleftrightarrow> TrID t = ident \<and> TrClaimToken t = Some token \<and>
     (case TrClaimExpiresAt t of None \<Rightarrow> False | Some e \<Rightarrow> e > clock)"

definition CompleteSCMCheck :: "string \<Rightarrow> string \<Rightarrow> string \<Rightarrow> string \<Rightarrow> string option \<Rightarrow> time \<Rightarrow> db \<Rightarrow> unit tx" where
  "CompleteSCMCheck ident token checkRunID status conclusion clock d =
    one_row ErrConflict (exec_triggers (holds_check ident token clock)
      (\<lambda>t. t\<lparr> TrCheckRunID := Some checkRunID, TrCheckState := Some status, TrLastConclusion := conclusion, TrLastCheckError := None,
         TrClaimToken := None, TrClaimedBy := None, TrClaimExpiresAt := None, TrNextAttemptAt := None, TrUpdatedAt := clock \<rparr>) d)"

definition FailSCMCheck :: "string \<Rightarrow> string \<Rightarrow> time \<Rightarrow> string \<Rightarrow> time \<Rightarrow> db \<Rightarrow> unit tx" where
  "FailSCMCheck ident token retryAt message clock d =
    one_row ErrConflict (exec_triggers (holds_check ident token clock)
      (\<lambda>t. t\<lparr> TrLastCheckError := Some (take 4096 message), TrNextAttemptAt := Some retryAt,
         TrClaimToken := None, TrClaimedBy := None, TrClaimExpiresAt := None, TrUpdatedAt := clock \<rparr>) d)"

section \<open>Invariant\<close>

definition delivery_ok :: "Delivery \<Rightarrow> bool" where
  "delivery_ok v \<longleftrightarrow> DvAttemptCount v \<ge> 0 \<and>
     (if DvStatus v = DeliveryProcessing then DvClaimToken v \<noteq> None \<and> DvClaimedBy v \<noteq> None \<and> DvClaimExpiresAt v \<noteq> None
      else DvClaimToken v = None \<and> DvClaimedBy v = None \<and> DvClaimExpiresAt v = None)"

definition scm_ok :: "(string \<Rightarrow> string) \<Rightarrow> db \<Rightarrow> bool" where
  "scm_ok lower_text d \<longleftrightarrow>
     distinct (map RepoID (repositories d)) \<and>
     distinct (map (\<lambda>r. (RepoProvider r, repository_name lower_text r)) (repositories d)) \<and>
     distinct (map DvID (deliveries d)) \<and> distinct (map (\<lambda>v. (DvProvider v, DvDeliveryID v)) (deliveries d)) \<and>
     distinct (map TrID (triggers d)) \<and> distinct (map TrDeliveryID (triggers d)) \<and> distinct (map TrRunID (triggers d)) \<and>
     (\<forall>v \<in> set (deliveries d). DvRepositoryID v \<in> RepoID ` set (repositories d)) \<and>
     (\<forall>v \<in> set (deliveries d). delivery_ok v) \<and>
     (\<forall>t \<in> set (triggers d). TrDeliveryID t \<in> DvID ` set (deliveries d) \<and> TrRepositoryID t \<in> RepoID ` set (repositories d) \<and>
        TrRunID t \<in> rid ` set (runs d))"

end
