(* ===== verification/Scm_Safety.thy ===== *)
theory Scm_Safety
  imports Scm_Store Storage_Safety
begin

text \<open>
  The source-control tables in every state of the whole control plane: the operations of
  \<open>Scm_Store\<close> interleaved with those of the remote scheduler and the storage.
  \<open>scm_frame\<close> says what the latter leave alone.
\<close>

section \<open>Steps\<close>

inductive scm_step :: "(string \<Rightarrow> string) \<Rightarrow> Store \<Rightarrow> db \<Rightarrow> db \<Rightarrow> bool" for lower_text s where
  create_repository: "CreateSCMRepository lower_text ident clock r d = Inr (x, d') \<Longrightarrow> scm_step lower_text s d d'"
| delete_repository: "DeleteSCMRepository ident d = Inr (u, d') \<Longrightarrow> scm_step lower_text s d d'"
| create_delivery: "DvStatus v \<in> {DeliveryPending, DeliveryIgnored} \<Longrightarrow> CreateSCMDelivery ident clock v d = Inr (x, d') \<Longrightarrow> scm_step lower_text s d d'"
| claim_delivery: "ClaimSCMDelivery locked token worker now lease d = Inr (res, d') \<Longrightarrow> scm_step lower_text s d d'"
| renew_delivery: "RenewSCMDeliveryClaim ident token now lease d = Inr (u, d') \<Longrightarrow> scm_step lower_text s d d'"
| complete_delivery: "CompleteSCMDelivery ident token status clock d = Inr (u, d') \<Longrightarrow> scm_step lower_text s d d'"
| fail_delivery: "FailSCMDelivery ident token retryAt message clock d = Inr (u, d') \<Longrightarrow> scm_step lower_text s d d'"
| create_trigger: "CreateSCMRunTrigger ident clock t d = Inr (x, d') \<Longrightarrow> scm_step lower_text s d d'"
| create_run: "CreateSCMRun s ident clock token cr t d = Inr (x, d') \<Longrightarrow> scm_step lower_text s d d'"
| claim_check: "ClaimSCMCheck lockd token worker clock now lease d = Inr (out, d') \<Longrightarrow> scm_step lower_text s d d'"
| complete_check: "CompleteSCMCheck ident token checkRunID state conclusion clock d = Inr (u, d') \<Longrightarrow> scm_step lower_text s d d'"
| fail_check: "FailSCMCheck ident token retry message clock d = Inr (u, d') \<Longrightarrow> scm_step lower_text s d d'"

definition system_step :: "(string \<Rightarrow> string) \<Rightarrow> Store \<Rightarrow> db \<Rightarrow> db \<Rightarrow> bool" where
  "system_step lower_text s d d' \<longleftrightarrow> remote_step s d d' \<or> scm_step lower_text s d d'"

definition system_reachable :: "(string \<Rightarrow> string) \<Rightarrow> Store \<Rightarrow> db \<Rightarrow> bool" where
  "system_reachable lower_text s d \<longleftrightarrow> (system_step lower_text s)\<^sup>*\<^sup>* empty_db d"

section \<open>What the other operations leave alone\<close>

definition scm_frame :: "db \<Rightarrow> db \<Rightarrow> bool" where
  "scm_frame d d' \<longleftrightarrow> repositories d' = repositories d \<and> deliveries d' = deliveries d \<and> triggers d' = triggers d \<and>
     rid ` set (runs d) \<subseteq> rid ` set (runs d')"

lemma scm_frame_refl [simp]: "scm_frame d d"
  and scm_frame_trans: "scm_frame a b \<Longrightarrow> scm_frame b c \<Longrightarrow> scm_frame a c"
  by (auto simp: scm_frame_def)

lemma calm_frame: "calm K d d' \<Longrightarrow> scm_frame d d'"
  by (auto simp: calm_def scm_frame_def)

lemma frame_jobs: "exec_jobs P f d = Inr (n, d') \<Longrightarrow> scm_frame d d'"
  by (auto simp: exec_jobs_Inr scm_frame_def)

lemma frame_runs:
  assumes "exec_runs P f d = Inr (n, d')" and "\<And>r. rid (f r) = rid r"
  shows "scm_frame d d'"
proof -
  have "map rid (upd_where P f (runs d)) = map rid (runs d)" using assms(2) by (rule map_upd_where)
  then have "rid ` set (upd_where P f (runs d)) = rid ` set (runs d)" by (metis list.set_map)
  then show ?thesis using assms(1) by (simp add: exec_runs_Inr scm_frame_def)
qed

lemma frame_expire_artifacts: "expire_artifacts_of s run d = Inr (u, d') \<Longrightarrow> scm_frame d d'"
  by (auto simp: expire_artifacts_of_def any_rows_Inr exec_artifacts_Inr scm_frame_def)

lemma frame_legacy: "abort_legacy s now ids d = Inr (u, d') \<Longrightarrow> scm_frame d d'"
proof (induction ids arbitrary: d)
  case (Cons run ids)
  then obtain n d1 d2 where e: "exec_jobs (\<lambda>j. jrun j = run \<and> jstatus j \<in> {JobPending, JobRunning})
      (\<lambda>j. j\<lparr> jstatus := JobAborted, jfinished_at := Some now, jerror := Some ''legacy run lease ownership lost'' \<rparr>) d = Inr (n, d1)"
      "expire_artifacts_of s run d1 = Inr ((), d2)" "abort_legacy s now ids d2 = Inr (u, d')"
    by (auto simp: rbind_eq_Inr any_rows_Inr)
  show ?case
    by (rule scm_frame_trans [OF scm_frame_trans [OF frame_jobs [OF e(1)] frame_expire_artifacts [OF e(2)]] Cons.IH [OF e(3)]])
qed simp

lemma frame_recover:
  assumes "RecoverRemoteJobs s visit now d = Inr (u, d')"
  shows "scm_frame d d'"
proof -
  let ?f = "\<lambda>r. r\<lparr> rstatus := RunAborted, rfinished_at := Some now, rerror := Some ''control plane restarted during legacy run lease'',
    rrunner := None, rlease := None, rlease_expires := None, reffective := None \<rparr>"
  obtain n d1 d2 m d3 where e: "exec_runs legacy_run ?f d = Inr (n, d1)" "abort_legacy s now (map rid (filter legacy_run (runs d))) d1 = Inr ((), d2)"
      "exec_jobs (\<lambda>j. jstatus j = JobRunning) (abort_row now ''control plane restarted during job execution'') d2 = Inr (m, d3)"
      "settle_runs s now (visit (returning_runs (\<lambda>j. jstatus j = JobRunning) d2)) d3 = Inr (u, d')"
    using assms by (auto simp: RecoverRemoteJobs_def rbind_eq_Inr any_rows_Inr)
  have "scm_frame d d1" by (rule frame_runs [OF e(1)]) simp
  then show ?thesis
    using frame_legacy [OF e(2)] frame_jobs [OF e(3)] calm_frame [OF calm_settle [OF e(4)]] scm_frame_trans by blast
qed

lemma remote_step_scm_frame:
  assumes "remote_step s d d'"
  shows "scm_frame d d'"
  using assms
proof (cases rule: remote_step.cases)
  case (heartbeat runnerID leases now rs)
  then obtain n d1 where e: "exec_runners (\<lambda>w. wid w = runnerID) (\<lambda>w. w\<lparr> wlast_seen := now, wstatus := RunnerOnline \<rparr>) d = Inr (n, d1)"
    "heartbeat_loop runnerID now leases d1 = Inr (rs, d')"
    by (auto simp: HeartbeatJobLeases_def rbind_eq_Inr one_row_Inr)
  then show ?thesis using calm_frame [OF calm_trans [OF calm_runners calm_heartbeats]] by blast
next
  case (recover visit now u)
  then show ?thesis by (blast intro: frame_recover)
next
  case storage
  then obtain a c l where "d' = d\<lparr> artifacts := a, caches := c, logs := l \<rparr>"
    using storage_step_frame by (fastforce simp: storage_frame_def)
  then show ?thesis by (simp add: scm_frame_def)
next
  case (complete now owner status message u)
  then show ?thesis by (blast intro: calm_frame calm_complete)
qed (blast intro: calm_frame [where K = "{}"] calm_create calm_register calm_lease calm_expire calm_cancel calm_cancel_queued)+

section \<open>The invariant\<close>

lemma scm_ok_frame: "scm_ok lower_text d \<Longrightarrow> scm_frame d d' \<Longrightarrow> scm_ok lower_text d'"
  by (auto simp: scm_ok_def scm_frame_def)

lemma scm_ok_deliveries:
  assumes ok: "scm_ok lower_text d" and e: "exec_deliveries P f d = Inr (n, d')"
    and key: "\<And>v. DvID (f v) = DvID v" "\<And>v. DvProvider (f v) = DvProvider v" "\<And>v. DvDeliveryID (f v) = DvDeliveryID v"
      "\<And>v. DvRepositoryID (f v) = DvRepositoryID v"
    and row: "\<And>v. v \<in> set (deliveries d) \<Longrightarrow> P v \<Longrightarrow> delivery_ok v \<Longrightarrow> delivery_ok (f v)"
  shows "scm_ok lower_text d'"
proof -
  let ?ds = "upd_where P f (deliveries d)"
  have d': "d' = d\<lparr> deliveries := ?ds \<rparr>" using e by (auto simp: exec_deliveries_def split: if_splits)
  have ids: "map DvID ?ds = map DvID (deliveries d)" "map (\<lambda>v. (DvProvider v, DvDeliveryID v)) ?ds = map (\<lambda>v. (DvProvider v, DvDeliveryID v)) (deliveries d)"
    using key by (simp_all add: map_upd_where)
  moreover have "DvID ` set ?ds = DvID ` set (deliveries d)" using ids(1) by (metis list.set_map)
  moreover have "DvRepositoryID v \<in> RepoID ` set (repositories d) \<and> delivery_ok v" if "v \<in> set ?ds" for v
    using that ok row key(4) by (cases rule: in_upd_whereE) (auto simp: scm_ok_def)
  ultimately show ?thesis using ok by (simp add: scm_ok_def d' del: distinct_map)
qed

lemma scm_ok_trigger_rows:
  assumes ok: "scm_ok lower_text d" and ts: "length ts = length (triggers d)"
    and key: "map TrID ts = map TrID (triggers d)" "map TrDeliveryID ts = map TrDeliveryID (triggers d)"
      "map TrRunID ts = map TrRunID (triggers d)" "map TrRepositoryID ts = map TrRepositoryID (triggers d)"
  shows "scm_ok lower_text (d\<lparr> triggers := ts \<rparr>)"
proof -
  have "TrDeliveryID t \<in> DvID ` set (deliveries d) \<and> TrRepositoryID t \<in> RepoID ` set (repositories d) \<and> TrRunID t \<in> rid ` set (runs d)"
    if mem: "t \<in> set ts" for t
  proof -
    obtain i where i: "i < length ts" "t = ts ! i" using mem by (auto simp: in_set_conv_nth)
    then have "TrDeliveryID t = TrDeliveryID (triggers d ! i)" "TrRunID t = TrRunID (triggers d ! i)"
        "TrRepositoryID t = TrRepositoryID (triggers d ! i)"
      using key ts by (metis nth_map)+
    moreover have "triggers d ! i \<in> set (triggers d)" using i ts by simp
    ultimately show ?thesis using ok by (simp add: scm_ok_def)
  qed
  then show ?thesis using ok key by (simp add: scm_ok_def del: distinct_map)
qed

lemma scm_ok_triggers:
  assumes "scm_ok lower_text d" and "exec_triggers P f d = Inr (n, d')"
    and "\<And>t. TrID (f t) = TrID t" "\<And>t. TrDeliveryID (f t) = TrDeliveryID t" "\<And>t. TrRunID (f t) = TrRunID t"
      "\<And>t. TrRepositoryID (f t) = TrRepositoryID t"
  shows "scm_ok lower_text d'"
proof -
  have d': "d' = d\<lparr> triggers := upd_where P f (triggers d) \<rparr>" using assms(2) by (simp add: exec_triggers_def)
  show ?thesis unfolding d' by (rule scm_ok_trigger_rows [OF assms(1)]) (use assms(3-) in \<open>simp_all add: map_upd_where\<close>)
qed

lemma insert_trigger_ok:
  assumes "scm_ok lower_text d" and "insert_trigger row d = Inr (x, d')"
  shows "scm_ok lower_text d'"
  using assms by (auto simp: insert_trigger_def scm_ok_def split: if_splits)

lemma refresh_row_sel [simp]:
  "TrID (refresh_row clock rs t) = TrID t" "TrDeliveryID (refresh_row clock rs t) = TrDeliveryID t"
  "TrRunID (refresh_row clock rs t) = TrRunID t" "TrRepositoryID (refresh_row clock rs t) = TrRepositoryID t"
  by (simp_all add: refresh_row_def split: option.splits)

lemma refresh_checks_ok: "scm_ok lower_text d \<Longrightarrow> scm_ok lower_text (refresh_checks clock d)"
  unfolding refresh_checks_def by (rule scm_ok_trigger_rows) (simp_all add: comp_def)

lemma trigger_row_sel [simp]:
  "TrDeliveryID (trigger_row ident clock t) = TrDeliveryID t" "TrRunID (trigger_row ident clock t) = TrRunID t"
  by (simp_all add: trigger_row_def)

lemma ignore_row_sel [simp]:
  "DvID (ignore_row clock v) = DvID v" "DvProvider (ignore_row clock v) = DvProvider v" "DvDeliveryID (ignore_row clock v) = DvDeliveryID v"
  "DvRepositoryID (ignore_row clock v) = DvRepositoryID v" "DvStatus (ignore_row clock v) = DeliveryIgnored"
  by (simp_all add: ignore_row_def)

lemma CreateSCMDelivery_cases:
  assumes "CreateSCMDelivery ident clock v0 d = Inr (x, d')"
  obtains (replay) "x \<in> set (deliveries d)" "DvProvider x = DvProvider v0" "DvDeliveryID x = DvDeliveryID v0"
      "DvPayloadSHA256 x = DvPayloadSHA256 v0" "d' = d"
  | (fresh) d1 where "x = v0\<lparr> DvID := DvID x, DvReceivedAt := DvReceivedAt x, DvClaimToken := None, DvClaimedBy := None, DvClaimExpiresAt := None \<rparr>"
      "DvID x \<notin> DvID ` set (deliveries d)" "DvRepositoryID x \<in> RepoID ` set (repositories d)" "DvAttemptCount x \<ge> 0"
      "\<And>v. v \<in> set (deliveries d) \<Longrightarrow> (DvProvider v, DvDeliveryID v) \<noteq> (DvProvider x, DvDeliveryID x)"
      "d1 = d\<lparr> deliveries := deliveries d @ [x] \<rparr>"
      "if supersedes x then \<exists>n d2 m. exec_deliveries (superseded_delivery x) (ignore_row clock) d1 = Inr (n, d2) \<and>
         exec_runs (superseded_run x d2) (supersede_row clock) d2 = Inr (m, d')
       else d' = d1"
proof -
  let ?v = "v0\<lparr> DvID := (if DvID v0 = '''' then ident else DvID v0), DvReceivedAt := (if DvReceivedAt v0 = 0 then clock else DvReceivedAt v0),
    DvClaimToken := None, DvClaimedBy := None, DvClaimExpiresAt := None \<rparr>"
  show thesis
  proof (cases "GetSCMDeliveryByProviderDeliveryID (DvProvider ?v) (DvDeliveryID ?v) d")
    case (Inr out)
    then have "x = out" "d' = d" "DvPayloadSHA256 out = DvPayloadSHA256 v0"
      using assms by (auto simp: CreateSCMDelivery_def Let_def split: if_splits)
    moreover have "out \<in> set (deliveries d) \<and> DvProvider out = DvProvider v0 \<and> DvDeliveryID out = DvDeliveryID v0"
      using Inr find_SomeD by (fastforce simp: GetSCMDeliveryByProviderDeliveryID_def split: option.splits)
    ultimately show thesis using replay by simp
  next
    case (Inl e)
    have none: "find (\<lambda>v. DvProvider v = DvProvider ?v \<and> DvDeliveryID v = DvDeliveryID ?v) (deliveries d) = None"
      using Inl by (auto simp: GetSCMDeliveryByProviderDeliveryID_def split: option.splits)
    have x: "x = ?v" using assms Inl by (auto simp: CreateSCMDelivery_def Let_def rbind_eq_Inr split: if_splits)
    show thesis
    proof (rule fresh [OF _ _ _ _ _ refl])
      show "x = v0\<lparr> DvID := DvID x, DvReceivedAt := DvReceivedAt x, DvClaimToken := None, DvClaimedBy := None, DvClaimExpiresAt := None \<rparr>"
        by (simp add: x)
      show "DvID x \<notin> DvID ` set (deliveries d)" "DvRepositoryID x \<in> RepoID ` set (repositories d)" "DvAttemptCount x \<ge> 0"
        using assms Inl unfolding x by (auto simp: CreateSCMDelivery_def Let_def split: if_splits)
      show "(DvProvider v, DvDeliveryID v) \<noteq> (DvProvider x, DvDeliveryID x)" if "v \<in> set (deliveries d)" for v
        using none that unfolding x by (auto simp: find_None_iff)
      show "if supersedes x then \<exists>n d2 m. exec_deliveries (superseded_delivery x) (ignore_row clock) (d\<lparr> deliveries := deliveries d @ [x] \<rparr>) = Inr (n, d2) \<and>
         exec_runs (superseded_run x d2) (supersede_row clock) d2 = Inr (m, d') else d' = d\<lparr> deliveries := deliveries d @ [x] \<rparr>"
        using assms Inl unfolding x by (auto simp: CreateSCMDelivery_def Let_def rbind_eq_Inr any_rows_Inr split: if_splits)
    qed
  qed
qed

lemma scm_ok_insert:
  assumes "scm_ok lower_text d" and "DvID x \<notin> DvID ` set (deliveries d)" and "DvRepositoryID x \<in> RepoID ` set (repositories d)"
    and "\<And>v. v \<in> set (deliveries d) \<Longrightarrow> (DvProvider v, DvDeliveryID v) \<noteq> (DvProvider x, DvDeliveryID x)" and "delivery_ok x"
  shows "scm_ok lower_text (d\<lparr> deliveries := deliveries d @ [x] \<rparr>)"
proof -
  have "(DvProvider x, DvDeliveryID x) \<notin> (\<lambda>v. (DvProvider v, DvDeliveryID v)) ` set (deliveries d)"
    using assms(4) by (metis (no_types, lifting) imageE)
  then show ?thesis using assms(1,2,3,5) by (auto simp: scm_ok_def)
qed

lemma CreateSCMDelivery_ok:
  assumes ok: "scm_ok lower_text d" and st: "DvStatus v \<in> {DeliveryPending, DeliveryIgnored}"
    and c: "CreateSCMDelivery ident clock v d = Inr (x, d')"
  shows "scm_ok lower_text d'"
  using c
proof (cases rule: CreateSCMDelivery_cases)
  case replay
  then show ?thesis using ok by simp
next
  case (fresh d1)
  have x: "DvStatus x = DvStatus v" "DvClaimToken x = None" "DvClaimedBy x = None" "DvClaimExpiresAt x = None"
    by (subst fresh(1), simp)+
  then have "delivery_ok x" using st fresh(4) by (auto simp: delivery_ok_def)
  then have ok1: "scm_ok lower_text d1" using scm_ok_insert [OF ok fresh(2,3,5)] fresh(6) by simp
  show ?thesis
  proof (cases "supersedes x")
    case True
    then obtain n d2 m where e: "exec_deliveries (superseded_delivery x) (ignore_row clock) d1 = Inr (n, d2)"
        "exec_runs (superseded_run x d2) (supersede_row clock) d2 = Inr (m, d')"
      using fresh(7) by auto
    have "scm_ok lower_text d2"
      by (rule scm_ok_deliveries [OF ok1 e(1)]) (auto simp: delivery_ok_def ignore_row_def)
    moreover have "scm_frame d2 d'" by (rule frame_runs [OF e(2)]) (simp add: supersede_row_def)
    ultimately show ?thesis by (rule scm_ok_frame)
  qed (use ok1 fresh(7) in simp)
qed

lemma CreateSCMRun_cases:
  assumes "CreateSCMRun s ident clock token cr t d = Inr (x, d')"
  obtains v d1 out where "v \<in> set (deliveries d)" "holds_claim (TrDeliveryID t) token clock v" "createRun clock cr d = Inr ((), d1)"
    "insert_trigger (trigger_row ident clock t) d1 = Inr (out, d')" "TrRunID t = CrID cr"
  using assms by (auto simp: CreateSCMRun_def rbind_eq_Inr list_ex_iff split: if_splits)

lemma CreateSCMRepository_ok:
  assumes ok: "scm_ok lower_text d" and c: "CreateSCMRepository lower_text ident clock r d = Inr (x, d')"
  shows "scm_ok lower_text d'"
proof -
  obtain normalized where n: "NormalizeRepository lower_text (RepoProvider r) (FullName r) = Inr normalized"
    using c by (auto simp: CreateSCMRepository_def split: sum.splits)
  have name: "normalized = to_lower lower_text (FullName r)"
    using n by (auto simp: NormalizeRepository_def Let_def split: if_splits list.splits)
  have d': "d' = d\<lparr> repositories := repositories d @ [x] \<rparr>" "RepoID x \<notin> RepoID ` set (repositories d)"
      "\<And>y. y \<in> set (repositories d) \<Longrightarrow> (RepoProvider y, repository_name lower_text y) \<noteq> (RepoProvider r, normalized)"
      "RepoProvider x = RepoProvider r" "FullName x = FullName r"
    using c n by (auto simp: CreateSCMRepository_def Let_def list_ex_iff split: sum.splits if_splits)
  then have "(RepoProvider x, repository_name lower_text x) = (RepoProvider r, normalized)" by (simp add: repository_name_def name)
  then have "(RepoProvider x, repository_name lower_text x) \<notin> (\<lambda>r. (RepoProvider r, repository_name lower_text r)) ` set (repositories d)"
    using d'(3) by (metis (no_types, lifting) imageE)
  then show ?thesis using ok d'(1,2) by (auto simp: scm_ok_def)
qed

lemma DeleteSCMRepository_ok:
  assumes "scm_ok lower_text d" and "DeleteSCMRepository ident d = Inr (u, d')"
  shows "scm_ok lower_text d'"
proof -
  have d': "d' = d\<lparr> repositories := filter (\<lambda>r. RepoID r \<noteq> ident) (repositories d) \<rparr>"
      "ident \<notin> DvRepositoryID ` set (deliveries d)" "ident \<notin> TrRepositoryID ` set (triggers d)"
    using assms(2) by (auto simp: DeleteSCMRepository_def split: if_splits)
  have "x \<in> RepoID ` set (filter (\<lambda>r. RepoID r \<noteq> ident) (repositories d))" if "x \<in> RepoID ` set (repositories d)" "x \<noteq> ident" for x
    using that by auto
  moreover have "DvRepositoryID v \<noteq> ident" if "v \<in> set (deliveries d)" for v using d'(2) that by auto
  moreover have "TrRepositoryID t \<noteq> ident" if "t \<in> set (triggers d)" for t using d'(3) that by auto
  ultimately show ?thesis using assms(1) unfolding scm_ok_def d'(1) by (simp add: distinct_map_filter del: distinct_map set_filter)
qed

lemma scm_step_ok:
  assumes ok: "scm_ok lower_text d" and step: "scm_step lower_text s d d'"
  shows "scm_ok lower_text d'"
  using step
proof (cases rule: scm_step.cases)
  case (claim_delivery locked token worker now lease res)
  have "exec_deliveries P (claim_row token worker e) d = Inr (n, x) \<Longrightarrow> scm_ok lower_text x" for P e n x
    by (erule scm_ok_deliveries [OF ok]) (auto simp: claim_row_def delivery_ok_def)
  then show ?thesis using claim_delivery ok by (auto simp: ClaimSCMDelivery_def rbind_eq_Inr split: if_splits option.splits)
next
  case (renew_delivery ident token now lease u)
  then have "\<exists>n. exec_deliveries (holds_claim ident token now) (\<lambda>v. v\<lparr> DvClaimExpiresAt := Some (now + lease) \<rparr>) d = Inr (n, d')"
    by (auto simp: RenewSCMDeliveryClaim_def one_row_Inr split: if_splits)
  then show ?thesis by (elim exE scm_ok_deliveries [OF ok]) (auto simp: delivery_ok_def holds_claim_def)
next
  case (complete_delivery ident token status clock u)
  then have e: "\<exists>n. exec_deliveries (holds_claim ident token clock) (complete_delivery_row clock status) d = Inr (n, d')"
    and st: "status \<noteq> DeliveryProcessing"
    by (auto simp: CompleteSCMDelivery_def one_row_Inr split: if_splits)
  from e show ?thesis by (elim exE scm_ok_deliveries [OF ok]) (use st in \<open>auto simp: delivery_ok_def complete_delivery_row_def\<close>)
next
  case (fail_delivery ident token retryAt message clock u)
  then have "\<exists>n. exec_deliveries (holds_claim ident token clock) (fail_delivery_row retryAt message) d = Inr (n, d')"
    by (auto simp: FailSCMDelivery_def one_row_Inr)
  then show ?thesis by (elim exE scm_ok_deliveries [OF ok]) (auto simp: delivery_ok_def fail_delivery_row_def)
next
  case (create_trigger ident clock t x)
  then show ?thesis
    using insert_trigger_ok [OF ok] ok by (auto simp: CreateSCMRunTrigger_def rbind_eq_Inr split: if_splits sum.splits)
next
  case (create_run ident clock token cr t x)
  from create_run show ?thesis
  proof (rule CreateSCMRun_cases)
    fix v d1 out
    assume e: "createRun clock cr d = Inr ((), d1)" "insert_trigger (trigger_row ident clock t) d1 = Inr (out, d')"
    have "scm_ok lower_text d1" using ok calm_frame [OF calm_create [OF e(1)]] by (rule scm_ok_frame)
    then show ?thesis using insert_trigger_ok e(2) by blast
  qed
next
  case (claim_check lockd token worker clock now lease out)
  note ok1 = refresh_checks_ok [OF ok, of clock]
  have "exec_triggers P (claim_check_row token worker e) (refresh_checks clock d) = Inr (n, x) \<Longrightarrow> scm_ok lower_text x" for P e n x
    by (erule scm_ok_triggers [OF ok1]) (simp_all add: claim_check_row_def)
  then show ?thesis using claim_check ok1 by (auto simp: ClaimSCMCheck_def Let_def rbind_eq_Inr split: if_splits option.splits)
next
  case (complete_check ident token checkRunID state conclusion clock u)
  then obtain n where "exec_triggers (holds_check ident token clock)
      (\<lambda>t. t\<lparr> TrCheckRunID := Some checkRunID, TrCheckState := Some state, TrLastConclusion := conclusion, TrLastCheckError := None,
         TrClaimToken := None, TrClaimedBy := None, TrClaimExpiresAt := None, TrNextAttemptAt := None, TrUpdatedAt := clock \<rparr>) d = Inr (n, d')"
    by (auto simp: CompleteSCMCheck_def one_row_Inr)
  then show ?thesis by (rule scm_ok_triggers [OF ok]) simp_all
next
  case (fail_check ident token retry message clock u)
  then obtain n where "exec_triggers (holds_check ident token clock)
      (\<lambda>t. t\<lparr> TrLastCheckError := Some (take 4096 message), TrNextAttemptAt := Some retry,
         TrClaimToken := None, TrClaimedBy := None, TrClaimExpiresAt := None, TrUpdatedAt := clock \<rparr>) d = Inr (n, d')"
    by (auto simp: FailSCMCheck_def one_row_Inr)
  then show ?thesis by (rule scm_ok_triggers [OF ok]) simp_all
qed (use ok in \<open>blast intro: CreateSCMRepository_ok DeleteSCMRepository_ok CreateSCMDelivery_ok\<close>)+

lemma system_reachable_scm_ok:
  assumes "system_reachable lower_text s d"
  shows "scm_ok lower_text d"
proof -
  have init: "scm_ok lower_text empty_db" by (simp add: scm_ok_def empty_db_def)
  have "(system_step lower_text s)\<^sup>*\<^sup>* empty_db d" using assms by (simp add: system_reachable_def)
  then show ?thesis
    by (induction rule: rtranclp_induct) (use init in \<open>auto simp: system_step_def intro: scm_step_ok scm_ok_frame remote_step_scm_frame\<close>)
qed

section \<open>Claims\<close>

lemma exec_deliveries_Inr: "exec_deliveries P f d = Inr (n, d') \<longleftrightarrow>
    (\<forall>v \<in> set (deliveries d). P v \<longrightarrow> DvAttemptCount (f v) \<ge> 0) \<and> n = affected P (deliveries d) \<and>
    d' = d\<lparr> deliveries := upd_where P f (deliveries d) \<rparr>"
  by (auto simp: exec_deliveries_def list_all_iff)

lemma ClaimSCMDelivery_cases:
  assumes ok: "scm_ok lower_text d" and c: "ClaimSCMDelivery locked token worker now lease d = Inr (Some x, d')"
  obtains v where "v \<in> set (deliveries d)" "delivery_due now v" "x = claim_row token worker (now + lease) v"
    "d' = d\<lparr> deliveries := upd_where (\<lambda>y. y = v) (claim_row token worker (now + lease)) (deliveries d) \<rparr>"
    "\<And>y. y \<in> set (deliveries d) \<Longrightarrow> delivery_due now y \<Longrightarrow> \<not> locked y \<Longrightarrow> (DvReceivedAt v, DvID v) \<le> (DvReceivedAt y, DvID y)"
    "0 < lease"
proof -
  obtain v where v: "first_by (\<lambda>v. (DvReceivedAt v, DvID v)) (filter (\<lambda>v. delivery_due now v \<and> \<not> locked v) (deliveries d)) = Some v"
      "x = claim_row token worker (now + lease) v" "0 < lease"
      "d' = d\<lparr> deliveries := upd_where (\<lambda>y. DvID y = DvID v) (claim_row token worker (now + lease)) (deliveries d) \<rparr>"
    using c by (auto simp: ClaimSCMDelivery_def rbind_eq_Inr exec_deliveries_Inr split: if_splits option.splits)
  note f = first_by_Some [OF v(1)]
  have ids: "distinct (map DvID (deliveries d))" using ok by (simp add: scm_ok_def)
  have "upd_where (\<lambda>y. DvID y = DvID v) g (deliveries d) = upd_where (\<lambda>y. y = v) g (deliveries d)" for g
    unfolding upd_where_def using key_unique [OF ids] f by (intro map_cong) auto
  then show thesis using that [of v] v(2-4) f by auto
qed

text \<open>The database serves a request under a claim exactly when the claim is current.\<close>

definition claim_current :: "db \<Rightarrow> string \<Rightarrow> string \<Rightarrow> time \<Rightarrow> bool" where
  "claim_current d ident token clock \<longleftrightarrow> (\<exists>v \<in> set (deliveries d). holds_claim ident token clock v)"

lemma affected_claim:
  assumes "scm_ok lower_text d"
  shows "affected (holds_claim ident token clock) (deliveries d) = (if claim_current d ident token clock then 1 else 0)"
proof (cases "claim_current d ident token clock")
  case True
  have ids: "distinct (map DvID (deliveries d))" using assms(1) by (simp add: scm_ok_def)
  obtain v where v: "v \<in> set (deliveries d)" "holds_claim ident token clock v" using True by (auto simp: claim_current_def)
  have all: "y = v" if "y \<in> set (deliveries d)" "holds_claim ident token clock y" for y
    using key_unique [OF ids that(1) v(1)] that(2) v(2) by (simp add: holds_claim_def)
  have "set (filter (holds_claim ident token clock) (deliveries d)) = {v}"
  proof (intro equalityI subsetI)
    fix y assume "y \<in> set (filter (holds_claim ident token clock) (deliveries d))"
    then have "y = v" by (intro all) simp_all
    then show "y \<in> {v}" by simp
  qed (use v in simp)
  moreover have "distinct (filter (holds_claim ident token clock) (deliveries d))" using ids by (simp add: distinct_map)
  ultimately have "filter (holds_claim ident token clock) (deliveries d) = [v]" by (intro singleton_list)
  then show ?thesis using True by (simp add: affected_def)
qed (auto simp: claim_current_def affected_0)

lemma delivery_attempts: "scm_ok lower_text d \<Longrightarrow> v \<in> set (deliveries d) \<Longrightarrow> DvAttemptCount v \<ge> 0"
  by (auto simp: scm_ok_def delivery_ok_def)

lemma RenewSCMDeliveryClaim_iff:
  assumes "scm_ok lower_text d" and "ident \<noteq> ''''" and "token \<noteq> ''''" and "0 < lease"
  shows "(\<exists>d'. RenewSCMDeliveryClaim ident token now lease d = Inr ((), d')) \<longleftrightarrow> claim_current d ident token now"
    and "\<not> claim_current d ident token now \<Longrightarrow> RenewSCMDeliveryClaim ident token now lease d = Inl ErrConflict"
  using assms delivery_attempts [OF assms(1)]
  by (auto simp: affected_claim [OF assms(1)] RenewSCMDeliveryClaim_def one_row_def exec_deliveries_def list_all_iff)

lemma CompleteSCMDelivery_iff:
  assumes "scm_ok lower_text d" and "status = DeliveryProcessed \<or> status = DeliveryIgnored"
  shows "(\<exists>d'. CompleteSCMDelivery ident token status clock d = Inr ((), d')) \<longleftrightarrow> claim_current d ident token clock"
    and "\<not> claim_current d ident token clock \<Longrightarrow> CompleteSCMDelivery ident token status clock d = Inl ErrConflict"
  using assms delivery_attempts [OF assms(1)]
  by (auto simp: affected_claim [OF assms(1)] CompleteSCMDelivery_def complete_delivery_row_def one_row_def exec_deliveries_def list_all_iff)

lemma FailSCMDelivery_iff:
  assumes "scm_ok lower_text d"
  shows "(\<exists>d'. FailSCMDelivery ident token retryAt message clock d = Inr ((), d')) \<longleftrightarrow> claim_current d ident token clock"
    and "\<not> claim_current d ident token clock \<Longrightarrow> FailSCMDelivery ident token retryAt message clock d = Inl ErrConflict"
  using assms delivery_attempts [OF assms(1)]
  by (auto simp: affected_claim [OF assms(1)] FailSCMDelivery_def fail_delivery_row_def one_row_def exec_deliveries_def list_all_iff)

lemma CreateSCMRun_fenced:
  "\<not> claim_current d (TrDeliveryID t) token clock \<Longrightarrow> CreateSCMRun s ident clock token cr t d \<noteq> Inr (x, d')"
  by (auto simp: CreateSCMRun_def claim_current_def list_ex_iff)

section \<open>Superseding\<close>

lemma supersede_effect:
  assumes ok: "scm_ok lower_text d" and c: "CreateSCMDelivery ident clock v d = Inr (x, d')"
    and new: "x \<notin> set (deliveries d)" and sup: "supersedes x"
  shows "jobs d' = jobs d" and "triggers d' = triggers d"
    and "w \<in> set (deliveries d) \<Longrightarrow> superseded_delivery x w \<Longrightarrow> ignore_row clock w \<in> set (deliveries d')"
    and "w \<in> set (deliveries d) \<Longrightarrow> superseded_delivery x w \<Longrightarrow> DvStatus v \<in> {DeliveryPending, DeliveryIgnored} \<Longrightarrow> \<not> claim_current d' (DvID w) token t"
    and "runs d' = upd_where (superseded_run x d) (supersede_row clock) (runs d)"
proof -
  obtain d1 n d2 m where e: "d1 = d\<lparr> deliveries := deliveries d @ [x] \<rparr>"
      "exec_deliveries (superseded_delivery x) (ignore_row clock) d1 = Inr (n, d2)"
      "exec_runs (superseded_run x d2) (supersede_row clock) d2 = Inr (m, d')"
    using c new sup by (cases rule: CreateSCMDelivery_cases) auto
  have d2: "d2 = d1\<lparr> deliveries := upd_where (superseded_delivery x) (ignore_row clock) (deliveries d1) \<rparr>"
    using e(2) by (simp add: exec_deliveries_Inr)
  have d': "d' = d2\<lparr> runs := upd_where (superseded_run x d2) (supersede_row clock) (runs d2) \<rparr>"
    using e(3) by (simp add: exec_runs_Inr)
  show "jobs d' = jobs d" "triggers d' = triggers d" by (simp_all add: d' d2 e(1))
  have "superseded_run x d2 = superseded_run x d" by (auto simp: superseded_run_def d2 e(1))
  then show "runs d' = upd_where (superseded_run x d) (supersede_row clock) (runs d)" by (simp add: d' d2 e(1))
  {
    assume w: "w \<in> set (deliveries d)" "superseded_delivery x w"
    have *: "deliveries d' = upd_where (superseded_delivery x) (ignore_row clock) (deliveries d @ [x])" by (simp add: d' d2 e(1))
    show mem: "ignore_row clock w \<in> set (deliveries d')" using w by (force simp: * set_upd_where)
    assume "DvStatus v \<in> {DeliveryPending, DeliveryIgnored}"
    then have ids: "distinct (map DvID (deliveries d'))" using CreateSCMDelivery_ok [OF ok _ c] by (simp add: scm_ok_def)
    have "y = ignore_row clock w" if "y \<in> set (deliveries d')" "DvID y = DvID w" for y
      using key_unique [OF ids that(1) mem] that(2) by simp
    then show "\<not> claim_current d' (DvID w) token t"
      unfolding claim_current_def holds_claim_def by (metis DeliveryStatus.distinct(13) ignore_row_sel(5))
  }
qed

end
