(* ===== verification/Scm_Worker.thy ===== *)
theory Scm_Worker
  imports Scm_Safety Pipeline_Graph
begin

text \<open>
  \<open>internal/scmworker\<close>, \<open>internal/scm/git/materialize.go\<close> and
  \<open>internal/scm/github/source.go\<close>: the workers that turn claimed deliveries into runs, the
  preparation of the source of a delivery, and the worker that reports runs as checks. A worker is a state
  machine; between two of its steps the other workers, the webhook handler and the scheduler move
  (\<open>worker_step\<close>). Git, the file system and the snapshot store answer through the record
  \<open>git_env\<close>, and the GitHub token service through \<open>token_of\<close>. Durations are integers.
\<close>

section \<open>Configuration and retries\<close>

record WorkerConfig =
  WorkerID :: string
  Concurrency :: int
  WLease :: duration
  Poll :: duration
  BaseBackoff :: duration
  MaxBackoff :: duration
  MaxAttempts :: int

definition New :: "string \<Rightarrow> bool \<Rightarrow> bool \<Rightarrow> WorkerConfig \<Rightarrow> WorkerConfig option" where
  "New ident has_store has_prepare c0 =
    (if \<not> has_store \<or> \<not> has_prepare then None
     else
       let c = c0\<lparr> Concurrency := (if Concurrency c0 = 0 then 2 else Concurrency c0),
             WLease := (if WLease c0 = 0 then 120 * 10 ^ 9 else WLease c0),
             Poll := (if Poll c0 = 0 then 250 * 10 ^ 6 else Poll c0),
             BaseBackoff := (if BaseBackoff c0 = 0 then 10 ^ 9 else BaseBackoff c0),
             MaxBackoff := (if MaxBackoff c0 = 0 then 60 * 10 ^ 9 else MaxBackoff c0),
             MaxAttempts := (if MaxAttempts c0 = 0 then 5 else MaxAttempts c0),
             WorkerID := (if WorkerID c0 = '''' then ident else WorkerID c0) \<rparr> in
       if Concurrency c < 1 \<or> WLease c \<le> 0 \<or> Poll c \<le> 0 \<or> BaseBackoff c \<le> 0 \<or> MaxBackoff c < BaseBackoff c \<or> MaxAttempts c < 1
       then None else Some c)"

text \<open>The loop \<open>for i := 1; i < attempts && delay < limit; i++\<close> of \<open>Worker.fail\<close> and of
  \<open>CheckWorker.reconcile\<close>, with \<open>n\<close> rounds left.\<close>

fun backoff_loop :: "nat \<Rightarrow> duration \<Rightarrow> duration \<Rightarrow> duration" where
  "backoff_loop 0 limit delay = delay"
| "backoff_loop (Suc n) limit delay =
    (if delay < limit then backoff_loop n limit (if delay * 2 > limit then limit else delay * 2) else delay)"

definition retry_at :: "WorkerConfig \<Rightarrow> time \<Rightarrow> Delivery \<Rightarrow> 'e scm_error \<Rightarrow> time option" where
  "retry_at cfg now v err =
    (if Failure err = FailureTransient \<and> DvAttemptCount v < MaxAttempts cfg
     then Some (now + backoff_loop (nat (DvAttemptCount v - 1)) (MaxBackoff cfg) (BaseBackoff cfg)) else None)"

lemma backoff_loop_eq:
  assumes "0 < delay" and "delay \<le> limit"
  shows "backoff_loop n limit delay = min (delay * 2 ^ n) limit"
  using assms
proof (induction n arbitrary: delay)
  case (Suc n)
  show ?case
  proof (cases "delay < limit")
    case True
    show ?thesis
    proof (cases "delay * 2 > limit")
      case over: True
      have "delay * 2 * 1 \<le> delay * 2 * 2 ^ n" using Suc.prems by (intro mult_left_mono) simp_all
      then have "limit \<le> delay * 2 * 2 ^ n" using over by linarith
      moreover have "backoff_loop n limit limit = limit" by (cases n) simp_all
      ultimately show ?thesis using True over by (simp add: min_def ac_simps)
    next
      case False
      then have "backoff_loop n limit (delay * 2) = min (delay * 2 * 2 ^ n) limit" using Suc by (intro Suc.IH) simp_all
      then show ?thesis using True False by (simp add: ac_simps)
    qed
  next
    case False
    then have "delay = limit" using Suc.prems by simp
    moreover have "limit * 1 \<le> limit * 2 ^ Suc n" using Suc.prems by (intro mult_left_mono one_le_power) simp_all
    ultimately show ?thesis by (simp add: min_def)
  qed
qed simp

section \<open>Preparing the source\<close>

function decimal :: "nat \<Rightarrow> string" where
  "decimal n = (if n < 10 then [char_of (48 + n)] else decimal (n div 10) @ [char_of (48 + n mod 10)])"
  by pat_completeness auto
termination
  by (relation "measure id") auto

definition format_int :: "int \<Rightarrow> string" where
  "format_int n = (if n < 0 then ''-'' @ decimal (nat (- n)) else decimal (nat n))"

record Request =
  RqProvider :: string
  RqRepository :: string
  RqPipelinePath :: string
  RqRef :: string
  RqCommitSHA :: string
  RqPullRequestNumber :: "int option"
  RqCloneBase :: string

record Prepared =
  PpProvider :: string
  PpRepository :: string
  PpCommitSHA :: string
  PpRef :: string
  PpPipelinePath :: string
  PpPullRequestNumber :: "int option"
  PpYAML :: string
  PpSnapshot :: SourceSnapshot
  PpPipeline :: Graph

record git_env =
  has_snapshots :: bool
  temp_dir :: "string option"
  git_run :: "string list \<Rightarrow> string option"
  git_output :: "string list \<Rightarrow> (string, string) result"
  safe_path :: "string \<Rightarrow> (string, string) result"
  read_file :: "string \<Rightarrow> (string, string) result"
  capture :: "(string, SourceSnapshot) result"

definition git_validSHA :: "string \<Rightarrow> bool" where
  "git_validSHA v \<longleftrightarrow> (length v = 40 \<or> length v = 64) \<and> list_all is_hex v"

definition Remote :: "(string \<Rightarrow> string) \<Rightarrow> string \<Rightarrow> string \<Rightarrow> (string, string) result" where
  "Remote lower_text base repo =
    (case NormalizeRepository lower_text ''github'' repo of
       Inl _ \<Rightarrow> Inl ''invalid repository name''
     | Inr _ \<Rightarrow>
       if \<not> has_prefix base ''https://'' \<and> \<not> has_prefix base ''http://'' \<and> \<not> has_prefix base ''file://''
       then Inl ''invalid clone base'' else Inr (trim_suffix base ''/'' @ ''/'' @ repo @ ''.git''))"

text \<open>A git command that fails, for whatever reason, including the end of its context, returns an error.\<close>

definition git_step :: "git_env \<Rightarrow> string list \<Rightarrow> (string \<Rightarrow> string scm_error) \<Rightarrow> (string scm_error, unit) result" where
  "git_step env args mark = (case git_run env args of None \<Rightarrow> Inr () | Some e \<Rightarrow> Inl (mark e))"

definition marked :: "('e \<Rightarrow> 'f) \<Rightarrow> ('e, 'a) result \<Rightarrow> ('f, 'a) result" where
  "marked mark r = (case r of Inl e \<Rightarrow> Inl (mark e) | Inr x \<Rightarrow> Inr x)"

lemma marked_Inr [simp]: "marked mark r = Inr x \<longleftrightarrow> r = Inr x"
  by (simp add: marked_def split: sum.splits)

definition Prepare :: "(string \<Rightarrow> string) \<Rightarrow> Store \<Rightarrow> git_env \<Rightarrow> Request \<Rightarrow> (string scm_error, Prepared) result" where
  "Prepare lower_text s env r =
    (if \<not> has_snapshots env \<or> RqProvider r \<noteq> ''github'' \<or> \<not> git_validSHA (RqCommitSHA r) then Inl (Permanent ''invalid source request'')
     else (case NormalizeRepository lower_text (RqProvider r) (RqRepository r) of
         Inl _ \<Rightarrow> Inl (Permanent ''invalid repository name'')
       | Inr repo \<Rightarrow>
         (case ValidatePipelinePath (RqPipelinePath r) of
            Inl _ \<Rightarrow> Inl (Permanent ''invalid pipeline path'')
          | Inr pipelinePath \<Rightarrow>
            rbind (marked Permanent (Remote lower_text (RqCloneBase r) repo)) (\<lambda>remote.
            rbind (case temp_dir env of None \<Rightarrow> Inr () | Some e \<Rightarrow> Inl (Unmarked e)) (\<lambda>_.
            rbind (git_step env [''init''] Unmarked) (\<lambda>_.
            rbind (git_step env [''remote'', ''add'', ''origin'', remote] Unmarked) (\<lambda>_.
            let ref = (case RqPullRequestNumber r of Some n \<Rightarrow> ''refs/pull/'' @ format_int n @ ''/head'' | None \<Rightarrow> RqRef r) in
            if ref = '''' then Inl (Permanent ''missing source ref'')
            else
            rbind (git_step env [''fetch'', ''--no-tags'', ''origin'', ref] Unmarked) (\<lambda>_.
            rbind (git_step env [''checkout'', ''--detach'', RqCommitSHA r] Permanent) (\<lambda>_.
            rbind (case git_output env [''rev-parse'', ''HEAD''] of
                Inl _ \<Rightarrow> Inl (Permanent ''requested source revision unavailable'')
              | Inr head \<Rightarrow> if map lower_char (trim_space head) \<noteq> map lower_char (RqCommitSHA r)
                  then Inl (Permanent ''requested source revision unavailable'') else Inr ()) (\<lambda>_.
            rbind (marked Permanent (safe_path env pipelinePath)) (\<lambda>path.
            rbind (marked Permanent (read_file env path)) (\<lambda>data.
            rbind (marked (\<lambda>_. Permanent ''invalid pipeline'') (parse_stored s data)) (\<lambda>cfg.
            rbind (marked (\<lambda>_. Permanent ''compile pipeline'') (Compile cfg)) (\<lambda>graph.
            rbind (marked Unmarked (capture env)) (\<lambda>meta.
            Inr \<lparr> PpProvider = RqProvider r, PpRepository = repo, PpCommitSHA = map lower_char (RqCommitSHA r), PpRef = ref,
              PpPipelinePath = pipelinePath, PpPullRequestNumber = RqPullRequestNumber r, PpYAML = data, PpSnapshot = meta,
              PpPipeline = graph \<rparr>)))))))))))))))"

text \<open>\<open>PrepareSource\<close>: \<open>parse_id\<close> is \<open>strconv.ParseInt\<close>; an error of the token
  service carries whether it is transient.\<close>

definition PrepareSource :: "(string \<Rightarrow> string) \<Rightarrow> Store \<Rightarrow> (string \<Rightarrow> int option) \<Rightarrow> bool \<Rightarrow> (string \<Rightarrow> (string \<times> bool, string) result) \<Rightarrow> git_env
    \<Rightarrow> string \<Rightarrow> Repository \<Rightarrow> Delivery \<Rightarrow> (string scm_error, Prepared) result" where
  "PrepareSource lower_text s parse_id has_tokens token_of env cloneBase repository delivery =
    (if \<not> has_tokens \<or> RepoProvider repository \<noteq> ''github'' \<or> RepoID repository = '''' \<or> DvRepositoryID delivery \<noteq> RepoID repository
     then Inl (Permanent ''invalid GitHub source request'')
     else (case parse_id (DvInstallationID delivery) of
         None \<Rightarrow> Inl (Permanent ''invalid GitHub installation ID'')
       | Some n \<Rightarrow>
         if n < 1 then Inl (Permanent ''invalid GitHub installation ID'')
         else (case token_of (DvInstallationID delivery) of
             Inl (e, transient) \<Rightarrow> Inl (if transient then Transient e else Permanent e)
           | Inr token \<Rightarrow>
             Prepare lower_text s env \<lparr> RqProvider = ''github'', RqRepository = FullName repository, RqPipelinePath = PipelinePath repository,
               RqRef = DvRef delivery, RqCommitSHA = DvCommitSHA delivery, RqPullRequestNumber = DvPullRequestNumber delivery,
               RqCloneBase = cloneBase \<rparr>)))"

section \<open>The delivery worker\<close>

text \<open>\<open>createRun\<close> of \<open>worker.go\<close>: the run a prepared delivery asks for. The nil dereference
  on an ordered job without a node is \<open>None\<close>.\<close>

definition worker_createRun :: "(string \<Rightarrow> string) \<Rightarrow> string \<Rightarrow> Prepared \<Rightarrow> CreateRun option" where
  "worker_createRun sha256_hex ident p =
    (if list_all (\<lambda>name. map_of (Nodes (PpPipeline p)) name \<noteq> None) (Order (PpPipeline p)) then
       let job = (\<lambda>name. NodeJob (the (map_of (Nodes (PpPipeline p)) name))) in
       Some \<lparr> CrID = ident, CrFile = PpPipelinePath p, CrSHA256 = sha256_hex (PpYAML p), CrWorkspace = PpRepository p, CrYAML = PpYAML p,
         CrMaxParallel = 1, CrJobs = map (\<lambda>name. (name, Image (job name))) (Order (PpPipeline p)),
         CrDependencies = concat (map (\<lambda>name. map (\<lambda>dep. (name, dep)) (Needs (job name))) (Order (PpPipeline p))),
         CrSnapshot = Some (PpSnapshot p) \<rparr>
     else None)"

definition worker_trigger :: "string \<Rightarrow> Delivery \<Rightarrow> Repository \<Rightarrow> Prepared \<Rightarrow> RunTrigger" where
  "worker_trigger run v repository p =
    \<lparr> TrID = '''', TrDeliveryID = DvID v, TrRepositoryID = RepoID repository, TrRunID = run, TrProvider = PpProvider p,
      TrCommitSHA = PpCommitSHA p, TrRef = PpRef p, TrInstallationID = DvInstallationID v,
      TrPullRequestNumber = PpPullRequestNumber p, TrCheckRunID = None, TrCheckState = None, TrLastCheckError = None,
      TrExternalID = '''', TrDesiredStatus = '''', TrDesiredConclusion = None, TrLastConclusion = None,
      TrClaimToken = None, TrClaimedBy = None, TrClaimExpiresAt = None, TrNextAttemptAt = None, TrAttemptCount = 0,
      TrCreatedAt = 0, TrUpdatedAt = 0 \<rparr>"

text \<open>Where a goroutine of the worker stands in \<open>loop\<close> and \<open>process\<close>.\<close>

datatype phase =
    Idle
  | Claimed Delivery
  | Looking Delivery
  | Preparing Delivery Repository
  | Creating Delivery Repository Prepared
  | Finishing Delivery
  | Failing Delivery "string scm_error"

text \<open>What a call finds: the clocks, the identifiers it draws, the outcome of the preparation, and
  \<open>failing\<close>, the error of a call whose context is canceled or that the database does not serve.
  Completing and failing a delivery run on a context that is not canceled, so there \<open>failing\<close> is a failure
  of the database.\<close>

record call_env =
  e_now :: time
  e_clock :: time
  e_token :: string
  e_run :: string
  e_trigger :: string
  e_locked :: "Delivery \<Rightarrow> bool"
  e_prepare :: "Repository \<Rightarrow> Delivery \<Rightarrow> (string scm_error, Prepared) result"
  e_sha256 :: "string \<Rightarrow> string"
  failing :: "string option"

definition served :: "db \<Rightarrow> (store_error, 'a \<times> db) result \<Rightarrow> db" where
  "served d r = (case r of Inl _ \<Rightarrow> d | Inr (_, d') \<Rightarrow> d')"

definition delivery_message :: "string scm_error \<Rightarrow> string" where
  "delivery_message err = take 4096 (case err of Transient e \<Rightarrow> e | Permanent e \<Rightarrow> e | Unmarked e \<Rightarrow> e)"

definition worker_fail :: "call_env \<Rightarrow> WorkerConfig \<Rightarrow> Delivery \<Rightarrow> string scm_error \<Rightarrow> db \<Rightarrow> db" where
  "worker_fail e cfg v err d =
    (case DvClaimToken v of
       None \<Rightarrow> d
     | Some token \<Rightarrow>
       if failing e \<noteq> None then d
       else served d (FailSCMDelivery (DvID v) token (retry_at cfg (e_now e) v err) (delivery_message err) (e_clock e) d))"

text \<open>One call of \<open>loop\<close> or \<open>process\<close>; a panic of \<open>createRun\<close> ends the program.\<close>

fun process_step :: "Store \<Rightarrow> call_env \<Rightarrow> WorkerConfig \<Rightarrow> phase \<Rightarrow> db \<Rightarrow> phase \<times> db" where
  "process_step s e cfg Idle d =
    (if failing e \<noteq> None then (Idle, d)
     else (case ClaimSCMDelivery (e_locked e) (e_token e) (WorkerID cfg) (e_now e) (WLease cfg) d of
         Inl _ \<Rightarrow> (Idle, d)
       | Inr (found, d') \<Rightarrow> (case found of None \<Rightarrow> (Idle, d') | Some v \<Rightarrow> (Claimed v, d'))))"
| "process_step s e cfg (Claimed v) d =
    (case failing e of
       Some m \<Rightarrow> (Failing v (Transient m), d)
     | None \<Rightarrow> (case GetSCMRunTriggerByDelivery (DvID v) d of Inr _ \<Rightarrow> (Finishing v, d) | Inl _ \<Rightarrow> (Looking v, d)))"
| "process_step s e cfg (Looking v) d =
    (case failing e of
       Some m \<Rightarrow> (Failing v (Permanent m), d)
     | None \<Rightarrow>
       (case GetSCMRepository (DvRepositoryID v) d of
          Inl _ \<Rightarrow> (Failing v (Permanent ''not found''), d)
        | Inr repository \<Rightarrow>
          if \<not> Enabled repository then (Failing v (Permanent ''SCM repository is disabled''), d)
          else (Preparing v repository, d)))"
| "process_step s e cfg (Preparing v repository) d =
    (case e_prepare e repository v of Inl err \<Rightarrow> (Failing v err, d) | Inr p \<Rightarrow> (Creating v repository p, d))"
| "process_step s e cfg (Creating v repository p) d =
    (case worker_createRun (e_sha256 e) (e_run e) p of
       None \<Rightarrow> (Idle, d)
     | Some cr \<Rightarrow>
       (case failing e of
          Some m \<Rightarrow> (Failing v (Transient m), d)
        | None \<Rightarrow>
          (case DvClaimToken v of
             None \<Rightarrow> (Failing v (Transient ''invalid SCM run''), d)
           | Some token \<Rightarrow>
             (case CreateSCMRun s (e_trigger e) (e_clock e) token cr (worker_trigger (CrID cr) v repository p) d of
                Inl _ \<Rightarrow> (Failing v (Transient ''create SCM run''), d)
              | Inr (_, d') \<Rightarrow> (Finishing v, d')))))"
| "process_step s e cfg (Finishing v) d =
    (case DvClaimToken v of
       None \<Rightarrow> (Idle, d)
     | Some token \<Rightarrow>
       if failing e \<noteq> None then (Idle, d)
       else (Idle, served d (CompleteSCMDelivery (DvID v) token DeliveryProcessed (e_clock e) d)))"
| "process_step s e cfg (Failing v err) d = (Idle, worker_fail e cfg v err d)"

section \<open>The check worker\<close>

record CheckConfig =
  CkWorkerID :: string
  CkLease :: duration
  CkPoll :: duration

definition NewCheckWorker :: "string \<Rightarrow> bool \<Rightarrow> bool \<Rightarrow> CheckConfig \<Rightarrow> CheckConfig option" where
  "NewCheckWorker ident has_store has_report c0 =
    (if \<not> has_store \<or> \<not> has_report then None
     else
       let c = c0\<lparr> CkWorkerID := (if CkWorkerID c0 = '''' then ident else CkWorkerID c0),
             CkLease := (if CkLease c0 = 0 then 60 * 10 ^ 9 else CkLease c0), CkPoll := (if CkPoll c0 = 0 then 10 ^ 9 else CkPoll c0) \<rparr> in
       if CkLease c \<le> 0 \<or> CkPoll c \<le> 0 then None else Some c)"

text \<open>\<open>reconcile\<close>: \<open>report\<close> is the outcome of the GitHub call, \<open>d1\<close> the database when the
  repository is read and \<open>d\<close> the database once the report has been made.\<close>

definition check_delay :: "RunTrigger \<Rightarrow> duration" where
  "check_delay t = backoff_loop (nat (TrAttemptCount t - 1)) (60 * 10 ^ 9) (10 ^ 9)"

definition reconcile :: "(Repository \<Rightarrow> RunTrigger \<Rightarrow> (string, string) result) \<Rightarrow> time \<Rightarrow> time \<Rightarrow> RunTrigger \<Rightarrow> db \<Rightarrow> db \<Rightarrow> db" where
  "reconcile report now clock t d1 d =
    (case TrClaimToken t of
       None \<Rightarrow> d
     | Some token \<Rightarrow>
       (case (case GetSCMRepository (TrRepositoryID t) d1 of Inl _ \<Rightarrow> Inl ''not found'' | Inr repository \<Rightarrow> report repository t) of
          Inr ident \<Rightarrow> served d (CompleteSCMCheck (TrID t) token ident (TrDesiredStatus t) (TrDesiredConclusion t) clock d)
        | Inl e \<Rightarrow> served d (FailSCMCheck (TrID t) token (now + check_delay t) (take 4096 e) clock d)))"

section \<open>Workers among the other parts\<close>

text \<open>\<open>intake_step\<close> is what the webhook handler, the administration of repositories and the check worker do;
  \<open>others\<close> are the runners, the scheduler and the storage. A crash, or a worker that stops, forgets
  where it stood. The database may also commit a run and lose the answer.\<close>

inductive intake_step :: "(string \<Rightarrow> string) \<Rightarrow> db \<Rightarrow> db \<Rightarrow> bool" for lower_text where
  add_repository: "CreateSCMRepository lower_text ident clock r d = Inr (x, d') \<Longrightarrow> intake_step lower_text d d'"
| drop_repository: "DeleteSCMRepository ident d = Inr (u, d') \<Longrightarrow> intake_step lower_text d d'"
| webhook: "DvStatus v \<in> {DeliveryPending, DeliveryIgnored} \<Longrightarrow> CreateSCMDelivery ident clock v d = Inr (x, d') \<Longrightarrow> intake_step lower_text d d'"
| start_check: "ClaimSCMCheck lockd token worker clock now lease d = Inr (out, d') \<Longrightarrow> intake_step lower_text d d'"
| finish_check: "intake_step lower_text d (reconcile report now clock t d1 d)"

inductive worker_step :: "(string \<Rightarrow> string) \<Rightarrow> Store \<Rightarrow> WorkerConfig \<Rightarrow> db \<times> (nat \<Rightarrow> phase) \<Rightarrow> db \<times> (nat \<Rightarrow> phase) \<Rightarrow> bool"
  for lower_text s cfg where
  move: "process_step s e cfg (ws i) d = (ph, d') \<Longrightarrow> worker_step lower_text s cfg (d, ws) (d', ws(i := ph))"
| lost_answer: "ws i = Creating v repository p \<Longrightarrow> process_step s e cfg (ws i) d = (ph, d') \<Longrightarrow>
    worker_step lower_text s cfg (d, ws) (d', ws(i := Failing v (Transient m)))"
| renewal: "RenewSCMDeliveryClaim ident token now lease d = Inr (u, d') \<Longrightarrow> worker_step lower_text s cfg (d, ws) (d', ws)"
| crash: "worker_step lower_text s cfg (d, ws) (d, ws(i := Idle))"
| intake: "intake_step lower_text d d' \<Longrightarrow> worker_step lower_text s cfg (d, ws) (d', ws)"
| others: "remote_step s d d' \<Longrightarrow> worker_step lower_text s cfg (d, ws) (d', ws)"

definition worker_reachable :: "(string \<Rightarrow> string) \<Rightarrow> Store \<Rightarrow> WorkerConfig \<Rightarrow> db \<times> (nat \<Rightarrow> phase) \<Rightarrow> bool" where
  "worker_reachable lower_text s cfg st \<longleftrightarrow> (worker_step lower_text s cfg)\<^sup>*\<^sup>* (empty_db, \<lambda>_. Idle) st"

end
