(* ===== verification/Worker_Safety.thy ===== *)
theory Worker_Safety
  imports Scm_Worker
begin

text \<open>
  What holds in every state of the source-control workers among the other parts of the control plane. The
  databases of \<open>worker_step\<close> are reachable ones of \<open>system_step\<close> (a simulation), so the invariant of
  the tables holds there, and a delivery that is PROCESSED has started a run.
\<close>

section \<open>The workers refine the tables\<close>

lemma process_step_scm:
  assumes "process_step s e cfg ph d = (ph', d')"
  shows "d' = d \<or> scm_step lower_text s d d'"
proof (cases ph)
  case Idle
  then show ?thesis using assms by (auto split: if_splits sum.splits option.splits intro: scm_step.claim_delivery)
next
  case (Creating v repository p)
  then show ?thesis using assms by (auto split: if_splits sum.splits option.splits intro: scm_step.create_run)
next
  case (Finishing v)
  then show ?thesis
    using assms by (auto simp: served_def split: if_splits option.splits sum.splits intro: scm_step.complete_delivery)
next
  case (Failing v err)
  then show ?thesis
    using assms by (auto simp: worker_fail_def served_def split: if_splits option.splits sum.splits intro: scm_step.fail_delivery)
qed (use assms in \<open>auto split: if_splits sum.splits option.splits\<close>)

lemma reconcile_scm: "reconcile report now clock t d1 d = d \<or> scm_step lower_text s d (reconcile report now clock t d1 d)"
  unfolding reconcile_def served_def
  by (auto split: option.splits sum.splits intro: scm_step.complete_check scm_step.fail_check)

lemma intake_step_scm: "intake_step lower_text d d' \<Longrightarrow> d' = d \<or> scm_step lower_text s d d'"
  by (erule intake_step.cases) (use reconcile_scm in \<open>blast intro: scm_step.intros\<close>)+

lemma worker_step_system:
  assumes "worker_step lower_text s cfg (d, ws) (d', ws')"
  shows "d' = d \<or> system_step lower_text s d d'"
  using assms
proof (cases rule: worker_step.cases)
  case (renewal ident token now lease u)
  then show ?thesis by (auto simp: system_step_def intro: scm_step.renew_delivery)
next
  case (lost_answer i v repository p e ph m)
  show ?thesis using process_step_scm [OF lost_answer(3)] by (auto simp: system_step_def)
qed (auto simp: system_step_def dest!: process_step_scm [where lower_text = lower_text] intake_step_scm [where s = s])

lemma worker_reachable_system:
  assumes "worker_reachable lower_text s cfg (d, ws)"
  shows "system_reachable lower_text s d"
proof -
  have "(worker_step lower_text s cfg)\<^sup>*\<^sup>* (empty_db, \<lambda>_. Idle) (d, ws)" using assms by (simp add: worker_reachable_def)
  then have "system_reachable lower_text s (fst (d, ws))"
  proof (induction rule: rtranclp_induct)
    case (step a b)
    then show ?case using worker_step_system [of lower_text s cfg "fst a" "snd a" "fst b" "snd b"]
      by (auto simp: system_reachable_def intro: rtranclp.rtrancl_into_rtrancl)
  qed (simp add: system_reachable_def)
  then show ?thesis by simp
qed

section \<open>Processed deliveries\<close>

definition started :: "db \<Rightarrow> string set" where
  "started d = TrDeliveryID ` set (triggers d)"

definition processed :: "db \<Rightarrow> string set" where
  "processed d = DvID ` {v \<in> set (deliveries d). DvStatus v = DeliveryProcessed}"

lemma processed_exec:
  assumes "exec_deliveries P f d = Inr (n, d')" and "\<And>v. DvID (f v) = DvID v"
    and "\<And>v. P v \<Longrightarrow> DvStatus (f v) = DeliveryProcessed \<Longrightarrow> DvStatus v = DeliveryProcessed \<or> DvID v \<in> K"
  shows "processed d' \<subseteq> processed d \<union> K"
proof
  fix x assume "x \<in> processed d'"
  then obtain v where v: "v \<in> set (upd_where P f (deliveries d))" "DvStatus v = DeliveryProcessed" "x = DvID v"
    using assms(1) by (auto simp: processed_def exec_deliveries_Inr)
  then show "x \<in> processed d \<union> K"
    using assms(2,3) by (cases rule: in_upd_whereE [OF v(1)]) (auto simp: processed_def)
qed

lemma started_frame: "exec_deliveries P f d = Inr (n, d') \<Longrightarrow> started d' = started d"
  by (auto simp: started_def exec_deliveries_Inr)

lemma frame_started: "scm_frame d d' \<Longrightarrow> started d' = started d \<and> processed d' = processed d"
  by (simp add: scm_frame_def started_def processed_def)

lemma refresh_checks_started [simp]: "started (refresh_checks clock d) = started d" "processed (refresh_checks clock d) = processed d"
  by (auto simp: started_def processed_def refresh_checks_def image_image)

lemma exec_triggers_started:
  assumes "exec_triggers P f d = Inr (n, d')" and "\<And>t. TrDeliveryID (f t) = TrDeliveryID t"
  shows "started d' = started d \<and> processed d' = processed d"
proof -
  have "map TrDeliveryID (upd_where P f (triggers d)) = map TrDeliveryID (triggers d)" using assms(2) by (rule map_upd_where)
  then have "TrDeliveryID ` set (upd_where P f (triggers d)) = TrDeliveryID ` set (triggers d)" by (metis list.set_map)
  then show ?thesis using assms(1) by (auto simp: exec_triggers_def started_def processed_def)
qed

lemma CompleteSCMCheck_started:
  assumes "CompleteSCMCheck ident token x status conclusion clock d = Inr (u, d')"
  shows "started d' = started d \<and> processed d' = processed d"
proof -
  obtain n where "exec_triggers (holds_check ident token clock)
      (\<lambda>t. t\<lparr> TrCheckRunID := Some x, TrCheckState := Some status, TrLastConclusion := conclusion, TrLastCheckError := None,
         TrClaimToken := None, TrClaimedBy := None, TrClaimExpiresAt := None, TrNextAttemptAt := None, TrUpdatedAt := clock \<rparr>) d = Inr (n, d')"
    using assms by (auto simp: CompleteSCMCheck_def one_row_Inr)
  then show ?thesis by (rule exec_triggers_started) simp
qed

lemma FailSCMCheck_started:
  assumes "FailSCMCheck ident token retry m clock d = Inr (u, d')"
  shows "started d' = started d \<and> processed d' = processed d"
proof -
  obtain n where "exec_triggers (holds_check ident token clock)
      (\<lambda>t. t\<lparr> TrLastCheckError := Some (take 4096 m), TrNextAttemptAt := Some retry,
         TrClaimToken := None, TrClaimedBy := None, TrClaimExpiresAt := None, TrUpdatedAt := clock \<rparr>) d = Inr (n, d')"
    using assms by (auto simp: FailSCMCheck_def one_row_Inr)
  then show ?thesis by (rule exec_triggers_started) simp
qed

lemma reconcile_started:
  "started (reconcile report now clock t d1 d) = started d" "processed (reconcile report now clock t d1 d) = processed d"
  unfolding reconcile_def served_def
  by (simp_all split: option.splits sum.splits add: CompleteSCMCheck_started FailSCMCheck_started)

lemma CreateSCMDelivery_started:
  assumes "DvStatus v \<in> {DeliveryPending, DeliveryIgnored}" and "CreateSCMDelivery ident clock v d = Inr (x, d')"
  shows "started d' = started d \<and> processed d' \<subseteq> processed d"
  using assms(2)
proof (cases rule: CreateSCMDelivery_cases)
  case replay
  then show ?thesis by simp
next
  case (fresh d1)
  have "DvStatus x = DvStatus v" using arg_cong [OF fresh(1), of DvStatus] by simp
  then have st: "DvStatus x \<noteq> DeliveryProcessed" using assms(1) by auto
  then have d1: "started d1 = started d" "processed d1 = processed d" by (auto simp: started_def processed_def fresh(6))
  show ?thesis
  proof (cases "supersedes x")
    case True
    then obtain n d2 m where e: "exec_deliveries (superseded_delivery x) (ignore_row clock) d1 = Inr (n, d2)"
        "exec_runs (superseded_run x d2) (supersede_row clock) d2 = Inr (m, d')" using fresh(7) by auto
    have "processed d2 \<subseteq> processed d1 \<union> {}" by (rule processed_exec [OF e(1)]) simp_all
    moreover have "processed d' = processed d2" "started d' = started d2" using e(2) by (auto simp: exec_runs_Inr processed_def started_def)
    ultimately show ?thesis using started_frame [OF e(1)] d1 by simp
  next
    case False
    then show ?thesis using fresh(7) d1 by simp
  qed
qed

lemma intake_step_started:
  assumes "intake_step lower_text d d'"
  shows "started d' = started d \<and> processed d' \<subseteq> processed d"
  using assms
proof (cases rule: intake_step.cases)
  case (add_repository ident clock r x)
  then show ?thesis by (auto simp: CreateSCMRepository_def Let_def started_def processed_def split: sum.splits if_splits)
next
  case (drop_repository ident u)
  then show ?thesis by (auto simp: DeleteSCMRepository_def started_def processed_def split: if_splits)
next
  case (webhook v ident clock x)
  then show ?thesis by (rule CreateSCMDelivery_started)
next
  case (start_check lockd token worker clock now lease out)
  have "exec_triggers P (claim_check_row token worker e) (refresh_checks clock d) = Inr (n, d') \<Longrightarrow> started d' = started d \<and> processed d' = processed d" for P e n
    by (drule exec_triggers_started) (simp_all add: claim_check_row_def)
  then show ?thesis using start_check by (auto simp: ClaimSCMCheck_def Let_def rbind_eq_Inr split: if_splits option.splits)
next
  case (finish_check report now clock t d1)
  then show ?thesis using reconcile_started by simp
qed

text \<open>A worker that is about to complete a delivery has seen the run of that delivery.\<close>

definition worker_ok :: "db \<times> (nat \<Rightarrow> phase) \<Rightarrow> bool" where
  "worker_ok st \<longleftrightarrow> processed (fst st) \<subseteq> started (fst st) \<and> (\<forall>i v. snd st i = Finishing v \<longrightarrow> DvID v \<in> started (fst st))"

lemma ClaimSCMDelivery_started:
  assumes "ClaimSCMDelivery locked token worker now lease d = Inr (x, d')"
  shows "started d' = started d \<and> processed d' \<subseteq> processed d"
proof -
  have "started d' = started d \<and> processed d' \<subseteq> processed d \<union> {}"
    if "exec_deliveries P (claim_row token worker e) d = Inr (n, d')" for P e n
    using started_frame [OF that] processed_exec [OF that, where K = "{}"] by (simp add: claim_row_def)
  then have *: "exec_deliveries P (claim_row token worker e) d = Inr (n, d') \<Longrightarrow> started d' = started d \<and> processed d' \<subseteq> processed d" for P e n
    by simp
  show ?thesis using assms by (auto simp: ClaimSCMDelivery_def rbind_eq_Inr split: if_splits option.splits dest: * [THEN conjunct1] * [THEN conjunct2, THEN subsetD])
qed

lemma RenewSCMDeliveryClaim_started:
  assumes "RenewSCMDeliveryClaim ident token now lease d = Inr (u, d')"
  shows "started d' = started d \<and> processed d' \<subseteq> processed d"
proof -
  obtain n where e: "exec_deliveries (holds_claim ident token now) (\<lambda>v. v\<lparr> DvClaimExpiresAt := Some (now + lease) \<rparr>) d = Inr (n, d')"
    using assms by (auto simp: RenewSCMDeliveryClaim_def one_row_Inr split: if_splits)
  show ?thesis using started_frame [OF e] processed_exec [OF e, where K = "{}"] by simp
qed

lemma FailSCMDelivery_started:
  assumes "FailSCMDelivery ident token retryAt m clock d = Inr (u, d')"
  shows "started d' = started d \<and> processed d' \<subseteq> processed d"
proof -
  obtain n where e: "exec_deliveries (holds_claim ident token clock) (fail_delivery_row retryAt m) d = Inr (n, d')"
    using assms by (auto simp: FailSCMDelivery_def one_row_Inr)
  show ?thesis using started_frame [OF e] processed_exec [OF e, where K = "{}"] by (simp add: fail_delivery_row_def)
qed

lemma CompleteSCMDelivery_started:
  assumes "CompleteSCMDelivery ident token status clock d = Inr (u, d')"
  shows "started d' = started d \<and> processed d' \<subseteq> processed d \<union> {ident}"
proof -
  obtain n where e: "exec_deliveries (holds_claim ident token clock) (complete_delivery_row clock status) d = Inr (n, d')"
    using assms by (auto simp: CompleteSCMDelivery_def one_row_Inr split: if_splits)
  show ?thesis
    using started_frame [OF e] processed_exec [OF e, where K = "{ident}"] by (simp add: complete_delivery_row_def holds_claim_def)
qed

lemma CreateSCMRun_started:
  assumes "CreateSCMRun s ident clock token cr t d = Inr (x, d')"
  shows "started d' = insert (TrDeliveryID t) (started d) \<and> processed d' = processed d"
  using assms
proof (rule CreateSCMRun_cases)
  fix v d1 out
  assume e: "createRun clock cr d = Inr ((), d1)" "insert_trigger (trigger_row ident clock t) d1 = Inr (out, d')"
  have "started d1 = started d \<and> processed d1 = processed d" by (rule frame_started [OF calm_frame [OF calm_create [OF e(1)]]])
  moreover have "d' = d1\<lparr> triggers := triggers d1 @ [trigger_row ident clock t] \<rparr>"
    using e(2) by (auto simp: insert_trigger_def split: if_splits)
  ultimately show ?thesis by (simp add: started_def processed_def)
qed

text \<open>What one call of a worker does to both sets.\<close>

lemma process_step_started:
  assumes "process_step s e cfg ph d = (ph', d')" and "processed d \<subseteq> started d" and "\<And>v. ph = Finishing v \<Longrightarrow> DvID v \<in> started d"
  shows "started d \<subseteq> started d' \<and> processed d' \<subseteq> started d' \<and> (\<forall>v. ph' = Finishing v \<longrightarrow> DvID v \<in> started d')"
proof (cases ph)
  case Idle
  then show ?thesis using assms(1,2)
    by (auto split: if_splits sum.splits option.splits dest!: ClaimSCMDelivery_started) blast+
next
  case (Claimed v)
  have "DvID v \<in> started d" if "GetSCMRunTriggerByDelivery (DvID v) d = Inr t" for t
    using that by (auto simp: GetSCMRunTriggerByDelivery_def started_def split: option.splits dest!: find_SomeD intro: rev_image_eqI)
  then show ?thesis using assms(1,2) Claimed by (auto split: if_splits sum.splits option.splits)
next
  case (Creating v repository p)
  then show ?thesis
    using assms(1,2) by (auto split: if_splits sum.splits option.splits dest!: CreateSCMRun_started simp: worker_trigger_def)
next
  case (Finishing v)
  then show ?thesis
    using assms by (auto simp: served_def split: if_splits sum.splits option.splits dest!: CompleteSCMDelivery_started)
next
  case (Failing v err)
  then show ?thesis
    using assms(1,2) by (auto simp: worker_fail_def served_def split: if_splits sum.splits option.splits dest!: FailSCMDelivery_started)
qed (use assms(1,2) in \<open>auto split: if_splits sum.splits option.splits\<close>)

lemma worker_step_ok:
  assumes step: "worker_step lower_text s cfg st st'" and ok: "worker_ok st"
  shows "worker_ok st'"
  using step
proof (cases rule: worker_step.cases)
  case (move e ws i d ph d')
  have "started d \<subseteq> started d' \<and> processed d' \<subseteq> started d' \<and> (\<forall>v. ph = Finishing v \<longrightarrow> DvID v \<in> started d')"
    by (rule process_step_started [OF move(3)]) (use ok move(1) in \<open>auto simp: worker_ok_def\<close>)
  then show ?thesis using ok move(1,2) by (auto simp: worker_ok_def)
next
  case (lost_answer ws i v repository p e d ph d' m)
  have "started d \<subseteq> started d' \<and> processed d' \<subseteq> started d' \<and> (\<forall>v. ph = Finishing v \<longrightarrow> DvID v \<in> started d')"
    by (rule process_step_started [OF lost_answer(4)]) (use ok lost_answer(1) in \<open>auto simp: worker_ok_def\<close>)
  then show ?thesis using ok lost_answer(1,2) by (auto simp: worker_ok_def)
next
  case (renewal ident token now lease d u d' ws)
  then show ?thesis using ok RenewSCMDeliveryClaim_started by (fastforce simp: worker_ok_def)
next
  case (intake d d' ws)
  then show ?thesis using ok intake_step_started by (fastforce simp: worker_ok_def)
next
  case (others d d' ws)
  then show ?thesis using ok frame_started [OF remote_step_scm_frame] by (auto simp: worker_ok_def)
qed (use ok in \<open>auto simp: worker_ok_def\<close>)

lemma worker_reachable_ok:
  assumes "worker_reachable lower_text s cfg st"
  shows "worker_ok st"
proof -
  have "(worker_step lower_text s cfg)\<^sup>*\<^sup>* (empty_db, \<lambda>_. Idle) st" using assms by (simp add: worker_reachable_def)
  then show ?thesis
  proof (induction rule: rtranclp_induct)
    case (step a b)
    then show ?case by (blast intro: worker_step_ok)
  qed (simp add: worker_ok_def processed_def empty_db_def)
qed

section \<open>Retries\<close>

text \<open>A delivery that is FAILED without a next attempt is never claimed again.\<close>

lemma failed_for_good: "DvStatus v = DeliveryFailed \<Longrightarrow> DvNextAttemptAt v = None \<Longrightarrow> \<not> delivery_due now v"
  by (simp add: delivery_due_def)

lemma worker_fail_row:
  assumes ok: "scm_ok lower_text d" and tok: "DvClaimToken v = Some token" and up: "failing e = None"
    and cur: "claim_current d (DvID v) token (e_clock e)"
  obtains w where "w \<in> set (deliveries (worker_fail e cfg v err d))" "DvID w = DvID v" "DvStatus w = DeliveryFailed"
    "DvNextAttemptAt w = retry_at cfg (e_now e) v err"
proof -
  obtain d' where d': "FailSCMDelivery (DvID v) token (retry_at cfg (e_now e) v err) (delivery_message err) (e_clock e) d = Inr ((), d')"
    using FailSCMDelivery_iff(1) [OF ok] cur by blast
  obtain w where w: "w \<in> set (deliveries d)" "holds_claim (DvID v) token (e_clock e) w" using cur by (auto simp: claim_current_def)
  have "deliveries d' = upd_where (holds_claim (DvID v) token (e_clock e)) (fail_delivery_row (retry_at cfg (e_now e) v err) (delivery_message err)) (deliveries d)"
    using d' by (auto simp: FailSCMDelivery_def one_row_Inr exec_deliveries_Inr)
  then have "fail_delivery_row (retry_at cfg (e_now e) v err) (delivery_message err) w \<in> set (deliveries d')"
    using w by (force simp: set_upd_where)
  moreover have "worker_fail e cfg v err d = d'" using d' tok up by (simp add: worker_fail_def served_def)
  ultimately show thesis using that w(2) by (auto simp: fail_delivery_row_def holds_claim_def)
qed

lemma retry_at_bounds:
  assumes "0 < BaseBackoff cfg" and "BaseBackoff cfg \<le> MaxBackoff cfg" and "retry_at cfg now v err = Some t"
  shows "t = now + min (BaseBackoff cfg * 2 ^ nat (DvAttemptCount v - 1)) (MaxBackoff cfg)"
    and "Failure err = FailureTransient" "DvAttemptCount v < MaxAttempts cfg"
  using assms by (auto simp: retry_at_def backoff_loop_eq split: if_splits)

end
