(* ===== verification/Scm_Sample.thy ===== *)
theory Scm_Sample
  imports Worker_Safety Sample
begin

text \<open>
  A concrete history of the source-control parts, for the witnesses: a repository is registered, a pull
  request arrives, a worker claims the delivery, prepares its source, starts the run and completes the
  delivery; a runner runs the first job of the run; then a new commit of the pull request arrives.
\<close>

definition scm_repository :: Repository where
  "scm_repository = \<lparr> RepoID = ''R'', RepoProvider = ''github'', FullName = ''o/n'', PipelinePath = ''p'', Enabled = True,
     RepoCreatedAt = 0, RepoUpdatedAt = 0 \<rparr>"

definition scm_delivery :: "string \<Rightarrow> string \<Rightarrow> time \<Rightarrow> Delivery" where
  "scm_delivery ident commit received = \<lparr> DvID = ident, DvProvider = ''github'', DvDeliveryID = ident, DvRepositoryID = ''R'',
     DvEventType = ''pull_request'', DvAction = ''synchronize'', DvInstallationID = ''1'', DvCommitSHA = commit, DvRef = ''refs/pull/7/head'',
     DvPayloadSHA256 = sample_digest, DvPullRequestNumber = Some 7, DvHeadRef = ''h'', DvBaseRef = ''b'', DvStatus = DeliveryPending,
     DvAttemptCount = 0, DvNextAttemptAt = None, DvLastError = None, DvClaimToken = None, DvClaimedBy = None, DvClaimExpiresAt = None,
     DvReceivedAt = received, DvProcessedAt = None \<rparr>"

definition scm_graph :: Graph where
  "scm_graph = \<lparr> Nodes = [(''a'', \<lparr> NodeName = ''a'', NodeJob = sample_plain [], NodeNeeds = [], Dependents = [''b''] \<rparr>),
     (''b'', \<lparr> NodeName = ''b'', NodeJob = sample_plain [''a''], NodeNeeds = [''a''], Dependents = [] \<rparr>)], Order = [''a'', ''b''] \<rparr>"

definition scm_prepared :: Prepared where
  "scm_prepared = \<lparr> PpProvider = ''github'', PpRepository = ''o/n'', PpCommitSHA = ''c1'', PpRef = ''refs/pull/7/head'', PpPipelinePath = ''p'',
     PpPullRequestNumber = Some 7, PpYAML = ''y'', PpSnapshot = sample_snapshot, PpPipeline = scm_graph \<rparr>"

definition scm_config :: WorkerConfig where
  "scm_config = \<lparr> WorkerID = ''W'', Concurrency = 2, WLease = 100, Poll = 1, BaseBackoff = 1, MaxBackoff = 60, MaxAttempts = 5 \<rparr>"

definition scm_env :: "time \<Rightarrow> call_env" where
  "scm_env now = \<lparr> e_now = now, e_clock = now, e_token = ''t1'', e_run = ''r'', e_trigger = ''g'', e_locked = (\<lambda>_. False),
     e_prepare = (\<lambda>_ _. Inr scm_prepared), e_sha256 = (\<lambda>_. sample_digest), failing = None \<rparr>"

definition scm_run :: CreateRun where
  "scm_run = \<lparr> CrID = ''r'', CrFile = ''p'', CrSHA256 = sample_digest, CrWorkspace = ''o/n'', CrYAML = ''y'', CrMaxParallel = 1,
     CrJobs = [(''a'', None), (''b'', None)], CrDependencies = [(''b'', ''a'')], CrSnapshot = Some sample_snapshot \<rparr>"

definition scm_claimed :: Delivery where
  "scm_claimed = claim_row ''t1'' ''W'' 102 (scm_delivery ''d1'' ''c1'' 1)"

definition scm_db0 :: db where
  "scm_db0 = empty_db\<lparr> repositories := [scm_repository] \<rparr>"

definition scm_db1 :: db where
  "scm_db1 = scm_db0\<lparr> deliveries := [scm_delivery ''d1'' ''c1'' 1] \<rparr>"

definition scm_db2 :: db where
  "scm_db2 = scm_db0\<lparr> deliveries := [scm_claimed] \<rparr>"

definition scm_db3 :: db where
  "scm_db3 = scm_db2\<lparr> snapshots := [sample_snapshot], runs := [new_run_row 3 scm_run sample_digest],
     jobs := [new_job_row ''r'' (''a'', None), new_job_row ''r'' (''b'', None)],
     deps := [\<lparr> drun = ''r'', djob = ''b'', dupstream = ''a'' \<rparr>],
     triggers := [trigger_row ''g'' 3 (worker_trigger ''r'' scm_claimed scm_repository scm_prepared)] \<rparr>"

definition scm_db4 :: db where
  "scm_db4 = scm_db3\<lparr> deliveries := [complete_delivery_row 4 DeliveryProcessed scm_claimed] \<rparr>"

definition scm_db5 :: db where
  "scm_db5 = scm_db4\<lparr> runners := [sample_runner] \<rparr>"

definition scm_db6 :: db where
  "scm_db6 = scm_db5\<lparr> runs := [(new_run_row 3 scm_run sample_digest)\<lparr> rstatus := RunRunning, rstarted_at := Some 5 \<rparr>],
     jobs := [lease_row 5 (5 + jobLeaseTTL) ''l1'' ''w1'' (new_job_row ''r'' (''a'', None)), new_job_row ''r'' (''b'', None)] \<rparr>"

definition scm_db7 :: db where
  "scm_db7 = scm_db6\<lparr> jobs := [complete_row 6 JobPassed None (lease_row 5 (5 + jobLeaseTTL) ''l1'' ''w1'' (new_job_row ''r'' (''a'', None))),
     new_job_row ''r'' (''b'', None)] \<rparr>"

definition scm_db8 :: db where
  "scm_db8 = scm_db7\<lparr> deliveries := deliveries scm_db7 @ [scm_delivery ''d2'' ''c2'' 7],
     runs := map (supersede_row 7) (runs scm_db7) \<rparr>"

lemmas scm_evals = scm_db0_def scm_db1_def scm_db2_def scm_db3_def scm_db4_def scm_db5_def scm_db6_def scm_db7_def scm_repository_def
  scm_delivery_def scm_claimed_def scm_run_def scm_prepared_def scm_config_def scm_env_def claim_row_def worker_trigger_def trigger_row_def
  sample_evals

lemma scm_register: "CreateSCMRepository (\<lambda>x. x) ''R'' 0 scm_repository empty_db = Inr (scm_repository, scm_db0)"
  by (simp add: CreateSCMRepository_def NormalizeRepository_def ValidatePipelinePath_def repository_forbidden_def bad_repository_part_def
      contains_any_def to_lower_def ascii_def scm_evals text_evals list_all_iff)

lemma sample_digest_length [simp]: "length sample_digest = 64"
  by (simp add: sample_digest_def)

lemma scm_deliver: "CreateSCMDelivery ''d1'' 1 (scm_delivery ''d1'' ''c1'' 1) scm_db0 = Inr (scm_delivery ''d1'' ''c1'' 1, scm_db1)"
  by (simp add: CreateSCMDelivery_def GetSCMDeliveryByProviderDeliveryID_def supersedes_def exec_deliveries_def superseded_delivery_def scm_evals)

lemma scm_claim: "process_step sample_store (scm_env 2) scm_config Idle scm_db1 = (Claimed scm_claimed, scm_db2)"
  by (simp add: ClaimSCMDelivery_def first_by_def delivery_due_def exec_deliveries_def scm_evals)

lemma scm_look: "process_step sample_store (scm_env 2) scm_config (Claimed scm_claimed) scm_db2 = (Looking scm_claimed, scm_db2)"
  by (simp add: GetSCMRunTriggerByDelivery_def scm_evals)

lemma scm_prepare: "process_step sample_store (scm_env 2) scm_config (Looking scm_claimed) scm_db2 = (Preparing scm_claimed scm_repository, scm_db2)"
  "process_step sample_store (scm_env 2) scm_config (Preparing scm_claimed scm_repository) scm_db2 = (Creating scm_claimed scm_repository scm_prepared, scm_db2)"
  by (simp_all add: GetSCMRepository_def scm_evals)

lemma scm_createRun: "worker_createRun (\<lambda>_. sample_digest) ''r'' scm_prepared = Some scm_run"
  by (simp add: worker_createRun_def scm_graph_def sample_plain_def scm_evals)

lemma scm_create: "\<exists>out. CreateSCMRun sample_store ''g'' 3 ''t1'' scm_run (worker_trigger ''r'' scm_claimed scm_repository scm_prepared) scm_db2 = Inr (out, scm_db3)"
  using sample_digest_hex
  by (simp add: CreateSCMRun_def holds_claim_def createRun_def insert_snapshot_def snapshot_check_def same_snapshot_def insert_run_def
      job_key_def insert_trigger_def GetRun_def scm_evals)

lemma scm_start: "process_step sample_store (scm_env 3) scm_config (Creating scm_claimed scm_repository scm_prepared) scm_db2 = (Finishing scm_claimed, scm_db3)"
proof -
  have "e_sha256 (scm_env 3) = (\<lambda>_. sample_digest)" "e_run (scm_env 3) = ''r''" "e_trigger (scm_env 3) = ''g''" "e_clock (scm_env 3) = 3"
      "failing (scm_env 3) = None" "DvClaimToken scm_claimed = Some ''t1''" "CrID scm_run = ''r''"
    by (simp_all add: scm_env_def scm_claimed_def claim_row_def scm_run_def)
  then show ?thesis using scm_create by (auto simp: scm_createRun)
qed

lemma scm_finish: "process_step sample_store (scm_env 4) scm_config (Finishing scm_claimed) scm_db3 = (Idle, scm_db4)"
  by (simp add: served_def CompleteSCMDelivery_def holds_claim_def exec_deliveries_def complete_delivery_row_def scm_evals)

lemma scm_runner: "RegisterRunner 0 sample_runner scm_db4 = Inr ((), scm_db5)"
  by (simp add: RegisterRunner_def scm_evals)

lemma scm_lease: "\<exists>res. LeaseJob sample_store (\<lambda>_. False) 5 5 ''l1'' ''w1'' scm_db5 = Inr (Some res, scm_db6)"
  by (simp add: LeaseJob_def active_jobs_def lease_candidates_def leasable_def first_by_def lease_key_def upstream_with_def running_in_def
      sample_parse sample_two_def scm_evals)

lemma scm_complete: "CompleteJob sample_store 6 (sample_owner ''a'' ''l1'') JobPassed None scm_db6 = Inr ((), scm_db7)"
  by (simp add: CompleteJob_def sample_owner_def owns_def jobLeaseTTL_def artifactSetCommittedTx_def sample_parse
      sample_two_def sample_plain_def finalizeRun_def scm_evals)

lemma scm_supersede: "CreateSCMDelivery ''d2'' 7 (scm_delivery ''d2'' ''c2'' 7) scm_db7 = Inr (scm_delivery ''d2'' ''c2'' 7, scm_db8)"
  by (simp add: CreateSCMDelivery_def GetSCMDeliveryByProviderDeliveryID_def supersedes_def exec_deliveries_def superseded_delivery_def
      complete_delivery_row_def superseded_run_def supersede_row_def scm_db8_def scm_evals)

end
