(* ===== verification/Scm_Properties.thy ===== *)
theory Scm_Properties
  imports Scm_Sample
begin

text \<open>
  The properties of the source-control parts: the tables, the claims of deliveries, superseding, and the
  workers, with witnesses on the history of \<open>Scm_Sample\<close>.
\<close>

section \<open>The sample history is one of the system\<close>

abbreviation scm_reach :: "db \<Rightarrow> bool" where
  "scm_reach \<equiv> system_reachable (\<lambda>x. x) sample_store"

abbreviation scm_work :: "db \<Rightarrow> phase \<Rightarrow> bool" where
  "scm_work d ph \<equiv> worker_reachable (\<lambda>x. x) sample_store scm_config (d, (\<lambda>_. Idle)(0 := ph))"

lemma scm_work_move:
  assumes "scm_work d ph" and "process_step sample_store e scm_config ph d = (ph', d')"
  shows "scm_work d' ph'"
  using assms(1) worker_step.move [of sample_store e scm_config "(\<lambda>_. Idle)(0 := ph)" 0 d ph' d' "\<lambda>x. x"] assms(2)
  unfolding worker_reachable_def by (auto intro: rtranclp.rtrancl_into_rtrancl)

lemma scm_work_intake: "scm_work d ph \<Longrightarrow> intake_step (\<lambda>x. x) d d' \<Longrightarrow> scm_work d' ph"
  unfolding worker_reachable_def by (blast intro: rtranclp.rtrancl_into_rtrancl worker_step.intake)

lemma scm_work_others: "scm_work d ph \<Longrightarrow> remote_step sample_store d d' \<Longrightarrow> scm_work d' ph"
  unfolding worker_reachable_def by (blast intro: rtranclp.rtrancl_into_rtrancl worker_step.others)

lemma scm_work1: "scm_work scm_db1 Idle"
proof -
  have "scm_work empty_db Idle" by (simp add: worker_reachable_def fun_upd_idem)
  then have "scm_work scm_db0 Idle" using intake_step.add_repository [OF scm_register] by (rule scm_work_intake)
  then show ?thesis using intake_step.webhook [OF _ scm_deliver] by (rule scm_work_intake) (simp add: scm_delivery_def)
qed

lemma scm_work2: "scm_work scm_db2 (Claimed scm_claimed)"
  by (rule scm_work_move [OF scm_work1 scm_claim])

lemma scm_work2_looking: "scm_work scm_db2 (Looking scm_claimed)"
  by (rule scm_work_move [OF scm_work2 scm_look])

lemma scm_work4: "scm_work scm_db4 Idle"
  by (rule scm_work_move [OF scm_work_move [OF scm_work_move [OF scm_work_move [OF scm_work2_looking scm_prepare(1)] scm_prepare(2)] scm_start] scm_finish])

lemma scm_work7: "scm_work scm_db7 Idle"
proof -
  have "scm_work scm_db5 Idle" by (rule scm_work_others [OF scm_work4 remote_step.register [OF scm_runner]])
  then have "scm_work scm_db6 Idle" using scm_lease by (blast intro: scm_work_others remote_step.lease)
  then show ?thesis by (rule scm_work_others [OF _ remote_step.complete [OF scm_complete]])
qed

lemmas scm_reaches = worker_reachable_system [OF scm_work1] worker_reachable_system [OF scm_work2] worker_reachable_system [OF scm_work7]

section \<open>Properties\<close>

text \<open>C22. In every reachable state of the whole control plane: deliveries are unique by identifier and by the
  identifier GitHub gave them; every trigger names an existing delivery, repository and run; a delivery has at most
  one trigger, and so does a run: one accepted delivery starts at most one run; and a delivery carries a claim
  exactly while it is being processed.\<close>

theorem scm_invariant:
  assumes "system_reachable lower_text s d"
  shows "distinct (map DvID (deliveries d)) \<and> distinct (map (\<lambda>v. (DvProvider v, DvDeliveryID v)) (deliveries d)) \<and>
    distinct (map TrDeliveryID (triggers d)) \<and> distinct (map TrRunID (triggers d)) \<and>
    (\<forall>t \<in> set (triggers d). TrDeliveryID t \<in> DvID ` set (deliveries d) \<and> TrRepositoryID t \<in> RepoID ` set (repositories d) \<and>
      TrRunID t \<in> rid ` set (runs d)) \<and>
    (\<forall>v \<in> set (deliveries d). (DvStatus v = DeliveryProcessing) = (DvClaimToken v \<noteq> None) \<and>
      (DvStatus v = DeliveryProcessing) = (DvClaimExpiresAt v \<noteq> None) \<and> 0 \<le> DvAttemptCount v)"
proof -
  have ok: "scm_ok lower_text d" using assms by (rule system_reachable_scm_ok)
  have "(DvStatus v = DeliveryProcessing) = (DvClaimToken v \<noteq> None) \<and>
      (DvStatus v = DeliveryProcessing) = (DvClaimExpiresAt v \<noteq> None) \<and> 0 \<le> DvAttemptCount v" if "v \<in> set (deliveries d)" for v
  proof -
    have "delivery_ok v" using ok that by (simp add: scm_ok_def)
    then show ?thesis by (auto simp: delivery_ok_def split: if_splits)
  qed
  then show ?thesis using ok unfolding scm_ok_def by blast
qed

theorem scm_invariant_witness:
  "distinct (map TrDeliveryID (triggers scm_db7)) \<and> ''r'' \<in> rid ` set (runs scm_db7)"
proof -
  have "trigger_row ''g'' 3 (worker_trigger ''r'' scm_claimed scm_repository scm_prepared) \<in> set (triggers scm_db7)"
    by (simp add: scm_db3_def scm_db4_def scm_db5_def scm_db6_def scm_db7_def)
  moreover have "TrRunID (trigger_row ''g'' 3 (worker_trigger ''r'' scm_claimed scm_repository scm_prepared)) = ''r''"
    by (simp add: worker_trigger_def)
  ultimately show ?thesis using scm_invariant [OF scm_reaches(3)] by force
qed

text \<open>C20. A delivery that is PROCESSED has started a run: in every reachable state of the workers among the other
  parts, whatever crashes, lost answers and expired claims there were, it has exactly one trigger, and the run
  of that trigger exists.\<close>

theorem processed_has_run:
  assumes "worker_reachable lower_text s cfg (d, ws)" and "v \<in> set (deliveries d)" and "DvStatus v = DeliveryProcessed"
  shows "\<exists>t \<in> set (triggers d). TrDeliveryID t = DvID v \<and> (\<forall>x \<in> set (triggers d). TrDeliveryID x = DvID v \<longrightarrow> x = t) \<and>
    (\<exists>r \<in> set (runs d). rid r = TrRunID t)"
proof -
  have ok: "scm_ok lower_text d" using worker_reachable_system [OF assms(1)] by (rule system_reachable_scm_ok)
  have "DvID v \<in> started d" using worker_reachable_ok [OF assms(1)] assms(2,3) by (auto simp: worker_ok_def processed_def)
  then obtain t where t: "t \<in> set (triggers d)" "TrDeliveryID t = DvID v" by (auto simp: started_def)
  have dist: "distinct (map TrDeliveryID (triggers d))" using ok by (simp add: scm_ok_def del: distinct_map)
  have "TrRunID t \<in> rid ` set (runs d)" using ok t(1) by (simp add: scm_ok_def)
  then show ?thesis
  proof (intro bexI [OF _ t(1)] conjI ballI impI)
    show "x = t" if "x \<in> set (triggers d)" "TrDeliveryID x = DvID v" for x
      using key_unique [OF dist that(1) t(1)] that(2) t(2) by simp
  qed (use t in auto)
qed

theorem processed_has_run_witness:
  "\<exists>t \<in> set (triggers scm_db4). TrDeliveryID t = ''d1'' \<and> (\<exists>r \<in> set (runs scm_db4). rid r = TrRunID t)"
proof -
  have "complete_delivery_row 4 DeliveryProcessed scm_claimed \<in> set (deliveries scm_db4)" by (simp add: scm_db4_def)
  from processed_has_run [OF scm_work4 this]
  show ?thesis by (auto simp: complete_delivery_row_def scm_claimed_def claim_row_def scm_delivery_def)
qed

lemma claimed_row:
  assumes ok: "scm_ok lower_text d" and c: "ClaimSCMDelivery locked token worker now lease d = Inr (Some x, d')"
  shows "scm_ok lower_text d'" and "x \<in> set (deliveries d')" and "0 < lease"
    and "DvStatus x = DeliveryProcessing" "DvClaimToken x = Some token" "DvClaimExpiresAt x = Some (now + lease)"
    and "y \<in> set (deliveries d') \<Longrightarrow> DvID y = DvID x \<Longrightarrow> y = x"
proof -
  obtain v where v: "v \<in> set (deliveries d)" "x = claim_row token worker (now + lease) v" "0 < lease"
      "d' = d\<lparr> deliveries := upd_where (\<lambda>y. y = v) (claim_row token worker (now + lease)) (deliveries d) \<rparr>"
    using ClaimSCMDelivery_cases [OF ok c] by metis
  show ok': "scm_ok lower_text d'" using scm_step_ok [OF ok scm_step.claim_delivery [OF c]] .
  show mem: "x \<in> set (deliveries d')" using v by (force simp: set_upd_where)
  show "0 < lease" "DvStatus x = DeliveryProcessing" "DvClaimToken x = Some token" "DvClaimExpiresAt x = Some (now + lease)"
    using v by (simp_all add: claim_row_def)
  have "distinct (map DvID (deliveries d'))" using ok' by (simp add: scm_ok_def)
  then show "y = x" if "y \<in> set (deliveries d')" "DvID y = DvID x" using that mem key_unique by metis
qed


lemma scm_claim_call: "ClaimSCMDelivery (\<lambda>_. False) ''t1'' ''W'' 2 100 scm_db1 = Inr (Some scm_claimed, scm_db2)"
  by (simp add: ClaimSCMDelivery_def first_by_def delivery_due_def exec_deliveries_def scm_evals)


text \<open>A newer accepted revision of a pull request supersedes older work: every pending, claimed or failed delivery
  of the same repository and pull request with another commit becomes IGNORED and the claim its worker holds is
  gone, older queued runs are CANCELED and running ones get a cancellation request; other runs are untouched.\<close>

theorem supersede:
  assumes "system_reachable lower_text s d" and "DvStatus v \<in> {DeliveryPending, DeliveryIgnored}"
    and "CreateSCMDelivery ident clock v d = Inr (x, d')" and "x \<notin> set (deliveries d)" and "supersedes x"
  shows "(\<forall>w \<in> set (deliveries d). superseded_delivery x w \<longrightarrow>
      (\<exists>w' \<in> set (deliveries d'). DvID w' = DvID w \<and> DvStatus w' = DeliveryIgnored) \<and>
      (\<forall>token t. \<not> claim_current d' (DvID w) token t)) \<and>
    (\<forall>r \<in> set (runs d). \<exists>r' \<in> set (runs d'). rid r' = rid r \<and>
      (if superseded_run x d r then
         (if rstatus r = RunQueued then rstatus r' = RunCanceled \<and> rfinished_at r' = Some clock
          else rstatus r' = RunRunning \<and> rcancel_at r' = Some clock)
       else r' = r))"
proof (intro conjI ballI impI allI)
  have ok: "scm_ok lower_text d" using assms(1) by (rule system_reachable_scm_ok)
  note eff = supersede_effect [OF ok assms(3-5)]
  fix w assume w: "w \<in> set (deliveries d)" "superseded_delivery x w"
  show "\<exists>w' \<in> set (deliveries d'). DvID w' = DvID w \<and> DvStatus w' = DeliveryIgnored" by (rule bexI [OF _ eff(3) [OF w]]) simp
  show "\<not> claim_current d' (DvID w) token t" for token t by (rule eff(4) [OF w assms(2)])
next
  have ok: "scm_ok lower_text d" using assms(1) by (rule system_reachable_scm_ok)
  note eff = supersede_effect [OF ok assms(3-5)]
  fix r assume r: "r \<in> set (runs d)"
  let ?r' = "if superseded_run x d r then supersede_row clock r else r"
  have "?r' \<in> set (runs d')" using r by (auto simp: eff(5) set_upd_where)
  then show "\<exists>r' \<in> set (runs d'). rid r' = rid r \<and> (if superseded_run x d r then
      (if rstatus r = RunQueued then rstatus r' = RunCanceled \<and> rfinished_at r' = Some clock
       else rstatus r' = RunRunning \<and> rcancel_at r' = Some clock) else r' = r)"
    by (rule bexI [rotated]) (auto simp: supersede_row_def superseded_run_def)
qed

lemma scm_superseding:
  "scm_delivery ''d2'' ''c2'' 7 \<notin> set (deliveries scm_db7)" "supersedes (scm_delivery ''d2'' ''c2'' 7)"
  "DvStatus (scm_delivery ''d2'' ''c2'' 7) \<in> {DeliveryPending, DeliveryIgnored}"
  by (simp_all add: supersedes_def complete_delivery_row_def scm_evals)

theorem supersede_witness: "\<exists>r \<in> set (runs scm_db8). rid r = ''r'' \<and> rstatus r = RunRunning \<and> rcancel_at r = Some 7"
proof -
  have "\<exists>r. runs scm_db7 = [r] \<and> rid r = ''r'' \<and> rstatus r = RunRunning \<and> superseded_run (scm_delivery ''d2'' ''c2'' 7) scm_db7 r"
    by (simp add: superseded_run_def scm_evals)
  then show ?thesis using supersede [OF scm_reaches(3) scm_superseding(3) scm_supersede scm_superseding(1,2)] by auto
qed

text \<open>C28. Superseding does not take the cancellation path of the scheduler: the pending jobs of a superseded run stay
  PENDING, though its run is then CANCELED or has its cancellation requested and none of them can be leased any
  more. The run keeps unfinished jobs, so one without a running job is never closed.\<close>

theorem superseding_keeps_jobs:
  assumes "system_reachable lower_text s d" and "CreateSCMDelivery ident clock v d = Inr (x, d')"
    and "x \<notin> set (deliveries d)" and "supersedes x" and "r \<in> set (runs d)" and "superseded_run x d r"
    and "j \<in> set (jobs d)" and "jrun j = rid r" and "jstatus j = JobPending"
  shows "\<exists>r' \<in> set (runs d'). rid r' = rid r \<and> (rstatus r' = RunCanceled \<or> rcancel_at r' \<noteq> None) \<and>
    j \<in> set (jobs d') \<and> jstatus j = JobPending \<and> unfinished d' (rid r') \<and>
    (\<forall>docker j' sn. jrun j' = rid r \<longrightarrow> \<not> leasable docker d' (r', j', sn))"
proof -
  have ok: "scm_ok lower_text d" using assms(1) by (rule system_reachable_scm_ok)
  note eff = supersede_effect [OF ok assms(2-4)]
  have "supersede_row clock r \<in> set (runs d')" using assms(5,6) by (force simp: eff(5) set_upd_where)
  then show ?thesis
  proof (intro bexI [of _ "supersede_row clock r"] conjI allI impI)
    show "unfinished d' (rid (supersede_row clock r))" using assms(7-9) by (auto simp: unfinished_def eff(1) supersede_row_def)
  qed (use assms(6-9) in \<open>auto simp: eff(1) supersede_row_def superseded_run_def leasable_def\<close>)
qed

theorem superseding_keeps_jobs_witness:
  "\<exists>r \<in> set (runs scm_db8). rcancel_at r \<noteq> None \<and> unfinished scm_db8 (rid r) \<and> (\<forall>j \<in> set (jobs scm_db8). jstatus j \<noteq> JobRunning)"
proof -
  obtain r where r: "runs scm_db7 = [r]" "rid r = ''r''" "superseded_run (scm_delivery ''d2'' ''c2'' 7) scm_db7 r"
    by (simp add: superseded_run_def scm_evals)
  have "new_job_row ''r'' (''b'', None) \<in> set (jobs scm_db7)" by (simp add: scm_db7_def)
  from superseding_keeps_jobs [OF scm_reaches(3) scm_supersede scm_superseding(1,2) _ r(3) this] r
  obtain r' where "r' \<in> set (runs scm_db8)" "unfinished scm_db8 (rid r')" by (auto simp: new_job_row_def)
  moreover have "rcancel_at r' \<noteq> None" using calculation(1) by (simp add: scm_db8_def supersede_row_def scm_evals)
  moreover have "\<forall>j \<in> set (jobs scm_db8). jstatus j \<noteq> JobRunning" by (simp add: scm_db8_def scm_evals)
  ultimately show ?thesis by blast
qed

text \<open>Failures are retried with bounded exponential back-off. When a worker gives up on a delivery it has claimed,
  the delivery becomes FAILED; it gets a next attempt exactly when the failure is transient and attempts are left,
  after the base delay doubled per attempt but never beyond the maximum, and otherwise it is never due again.\<close>

theorem delivery_retry:
  assumes "system_reachable lower_text s d" and "DvClaimToken v = Some token" and "failing e = None"
    and "claim_current d (DvID v) token (e_clock e)" and "0 < BaseBackoff cfg" and "BaseBackoff cfg \<le> MaxBackoff cfg"
    and "process_step s e cfg (Failing v err) d = (ph, d')"
  shows "ph = Idle \<and> (\<exists>w \<in> set (deliveries d'). DvID w = DvID v \<and> DvStatus w = DeliveryFailed \<and>
    (if Failure err = FailureTransient \<and> DvAttemptCount v < MaxAttempts cfg
     then (\<forall>now. delivery_due now w \<longleftrightarrow> e_now e + min (BaseBackoff cfg * 2 ^ nat (DvAttemptCount v - 1)) (MaxBackoff cfg) \<le> now)
     else (\<forall>now. \<not> delivery_due now w)))"
proof -
  have ok: "scm_ok lower_text d" using assms(1) by (rule system_reachable_scm_ok)
  have step: "ph = Idle" "d' = worker_fail e cfg v err d" using assms(7) by simp_all
  obtain w where w: "w \<in> set (deliveries d')" "DvID w = DvID v" "DvStatus w = DeliveryFailed"
      "DvNextAttemptAt w = retry_at cfg (e_now e) v err"
    using worker_fail_row [OF ok assms(2-4), of cfg err] step(2) by metis
  have "(if Failure err = FailureTransient \<and> DvAttemptCount v < MaxAttempts cfg
     then (\<forall>now. delivery_due now w \<longleftrightarrow> e_now e + min (BaseBackoff cfg * 2 ^ nat (DvAttemptCount v - 1)) (MaxBackoff cfg) \<le> now)
     else (\<forall>now. \<not> delivery_due now w))"
    using w(3,4) assms(5,6) by (simp add: delivery_due_def retry_at_def backoff_loop_eq)
  then show ?thesis using step(1) w by blast
qed

lemma scm_claim_current: "claim_current scm_db2 ''d1'' ''t1'' 5"
  by (simp add: claim_current_def holds_claim_def scm_evals)

theorem delivery_retry_witness:
  "\<exists>w \<in> set (deliveries (snd (process_step sample_store (scm_env 5) scm_config (Failing scm_claimed (Transient ''m'')) scm_db2))).
     delivery_due 6 w \<and> \<not> delivery_due 5 w"
proof -
  have facts: "DvClaimToken scm_claimed = Some ''t1''" "failing (scm_env 5) = None" "DvID scm_claimed = ''d1''" "e_clock (scm_env 5) = 5"
      "0 < BaseBackoff scm_config" "BaseBackoff scm_config \<le> MaxBackoff scm_config" "DvAttemptCount scm_claimed = 1" "MaxAttempts scm_config = 5"
      "e_now (scm_env 5) = 5" "BaseBackoff scm_config = 1" "MaxBackoff scm_config = 60"
    by (simp_all add: scm_env_def scm_claimed_def claim_row_def scm_delivery_def scm_config_def)
  have cur: "claim_current scm_db2 (DvID scm_claimed) ''t1'' (e_clock (scm_env 5))" using scm_claim_current facts by simp
  show ?thesis
    using delivery_retry [OF scm_reaches(2) facts(1,2) cur facts(5,6) prod.collapse [symmetric], of "Transient ''m''"] facts by auto
qed

text \<open>C29. A database error, or a shutdown, while the worker looks up the repository of a delivery counts as a
  permanent failure: the delivery becomes FAILED and is never tried again, however many attempts are left.\<close>

theorem lookup_failure_is_final:
  assumes "system_reachable lower_text s d" and "DvClaimToken v = Some token" and "claim_current d (DvID v) token (e_clock e')"
    and "failing e = Some m" and "failing e' = None"
    and "process_step s e cfg (Looking v) d = (ph, d1)" and "process_step s e' cfg ph d1 = (ph', d')"
  shows "\<exists>w \<in> set (deliveries d'). DvID w = DvID v \<and> DvStatus w = DeliveryFailed \<and> (\<forall>now. \<not> delivery_due now w)"
proof -
  have ok: "scm_ok lower_text d" using assms(1) by (rule system_reachable_scm_ok)
  have "ph = Failing v (Permanent m)" "d1 = d" using assms(4,6) by simp_all
  then have d': "d' = worker_fail e' cfg v (Permanent m) d" using assms(7) by simp
  obtain w where "w \<in> set (deliveries d')" "DvID w = DvID v" "DvStatus w = DeliveryFailed" "DvNextAttemptAt w = retry_at cfg (e_now e') v (Permanent m)"
    using worker_fail_row [OF ok assms(2,5,3), of cfg "Permanent m"] d' by metis
  then show ?thesis using failed_for_good by (intro bexI [of _ w]) (auto simp: retry_at_def)
qed

theorem lookup_failure_is_final_witness:
  "\<exists>w \<in> set (deliveries (worker_fail (scm_env 5) scm_config scm_claimed (Permanent ''shutdown'') scm_db2)). \<forall>now. \<not> delivery_due now w"
proof -
  have facts: "DvClaimToken scm_claimed = Some ''t1''" "failing (scm_env 5) = None" "DvID scm_claimed = ''d1''" "e_clock (scm_env 5) = 5"
    by (simp_all add: scm_env_def scm_claimed_def claim_row_def scm_delivery_def)
  have cur: "claim_current scm_db2 (DvID scm_claimed) ''t1'' (e_clock (scm_env 5))" using scm_claim_current facts by simp
  have down: "failing (scm_env 5\<lparr> failing := Some ''shutdown'' \<rparr>) = Some ''shutdown''" by simp
  have "process_step sample_store (scm_env 5\<lparr> failing := Some ''shutdown'' \<rparr>) scm_config (Looking scm_claimed) scm_db2 =
      (Failing scm_claimed (Permanent ''shutdown''), scm_db2)" by simp
  from lookup_failure_is_final [OF scm_reaches(2) facts(1) cur down facts(2) this process_step.simps(7)]
  show ?thesis by blast
qed

text \<open>The run a delivery starts is the one of the requested commit: a source is prepared only when the checkout is
  at the commit of the delivery and its pipeline is valid and acyclic; then building the run never dereferences a
  missing node, and the run has one job per job of the pipeline, each after the jobs it needs, with exactly the
  dependencies of the pipeline. The names of the decoded jobs are distinct, as keys of a Go map.\<close>

theorem prepared_run:
  assumes "\<And>y cfg. parse_stored s y = Inr cfg \<Longrightarrow> distinct (map fst (Jobs cfg))"
    and "PrepareSource lower_text s parse_id has_tokens token_of env base repository v = Inr p"
  shows "PpCommitSHA p = map lower_char (DvCommitSHA v) \<and>
    (\<exists>head. git_output env [''rev-parse'', ''HEAD''] = Inr head \<and> map lower_char (trim_space head) = map lower_char (DvCommitSHA v)) \<and>
    (\<exists>cfg cr. parse_stored s (PpYAML p) = Inr cfg \<and> acyclic (need_rel cfg) \<and> worker_createRun sha ident p = Some cr \<and>
      distinct (map fst (CrJobs cr)) \<and> set (map fst (CrJobs cr)) = fst ` set (Jobs cfg) \<and>
      set (CrDependencies cr) = {(n, m). m \<in> cfg_needs cfg n} \<and>
      (\<forall>i < length (CrJobs cr). cfg_needs cfg (fst (CrJobs cr ! i)) \<subseteq> set (map fst (take i (CrJobs cr)))))"
proof -
  obtain head cfg g where h: "git_output env [''rev-parse'', ''HEAD''] = Inr head" "map lower_char (trim_space head) = map lower_char (DvCommitSHA v)"
      "parse_stored s (PpYAML p) = Inr cfg" "Compile cfg = Inr g" "PpPipeline p = g" "PpCommitSHA p = map lower_char (DvCommitSHA v)"
    using assms(2) by (auto simp: PrepareSource_def Prepare_def rbind_eq_Inr Let_def split: if_splits sum.splits option.splits)
  have dist: "distinct (map fst (Jobs cfg))" using assms(1) h(3) .
  have "Validate cfg = Inr ()" using h(3) by (auto simp: parse_stored_def ParseBytes_def split: sum.splits extra_document.splits)
  then have c: "compilable cfg" using dist by (intro validated_compilable)
  note g = Compile_Inr [OF c h(4)]
  have node: "map_of (Nodes g) n = map_option (\<lambda>job. \<lparr> NodeName = n, NodeJob = job, NodeNeeds = sort (Needs job),
      Dependents = sort (map fst (filter (\<lambda>(_, j). n \<in> set (Needs j)) (Jobs cfg))) \<rparr>) (map_of (Jobs cfg) n)" for n
    by (simp add: g(1) map_of_graph_nodes)
  have known: "map_of (Jobs cfg) n \<noteq> None" if "n \<in> set (Order g)" for n
    using that g(3) by (simp add: map_of_eq_None_iff)
  have total: "list_all (\<lambda>n. map_of (Nodes g) n \<noteq> None) (Order g)" using known by (auto simp: list_all_iff node)
  then obtain cr where cr: "worker_createRun sha ident p = Some cr" by (simp add: worker_createRun_def h(5))
  then have jobs: "map fst (CrJobs cr) = Order g"
    and deps: "CrDependencies cr = concat (map (\<lambda>n. map (\<lambda>m. (n, m)) (Needs (NodeJob (the (map_of (Nodes g) n))))) (Order g))"
    by (auto simp: worker_createRun_def h(5) Let_def comp_def split: if_splits)
  have needs: "set (Needs (NodeJob (the (map_of (Nodes g) n)))) = cfg_needs cfg n" if "n \<in> set (Order g)" for n
    using known [OF that] by (auto simp: node cfg_needs_def)
  have "set (CrDependencies cr) = {(n, m). n \<in> set (Order g) \<and> m \<in> cfg_needs cfg n}" unfolding deps using needs by auto
  moreover have "n \<in> set (Order g)" if "m \<in> cfg_needs cfg n" for n m
    using that by (auto simp: g(3) cfg_needs_def dest: map_of_SomeD split: option.splits intro: rev_image_eqI)
  ultimately have "set (CrDependencies cr) = {(n, m). m \<in> cfg_needs cfg n}" by auto
  moreover have "cfg_needs cfg (fst (CrJobs cr ! i)) \<subseteq> set (map fst (take i (CrJobs cr)))" if "i < length (CrJobs cr)" for i
  proof -
    have i: "i < length (Order g)" using that jobs by (metis length_map)
    have "fst (CrJobs cr ! i) = Order g ! i" using that jobs by (metis nth_map)
    moreover have "map fst (take i (CrJobs cr)) = take i (Order g)" using jobs by (metis take_map)
    ultimately show ?thesis using g(2) i by (auto simp: least_topological_def candidates_graph_nodes)
  qed
  moreover have "acyclic (need_rel cfg)"
    using ordered_acyclic [OF g(2)] g(3) by (simp add: need_rel_def)
  moreover have "distinct (map fst (CrJobs cr))" unfolding jobs using g(2) by (simp add: least_topological_def)
  moreover have "set (map fst (CrJobs cr)) = fst ` set (Jobs cfg)" unfolding jobs using g(3) by simp
  ultimately show ?thesis using h cr by blast
qed

definition scm_commit :: string where "scm_commit = replicate 40 CHR ''a''"

definition scm_git :: git_env where
  "scm_git = \<lparr> has_snapshots = True, temp_dir = None, git_run = (\<lambda>_. None), git_output = (\<lambda>_. Inr scm_commit),
     safe_path = (\<lambda>x. Inr x), read_file = (\<lambda>_. Inr ''y''), capture = Inr sample_snapshot \<rparr>"

lemma sample_two_compiles: "\<exists>g. Compile sample_two = Inr g"
proof (rule acyclic_compiles)
  show "compilable sample_two" using sample_two_validates by (intro validated_compilable) (simp_all add: sample_two_def)
  show "acyclic (need_rel sample_two)"
    by (rule acyclic_subset [of "measure (\<lambda>n. if n = ''b'' then 1 else 0)"])
      (auto simp: need_rel_def cfg_needs_def sample_two_def sample_plain_def wf_acyclic split: if_splits)
qed

lemma scm_commit_text: "git_validSHA scm_commit" "trim_space scm_commit = scm_commit"
  by (simp_all add: git_validSHA_def scm_commit_def is_hex_def byte_def list_all_iff numeral_eq_Suc text_evals)

lemma scm_names: "NormalizeRepository (\<lambda>x. x) ''github'' ''o/n'' = Inr ''o/n''" "ValidatePipelinePath ''p'' = Inr ''p''"
  by (simp_all add: NormalizeRepository_def ValidatePipelinePath_def repository_forbidden_def bad_repository_part_def contains_any_def
      to_lower_def ascii_def lower_char_def text_evals list_all_iff)

lemma scm_remote: "\<exists>remote. Remote (\<lambda>x. x) ''https://h'' ''o/n'' = Inr remote"
  by (simp add: Remote_def scm_names has_prefix_def)

theorem prepared_run_witness:
  "\<exists>p cr. PrepareSource (\<lambda>x. x) sample_store (\<lambda>_. Some 1) True (\<lambda>_. Inr ''k'') scm_git ''https://h'' scm_repository (scm_delivery ''d1'' scm_commit 1) = Inr p \<and>
     worker_createRun (\<lambda>_. sample_digest) ''r'' p = Some cr \<and> set (CrDependencies cr) = {(''b'', ''a'')}"
proof -
  obtain g where g: "Compile sample_two = Inr g" using sample_two_compiles by blast
  obtain p where p: "PrepareSource (\<lambda>x. x) sample_store (\<lambda>_. Some 1) True (\<lambda>_. Inr ''k'') scm_git ''https://h'' scm_repository (scm_delivery ''d1'' scm_commit 1) = Inr p"
    using g scm_commit_text scm_remote
    by (auto simp: PrepareSource_def Prepare_def git_step_def scm_git_def scm_repository_def scm_delivery_def sample_parse scm_names marked_def)
  have d: "\<And>y cfg. parse_stored sample_store y = Inr cfg \<Longrightarrow> distinct (map fst (Jobs cfg))" by (simp add: sample_parse) (simp add: sample_two_def)
  have "{(n, m). m \<in> cfg_needs sample_two n} = {(''b'', ''a'')}" by (auto simp: cfg_needs_def sample_two_def sample_plain_def split: if_splits)
  then show ?thesis using prepared_run [OF d p, where sha = "\<lambda>_. sample_digest" and ident = "''r''"] p by (auto simp: sample_parse)
qed

end
