(* ===== verification/Files.thy ===== *)
theory Files
  imports Go_Text "HOL-Library.Sublist"
begin

text \<open>
  The file system as the archive and workspace code uses it: directories, regular files and symbolic
  links under absolute paths, path resolution that follows links as the operating system does, and the calls
  of package \<open>os\<close>. A path is the list of its components; the table of nodes is an association list.
  \<open>priv\<close> says whether the process may ignore permissions; otherwise it owns every file. An operation is a
  function of the file system that returns a result and the file system it leaves, also when it fails.
\<close>

section \<open>Nodes and operations\<close>

type_synonym fpath = "string list"

datatype fnode = Dir (fmode: nat) | Regular (fmode: nat) (fcontent: string) | Link (ftarget: string)

type_synonym fs = "(fpath \<times> fnode) list"

datatype os_error = ErrNotExist | ErrExist | ErrOther

type_synonym ('e, 'a) io = "fs \<Rightarrow> ('e, 'a) result \<times> fs"

definition node :: "fs \<Rightarrow> fpath \<Rightarrow> fnode option" where
  "node fs p = (if p = [] then Some (Dir 493) else map_of fs p)"

definition fs_set :: "fpath \<Rightarrow> fnode \<Rightarrow> fs \<Rightarrow> fs" where
  "fs_set p n fs = (p, n) # filter (\<lambda>e. fst e \<noteq> p) fs"

definition io_return :: "'a \<Rightarrow> ('e, 'a) io" where
  "io_return x fs = (Inr x, fs)"

definition io_fail :: "'e \<Rightarrow> ('e, 'a) io" where
  "io_fail e fs = (Inl e, fs)"

definition io_bind :: "('e, 'a) io \<Rightarrow> ('a \<Rightarrow> ('e, 'b) io) \<Rightarrow> ('e, 'b) io" where
  "io_bind f g fs = (case f fs of (Inl e, fs') \<Rightarrow> (Inl e, fs') | (Inr x, fs') \<Rightarrow> g x fs')"

definition io_map_err :: "('e \<Rightarrow> 'f) \<Rightarrow> ('e, 'a) io \<Rightarrow> ('f, 'a) io" where
  "io_map_err h f fs = (case f fs of (Inl e, fs') \<Rightarrow> (Inl (h e), fs') | (Inr x, fs') \<Rightarrow> (Inr x, fs'))"

definition io_of :: "('e, 'a) result \<Rightarrow> ('e, 'a) io" where
  "io_of r fs = (r, fs)"

text \<open>The owner's permission bits.\<close>

definition r_ok :: "bool \<Rightarrow> nat \<Rightarrow> bool" where "r_ok priv m \<longleftrightarrow> priv \<or> m div 256 mod 2 = 1"
definition w_ok :: "bool \<Rightarrow> nat \<Rightarrow> bool" where "w_ok priv m \<longleftrightarrow> priv \<or> m div 128 mod 2 = 1"
definition x_ok :: "bool \<Rightarrow> nat \<Rightarrow> bool" where "x_ok priv m \<longleftrightarrow> priv \<or> m div 64 mod 2 = 1"

section \<open>Resolution\<close>

text \<open>At most \<open>n\<close> links are followed; Linux allows 40.\<close>

fun resolve :: "bool \<Rightarrow> fs \<Rightarrow> nat \<Rightarrow> fpath \<Rightarrow> string list \<Rightarrow> (os_error, fpath) result" where
  "resolve priv fs n cur [] = Inr cur"
| "resolve priv fs n cur (c # cs) =
    (case node fs cur of
       Some (Dir m) \<Rightarrow>
         if \<not> x_ok priv m then Inl ErrOther
         else if c = '''' \<or> c = ''.'' then resolve priv fs n cur cs
         else if c = ''..'' then resolve priv fs n (butlast cur) cs
         else (case node fs (cur @ [c]) of
             None \<Rightarrow> Inl ErrNotExist
           | Some (Link t) \<Rightarrow>
             (case n of
                0 \<Rightarrow> Inl ErrOther
              | Suc k \<Rightarrow> resolve priv fs k (if path_is_abs t then [] else cur) (split_on slash t @ cs))
           | Some _ \<Rightarrow> resolve priv fs n (cur @ [c]) cs)
     | Some _ \<Rightarrow> Inl ErrOther
     | None \<Rightarrow> Inl ErrNotExist)"

definition max_links :: nat where "max_links = 40"

section \<open>Calls\<close>

definition os_parent :: "bool \<Rightarrow> fpath \<Rightarrow> fs \<Rightarrow> (os_error, fpath \<times> nat) result" where
  "os_parent priv p fs = rbind (resolve priv fs max_links [] (butlast p)) (\<lambda>d.
     case node fs d of
       Some (Dir m) \<Rightarrow> if x_ok priv m then Inr (d, m) else Inl ErrOther
     | Some _ \<Rightarrow> Inl ErrOther
     | None \<Rightarrow> Inl ErrNotExist)"

definition os_lstat :: "bool \<Rightarrow> fpath \<Rightarrow> fs \<Rightarrow> (os_error, fnode) result" where
  "os_lstat priv p fs = (if p = [] then Inr (Dir 493)
     else rbind (os_parent priv p fs) (\<lambda>(d, _). case node fs (d @ [last p]) of None \<Rightarrow> Inl ErrNotExist | Some n \<Rightarrow> Inr n))"

definition os_stat :: "bool \<Rightarrow> fpath \<Rightarrow> fs \<Rightarrow> (os_error, fnode) result" where
  "os_stat priv p fs = rbind (resolve priv fs max_links [] p) (\<lambda>q. case node fs q of None \<Rightarrow> Inl ErrNotExist | Some n \<Rightarrow> Inr n)"

text \<open>\<open>os.Mkdir\<close>, \<open>os.OpenFile\<close> with \<open>O_CREATE|O_EXCL\<close>, and \<open>os.Symlink\<close> make a
  new node and never follow a link at the last component.\<close>

definition os_create :: "bool \<Rightarrow> fpath \<Rightarrow> fnode \<Rightarrow> (os_error, unit) io" where
  "os_create priv p n fs =
    (case os_parent priv p fs of
       Inl e \<Rightarrow> (Inl e, fs)
     | Inr (d, m) \<Rightarrow>
       if p = [] \<or> node fs (d @ [last p]) \<noteq> None then (Inl ErrExist, fs)
       else if \<not> w_ok priv m then (Inl ErrOther, fs)
       else (Inr (), fs_set (d @ [last p]) n fs))"

definition set_mode :: "nat \<Rightarrow> fnode \<Rightarrow> fnode" where
  "set_mode m n = (case n of Dir _ \<Rightarrow> Dir m | Regular _ c \<Rightarrow> Regular m c | Link t \<Rightarrow> Link t)"

definition os_chmod :: "bool \<Rightarrow> fpath \<Rightarrow> nat \<Rightarrow> (os_error, unit) io" where
  "os_chmod priv p m fs =
    (case resolve priv fs max_links [] p of
       Inl e \<Rightarrow> (Inl e, fs)
     | Inr q \<Rightarrow> (case node fs q of
         None \<Rightarrow> (Inl ErrNotExist, fs)
       | Some n \<Rightarrow> if q = [] then (Inl ErrOther, fs) else (Inr (), fs_set q (set_mode m n) fs)))"

function os_mkdirall :: "bool \<Rightarrow> fpath \<Rightarrow> nat \<Rightarrow> (os_error, unit) io" where
  "os_mkdirall priv p m fs =
    (case os_stat priv p fs of
       Inr (Dir _) \<Rightarrow> (Inr (), fs)
     | Inr _ \<Rightarrow> (Inl ErrOther, fs)
     | Inl e \<Rightarrow>
       if p = [] then (Inl e, fs)
       else (case os_mkdirall priv (butlast p) m fs of
           (Inl e', fs1) \<Rightarrow> (Inl e', fs1)
         | (Inr _, fs1) \<Rightarrow>
           (case os_create priv p (Dir m) fs1 of
              (Inr _, fs2) \<Rightarrow> (Inr (), fs2)
            | (Inl e', fs2) \<Rightarrow> (case os_lstat priv p fs2 of Inr (Dir _) \<Rightarrow> (Inr (), fs2) | _ \<Rightarrow> (Inl e', fs2)))))"
  by pat_completeness auto
termination
  by (relation "measure (\<lambda>(_, p, _, _). length p)") auto

declare os_mkdirall.simps [simp del]

section \<open>Paths\<close>

text \<open>\<open>filepath.Join\<close> and \<open>filepath.Rel\<close> on clean absolute paths, the latter as the components of
  the relative path.\<close>

definition path_join :: "fpath \<Rightarrow> string \<Rightarrow> fpath" where
  "path_join root name = clean_parts True [] (root @ split_on slash name)"

definition path_rel :: "fpath \<Rightarrow> fpath \<Rightarrow> string list" where
  "path_rel root p = (let k = length (longest_common_prefix root p) in replicate (length root - k) ''..'' @ drop k p)"

definition within :: "fpath \<Rightarrow> fpath \<Rightarrow> bool" where
  "within root candidate = (case path_rel root candidate of [] \<Rightarrow> True | c # _ \<Rightarrow> c \<noteq> ''..'')"

lemma within_iff:
  assumes "''..'' \<notin> set p"
  shows "within root p \<longleftrightarrow> prefix root p"
proof -
  let ?l = "longest_common_prefix root p"
  have pre: "prefix ?l root" "prefix ?l p" by (simp_all add: longest_common_prefix_prefix1 longest_common_prefix_prefix2)
  show ?thesis
  proof (cases "prefix root p")
    case True
    then have "?l = root" by (metis longest_common_prefix_max_prefix pre(1) prefix_order.antisym prefix_order.refl)
    then have "path_rel root p = drop (length root) p" by (simp add: path_rel_def)
    moreover have "set (drop (length root) p) \<subseteq> set p" by (rule set_drop_subset)
    ultimately show ?thesis using True assms by (auto simp: within_def split: list.splits)
  next
    case False
    then have "?l \<noteq> root" using pre(2) by auto
    then have "length ?l < length root" using pre(1) by (metis le_neq_implies_less not_equal_is_parallel parallelD1 prefix_length_le)
    then obtain k where "length root - length ?l = Suc k" by (metis Suc_diff_Suc)
    then show ?thesis using False by (simp add: within_def path_rel_def)
  qed
qed

lemma clean_parts_append_plain: "list_all plain xs \<Longrightarrow> clean_parts rooted st (xs @ ys) = clean_parts rooted (rev xs @ st) ys"
  by (induction xs arbitrary: st) (auto simp: plain_def)

lemma path_join_plain:
  assumes "list_all plain root" and "plain_path name"
  shows "path_join root name = root @ split_on slash name"
  using assms unfolding path_join_def plain_path_def
  by (simp add: clean_parts_append_plain clean_parts_plain)

section \<open>Lemmas on the table\<close>

lemma node_set: "p \<noteq> [] \<Longrightarrow> node (fs_set p n fs) q = (if q = p then Some n else node fs q)"
proof -
  have "map_of (filter (\<lambda>e. fst e \<noteq> p) fs) q = (if q = p then None else map_of fs q)" by (induction fs) auto
  then show "p \<noteq> [] \<Longrightarrow> node (fs_set p n fs) q = (if q = p then Some n else node fs q)" by (simp add: node_def fs_set_def)
qed

lemma distinct_fs_set: "distinct (map fst fs) \<Longrightarrow> distinct (map fst (fs_set p n fs))"
  by (auto simp: fs_set_def distinct_map_filter)

lemma node_Nil [simp]: "node fs [] = Some (Dir 493)"
  by (simp add: node_def)

section \<open>Paths without links\<close>

definition no_links :: "fs \<Rightarrow> fpath \<Rightarrow> bool" where
  "no_links fs p \<longleftrightarrow> (\<forall>q t. prefix q p \<longrightarrow> node fs q \<noteq> Some (Link t))"

definition real_path :: "fs \<Rightarrow> fpath \<Rightarrow> bool" where
  "real_path fs p \<longleftrightarrow> (\<forall>q. prefix q p \<longrightarrow> (\<exists>m. node fs q = Some (Dir m)))"

lemma real_no_links: "real_path fs p \<Longrightarrow> no_links fs p"
  by (force simp: real_path_def no_links_def)

lemma no_links_prefix: "no_links fs p \<Longrightarrow> prefix q p \<Longrightarrow> no_links fs q"
  by (auto simp: no_links_def intro: prefix_order.trans)

lemma real_path_prefix: "real_path fs p \<Longrightarrow> prefix q p \<Longrightarrow> real_path fs q"
  by (auto simp: real_path_def intro: prefix_order.trans)

lemma prefix_snocD: "prefix q (p @ [c]) \<Longrightarrow> q = p @ [c] \<or> prefix q p"
  by (simp add: prefix_snoc)

lemma real_path_snoc: "real_path fs (p @ [c]) \<longleftrightarrow> real_path fs p \<and> (\<exists>m. node fs (p @ [c]) = Some (Dir m))"
  by (auto simp: real_path_def prefix_snoc)

lemma butlast_prefix: "prefix (butlast p) p"
  by (metis append_butlast_last_id butlast.simps(1) prefixI prefix_order.refl)

lemma resolve_no_links:
  assumes "list_all plain cs" and "no_links fs (cur @ cs)" and "resolve priv fs n cur cs = Inr r"
  shows "r = cur @ cs"
  using assms
proof (induction cs arbitrary: cur)
  case (Cons c cs)
  have "node fs (cur @ [c]) \<noteq> Some (Link t)" for t using Cons.prems(2) by (simp add: no_links_def)
  then have "resolve priv fs n (cur @ [c]) cs = Inr r"
    using Cons.prems(1,3) by (auto simp: plain_def split: option.splits fnode.splits if_splits)
  then have "r = (cur @ [c]) @ cs" using Cons.prems(1,2) by (intro Cons.IH) simp_all
  then show ?case by simp
qed simp

lemma os_parent_no_links:
  assumes "list_all plain p" and "no_links fs (butlast p)" and "os_parent priv p fs = Inr (d, m)"
  shows "d = butlast p" and "node fs d = Some (Dir m)"
proof -
  have "list_all plain (butlast p)" using assms(1) by (auto simp: list_all_iff dest: in_set_butlastD)
  moreover obtain r where r: "resolve priv fs max_links [] (butlast p) = Inr r"
    using assms(3) by (cases "resolve priv fs max_links [] (butlast p)") (simp_all add: os_parent_def)
  moreover have "d = r" "node fs r = Some (Dir m)"
    using assms(3) r by (auto simp: os_parent_def split: option.splits fnode.splits if_splits)
  ultimately show "d = butlast p" "node fs d = Some (Dir m)" using resolve_no_links [of "butlast p" fs "[]"] assms(2) by auto
qed

lemma os_lstat_no_links:
  assumes "list_all plain p" and "no_links fs (butlast p)" and "os_lstat priv p fs = Inr n"
  shows "node fs p = Some n"
proof (cases "p = []")
  case True
  then show ?thesis using assms(3) by (simp add: os_lstat_def)
next
  case False
  then obtain dm where dm: "os_parent priv p fs = Inr dm" using assms(3) by (cases "os_parent priv p fs") (simp_all add: os_lstat_def)
  then have "node fs (fst dm @ [last p]) = Some n"
    using assms(3) False by (auto simp: os_lstat_def split: option.splits prod.splits)
  moreover have "fst dm = butlast p" using os_parent_no_links(1) [OF assms(1,2), of priv "fst dm" "snd dm"] dm by simp
  ultimately show ?thesis using False by simp
qed

lemma os_create_no_links:
  assumes "list_all plain p" and "no_links fs (butlast p)"
  obtains (idle) e where "os_create priv p n fs = (Inl e, fs)"
  | (made) "os_create priv p n fs = (Inr (), fs_set p n fs)" "p \<noteq> []" "node fs p = None" "\<exists>m. node fs (butlast p) = Some (Dir m)"
proof (cases "os_parent priv p fs")
  case (Inl e)
  then show thesis using idle by (simp add: os_create_def)
next
  case (Inr dm)
  obtain d m where dm: "dm = (d, m)" by (cases dm)
  have d: "d = butlast p" "node fs d = Some (Dir m)" using os_parent_no_links [OF assms] Inr dm by auto
  show thesis
  proof (cases "p = [] \<or> node fs (d @ [last p]) \<noteq> None \<or> \<not> w_ok priv m")
    case True
    then show thesis using idle Inr dm by (cases "p = [] \<or> node fs (d @ [last p]) \<noteq> None") (simp_all add: os_create_def)
  next
    case False
    moreover have "butlast p @ [last p] = p" using False by simp
    ultimately show thesis using made Inr dm d by (auto simp: os_create_def)
  qed
qed

lemma os_chmod_no_links:
  assumes "list_all plain p" and "no_links fs p"
  obtains (idle) e where "os_chmod priv p m fs = (Inl e, fs)"
  | (made) n where "os_chmod priv p m fs = (Inr (), fs_set p (set_mode m n) fs)" "p \<noteq> []" "node fs p = Some n"
proof (cases "resolve priv fs max_links [] p")
  case (Inl e)
  then show thesis using idle by (simp add: os_chmod_def)
next
  case (Inr q)
  then have "q = p" using resolve_no_links [of p fs "[]"] assms by simp
  then show thesis using idle made Inr by (cases "node fs p"; cases "p = []") (auto simp: os_chmod_def)
qed

text \<open>\<open>os.MkdirAll\<close> only makes directories that did not exist, on the way to its path.\<close>

lemma os_mkdirall_keeps:
  assumes "list_all plain p" and "I fs" and "\<And>fs. I fs \<Longrightarrow> no_links fs p"
    and "\<And>q fs. I fs \<Longrightarrow> prefix q p \<Longrightarrow> q \<noteq> [] \<Longrightarrow> node fs q = None \<Longrightarrow> I (fs_set q (Dir m) fs)"
  shows "I (snd (os_mkdirall priv p m fs))"
  using assms
proof (induction priv p m fs rule: os_mkdirall.induct)
  case (1 priv p m fs)
  show ?case
  proof (cases "(\<exists>n. os_stat priv p fs = Inr n) \<or> p = []")
    case True
    then show ?thesis using 1(3) by (subst os_mkdirall.simps) (auto split: sum.splits fnode.splits)
  next
    case False
    then obtain e where e: "os_stat priv p fs = Inl e" and p: "p \<noteq> []" by (cases "os_stat priv p fs") auto
    obtain r fs1 where r: "os_mkdirall priv (butlast p) m fs = (r, fs1)" by (cases "os_mkdirall priv (butlast p) m fs")
    have "I (snd (os_mkdirall priv (butlast p) m fs))"
    proof (rule "1.IH" [OF e p])
      show "list_all plain (butlast p)" using "1.prems"(1) by (auto simp: list_all_iff dest: in_set_butlastD)
      show "I fs" by (rule "1.prems"(2))
      show "no_links fs (butlast p)" if "I fs" for fs using no_links_prefix [OF "1.prems"(3) [OF that] butlast_prefix] .
      show "I (fs_set q (Dir m) fs)" if "I fs" "prefix q (butlast p)" "q \<noteq> []" "node fs q = None" for q fs
        using "1.prems"(4) [OF that(1) _ that(3,4)] that(2) butlast_prefix prefix_order.trans by blast
    qed
    then have I1: "I fs1" using r by simp
    have "I (snd (os_create priv p (Dir m) fs1))"
      using "1.prems"(1) no_links_prefix [OF "1.prems"(3) [OF I1] butlast_prefix]
      by (cases rule: os_create_no_links [of p fs1 priv "Dir m"]) (use I1 "1.prems"(4) in auto)
    then show ?thesis using e p r I1 by (subst os_mkdirall.simps) (auto split: sum.splits fnode.splits prod.splits)
  qed
qed

end
