(* ===== verification/Archive.thy ===== *)
theory Archive
  imports Files Blob_Store
begin

text \<open>
  \<open>internal/snapshot/snapshot.go\<close>: capturing a source tree as an archive and extracting it into a workspace.
  The tar and gzip codecs are \<open>pack\<close> and \<open>unpack\<close>: the latter gives the entries of an archive and the
  error that ends them, if any; \<open>sha\<close> is SHA-256 in hexadecimal and \<open>encode\<close> the JSON of a manifest.
  Paths are clean and absolute.
\<close>

section \<open>Names and links\<close>

definition unsafePath :: "string \<Rightarrow> bool" where
  "unsafePath name =
    (if name = '''' \<or> CHR 0x00 \<in> set name \<or> list_ex is_control (runes name) \<or> path_is_abs name then True
     else let clean = path_clean name in clean = ''.'' \<or> clean = ''..'' \<or> has_prefix clean ''../'' \<or> clean \<noteq> name)"

definition unsafeLink :: "string \<Rightarrow> bool" where
  "unsafeLink name \<longleftrightarrow> name = '''' \<or> path_is_abs name \<or> CHR 0x00 \<in> set name \<or> list_ex is_control (runes name) \<or> path_clean name \<noteq> name"

text \<open>Where a link leads, on the names alone.\<close>

definition link_end :: "string \<Rightarrow> string \<Rightarrow> string" where
  "link_end name target = path_clean (path_join2 (path_dir name) target)"

definition link_escapes :: "string \<Rightarrow> string \<Rightarrow> bool" where
  "link_escapes name target \<longleftrightarrow> link_end name target = ''..'' \<or> has_prefix (link_end name target) ''../''"

section \<open>Directories on the way\<close>

fun safe_walk :: "bool \<Rightarrow> fpath \<Rightarrow> string list \<Rightarrow> (string, unit) io" where
  "safe_walk priv current [] fs = (Inr (), fs)"
| "safe_walk priv current (part # parts) fs =
    (if part = ''.'' \<or> part = '''' then safe_walk priv current parts fs
     else let current' = path_join current part in
       (case os_lstat priv current' fs of
          Inl ErrNotExist \<Rightarrow>
            (case os_create priv current' (Dir 448) fs of
               (Inl _, fs1) \<Rightarrow> (Inl ''mkdir'', fs1)
             | (Inr _, fs1) \<Rightarrow> safe_walk priv current' parts fs1)
        | Inl _ \<Rightarrow> (Inl ''lstat'', fs)
        | Inr (Dir _) \<Rightarrow> safe_walk priv current' parts fs
        | Inr _ \<Rightarrow> (Inl ''unsafe archive parent'', fs)))"

definition safeParents :: "bool \<Rightarrow> fpath \<Rightarrow> fpath \<Rightarrow> (string, unit) io" where
  "safeParents priv root dir fs =
    (if \<not> within root dir then (Inl ''archive parent escapes workspace'', fs) else safe_walk priv root (path_rel root dir) fs)"

section \<open>Archives\<close>

datatype tar_type = TypeDir | TypeReg | TypeSymlink | TypeOther nat

record tar_header =
  TName :: string
  TType :: tar_type
  TMode :: nat
  TSize :: int
  TLinkname :: string
  TContent :: string

type_synonym unpacked = "tar_header list \<times> string option"

record extraction =
  xLinks :: "(fpath \<times> string) list"
  xEntries :: int
  xTotal :: int

definition snapshot_file :: "bool \<Rightarrow> Limits \<Rightarrow> SourceSnapshot \<Rightarrow> fpath \<Rightarrow> tar_header \<Rightarrow> extraction \<Rightarrow> (string, extraction) io" where
  "snapshot_file priv lim expected target h x =
    (if TSize h < 0 \<or> TSize h > MaxFileBytes lim then io_fail ''snapshot file exceeds limit''
     else let total = xTotal x + TSize h in
     if total > MaxLogicalBytes lim \<or> total > SnapLogicalSize expected then io_fail ''snapshot exceeds extracted byte limit''
     else io_bind (io_map_err (\<lambda>_. ''open'') (os_create priv target (Regular (TMode h mod 512) (take (nat (TSize h)) (TContent h))))) (\<lambda>_.
       if int (length (TContent h)) < TSize h then io_fail ''extract file''
       else io_bind (io_map_err (\<lambda>_. ''chmod'') (os_chmod priv target (TMode h mod 512))) (\<lambda>_.
         io_return (x\<lparr> xTotal := total \<rparr>))))"

definition snapshot_entry :: "bool \<Rightarrow> Limits \<Rightarrow> SourceSnapshot \<Rightarrow> fpath \<Rightarrow> tar_header \<Rightarrow> extraction \<Rightarrow> (string, extraction) io" where
  "snapshot_entry priv lim expected destination h x0 =
    (let x = x0\<lparr> xEntries := xEntries x0 + 1 \<rparr> in
     if xEntries x > MaxEntries lim \<or> xEntries x > SnapEntryCount expected then io_fail ''snapshot exceeds entry limit''
     else if unsafePath (TName h) \<or> int (length (TName h)) > MaxPathBytes lim then io_fail ''unsafe archive path''
     else let target = path_join destination (TName h) in
     if \<not> within destination target then io_fail ''archive path escapes workspace''
     else io_bind (safeParents priv destination (butlast target)) (\<lambda>_.
       case TType h of
         TypeDir \<Rightarrow>
           io_bind (io_map_err (\<lambda>_. ''mkdir'') (os_mkdirall priv target (TMode h mod 512))) (\<lambda>_.
           io_bind (io_map_err (\<lambda>_. ''chmod'') (os_chmod priv target (TMode h mod 512))) (\<lambda>_. io_return x))
       | TypeReg \<Rightarrow> snapshot_file priv lim expected target h x
       | TypeSymlink \<Rightarrow>
           if unsafeLink (TLinkname h) then io_fail ''unsafe archive symlink''
           else if link_escapes (TName h) (TLinkname h) then io_fail ''archive symlink escapes workspace''
           else io_return (x\<lparr> xLinks := xLinks x @ [(target, TLinkname h)] \<rparr>)
       | TypeOther _ \<Rightarrow> io_fail ''unsupported archive entry type''))"

fun snapshot_loop :: "bool \<Rightarrow> Limits \<Rightarrow> SourceSnapshot \<Rightarrow> fpath \<Rightarrow> tar_header list \<Rightarrow> extraction \<Rightarrow> (string, extraction) io" where
  "snapshot_loop priv lim expected destination [] x = io_return x"
| "snapshot_loop priv lim expected destination (h # hs) x =
    io_bind (snapshot_entry priv lim expected destination h x) (snapshot_loop priv lim expected destination hs)"

fun make_links :: "bool \<Rightarrow> fpath \<Rightarrow> (fpath \<times> string) list \<Rightarrow> (string, unit) io" where
  "make_links priv destination [] = io_return ()"
| "make_links priv destination ((name, target) # ls) =
    io_bind (safeParents priv destination (butlast name)) (\<lambda>_.
    io_bind (io_map_err (\<lambda>_. ''symlink'') (os_create priv name (Link target))) (\<lambda>_. make_links priv destination ls))"

section \<open>Manifests\<close>

datatype entry_type = KDirectory | KFile | KSymlink

record Entry =
  EnPath :: string
  EnType :: entry_type
  EnMode :: nat
  EnSize :: int
  EnSHA256 :: string
  EnTarget :: string
  EnHost :: fpath

text \<open>\<open>filepath.WalkDir\<close> visits a tree in lexical order, a directory before what it holds, and skips
  directories called \<open>.git\<close>.\<close>

definition git_skipped :: "fs \<Rightarrow> fpath \<Rightarrow> fpath \<Rightarrow> bool" where
  "git_skipped fs root p \<longleftrightarrow>
     list_ex (\<lambda>q. strict_prefix root q \<and> last q = ''.git'' \<and> (case node fs q of Some (Dir _) \<Rightarrow> True | _ \<Rightarrow> False)) (prefixes p)"

definition walk :: "fpath \<Rightarrow> fs \<Rightarrow> fpath list" where
  "walk root fs = sort (filter (\<lambda>p. strict_prefix root p \<and> \<not> git_skipped fs root p) (map fst fs))"

definition rel_name :: "fpath \<Rightarrow> fpath \<Rightarrow> string" where
  "rel_name root p = join_with slash (drop (length root) p)"

definition searchable :: "bool \<Rightarrow> fs \<Rightarrow> fpath \<Rightarrow> bool" where
  "searchable priv fs d = (case node fs d of Some (Dir m) \<Rightarrow> x_ok priv m | _ \<Rightarrow> False)"

definition scan_entry :: "bool \<Rightarrow> (string \<Rightarrow> string) \<Rightarrow> Limits \<Rightarrow> fpath \<Rightarrow> fs \<Rightarrow> fpath \<Rightarrow> Entry list \<times> int \<Rightarrow> (string, Entry list \<times> int) result" where
  "scan_entry priv sha lim root fs p acc =
    (let name = rel_name root p; entries = fst acc; logical = snd acc;
       push = (\<lambda>e logical'. let entries' = entries @ [e] in
         if int (length entries') > MaxEntries lim then Inl ''source exceeds entry limit'' else Inr (entries', logical')) in
     if int (length name) > MaxPathBytes lim \<or> unsafePath name then Inl ''unsafe source path''
     else if \<not> searchable priv fs (butlast p) then Inl ''lstat''
     else (case node fs p of
         None \<Rightarrow> Inl ''lstat''
       | Some (Dir m) \<Rightarrow>
         rbind (push \<lparr> EnPath = name, EnType = KDirectory, EnMode = m, EnSize = 0, EnSHA256 = '''', EnTarget = '''', EnHost = p \<rparr> logical) (\<lambda>acc'.
         if r_ok priv m then Inr acc' else Inl ''readdir'')
       | Some (Regular m content) \<Rightarrow>
         let size = int (length content) in
         if size > MaxFileBytes lim then Inl ''source file exceeds size limit''
         else if logical + size > MaxLogicalBytes lim then Inl ''source exceeds logical byte limit''
         else if \<not> r_ok priv m then Inl ''open''
         else push \<lparr> EnPath = name, EnType = KFile, EnMode = m, EnSize = size, EnSHA256 = sha content, EnTarget = '''', EnHost = p \<rparr> (logical + size)
       | Some (Link target) \<Rightarrow>
         if unsafeLink target then Inl ''unsafe symlink''
         else if link_escapes name target then Inl ''symlink escapes source root''
         else push \<lparr> EnPath = name, EnType = KSymlink, EnMode = 511, EnSize = 0, EnSHA256 = '''', EnTarget = target, EnHost = p \<rparr> logical))"

fun scan_all :: "bool \<Rightarrow> (string \<Rightarrow> string) \<Rightarrow> Limits \<Rightarrow> fpath \<Rightarrow> fs \<Rightarrow> fpath list \<Rightarrow> Entry list \<times> int \<Rightarrow> (string, Entry list \<times> int) result" where
  "scan_all priv sha lim root fs [] acc = Inr acc"
| "scan_all priv sha lim root fs (p # ps) acc =
    rbind (scan_entry priv sha lim root fs p acc) (scan_all priv sha lim root fs ps)"

definition scan :: "bool \<Rightarrow> (string \<Rightarrow> string) \<Rightarrow> Limits \<Rightarrow> fpath \<Rightarrow> fs \<Rightarrow> (string, Entry list \<times> int) result" where
  "scan priv sha lim root fs =
    (case node fs root of
       Some (Dir m) \<Rightarrow>
         if r_ok priv m then
           rbind (scan_all priv sha lim root fs (walk root fs) ([], 0)) (\<lambda>(entries, logical). Inr (sort_key EnPath entries, logical))
         else Inl ''readdir''
     | Some _ \<Rightarrow> Inr ([], 0)
     | None \<Rightarrow> Inl ''lstat'')"

definition digestManifest :: "(string \<Rightarrow> string) \<Rightarrow> (Entry list \<Rightarrow> string) \<Rightarrow> Entry list \<Rightarrow> string" where
  "digestManifest sha encode entries = sha (encode (map (\<lambda>e. e\<lparr> EnHost := [] \<rparr>) entries) @ [CHR 0x0A])"

definition Verify :: "bool \<Rightarrow> (string \<Rightarrow> string) \<Rightarrow> (Entry list \<Rightarrow> string) \<Rightarrow> Limits \<Rightarrow> fpath \<Rightarrow> string \<Rightarrow> fs \<Rightarrow> (string, unit) result" where
  "Verify priv sha encode lim root expected fs =
    rbind (scan priv sha lim root fs) (\<lambda>(entries, _).
    if digestManifest sha encode entries \<noteq> expected then Inl ''source manifest digest mismatch'' else Inr ())"

section \<open>Extraction\<close>

definition snapshot_meta_ok :: "SourceSnapshot \<Rightarrow> bool" where
  "snapshot_meta_ok m \<longleftrightarrow> SnapFormat m = ''tar-gzip-v1'' \<and> ValidDigest (SourceDigest m) \<and> ValidDigest (BlobDigest m) \<and>
     0 \<le> SnapArchiveSize m \<and> 0 \<le> SnapLogicalSize m \<and> 0 \<le> SnapEntryCount m"

text \<open>\<open>blob\<close> is the content of the archive file, \<open>None\<close> when it cannot be read.\<close>

definition snapshot_Extract :: "bool \<Rightarrow> (string \<Rightarrow> string) \<Rightarrow> (Entry list \<Rightarrow> string) \<Rightarrow> (string \<Rightarrow> (string, unpacked) result) \<Rightarrow> Limits
    \<Rightarrow> string option \<Rightarrow> fpath \<Rightarrow> SourceSnapshot \<Rightarrow> (string, unit) io" where
  "snapshot_Extract priv sha encode unpack lim blob destination expected =
    (if \<not> snapshot_meta_ok expected then io_fail ''invalid snapshot metadata''
     else (case blob of
         None \<Rightarrow> io_fail ''open''
       | Some data \<Rightarrow>
         if int (length data) \<noteq> SnapArchiveSize expected \<or> int (length data) > MaxArchiveBytes lim then io_fail ''snapshot archive size mismatch''
         else if sha data \<noteq> BlobDigest expected then io_fail ''snapshot blob digest mismatch''
         else (case unpack data of
             Inl e \<Rightarrow> io_fail e
           | Inr (hs, bad) \<Rightarrow>
             io_bind (snapshot_loop priv lim expected destination hs \<lparr> xLinks = [], xEntries = 0, xTotal = 0 \<rparr>) (\<lambda>x.
             case bad of
               Some e \<Rightarrow> io_fail e
             | None \<Rightarrow>
               if xEntries x \<noteq> SnapEntryCount expected \<or> xTotal x \<noteq> SnapLogicalSize expected then io_fail ''snapshot metadata mismatch''
               else io_bind (make_links priv destination (xLinks x)) (\<lambda>_ fs.
                 (Verify priv sha encode lim destination (SourceDigest expected) fs, fs))))))"

section \<open>Capture\<close>

text \<open>\<open>fs\<close> is the source tree when it is scanned, \<open>later\<close> the tree when its files are copied, and
  \<open>stored\<close> the blobs of the store by source digest.\<close>

definition header_of :: "bool \<Rightarrow> (string \<Rightarrow> string) \<Rightarrow> fs \<Rightarrow> Entry \<Rightarrow> (string, tar_header) result" where
  "header_of priv sha later e =
    (case EnType e of
       KDirectory \<Rightarrow> Inr \<lparr> TName = EnPath e, TType = TypeDir, TMode = EnMode e, TSize = 0, TLinkname = '''', TContent = '''' \<rparr>
     | KSymlink \<Rightarrow> Inr \<lparr> TName = EnPath e, TType = TypeSymlink, TMode = EnMode e, TSize = 0, TLinkname = EnTarget e, TContent = '''' \<rparr>
     | KFile \<Rightarrow>
       (case node later (EnHost e) of
          Some (Regular m content) \<Rightarrow>
            if \<not> r_ok priv m then Inl ''open''
            else if int (length content) \<noteq> EnSize e \<or> sha content \<noteq> EnSHA256 e then Inl ''source file changed during snapshot''
            else Inr \<lparr> TName = EnPath e, TType = TypeReg, TMode = EnMode e, TSize = EnSize e, TLinkname = '''', TContent = content \<rparr>
        | _ \<Rightarrow> Inl ''open''))"

fun headers_of :: "bool \<Rightarrow> (string \<Rightarrow> string) \<Rightarrow> fs \<Rightarrow> Entry list \<Rightarrow> (string, tar_header list) result" where
  "headers_of priv sha later [] = Inr []"
| "headers_of priv sha later (e # es) =
    rbind (header_of priv sha later e) (\<lambda>h. rbind (headers_of priv sha later es) (\<lambda>hs. Inr (h # hs)))"

definition snapshot_Capture :: "bool \<Rightarrow> (string \<Rightarrow> string) \<Rightarrow> (Entry list \<Rightarrow> string) \<Rightarrow> (tar_header list \<Rightarrow> string) \<Rightarrow> Limits \<Rightarrow> time
    \<Rightarrow> fpath \<Rightarrow> fs \<Rightarrow> fs \<Rightarrow> (string \<Rightarrow> string option) \<Rightarrow> (string, SourceSnapshot \<times> (string \<Rightarrow> string option)) result" where
  "snapshot_Capture priv sha encode pack lim now root fs later stored =
    rbind (scan priv sha lim root fs) (\<lambda>(entries, logical).
    rbind (headers_of priv sha later entries) (\<lambda>hs.
    let sourceDigest = digestManifest sha encode entries; data = pack hs;
      meta = \<lparr> SourceDigest = sourceDigest, BlobDigest = sha data, SnapFormat = ''tar-gzip-v1'', SnapArchiveSize = int (length data),
        SnapLogicalSize = logical, SnapEntryCount = int (length entries), SnapCreatedAt = now \<rparr> in
    if int (length data) > MaxArchiveBytes lim then Inl ''snapshot exceeds archive byte limit''
    else (case stored sourceDigest of
        Some old \<Rightarrow> if length old \<noteq> length data \<or> sha old \<noteq> sha data then Inl ''immutable snapshot collision'' else Inr (meta, stored)
      | None \<Rightarrow> Inr (meta, stored(sourceDigest := Some data)))))"

section \<open>Limits and copies\<close>

text \<open>\<open>limitWriter\<close>: the underlying writer takes every byte.\<close>

definition limit_write :: "string \<Rightarrow> int \<times> string \<Rightarrow> (string, int \<times> string) result" where
  "limit_write p w = (if int (length p) > fst w then Inl ''exceeds archive byte limit'' else Inr (fst w - int (length p), snd w @ p))"

fun limit_writes :: "string list \<Rightarrow> int \<times> string \<Rightarrow> (string, int \<times> string) result" where
  "limit_writes [] w = Inr w"
| "limit_writes (p # ps) w = rbind (limit_write p w) (limit_writes ps)"

text \<open>A stream of writes passes exactly when all of it fits.\<close>

lemma limit_writes_iff:
  "limit_writes ps w = (if ps = [] \<or> int (length (concat ps)) \<le> fst w then Inr (fst w - int (length (concat ps)), snd w @ concat ps)
     else limit_writes ps w) \<and> ((\<exists>w'. limit_writes ps w = Inr w') \<longleftrightarrow> ps = [] \<or> int (length (concat ps)) \<le> fst w)"
proof (induction ps arbitrary: w)
  case (Cons p ps)
  show ?case
  proof (cases "int (length p) > fst w")
    case False
    let ?w = "(fst w - int (length p), snd w @ p)"
    have "limit_writes (p # ps) w = limit_writes ps ?w" using False by (simp add: limit_write_def)
    then show ?thesis using Cons.IH [of ?w] False by (cases "ps = []") auto
  qed (simp add: limit_write_def)
qed simp

text \<open>\<open>CopyVerified\<close>: \<open>src\<close> is what the reader delivers, a failure or its bytes.\<close>

definition CopyVerified :: "(string \<Rightarrow> string) \<Rightarrow> string option \<Rightarrow> int \<Rightarrow> string \<Rightarrow> int \<Rightarrow> (string, string) result" where
  "CopyVerified sha src expectedSize expectedDigest maximum =
    (if expectedSize < 0 \<or> expectedSize > maximum \<or> \<not> ValidDigest expectedDigest then Inl ''invalid snapshot download metadata''
     else (case src of
         None \<Rightarrow> Inl ''read''
       | Some bytes \<Rightarrow>
         let content = take (nat (expectedSize + 1)) bytes in
         if int (length content) \<noteq> expectedSize then Inl ''snapshot download size mismatch''
         else if sha content \<noteq> expectedDigest then Inl ''snapshot blob digest mismatch''
         else Inr content))"

section \<open>The store\<close>

text \<open>\<open>filepath.EvalSymlinks\<close>: the path with every link resolved, of something that exists.\<close>

definition eval_symlinks :: "bool \<Rightarrow> fpath \<Rightarrow> (os_error, fpath) io" where
  "eval_symlinks priv p fs =
    (rbind (resolve priv fs max_links [] p) (\<lambda>q. case node fs q of None \<Rightarrow> Inl ErrNotExist | Some _ \<Rightarrow> Inr q), fs)"

definition snapshot_Open :: "bool \<Rightarrow> Limits \<Rightarrow> fpath \<Rightarrow> fpath \<Rightarrow> (string, fpath) io" where
  "snapshot_Open priv lim root sourceRoot =
    (if \<not> validateLimits lim then io_fail ''snapshot limits must be greater than zero''
     else io_bind (io_map_err (\<lambda>_. ''create snapshot directory'') (os_mkdirall priv root 448)) (\<lambda>_.
       io_bind (io_map_err (\<lambda>_. ''canonicalize snapshot directory'') (eval_symlinks priv root)) (\<lambda>abs.
       io_bind (io_map_err (\<lambda>_. ''resolve source workspace'') (eval_symlinks priv sourceRoot)) (\<lambda>source.
       if within source abs \<or> within abs source then io_fail ''snapshot directory and source workspace must not contain one another''
       else io_bind (io_map_err (\<lambda>_. ''create snapshot directory'') (os_mkdirall priv (abs @ [''blobs'', ''sha256'']) 448)) (\<lambda>_.
         io_bind (io_map_err (\<lambda>_. ''create snapshot temporary directory'') (os_mkdirall priv (abs @ [''tmp'']) 448)) (\<lambda>_.
         io_return abs))))))"

definition snapshot_blobPath :: "fpath \<Rightarrow> string \<Rightarrow> (string, fpath) result" where
  "snapshot_blobPath root digest =
    (if \<not> ValidDigest digest then Inl ''invalid snapshot digest''
     else Inr (root @ [''blobs'', ''sha256'', take 2 digest, drop 2 digest]))"

definition snapshot_OpenBlob :: "(string \<Rightarrow> string option) \<Rightarrow> string \<Rightarrow> (string, string) result" where
  "snapshot_OpenBlob stored digest =
    (if \<not> ValidDigest digest then Inl ''invalid snapshot digest''
     else (case stored digest of None \<Rightarrow> Inl ''open'' | Some data \<Rightarrow> Inr data))"

text \<open>The temporary files: name, whether it is regular, and time of the last change.\<close>

definition snapshot_CleanupTemps :: "time \<Rightarrow> duration \<Rightarrow> (string \<times> bool \<times> time) list \<Rightarrow> (string \<times> bool \<times> time) list" where
  "snapshot_CleanupTemps now grace tmp = filter (\<lambda>(_, regular, modified). \<not> (regular \<and> modified < now - grace)) tmp"

end
