(* ===== verification/Archive_Safety.thy ===== *)
theory Archive_Safety
  imports Archive
begin

text \<open>
  Extraction stays inside its destination. The calls keep an invariant: nothing outside the destination
  changes, the destination is a directory reached without links, and, until the links of the archive are made,
  there is no link below it, so that no call is led elsewhere.
\<close>

section \<open>Keeping an invariant\<close>

definition keeps :: "(fs \<Rightarrow> bool) \<Rightarrow> ('e, 'a) io \<Rightarrow> bool" where
  "keeps I f \<longleftrightarrow> (\<forall>fs. I fs \<longrightarrow> I (snd (f fs)))"

lemma keepsI: "(\<And>fs. I fs \<Longrightarrow> I (snd (f fs))) \<Longrightarrow> keeps I f"
  and keepsD: "keeps I f \<Longrightarrow> I fs \<Longrightarrow> I (snd (f fs))"
  by (simp_all add: keeps_def)

lemma keeps_return [simp, intro]: "keeps I (io_return x)"
  and keeps_fail [simp, intro]: "keeps I (io_fail e)"
  by (simp_all add: keeps_def io_return_def io_fail_def)

lemma keeps_bind [intro]:
  assumes "keeps I f" and "\<And>x. keeps I (g x)"
  shows "keeps I (io_bind f g)"
proof (rule keepsI)
  fix fs assume "I fs"
  obtain r fs1 where r: "f fs = (r, fs1)" by (cases "f fs")
  then have "I fs1" using keepsD [OF assms(1) \<open>I fs\<close>] by simp
  then show "I (snd (io_bind f g fs))" using r keepsD [OF assms(2)] by (cases r) (simp_all add: io_bind_def)
qed

lemma keeps_map_err [intro]: "keeps I f \<Longrightarrow> keeps I (io_map_err h f)"
  unfolding keeps_def io_map_err_def by (auto split: prod.splits sum.splits)

lemma io_bind_Inr: "io_bind f g fs = (Inr y, fs') \<longleftrightarrow> (\<exists>x fs1. f fs = (Inr x, fs1) \<and> g x fs1 = (Inr y, fs'))"
  by (auto simp: io_bind_def split: prod.splits sum.splits)

lemma io_map_err_Inr: "io_map_err h f fs = (Inr x, fs') \<longleftrightarrow> f fs = (Inr x, fs')"
  by (auto simp: io_map_err_def split: prod.splits sum.splits)

section \<open>Names\<close>

lemma safe_plain:
  assumes "\<not> unsafePath name"
  shows "plain_path name"
  using assms canonical_iff_plain [of name] by (auto simp: unsafePath_def Let_def split: if_splits)

lemma plain_no_up: "list_all plain p \<Longrightarrow> ''..'' \<notin> set p"
  by (auto simp: list_all_iff plain_def)

lemma path_join_single: "list_all plain root \<Longrightarrow> plain c \<Longrightarrow> slash \<notin> set c \<Longrightarrow> path_join root c = root @ [c]"
  by (simp add: path_join_plain plain_path_def split_on_single)

lemma path_rel_append: "path_rel root (root @ cs) = cs"
proof -
  have "longest_common_prefix root (root @ cs) = root"
    by (metis longest_common_prefix_max_prefix longest_common_prefix_prefix1 prefixI prefix_order.antisym prefix_order.refl)
  then show ?thesis by (simp add: path_rel_def)
qed

definition comps :: "string list \<Rightarrow> bool" where
  "comps cs \<longleftrightarrow> (\<forall>c \<in> set cs. plain c \<and> slash \<notin> set c)"

lemma comps_plain: "comps cs \<Longrightarrow> list_all plain cs"
  by (simp add: comps_def list_all_iff)

lemma comps_simps [simp]: "comps []" "comps (c # cs) \<longleftrightarrow> plain c \<and> slash \<notin> set c \<and> comps cs" "comps (as @ bs) \<longleftrightarrow> comps as \<and> comps bs"
  by (auto simp: comps_def)

lemma comps_butlast: "comps p \<Longrightarrow> comps (butlast p)"
  by (auto simp: comps_def dest: in_set_butlastD)

lemma comps_split: "plain_path name \<Longrightarrow> comps (split_on slash name)"
  using split_on_no_sep by (auto simp: comps_def plain_path_def list_all_iff)

section \<open>Directories on the way\<close>

text \<open>\<open>safeParents\<close> makes directories on its way only, and when it succeeds the way is one of real directories.\<close>

lemma safe_walk_spec:
  assumes "comps (current @ parts)" and "real_path fs current" and "I fs"
    and "\<And>q fs. I fs \<Longrightarrow> strict_prefix current q \<Longrightarrow> prefix q (current @ parts) \<Longrightarrow> node fs q = None \<Longrightarrow> real_path fs (butlast q) \<Longrightarrow> I (fs_set q (Dir 448) fs)"
    and "safe_walk priv current parts fs = (r, fs')"
  shows "I fs' \<and> (r = Inr () \<longrightarrow> real_path fs' (current @ parts))"
  using assms
proof (induction parts arbitrary: current fs)
  case (Cons c cs)
  have c: "plain c" "slash \<notin> set c" and cur: "comps current" "comps cs" using Cons.prems(1) by simp_all
  then have j: "path_join current c = current @ [c]" by (intro path_join_single comps_plain)
  have pl: "list_all plain (current @ [c])" using c cur by (simp add: comps_plain)
  have nl: "no_links fs (butlast (current @ [c]))" using real_no_links [OF Cons.prems(2)] by simp
  have I': "I (fs_set q (Dir 448) fs)" if "I fs" "strict_prefix (current @ [c]) q" "prefix q ((current @ [c]) @ cs)" "node fs q = None" "real_path fs (butlast q)" for q fs
  proof (rule Cons.prems(4) [OF that(1) _ _ that(4,5)])
    show "strict_prefix current q" using that(2) by (rule prefix_order.le_less_trans [rotated]) simp
    show "prefix q (current @ c # cs)" using that(3) by simp
  qed
  have step: "I fs' \<and> (r = Inr () \<longrightarrow> real_path fs' ((current @ [c]) @ cs))"
    if "real_path fs1 (current @ [c])" "I fs1" "safe_walk priv (current @ [c]) cs fs1 = (r, fs')" for fs1
    by (rule Cons.IH [OF _ that(1,2) I' that(3)]) (use Cons.prems(1) in simp_all)
  have sw: "safe_walk priv current (c # cs) fs = (case os_lstat priv (current @ [c]) fs of
      Inl ErrNotExist \<Rightarrow> (case os_create priv (current @ [c]) (Dir 448) fs of (Inl _, fs1) \<Rightarrow> (Inl ''mkdir'', fs1) | (Inr _, fs1) \<Rightarrow> safe_walk priv (current @ [c]) cs fs1)
    | Inl _ \<Rightarrow> (Inl ''lstat'', fs) | Inr (Dir _) \<Rightarrow> safe_walk priv (current @ [c]) cs fs | Inr _ \<Rightarrow> (Inl ''unsafe archive parent'', fs))"
    using c(1) by (simp add: j plain_def Let_def)
  show ?case
  proof (cases "os_lstat priv (current @ [c]) fs")
    case (Inr n)
    then have n: "node fs (current @ [c]) = Some n" by (rule os_lstat_no_links [OF pl nl])
    show ?thesis
    proof (cases n)
      case (Dir m)
      then have "real_path fs (current @ [c])" using Cons.prems(2) n by (simp add: real_path_snoc)
      then show ?thesis using step [of fs] Cons.prems(3,5) Inr Dir sw by simp
    qed (use Cons.prems(3,5) Inr sw in auto)
  next
    case (Inl e)
    show ?thesis
    proof (cases "e = ErrNotExist")
      case True
      from pl nl show ?thesis
      proof (cases rule: os_create_no_links [of "current @ [c]" fs priv "Dir 448"])
        case (idle e')
        then show ?thesis using Cons.prems(3,5) Inl True sw by auto
      next
        case made
        have "node fs (current @ [c]) = None" using made(3) by simp
        then have I1: "I (fs_set (current @ [c]) (Dir 448) fs)"
          using Cons.prems(2,3) by (intro Cons.prems(4)) (simp_all add: strict_prefix_def)
        have "real_path (fs_set (current @ [c]) (Dir 448) fs) (current @ [c])"
          using Cons.prems(2) by (auto simp: real_path_def node_set prefix_snoc)
        then show ?thesis using step I1 made(1) Cons.prems(5) Inl True sw by simp
      qed
    next
      case False
      then show ?thesis using Cons.prems(3,5) Inl sw by (cases e) auto
    qed
  qed
qed simp

lemma safeParents_spec:
  assumes "comps dest" and "comps q" and "prefix dest q" and "real_path fs dest" and "I fs"
    and "\<And>p fs. I fs \<Longrightarrow> strict_prefix dest p \<Longrightarrow> prefix p q \<Longrightarrow> node fs p = None \<Longrightarrow> real_path fs (butlast p) \<Longrightarrow> I (fs_set p (Dir 448) fs)"
    and "safeParents priv dest q fs = (r, fs')"
  shows "I fs' \<and> (r = Inr () \<longrightarrow> real_path fs' q)"
proof -
  obtain cs where q: "q = dest @ cs" using assms(3) by (auto simp: prefix_def)
  have "within dest q" using within_iff [OF plain_no_up [OF comps_plain [OF assms(2)]]] assms(3) by simp
  then have "safe_walk priv dest cs fs = (r, fs')" using assms(7) by (simp add: safeParents_def q path_rel_append)
  from safe_walk_spec [where I = I, OF _ assms(4,5) _ this] assms(2,6) show ?thesis by (simp add: q)
qed

section \<open>Confinement\<close>

definition outside_same :: "fpath \<Rightarrow> fs \<Rightarrow> fs \<Rightarrow> bool" where
  "outside_same dest fs0 fs \<longleftrightarrow> (\<forall>p. \<not> strict_prefix dest p \<longrightarrow> node fs p = node fs0 p)"

definition linkless :: "fpath \<Rightarrow> fs \<Rightarrow> bool" where
  "linkless dest fs \<longleftrightarrow> (\<forall>p t. prefix dest p \<longrightarrow> node fs p \<noteq> Some (Link t))"

definition sealed :: "fpath \<Rightarrow> fs \<Rightarrow> fs \<Rightarrow> bool" where
  "sealed dest fs0 fs \<longleftrightarrow> outside_same dest fs0 fs \<and> real_path fs dest"

definition hard_sealed :: "fpath \<Rightarrow> fs \<Rightarrow> fs \<Rightarrow> bool" where
  "hard_sealed dest fs0 fs \<longleftrightarrow> sealed dest fs0 fs \<and> linkless dest fs"

lemma prefix_cases: "prefix p d \<Longrightarrow> strict_prefix d p \<Longrightarrow> False"
  by (meson prefix_order.leD)

lemma sealed_set:
  assumes "sealed dest fs0 fs" and "strict_prefix dest p"
  shows "sealed dest fs0 (fs_set p n fs)"
proof -
  have p: "p \<noteq> []" using assms(2) by auto
  have "node (fs_set p n fs) q = node fs q" if "\<not> strict_prefix dest q" for q using that assms(2) p by (auto simp: node_set)
  moreover have "\<not> strict_prefix dest q" if "prefix q dest" for q using that prefix_cases by blast
  ultimately show ?thesis using assms(1) by (auto simp: sealed_def outside_same_def real_path_def)
qed

lemma hard_sealed_set:
  assumes "hard_sealed dest fs0 fs" and "strict_prefix dest p" and "\<And>t. n \<noteq> Link t"
  shows "hard_sealed dest fs0 (fs_set p n fs)"
proof -
  have p: "p \<noteq> []" using assms(2) by auto
  show ?thesis using assms sealed_set [OF _ assms(2)] by (auto simp: hard_sealed_def linkless_def node_set [OF p])
qed

lemma hard_sealed_no_links:
  assumes "hard_sealed dest fs0 fs" and "prefix dest p"
  shows "no_links fs p"
  unfolding no_links_def
proof (intro allI impI notI)
  fix q t assume q: "prefix q p" "node fs q = Some (Link t)"
  have "prefix q dest \<or> prefix dest q" using assms(2) q(1) by (rule prefix_same_cases [rotated])
  then show False using assms(1) q(2) by (auto simp: hard_sealed_def sealed_def linkless_def real_path_def)
qed

text \<open>A target below the destination: the calls on it.\<close>

lemma below_butlast:
  assumes "strict_prefix dest p"
  shows "prefix dest (butlast p)"
proof -
  obtain c cs where "p = dest @ c # cs" using assms by (auto elim!: strict_prefixE')
  then show ?thesis by (simp add: butlast_append)
qed

lemma keeps_create:
  assumes "comps p" and "strict_prefix dest p" and "\<And>t. n \<noteq> Link t"
  shows "keeps (hard_sealed dest fs0) (os_create priv p n)"
proof (rule keepsI)
  fix fs assume I: "hard_sealed dest fs0 fs"
  have "no_links fs (butlast p)" using hard_sealed_no_links [OF I below_butlast [OF assms(2)]] .
  with comps_plain [OF assms(1)] show "hard_sealed dest fs0 (snd (os_create priv p n fs))"
    by (cases rule: os_create_no_links [of p fs priv n]) (use I assms(2,3) hard_sealed_set in auto)
qed

lemma set_mode_Link [simp]: "set_mode m n = Link t \<longleftrightarrow> n = Link t"
  by (cases n) (auto simp: set_mode_def)

lemma keeps_chmod:
  assumes "comps p" and "strict_prefix dest p"
  shows "keeps (hard_sealed dest fs0) (os_chmod priv p m)"
proof (rule keepsI)
  fix fs assume I: "hard_sealed dest fs0 fs"
  have below: "prefix dest p" using assms(2) by auto
  from comps_plain [OF assms(1)] hard_sealed_no_links [OF I below] show "hard_sealed dest fs0 (snd (os_chmod priv p m fs))"
  proof (cases rule: os_chmod_no_links [of p fs priv m])
    case (made n)
    have "set_mode m n \<noteq> Link t" for t using I made(3) below by (auto simp: hard_sealed_def linkless_def)
    then show ?thesis using made(1) hard_sealed_set [OF I assms(2)] by simp
  qed (use I in simp)
qed

lemma keeps_mkdirall:
  assumes "comps p" and "strict_prefix dest p"
  shows "keeps (hard_sealed dest fs0) (os_mkdirall priv p m)"
proof (rule keepsI)
  fix fs assume I: "hard_sealed dest fs0 fs"
  show "hard_sealed dest fs0 (snd (os_mkdirall priv p m fs))"
  proof (rule os_mkdirall_keeps [where I = "hard_sealed dest fs0", OF comps_plain [OF assms(1)] I])
    show "no_links fs p" if "hard_sealed dest fs0 fs" for fs using hard_sealed_no_links [OF that] assms(2) by auto
    show "hard_sealed dest fs0 (fs_set q (Dir m) fs)"
      if h: "hard_sealed dest fs0 fs" "prefix q p" "q \<noteq> []" "node fs q = None" for q fs
    proof (rule hard_sealed_set [OF h(1)])
      have "\<not> prefix q dest" using h(1,4) by (auto simp: hard_sealed_def sealed_def real_path_def)
      then show "strict_prefix dest q" using prefix_same_cases [of q p dest] h(2) assms(2) by (auto simp: strict_prefix_def)
    qed simp
  qed
qed

lemma keeps_safeParents:
  assumes "comps dest" and "comps q" and "prefix dest q"
  shows "keeps (hard_sealed dest fs0) (safeParents priv dest q)"
proof (rule keepsI)
  fix fs assume I: "hard_sealed dest fs0 fs"
  obtain r fs' where s: "safeParents priv dest q fs = (r, fs')" by (cases "safeParents priv dest q fs")
  have real: "real_path fs dest" using I by (simp add: hard_sealed_def sealed_def)
  have "hard_sealed dest fs0 fs' \<and> (r = Inr () \<longrightarrow> real_path fs' q)"
    by (rule safeParents_spec [where I = "hard_sealed dest fs0", OF assms real I _ s]) (use hard_sealed_set in auto)
  then show "hard_sealed dest fs0 (snd (safeParents priv dest q fs))" using s by simp
qed

lemma target_below:
  assumes "comps dest" and "\<not> unsafePath name"
  shows "path_join dest name = dest @ split_on slash name" and "comps (path_join dest name)" and "strict_prefix dest (path_join dest name)"
proof -
  note pl = safe_plain [OF assms(2)]
  show j: "path_join dest name = dest @ split_on slash name" using path_join_plain [OF comps_plain [OF assms(1)] pl] .
  show "comps (path_join dest name)" using assms(1) comps_split [OF pl] by (simp add: j)
  show "strict_prefix dest (path_join dest name)" by (simp add: j strict_prefix_def)
qed

lemma keeps_snapshot_entry:
  assumes "comps dest"
  shows "keeps (hard_sealed dest fs0) (snapshot_entry priv lim expected dest h x)"
proof (cases "unsafePath (TName h)")
  case True
  then show ?thesis by (simp add: snapshot_entry_def Let_def)
next
  case False
  note t = target_below [OF assms False]
  note rules = keeps_bind keeps_map_err keeps_create [OF t(2,3)] keeps_chmod [OF t(2,3)] keeps_mkdirall [OF t(2,3)]
    keeps_safeParents [OF assms comps_butlast [OF t(2)] below_butlast [OF t(3)]]
  have "keeps (hard_sealed dest fs0) (snapshot_file priv lim expected (path_join dest (TName h)) h y)" for y
    unfolding snapshot_file_def Let_def by (auto intro!: rules)
  then show ?thesis unfolding snapshot_entry_def Let_def by (auto intro!: rules split: tar_type.split)
qed

lemma keeps_snapshot_loop: "comps dest \<Longrightarrow> keeps (hard_sealed dest fs0) (snapshot_loop priv lim expected dest hs x)"
  by (induction hs arbitrary: x) (auto intro!: keeps_bind keeps_snapshot_entry)

text \<open>Making the links: the parents of each are real directories, so no earlier link leads elsewhere. An invariant
  that new directories and the new links themselves keep is kept.\<close>

definition grows :: "fpath \<Rightarrow> (fs \<Rightarrow> bool) \<Rightarrow> (fpath \<Rightarrow> fnode \<Rightarrow> bool) \<Rightarrow> bool" where
  "grows dest I new \<longleftrightarrow> (\<forall>fs. I fs \<longrightarrow> real_path fs dest) \<and>
     (\<forall>fs p n. I fs \<longrightarrow> strict_prefix dest p \<longrightarrow> node fs p = None \<longrightarrow> real_path fs (butlast p) \<longrightarrow> n = Dir 448 \<or> new p n \<longrightarrow> I (fs_set p n fs))"

lemma make_link_keeps:
  assumes "comps dest" and "comps p" and "strict_prefix dest p" and "grows dest I new" and "new p n" and "I fs"
    and "io_bind (safeParents priv dest (butlast p)) (\<lambda>_. io_map_err h (os_create priv p n)) fs = (r, fs')"
  shows "I fs'"
proof -
  have real: "real_path fs dest" using assms(4,6) by (auto simp: grows_def)
  obtain r1 fs1 where s: "safeParents priv dest (butlast p) fs = (r1, fs1)" by (cases "safeParents priv dest (butlast p) fs")
  have s1: "I fs1 \<and> (r1 = Inr () \<longrightarrow> real_path fs1 (butlast p))"
    by (rule safeParents_spec [where I = I, OF assms(1) comps_butlast [OF assms(2)] below_butlast [OF assms(3)] real assms(6) _ s])
      (use assms(4) in \<open>auto simp: grows_def\<close>)
  show ?thesis
  proof (cases r1)
    case (Inl e)
    then show ?thesis using assms(7) s s1 by (auto simp: io_bind_def)
  next
    case (Inr u)
    then have rp: "real_path fs1 (butlast p)" using s1 by simp
    have b: "io_map_err h (os_create priv p n) fs1 = (r, fs')" using assms(7) s Inr by (simp add: io_bind_def)
    from comps_plain [OF assms(2)] real_no_links [OF rp] show ?thesis
    proof (cases rule: os_create_no_links [of p fs1 priv n])
      case (idle e)
      then show ?thesis using b s1 by (auto simp: io_map_err_def)
    next
      case made
      then have "fs' = fs_set p n fs1" using b by (auto simp: io_map_err_def)
      then show ?thesis using s1 rp made(3) assms(3-5) by (auto simp: grows_def)
    qed
  qed
qed

lemma io_bind_assoc: "io_bind (io_bind f g) h = io_bind f (\<lambda>x. io_bind (g x) h)"
  by (rule ext) (simp add: io_bind_def split: prod.splits sum.splits)

lemma make_links_keeps:
  assumes "comps dest" and "grows dest I new" and "\<And>p t. (p, t) \<in> set ls \<Longrightarrow> comps p \<and> strict_prefix dest p \<and> new p (Link t)" and "I fs"
  shows "I (snd (make_links priv dest ls fs))"
  using assms(3,4)
proof (induction ls arbitrary: fs)
  case (Cons l ls)
  obtain p t where l: "l = (p, t)" by (cases l)
  let ?f = "io_bind (safeParents priv dest (butlast p)) (\<lambda>_. io_map_err (\<lambda>_. ''symlink'') (os_create priv p (Link t)))"
  obtain r fs1 where r: "?f fs = (r, fs1)" by (cases "?f fs")
  have p: "comps p" "strict_prefix dest p" "new p (Link t)" using Cons.prems(1) [of p t] l by simp_all
  have s1: "I fs1" by (rule make_link_keeps [OF assms(1) p(1,2) assms(2) p(3) Cons.prems(2) r])
  have "make_links priv dest (l # ls) fs = io_bind ?f (\<lambda>_. make_links priv dest ls) fs" by (simp add: l io_bind_assoc)
  then show ?case using r s1 Cons.IH [OF _ s1] Cons.prems(1) by (cases r) (auto simp: io_bind_def)
qed (simp add: io_return_def)

lemma sealed_grows: "grows dest (sealed dest fs0) (\<lambda>_ _. True)"
  unfolding grows_def using sealed_set by (auto simp: sealed_def)

end
