(* ===== verification/Link_Safety.thy ===== *)
theory Link_Safety
  imports Archive_Safety
begin

text \<open>
  Links of an extracted tree stay inside it. The checks of the source look at names only; the lemmas here
  relate them to what the operating system does when it follows the links.
\<close>

section \<open>Where a clean link leads\<close>

lemma clean_parts_ups_pop:
  assumes "list_all plain xs" and "k \<le> length xs"
  shows "clean_parts False xs (replicate k ''..'' @ ys) = clean_parts False (drop k xs) ys"
  using assms
proof (induction k arbitrary: xs)
  case (Suc k)
  then obtain x xs' where "xs = x # xs'" by (cases xs) auto
  then show ?case using Suc by (simp add: plain_def)
qed simp

lemma clean_parts_ups_over:
  "clean_parts False (replicate j ''..'') (replicate k ''..'' @ ys) = clean_parts False (replicate (j + k) ''..'') ys"
proof (induction k arbitrary: j)
  case (Suc k)
  have "clean_parts False (replicate j ''..'') (''..'' # replicate k ''..'' @ ys) = clean_parts False (replicate (Suc j) ''..'') (replicate k ''..'' @ ys)"
    by (cases j) simp_all
  then show ?case using Suc.IH [of "Suc j"] by simp
qed simp

lemma clean_parts_escape:
  assumes "list_all plain xs" and "list_all plain gs" and "length xs < k"
  shows "clean_parts False [] (xs @ replicate k ''..'' @ gs) = replicate (k - length xs) ''..'' @ gs"
proof -
  have "replicate k ''..'' = replicate (length xs) ''..'' @ replicate (k - length xs) ''..''"
    using assms(3) by (simp flip: replicate_add)
  then have "clean_parts False [] (xs @ replicate k ''..'' @ gs) = clean_parts False (rev xs) (replicate (length xs) ''..'' @ replicate (k - length xs) ''..'' @ gs)"
    using assms(1) by (simp add: clean_parts_append_plain)
  also have "\<dots> = clean_parts False [] (replicate (k - length xs) ''..'' @ gs)"
    using assms(1) by (subst clean_parts_ups_pop) (simp_all add: list_all_iff)
  also have "\<dots> = replicate (k - length xs) ''..'' @ gs"
    using clean_parts_ups_over [of 0 "k - length xs" gs] assms(2) by (simp add: clean_parts_plain)
  finally show ?thesis .
qed

text \<open>A clean relative target climbs first and then names plain components.\<close>

lemma clean_target:
  assumes "t \<noteq> ''''" and "\<not> path_is_abs t" and "path_clean t = t" and "t \<noteq> ''.''"
  obtains k gs where "split_on slash t = replicate k ''..'' @ gs" "list_all plain gs"
proof -
  define ws where "ws = clean_parts False [] (split_on slash t)"
  have ws: "ws \<noteq> []" "t = join_with slash ws" using assms by (auto simp: path_clean_def ws_def Let_def split: if_splits)
  have "set ws \<subseteq> set (split_on slash t)" unfolding ws_def using clean_parts_subset [of False "[]" "split_on slash t"] by simp
  then have sp: "split_on slash t = ws" using ws split_join [of ws slash] split_on_no_sep [of _ slash t] by auto
  obtain ds gs where g: "ws = ds @ gs" "set ds \<subseteq> {''..''}" "list_all plain gs"
    unfolding ws_def using clean_parts_shape [of "[]" "[]" "[]" "split_on slash t"] by auto
  have "ds = replicate (length ds) ''..''" using g(2) by (intro replicate_eqI) auto
  then show thesis using that sp g by metis
qed

lemma path_clean_parts:
  assumes "\<not> path_is_abs p" and "p \<noteq> ''''"
  shows "path_clean p = (let ws = clean_parts False [] (split_on slash p) in if ws = [] then ''.'' else join_with slash ws)"
  using assms by (simp add: path_clean_def Let_def)

lemma dropWhile_append_sep: "c \<notin> set w \<Longrightarrow> dropWhile (\<lambda>x. x \<noteq> c) (rev (p @ c # w)) = rev (p @ [c])"
  by (induction w rule: rev_induct) auto

lemma path_dir_plain:
  assumes "plain_path name"
  shows "path_dir name = (if butlast (split_on slash name) = [] then ''.'' else join_with slash (butlast (split_on slash name)))"
proof -
  let ?ns = "split_on slash name"
  have name: "name = join_with slash ?ns" and ne: "?ns \<noteq> []" by simp_all
  have last: "slash \<notin> set (last ?ns)" using split_on_no_sep [OF last_in_set [OF ne]] .
  have split: "?ns = butlast ?ns @ [last ?ns]" using ne by simp
  show ?thesis
  proof (cases "butlast ?ns = []")
    case True
    then have "name = last ?ns" using name split by (metis append_Nil join_with.simps(2))
    then have "dropWhile (\<lambda>x. x \<noteq> slash) (rev name) = []" using last by (simp add: dropWhile_eq_Nil_conv) (metis)
    then show ?thesis using True by (simp add: path_dir_def path_clean_def)
  next
    case False
    let ?d = "join_with slash (butlast ?ns)"
    have pl: "list_all plain (butlast ?ns)" using assms by (auto simp: plain_path_def list_all_iff dest: in_set_butlastD)
    have "name = ?d @ slash # last ?ns" using name split join_append [OF False, of "[last ?ns]" slash] by (metis join_with.simps(2) list.distinct(1))
    then have "rev (dropWhile (\<lambda>x. x \<noteq> slash) (rev name)) = ?d @ [slash]" using dropWhile_append_sep [OF last] by (metis rev_rev_ident)
    moreover have sp: "split_on slash (?d @ [slash]) = butlast ?ns @ ['''']"
      using split_on_sep_append [of slash ?d "[]"] split_join [OF False, of slash] split_on_no_sep by (metis in_set_butlastD split_on.simps(1))
    moreover have "\<not> path_is_abs (?d @ [slash])"
      using sp pl False by (cases "butlast ?ns") (auto simp: path_is_abs_split plain_def)
    moreover have "clean_parts False [] (butlast ?ns @ ['''']) = butlast ?ns" using pl by (simp add: clean_parts_append_plain)
    ultimately show ?thesis using False by (simp add: path_dir_def path_clean_parts)
  qed
qed

lemma up_join:
  assumes "list_all plain gs" and "\<And>w. w \<in> set gs \<Longrightarrow> slash \<notin> set w" and "0 < k"
  shows "split_on slash (join_with slash (replicate k ''..'' @ gs)) = replicate k ''..'' @ gs"
    and "path_clean (join_with slash (replicate k ''..'' @ gs)) = join_with slash (replicate k ''..'' @ gs)"
proof -
  let ?ws = "replicate k ''..'' @ gs"
  show sp: "split_on slash (join_with slash ?ws) = ?ws" using assms(2,3) by (intro split_join) (auto simp: slash_def)
  have "\<not> path_is_abs (join_with slash ?ws)" unfolding path_is_abs_split sp using assms(3) by (cases k) auto
  moreover have "join_with slash ?ws \<noteq> []"
  proof
    assume "join_with slash ?ws = []"
    then have "?ws = [[]]" using sp by simp
    then show False using assms(3) by (cases k) auto
  qed
  moreover have "clean_parts False [] ?ws = ?ws" using clean_parts_escape [of "[]" gs k] assms(1,3) by simp
  ultimately show "path_clean (join_with slash ?ws) = join_with slash ?ws" using sp assms(3) by (simp add: path_clean_parts)
qed

lemma joined_parts:
  assumes "plain_path name" and "\<not> path_is_abs t" and "t \<noteq> ''''"
  shows "path_join2 (path_dir name) t =
    (let ws = clean_parts False [] (butlast (split_on slash name) @ split_on slash t) in if ws = [] then ''.'' else join_with slash ws)"
proof (cases "butlast (split_on slash name) = []")
  case True
  have "path_join2 ''.'' t = path_clean (''.'' @ slash # t)" by (simp add: path_join2_def)
  moreover have "split_on slash (''.'' @ slash # t) = ''.'' # split_on slash t" by (subst split_on_append) (simp_all add: slash_def)
  moreover have "\<not> path_is_abs (''.'' @ slash # t)" by (simp add: path_is_abs_def has_prefix_def)
  ultimately show ?thesis using True by (simp add: path_dir_plain [OF assms(1)] path_clean_parts)
next
  case False
  let ?bs = "butlast (split_on slash name)"
  let ?d = "join_with slash ?bs"
  have nosep: "\<And>w. w \<in> set ?bs \<Longrightarrow> slash \<notin> set w" using split_on_no_sep by (metis in_set_butlastD)
  have pl: "list_all plain ?bs" using assms(1) by (auto simp: plain_path_def list_all_iff dest: in_set_butlastD)
  have spd: "split_on slash ?d = ?bs" using split_join [OF False nosep] by simp
  have ne: "?d \<noteq> ''''"
  proof
    assume "?d = ''''"
    then have "?bs = ['''']" using spd by simp
    then show False using pl by (simp add: plain_def)
  qed
  have sp: "split_on slash (?d @ slash # t) = ?bs @ split_on slash t" by (simp add: split_on_sep_append spd)
  moreover have "\<not> path_is_abs (?d @ slash # t)" using sp pl False by (cases ?bs) (auto simp: path_is_abs_split plain_def)
  ultimately show ?thesis using False ne by (simp add: path_dir_plain [OF assms(1)] path_join2_def path_clean_parts)
qed

text \<open>The checks bound how far a link climbs.\<close>

lemma link_climbs:
  assumes "\<not> unsafePath name" and "\<not> unsafeLink t" and "\<not> link_escapes name t"
  obtains k gs where "split_on slash t = replicate k ''..'' @ gs" "\<And>c. c \<in> set gs \<Longrightarrow> c \<noteq> ''..''"
    "k < length (split_on slash name)" "\<not> path_is_abs t"
proof (cases "t = ''.''")
  case True
  then show thesis using that [of 0 "[''.'']"] by (simp add: path_is_abs_def has_prefix_def slash_def)
next
  case False
  have t: "t \<noteq> ''''" "\<not> path_is_abs t" "path_clean t = t" using assms(2) by (auto simp: unsafeLink_def)
  obtain k gs where g: "split_on slash t = replicate k ''..'' @ gs" "list_all plain gs" using clean_target [OF t False] .
  have nosep: "slash \<notin> set w" if "w \<in> set gs" for w using split_on_no_sep [of w slash t] g(1) that by simp
  note pl = safe_plain [OF assms(1)]
  let ?bs = "butlast (split_on slash name)"
  have bs: "list_all plain ?bs" using pl by (auto simp: plain_path_def list_all_iff dest: in_set_butlastD)
  have "k < length (split_on slash name)"
  proof (rule ccontr)
    assume "\<not> k < length (split_on slash name)"
    moreover have "0 < length (split_on slash name)" by simp
    ultimately have len: "length ?bs < k" unfolding length_butlast by linarith
    let ?ws = "replicate (k - length ?bs) ''..'' @ gs"
    have pos: "0 < k - length ?bs" using len by simp
    have "clean_parts False [] (?bs @ split_on slash t) = ?ws" unfolding g(1) using clean_parts_escape [OF bs g(2) len] .
    then have "path_join2 (path_dir name) t = join_with slash ?ws" using joined_parts [OF pl t(2,1)] pos by simp
    then have e: "link_end name t = join_with slash ?ws" using up_join(2) [OF g(2) nosep pos] by (simp add: link_end_def)
    have "split_on slash (link_end name t) = ?ws" unfolding e by (rule up_join(1) [OF g(2) nosep pos])
    moreover have "?ws = ''..'' # (replicate (k - length ?bs - 1) ''..'' @ gs)" using pos by (cases "k - length ?bs") simp_all
    ultimately show False using dotdot_head_prefix assms(3) by (auto simp: link_escapes_def)
  qed
  then show thesis using that [OF g(1)] g(2) t(2) by (auto simp: list_all_iff plain_def)
qed

section \<open>Following links\<close>

definition link_ok :: "fpath \<Rightarrow> fpath \<times> string \<Rightarrow> bool" where
  "link_ok dest l \<longleftrightarrow> (\<exists>name. fst l = dest @ split_on slash name \<and> \<not> unsafePath name \<and> \<not> unsafeLink (snd l) \<and> \<not> link_escapes name (snd l))"

definition good_links :: "fpath \<Rightarrow> fs \<Rightarrow> bool" where
  "good_links dest fs \<longleftrightarrow> (\<forall>p t. prefix dest p \<longrightarrow> node fs p = Some (Link t) \<longrightarrow> link_ok dest (p, t) \<and> real_path fs (butlast p))"

lemma butlast_inside:
  assumes "prefix dest cur" and "length dest < length cur"
  shows "prefix dest (butlast cur)"
  using assms by (metis below_butlast nat_less_le prefix_order.le_less)

lemma resolve_inside:
  assumes "good_links dest fs" and "real_path fs cur" and "prefix dest cur"
    and "cs = replicate k ''..'' @ gs" and "k \<le> length cur - length dest" and "\<And>c. c \<in> set gs \<Longrightarrow> c \<noteq> ''..''"
    and "resolve priv fs n cur cs = Inr r"
  shows "prefix dest r"
  using assms
proof (induction priv fs n cur cs arbitrary: k gs rule: resolve.induct)
  case (2 priv fs n cur c cs)
  obtain m where m: "node fs cur = Some (Dir m)" using "2.prems"(2) by (auto simp: real_path_def)
  have x: "x_ok priv m" using "2.prems"(7) m by (auto split: if_splits)
  show ?case
  proof (cases k)
    case (Suc j)
    then have c: "c = ''..''" "cs = replicate j ''..'' @ gs" using "2.prems"(4) by simp_all
    have "length dest < length cur" using Suc "2.prems"(5) by linarith
    then have "prefix dest (butlast cur)" using "2.prems"(3) by (intro butlast_inside)
    moreover have "real_path fs (butlast cur)" using real_path_prefix [OF "2.prems"(2) butlast_prefix] .
    moreover have "resolve priv fs n (butlast cur) cs = Inr r" using "2.prems"(7) m x c(1) by simp
    ultimately show ?thesis using m x c Suc "2.prems"(1,5,6) by (intro "2.IH"(2)) auto
  next
    case 0
    then have gs: "gs = c # cs" using "2.prems"(4) by simp
    then have c: "c \<noteq> ''..''" and up: "\<And>d. d \<in> set cs \<Longrightarrow> d \<noteq> ''..''" using "2.prems"(6) by auto
    show ?thesis
    proof (cases "c = '''' \<or> c = ''.''")
      case True
      then have "resolve priv fs n cur cs = Inr r" using "2.prems"(7) m x by simp
      then show ?thesis using m x True "2.prems"(1-3) up by (intro "2.IH"(1) [where k = 0]) auto
    next
      case False
      then obtain nd where nd: "node fs (cur @ [c]) = Some nd" using "2.prems"(7) m x c by (auto split: option.splits)
      have inside: "prefix dest (cur @ [c])" using "2.prems"(3) by simp
      show ?thesis
      proof (cases nd)
        case (Dir m')
        have "resolve priv fs n (cur @ [c]) cs = Inr r" using "2.prems"(7) m x c False nd Dir by simp
        moreover have "real_path fs (cur @ [c])" using "2.prems"(2) nd Dir by (simp add: real_path_snoc)
        ultimately show ?thesis using m x c False nd Dir inside "2.prems"(1) up by (intro "2.IH"(3) [where k = 0]) auto
      next
        case (Regular m' content)
        then have res: "resolve priv fs n (cur @ [c]) cs = Inr r" using "2.prems"(7) m x c False nd by simp
        show ?thesis
        proof (cases cs)
          case Nil
          then show ?thesis using res inside by simp
        next
          case (Cons a as)
          then show ?thesis using res nd Regular by simp
        qed
      next
        case (Link t)
        then obtain n' where n': "n = Suc n'" using "2.prems"(7) m x c False nd by (cases n) auto
        have "link_ok dest (cur @ [c], t)" using "2.prems"(1) inside nd Link by (simp add: good_links_def)
        then obtain name where name: "cur @ [c] = dest @ split_on slash name" "\<not> unsafePath name" "\<not> unsafeLink t" "\<not> link_escapes name t"
          by (auto simp: link_ok_def)
        obtain j hs where t: "split_on slash t = replicate j ''..'' @ hs" "\<And>d. d \<in> set hs \<Longrightarrow> d \<noteq> ''..''" "j < length (split_on slash name)" "\<not> path_is_abs t"
          using link_climbs [OF name(2-4)] by blast
        have "length cur + 1 = length dest + length (split_on slash name)" using arg_cong [OF name(1), of length] by simp
        then have "j \<le> length cur - length dest" using t(3) by linarith
        moreover have "resolve priv fs n' cur (split_on slash t @ cs) = Inr r" using "2.prems"(7) m x c False nd Link n' t(4) by simp
        ultimately show ?thesis using m x c False nd Link n' t "2.prems"(1-3) up
          by (intro "2.IH"(5) [where k = j and gs = "hs @ cs"]) auto
      qed
    qed
  qed
qed simp

section \<open>The links of an archive\<close>

lemma link_ok_below: "comps dest \<Longrightarrow> link_ok dest (p, t) \<Longrightarrow> comps p \<and> strict_prefix dest p"
  using comps_split safe_plain by (auto simp: link_ok_def strict_prefix_def)

lemma real_path_set: "real_path fs p \<Longrightarrow> node fs q = None \<Longrightarrow> real_path (fs_set q n fs) p"
  unfolding real_path_def by (metis node_Nil node_set option.distinct(1))

lemma good_links_set:
  assumes "good_links dest fs" and "node fs q = None" and "\<And>t. n = Link t \<Longrightarrow> link_ok dest (q, t) \<and> real_path fs (butlast q)"
  shows "good_links dest (fs_set q n fs)"
  unfolding good_links_def
proof (intro allI impI)
  fix p t assume p: "prefix dest p" "node (fs_set q n fs) p = Some (Link t)"
  have q: "q \<noteq> []" using assms(2) by auto
  show "link_ok dest (p, t) \<and> real_path (fs_set q n fs) (butlast p)"
  proof (cases "p = q")
    case True
    then have "n = Link t" using p(2) q by (simp add: node_set)
    then show ?thesis using assms(3) True real_path_set [OF _ assms(2)] by blast
  next
    case False
    then have "link_ok dest (p, t) \<and> real_path fs (butlast p)" using assms(1) p q by (simp add: good_links_def node_set)
    then show ?thesis using real_path_set [OF _ assms(2)] by blast
  qed
qed

lemma good_grows: "grows dest (\<lambda>fs. sealed dest fs0 fs \<and> good_links dest fs) (\<lambda>p n. \<exists>t. n = Link t \<and> link_ok dest (p, t))"
  unfolding grows_def using sealed_set good_links_set by (fastforce simp: sealed_def)

lemma snapshot_entry_links:
  assumes "comps dest" and "\<forall>l \<in> set (xLinks x). link_ok dest l" and "snapshot_entry priv lim expected dest h x fs = (Inr y, fs')"
  shows "\<forall>l \<in> set (xLinks y). link_ok dest l"
proof -
  have safe: "\<not> unsafePath (TName h)" using assms(3) by (auto simp: snapshot_entry_def Let_def io_fail_def split: if_splits)
  have same: "xLinks y = xLinks z" if "snapshot_file priv lim expected q h z f = (Inr y, f')" for q z f f'
    using that by (auto simp: snapshot_file_def Let_def io_bind_Inr io_fail_def io_return_def split: if_splits)
  have new: "link_ok dest (path_join dest (TName h), TLinkname h)" if "\<not> unsafeLink (TLinkname h)" "\<not> link_escapes (TName h) (TLinkname h)"
    using that safe target_below(1) [OF assms(1) safe] by (auto simp: link_ok_def)
  show ?thesis using assms(2,3) same new
    by (auto simp: snapshot_entry_def Let_def io_bind_Inr io_fail_def io_return_def split: if_splits tar_type.splits dest!: same)
qed

lemma snapshot_loop_links:
  assumes "comps dest" and "\<forall>l \<in> set (xLinks x). link_ok dest l" and "snapshot_loop priv lim expected dest hs x fs = (Inr y, fs')"
  shows "\<forall>l \<in> set (xLinks y). link_ok dest l"
  using assms(2,3)
proof (induction hs arbitrary: x fs)
  case (Cons h hs)
  then obtain z fs1 where z: "snapshot_entry priv lim expected dest h x fs = (Inr z, fs1)" "snapshot_loop priv lim expected dest hs z fs1 = (Inr y, fs')"
    by (auto simp: io_bind_Inr)
  then show ?case using Cons.IH snapshot_entry_links [OF assms(1) Cons.prems(1) z(1)] by blast
qed (simp add: io_return_def)

lemma linkless_good: "linkless dest fs \<Longrightarrow> good_links dest fs"
  by (auto simp: linkless_def good_links_def)

text \<open>Whatever an extraction does, and also when it fails, its file system is one in which nothing outside the
  destination has changed and every link below the destination is safe.\<close>

lemma snapshot_Extract_sealed:
  assumes dest: "comps dest" and real: "real_path fs dest" and none: "linkless dest fs"
  shows "sealed dest fs (snd (snapshot_Extract priv sha encode unpack lim blob dest expected fs)) \<and>
    good_links dest (snd (snapshot_Extract priv sha encode unpack lim blob dest expected fs))" (is "?I (snd (?f fs))")
proof -
  have s0: "sealed dest fs fs" "hard_sealed dest fs fs" using real none by (simp_all add: sealed_def hard_sealed_def outside_same_def)
  have I0: "?I fs" using s0(1) none by (simp add: linkless_good)
  let ?x0 = "\<lparr> xLinks = [], xEntries = 0, xTotal = 0 \<rparr>"
  {
    fix hs bad
    obtain r fs1 where r: "snapshot_loop priv lim expected dest hs ?x0 fs = (r, fs1)" by (cases "snapshot_loop priv lim expected dest hs ?x0 fs")
    have h1: "hard_sealed dest fs fs1" using keepsD [OF keeps_snapshot_loop [OF dest] s0(2)] r by (metis snd_conv)
    then have I1: "?I fs1" by (simp add: hard_sealed_def linkless_good)
    have links: "?I (snd (make_links priv dest (xLinks x) fs1))" if "r = Inr x" for x
    proof (rule make_links_keeps [OF dest good_grows _ I1])
      fix p t assume "(p, t) \<in> set (xLinks x)"
      moreover have "\<forall>l \<in> set (xLinks x). link_ok dest l" using snapshot_loop_links [OF dest _ r [unfolded that]] by simp
      ultimately show "comps p \<and> strict_prefix dest p \<and> (\<exists>t'. Link t = Link t' \<and> link_ok dest (p, t'))" using link_ok_below [OF dest] by auto
    qed
    have "?I (snd (io_bind (snapshot_loop priv lim expected dest hs ?x0) (\<lambda>x. case bad of Some e \<Rightarrow> io_fail e
      | None \<Rightarrow> if xEntries x \<noteq> SnapEntryCount expected \<or> xTotal x \<noteq> SnapLogicalSize expected then io_fail ''snapshot metadata mismatch''
          else io_bind (make_links priv dest (xLinks x)) (\<lambda>_ fs. (Verify priv sha encode lim dest (SourceDigest expected) fs, fs))) fs))"
      using I1 links r by (cases r) (auto simp: io_bind_def io_fail_def split: option.splits prod.splits sum.splits)
  }
  then show ?thesis using I0 unfolding snapshot_Extract_def
    by (auto simp: io_fail_def split: option.splits sum.splits if_splits)
qed

end
