(* ===== verification/Archive_Roundtrip.thy ===== *)
theory Archive_Roundtrip
  imports Link_Safety
begin

text \<open>
  Extracting what was captured: on an empty destination the extraction of a captured archive succeeds and
  rebuilds the source tree, without its \<open>.git\<close> directories.
\<close>

section \<open>Calls on real directories\<close>

text \<open>Every directory on the way can be searched.\<close>

definition open_path :: "bool \<Rightarrow> fs \<Rightarrow> fpath \<Rightarrow> bool" where
  "open_path priv fs p \<longleftrightarrow> (\<forall>q. prefix q p \<longrightarrow> (\<exists>m. node fs q = Some (Dir m) \<and> x_ok priv m \<and> w_ok priv m))"

lemma open_real: "open_path priv fs p \<Longrightarrow> real_path fs p"
  by (auto simp: open_path_def real_path_def)

lemma open_prefix: "open_path priv fs p \<Longrightarrow> prefix q p \<Longrightarrow> open_path priv fs q"
  by (auto simp: open_path_def intro: prefix_order.trans)

lemma open_snoc: "open_path priv fs (p @ [c]) \<longleftrightarrow> open_path priv fs p \<and> (\<exists>m. node fs (p @ [c]) = Some (Dir m) \<and> x_ok priv m \<and> w_ok priv m)"
  by (auto simp: open_path_def prefix_snoc)

lemma resolve_open:
  assumes "comps cs" and "open_path priv fs cur" and "open_path priv fs (butlast (cur @ cs))" and "cs \<noteq> [] \<Longrightarrow> node fs (cur @ cs) = Some nd \<and> (\<forall>t. nd \<noteq> Link t)"
  shows "resolve priv fs n cur cs = Inr (cur @ cs)"
  using assms
proof (induction cs arbitrary: cur)
  case (Cons c cs)
  obtain m where m: "node fs cur = Some (Dir m)" "x_ok priv m" using Cons.prems(2) by (auto simp: open_path_def)
  have c: "c \<noteq> ''''" "c \<noteq> ''.''" "c \<noteq> ''..''" using Cons.prems(1) by (simp_all add: plain_def)
  show ?case
  proof (cases "cs = []")
    case True
    then show ?thesis using m c Cons.prems(4) by (cases nd) auto
  next
    case False
    have op: "open_path priv fs (cur @ [c])"
      by (rule open_prefix [OF Cons.prems(3)]) (use False in \<open>simp add: butlast_append\<close>)
    then obtain m' where "node fs (cur @ [c]) = Some (Dir m')" by (auto simp: open_path_def)
    then have "resolve priv fs n cur (c # cs) = resolve priv fs n (cur @ [c]) cs" using m c by simp
    also have "\<dots> = Inr ((cur @ [c]) @ cs)" using Cons.prems op by (intro Cons.IH) simp_all
    finally show ?thesis by simp
  qed
qed simp

lemma open_Nil: "open_path priv fs []"
  by (simp add: open_path_def x_ok_def w_ok_def)

lemma resolve_open_dir: "comps p \<Longrightarrow> open_path priv fs p \<Longrightarrow> resolve priv fs n [] p = Inr p"
proof -
  assume p: "comps p" "open_path priv fs p"
  obtain m where "node fs p = Some (Dir m)" using p(2) by (auto simp: open_path_def)
  then show ?thesis using resolve_open [OF p(1) open_Nil, of priv fs "Dir m" n] open_prefix [OF p(2) butlast_prefix] by simp
qed

lemma os_parent_open:
  assumes "comps p" and "open_path priv fs (butlast p)"
  obtains m where "os_parent priv p fs = Inr (butlast p, m)" "w_ok priv m" "x_ok priv m"
proof -
  obtain m where "node fs (butlast p) = Some (Dir m)" "x_ok priv m" "w_ok priv m" using assms(2) by (auto simp: open_path_def)
  then show thesis using that resolve_open_dir [OF comps_butlast [OF assms(1)] assms(2)] by (simp add: os_parent_def)
qed

lemma os_create_open:
  assumes "comps p" and "p \<noteq> []" and "open_path priv fs (butlast p)" and "node fs p = None"
  shows "os_create priv p n fs = (Inr (), fs_set p n fs)"
  by (rule os_parent_open [OF assms(1,3)]) (use assms(2,4) in \<open>simp add: os_create_def\<close>)

lemma fs_set_twice: "fs_set p n (fs_set p n' fs) = fs_set p n fs"
  by (simp add: fs_set_def)

lemma os_chmod_open:
  assumes "comps p" and "p \<noteq> []" and "open_path priv fs (butlast p)" and "node fs p = Some n" and "\<And>t. n \<noteq> Link t"
  shows "os_chmod priv p m fs = (Inr (), fs_set p (set_mode m n) fs)"
  using resolve_open [OF assms(1) open_Nil, of priv fs n] assms by (simp add: os_chmod_def)

lemma resolve_missing:
  assumes "comps p" and "p \<noteq> []" and "open_path priv fs (butlast p)" and "node fs p = None"
  shows "resolve priv fs n [] p = Inl ErrNotExist"
proof -
  have "resolve priv fs n cur (cs @ [c]) = Inl ErrNotExist"
    if "comps (cs @ [c])" "open_path priv fs (cur @ cs)" "node fs (cur @ cs @ [c]) = None" for cur cs c
    using that
  proof (induction cs arbitrary: cur)
    case Nil
    then show ?case by (auto simp: open_path_def plain_def)
  next
    case (Cons d cs)
    have "open_path priv fs cur" "open_path priv fs (cur @ [d])" using Cons.prems(2) by (auto intro: open_prefix)
    then obtain m m' where "node fs cur = Some (Dir m)" "x_ok priv m" "node fs (cur @ [d]) = Some (Dir m')" by (auto simp: open_path_def)
    then show ?case using Cons.IH [of "cur @ [d]"] Cons.prems by (auto simp: plain_def)
  qed
  from this [of "butlast p" "last p" "[]"] show ?thesis using assms by simp
qed

lemma os_mkdirall_open:
  assumes "comps p" and "p \<noteq> []" and "open_path priv fs (butlast p)" and "node fs p = None"
  shows "os_mkdirall priv p m fs = (Inr (), fs_set p (Dir m) fs)"
proof -
  obtain m' where "node fs (butlast p) = Some (Dir m')" using assms(3) by (auto simp: open_path_def)
  then have st: "os_stat priv (butlast p) fs = Inr (Dir m')" using resolve_open_dir [OF comps_butlast [OF assms(1)] assms(3)] by (simp add: os_stat_def)
  have "os_mkdirall priv (butlast p) m fs = (Inr (), fs)" by (subst os_mkdirall.simps) (simp add: st)
  moreover have "os_stat priv p fs = Inl ErrNotExist" using resolve_missing [OF assms] by (simp add: os_stat_def)
  ultimately show ?thesis using assms(2) os_create_open [OF assms] by (subst os_mkdirall.simps) simp
qed

lemma safe_walk_open:
  assumes "comps (current @ parts)" and "open_path priv fs (current @ parts)"
  shows "safe_walk priv current parts fs = (Inr (), fs)"
  using assms
proof (induction parts arbitrary: current)
  case (Cons c cs)
  have j: "path_join current c = current @ [c]" using Cons.prems(1) by (intro path_join_single comps_plain) simp_all
  have op: "open_path priv fs (current @ [c])" by (rule open_prefix [OF Cons.prems(2)]) simp
  then obtain m where m: "node fs (current @ [c]) = Some (Dir m)" by (auto simp: open_path_def)
  have op': "open_path priv fs (butlast (current @ [c]))" using open_prefix [OF op butlast_prefix] .
  have cc: "comps (current @ [c])" using Cons.prems(1) by simp
  obtain k where "os_parent priv (current @ [c]) fs = Inr (butlast (current @ [c]), k)" using os_parent_open [OF cc op'] by metis
  then have "os_lstat priv (current @ [c]) fs = Inr (Dir m)" using m by (simp add: os_lstat_def)
  then show ?case using Cons.IH [of "current @ [c]"] Cons.prems j by (simp add: plain_def Let_def)
qed simp

lemma safeParents_open:
  assumes "comps q" and "prefix dest q" and "open_path priv fs q"
  shows "safeParents priv dest q fs = (Inr (), fs)"
proof -
  obtain cs where q: "q = dest @ cs" using assms(2) by (auto simp: prefix_def)
  have "within dest q" using within_iff [OF plain_no_up [OF comps_plain [OF assms(1)]]] assms(2) by simp
  then show ?thesis using safe_walk_open [of dest cs priv fs] assms by (simp add: safeParents_def q path_rel_append)
qed

section \<open>What a scan returns\<close>

definition size_of :: "fs \<Rightarrow> fpath \<Rightarrow> int" where
  "size_of fs p = (case node fs p of Some (Regular m content) \<Rightarrow> int (length content) | _ \<Rightarrow> 0)"

definition entry_of :: "(string \<Rightarrow> string) \<Rightarrow> fpath \<Rightarrow> fs \<Rightarrow> fpath \<Rightarrow> Entry" where
  "entry_of sha root fs p =
    (case node fs p of
       Some (Regular m content) \<Rightarrow> \<lparr> EnPath = rel_name root p, EnType = KFile, EnMode = m, EnSize = int (length content), EnSHA256 = sha content, EnTarget = '''', EnHost = p \<rparr>
     | Some (Link target) \<Rightarrow> \<lparr> EnPath = rel_name root p, EnType = KSymlink, EnMode = 511, EnSize = 0, EnSHA256 = '''', EnTarget = target, EnHost = p \<rparr>
     | Some (Dir m) \<Rightarrow> \<lparr> EnPath = rel_name root p, EnType = KDirectory, EnMode = m, EnSize = 0, EnSHA256 = '''', EnTarget = '''', EnHost = p \<rparr>
     | None \<Rightarrow> \<lparr> EnPath = rel_name root p, EnType = KDirectory, EnMode = 0, EnSize = 0, EnSHA256 = '''', EnTarget = '''', EnHost = p \<rparr>)"

definition passes :: "bool \<Rightarrow> Limits \<Rightarrow> fpath \<Rightarrow> fs \<Rightarrow> fpath \<Rightarrow> bool" where
  "passes priv lim root fs p \<longleftrightarrow> int (length (rel_name root p)) \<le> MaxPathBytes lim \<and> \<not> unsafePath (rel_name root p) \<and> searchable priv fs (butlast p) \<and>
    (case node fs p of
       None \<Rightarrow> False
     | Some (Dir m) \<Rightarrow> r_ok priv m
     | Some (Regular m content) \<Rightarrow> int (length content) \<le> MaxFileBytes lim \<and> r_ok priv m
     | Some (Link target) \<Rightarrow> \<not> unsafeLink target \<and> \<not> link_escapes (rel_name root p) target)"

lemma size_of_nonneg [simp]: "0 \<le> size_of fs p"
  by (simp add: size_of_def split: option.splits fnode.splits)

lemma sum_sizes_nonneg: "0 \<le> sum_list (map (size_of fs) ps)"
  by (induction ps) auto

lemma scan_entry_iff:
  assumes "l0 \<le> MaxLogicalBytes lim"
  shows "scan_entry priv sha lim root fs p (es0, l0) = Inr acc \<longleftrightarrow>
    passes priv lim root fs p \<and> acc = (es0 @ [entry_of sha root fs p], l0 + size_of fs p) \<and>
    int (length es0) < MaxEntries lim \<and> l0 + size_of fs p \<le> MaxLogicalBytes lim"
  using assms
  by (auto simp: scan_entry_def passes_def entry_of_def size_of_def Let_def rbind_eq_Inr split: option.splits fnode.splits if_splits)

lemma scan_all_iff:
  assumes "l0 \<le> MaxLogicalBytes lim" and "int (length es0) \<le> MaxEntries lim"
  shows "scan_all priv sha lim root fs ps (es0, l0) = Inr (es, l) \<longleftrightarrow>
    (\<forall>p \<in> set ps. passes priv lim root fs p) \<and> es = es0 @ map (entry_of sha root fs) ps \<and> l = l0 + sum_list (map (size_of fs) ps) \<and>
    int (length es) \<le> MaxEntries lim \<and> l \<le> MaxLogicalBytes lim"
  using assms
proof (induction ps arbitrary: es0 l0)
  case Nil
  then show ?case by auto
next
  case (Cons p ps)
  let ?l = "l0 + size_of fs p" and ?es = "es0 @ [entry_of sha root fs p]"
  show ?case
  proof (cases "passes priv lim root fs p \<and> int (length es0) < MaxEntries lim \<and> ?l \<le> MaxLogicalBytes lim")
    case True
    then have "scan_entry priv sha lim root fs p (es0, l0) = Inr (?es, ?l)" using Cons.prems(1) by (simp add: scan_entry_iff)
    then have "scan_all priv sha lim root fs (p # ps) (es0, l0) = scan_all priv sha lim root fs ps (?es, ?l)" by simp
    also have "\<dots> = Inr (es, l) \<longleftrightarrow> (\<forall>p \<in> set ps. passes priv lim root fs p) \<and> es = ?es @ map (entry_of sha root fs) ps \<and>
        l = ?l + sum_list (map (size_of fs) ps) \<and> int (length es) \<le> MaxEntries lim \<and> l \<le> MaxLogicalBytes lim"
      using True by (intro Cons.IH) simp_all
    finally show ?thesis using True by (simp add: ac_simps)
  next
    case False
    then have "scan_entry priv sha lim root fs p (es0, l0) \<noteq> Inr acc" for acc using Cons.prems(1) by (auto simp: scan_entry_iff)
    moreover have "\<not> (passes priv lim root fs p \<and> int (length (es0 @ map (entry_of sha root fs) (p # ps))) \<le> MaxEntries lim \<and>
        l0 + sum_list (map (size_of fs) (p # ps)) \<le> MaxLogicalBytes lim)"
      using False sum_sizes_nonneg [of fs ps] by auto
    ultimately show ?thesis by (auto simp: rbind_eq_Inr)
  qed
qed

lemma scan_iff:
  assumes "validateLimits lim" and "node fs root = Some (Dir m)" and "r_ok priv m"
  shows "scan priv sha lim root fs = Inr (es, l) \<longleftrightarrow>
    (\<forall>p \<in> set (walk root fs). passes priv lim root fs p) \<and> es = sort_key EnPath (map (entry_of sha root fs) (walk root fs)) \<and>
    l = sum_list (map (size_of fs) (walk root fs)) \<and> int (length (walk root fs)) \<le> MaxEntries lim \<and> l \<le> MaxLogicalBytes lim"
proof -
  have "0 \<le> MaxLogicalBytes lim" "int (length ([] :: Entry list)) \<le> MaxEntries lim" using assms(1) by (simp_all add: validateLimits_def)
  note iff = scan_all_iff [OF this, of priv sha root fs "walk root fs"]
  show ?thesis
    using assms(2,3) by (auto simp: scan_def rbind_eq_Inr iff)
qed

section \<open>The paths of a tree\<close>

definition tree_ok :: "fpath \<Rightarrow> fs \<Rightarrow> bool" where
  "tree_ok root fs \<longleftrightarrow> distinct (map fst fs) \<and> (\<forall>p \<in> fst ` set fs. comps p \<and> p \<noteq> []) \<and>
     (\<forall>p. strict_prefix root p \<longrightarrow> node fs p \<noteq> None \<longrightarrow> (\<exists>m. node fs (butlast p) = Some (Dir m)))"

definition kept :: "fpath \<Rightarrow> fs \<Rightarrow> fpath \<Rightarrow> bool" where
  "kept root fs q \<longleftrightarrow> q \<noteq> [] \<and> node fs (root @ q) \<noteq> None \<and> \<not> git_skipped fs root (root @ q)"

lemma node_key: "p \<noteq> [] \<Longrightarrow> node fs p \<noteq> None \<longleftrightarrow> p \<in> fst ` set fs"
  by (simp add: node_def map_of_eq_None_iff)

lemma strict_prefix_append: "strict_prefix root (root @ q) \<longleftrightarrow> q \<noteq> []"
  by (auto simp: strict_prefix_def)

lemma walk_set: "set (walk root fs) = (\<lambda>q. root @ q) ` {q. kept root fs q}"
proof (intro equalityI subsetI)
  fix p assume "p \<in> set (walk root fs)"
  then have p: "strict_prefix root p" "p \<in> fst ` set fs" "\<not> git_skipped fs root p" by (auto simp: walk_def)
  then obtain q where q: "p = root @ q" "q \<noteq> []" by (auto simp: strict_prefix_def prefix_def)
  then have "kept root fs q" using p node_key [of p fs] by (simp add: kept_def)
  then show "p \<in> (\<lambda>q. root @ q) ` {q. kept root fs q}" using q by blast
next
  fix p assume "p \<in> (\<lambda>q. root @ q) ` {q. kept root fs q}"
  then obtain q where q: "p = root @ q" "kept root fs q" by blast
  then have "p \<in> fst ` set fs" using node_key [of p fs] by (simp add: kept_def)
  then show "p \<in> set (walk root fs)" using q by (auto simp: walk_def kept_def strict_prefix_append)
qed

lemma walk_distinct: "distinct (map fst fs) \<Longrightarrow> distinct (walk root fs)"
  by (simp add: walk_def)

text \<open>What holds a kept node is kept, and is a directory.\<close>

lemma git_skipped_iff: "git_skipped fs root p \<longleftrightarrow> (\<exists>q m. prefix q p \<and> strict_prefix root q \<and> last q = ''.git'' \<and> node fs q = Some (Dir m))"
proof -
  have "(case x of Some (Dir _) \<Rightarrow> True | _ \<Rightarrow> False) \<longleftrightarrow> (\<exists>m. x = Some (Dir m))" for x by (auto split: option.splits fnode.splits)
  then show ?thesis by (auto simp: git_skipped_def list_ex_iff in_set_prefixes)
qed

lemma git_skipped_prefix: "git_skipped fs root p \<Longrightarrow> prefix p p' \<Longrightarrow> git_skipped fs root p'"
  unfolding git_skipped_iff by (metis prefix_order.trans)

lemma tree_parent_dir:
  assumes "tree_ok root fs" and "node fs (root @ q @ cs) \<noteq> None" and "cs \<noteq> []"
  shows "\<exists>m. node fs (root @ q) = Some (Dir m)"
  using assms(2,3)
proof (induction cs rule: rev_induct)
  case (snoc c cs)
  have "strict_prefix root (root @ q @ cs @ [c])" by (simp add: strict_prefix_append)
  then have par: "\<exists>m. node fs (root @ q @ cs) = Some (Dir m)"
    using assms(1) snoc.prems(1) unfolding tree_ok_def by (metis append.assoc butlast_snoc)
  then show ?case using snoc.IH by (cases "cs = []") auto
qed simp

lemma kept_prefix:
  assumes "tree_ok root fs" and "kept root fs q" and "strict_prefix q' q" and "q' \<noteq> []"
  shows "kept root fs q' \<and> (\<exists>m. node fs (root @ q') = Some (Dir m))"
proof -
  obtain cs where q: "q = q' @ cs" "cs \<noteq> []" using assms(3) by (auto simp: strict_prefix_def prefix_def)
  have "\<exists>m. node fs (root @ q') = Some (Dir m)" by (rule tree_parent_dir [OF assms(1)]) (use assms(2) q in \<open>auto simp: kept_def\<close>)
  moreover have "\<not> git_skipped fs root (root @ q')" using assms(2) git_skipped_prefix [of fs root "root @ q'" "root @ q"] q by (auto simp: kept_def)
  ultimately show ?thesis using assms(4) by (auto simp: kept_def)
qed

section \<open>Rebuilding\<close>

definition hdr :: "fpath \<Rightarrow> fs \<Rightarrow> fpath \<Rightarrow> tar_header" where
  "hdr root fs q =
    (case node fs (root @ q) of
       Some (Regular m content) \<Rightarrow> \<lparr> TName = join_with slash q, TType = TypeReg, TMode = m, TSize = int (length content), TLinkname = '''', TContent = content \<rparr>
     | Some (Link t) \<Rightarrow> \<lparr> TName = join_with slash q, TType = TypeSymlink, TMode = 511, TSize = 0, TLinkname = t, TContent = '''' \<rparr>
     | Some (Dir m) \<Rightarrow> \<lparr> TName = join_with slash q, TType = TypeDir, TMode = m, TSize = 0, TLinkname = '''', TContent = '''' \<rparr>
     | None \<Rightarrow> \<lparr> TName = join_with slash q, TType = TypeDir, TMode = 0, TSize = 0, TLinkname = '''', TContent = '''' \<rparr>)"

lemma rel_name_append [simp]: "rel_name root (root @ q) = join_with slash q"
  by (simp add: rel_name_def)

lemma header_of_entry:
  assumes "passes priv lim root fs (root @ q)"
  shows "header_of priv sha fs (entry_of sha root fs (root @ q)) = Inr (hdr root fs q)"
  using assms by (auto simp: passes_def header_of_def entry_of_def hdr_def split: option.splits fnode.splits)

lemma headers_of_entries:
  assumes "\<And>q. q \<in> set qs \<Longrightarrow> passes priv lim root fs (root @ q)"
  shows "headers_of priv sha fs (map (\<lambda>q. entry_of sha root fs (root @ q)) qs) = Inr (map (hdr root fs) qs)"
  using assms by (induction qs) (simp_all add: header_of_entry [where lim = lim])

definition links_at :: "fpath \<Rightarrow> fs \<Rightarrow> fpath \<Rightarrow> bool" where
  "links_at root fs q \<longleftrightarrow> (\<exists>t. node fs (root @ q) = Some (Link t))"

definition link_of :: "fpath \<Rightarrow> fs \<Rightarrow> fpath \<Rightarrow> string" where
  "link_of root fs q = (case node fs (root @ q) of Some (Link t) \<Rightarrow> t | _ \<Rightarrow> '''')"

text \<open>\<open>built dest root fs fs0 D fs'\<close>: below the destination stand copies of the nodes at \<open>D\<close> and nothing else.\<close>

definition built :: "fpath \<Rightarrow> fpath \<Rightarrow> fs \<Rightarrow> fs \<Rightarrow> fpath set \<Rightarrow> fs \<Rightarrow> bool" where
  "built dest root fs fs0 D fs' \<longleftrightarrow> outside_same dest fs0 fs' \<and> distinct (map fst fs') \<and>
     (\<forall>q. q \<noteq> [] \<longrightarrow> node fs' (dest @ q) = (if q \<in> D then node fs (root @ q) else None))"

lemma built_set:
  assumes "built dest root fs fs0 D fs'" and "q \<noteq> []" and "node fs (root @ q) = Some n"
  shows "built dest root fs fs0 (insert q D) (fs_set (dest @ q) n fs')"
proof -
  have ne: "dest @ q \<noteq> []" using assms(2) by simp
  have "outside_same dest fs0 (fs_set (dest @ q) n fs')"
    using assms(1,2) by (auto simp: built_def outside_same_def node_set [OF ne] strict_prefix_append)
  then show ?thesis using assms by (auto simp: built_def node_set [OF ne] distinct_fs_set simp del: distinct_map)
qed

text \<open>The parents of a path are in place.\<close>

definition rwx :: "bool \<Rightarrow> nat \<Rightarrow> bool" where
  "rwx priv m \<longleftrightarrow> r_ok priv m \<and> w_ok priv m \<and> x_ok priv m"

definition parents_in :: "bool \<Rightarrow> fpath \<Rightarrow> fs \<Rightarrow> fpath set \<Rightarrow> fpath \<Rightarrow> bool" where
  "parents_in priv root fs D q \<longleftrightarrow> (\<forall>q'. strict_prefix q' q \<longrightarrow> q' \<noteq> [] \<longrightarrow> q' \<in> D \<and> (\<exists>m. node fs (root @ q') = Some (Dir m) \<and> rwx priv m))"

lemma outside_open:
  assumes "outside_same dest fs0 fs'" and "open_path priv fs0 dest"
  shows "open_path priv fs' dest"
  using assms prefix_cases unfolding open_path_def outside_same_def by metis

lemma built_parents_open:
  assumes b: "built dest root fs fs0 D fs'" and o: "open_path priv fs0 dest" and p: "parents_in priv root fs D q" and "q \<noteq> []"
  shows "open_path priv fs' (butlast (dest @ q))"
  unfolding open_path_def
proof (intro allI impI)
  fix p' assume p': "prefix p' (butlast (dest @ q))"
  have out: "outside_same dest fs0 fs'" using b by (simp add: built_def)
  have pre: "prefix p' (dest @ butlast q)" using p' assms(4) by (simp add: butlast_append)
  show "\<exists>m. node fs' p' = Some (Dir m) \<and> x_ok priv m \<and> w_ok priv m"
  proof (cases "prefix p' dest")
    case True
    then show ?thesis using outside_open [OF out o] by (simp add: open_path_def)
  next
    case False
    then obtain q' where q': "p' = dest @ q'" "prefix q' (butlast q)" "q' \<noteq> []" using pre by (auto simp: prefix_append)
    have "strict_prefix q' q" using q'(2) assms(4)
      by (metis append_butlast_last_id not_Cons_self2 prefix_order.le_less_trans strict_prefix_append)
    then show ?thesis using p q' b by (auto simp: parents_in_def built_def rwx_def)
  qed
qed

definition pushed :: "fpath \<Rightarrow> fpath \<Rightarrow> fs \<Rightarrow> extraction \<Rightarrow> fpath \<Rightarrow> extraction" where
  "pushed dest root fs x q = x\<lparr> xEntries := xEntries x + 1, xTotal := xTotal x + size_of fs (root @ q),
     xLinks := xLinks x @ (if links_at root fs q then [(dest @ q, link_of root fs q)] else []) \<rparr>"

lemma set_mode_same: "set_mode (fmode n) n = n \<or> (\<exists>t. n = Link t)"
  by (cases n) (auto simp: set_mode_def)

lemma snapshot_entry_builds:
  assumes b: "built dest root fs fs0 D fs'" and o: "open_path priv fs0 dest" and c: "comps dest" "comps q" "q \<noteq> []"
    and par: "parents_in priv root fs D q" and new: "q \<notin> D" and ok: "passes priv lim root fs (root @ q)"
    and mode: "\<And>m. node fs (root @ q) = Some (Dir m) \<Longrightarrow> m < 512" "\<And>m s. node fs (root @ q) = Some (Regular m s) \<Longrightarrow> m < 512"
    and cnt: "xEntries x < MaxEntries lim" "xEntries x < SnapEntryCount expected"
    and tot: "xTotal x + size_of fs (root @ q) \<le> MaxLogicalBytes lim" "xTotal x + size_of fs (root @ q) \<le> SnapLogicalSize expected"
  shows "\<exists>fs''. snapshot_entry priv lim expected dest (hdr root fs q) x fs' = (Inr (pushed dest root fs x q), fs'') \<and>
    built dest root fs fs0 (if links_at root fs q then D else insert q D) fs''"
proof -
  have sp: "split_on slash (join_with slash q) = q" using c(2,3) by (intro split_join) (auto simp: comps_def)
  have name: "TName (hdr root fs q) = join_with slash q" by (simp add: hdr_def split: option.splits fnode.splits)
  have safe: "\<not> unsafePath (join_with slash q)" "int (length (join_with slash q)) \<le> MaxPathBytes lim" using ok by (simp_all add: passes_def)
  note t = target_below [OF c(1) safe(1), unfolded sp]
  have inside: "within dest (dest @ q)" using within_iff [OF plain_no_up [OF comps_plain [OF t(2) [unfolded t(1)]]]] by simp
  have cc: "comps (dest @ q)" "dest @ q \<noteq> []" using c by simp_all
  have open_par: "open_path priv fs' (butlast (dest @ q))" by (rule built_parents_open [OF b o par c(3)])
  have "safeParents priv dest (butlast (dest @ q)) fs' = (Inr (), fs')"
    using safeParents_open [OF comps_butlast [OF cc(1)] _ open_par] below_butlast [OF t(3)] t(1) by simp
  then have head: "snapshot_entry priv lim expected dest (hdr root fs q) x fs' = (case TType (hdr root fs q) of
      TypeDir \<Rightarrow> io_bind (io_map_err (\<lambda>_. ''mkdir'') (os_mkdirall priv (dest @ q) (TMode (hdr root fs q) mod 512))) (\<lambda>_.
        io_bind (io_map_err (\<lambda>_. ''chmod'') (os_chmod priv (dest @ q) (TMode (hdr root fs q) mod 512))) (\<lambda>_. io_return (x\<lparr> xEntries := xEntries x + 1 \<rparr>)))
    | TypeReg \<Rightarrow> snapshot_file priv lim expected (dest @ q) (hdr root fs q) (x\<lparr> xEntries := xEntries x + 1 \<rparr>)
    | TypeSymlink \<Rightarrow> if unsafeLink (TLinkname (hdr root fs q)) then io_fail ''unsafe archive symlink''
        else if link_escapes (join_with slash q) (TLinkname (hdr root fs q)) then io_fail ''archive symlink escapes workspace''
        else io_return (x\<lparr> xEntries := xEntries x + 1, xLinks := xLinks x @ [(dest @ q, TLinkname (hdr root fs q))] \<rparr>)
    | TypeOther _ \<Rightarrow> io_fail ''unsupported archive entry type'') fs'"
    using cnt safe inside by (simp add: snapshot_entry_def name t(1) io_bind_def Let_def split: tar_type.split)
  have free: "node fs' (dest @ q) = None" using b c(3) new by (simp add: built_def)
  obtain n where n: "node fs (root @ q) = Some n" using ok by (auto simp: passes_def split: option.splits)
  have here: "node (fs_set (dest @ q) n' fs') (dest @ q) = Some n'" for n' using node_set [OF cc(2)] by simp
  have open_par': "open_path priv (fs_set (dest @ q) n' fs') (butlast (dest @ q))" for n'
    using open_par free unfolding open_path_def by (metis cc(2) node_set option.distinct(1))
  show ?thesis
  proof (cases n)
    case (Dir m)
    then have "m mod 512 = m" using mode(1) n by simp
    then have "snapshot_entry priv lim expected dest (hdr root fs q) x fs' = (Inr (x\<lparr> xEntries := xEntries x + 1 \<rparr>), fs_set (dest @ q) (Dir m) fs')"
      using head n Dir os_mkdirall_open [OF cc open_par free] os_chmod_open [OF cc open_par' here]
      by (simp add: hdr_def io_bind_def io_map_err_def io_return_def set_mode_def fs_set_twice)
    moreover have "pushed dest root fs x q = x\<lparr> xEntries := xEntries x + 1 \<rparr>" using n Dir by (simp add: pushed_def size_of_def links_at_def)
    ultimately show ?thesis using built_set [OF b c(3) n] n Dir by (simp add: links_at_def)
  next
    case (Regular m s)
    then have m: "m mod 512 = m" using mode(2) n by simp
    have "int (length s) \<le> MaxFileBytes lim" using ok n Regular by (simp add: passes_def)
    then have "snapshot_entry priv lim expected dest (hdr root fs q) x fs' = (Inr (x\<lparr> xEntries := xEntries x + 1, xTotal := xTotal x + int (length s) \<rparr>), fs_set (dest @ q) (Regular m s) fs')"
      using head n Regular m tot os_create_open [OF cc open_par free] os_chmod_open [OF cc open_par' here]
      by (simp add: hdr_def snapshot_file_def io_bind_def io_map_err_def io_return_def set_mode_def fs_set_twice size_of_def)
    moreover have "pushed dest root fs x q = x\<lparr> xEntries := xEntries x + 1, xTotal := xTotal x + int (length s) \<rparr>" using n Regular by (simp add: pushed_def size_of_def links_at_def)
    ultimately show ?thesis using built_set [OF b c(3) n] n Regular by (simp add: links_at_def)
  next
    case (Link tg)
    then have "\<not> unsafeLink tg" "\<not> link_escapes (join_with slash q) tg" using ok n by (simp_all add: passes_def)
    then have "snapshot_entry priv lim expected dest (hdr root fs q) x fs' = (Inr (x\<lparr> xEntries := xEntries x + 1, xLinks := xLinks x @ [(dest @ q, tg)] \<rparr>), fs')"
      using head n Link by (simp add: hdr_def io_return_def)
    then show ?thesis using n Link b by (simp add: pushed_def size_of_def links_at_def link_of_def)
  qed
qed

text \<open>An order of the paths in which parents come first.\<close>

fun ready :: "bool \<Rightarrow> fpath \<Rightarrow> fs \<Rightarrow> fpath set \<Rightarrow> fpath list \<Rightarrow> bool" where
  "ready priv root fs D [] = True"
| "ready priv root fs D (q # qs) \<longleftrightarrow> q \<notin> D \<and> parents_in priv root fs D q \<and>
     ready priv root fs (if links_at root fs q then D else insert q D) qs"

definition source_fits :: "bool \<Rightarrow> Limits \<Rightarrow> fpath \<Rightarrow> fs \<Rightarrow> fpath \<Rightarrow> bool" where
  "source_fits priv lim root fs q \<longleftrightarrow> comps q \<and> q \<noteq> [] \<and> passes priv lim root fs (root @ q) \<and>
     (\<forall>m. node fs (root @ q) = Some (Dir m) \<longrightarrow> m < 512) \<and> (\<forall>m s. node fs (root @ q) = Some (Regular m s) \<longrightarrow> m < 512)"

lemma snapshot_loop_builds:
  assumes "open_path priv fs0 dest" and "comps dest" and "\<And>q. q \<in> set qs \<Longrightarrow> source_fits priv lim root fs q"
    and "built dest root fs fs0 D fs'" and "ready priv root fs D qs"
    and "xEntries x + int (length qs) \<le> MaxEntries lim" "xEntries x + int (length qs) \<le> SnapEntryCount expected"
    and "xTotal x + sum_list (map (\<lambda>q. size_of fs (root @ q)) qs) \<le> MaxLogicalBytes lim"
      "xTotal x + sum_list (map (\<lambda>q. size_of fs (root @ q)) qs) \<le> SnapLogicalSize expected"
  shows "\<exists>fs''. snapshot_loop priv lim expected dest (map (hdr root fs) qs) x fs' = (Inr (foldl (pushed dest root fs) x qs), fs'') \<and>
    built dest root fs fs0 (D \<union> {q \<in> set qs. \<not> links_at root fs q}) fs''"
  using assms(3-)
proof (induction qs arbitrary: D x fs')
  case (Cons q qs)
  have rest: "0 \<le> sum_list (map (\<lambda>q. size_of fs (root @ q)) qs)" by (induction qs) auto
  have q: "source_fits priv lim root fs q" using Cons.prems(1) by simp
  have "\<exists>fs1. snapshot_entry priv lim expected dest (hdr root fs q) x fs' = (Inr (pushed dest root fs x q), fs1) \<and>
      built dest root fs fs0 (if links_at root fs q then D else insert q D) fs1"
    by (rule snapshot_entry_builds [OF Cons.prems(2) assms(1,2)]) (use q Cons.prems(3-7) rest in \<open>auto simp: source_fits_def\<close>)
  then obtain fs1 where e: "snapshot_entry priv lim expected dest (hdr root fs q) x fs' = (Inr (pushed dest root fs x q), fs1)"
    and b: "built dest root fs fs0 (if links_at root fs q then D else insert q D) fs1" by blast
  have "\<exists>fs''. snapshot_loop priv lim expected dest (map (hdr root fs) qs) (pushed dest root fs x q) fs1 = (Inr (foldl (pushed dest root fs) (pushed dest root fs x q) qs), fs'') \<and>
      built dest root fs fs0 ((if links_at root fs q then D else insert q D) \<union> {q \<in> set qs. \<not> links_at root fs q}) fs''"
    by (rule Cons.IH [OF _ b]) (use Cons.prems in \<open>auto simp: pushed_def\<close>)
  then obtain fs'' where l: "snapshot_loop priv lim expected dest (map (hdr root fs) qs) (pushed dest root fs x q) fs1 = (Inr (foldl (pushed dest root fs) (pushed dest root fs x q) qs), fs'')"
      "built dest root fs fs0 ((if links_at root fs q then D else insert q D) \<union> {q \<in> set qs. \<not> links_at root fs q}) fs''" by blast
  have "(if links_at root fs q then D else insert q D) \<union> {q \<in> set qs. \<not> links_at root fs q} = D \<union> {p \<in> set (q # qs). \<not> links_at root fs p}" by auto
  then show ?case using e l by (auto simp: io_bind_def)
qed (simp add: io_return_def)

lemma foldl_pushed:
  "xEntries (foldl (pushed dest root fs) x qs) = xEntries x + int (length qs)"
  "xTotal (foldl (pushed dest root fs) x qs) = xTotal x + sum_list (map (\<lambda>q. size_of fs (root @ q)) qs)"
  "xLinks (foldl (pushed dest root fs) x qs) = xLinks x @ map (\<lambda>q. (dest @ q, link_of root fs q)) (filter (links_at root fs) qs)"
  by (induction qs arbitrary: x) (simp_all add: pushed_def)

lemma make_links_builds:
  assumes "open_path priv fs0 dest" and "comps dest" and "\<And>q. q \<in> set ls \<Longrightarrow> comps q \<and> q \<noteq> [] \<and> links_at root fs q \<and> parents_in priv root fs D q \<and> q \<notin> D"
    and "distinct ls" and "built dest root fs fs0 D fs'"
  shows "\<exists>fs''. make_links priv dest (map (\<lambda>q. (dest @ q, link_of root fs q)) ls) fs' = (Inr (), fs'') \<and> built dest root fs fs0 (D \<union> set ls) fs''"
  using assms(3-)
proof (induction ls arbitrary: D fs')
  case (Cons q ls)
  have q: "comps q" "q \<noteq> []" "links_at root fs q" "parents_in priv root fs D q" "q \<notin> D" using Cons.prems(1) by auto
  have cc: "comps (dest @ q)" "dest @ q \<noteq> []" using q assms(2) by simp_all
  have op: "open_path priv fs' (butlast (dest @ q))" by (rule built_parents_open [OF Cons.prems(3) assms(1) q(4,2)])
  have "prefix dest (butlast (dest @ q))" using q(2) by (simp add: butlast_append)
  then have s: "safeParents priv dest (butlast (dest @ q)) fs' = (Inr (), fs')" using safeParents_open [OF comps_butlast [OF cc(1)] _ op] by simp
  have free: "node fs' (dest @ q) = None" using Cons.prems(3) q by (simp add: built_def)
  have n: "node fs (root @ q) = Some (Link (link_of root fs q))" using q(3) by (auto simp: links_at_def link_of_def)
  note b = built_set [OF Cons.prems(3) q(2) n]
  have "\<exists>fs''. make_links priv dest (map (\<lambda>q. (dest @ q, link_of root fs q)) ls) (fs_set (dest @ q) (Link (link_of root fs q)) fs') = (Inr (), fs'') \<and>
      built dest root fs fs0 (insert q D \<union> set ls) fs''"
    by (rule Cons.IH [OF _ _ b]) (use Cons.prems(1,2) in \<open>auto simp: parents_in_def\<close>)
  then show ?case using s os_create_open [OF cc op free] by (simp add: io_bind_def io_map_err_def)
qed (simp add: io_return_def)

section \<open>The rebuilt tree scans like the source\<close>

definition same_tree :: "fpath \<Rightarrow> fs \<Rightarrow> fpath \<Rightarrow> fs \<Rightarrow> bool" where
  "same_tree root fs dest fs' \<longleftrightarrow> (\<forall>q. q \<noteq> [] \<longrightarrow> node fs' (dest @ q) = (if kept root fs q then node fs (root @ q) else None))"

lemma same_tree_kept:
  assumes "same_tree root fs dest fs'" and "tree_ok root fs"
  shows "kept dest fs' q \<longleftrightarrow> kept root fs q"
proof -
  have "\<not> git_skipped fs' dest (dest @ q)"
  proof
    assume "git_skipped fs' dest (dest @ q)"
    then obtain p m where p: "prefix p (dest @ q)" "strict_prefix dest p" "last p = ''.git''" "node fs' p = Some (Dir m)"
      by (auto simp: git_skipped_iff)
    obtain r where r: "p = dest @ r" "r \<noteq> []" using p(2) by (auto simp: strict_prefix_def prefix_def)
    then have k: "kept root fs r" "node fs (root @ r) = Some (Dir m)" using assms(1) p(4) by (auto simp: same_tree_def split: if_splits)
    have "git_skipped fs root (root @ r)"
      unfolding git_skipped_iff
      by (rule exI [of _ "root @ r"]) (use k(2) r p(3) in \<open>auto simp: strict_prefix_append\<close>)
    then show False using k(1) by (simp add: kept_def)
  qed
  then have "kept dest fs' q \<longleftrightarrow> q \<noteq> [] \<and> node fs' (dest @ q) \<noteq> None" by (simp add: kept_def)
  moreover have "q \<noteq> [] \<Longrightarrow> node fs' (dest @ q) = (if kept root fs q then node fs (root @ q) else None)" using assms(1) by (simp add: same_tree_def)
  moreover have "kept root fs q \<Longrightarrow> q \<noteq> [] \<and> node fs (root @ q) \<noteq> None" by (simp add: kept_def)
  ultimately show ?thesis by (metis (no_types))
qed

lemma list_le_append: "root @ a \<le> root @ b \<longleftrightarrow> a \<le> (b :: 'a :: linorder list)"
  by (induction root) auto

lemma walk_same:
  assumes "same_tree root fs dest fs'" and "tree_ok root fs" and "distinct (map fst fs')"
  shows "walk dest fs' = map (\<lambda>p. dest @ drop (length root) p) (walk root fs)"
proof -
  let ?f = "\<lambda>p. dest @ drop (length root) p"
  have d: "distinct (walk root fs)" using assms(2) walk_distinct by (auto simp: tree_ok_def)
  have form: "\<exists>q. p = root @ q" if "p \<in> set (walk root fs)" for p using that by (auto simp: walk_set)
  have "sorted (walk root fs)" by (simp add: walk_def)
  then have "sorted_wrt (\<lambda>x y. ?f x \<le> ?f y) (walk root fs)"
  proof (rule sorted_wrt_mono_rel [rotated])
    fix x y assume "x \<in> set (walk root fs)" "y \<in> set (walk root fs)" "x \<le> y"
    then show "?f x \<le> ?f y" using form list_le_append by (metis append_eq_conv_conj)
  qed
  then have srt: "sorted (map ?f (walk root fs))" by (simp add: sorted_wrt_map)
  have "inj_on ?f (set (walk root fs))" 
  proof (rule inj_onI)
    fix x y assume xy: "x \<in> set (walk root fs)" "y \<in> set (walk root fs)" "?f x = ?f y"
    obtain a b where "x = root @ a" "y = root @ b" using form [OF xy(1)] form [OF xy(2)] by blast
    then show "x = y" using xy(3) by simp
  qed
  then have dd: "distinct (map ?f (walk root fs))" using d by (simp add: distinct_map)
  have "set (walk dest fs') = set (map ?f (walk root fs))"
    using same_tree_kept [OF assms(1,2)] by (simp add: walk_set image_image)
  then show ?thesis using srt dd assms(3) by (intro sorted_distinct_set_unique) (auto simp: walk_def simp del: distinct_map)
qed

lemma sort_key_map: "sort_key f (map g xs) = map g (sort_key (\<lambda>x. f (g x)) xs)"
proof (induction xs)
  case (Cons x xs)
  have "map g (insort_key (\<lambda>x. f (g x)) x ys) = insort_key f (g x) (map g ys)" for ys by (induction ys) auto
  then show ?case using Cons by simp
qed simp

definition bare :: "Entry \<Rightarrow> Entry" where
  "bare e = e\<lparr> EnHost := [] \<rparr>"

lemma digestManifest_bare: "digestManifest sha encode (sort_key EnPath es) = sha (encode (sort_key EnPath (map bare es)) @ [CHR 0x0A])"
proof -
  have "(\<lambda>e. e\<lparr> EnHost := [] \<rparr>) = bare" by (simp add: fun_eq_iff bare_def)
  moreover have "(\<lambda>e. EnPath (bare e)) = EnPath" by (rule ext) (simp add: bare_def)
  ultimately have "map (\<lambda>e. e\<lparr> EnHost := [] \<rparr>) (sort_key EnPath es) = sort_key EnPath (map bare es)" by (simp only: sort_key_map)
  then show ?thesis by (simp only: digestManifest_def)
qed

lemma same_entries:
  assumes "same_tree root fs dest fs'" and "p \<in> set (walk root fs)"
  shows "bare (entry_of sha dest fs' (dest @ drop (length root) p)) = bare (entry_of sha root fs p)"
    and "size_of fs' (dest @ drop (length root) p) = size_of fs p"
proof -
  obtain q where q: "p = root @ q" "kept root fs q" using assms(2) by (auto simp: walk_set)
  then have "node fs' (dest @ q) = node fs (root @ q)" "q \<noteq> []" using assms(1) by (auto simp: same_tree_def kept_def)
  then show "bare (entry_of sha dest fs' (dest @ drop (length root) p)) = bare (entry_of sha root fs p)"
    "size_of fs' (dest @ drop (length root) p) = size_of fs p"
    by (auto simp: bare_def entry_of_def size_of_def q(1) split: option.splits fnode.splits)
qed

lemma same_passes:
  assumes same: "same_tree root fs dest fs'" and tree: "tree_ok root fs" and p: "p \<in> set (walk root fs)" "passes priv lim root fs p"
    and o: "open_path priv fs' dest" and dirs: "\<And>q m. node fs (root @ q) = Some (Dir m) \<Longrightarrow> rwx priv m"
  shows "passes priv lim dest fs' (dest @ drop (length root) p)"
proof -
  obtain q where q: "p = root @ q" "kept root fs q" using p(1) by (auto simp: walk_set)
  have ne: "q \<noteq> []" using q(2) by (simp add: kept_def)
  have n: "node fs' (dest @ q) = node fs (root @ q)" using same q(2) ne by (auto simp: same_tree_def)
  have "searchable priv fs' (butlast (dest @ q))"
  proof (cases "butlast q = []")
    case True
    then have "butlast (dest @ q) = dest" using ne by (simp add: butlast_append)
    then show ?thesis using o by (auto simp: searchable_def open_path_def)
  next
    case False
    have "strict_prefix (butlast q) q" using ne by (metis append_butlast_last_id not_Cons_self2 strict_prefix_append)
    then obtain m where "kept root fs (butlast q)" "node fs (root @ butlast q) = Some (Dir m)" using kept_prefix [OF tree q(2) _ False] by blast
    then show ?thesis using same False ne dirs [of "butlast q" m] by (simp add: searchable_def same_tree_def butlast_append rwx_def)
  qed
  then show ?thesis using p(2) n by (simp add: passes_def q(1) split: option.splits fnode.splits)
qed

lemma Verify_same:
  assumes same: "same_tree root fs dest fs'" and tree: "tree_ok root fs" and d: "distinct (map fst fs')"
    and o: "open_path priv fs' dest" and m: "node fs' dest = Some (Dir m)" "r_ok priv m"
    and r: "node fs root = Some (Dir m')" "r_ok priv m'" and lim: "validateLimits lim"
    and dirs: "\<And>q m. node fs (root @ q) = Some (Dir m) \<Longrightarrow> rwx priv m"
    and sc: "scan priv sha lim root fs = Inr (es, l)"
  shows "Verify priv sha encode lim dest (digestManifest sha encode es) fs' = Inr ()"
proof -
  let ?f = "\<lambda>p. dest @ drop (length root) p"
  note s = sc [unfolded scan_iff [OF lim r]]
  note w = walk_same [OF same tree d]
  have "map bare (map (entry_of sha dest fs') (walk dest fs')) = map bare (map (entry_of sha root fs) (walk root fs))"
    using same_entries(1) [OF same] by (simp add: w)
  then have dig: "digestManifest sha encode (sort_key EnPath (map (entry_of sha dest fs') (walk dest fs'))) = digestManifest sha encode es"
    using s by (simp only: digestManifest_bare)
  have sizes: "map (size_of fs') (walk dest fs') = map (size_of fs) (walk root fs)" using same_entries(2) [OF same] by (simp add: w)
  have "scan priv sha lim dest fs' = Inr (sort_key EnPath (map (entry_of sha dest fs') (walk dest fs')), sum_list (map (size_of fs') (walk dest fs')))"
    unfolding scan_iff [OF lim m] sizes using s same_passes [OF same tree _ _ o dirs] by (auto simp: w)
  then show ?thesis using dig by (simp add: Verify_def)
qed

section \<open>The order of the entries\<close>

lemma append_greater: "xs < xs @ (y :: 'a :: linorder) # ys"
  by (induction xs) auto

lemma name_less:
  assumes "strict_prefix q' q" and "q' \<noteq> []"
  shows "join_with slash q' < join_with slash q"
proof -
  obtain cs where "q = q' @ cs" "cs \<noteq> []" using assms(1) by (auto simp: strict_prefix_def prefix_def)
  then show ?thesis using join_append [OF assms(2), of cs slash] append_greater by metis
qed

lemma ready_sorted:
  assumes tree: "tree_ok root fs" and Q: "set (A @ B) = {q. kept root fs q}" "distinct (A @ B)" "sorted (map (join_with slash) (A @ B))"
    and dirs: "\<And>q m. node fs (root @ q) = Some (Dir m) \<Longrightarrow> rwx priv m"
  shows "ready priv root fs {q \<in> set A. \<not> links_at root fs q} B"
  using Q
proof (induction B arbitrary: A)
  case (Cons q B)
  have kq: "kept root fs q" using Cons.prems(1) by auto
  have "q' \<in> {q \<in> set A. \<not> links_at root fs q} \<and> (\<exists>m. node fs (root @ q') = Some (Dir m) \<and> rwx priv m)"
    if q': "strict_prefix q' q" "q' \<noteq> []" for q'
  proof -
    obtain m where m: "kept root fs q'" "node fs (root @ q') = Some (Dir m)" using kept_prefix [OF tree kq q'] by blast
    have "join_with slash q' < join_with slash q" by (rule name_less [OF q'])
    moreover have "join_with slash q \<le> join_with slash b" if "b \<in> set (q # B)" for b
      using Cons.prems(3) that by (auto simp: sorted_append)
    ultimately have "q' \<notin> set (q # B)" by (meson leD)
    then have "q' \<in> set A" using m(1) Cons.prems(1) by auto
    then show ?thesis using m(2) dirs by (auto simp: links_at_def)
  qed
  moreover have "ready priv root fs {p \<in> set (A @ [q]). \<not> links_at root fs p} B" using Cons.prems by (intro Cons.IH) auto
  moreover have "{p \<in> set (A @ [q]). \<not> links_at root fs p} = (if links_at root fs q then {q \<in> set A. \<not> links_at root fs q} else insert q {q \<in> set A. \<not> links_at root fs q})"
    by auto
  ultimately show ?case using Cons.prems(2) by (auto simp: parents_in_def)
qed simp

end
