(* ===== verification/Archive_Sample.thy ===== *)
theory Archive_Sample
  imports Archive
begin

text \<open>
  Concrete values for the archive properties: an archive format with its reader, a manifest encoding, a
  stand-in digest, and small source trees.
\<close>

section \<open>An archive format\<close>

text \<open>Six fields to an entry; a field is its characters, each marked, and a full stop.\<close>

fun put_field :: "string \<Rightarrow> string" where
  "put_field [] = ''.''"
| "put_field (c # s) = CHR ''+'' # c # put_field s"

fun get_fields :: "string \<Rightarrow> string \<Rightarrow> string list" where
  "get_fields cur [] = []"
| "get_fields cur [c] = (if c = CHR ''.'' then [cur] else [])"
| "get_fields cur (c # d # s) = (if c = CHR ''.'' then cur # get_fields [] (d # s) else get_fields (cur @ [d]) s)"

definition type_field :: "tar_type \<Rightarrow> string" where
  "type_field t = (case t of TypeDir \<Rightarrow> ''d'' | TypeReg \<Rightarrow> ''f'' | TypeSymlink \<Rightarrow> ''l'' | TypeOther n \<Rightarrow> CHR ''o'' # replicate n CHR ''x'')"

definition field_type :: "string \<Rightarrow> tar_type" where
  "field_type s = (if s = ''d'' then TypeDir else if s = ''f'' then TypeReg else if s = ''l'' then TypeSymlink else TypeOther (length s - 1))"

definition size_field :: "int \<Rightarrow> string" where
  "size_field n = (if n < 0 then CHR ''-'' # replicate (nat (- n)) CHR ''x'' else replicate (nat n) CHR ''x'')"

definition field_size :: "string \<Rightarrow> int" where
  "field_size s = (case s of [] \<Rightarrow> 0 | c # r \<Rightarrow> if c = CHR ''-'' then - int (length r) else int (length s))"

fun mode_field :: "nat \<Rightarrow> string" where
  "mode_field n = (if n = 0 then [] else char_of (n mod 8) # mode_field (n div 8))"

fun field_mode :: "string \<Rightarrow> nat" where
  "field_mode [] = 0"
| "field_mode (c # s) = byte c + 8 * field_mode s"

definition put_header :: "tar_header \<Rightarrow> string" where
  "put_header h = put_field (TName h) @ put_field (type_field (TType h)) @ put_field (mode_field (TMode h)) @
     put_field (size_field (TSize h)) @ put_field (TLinkname h) @ put_field (TContent h)"

fun get_headers :: "string list \<Rightarrow> tar_header list" where
  "get_headers (a # b # c # d # e # f # s) =
    \<lparr> TName = a, TType = field_type b, TMode = field_mode c, TSize = field_size d, TLinkname = e, TContent = f \<rparr> # get_headers s"
| "get_headers _ = []"

definition sample_pack :: "tar_header list \<Rightarrow> string" where
  "sample_pack hs = concat (map put_header hs)"

definition sample_unpack :: "string \<Rightarrow> (string, unpacked) result" where
  "sample_unpack s = Inr (get_headers (get_fields [] s), None)"

lemma get_put_field: "get_fields cur (put_field s @ r) = (cur @ s) # get_fields [] r"
  by (induction s arbitrary: cur) (cases r; simp)+

declare mode_field.simps [simp del]

lemma field_mode_field: "field_mode (mode_field n) = n"
proof (induction n rule: mode_field.induct)
  case (1 n)
  have "byte (char_of (n mod 8)) = n mod 8" by (simp add: byte_def)
  then show ?case using 1 by (subst mode_field.simps) simp
qed

lemma sample_codec: "sample_unpack (sample_pack hs) = Inr (hs, None)"
proof -
  have t: "field_type (type_field t) = t" for t by (cases t) (auto simp: field_type_def type_field_def)
  have "CHR ''-'' \<notin> set (replicate n CHR ''x'')" for n by simp
  then have s: "field_size (size_field n) = n" for n
    by (cases "nat n") (auto simp: field_size_def size_field_def)
  have "get_headers (get_fields [] (put_header h @ r)) = h # get_headers (get_fields [] r)" for h r
    by (simp add: put_header_def get_put_field t s field_mode_field)
  then have "get_headers (get_fields [] (sample_pack hs)) = hs" by (induction hs) (simp_all add: sample_pack_def)
  then show ?thesis by (simp add: sample_unpack_def)
qed

section \<open>Digests and limits\<close>

definition sample_sha :: "string \<Rightarrow> string" where
  "sample_sha s = replicate 64 CHR ''0''"

lemma sample_sha_valid: "ValidDigest (sample_sha s)"
  by (simp add: sample_sha_def ValidDigest_def hex_decodes_def is_hex_def list_all_iff byte_def)

definition sample_encode :: "Entry list \<Rightarrow> string" where
  "sample_encode es = concat (map EnPath es)"

definition sample_limits :: Limits where
  "sample_limits = \<lparr> MaxEntries = 100, MaxPathBytes = 100, MaxLogicalBytes = 1000, MaxArchiveBytes = 100000, MaxFileBytes = 100 \<rparr>"

section \<open>Trees\<close>

text \<open>A repository with a directory, a file, a link and a \<open>.git\<close> directory.\<close>

definition source_fs :: fs where
  "source_fs = [([''src''], Dir 493), ([''src'', ''lib''], Dir 493), ([''src'', ''lib'', ''a.go''], Regular 420 ''package lib''),
     ([''src'', ''main''], Link ''lib/a.go''), ([''src'', ''.git''], Dir 493), ([''src'', ''.git'', ''HEAD''], Regular 420 ''ref'')]"

definition workspace_fs :: fs where
  "workspace_fs = [([''work''], Dir 448), ([''etc''], Dir 493), ([''etc'', ''passwd''], Regular 420 ''root'')]"

text \<open>The directory \<open>bin\<close> cannot be written to by its owner.\<close>

definition readonly_fs :: fs where
  "readonly_fs = [([''src''], Dir 493), ([''src'', ''bin''], Dir 365), ([''src'', ''bin'', ''tool''], Regular 493 ''x'')]"

end
