(* ===== verification/Archive_Properties.thy ===== *)
theory Archive_Properties
  imports Archive_Roundtrip Archive_Sample "HOL-Library.Multiset"
begin

text \<open>
  Properties of source snapshots: an extraction is confined to its destination, and extracting a captured
  archive rebuilds the captured tree.
\<close>

section \<open>Extracting what was captured\<close>

text \<open>A source tree a runner with privilege \<open>priv\<close> can rebuild: permission bits only, and directories it may
  read, write and search.\<close>

definition rebuildable :: "bool \<Rightarrow> fpath \<Rightarrow> fs \<Rightarrow> bool" where
  "rebuildable priv root fs \<longleftrightarrow> tree_ok root fs \<and> (\<exists>m. node fs root = Some (Dir m)) \<and>
     (\<forall>p n. node fs p = Some n \<longrightarrow> (\<forall>t. n \<noteq> Link t) \<longrightarrow> fmode n < 512) \<and>
     (\<forall>q m. node fs (root @ q) = Some (Dir m) \<longrightarrow> rwx priv m)"

definition empty_dir :: "bool \<Rightarrow> fpath \<Rightarrow> fs \<Rightarrow> bool" where
  "empty_dir priv dest fs \<longleftrightarrow> comps dest \<and> distinct (map fst fs) \<and> open_path priv fs dest \<and>
     (\<exists>m. node fs dest = Some (Dir m) \<and> r_ok priv m) \<and> (\<forall>q. q \<noteq> [] \<longrightarrow> node fs (dest @ q) = None)"

definition kept_order :: "fpath \<Rightarrow> fs \<Rightarrow> fpath list" where
  "kept_order root fs = map (drop (length root)) (sort_key (rel_name root) (walk root fs))"

lemma kept_order_walk:
  "map (\<lambda>q. root @ q) (kept_order root fs) = sort_key (rel_name root) (walk root fs)"
proof -
  have "root @ drop (length root) p = p" if "p \<in> set (sort_key (rel_name root) (walk root fs))" for p
    using that by (auto simp: walk_set)
  then have "map (\<lambda>p. root @ drop (length root) p) (sort_key (rel_name root) (walk root fs)) = sort_key (rel_name root) (walk root fs)"
    by (rule map_idI)
  then show ?thesis by (simp add: kept_order_def comp_def)
qed

lemma kept_order_facts:
  assumes "tree_ok root fs"
  shows "set (kept_order root fs) = {q. kept root fs q}" and "distinct (kept_order root fs)"
    and "sorted (map (join_with slash) (kept_order root fs))"
proof -
  have "(\<lambda>q. root @ q) ` set (kept_order root fs) = (\<lambda>q. root @ q) ` {q. kept root fs q}"
    using arg_cong [OF kept_order_walk, of set] by (simp add: walk_set)
  then show "set (kept_order root fs) = {q. kept root fs q}" by (simp add: inj_image_eq_iff inj_def)
  have "distinct (walk root fs)" using assms walk_distinct by (auto simp: tree_ok_def)
  then have "distinct (map (\<lambda>q. root @ q) (kept_order root fs))" by (simp add: kept_order_walk)
  then show "distinct (kept_order root fs)" by (simp add: distinct_map)
  have "map (rel_name root) (map (\<lambda>q. root @ q) (kept_order root fs)) = map (join_with slash) (kept_order root fs)" by simp
  then show "sorted (map (join_with slash) (kept_order root fs))" by (simp only: kept_order_walk sorted_sort_key flip: \<open>map (rel_name root) _ = _\<close>)
qed

lemma EnPath_entry_of [simp]: "EnPath (entry_of sha root fs p) = rel_name root p"
  by (simp add: entry_of_def split: option.splits fnode.splits)

lemma scan_kept_order:
  assumes "validateLimits lim" and "node fs root = Some (Dir m)" and "r_ok priv m" and "scan priv sha lim root fs = Inr (es, l)"
  shows "es = map (\<lambda>q. entry_of sha root fs (root @ q)) (kept_order root fs)"
    and "l = sum_list (map (\<lambda>q. size_of fs (root @ q)) (kept_order root fs))"
    and "int (length (kept_order root fs)) \<le> MaxEntries lim" and "l \<le> MaxLogicalBytes lim"
    and "\<forall>p \<in> set (walk root fs). passes priv lim root fs p"
proof -
  note s = assms(4) [unfolded scan_iff [OF assms(1-3)]]
  show "l \<le> MaxLogicalBytes lim" "\<forall>p \<in> set (walk root fs). passes priv lim root fs p" using s by simp_all
  have w: "map (\<lambda>q. root @ q) (kept_order root fs) = sort_key (rel_name root) (walk root fs)" by (rule kept_order_walk)
  have "es = map (entry_of sha root fs) (sort_key (rel_name root) (walk root fs))" using s by (simp add: sort_key_map)
  then show "es = map (\<lambda>q. entry_of sha root fs (root @ q)) (kept_order root fs)" by (simp add: w [symmetric] comp_def)
  have "length (kept_order root fs) = length (walk root fs)" using arg_cong [OF w, of length] by simp
  then show "int (length (kept_order root fs)) \<le> MaxEntries lim" using s by simp
  have "mset (map (size_of fs) (walk root fs)) = mset (map (size_of fs) (sort_key (rel_name root) (walk root fs)))" by simp
  then have "sum_list (map (size_of fs) (walk root fs)) = sum_list (map (size_of fs) (map (\<lambda>q. root @ q) (kept_order root fs)))"
    unfolding w by (metis sum_mset_sum_list)
  then show "l = sum_list (map (\<lambda>q. size_of fs (root @ q)) (kept_order root fs))" using s by (simp add: comp_def)
qed

lemma rebuild_source:
  assumes src: "rebuildable priv root fs" and dst: "empty_dir priv dest fs0"
    and pass: "\<forall>p \<in> set (walk root fs). passes priv lim root fs p"
    and cnt: "int (length (kept_order root fs)) \<le> MaxEntries lim" "SnapEntryCount meta = int (length (kept_order root fs))"
    and tot: "sum_list (map (\<lambda>q. size_of fs (root @ q)) (kept_order root fs)) \<le> MaxLogicalBytes lim"
      "SnapLogicalSize meta = sum_list (map (\<lambda>q. size_of fs (root @ q)) (kept_order root fs))"
  obtains x fs1 fs2 where "snapshot_loop priv lim meta dest (map (hdr root fs) (kept_order root fs)) \<lparr> xLinks = [], xEntries = 0, xTotal = 0 \<rparr> fs0 = (Inr x, fs1)"
    and "xEntries x = SnapEntryCount meta" and "xTotal x = SnapLogicalSize meta" and "make_links priv dest (xLinks x) fs1 = (Inr (), fs2)"
    and "same_tree root fs dest fs2" and "outside_same dest fs0 fs2" and "distinct (map fst fs2)"
proof -
  have root: "tree_ok root fs" using src by (simp add: rebuildable_def)
  have modes: "\<And>p n. node fs p = Some n \<Longrightarrow> (\<And>t. n \<noteq> Link t) \<Longrightarrow> fmode n < 512"
    and dirs: "\<And>q m. node fs (root @ q) = Some (Dir m) \<Longrightarrow> rwx priv m" using src unfolding rebuildable_def by blast+
  have d: "comps dest" "distinct (map fst fs0)" "open_path priv fs0 dest" "\<And>q. q \<noteq> [] \<Longrightarrow> node fs0 (dest @ q) = None"
    using dst by (auto simp: empty_dir_def simp del: distinct_map)
  let ?Q = "kept_order root fs" and ?x0 = "\<lparr> xLinks = [], xEntries = 0, xTotal = 0 \<rparr>"
  let ?D = "{q \<in> set ?Q. \<not> links_at root fs q}" and ?L = "filter (links_at root fs) ?Q"
  note Q = kept_order_facts [OF root]
  have comps_Q: "comps q \<and> q \<noteq> []" if "q \<in> set ?Q" for q
  proof -
    have "q \<noteq> []" "root @ q \<in> fst ` set fs" using that Q(1) node_key [of "root @ q" fs] by (auto simp: kept_def)
    moreover have "comps (root @ q)" using root calculation(2) unfolding tree_ok_def by blast
    ultimately show ?thesis by simp
  qed
  have fits: "source_fits priv lim root fs q" if "q \<in> set ?Q" for q
    using comps_Q [OF that] that pass modes by (fastforce simp: source_fits_def Q(1) walk_set)
  have b0: "built dest root fs fs0 {} fs0" using d(2,4) by (simp add: built_def outside_same_def)
  have rd: "ready priv root fs {} ?Q" using ready_sorted [OF root, of "[]" ?Q priv] Q dirs by simp
  obtain fs1 where loop: "snapshot_loop priv lim meta dest (map (hdr root fs) ?Q) ?x0 fs0 = (Inr (foldl (pushed dest root fs) ?x0 ?Q), fs1)"
    and b1: "built dest root fs fs0 ?D fs1"
    using snapshot_loop_builds [OF d(3,1) fits b0 rd, where x = ?x0 and expected = meta] cnt tot by auto
  have par: "parents_in priv root fs ?D q" if "q \<in> set ?Q" for q
    unfolding parents_in_def
  proof (intro allI impI)
    fix q' assume q': "strict_prefix q' q" "q' \<noteq> []"
    have "kept root fs q" using that Q(1) by simp
    then obtain m' where "kept root fs q'" "node fs (root @ q') = Some (Dir m')" using kept_prefix [OF root _ q'] by blast
    then show "q' \<in> ?D \<and> (\<exists>m. node fs (root @ q') = Some (Dir m) \<and> rwx priv m)" using dirs Q(1) by (auto simp: links_at_def)
  qed
  obtain fs2 where links: "make_links priv dest (map (\<lambda>q. (dest @ q, link_of root fs q)) ?L) fs1 = (Inr (), fs2)"
    and b2: "built dest root fs fs0 (?D \<union> set ?L) fs2"
    using make_links_builds [OF d(3,1) _ _ b1, of ?L] comps_Q par Q(2) by auto
  have "same_tree root fs dest fs2" "outside_same dest fs0 fs2" "distinct (map fst fs2)"
    using b2 Q(1) by (auto simp: built_def same_tree_def simp del: distinct_map)
  then show thesis using that [OF loop] links cnt tot by (simp add: foldl_pushed)
qed

lemma extract_captured:
  assumes lim: "validateLimits lim" and src: "rebuildable priv root fs" and dst: "empty_dir priv dest fs0"
    and sha: "\<And>x. ValidDigest (sha x)" and codec: "\<And>hs. unpack (pack hs) = Inr (hs, None)"
    and fresh: "\<And>d old hs. stored d = Some old \<Longrightarrow> sha old = sha (pack hs) \<Longrightarrow> old = pack hs"
    and cap: "snapshot_Capture priv sha encode pack lim now root fs fs stored = Inr (meta, stored')"
  shows "\<exists>data fs'. stored' (SourceDigest meta) = Some data \<and>
    snapshot_Extract priv sha encode unpack lim (Some data) dest meta fs0 = (Inr (), fs') \<and>
    same_tree root fs dest fs' \<and> outside_same dest fs0 fs'"
proof -
  obtain m where root: "tree_ok root fs" "node fs root = Some (Dir m)" using src by (auto simp: rebuildable_def)
  have dirs: "\<And>q m. node fs (root @ q) = Some (Dir m) \<Longrightarrow> rwx priv m" using src unfolding rebuildable_def by blast
  have rm: "r_ok priv m" using dirs [of "[]" m] root(2) by (simp add: rwx_def)
  obtain dm where d: "open_path priv fs0 dest" "node fs0 dest = Some (Dir dm)" "r_ok priv dm" using dst by (auto simp: empty_dir_def)
  obtain es l where sc: "scan priv sha lim root fs = Inr (es, l)"
    using cap by (cases "scan priv sha lim root fs") (auto simp: snapshot_Capture_def)
  let ?data = "pack (map (hdr root fs) (kept_order root fs))"
  note k = scan_kept_order [OF lim root(2) rm sc]
  have "passes priv lim root fs (root @ q)" if "q \<in> set (kept_order root fs)" for q
    using that k(5) by (auto simp: kept_order_facts(1) [OF root(1)] walk_set)
  then have "headers_of priv sha fs es = Inr (map (hdr root fs) (kept_order root fs))" unfolding k(1) by (rule headers_of_entries)
  then have meta: "SourceDigest meta = digestManifest sha encode es" "BlobDigest meta = sha ?data" "SnapFormat meta = ''tar-gzip-v1''"
      "SnapArchiveSize meta = int (length ?data)" "SnapLogicalSize meta = l" "SnapEntryCount meta = int (length (kept_order root fs))"
    and st: "stored' (SourceDigest meta) = Some ?data" and size: "int (length ?data) \<le> MaxArchiveBytes lim"
    using cap sc k(1) fresh by (auto simp: snapshot_Capture_def Let_def split: if_splits option.splits)
  have tot: "SnapLogicalSize meta = sum_list (map (\<lambda>q. size_of fs (root @ q)) (kept_order root fs))" using meta(5) k(2) by simp
  obtain x fs1 fs2 where loop: "snapshot_loop priv lim meta dest (map (hdr root fs) (kept_order root fs)) \<lparr> xLinks = [], xEntries = 0, xTotal = 0 \<rparr> fs0 = (Inr x, fs1)"
      "xEntries x = SnapEntryCount meta" "xTotal x = SnapLogicalSize meta" "make_links priv dest (xLinks x) fs1 = (Inr (), fs2)"
    and same: "same_tree root fs dest fs2" and out: "outside_same dest fs0 fs2" and dis: "distinct (map fst fs2)"
    using rebuild_source [OF src dst k(5,3) meta(6) k(4) [unfolded k(2)] tot] .
  have "node fs2 dest = Some (Dir dm)" using out d(2) by (simp add: outside_same_def)
  note v = Verify_same [OF same root(1) dis outside_open [OF out d(1)] this d(3) root(2) rm lim _ sc, where encode = encode, OF dirs]
  have "0 \<le> l" unfolding k(2) by (rule sum_list_nonneg) auto
  then have ok: "snapshot_meta_ok meta" using meta sha by (simp add: snapshot_meta_ok_def digestManifest_def)
  have "snapshot_Extract priv sha encode unpack lim (Some ?data) dest meta fs0 = (Inr (), fs2)"
    using ok meta size loop v codec by (simp add: snapshot_Extract_def io_bind_def)
  then show ?thesis using st same out by blast
qed

section \<open>Properties\<close>

text \<open>C15. Extracting a captured snapshot succeeds and rebuilds the source. The source is a tree of nodes with
  permission bits whose directories the runner may read, write and search, captured while it does not change;
  the destination is an empty directory the runner may use; the archive codec reads back what it wrote, digests
  are 64 hexadecimal digits and no stored blob collides with an archive. Then the archive the capture stored
  is extracted without error, below the destination stand exactly the nodes of the source, with their kinds,
  modes, contents and link targets, but for \<open>.git\<close> directories and what they hold, and nothing else has
  changed.\<close>

theorem snapshot_roundtrip:
  assumes "validateLimits lim" and "rebuildable priv root fs" and "empty_dir priv dest fs0"
    and "\<And>x. ValidDigest (sha x)" and "\<And>hs. unpack (pack hs) = Inr (hs, None)"
    and "\<And>d old hs. stored d = Some old \<Longrightarrow> sha old = sha (pack hs) \<Longrightarrow> old = pack hs"
    and "snapshot_Capture priv sha encode pack lim now root fs fs stored = Inr (meta, stored')"
  shows "\<exists>data fs'. stored' (SourceDigest meta) = Some data \<and>
    snapshot_Extract priv sha encode unpack lim (Some data) dest meta fs0 = (Inr (), fs') \<and>
    (\<forall>q. q \<noteq> [] \<longrightarrow> node fs' (dest @ q) = (if git_skipped fs root (root @ q) then None else node fs (root @ q))) \<and>
    (\<forall>p. \<not> strict_prefix dest p \<longrightarrow> node fs' p = node fs0 p)"
proof -
  obtain data fs' where "stored' (SourceDigest meta) = Some data" "same_tree root fs dest fs'" "outside_same dest fs0 fs'"
      "snapshot_Extract priv sha encode unpack lim (Some data) dest meta fs0 = (Inr (), fs')"
    using extract_captured [OF assms(1-3), of sha unpack pack stored encode now meta stored'] assms(4-7) by blast
  then show ?thesis by (auto simp: same_tree_def outside_same_def kept_def)
qed

text \<open>C14. An extraction is confined to its destination, whatever the archive holds and whether or not it
  succeeds: when the destination is a real directory below which there are no links, every node that is not
  below the destination is as it was, and afterwards no path from the destination, as the operating system
  resolves it through the extracted links, leads out of the destination unless the path itself climbs with
  \<open>..\<close>.\<close>

theorem snapshot_confined:
  assumes "comps dest" and "real_path fs dest" and "linkless dest fs"
    and "snapshot_Extract priv sha encode unpack lim blob dest expected fs = (r, fs')"
  shows "(\<forall>p. \<not> strict_prefix dest p \<longrightarrow> node fs' p = node fs p) \<and>
    (\<forall>user n cs q. ''..'' \<notin> set cs \<longrightarrow> resolve user fs' n dest cs = Inr q \<longrightarrow> prefix dest q)"
proof -
  have s: "sealed dest fs fs'" "good_links dest fs'"
    using snapshot_Extract_sealed [OF assms(1-3), of priv sha encode unpack lim blob expected] assms(4) by simp_all
  then have "real_path fs' dest" by (simp add: sealed_def)
  then have "prefix dest q" if "''..'' \<notin> set cs" "resolve user fs' n dest cs = Inr q" for user n cs q
    using resolve_inside [OF s(2), of dest cs 0 cs user n q] that by auto
  then show ?thesis using s(1) by (auto simp: sealed_def outside_same_def)
qed


section \<open>Witnesses\<close>

lemma node_table: "node fs p = Some n \<Longrightarrow> p = [] \<and> n = Dir 493 \<or> (p, n) \<in> set fs"
  by (auto simp: node_def dest: map_of_SomeD split: if_splits)

lemma table_tree_ok:
  assumes "distinct (map fst fs)" and "list_all (\<lambda>(p, n). comps p \<and> p \<noteq> [] \<and> (strict_prefix root p \<longrightarrow> (case node fs (butlast p) of Some (Dir m) \<Rightarrow> True | _ \<Rightarrow> False))) fs"
  shows "tree_ok root fs"
proof -
  have "\<exists>m. node fs (butlast p) = Some (Dir m)" if pre: "strict_prefix root p" and some: "node fs p \<noteq> None" for p
  proof -
    have "p \<noteq> []" using pre by auto
    then obtain n where "(p, n) \<in> set fs" using some node_table by blast
    then have "case node fs (butlast p) of Some (Dir m) \<Rightarrow> True | _ \<Rightarrow> False" using assms(2) pre by (auto simp: list_all_iff)
    then show ?thesis by (auto split: option.splits fnode.splits)
  qed
  then show ?thesis using assms by (auto simp: tree_ok_def list_all_iff simp del: distinct_map)
qed

lemma table_rebuildable:
  assumes "tree_ok root fs" and "node fs root = Some (Dir m)" and "root \<noteq> []"
    and "list_all (\<lambda>(p, n). case n of Dir m \<Rightarrow> m < 512 \<and> rwx priv m | Regular m _ \<Rightarrow> m < 512 | Link _ \<Rightarrow> True) fs"
  shows "rebuildable priv root fs"
proof -
  have "fmode n < 512" if "node fs p = Some n" "\<forall>t. n \<noteq> Link t" for p n
    using node_table [OF that(1)] assms(4) that(2) by (cases n) (auto simp: list_all_iff split: fnode.splits)
  moreover have "rwx priv m" if "node fs (root @ q) = Some (Dir m)" for q m
    using node_table [OF that] assms(3,4) by (auto simp: list_all_iff)
  ultimately show ?thesis using assms(1,2) by (auto simp: rebuildable_def)
qed

lemma source_fs_rebuildable: "rebuildable False [''src''] source_fs"
proof (rule table_rebuildable)
  show "tree_ok [''src''] source_fs" by (rule table_tree_ok) code_simp+
qed code_simp+

lemma workspace_fs_real: "real_path workspace_fs [''work'']"
  by (auto simp: real_path_def prefix_Cons node_def workspace_fs_def)

lemma workspace_fs_empty: "empty_dir False [''work''] workspace_fs"
proof -
  have "open_path False workspace_fs [''work'']" by (auto simp: open_path_def prefix_Cons node_def workspace_fs_def x_ok_def w_ok_def)
  moreover have "node workspace_fs ([''work''] @ q) = None" if "q \<noteq> []" for q using that by (simp add: node_def workspace_fs_def)
  moreover have "comps [''work'']" "distinct (map fst workspace_fs)" by code_simp+
  moreover have "node workspace_fs [''work''] = Some (Dir 448) \<and> r_ok False 448" by code_simp
  ultimately show ?thesis unfolding empty_dir_def by blast
qed

theorem snapshot_roundtrip_witness:
  "\<exists>meta stored' data fs'. snapshot_Capture False sample_sha sample_encode sample_pack sample_limits 0 [''src''] source_fs source_fs (\<lambda>_. None) = Inr (meta, stored') \<and>
     stored' (SourceDigest meta) = Some data \<and>
     snapshot_Extract False sample_sha sample_encode sample_unpack sample_limits (Some data) [''work''] meta workspace_fs = (Inr (), fs') \<and>
     node fs' [''work'', ''lib'', ''a.go''] = Some (Regular 420 ''package lib'') \<and> node fs' [''work'', ''main''] = Some (Link ''lib/a.go'') \<and>
     node fs' [''work'', ''.git''] = None"
proof -
  have lim: "validateLimits sample_limits" by code_simp
  have "case snapshot_Capture False sample_sha sample_encode sample_pack sample_limits 0 [''src''] source_fs source_fs (\<lambda>_. None) of
      Inl _ \<Rightarrow> False | Inr _ \<Rightarrow> True" by code_simp
  then obtain meta stored' where cap: "snapshot_Capture False sample_sha sample_encode sample_pack sample_limits 0 [''src''] source_fs source_fs (\<lambda>_. None) = Inr (meta, stored')"
    by (auto split: sum.splits)
  have "\<exists>data fs'. stored' (SourceDigest meta) = Some data \<and>
      snapshot_Extract False sample_sha sample_encode sample_unpack sample_limits (Some data) [''work''] meta workspace_fs = (Inr (), fs') \<and>
      (\<forall>q. q \<noteq> [] \<longrightarrow> node fs' ([''work''] @ q) = (if git_skipped source_fs [''src''] ([''src''] @ q) then None else node source_fs ([''src''] @ q))) \<and>
      (\<forall>p. \<not> strict_prefix [''work''] p \<longrightarrow> node fs' p = node workspace_fs p)"
    by (rule snapshot_roundtrip [OF lim source_fs_rebuildable workspace_fs_empty sample_sha_valid sample_codec _ cap]) simp
  then obtain data fs' where e: "stored' (SourceDigest meta) = Some data"
      "snapshot_Extract False sample_sha sample_encode sample_unpack sample_limits (Some data) [''work''] meta workspace_fs = (Inr (), fs')"
      "\<And>q. q \<noteq> [] \<Longrightarrow> node fs' ([''work''] @ q) = (if git_skipped source_fs [''src''] ([''src''] @ q) then None else node source_fs ([''src''] @ q))"
    by blast
  have "\<not> git_skipped source_fs [''src''] [''src'', ''lib'', ''a.go'']" "\<not> git_skipped source_fs [''src''] [''src'', ''main'']"
    "git_skipped source_fs [''src''] [''src'', ''.git'']" "node source_fs [''src'', ''lib'', ''a.go''] = Some (Regular 420 ''package lib'')"
    "node source_fs [''src'', ''main''] = Some (Link ''lib/a.go'')" by code_simp+
  then show ?thesis using cap e(1,2) e(3) [of "[''lib'', ''a.go'']"] e(3) [of "[''main'']"] e(3) [of "[''.git'']"] by auto
qed

definition attack_blob :: string where
  "attack_blob = sample_pack [\<lparr> TName = ''../etc/passwd'', TType = TypeReg, TMode = 420, TSize = 1, TLinkname = '''', TContent = ''x'' \<rparr>]"

definition attack_meta :: SourceSnapshot where
  "attack_meta = \<lparr> SourceDigest = sample_sha [], BlobDigest = sample_sha [], SnapFormat = ''tar-gzip-v1'',
     SnapArchiveSize = 44, SnapLogicalSize = 1, SnapEntryCount = 1, SnapCreatedAt = 0 \<rparr>"

theorem snapshot_confined_witness:
  "\<exists>fs'. snapshot_Extract False sample_sha sample_encode sample_unpack sample_limits (Some attack_blob) [''work''] attack_meta workspace_fs
       = (Inl ''unsafe archive path'', fs') \<and>
     node fs' [''etc'', ''passwd''] = Some (Regular 420 ''root'')"
proof -
  let ?f = "snapshot_Extract False sample_sha sample_encode sample_unpack sample_limits (Some attack_blob) [''work''] attack_meta workspace_fs"
  have r: "fst ?f = Inl ''unsafe archive path''" by code_simp
  have "node workspace_fs ([''work''] @ q) \<noteq> Some (Link t)" for q t by (cases q) (simp_all add: node_def workspace_fs_def)
  then have "linkless [''work''] workspace_fs" by (auto simp: linkless_def elim!: prefixE)
  moreover have "comps [''work'']" by code_simp
  ultimately have "node (snd ?f) [''etc'', ''passwd''] = node workspace_fs [''etc'', ''passwd'']"
    using snapshot_confined [OF _ workspace_fs_real, where fs' = "snd ?f" and r = "fst ?f"] by simp
  moreover have "node workspace_fs [''etc'', ''passwd''] = Some (Regular 420 ''root'')" by code_simp
  ultimately show ?thesis using r by (metis prod.collapse)
qed

end
