(* ===== verification/Calls.thy ===== *)
theory Calls
  imports Prelude "HOL-Library.State_Monad"
begin

text \<open>
  Programs that call code outside the model (the container daemon, the artifact and cache services, a
  shell): a state monad whose state is the list of the calls made so far. The answers come from an environment
  that sees the whole history, so that a theorem for every environment covers every behaviour of that code.
\<close>

type_synonym ('c, 'r) environment = "'c list \<Rightarrow> 'c \<Rightarrow> 'r"
type_synonym ('c, 'a) program = "('c list, 'a) state"

definition ask :: "('c, 'r) environment \<Rightarrow> 'c \<Rightarrow> ('c, 'r) program" where
  "ask env c = State (\<lambda>calls. (env calls c, calls @ [c]))"

lemma run_ask [simp]: "run_state (ask env c) calls = (env calls c, calls @ [c])"
  by (simp add: ask_def)

section \<open>What a program adds to the history\<close>

text \<open>\<open>appends P m\<close>: the program adds calls to the history, and \<open>P\<close> holds of the history before, the added
  calls and the value.\<close>

definition appends :: "('c list \<Rightarrow> 'c list \<Rightarrow> 'a \<Rightarrow> bool) \<Rightarrow> ('c, 'a) program \<Rightarrow> bool" where
  "appends P m \<longleftrightarrow> (\<forall>tr. \<exists>cs x. run_state m tr = (x, tr @ cs) \<and> P tr cs x)"

lemma appends_return [intro]: "(\<And>tr. P tr [] x) \<Longrightarrow> appends P (State_Monad.return x)"
  by (simp add: appends_def)

lemma appends_ask: "(\<And>tr. P tr [c] (env tr c)) \<Longrightarrow> appends P (ask env c)"
  by (simp add: appends_def)

lemma appends_bind:
  assumes "appends Q m" and "\<And>tr cs x. Q tr cs x \<Longrightarrow> \<exists>ds y. run_state (f x) (tr @ cs) = (y, tr @ cs @ ds) \<and> P tr (cs @ ds) y"
  shows "appends P (State_Monad.bind m f)"
  unfolding appends_def
proof
  fix tr
  obtain cs x where m: "run_state m tr = (x, tr @ cs)" "Q tr cs x" using assms(1) unfolding appends_def by metis
  obtain ds y where f: "run_state (f x) (tr @ cs) = (y, tr @ cs @ ds)" "P tr (cs @ ds) y" using assms(2) [OF m(2)] by blast
  have "run_state (State_Monad.bind m f) tr = (y, tr @ (cs @ ds))" using m(1) f(1) by simp
  then show "\<exists>cs x. run_state (State_Monad.bind m f) tr = (x, tr @ cs) \<and> P tr cs x" using f(2) by blast
qed

lemma appends_ask_bind:
  assumes "\<And>tr. \<exists>ds y. run_state (f (env tr c)) (tr @ [c]) = (y, tr @ c # ds) \<and> P tr (c # ds) y"
  shows "appends P (State_Monad.bind (ask env c) f)"
  using assms by (auto simp: appends_def) (metis append_Cons append_Nil append_assoc)

lemma appends_mono: "appends P m \<Longrightarrow> (\<And>tr cs x. P tr cs x \<Longrightarrow> Q tr cs x) \<Longrightarrow> appends Q m"
  unfolding appends_def by meson

lemma appendsE:
  assumes "appends P m"
  obtains cs x where "run_state m tr = (x, tr @ cs)" "P tr cs x"
  using assms unfolding appends_def by metis

section \<open>Every answer along a history\<close>

definition all_replies :: "('c \<Rightarrow> 'r \<Rightarrow> bool) \<Rightarrow> ('c, 'r) environment \<Rightarrow> 'c list \<Rightarrow> 'c list \<Rightarrow> bool" where
  "all_replies ok env tr cs \<longleftrightarrow> (\<forall>i < length cs. ok (cs ! i) (env (tr @ take i cs) (cs ! i)))"

lemma all_replies_Nil [simp]: "all_replies ok env tr []"
  by (simp add: all_replies_def)

lemma all_replies_append: "all_replies ok env tr (cs @ ds) \<longleftrightarrow> all_replies ok env tr cs \<and> all_replies ok env (tr @ cs) ds"
proof -
  have "(\<forall>i < length (cs @ ds). Q i) \<longleftrightarrow> (\<forall>i < length cs. Q i) \<and> (\<forall>i < length ds. Q (length cs + i))" for Q
    by (auto, metis add_diff_inverse_nat nat_add_left_cancel_less)
  then show ?thesis by (simp add: all_replies_def nth_append)
qed

lemma all_replies_Cons [simp]: "all_replies ok env tr (c # ds) \<longleftrightarrow> ok c (env tr c) \<and> all_replies ok env (tr @ [c]) ds"
  using all_replies_append [of ok env tr "[c]" ds] by (simp add: all_replies_def)

end
