(* ===== verification/Executors.thy ===== *)
theory Executors
  imports Calls Pipeline_Config
begin

text \<open>
  \<open>internal/executor\<close>: the shell executor (\<open>local.go\<close>), the container executor (\<open>docker.go\<close>) and the routing of
  a job to one of them (\<open>job.go\<close>). The container daemon and the shell are environments: every call is recorded
  with its arguments and answered arbitrarily. An answer also says whether the context was canceled when the
  call returned.

  The lemmas show that a created container is always removed, whatever fails, and that a job passes exactly
  when every call succeeded and every step exited with status 0.
\<close>

section \<open>Results\<close>

record Result =
  ExitCode :: int
  Err :: "string option"

record DockerLimits =
  MemoryBytes :: int
  NanoCPUs :: int
  PidsLimit :: int

definition normalizeDockerLimits :: "DockerLimits \<Rightarrow> (string, DockerLimits) result" where
  "normalizeDockerLimits lim =
    (if MemoryBytes lim < 0 \<or> NanoCPUs lim < 0 \<or> PidsLimit lim < 0 then Inl ''Docker resource limits must not be negative''
     else Inr \<lparr> MemoryBytes = if MemoryBytes lim = 0 then 2 ^ 30 else MemoryBytes lim,
       NanoCPUs = if NanoCPUs lim = 0 then 2000000000 else NanoCPUs lim,
       PidsLimit = if PidsLimit lim = 0 then 256 else PidsLimit lim \<rparr>)"

definition infrastructureError :: "string \<Rightarrow> string \<Rightarrow> Result" where
  "infrastructureError operation e = \<lparr> ExitCode = -1, Err = Some (''Docker '' @ operation @ '': '' @ e) \<rparr>"

section \<open>Calls\<close>

text \<open>\<open>StreamWait\<close> is the wait for the end of the output of a step or of the context.\<close>

datatype exec_call =
    Shell string
  | ImageInspect string
  | ImagePull string
  | PullWait
  | ContainerCreate string string DockerLimits
  | ContainerStart string
  | ExecCreate string string
  | ExecAttach string
  | StreamWait string
  | ExecInspect string
  | ContainerKill string
  | ContainerRemove string
  | ContainerList

record exec_reply =
  rErr :: "string option"
  rNotFound :: bool
  rID :: string
  rRunning :: bool
  rExitCode :: int
  rDoneFirst :: bool
  rCanceled :: bool
  rItems :: "(string \<times> bool) list"

type_synonym exec_env = "(exec_call, exec_reply) environment"

section \<open>Local commands\<close>

text \<open>The exit code of a command that was started, and -1 for one that could not be.\<close>

definition Local_Run :: "exec_env \<Rightarrow> string \<Rightarrow> (exec_call, Result) program" where
  "Local_Run env command = do {
     r \<leftarrow> ask env (Shell command);
     State_Monad.return (case rErr r of
       None \<Rightarrow> \<lparr> ExitCode = 0, Err = None \<rparr>
     | Some e \<Rightarrow> if rRunning r then \<lparr> ExitCode = rExitCode r, Err = Some e \<rparr>
         else \<lparr> ExitCode = -1, Err = Some (''start shell process: '' @ e) \<rparr>) }"

section \<open>Containers\<close>

definition runStep :: "exec_env \<Rightarrow> string \<Rightarrow> string \<Rightarrow> (exec_call, Result) program" where
  "runStep env containerID command = do {
     created \<leftarrow> ask env (ExecCreate containerID command);
     case rErr created of Some e \<Rightarrow> State_Monad.return (infrastructureError ''create container exec'' e)
     | None \<Rightarrow> do {
     attached \<leftarrow> ask env (ExecAttach (rID created));
     case rErr attached of Some e \<Rightarrow> State_Monad.return (infrastructureError ''attach container exec'' e)
     | None \<Rightarrow> do {
     w \<leftarrow> ask env (StreamWait (rID created));
     if rDoneFirst w \<or> rCanceled w then do {
       _ \<leftarrow> ask env (ContainerKill containerID);
       State_Monad.return \<lparr> ExitCode = -1, Err = Some ''context canceled'' \<rparr> }
     else case rErr w of Some e \<Rightarrow> State_Monad.return (infrastructureError ''stream container exec output'' e)
     | None \<Rightarrow> do {
     inspected \<leftarrow> ask env (ExecInspect (rID created));
     State_Monad.return (case rErr inspected of Some e \<Rightarrow> infrastructureError ''inspect container exec'' e
       | None \<Rightarrow>
         if rRunning inspected then infrastructureError ''inspect container exec'' ''exec remained running after output stream closed''
         else if rExitCode inspected \<noteq> 0 then \<lparr> ExitCode = rExitCode inspected, Err = Some ''command exited'' \<rparr>
         else \<lparr> ExitCode = 0, Err = None \<rparr>) } } } }"

fun run_steps :: "exec_env \<Rightarrow> string \<Rightarrow> Step list \<Rightarrow> (exec_call, Result) program" where
  "run_steps env containerID [] = State_Monad.return \<lparr> ExitCode = 0, Err = None \<rparr>"
| "run_steps env containerID (step # steps) = do {
     r \<leftarrow> runStep env containerID (Run step);
     if Err r \<noteq> None then State_Monad.return r else run_steps env containerID steps }"

text \<open>The image is made available; an error stops the job.\<close>

definition ensure_image :: "exec_env \<Rightarrow> string \<Rightarrow> (exec_call, Result option) program" where
  "ensure_image env img = do {
     i \<leftarrow> ask env (ImageInspect img);
     case rErr i of None \<Rightarrow> State_Monad.return None
     | Some e \<Rightarrow>
       if \<not> rNotFound i then State_Monad.return (Some (infrastructureError ''inspect image'' e))
       else do {
         p \<leftarrow> ask env (ImagePull img);
         case rErr p of Some e' \<Rightarrow> State_Monad.return (Some (infrastructureError ''pull image'' e'))
         | None \<Rightarrow> do {
           w \<leftarrow> ask env PullWait;
           State_Monad.return (map_option (infrastructureError ''pull image'') (rErr w)) } } }"

definition with_container :: "exec_env \<Rightarrow> string \<Rightarrow> Step list \<Rightarrow> (exec_call, Result) program" where
  "with_container env containerID steps = do {
     started \<leftarrow> ask env (ContainerStart containerID);
     r \<leftarrow> (case rErr started of Some e \<Rightarrow> State_Monad.return (infrastructureError ''start container'' e)
       | None \<Rightarrow> run_steps env containerID steps);
     removed \<leftarrow> ask env (ContainerRemove containerID);
     State_Monad.return (case rErr removed of None \<Rightarrow> r
       | Some e \<Rightarrow> infrastructureError ''remove container'' (case Err r of None \<Rightarrow> e | Some e' \<Rightarrow> e @ '' (after '' @ e' @ '')'')) }"

definition Docker_RunJob :: "exec_env \<Rightarrow> DockerLimits \<Rightarrow> string \<Rightarrow> string \<Rightarrow> Step list \<Rightarrow> (exec_call, Result) program" where
  "Docker_RunJob env lim name img steps =
    (case normalizeDockerLimits lim of Inl e \<Rightarrow> State_Monad.return (infrastructureError ''configure resource limits'' e)
     | Inr lim' \<Rightarrow> do {
       bad \<leftarrow> ensure_image env img;
       case bad of Some r \<Rightarrow> State_Monad.return r
       | None \<Rightarrow> do {
         created \<leftarrow> ask env (ContainerCreate img name lim');
         case rErr created of Some e \<Rightarrow> State_Monad.return (infrastructureError ''create container'' e)
         | None \<Rightarrow> with_container env (rID created) steps } })"

text \<open>\<open>ReconcileOrphans\<close>: the label filter of the daemon is checked again on the items.\<close>

fun remove_orphans :: "exec_env \<Rightarrow> (string \<times> bool) list \<Rightarrow> string list \<Rightarrow> (exec_call, (string, string list) result) program" where
  "remove_orphans env [] removed = State_Monad.return (Inr removed)"
| "remove_orphans env ((containerID, managed) # items) removed =
    (if \<not> managed then remove_orphans env items removed
     else do {
       r \<leftarrow> ask env (ContainerRemove containerID);
       if rErr r \<noteq> None \<and> \<not> rNotFound r then State_Monad.return (Inl (''remove orphaned container '' @ containerID))
       else remove_orphans env items (removed @ [containerID]) })"

definition ReconcileOrphans :: "exec_env \<Rightarrow> (exec_call, (string, string list) result) program" where
  "ReconcileOrphans env = do {
     listed \<leftarrow> ask env ContainerList;
     case rErr listed of Some e \<Rightarrow> State_Monad.return (Inl (''list ForgeCI-managed containers: '' @ e))
     | None \<Rightarrow> remove_orphans env (rItems listed) [] }"

section \<open>Routing\<close>

fun local_steps :: "exec_env \<Rightarrow> Step list \<Rightarrow> (exec_call, Result) program" where
  "local_steps env [] = State_Monad.return \<lparr> ExitCode = 0, Err = None \<rparr>"
| "local_steps env (step # steps) = do {
     r \<leftarrow> Local_Run env (Run step);
     if Err r \<noteq> None then State_Monad.return r else local_steps env steps }"

text \<open>\<open>docker\<close> is \<open>None\<close> when the container executor is not available.\<close>

definition Job_RunJob :: "exec_env \<Rightarrow> DockerLimits option \<Rightarrow> string \<Rightarrow> Job \<Rightarrow> (exec_call, Result) program" where
  "Job_RunJob env docker name job =
    (case Image job of
       Some img \<Rightarrow>
         (case docker of None \<Rightarrow> State_Monad.return \<lparr> ExitCode = -1, Err = Some ''Docker executor is unavailable'' \<rparr>
          | Some lim \<Rightarrow> Docker_RunJob env lim name img (Steps job))
     | None \<Rightarrow> local_steps env (Steps job))"

section \<open>What the calls are and when a job passes\<close>

text \<open>An answer that lets the job go on.\<close>

definition fine :: "exec_call \<Rightarrow> exec_reply \<Rightarrow> bool" where
  "fine c r \<longleftrightarrow>
    (case c of
       ImageInspect _ \<Rightarrow> rErr r = None \<or> rNotFound r
     | StreamWait _ \<Rightarrow> rErr r = None \<and> \<not> rDoneFirst r \<and> \<not> rCanceled r
     | ExecInspect _ \<Rightarrow> rErr r = None \<and> \<not> rRunning r \<and> rExitCode r = 0
     | ContainerKill _ \<Rightarrow> True
     | _ \<Rightarrow> rErr r = None)"

text \<open>A call on a step in the given container.\<close>

definition on_step :: "string \<Rightarrow> exec_call \<Rightarrow> bool" where
  "on_step containerID c \<longleftrightarrow>
    (case c of ExecCreate i _ \<Rightarrow> i = containerID | ContainerKill i \<Rightarrow> i = containerID
     | ExecAttach _ \<Rightarrow> True | StreamWait _ \<Rightarrow> True | ExecInspect _ \<Rightarrow> True | _ \<Rightarrow> False)"

text \<open>Only the exit status of a step gives a failure that is not one of the infrastructure.\<close>

definition exit_of_step :: "exec_env \<Rightarrow> exec_call list \<Rightarrow> exec_call list \<Rightarrow> Result \<Rightarrow> bool" where
  "exit_of_step env tr cs r \<longleftrightarrow>
    (\<exists>cs' i. cs = cs' @ [ExecInspect i] \<and> rErr (env (tr @ cs') (ExecInspect i)) = None \<and> ExitCode r = rExitCode (env (tr @ cs') (ExecInspect i)))"

definition step_spec :: "exec_env \<Rightarrow> string \<Rightarrow> exec_call list \<Rightarrow> exec_call list \<Rightarrow> Result \<Rightarrow> bool" where
  "step_spec env containerID tr cs r \<longleftrightarrow> (\<forall>c \<in> set cs. on_step containerID c) \<and> (Err r = None \<longleftrightarrow> all_replies fine env tr cs) \<and>
     (Err r = None \<longrightarrow> ExitCode r = 0) \<and> (Err r \<noteq> None \<longrightarrow> ExitCode r \<noteq> -1 \<longrightarrow> exit_of_step env tr cs r)"

lemma runStep_spec: "appends (step_spec env containerID) (runStep env containerID command)"
  unfolding appends_def runStep_def
  by (intro allI)
    (auto simp: step_spec_def fine_def on_step_def exit_of_step_def infrastructureError_def split: option.split)

lemma exit_of_step_append: "exit_of_step env (tr @ cs) ds r \<Longrightarrow> exit_of_step env tr (cs @ ds) r"
  unfolding exit_of_step_def by (metis append.assoc)

lemma run_steps_spec: "appends (step_spec env containerID) (run_steps env containerID steps)"
proof (induction steps)
  case Nil
  show ?case by (auto simp: step_spec_def intro: appends_return)
next
  case (Cons step steps)
  show ?case
    unfolding run_steps.simps
  proof (rule appends_bind [OF runStep_spec])
    fix tr cs r assume r: "step_spec env containerID tr cs r"
    show "\<exists>ds y. run_state (if Err r \<noteq> None then State_Monad.return r else run_steps env containerID steps) (tr @ cs) = (y, tr @ cs @ ds) \<and>
        step_spec env containerID tr (cs @ ds) y"
    proof (cases "Err r = None")
      case True
      obtain ds y where d: "run_state (run_steps env containerID steps) (tr @ cs) = (y, (tr @ cs) @ ds)" "step_spec env containerID (tr @ cs) ds y"
        using Cons by (rule appendsE)
      have "step_spec env containerID tr (cs @ ds) y"
        using r d(2) True exit_of_step_append by (auto simp: step_spec_def all_replies_append)
      then show ?thesis using d(1) True by simp
    qed (use r in simp)
  qed
qed

definition container_spec :: "exec_env \<Rightarrow> string \<Rightarrow> exec_call list \<Rightarrow> exec_call list \<Rightarrow> Result \<Rightarrow> bool" where
  "container_spec env containerID tr cs r \<longleftrightarrow>
    (\<exists>mid. cs = ContainerStart containerID # mid @ [ContainerRemove containerID] \<and> (\<forall>c \<in> set mid. on_step containerID c) \<and>
       (Err r \<noteq> None \<longrightarrow> ExitCode r \<noteq> -1 \<longrightarrow> exit_of_step env (tr @ [ContainerStart containerID]) mid r)) \<and>
    (Err r = None \<longleftrightarrow> all_replies fine env tr cs)"

lemma with_container_spec: "appends (container_spec env containerID) (with_container env containerID steps)"
  unfolding with_container_def
proof (rule appends_ask_bind)
  fix tr
  let ?start = "ContainerStart containerID" and ?stop = "ContainerRemove containerID"
  let ?m = "case rErr (env tr ?start) of Some e \<Rightarrow> State_Monad.return (infrastructureError ''start container'' e) | None \<Rightarrow> run_steps env containerID steps"
  obtain mid r where m: "run_state ?m (tr @ [?start]) = (r, (tr @ [?start]) @ mid)" "\<forall>c \<in> set mid. on_step containerID c"
    "Err r = None \<longleftrightarrow> rErr (env tr ?start) = None \<and> all_replies fine env (tr @ [?start]) mid"
    "Err r \<noteq> None \<longrightarrow> ExitCode r \<noteq> -1 \<longrightarrow> exit_of_step env (tr @ [?start]) mid r"
  proof (cases "rErr (env tr ?start)")
    case None
    obtain mid r where s: "run_state (run_steps env containerID steps) (tr @ [?start]) = (r, (tr @ [?start]) @ mid)" "step_spec env containerID (tr @ [?start]) mid r"
      using run_steps_spec by (rule appendsE)
    show thesis by (rule that [of r mid]) (use s None in \<open>simp_all add: step_spec_def del: not_None_eq\<close>)
  next
    case (Some e)
    then show thesis using that [of "infrastructureError ''start container'' e" "[]"] by (simp add: infrastructureError_def)
  qed
  let ?r = "case rErr (env (tr @ ?start # mid) ?stop) of None \<Rightarrow> r
    | Some e \<Rightarrow> infrastructureError ''remove container'' (case Err r of None \<Rightarrow> e | Some e' \<Rightarrow> e @ '' (after '' @ e' @ '')'')"
  have "container_spec env containerID tr (?start # mid @ [?stop]) ?r"
    using m(2-4) by (auto simp: container_spec_def all_replies_append fine_def infrastructureError_def split: option.split)
  then show "\<exists>ds y. run_state (do { r \<leftarrow> ?m; removed \<leftarrow> ask env ?stop;
      State_Monad.return (case rErr removed of None \<Rightarrow> r
       | Some e \<Rightarrow> infrastructureError ''remove container'' (case Err r of None \<Rightarrow> e | Some e' \<Rightarrow> e @ '' (after '' @ e' @ '')'')) }) (tr @ [?start]) = (y, tr @ ?start # ds) \<and>
      container_spec env containerID tr (?start # ds) y"
    using m(1) by auto
qed

definition image_call :: "exec_call \<Rightarrow> bool" where
  "image_call c \<longleftrightarrow> (case c of ImageInspect _ \<Rightarrow> True | ImagePull _ \<Rightarrow> True | PullWait \<Rightarrow> True | _ \<Rightarrow> False)"

lemma ensure_image_spec:
  "appends (\<lambda>tr cs bad. (\<forall>c \<in> set cs. image_call c) \<and> (bad = None \<longleftrightarrow> all_replies fine env tr cs) \<and>
     (\<forall>r. bad = Some r \<longrightarrow> Err r \<noteq> None \<and> ExitCode r = -1)) (ensure_image env img)"
  unfolding appends_def ensure_image_def
  by (intro allI) (auto simp: fine_def image_call_def infrastructureError_def split: option.split)

text \<open>The history of a container job.\<close>

lemma Docker_RunJob_cases:
  obtains (no_container) r calls where "run_state (Docker_RunJob env lim name img steps) [] = (r, calls)"
      "Err r \<noteq> None" "ExitCode r = -1" "\<forall>c \<in> set calls. image_call c \<or> (\<exists>lim'. c = ContainerCreate img name lim')"
      "(\<exists>e. normalizeDockerLimits lim = Inl e) \<or> \<not> all_replies fine env [] calls"
  | (container) r pre lim' mid where "normalizeDockerLimits lim = Inr lim'" "\<forall>c \<in> set pre. image_call c"
      "rErr (env pre (ContainerCreate img name lim')) = None"
      "run_state (Docker_RunJob env lim name img steps) [] = (r, pre @ ContainerCreate img name lim' # mid)"
      "container_spec env (rID (env pre (ContainerCreate img name lim'))) (pre @ [ContainerCreate img name lim']) mid r"
      "all_replies fine env [] pre"
proof (cases "normalizeDockerLimits lim")
  case (Inl e)
  then show thesis using no_container [of "infrastructureError ''configure resource limits'' e" "[]"] by (simp add: Docker_RunJob_def infrastructureError_def)
next
  case (Inr lim')
  let ?c = "ContainerCreate img name lim'"
  obtain pre bad where i: "run_state (ensure_image env img) [] = (bad, [] @ pre)" "\<forall>c \<in> set pre. image_call c" "bad = None \<longleftrightarrow> all_replies fine env [] pre"
    "\<forall>r. bad = Some r \<longrightarrow> Err r \<noteq> None \<and> ExitCode r = -1"
    using appendsE [OF ensure_image_spec, of env img "[]"] by metis
  show thesis
  proof (cases bad)
    case (Some r)
    then show thesis using Inr i no_container [of r pre] by (simp add: Docker_RunJob_def)
  next
    case None
    show thesis
    proof (cases "rErr (env pre ?c)")
      case (Some e)
      then show thesis using Inr i None no_container [of "infrastructureError ''create container'' e" "pre @ [?c]"]
        by (auto simp: Docker_RunJob_def infrastructureError_def all_replies_append fine_def)
    next
      case ok: None
      obtain mid r where "run_state (with_container env (rID (env pre ?c)) steps) (pre @ [?c]) = (r, (pre @ [?c]) @ mid)"
        "container_spec env (rID (env pre ?c)) (pre @ [?c]) mid r"
        using appendsE [OF with_container_spec, of env "rID (env pre ?c)" steps "pre @ [?c]"] by metis
      then show thesis using Inr i None ok container [of lim' pre r mid] by (simp add: Docker_RunJob_def)
    qed
  qed
qed

section \<open>Properties\<close>


text \<open>A container job passes exactly when its limits are accepted and every answer of the daemon along its
  history was good: no call failed, no wait was canceled, and every step had ended with exit status 0. A job that
  fails with another exit code than -1 has the exit status of one of its steps.\<close>

theorem docker_passes_iff:
  "\<exists>r calls. run_state (Docker_RunJob env lim name img steps) [] = (r, calls) \<and>
     (Err r = None \<longleftrightarrow> (\<exists>lim'. normalizeDockerLimits lim = Inr lim') \<and> all_replies fine env [] calls) \<and>
     (Err r \<noteq> None \<longrightarrow> ExitCode r \<noteq> -1 \<longrightarrow> (\<exists>pre i post. calls = pre @ ExecInspect i # post \<and> ExitCode r = rExitCode (env pre (ExecInspect i))))"
proof (cases rule: Docker_RunJob_cases [of env lim name img steps])
  case (no_container r calls)
  then show ?thesis by auto
next
  case (container r pre lim' mid)
  let ?c = "ContainerCreate img name lim'"
  have iff: "Err r = None \<longleftrightarrow> all_replies fine env [] (pre @ ?c # mid)"
    using container by (simp add: container_spec_def all_replies_append fine_def)
  have "\<exists>p i q. pre @ ?c # mid = p @ ExecInspect i # q \<and> ExitCode r = rExitCode (env p (ExecInspect i))" if err: "Err r \<noteq> None" "ExitCode r \<noteq> -1"
  proof -
    let ?s = "ContainerStart (rID (env pre ?c))" and ?e = "ContainerRemove (rID (env pre ?c))"
    have "\<exists>m. mid = ?s # m @ [?e] \<and> exit_of_step env ((pre @ [?c]) @ [?s]) m r" using container(5) err unfolding container_spec_def by blast
    then obtain m where m: "mid = ?s # m @ [?e]" "exit_of_step env ((pre @ [?c]) @ [?s]) m r" by blast
    then obtain m' i where "m = m' @ [ExecInspect i]" "ExitCode r = rExitCode (env (((pre @ [?c]) @ [?s]) @ m') (ExecInspect i))"
      by (auto simp: exit_of_step_def)
    then show ?thesis using m(1) by (intro exI [of _ "((pre @ [?c]) @ [?s]) @ m'"] exI [of _ i] exI [of _ "[?e]"]) simp
  qed
  then show ?thesis using container(1,4) iff by (intro exI [of _ r] exI [of _ "pre @ ?c # mid"]) simp
qed

section \<open>Witnesses\<close>

text \<open>A daemon whose only bad answer is the exit status of a step that runs \<open>false\<close>.\<close>

definition sample_daemon :: exec_env where
  "sample_daemon calls c = \<lparr> rErr = None, rNotFound = False, rID = ''c1'', rRunning = False,
     rExitCode = (if ExecCreate ''c1'' ''false'' \<in> set calls then 1 else 0), rDoneFirst = False, rCanceled = False, rItems = [] \<rparr>"

definition sample_docker_limits :: DockerLimits where
  "sample_docker_limits = \<lparr> MemoryBytes = 0, NanoCPUs = 0, PidsLimit = 64 \<rparr>"

lemma sample_docker_run:
  "run_state (Docker_RunJob sample_daemon sample_docker_limits ''test'' ''alpine'' [\<lparr> Run = ''false'' \<rparr>]) [] =
    (\<lparr> ExitCode = 1, Err = Some ''command exited'' \<rparr>,
     [ImageInspect ''alpine'', ContainerCreate ''alpine'' ''test'' \<lparr> MemoryBytes = 2 ^ 30, NanoCPUs = 2000000000, PidsLimit = 64 \<rparr>,
      ContainerStart ''c1'', ExecCreate ''c1'' ''false'', ExecAttach ''c1'', StreamWait ''c1'', ExecInspect ''c1'', ContainerRemove ''c1''])"
  by (simp add: Docker_RunJob_def normalizeDockerLimits_def sample_docker_limits_def ensure_image_def with_container_def runStep_def sample_daemon_def)


theorem docker_passes_iff_witness:
  "\<exists>r calls. run_state (Docker_RunJob sample_daemon sample_docker_limits ''test'' ''alpine'' [\<lparr> Run = ''false'' \<rparr>]) [] = (r, calls) \<and>
     Err r \<noteq> None \<and> \<not> all_replies fine sample_daemon [] calls \<and> ExitCode r = 1"
proof -
  have lim: "\<exists>lim'. normalizeDockerLimits sample_docker_limits = Inr lim'" by (simp add: normalizeDockerLimits_def sample_docker_limits_def)
  then show ?thesis
    using docker_passes_iff [of sample_daemon sample_docker_limits "''test''" "''alpine''" "[\<lparr> Run = ''false'' \<rparr>]"] sample_docker_run
    by (simp del: split_paired_Ex all_replies_Cons) 
qed

end
