(* ===== verification/Local_Runner.thy ===== *)
theory Local_Runner
  imports Executors Pipeline_Graph
begin

text \<open>
  \<open>internal/runner/runner.go\<close>: the scheduler that runs a pipeline in one process. A job is executed by a
  goroutine; the scheduler loop blocks, starts and completes jobs and reacts to cancellation. The state holds
  the loop's variables, the goroutines still running, the completions in the channel and whether the
  context is canceled. The step relation interleaves the loop, the goroutines and the cancellation freely.
  What a goroutine returns comes from \<open>executeJob\<close>, whose calls to the executor, the artifact and cache
  sessions and the job log are answered by an arbitrary environment. Output is not modelled.
\<close>

section \<open>States\<close>

datatype State = Pending | Running | Passed | Failed | Blocked | Canceled

definition terminal_state :: "State \<Rightarrow> bool" where
  "terminal_state s \<longleftrightarrow> s \<noteq> Pending \<and> s \<noteq> Running"

section \<open>Executing a job\<close>

datatype job_call =
    OpenLog string
  | ArtifactRestore string "ArtifactDownload list"
  | CacheRestore "CacheEntry list"
  | ExecuteJob string Job
  | ExecuteStep string
  | ArtifactPublish string "ArtifactUpload list"
  | CacheSave "CacheEntry list"

text \<open>\<open>jrErr\<close> is the error of an artifact call, with whether it is a pipeline error; \<open>jrLogErr\<close> says whether the
  job log has failed, and \<open>jrCanceled\<close> whether the context was canceled when the call returned.\<close>

record job_reply =
  jrErr :: "bool option"
  jrResult :: Result
  jrLogErr :: bool
  jrCanceled :: bool

type_synonym job_env = "(job_call, job_reply) environment"

record Runner =
  hasJobExecutor :: bool
  hasArtifacts :: bool
  hasCache :: bool
  hasLogs :: bool
  MaxParallel :: int

type_synonym outcome = "State \<times> bool"

definition finishJob :: "bool \<Rightarrow> Result \<Rightarrow> outcome" where
  "finishJob canceled execution =
    (if Err execution = None then (Passed, False)
     else if canceled then (Canceled, False)
     else if ExitCode execution \<ge> 0 then (Failed, False)
     else (Failed, True))"

definition finishJobExecution :: "bool \<Rightarrow> Result \<Rightarrow> outcome" where
  "finishJobExecution canceled execution = (if Err execution = None then (Passed, False) else finishJob canceled execution)"

definition artifact_failure :: "bool \<Rightarrow> bool \<Rightarrow> outcome" where
  "artifact_failure canceled pipelineError = (if canceled then (Canceled, False) else (Failed, \<not> pipelineError))"

definition publish :: "Runner \<Rightarrow> job_env \<Rightarrow> Node \<Rightarrow> (job_call, outcome) program" where
  "publish r env node = do {
     failed \<leftarrow> (if hasArtifacts r then do {
         a \<leftarrow> ask env (ArtifactPublish (NodeName node) (Upload (JobArtifacts (NodeJob node))));
         State_Monad.return (map_option (artifact_failure (jrCanceled a)) (jrErr a)) }
       else State_Monad.return None);
     case failed of Some out \<Rightarrow> State_Monad.return out
     | None \<Rightarrow> do {
       _ \<leftarrow> (if hasCache r then do { _ \<leftarrow> ask env (CacheSave (Save (JobCache (NodeJob node)))); State_Monad.return () }
         else State_Monad.return ());
       State_Monad.return (Passed, False) } }"

fun execute_steps :: "Runner \<Rightarrow> job_env \<Rightarrow> Node \<Rightarrow> Step list \<Rightarrow> (job_call, outcome) program" where
  "execute_steps r env node [] = publish r env node"
| "execute_steps r env node (step # steps) = do {
     e \<leftarrow> ask env (ExecuteStep (Run step));
     if hasLogs r \<and> jrLogErr e then State_Monad.return (Failed, True)
     else if Err (jrResult e) = None then execute_steps r env node steps
     else State_Monad.return (finishJob (jrCanceled e) (jrResult e)) }"

definition execute_body :: "Runner \<Rightarrow> job_env \<Rightarrow> Node \<Rightarrow> (job_call, outcome) program" where
  "execute_body r env node =
    (if hasJobExecutor r then do {
       e \<leftarrow> ask env (ExecuteJob (NodeName node) (NodeJob node));
       if hasLogs r \<and> jrLogErr e then State_Monad.return (Failed, True)
       else if fst (finishJobExecution (jrCanceled e) (jrResult e)) \<noteq> Passed
         then State_Monad.return (finishJobExecution (jrCanceled e) (jrResult e))
       else publish r env node }
     else execute_steps r env node (Steps (NodeJob node)))"

definition executeJob :: "Runner \<Rightarrow> job_env \<Rightarrow> Node \<Rightarrow> (job_call, outcome) program" where
  "executeJob r env node = do {
     _ \<leftarrow> (if hasLogs r then do { _ \<leftarrow> ask env (OpenLog (NodeName node)); State_Monad.return () } else State_Monad.return ());
     failed \<leftarrow> (if hasArtifacts r then do {
         a \<leftarrow> ask env (ArtifactRestore (NodeName node) (Download (JobArtifacts (NodeJob node))));
         State_Monad.return (map_option (artifact_failure (jrCanceled a)) (jrErr a)) }
       else State_Monad.return None);
     case failed of Some out \<Rightarrow> State_Monad.return out
     | None \<Rightarrow> do {
       _ \<leftarrow> (if hasCache r then do { _ \<leftarrow> ask env (CacheRestore (Restore (JobCache (NodeJob node)))); State_Monad.return () }
         else State_Monad.return ());
       execute_body r env node } }"

section \<open>The scheduler\<close>

datatype phase = LoopHead | Waiting | Returned

record local_run =
  States :: "string \<rightharpoonup> State"
  active :: int
  terminal :: int
  canceling :: bool
  Interrupted :: bool
  InternalError :: bool
  goroutines :: "string list"
  completions :: "(string \<times> outcome) list"
  observed :: "(string \<times> State option \<times> State) list"
  ctxDone :: bool
  runPhase :: phase

definition needs_list :: "Graph \<Rightarrow> string \<Rightarrow> string list" where
  "needs_list g name = (case map_of (Nodes g) name of Some n \<Rightarrow> NodeNeeds n | None \<Rightarrow> [])"

definition hasFailedDependency :: "Graph \<Rightarrow> (string \<rightharpoonup> State) \<Rightarrow> string \<Rightarrow> bool" where
  "hasFailedDependency g states name = list_ex (\<lambda>d. states d = Some Failed \<or> states d = Some Blocked) (needs_list g name)"

definition job_ready :: "Graph \<Rightarrow> (string \<rightharpoonup> State) \<Rightarrow> string \<Rightarrow> bool" where
  "job_ready g states name \<longleftrightarrow> states name = Some Pending \<and> list_all (\<lambda>d. states d = Some Passed) (needs_list g name)"

definition nextReadyJob :: "Graph \<Rightarrow> (string \<rightharpoonup> State) \<Rightarrow> string" where
  "nextReadyJob g states = (case filter (job_ready g states) (Order g) of [] \<Rightarrow> '''' | name # _ \<Rightarrow> name)"

text \<open>A state change is stored and observed.\<close>

definition change :: "string \<Rightarrow> State \<Rightarrow> local_run \<Rightarrow> local_run" where
  "change name new s = s\<lparr> States := (States s)(name \<mapsto> new), observed := observed s @ [(name, States s name, new)] \<rparr>"

text \<open>One pass over the order that ends every pending job of a kind.\<close>

fun end_pending :: "(local_run \<Rightarrow> string \<Rightarrow> bool) \<Rightarrow> State \<Rightarrow> string list \<Rightarrow> local_run \<Rightarrow> local_run" where
  "end_pending P new [] s = s"
| "end_pending P new (name # names) s =
    end_pending P new names
      (if States s name = Some Pending \<and> P s name then (change name new s)\<lparr> terminal := terminal s + 1 \<rparr> else s)"

definition start_job :: "string \<Rightarrow> local_run \<Rightarrow> local_run" where
  "start_job name s = (change name Running s)\<lparr> active := active s + 1, goroutines := goroutines s @ [name] \<rparr>"

definition pending_count :: "Graph \<Rightarrow> local_run \<Rightarrow> nat" where
  "pending_count g s = length (filter (\<lambda>n. States s n = Some Pending) (Order g))"

lemma nextReadyJob_ready: "nextReadyJob g states \<noteq> '''' \<Longrightarrow> nextReadyJob g states \<in> set (Order g) \<and> job_ready g states (nextReadyJob g states)"
proof -
  assume ne: "nextReadyJob g states \<noteq> ''''"
  then obtain name names where f: "filter (job_ready g states) (Order g) = name # names" by (auto simp: nextReadyJob_def split: list.splits)
  then have "name \<in> set (filter (job_ready g states) (Order g))" by simp
  then have "name \<in> set (Order g) \<and> job_ready g states name" by (simp only: set_filter mem_Collect_eq)
  then show ?thesis using f by (simp add: nextReadyJob_def)
qed

lemma filter_shorter: "x \<in> set xs \<Longrightarrow> P x \<Longrightarrow> \<not> Q x \<Longrightarrow> (\<And>y. Q y \<Longrightarrow> P y) \<Longrightarrow> length (filter Q xs) < length (filter P xs)"
proof (induction xs)
  case (Cons a xs)
  have le: "length (filter Q xs) \<le> length (filter P xs)" using Cons.prems(4) by (induction xs) auto
  show ?case using Cons le by (cases "a = x") (auto simp: less_Suc_eq_le)
qed simp

function start_jobs :: "Graph \<Rightarrow> int \<Rightarrow> local_run \<Rightarrow> local_run" where
  "start_jobs g maxParallel s =
    (if active s < maxParallel \<and> nextReadyJob g (States s) \<noteq> ''''
     then start_jobs g maxParallel (start_job (nextReadyJob g (States s)) s) else s)"
  by pat_completeness auto
termination
proof (relation "measure (\<lambda>(g, _, s). pending_count g s)")
  fix g :: Graph and maxParallel :: int and s :: local_run
  assume "active s < maxParallel \<and> nextReadyJob g (States s) \<noteq> ''''"
  then have n: "nextReadyJob g (States s) \<in> set (Order g)" "job_ready g (States s) (nextReadyJob g (States s))" using nextReadyJob_ready by blast+
  have "pending_count g (start_job (nextReadyJob g (States s)) s) < pending_count g s"
    unfolding pending_count_def
    by (rule filter_shorter [OF n(1)]) (use n(2) in \<open>auto simp: job_ready_def start_job_def change_def split: if_splits\<close>)
  then show "((g, maxParallel, start_job (nextReadyJob g (States s)) s), g, maxParallel, s) \<in> measure (\<lambda>(g, _, s). pending_count g s)" by simp
qed simp

declare start_jobs.simps [simp del]

definition max_parallel :: "Runner \<Rightarrow> int" where
  "max_parallel r = (if MaxParallel r < 1 then 1 else MaxParallel r)"

definition init_run :: "Graph \<Rightarrow> local_run" where
  "init_run g = \<lparr> States = (\<lambda>name. if map_of (Nodes g) name = None then None else Some Pending), active = 0, terminal = 0, canceling = False,
     Interrupted = False, InternalError = False, goroutines = [], completions = [], observed = [], ctxDone = False, runPhase = LoopHead \<rparr>"

text \<open>The loop from its condition to the wait for a completion.\<close>

definition note_cancel :: "local_run \<Rightarrow> local_run" where
  "note_cancel s = (if \<not> canceling s \<and> ctxDone s then s\<lparr> canceling := True, Interrupted := True \<rparr> else s)"

definition schedule :: "Runner \<Rightarrow> Graph \<Rightarrow> local_run \<Rightarrow> local_run" where
  "schedule r g s =
    (if canceling s then s
     else start_jobs g (max_parallel r) (end_pending (\<lambda>s. hasFailedDependency g (States s)) Blocked (Order g) s))"

definition finish_idle :: "Graph \<Rightarrow> local_run \<Rightarrow> local_run" where
  "finish_idle g s =
    (let s1 = (if canceling s then end_pending (\<lambda>_ _. True) Canceled (Order g) s else s) in
     if terminal s1 = int (length (Nodes g)) then s1
     else end_pending (\<lambda>_ _. True) Failed (Order g) (s1\<lparr> InternalError := True \<rparr>))"

definition loop_head :: "Runner \<Rightarrow> Graph \<Rightarrow> local_run \<Rightarrow> local_run" where
  "loop_head r g s =
    (if \<not> terminal s < int (length (Nodes g)) then s\<lparr> runPhase := Returned \<rparr>
     else let s1 = schedule r g (note_cancel s) in
       if active s1 = 0 then (finish_idle g s1)\<lparr> runPhase := Returned \<rparr>
       else s1\<lparr> runPhase := Waiting \<rparr>)"

definition receive :: "string \<times> outcome \<Rightarrow> local_run \<Rightarrow> local_run" where
  "receive c s =
    (case c of (name, state, internal) \<Rightarrow>
       (change name state s)\<lparr> InternalError := InternalError s \<or> internal, active := active s - 1, terminal := terminal s + 1,
         completions := tl (completions s), runPhase := LoopHead \<rparr>)"

text \<open>One step: the loop runs to its next wait, receives a completion or wakes up on cancellation; a goroutine ends;
  the context is canceled. A goroutine sees a canceled context only when it is canceled.\<close>

inductive local_step :: "Runner \<Rightarrow> Graph \<Rightarrow> local_run \<Rightarrow> local_run \<Rightarrow> bool" for r g where
  head: "runPhase s = LoopHead \<Longrightarrow> local_step r g s (loop_head r g s)"
| receive: "runPhase s = Waiting \<Longrightarrow> completions s = c # cs \<Longrightarrow> local_step r g s (receive c s)"
| wake: "runPhase s = Waiting \<Longrightarrow> \<not> canceling s \<Longrightarrow> ctxDone s \<Longrightarrow> local_step r g s (s\<lparr> runPhase := LoopHead \<rparr>)"
| finish: "name \<in> set (goroutines s) \<Longrightarrow> map_of (Nodes g) name = Some node \<Longrightarrow>
    (\<And>calls c. jrCanceled (env calls c) \<Longrightarrow> ctxDone s) \<Longrightarrow> run_state (executeJob r env node) [] = (out, calls) \<Longrightarrow>
    local_step r g s (s\<lparr> goroutines := remove1 name (goroutines s), completions := completions s @ [(name, out)] \<rparr>)"
| cancel: "\<not> ctxDone s \<Longrightarrow> runPhase s \<noteq> Returned \<Longrightarrow> local_step r g s (s\<lparr> ctxDone := True \<rparr>)"

inductive local_reachable :: "Runner \<Rightarrow> Graph \<Rightarrow> local_run \<Rightarrow> bool" for r g where
  init: "local_reachable r g (init_run g)"
| step: "local_reachable r g s \<Longrightarrow> local_step r g s s' \<Longrightarrow> local_reachable r g s'"

inductive_cases local_stepE: "local_step r g s s'"

definition Succeeded :: "Graph \<Rightarrow> local_run \<Rightarrow> bool" where
  "Succeeded g s \<longleftrightarrow> \<not> Interrupted s \<and> \<not> InternalError s \<and> list_all (\<lambda>(name, _). States s name = Some Passed) (Nodes g)"

end
