(* ===== verification/Local_Safety.thy ===== *)
theory Local_Safety
  imports Local_Runner
begin

text \<open>
  The invariant of the local scheduler, its termination measure and its progress. The scheduler keeps its
  counters exact, never runs more jobs than allowed, starts a job only when all its needs have passed, and
  never reaches the branch that reports a stalled graph.
\<close>

section \<open>Outcomes of a job\<close>

definition good_outcome :: "job_env \<Rightarrow> outcome \<Rightarrow> bool" where
  "good_outcome env out \<longleftrightarrow> fst out \<in> {Passed, Failed, Canceled} \<and> (snd out \<longrightarrow> fst out = Failed) \<and>
     (fst out = Canceled \<longrightarrow> (\<exists>calls c. jrCanceled (env calls c)))"

lemma good_artifact_failure: "jrCanceled (env calls c) = canceled \<Longrightarrow> good_outcome env (artifact_failure canceled p)"
  by (auto simp: good_outcome_def artifact_failure_def)

lemma good_finishJob: "jrCanceled (env calls c) = canceled \<Longrightarrow> good_outcome env (finishJob canceled e)"
  by (auto simp: good_outcome_def finishJob_def)

lemma good_simps [simp]: "good_outcome env (Passed, False)" "good_outcome env (Failed, b)"
  by (simp_all add: good_outcome_def)

lemma publish_good: "appends (\<lambda>_ _. good_outcome env) (publish r env node)"
  unfolding appends_def publish_def
  by (auto intro: good_artifact_failure [OF refl] split: option.split simp del: split_paired_Ex)

lemma execute_steps_good: "appends (\<lambda>_ _. good_outcome env) (execute_steps r env node steps)"
proof (induction steps)
  case (Cons step steps)
  show ?case
    unfolding execute_steps.simps
  proof (rule appends_ask_bind)
    fix tr
    let ?c = "ExecuteStep (Run step)"
    obtain cs y where s: "run_state (execute_steps r env node steps) (tr @ [?c]) = (y, (tr @ [?c]) @ cs)" "good_outcome env y"
      using Cons by (rule appendsE)
    then show "\<exists>ds y. run_state (if hasLogs r \<and> jrLogErr (env tr ?c) then State_Monad.return (Failed, True)
        else if Err (jrResult (env tr ?c)) = None then execute_steps r env node steps
        else State_Monad.return (finishJob (jrCanceled (env tr ?c)) (jrResult (env tr ?c)))) (tr @ [?c]) = (y, tr @ ?c # ds) \<and> good_outcome env y"
      using good_finishJob [OF refl, of env tr ?c] by (auto simp del: split_paired_Ex)
  qed
qed (simp add: publish_good)

lemma execute_body_good: "appends (\<lambda>_ _. good_outcome env) (execute_body r env node)"
proof (cases "hasJobExecutor r")
  case True
  show ?thesis
    unfolding execute_body_def if_P [OF True]
  proof (rule appends_ask_bind)
    fix tr
    let ?c = "ExecuteJob (NodeName node) (NodeJob node)"
    obtain cs y where s: "run_state (publish r env node) (tr @ [?c]) = (y, (tr @ [?c]) @ cs)" "good_outcome env y"
      using publish_good by (rule appendsE)
    then show "\<exists>ds y. run_state (if hasLogs r \<and> jrLogErr (env tr ?c) then State_Monad.return (Failed, True)
       else if fst (finishJobExecution (jrCanceled (env tr ?c)) (jrResult (env tr ?c))) \<noteq> Passed
         then State_Monad.return (finishJobExecution (jrCanceled (env tr ?c)) (jrResult (env tr ?c)))
       else publish r env node) (tr @ [?c]) = (y, tr @ ?c # ds) \<and> good_outcome env y"
      using good_finishJob [OF refl, of env tr ?c] by (auto simp: finishJobExecution_def simp del: split_paired_Ex)
  qed
qed (simp add: execute_body_def execute_steps_good)

lemma executeJob_good: "appends (\<lambda>_ _. good_outcome env) (executeJob r env node)"
  unfolding appends_def
proof
  fix tr
  have body: "\<exists>cs y. run_state (execute_body r env node) tr' = (y, tr' @ cs) \<and> good_outcome env y" for tr'
    using execute_body_good [of env r node] unfolding appends_def by blast
  let ?tr1 = "tr @ (if hasLogs r then [OpenLog (NodeName node)] else [])"
  let ?c = "ArtifactRestore (NodeName node) (Download (JobArtifacts (NodeJob node)))"
  let ?tr2 = "?tr1 @ (if hasArtifacts r then [?c] else [])"
  let ?tr3 = "?tr2 @ (if hasCache r then [CacheRestore (Restore (JobCache (NodeJob node)))] else [])"
  obtain cs y where b: "run_state (execute_body r env node) ?tr3 = (y, ?tr3 @ cs)" "good_outcome env y" using body by blast
  have "run_state (executeJob r env node) tr = (case (if hasArtifacts r then jrErr (env ?tr1 ?c) else None) of
      Some p \<Rightarrow> (artifact_failure (jrCanceled (env ?tr1 ?c)) p, ?tr2) | None \<Rightarrow> (y, ?tr3 @ cs))"
    using b(1) unfolding executeJob_def
    by (cases "hasLogs r"; cases "hasArtifacts r"; cases "hasCache r") (simp_all split: option.split)
  then show "\<exists>cs x. run_state (executeJob r env node) tr = (x, tr @ cs) \<and> good_outcome env x"
    using b(2) good_artifact_failure [OF refl, of env ?tr1 ?c] by (auto split: option.split simp del: split_paired_Ex)
qed

section \<open>Graphs\<close>

definition wf_graph :: "Graph \<Rightarrow> bool" where
  "wf_graph g \<longleftrightarrow> distinct (Order g) \<and> set (Order g) = fst ` set (Nodes g) \<and> length (Order g) = length (Nodes g) \<and> '''' \<notin> set (Order g) \<and>
     (\<forall>A n B. Order g = A @ n # B \<longrightarrow> set (needs_list g n) \<subseteq> set A)"

lemma wf_graphD:
  assumes "wf_graph g"
  shows "distinct (Order g)" "set (Order g) = fst ` set (Nodes g)" "length (Order g) = length (Nodes g)" "'''' \<notin> set (Order g)"
    "Order g = A @ n # B \<Longrightarrow> set (needs_list g n) \<subseteq> set A"
  using assms by (auto simp: wf_graph_def)

section \<open>The invariant\<close>

definition count :: "(State \<Rightarrow> bool) \<Rightarrow> Graph \<Rightarrow> (string \<rightharpoonup> State) \<Rightarrow> nat" where
  "count P g states = length (filter (\<lambda>n. case states n of Some x \<Rightarrow> P x | None \<Rightarrow> False) (Order g))"

fun replay :: "(string \<rightharpoonup> State) \<Rightarrow> (string \<times> State option \<times> State) list \<Rightarrow> (string \<rightharpoonup> State) option" where
  "replay states [] = Some states"
| "replay states ((name, old, new) # events) =
    (if states name = old \<and> (old = Some Pending \<and> new \<noteq> Pending \<or> old = Some Running \<and> terminal_state new)
     then replay (states(name \<mapsto> new)) events else None)"

definition states_ok :: "Graph \<Rightarrow> bool \<Rightarrow> (string \<rightharpoonup> State) \<Rightarrow> bool" where
  "states_ok g ctx st \<longleftrightarrow>
    (\<forall>n. st n \<noteq> None \<longleftrightarrow> n \<in> set (Order g)) \<and>
    (\<forall>n. st n \<in> {Some Running, Some Passed, Some Failed} \<longrightarrow> (\<forall>d \<in> set (needs_list g n). st d = Some Passed)) \<and>
    (\<forall>n. st n = Some Blocked \<longrightarrow> (\<exists>d \<in> set (needs_list g n). st d \<in> {Some Failed, Some Blocked})) \<and>
    (\<forall>n. st n = Some Canceled \<longrightarrow> ctx)"

definition books_ok :: "Runner \<Rightarrow> Graph \<Rightarrow> local_run \<Rightarrow> bool" where
  "books_ok r g s \<longleftrightarrow>
    distinct (goroutines s @ map fst (completions s)) \<and>
    set (goroutines s @ map fst (completions s)) = {n. States s n = Some Running} \<and>
    active s = int (length (goroutines s @ map fst (completions s))) \<and> active s \<le> max_parallel r \<and>
    terminal s = int (count terminal_state g (States s))"

definition flags_ok :: "local_run \<Rightarrow> bool" where
  "flags_ok s \<longleftrightarrow> (canceling s \<longrightarrow> ctxDone s) \<and> Interrupted s = canceling s \<and> (InternalError s \<longrightarrow> (\<exists>n. States s n = Some Failed)) \<and>
    (\<forall>n x i. (n, x, i) \<in> set (completions s) \<longrightarrow> x \<in> {Passed, Failed, Canceled} \<and> (i \<longrightarrow> x = Failed) \<and> (x = Canceled \<longrightarrow> ctxDone s))"

definition core :: "Runner \<Rightarrow> Graph \<Rightarrow> local_run \<Rightarrow> bool" where
  "core r g s \<longleftrightarrow> states_ok g (ctxDone s) (States s) \<and> books_ok r g s \<and> flags_ok s \<and>
    replay (States (init_run g)) (observed s) = Some (States s)"

lemma change_simps [simp]:
  "States (change name new s) = (States s)(name \<mapsto> new)" "goroutines (change name new s) = goroutines s" "completions (change name new s) = completions s"
  "active (change name new s) = active s" "terminal (change name new s) = terminal s" "canceling (change name new s) = canceling s"
  "Interrupted (change name new s) = Interrupted s" "InternalError (change name new s) = InternalError s" "ctxDone (change name new s) = ctxDone s"
  "runPhase (change name new s) = runPhase s"
  by (simp_all add: change_def)

lemma replay_append: "replay states (es @ es') = (case replay states es of None \<Rightarrow> None | Some states' \<Rightarrow> replay states' es')"
  by (induction es arbitrary: states) auto

lemma replay_change:
  assumes "replay st (observed s) = Some (States s)" and "States s name = Some Pending \<and> new \<noteq> Pending \<or> States s name = Some Running \<and> terminal_state new"
  shows "replay st (observed (change name new s)) = Some ((States s)(name \<mapsto> new))"
  using assms by (auto simp: change_def replay_append)

lemma count_change:
  assumes "distinct (Order g)" and "name \<in> set (Order g)" and "states name = Some old" and "\<not> P old"
  shows "count P g (states(name \<mapsto> new)) = count P g states + (if P new then 1 else 0)"
proof -
  have "length (filter (\<lambda>n. case (states(name \<mapsto> new)) n of Some x \<Rightarrow> P x | None \<Rightarrow> False) xs) =
      length (filter (\<lambda>n. case states n of Some x \<Rightarrow> P x | None \<Rightarrow> False) xs) + (if name \<in> set xs \<and> P new then 1 else 0)"
    if "distinct xs" for xs
    using that assms(3,4) by (induction xs) auto
  from this [OF assms(1)] show ?thesis using assms(2) by (simp add: count_def)
qed

lemma states_ok_dom: "states_ok g ctx st \<Longrightarrow> st n \<noteq> None \<longleftrightarrow> n \<in> set (Order g)"
  unfolding states_ok_def by (drule conjunct1) (erule spec)

lemma states_ok_order: "states_ok g ctx st \<Longrightarrow> st name = Some x \<Longrightarrow> name \<in> set (Order g)"
  using states_ok_dom [of g ctx st name] by simp

lemma states_ok_canceled: "states_ok g ctx st \<Longrightarrow> st n = Some Canceled \<Longrightarrow> ctx"
  unfolding states_ok_def by metis

text \<open>A job moves on: to a state whose needs are met, and away from a state that no other job relies on.\<close>

lemma states_ok_change:
  assumes "states_ok g ctx st" and "st name = Some old" and "old \<in> {Pending, Running}"
    and "new \<in> {Running, Passed, Failed} \<Longrightarrow> old = Running \<or> (\<forall>d \<in> set (needs_list g name). st d = Some Passed)"
    and "new = Blocked \<Longrightarrow> \<exists>d \<in> set (needs_list g name). st d \<in> {Some Failed, Some Blocked}"
    and "new = Canceled \<Longrightarrow> ctx"
  shows "states_ok g ctx (st(name \<mapsto> new))"
proof -
  have nn: "st name \<noteq> Some Passed" "st name \<noteq> Some Failed" "st name \<noteq> Some Blocked" using assms(2,3) by auto
  have needs: "st d = Some Passed" if "st n = Some Running \<or> st n = Some Passed \<or> st n = Some Failed" "d \<in> set (needs_list g n)" for n d
    using assms(1) that unfolding states_ok_def by blast
  have blocked: "\<exists>d \<in> set (needs_list g n). st d = Some Failed \<or> st d = Some Blocked" if "st n = Some Blocked" for n
    using assms(1) that unfolding states_ok_def by blast
  have met: "st d = Some Passed" if "new = Running \<or> new = Passed \<or> new = Failed" "d \<in> set (needs_list g name)" for d
    using assms(2,4) that needs [of name d] by blast
  have keep: "(st(name \<mapsto> new)) d = st d" if "st d = Some Passed \<or> st d = Some Failed \<or> st d = Some Blocked" for d
    using that nn by auto
  show ?thesis
    unfolding states_ok_def
  proof (intro conjI allI impI)
    fix n
    show "(st(name \<mapsto> new)) n \<noteq> None \<longleftrightarrow> n \<in> set (Order g)"
      using states_ok_dom [OF assms(1), of n] states_ok_dom [OF assms(1), of name] assms(2) by simp
    show "ctx" if "(st(name \<mapsto> new)) n = Some Canceled"
      using that states_ok_canceled [OF assms(1), of n] assms(6) by (simp split: if_splits)
    show "\<forall>d \<in> set (needs_list g n). (st(name \<mapsto> new)) d = Some Passed" if "(st(name \<mapsto> new)) n \<in> {Some Running, Some Passed, Some Failed}"
    proof
      fix d assume d: "d \<in> set (needs_list g n)"
      have "st d = Some Passed" using that d met [of d] needs [of n d] by (simp split: if_splits)
      then show "(st(name \<mapsto> new)) d = Some Passed" using keep by simp
    qed
    show "\<exists>d \<in> set (needs_list g n). (st(name \<mapsto> new)) d \<in> {Some Failed, Some Blocked}" if "(st(name \<mapsto> new)) n = Some Blocked"
    proof -
      have "\<exists>d \<in> set (needs_list g n). st d = Some Failed \<or> st d = Some Blocked"
        using that assms(5) blocked [of n] by (cases "n = name") simp_all
      then obtain d where "d \<in> set (needs_list g n)" "st d = Some Failed \<or> st d = Some Blocked" by blast
      then show ?thesis using keep [of d] by (intro bexI [of _ d]) auto
    qed
  qed
qed

lemma states_init: "States (init_run g) n = (if map_of (Nodes g) n = None then None else Some Pending)"
  by (simp add: init_run_def)

lemma core_init: "wf_graph g \<Longrightarrow> core r g (init_run g)"
proof -
  assume wf: "wf_graph g"
  have "map_of (Nodes g) n = None \<longleftrightarrow> n \<notin> set (Order g)" for n using wf_graphD(2) [OF wf] by (simp add: map_of_eq_None_iff)
  then have "states_ok g False (States (init_run g))" by (simp add: states_ok_def states_init)
  moreover have "count terminal_state g (States (init_run g)) = 0" by (auto simp: count_def terminal_state_def states_init filter_empty_conv)
  moreover have "0 \<le> max_parallel r" by (simp add: max_parallel_def)
  ultimately show ?thesis by (simp add: core_def books_ok_def flags_ok_def) (simp add: init_run_def)
qed

text \<open>A pending job ends without having run.\<close>

lemma core_end:
  assumes c: "core r g s" and wf: "wf_graph g" and p: "States s name = Some Pending"
    and new: "new = Blocked \<and> hasFailedDependency g (States s) name \<or> new = Canceled \<and> ctxDone s"
  shows "core r g ((change name new s)\<lparr> terminal := terminal s + 1 \<rparr>)"
proof -
  have st: "states_ok g (ctxDone s) (States s)" and b: "books_ok r g s" and f: "flags_ok s" and rep: "replay (States (init_run g)) (observed s) = Some (States s)"
    using c by (simp_all add: core_def)
  have o: "name \<in> set (Order g)" by (rule states_ok_order [OF st p])
  have t: "terminal_state new" "\<not> terminal_state Pending" "new \<noteq> Running" "new \<noteq> Pending" "new \<noteq> Passed" "new \<noteq> Failed"
    using new by (auto simp: terminal_state_def)
  have "states_ok g (ctxDone s) ((States s)(name \<mapsto> new))"
    by (rule states_ok_change [OF st p]) (use new t in \<open>auto simp: hasFailedDependency_def list_ex_iff\<close>)
  moreover have "{n. ((States s)(name \<mapsto> new)) n = Some Running} = {n. States s n = Some Running}" using p t by auto
  then have "books_ok r g ((change name new s)\<lparr> terminal := terminal s + 1 \<rparr>)"
    using b count_change [where P = terminal_state and states = "States s", OF wf_graphD(1) [OF wf] o p t(2), of new] t(1) by (simp add: books_ok_def)
  moreover have "\<exists>n. ((States s)(name \<mapsto> new)) n = Some Failed" if "States s m = Some Failed" for m
    using that p by (intro exI [of _ m]) auto
  then have "flags_ok ((change name new s)\<lparr> terminal := terminal s + 1 \<rparr>)" using f by (auto simp: flags_ok_def simp del: fun_upd_apply)
  ultimately show ?thesis using replay_change [OF rep, of name new] p t by (simp add: core_def)
qed

lemma core_start:
  assumes c: "core r g s" and wf: "wf_graph g" and rd: "job_ready g (States s) name" and max: "active s < max_parallel r"
  shows "core r g (start_job name s)"
proof -
  have st: "states_ok g (ctxDone s) (States s)" and b: "books_ok r g s" and f: "flags_ok s" and rep: "replay (States (init_run g)) (observed s) = Some (States s)"
    using c by (simp_all add: core_def)
  have p: "States s name = Some Pending" and needs: "\<forall>d \<in> set (needs_list g name). States s d = Some Passed"
    using rd by (simp_all add: job_ready_def list_all_iff)
  have o: "name \<in> set (Order g)" by (rule states_ok_order [OF st p])
  have "states_ok g (ctxDone s) ((States s)(name \<mapsto> Running))"
    by (rule states_ok_change [OF st p]) (use needs in simp_all)
  moreover have new: "name \<notin> set (goroutines s @ map fst (completions s))" using b p by (simp add: books_ok_def del: set_append)
  have "{n. ((States s)(name \<mapsto> Running)) n = Some Running} = insert name {n. States s n = Some Running}" by auto
  then have "books_ok r g (start_job name s)"
    using b new max count_change [where P = terminal_state and states = "States s", OF wf_graphD(1) [OF wf] o p, of Running]
    by (auto simp: books_ok_def start_job_def terminal_state_def)
  moreover have "\<exists>n. ((States s)(name \<mapsto> Running)) n = Some Failed" if "States s m = Some Failed" for m
    using that p by (intro exI [of _ m]) auto
  then have "flags_ok (start_job name s)" using f by (auto simp: flags_ok_def start_job_def simp del: fun_upd_apply)
  ultimately show ?thesis using replay_change [OF rep, of name Running] p by (simp add: core_def start_job_def)
qed

text \<open>A completion is received.\<close>

lemma core_receive:
  assumes c: "core r g s" and wf: "wf_graph g" and cs: "completions s = (name, x, i) # cs"
  shows "core r g (receive (name, x, i) s)"
proof -
  have st: "states_ok g (ctxDone s) (States s)" and b: "books_ok r g s" and f: "flags_ok s" and rep: "replay (States (init_run g)) (observed s) = Some (States s)"
    using c by (simp_all add: core_def)
  have run: "States s name = Some Running"
  proof -
    have "name \<in> set (goroutines s @ map fst (completions s))" using cs by simp
    then show ?thesis using b by (simp add: books_ok_def del: set_append)
  qed
  have o: "name \<in> set (Order g)" by (rule states_ok_order [OF st run])
  have x: "x \<in> {Passed, Failed, Canceled}" "i \<longrightarrow> x = Failed" "x = Canceled \<longrightarrow> ctxDone s"
    using f cs unfolding flags_ok_def by (metis list.set_intros(1))+
  then have t: "terminal_state x" "\<not> terminal_state Running" "x \<noteq> Running" by (auto simp: terminal_state_def)
  have "states_ok g (ctxDone s) ((States s)(name \<mapsto> x))"
    by (rule states_ok_change [OF st run]) (use x in auto)
  moreover have "books_ok r g (receive (name, x, i) s)"
  proof -
    have "set (goroutines s @ map fst cs) = {n. ((States s)(name \<mapsto> x)) n = Some Running}"
    proof -
      have "insert name (set (goroutines s @ map fst cs)) = {n. States s n = Some Running}" "name \<notin> set (goroutines s @ map fst cs)"
        using b cs by (simp_all add: books_ok_def)
      then show ?thesis using t(3) by (auto simp del: set_append)
    qed
    then show ?thesis
      using b cs t count_change [where P = terminal_state and states = "States s", OF wf_graphD(1) [OF wf] o run t(2), of x]
      by (simp add: books_ok_def receive_def)
  qed
  moreover have "flags_ok (receive (name, x, i) s)"
  proof -
    have "\<exists>n. ((States s)(name \<mapsto> x)) n = Some Failed" if err: "InternalError s \<or> i"
    proof (cases "x = Failed")
      case False
      then obtain m where "States s m = Some Failed" using err f x by (auto simp: flags_ok_def)
      then show ?thesis using run by (intro exI [of _ m]) auto
    qed auto
    then show ?thesis using f cs by (auto simp: flags_ok_def receive_def simp del: fun_upd_apply)
  qed
  ultimately show ?thesis using replay_change [OF rep, of name x] run t by (simp add: core_def receive_def)
qed

section \<open>The passes of the loop\<close>

lemma end_pending_keeps:
  assumes "\<And>s name. I s \<Longrightarrow> States s name = Some Pending \<Longrightarrow> P s name \<Longrightarrow> I ((change name new s)\<lparr> terminal := terminal s + 1 \<rparr>)" and "I s"
  shows "I (end_pending P new names s)"
  using assms(2) by (induction names arbitrary: s) (auto intro: assms(1))

lemma end_pending_fields:
  "canceling (end_pending P new names s) = canceling s" "ctxDone (end_pending P new names s) = ctxDone s" "active (end_pending P new names s) = active s"
  "goroutines (end_pending P new names s) = goroutines s" "completions (end_pending P new names s) = completions s" "runPhase (end_pending P new names s) = runPhase s"
  "Interrupted (end_pending P new names s) = Interrupted s" "InternalError (end_pending P new names s) = InternalError s"
  by (induction names arbitrary: s) simp_all

lemma core_block: "core r g s \<Longrightarrow> wf_graph g \<Longrightarrow> core r g (end_pending (\<lambda>s. hasFailedDependency g (States s)) Blocked names s)"
  by (rule end_pending_keeps) (auto intro: core_end)

lemma core_cancel:
  assumes "core r g s" and "wf_graph g" and "ctxDone s"
  shows "core r g (end_pending (\<lambda>_ _. True) Canceled names s)"
proof -
  have "core r g (end_pending (\<lambda>_ _. True) Canceled names s) \<and> ctxDone (end_pending (\<lambda>_ _. True) Canceled names s)"
    by (rule end_pending_keeps) (use assms core_end in auto)
  then show ?thesis by simp
qed

lemma start_jobs_induct:
  assumes "I s" and "\<And>s. I s \<Longrightarrow> active s < m \<Longrightarrow> nextReadyJob g (States s) \<noteq> '''' \<Longrightarrow> I (start_job (nextReadyJob g (States s)) s)"
  shows "I (start_jobs g m s) \<and> \<not> (active (start_jobs g m s) < m \<and> nextReadyJob g (States (start_jobs g m s)) \<noteq> '''')"
  using assms
proof (induction g m s rule: start_jobs.induct)
  case (1 g m s)
  show ?case
  proof (cases "active s < m \<and> nextReadyJob g (States s) \<noteq> ''''")
    case True
    then have eq: "start_jobs g m s = start_jobs g m (start_job (nextReadyJob g (States s)) s)" by (subst start_jobs.simps) simp
    have "I (start_job (nextReadyJob g (States s)) s)" using True "1.prems" by blast
    then show ?thesis unfolding eq using True "1.prems"(2) by (intro "1.IH") auto
  next
    case False
    then have "start_jobs g m s = s" by (subst start_jobs.simps) (simp only: if_False)
    then show ?thesis using False "1.prems"(1) by simp
  qed
qed

lemma start_job_fields:
  "canceling (start_job name s) = canceling s" "ctxDone (start_job name s) = ctxDone s" "runPhase (start_job name s) = runPhase s"
  by (simp_all add: start_job_def)

text \<open>After the blocking pass no pending job has a failed need, and starting jobs keeps it so.\<close>

definition settled :: "Graph \<Rightarrow> local_run \<Rightarrow> bool" where
  "settled g s \<longleftrightarrow> (\<forall>n. States s n = Some Pending \<longrightarrow> \<not> hasFailedDependency g (States s) n)"

lemma hasFailed_change:
  assumes "name \<notin> set (needs_list g n)"
  shows "hasFailedDependency g (st(name \<mapsto> x)) n = hasFailedDependency g st n"
  using assms by (auto simp: hasFailedDependency_def list_ex_iff)

lemma block_pass_settles:
  assumes wf: "wf_graph g" and "Order g = A @ B" and "\<forall>n \<in> set A. States s n = Some Pending \<longrightarrow> \<not> hasFailedDependency g (States s) n"
  shows "\<forall>n \<in> set (Order g). States (end_pending (\<lambda>s. hasFailedDependency g (States s)) Blocked B s) n = Some Pending \<longrightarrow>
    \<not> hasFailedDependency g (States (end_pending (\<lambda>s. hasFailedDependency g (States s)) Blocked B s)) n"
  using assms(2,3)
proof (induction B arbitrary: A s)
  case (Cons name B)
  let ?s = "if States s name = Some Pending \<and> hasFailedDependency g (States s) name then (change name Blocked s)\<lparr> terminal := terminal s + 1 \<rparr> else s"
  have later: "name \<notin> set (needs_list g n)" if nA: "n \<in> set A" for n
  proof
    assume name: "name \<in> set (needs_list g n)"
    obtain A1 A2 where "A = A1 @ n # A2" using nA by (meson split_list)
    then have "set (needs_list g n) \<subseteq> set A1" "set A1 \<subseteq> set A" using wf_graphD(5) [OF wf, of A1 n "A2 @ name # B"] Cons.prems(1) by auto
    then have "name \<in> set A" using name by blast
    then show False using wf_graphD(1) [OF wf] Cons.prems(1) by auto
  qed
  have self: "name \<notin> set (needs_list g name)"
    using wf_graphD(5) [OF wf, of A name B] wf_graphD(1) [OF wf] Cons.prems(1) by auto
  have "\<forall>n \<in> set (A @ [name]). States ?s n = Some Pending \<longrightarrow> \<not> hasFailedDependency g (States ?s) n"
  proof (cases "States s name = Some Pending \<and> hasFailedDependency g (States s) name")
    case True
    then show ?thesis using Cons.prems(2) hasFailed_change [OF later] by auto
  next
    case False
    then show ?thesis using Cons.prems(2) by (simp only: if_False) auto
  qed
  then show ?case using Cons.IH [of "A @ [name]" ?s] Cons.prems(1) by simp
qed simp

lemma settled_block:
  assumes "wf_graph g" and "core r g s"
  shows "settled g (end_pending (\<lambda>s. hasFailedDependency g (States s)) Blocked (Order g) s)"
proof -
  let ?s = "end_pending (\<lambda>s. hasFailedDependency g (States s)) Blocked (Order g) s"
  have "core r g ?s" by (rule core_block [OF assms(2,1)])
  then have "n \<in> set (Order g)" if "States ?s n = Some Pending" for n using states_ok_order [of g "ctxDone ?s" "States ?s" n Pending] that by (simp add: core_def)
  then show ?thesis using block_pass_settles [OF assms(1), of "[]" "Order g" s] by (simp add: settled_def)
qed

lemma settled_start:
  assumes "settled g s" and "job_ready g (States s) name"
  shows "settled g (start_job name s)"
proof -
  have "hasFailedDependency g ((States s)(name \<mapsto> Running)) n \<Longrightarrow> hasFailedDependency g (States s) n" for n
    by (auto simp: hasFailedDependency_def list_ex_iff split: if_splits)
  then show ?thesis using assms by (auto simp: settled_def start_job_def split: if_splits)
qed

text \<open>What the scheduling part of the loop leaves behind.\<close>

lemma schedule_spec:
  assumes c: "core r g s" and wf: "wf_graph g"
  shows "core r g (schedule r g s)" and "canceling (schedule r g s) = canceling s" and "ctxDone (schedule r g s) = ctxDone s"
    and "\<not> canceling s \<Longrightarrow> settled g (schedule r g s)"
    and "\<not> canceling s \<Longrightarrow> active (schedule r g s) < max_parallel r \<Longrightarrow> name \<in> set (Order g) \<Longrightarrow> \<not> job_ready g (States (schedule r g s)) name"
proof -
  let ?b = "end_pending (\<lambda>s. hasFailedDependency g (States s)) Blocked (Order g) s"
  let ?I = "\<lambda>s'. core r g s' \<and> canceling s' = canceling s \<and> ctxDone s' = ctxDone s \<and> settled g s'"
  have I: "?I ?b" using core_block [OF c wf] settled_block [OF wf c] by (simp add: end_pending_fields)
  have "?I (start_jobs g (max_parallel r) ?b) \<and> \<not> (active (start_jobs g (max_parallel r) ?b) < max_parallel r \<and>
      nextReadyJob g (States (start_jobs g (max_parallel r) ?b)) \<noteq> '''')"
  proof (rule start_jobs_induct [where I = ?I, OF I])
    fix s' assume s': "?I s'" "active s' < max_parallel r" "nextReadyJob g (States s') \<noteq> ''''"
    then have rd: "job_ready g (States s') (nextReadyJob g (States s'))" using nextReadyJob_ready by blast
    then show "?I (start_job (nextReadyJob g (States s')) s')" using s' core_start [OF _ wf rd] settled_start [OF _ rd] by (simp add: start_job_fields)
  qed
  note spec = this
  have none: "\<not> job_ready g st name" if "nextReadyJob g st = ''''" "name \<in> set (Order g)" for st name
  proof
    assume "job_ready g st name"
    then have "filter (job_ready g st) (Order g) \<noteq> []" using that(2) by (auto simp: filter_empty_conv)
    then obtain n ns where f: "filter (job_ready g st) (Order g) = n # ns" by (cases "filter (job_ready g st) (Order g)") auto
    then have "n \<in> set (filter (job_ready g st) (Order g))" by simp
    then have "n \<in> set (Order g)" by (simp only: set_filter mem_Collect_eq)
    then show False using that(1) f wf_graphD(4) [OF wf] by (simp add: nextReadyJob_def)
  qed
  show "core r g (schedule r g s)" "canceling (schedule r g s) = canceling s" "ctxDone (schedule r g s) = ctxDone s"
    using spec c by (auto simp: schedule_def)
  show "settled g (schedule r g s)" if "\<not> canceling s" using spec that by (simp add: schedule_def)
  show "\<not> job_ready g (States (schedule r g s)) name" if "\<not> canceling s" "active (schedule r g s) < max_parallel r" "name \<in> set (Order g)"
    using spec that none by (auto simp: schedule_def)
qed

section \<open>Ending\<close>

lemma count_all: "count P g st = length (Order g) \<longleftrightarrow> (\<forall>n \<in> set (Order g). \<exists>x. st n = Some x \<and> P x)"
proof -
  have "length (filter Q xs) = length xs \<longleftrightarrow> (\<forall>x \<in> set xs. Q x)" for Q and xs :: "string list"
    by (metis filter_True length_filter_less order_less_irrefl)
  then show ?thesis by (auto simp: count_def split: option.splits)
qed

lemma no_running: "books_ok r g s \<Longrightarrow> active s = 0 \<Longrightarrow> States s n \<noteq> Some Running"
proof -
  assume b: "books_ok r g s" "active s = 0"
  then have "goroutines s @ map fst (completions s) = []" unfolding books_ok_def by (metis length_0_conv of_nat_eq_0_iff)
  moreover have "set (goroutines s @ map fst (completions s)) = {n. States s n = Some Running}" using b(1) by (simp add: books_ok_def)
  ultimately show ?thesis by simp
qed

text \<open>An idle scheduler that has nothing to start and nothing to block has ended every job.\<close>

lemma idle_all_ended:
  assumes c: "core r g s" and wf: "wf_graph g" and idle: "active s = 0" and set: "settled g s" and ctx: "\<not> ctxDone s"
    and none: "\<And>name. name \<in> set (Order g) \<Longrightarrow> \<not> job_ready g (States s) name"
  shows "terminal s = int (length (Nodes g))"
proof -
  have st: "states_ok g (ctxDone s) (States s)" and b: "books_ok r g s" using c by (simp_all add: core_def)
  have "\<not> (\<exists>n \<in> set (Order g). States s n = Some Pending)"
  proof
    assume "\<exists>n \<in> set (Order g). States s n = Some Pending"
    then obtain A n B where o: "Order g = A @ n # B" "States s n = Some Pending" "\<forall>a \<in> set A. States s a \<noteq> Some Pending"
      using split_list_first_prop [of "Order g" "\<lambda>n. States s n = Some Pending"] by metis
    have "States s d = Some Passed" if d: "d \<in> set (needs_list g n)" for d
    proof -
      have A: "d \<in> set A" using wf_graphD(5) [OF wf o(1)] d by blast
      then have "States s d \<noteq> None" using states_ok_dom [OF st, of d] o(1) by simp
      then obtain x where x: "States s d = Some x" by blast
      have "x \<noteq> Pending" "x \<noteq> Running" "x \<noteq> Canceled"
        using x o(3) A no_running [OF b idle, of d] states_ok_canceled [OF st, of d] ctx by auto
      moreover have "x \<noteq> Failed \<and> x \<noteq> Blocked"
        using set o(2) d x by (auto simp: settled_def hasFailedDependency_def list_ex_iff)
      ultimately show ?thesis using x by (cases x) auto
    qed
    then have "job_ready g (States s) n" using o(2) by (simp add: job_ready_def list_all_iff)
    then show False using none o(1) by simp
  qed
  then have "\<forall>n \<in> set (Order g). \<exists>x. States s n = Some x \<and> terminal_state x"
    using states_ok_dom [OF st] no_running [OF b idle] by (metis not_None_eq terminal_state_def)
  then have "count terminal_state g (States s) = length (Order g)" by (simp only: count_all)
  then show ?thesis using b wf_graphD(3) [OF wf] by (simp add: books_ok_def)
qed

lemma cancel_pass_none_pending:
  "\<forall>n \<in> set names. States (end_pending (\<lambda>_ _. True) new names s) n \<noteq> Some Pending" if "new \<noteq> Pending"
proof (induction names arbitrary: s)
  case (Cons name names)
  have keep: "States s name \<noteq> Some Pending \<Longrightarrow> States (end_pending (\<lambda>_ _. True) new names s) name \<noteq> Some Pending" for s
    using that by (induction names arbitrary: s) auto
  show ?case using Cons keep that by auto
qed simp

lemma canceled_all_ended:
  assumes c: "core r g s" and wf: "wf_graph g" and idle: "active s = 0" and ctx: "ctxDone s"
  shows "terminal (end_pending (\<lambda>_ _. True) Canceled (Order g) s) = int (length (Nodes g))"
proof -
  let ?s = "end_pending (\<lambda>_ _. True) Canceled (Order g) s"
  have c': "core r g ?s" by (rule core_cancel [OF c wf ctx])
  then have st: "states_ok g (ctxDone ?s) (States ?s)" and b: "books_ok r g ?s" by (simp_all add: core_def)
  have "active ?s = 0" using idle by (simp add: end_pending_fields)
  then have "\<forall>n \<in> set (Order g). \<exists>x. States ?s n = Some x \<and> terminal_state x"
    using states_ok_dom [OF st] no_running [OF b] cancel_pass_none_pending [of Canceled "Order g" s] by (metis State.distinct(9) not_None_eq terminal_state_def)
  then have "count terminal_state g (States ?s) = length (Order g)" by (simp only: count_all)
  then show ?thesis using b wf_graphD(3) [OF wf] by (simp add: books_ok_def)
qed

section \<open>The loop\<close>

lemma core_phase [simp]: "core r g (s\<lparr> runPhase := p \<rparr>) = core r g s"
  by (simp add: core_def books_ok_def flags_ok_def)

lemma core_note: "core r g s \<Longrightarrow> core r g (note_cancel s)"
  by (auto simp: core_def books_ok_def flags_ok_def note_cancel_def)

lemma note_cancel_fields: "ctxDone (note_cancel s) = ctxDone s" "\<not> canceling (note_cancel s) \<Longrightarrow> \<not> ctxDone s" "canceling s \<Longrightarrow> canceling (note_cancel s)"
  by (cases "canceling s"; simp add: note_cancel_def split: if_splits)+

lemma max_parallel_pos: "0 < max_parallel r"
  by (simp add: max_parallel_def)

definition local_inv :: "Runner \<Rightarrow> Graph \<Rightarrow> local_run \<Rightarrow> bool" where
  "local_inv r g s \<longleftrightarrow> core r g s \<and> (runPhase s = Returned \<longrightarrow> terminal s = int (length (Nodes g))) \<and> (runPhase s = Waiting \<longrightarrow> 0 < active s)"

text \<open>The branch for a stalled graph is never taken.\<close>

lemma finish_idle_spec:
  assumes c: "core r g s" and wf: "wf_graph g" and idle: "active s = 0"
    and go: "\<not> canceling s \<Longrightarrow> settled g s \<and> \<not> ctxDone s \<and> (\<forall>name \<in> set (Order g). \<not> job_ready g (States s) name)"
  shows "finish_idle g s = (if canceling s then end_pending (\<lambda>_ _. True) Canceled (Order g) s else s)"
    and "core r g (finish_idle g s)" and "terminal (finish_idle g s) = int (length (Nodes g))"
proof -
  let ?s = "if canceling s then end_pending (\<lambda>_ _. True) Canceled (Order g) s else s"
  have ctx: "canceling s \<Longrightarrow> ctxDone s" using c by (simp add: core_def flags_ok_def)
  have t: "terminal ?s = int (length (Nodes g))"
    using canceled_all_ended [OF c wf idle] ctx idle_all_ended [OF c wf idle] go by auto
  then show eq: "finish_idle g s = ?s" by (simp add: finish_idle_def Let_def)
  show "core r g (finish_idle g s)" unfolding eq using c core_cancel [OF c wf] ctx by simp
  show "terminal (finish_idle g s) = int (length (Nodes g))" using t eq by simp
qed

lemma loop_head_inv:
  assumes c: "core r g s" and wf: "wf_graph g"
  shows "local_inv r g (loop_head r g s)"
proof (cases "terminal s < int (length (Nodes g))")
  case False
  have "count terminal_state g (States s) \<le> length (Order g)" by (simp add: count_def)
  moreover have "terminal s = int (count terminal_state g (States s))" using c by (simp add: core_def books_ok_def)
  ultimately have "terminal s = int (length (Nodes g))" using False wf_graphD(3) [OF wf] by simp
  then show ?thesis using False c by (simp add: local_inv_def loop_head_def)
next
  case True
  let ?n = "note_cancel s" let ?s = "schedule r g ?n"
  note sp = schedule_spec [OF core_note [OF c] wf]
  show ?thesis
  proof (cases "active ?s = 0")
    case idle: True
    have "settled g ?s \<and> \<not> ctxDone ?s \<and> (\<forall>name \<in> set (Order g). \<not> job_ready g (States ?s) name)" if "\<not> canceling ?s"
      using that sp(2-5) note_cancel_fields [of s] idle max_parallel_pos [of r] by auto
    note f = finish_idle_spec [OF sp(1) wf idle this]
    show ?thesis using True idle f(2,3) by (simp add: local_inv_def loop_head_def)
  next
    case False
    have "0 \<le> active ?s" using sp(1) by (simp add: core_def books_ok_def)
    then show ?thesis using True False sp(1) by (simp add: local_inv_def loop_head_def Let_def)
  qed
qed

section \<open>Steps\<close>

lemma length_remove1_Suc: "x \<in> set xs \<Longrightarrow> Suc (length (remove1 x xs)) = length xs"
  by (metis One_nat_def Suc_pred length_pos_if_in_set length_remove1)

lemma core_finish:
  assumes c: "core r g s" and n: "name \<in> set (goroutines s)" and out: "good_outcome env out" and ctx: "\<And>calls c. jrCanceled (env calls c) \<Longrightarrow> ctxDone s"
  shows "core r g (s\<lparr> goroutines := remove1 name (goroutines s), completions := completions s @ [(name, out)] \<rparr>)"
proof -
  have b: "books_ok r g s" and f: "flags_ok s" using c by (simp_all add: core_def)
  have d: "distinct (goroutines s)" "name \<notin> fst ` set (completions s)" using b n by (auto simp: books_ok_def)
  note l = length_remove1_Suc [OF n]
  have "set (remove1 name (goroutines s)) = set (goroutines s) - {name}" using d(1) by (rule set_remove1_eq)
  then have "books_ok r g (s\<lparr> goroutines := remove1 name (goroutines s), completions := completions s @ [(name, out)] \<rparr>)"
    using b n l d by (auto simp: books_ok_def distinct_remove1)
  moreover have "flags_ok (s\<lparr> goroutines := remove1 name (goroutines s), completions := completions s @ [(name, out)] \<rparr>)"
    using f out ctx unfolding flags_ok_def good_outcome_def by auto
  ultimately show ?thesis using c by (simp add: core_def)
qed

lemma states_ok_mono: "states_ok g ctx st \<Longrightarrow> states_ok g True st"
  unfolding states_ok_def by (elim conjE, intro conjI) (assumption | rule allI, rule impI, rule TrueI)+

lemma core_ctx: "core r g s \<Longrightarrow> core r g (s\<lparr> ctxDone := True \<rparr>)"
  using states_ok_mono [of g "ctxDone s" "States s"] by (auto simp: core_def books_ok_def flags_ok_def)

lemma local_step_inv:
  assumes "local_step r g s s'" and i: "local_inv r g s" and wf: "wf_graph g"
  shows "local_inv r g s'"
  using assms(1)
proof (cases rule: local_step.cases)
  case head
  then show ?thesis using loop_head_inv [OF _ wf] i by (simp add: local_inv_def)
next
  case (receive c cs)
  obtain name x b where c: "c = (name, x, b)" by (cases c) auto
  have "runPhase s' = LoopHead" unfolding receive(1) by (simp add: receive_def c)
  moreover have "core r g s'" unfolding receive(1) c using i receive(3) c by (intro core_receive [OF _ wf]) (simp_all add: local_inv_def)
  ultimately show ?thesis by (simp add: local_inv_def)
next
  case wake
  then show ?thesis using i by (simp add: local_inv_def)
next
  case (finish name node env out calls)
  have "good_outcome env out" using executeJob_good [of env r node] finish(5) unfolding appends_def by (metis append_Nil prod.inject)
  then have "core r g s'" unfolding finish(1) using i finish(2,4) by (intro core_finish [where env = env]) (simp_all add: local_inv_def)
  then show ?thesis using i by (simp add: local_inv_def finish(1))
next
  case cancel
  then show ?thesis using i core_ctx by (simp add: local_inv_def)
qed

lemma local_reachable_inv: "local_reachable r g s \<Longrightarrow> wf_graph g \<Longrightarrow> local_inv r g s"
proof (induction rule: local_reachable.induct)
  case init
  then show ?case using core_init by (simp add: local_inv_def) (simp add: init_run_def)
next
  case (step s s')
  then show ?case using local_step_inv by blast
qed

section \<open>Termination\<close>

definition phase_weight :: "local_run \<Rightarrow> nat" where
  "phase_weight s = (case runPhase s of LoopHead \<Rightarrow> 1 | Waiting \<Rightarrow> if \<not> canceling s \<and> ctxDone s then 2 else 0 | Returned \<Rightarrow> 0)"

definition weight :: "Graph \<Rightarrow> local_run \<Rightarrow> nat" where
  "weight g s = 3 * (pending_count g s + length (goroutines s)) + 2 * length (completions s) + (if ctxDone s then 0 else 3) + phase_weight s"

lemma pending_upd [simp]:
  "pending_count g (s\<lparr> terminal := a \<rparr>) = pending_count g s" "pending_count g (s\<lparr> active := a \<rparr>) = pending_count g s"
  "pending_count g (s\<lparr> goroutines := ns \<rparr>) = pending_count g s" "pending_count g (s\<lparr> completions := cs \<rparr>) = pending_count g s"
  "pending_count g (s\<lparr> runPhase := p \<rparr>) = pending_count g s" "pending_count g (s\<lparr> ctxDone := b \<rparr>) = pending_count g s"
  "pending_count g (s\<lparr> canceling := b \<rparr>) = pending_count g s" "pending_count g (s\<lparr> Interrupted := b \<rparr>) = pending_count g s"
  "pending_count g (s\<lparr> InternalError := b \<rparr>) = pending_count g s"
  by (simp_all add: pending_count_def)

lemma pending_change_le: "new \<noteq> Pending \<Longrightarrow> pending_count g (change name new s) \<le> pending_count g s"
proof -
  assume "new \<noteq> Pending"
  then have "filter (\<lambda>n. ((States s)(name \<mapsto> new)) n = Some Pending) xs = filter (\<lambda>n. n \<noteq> name) (filter (\<lambda>n. States s n = Some Pending) xs)" for xs
    by (induction xs) auto
  then show ?thesis by (simp only: pending_count_def change_simps length_filter_le)
qed

lemma pending_change:
  assumes "States s name = Some Pending" and "name \<in> set (Order g)" and "new \<noteq> Pending"
  shows "pending_count g (change name new s) < pending_count g s"
  unfolding pending_count_def
  by (rule filter_shorter [OF assms(2)]) (use assms in \<open>auto split: if_splits\<close>)

lemma end_pending_count:
  assumes "set names \<subseteq> set (Order g)" and "new \<noteq> Pending"
  shows "pending_count g (end_pending P new names s) \<le> pending_count g s"
  using assms(1)
proof (induction names arbitrary: s)
  case (Cons name names)
  let ?s = "if States s name = Some Pending \<and> P s name then (change name new s)\<lparr> terminal := terminal s + 1 \<rparr> else s"
  have "pending_count g ?s \<le> pending_count g s" using pending_change_le [OF assms(2)] by simp
  moreover have "pending_count g (end_pending P new names ?s) \<le> pending_count g ?s" using Cons by (intro Cons.IH) simp
  ultimately show ?case by simp
qed simp

lemma start_job_count:
  assumes "job_ready g (States s) name" and "name \<in> set (Order g)"
  shows "pending_count g (start_job name s) + length (goroutines (start_job name s)) \<le> pending_count g s + length (goroutines s)"
  using pending_change [of s name g Running] assms by (simp add: job_ready_def start_job_def)

lemma loop_head_fields:
  "ctxDone (loop_head r g s) = ctxDone s" "completions (loop_head r g s) = completions s"
  "pending_count g (loop_head r g s) + length (goroutines (loop_head r g s)) \<le> pending_count g s + length (goroutines s)"
  "runPhase (loop_head r g s) = Waiting \<Longrightarrow> ctxDone s \<Longrightarrow> canceling (loop_head r g s)" "runPhase (loop_head r g s) \<noteq> LoopHead"
proof -
  let ?I = "\<lambda>s'. ctxDone s' = ctxDone s \<and> completions s' = completions s \<and>
    pending_count g s' + length (goroutines s') \<le> pending_count g s + length (goroutines s) \<and> canceling s' = canceling (note_cancel s)"
  have upd: "?I (s'\<lparr> runPhase := p \<rparr>) = ?I s'" "?I (s'\<lparr> InternalError := b \<rparr>) = ?I s'" for s' p b by simp_all
  have pass: "?I (end_pending P new (Order g) s')" if "?I s'" "new \<noteq> Pending" for P new s'
    using that end_pending_count [of "Order g" g new P s'] by (simp add: end_pending_fields)
  have start: "?I (start_jobs g m s')" if "?I s'" for m s'
  proof -
    have "?I (start_job (nextReadyJob g (States s'')) s'')" if "?I s''" "nextReadyJob g (States s'') \<noteq> ''''" for s''
      using that start_job_count [of g s'' "nextReadyJob g (States s'')"] nextReadyJob_ready [OF that(2)] by (simp add: start_job_def)
    then show ?thesis using start_jobs_induct [where I = ?I, OF that] by blast
  qed
  have note0: "?I (note_cancel s)" by (simp add: note_cancel_def)
  have sched: "?I (schedule r g (note_cancel s))" using note0 start pass [of "note_cancel s" Blocked] by (simp add: schedule_def)
  have idle: "?I (finish_idle g s')" if "?I s'" for s'
    using that pass [of _ Canceled] pass [of _ Failed] upd(2) by (simp add: finish_idle_def Let_def)
  show "runPhase (loop_head r g s) \<noteq> LoopHead" by (simp add: loop_head_def Let_def)
  show "ctxDone (loop_head r g s) = ctxDone s" "completions (loop_head r g s) = completions s"
    "pending_count g (loop_head r g s) + length (goroutines (loop_head r g s)) \<le> pending_count g s + length (goroutines s)"
    using sched idle [OF sched] by (simp_all add: loop_head_def Let_def)
  show "canceling (loop_head r g s)" if "runPhase (loop_head r g s) = Waiting" "ctxDone s"
  proof -
    have "canceling (schedule r g (note_cancel s))" using sched that(2) by (simp add: note_cancel_def)
    then show ?thesis using that(1) by (auto simp: loop_head_def Let_def split: if_splits)
  qed
qed

lemma local_step_weight:
  assumes "local_step r g s s'" and i: "local_inv r g s"
  shows "weight g s' < weight g s"
  using assms(1)
proof (cases rule: local_step.cases)
  case head
  then show ?thesis using loop_head_fields [where r = r and g = g and s = s]
    by (cases "runPhase (loop_head r g s)") (auto simp: weight_def phase_weight_def)
next
  case (receive c cs)
  obtain name x b where c: "c = (name, x, b)" by (cases c) auto
  have "x \<noteq> Pending" using i receive(3) c unfolding local_inv_def core_def flags_ok_def by auto
  then have "pending_count g (change name x s) \<le> pending_count g s" by (rule pending_change_le)
  then show ?thesis using receive c by (simp add: weight_def phase_weight_def receive_def)
next
  case (finish name node env out calls)
  then show ?thesis using length_remove1_Suc [OF finish(2)] by (simp add: weight_def phase_weight_def split: phase.splits)
qed (auto simp: weight_def phase_weight_def split: phase.splits)

end
