(* ===== verification/Local_Properties.thy ===== *)
theory Local_Properties
  imports Local_Safety
begin

text \<open>
  Properties of the local scheduler on compiled pipelines: its invariant, its termination, the meaning of its
  result, and the protocol of a job.
\<close>

section \<open>Compiled graphs\<close>

lemma compiled_wf:
  assumes "distinct (map fst (Jobs cfg))" and "Validate cfg = Inr ()" and "Compile cfg = Inr g"
  shows "wf_graph g"
proof -
  have valid: "valid_pipeline cfg" using assms(1,2) Validate_accepts by blast
  note c = Compile_Inr [OF validated_compilable [OF assms(1,2)] assms(3)]
  have lt: "distinct (Order g)" "\<And>i. i < length (Order g) \<Longrightarrow> node_needs (Nodes g) (Order g ! i) \<subseteq> set (take i (Order g))"
    using c(1,2) by (auto simp: least_topological_def candidates_def)
  have "set (needs_list g n) = node_needs (Nodes g) n" for n by (simp add: needs_list_def node_needs_def split: option.splits)
  then have topo: "set (needs_list g n) \<subseteq> set A" if "Order g = A @ n # B" for A n B using lt(2) [of "length A"] that by simp
  have keys: "fst ` set (Nodes g) = fst ` set (Jobs cfg)" "length (Nodes g) = length (Jobs cfg)"
    unfolding c(1) by simp (metis graph_nodes_keys length_map)
  have "'''' \<notin> fst ` set (Jobs cfg)" using valid by (force simp: valid_pipeline_def job_ok_def)
  then show ?thesis unfolding wf_graph_def using lt(1) topo c(3,4) keys by metis
qed

section \<open>Progress\<close>

text \<open>An environment that answers every call well.\<close>

definition good_env :: job_env where
  "good_env calls c = \<lparr> jrErr = None, jrResult = \<lparr> ExitCode = 0, Err = None \<rparr>, jrLogErr = False, jrCanceled = False \<rparr>"

lemma returned_no_goroutines:
  assumes "local_inv r g s" and wf: "wf_graph g" and "runPhase s = Returned"
  shows "goroutines s = []" and "\<forall>n \<in> set (Order g). \<exists>x. States s n = Some x \<and> terminal_state x"
proof -
  have b: "books_ok r g s" and t: "terminal s = int (length (Nodes g))" using assms by (simp_all add: local_inv_def core_def)
  then have "count terminal_state g (States s) = length (Order g)" using wf_graphD(3) [OF wf] by (simp add: books_ok_def)
  then show all: "\<forall>n \<in> set (Order g). \<exists>x. States s n = Some x \<and> terminal_state x" by (simp only: count_all)
  have "States s n \<noteq> Some Running" for n
  proof
    assume n: "States s n = Some Running"
    have "states_ok g (ctxDone s) (States s)" using assms(1) by (simp add: local_inv_def core_def)
    then have "n \<in> set (Order g)" using n by (rule states_ok_order)
    then show False using all n by (auto simp: terminal_state_def)
  qed
  then have "set (goroutines s @ map fst (completions s)) = {}" using b by (simp add: books_ok_def del: set_append)
  then show "goroutines s = []" by simp
qed

lemma local_progress:
  assumes i: "local_inv r g s" and wf: "wf_graph g" and "runPhase s \<noteq> Returned"
  shows "\<exists>s'. local_step r g s s'"
proof (cases "runPhase s")
  case LoopHead
  then show ?thesis using local_step.head by blast
next
  case Waiting
  have b: "books_ok r g s" and st: "states_ok g (ctxDone s) (States s)" and act: "0 < active s" using i Waiting by (simp_all add: local_inv_def core_def)
  show ?thesis
  proof (cases "completions s")
    case (Cons c cs)
    then show ?thesis using local_step.receive [OF Waiting] by blast
  next
    case Nil
    then obtain name ns where ns: "goroutines s = name # ns" using b act by (cases "goroutines s") (auto simp: books_ok_def)
    have "name \<in> set (goroutines s @ map fst (completions s))" using ns by simp
    then have "States s name = Some Running" using b by (simp add: books_ok_def del: set_append)
    then have "name \<in> set (Order g)" using st by (intro states_ok_order)
    then obtain node where "map_of (Nodes g) name = Some node" using wf_graphD(2) [OF wf] by (metis map_of_eq_None_iff not_None_eq)
    moreover obtain out calls where "run_state (executeJob r good_env node) [] = (out, calls)" by (metis surj_pair)
    ultimately show ?thesis using local_step.finish [of name s g node good_env r out calls] ns by (auto simp: good_env_def)
  qed
qed (use assms in simp)

lemma steps_weight:
  assumes "(local_step r g ^^ k) s s'" and "local_inv r g s" and wf: "wf_graph g"
  shows "weight g s' + k \<le> weight g s" and "local_inv r g s'"
  using assms(1,2)
proof (induction k arbitrary: s')
  case (Suc k)
  case 1
  then obtain s1 where s1: "(local_step r g ^^ k) s s1" "local_step r g s1 s'" by auto
  have "weight g s1 + k \<le> weight g s" "local_inv r g s1" using Suc.IH s1(1) "1"(2) by blast+
  then show ?case using local_step_weight [OF s1(2)] by simp
next
  case (Suc k)
  case 2
  then obtain s1 where s1: "(local_step r g ^^ k) s s1" "local_step r g s1 s'" by auto
  then show ?case using Suc.IH(2) [OF s1(1)] "2"(2) local_step_inv [OF _ _ wf] by blast
qed simp_all

lemma init_weight: "wf_graph g \<Longrightarrow> weight g (init_run g) = 3 * length (Nodes g) + 4"
proof -
  assume wf: "wf_graph g"
  have "States (init_run g) n = Some Pending" if "n \<in> set (Order g)" for n
    using that wf_graphD(2) [OF wf] by (simp add: states_init map_of_eq_None_iff)
  then have "pending_count g (init_run g) = length (Order g)" by (simp add: pending_count_def)
  then show ?thesis using wf_graphD(3) [OF wf] by (simp add: weight_def phase_weight_def) (simp add: init_run_def)
qed

lemma steps_reachable: "(local_step r g ^^ k) (init_run g) s \<Longrightarrow> local_reachable r g s"
  by (induction k arbitrary: s) (auto intro: local_reachable.intros)

section \<open>The protocol of a job\<close>

definition job_fine :: "Runner \<Rightarrow> job_call \<Rightarrow> job_reply \<Rightarrow> bool" where
  "job_fine r c a \<longleftrightarrow>
    (case c of
       ArtifactRestore _ _ \<Rightarrow> jrErr a = None
     | ArtifactPublish _ _ \<Rightarrow> jrErr a = None
     | ExecuteJob _ _ \<Rightarrow> \<not> (hasLogs r \<and> jrLogErr a) \<and> Err (jrResult a) = None
     | ExecuteStep _ \<Rightarrow> \<not> (hasLogs r \<and> jrLogErr a) \<and> Err (jrResult a) = None
     | _ \<Rightarrow> True)"

definition publish_calls :: "Runner \<Rightarrow> Node \<Rightarrow> job_call list" where
  "publish_calls r node = (if hasArtifacts r then [ArtifactPublish (NodeName node) (Upload (JobArtifacts (NodeJob node)))] else []) @
     (if hasCache r then [CacheSave (Save (JobCache (NodeJob node)))] else [])"

definition run_calls :: "Runner \<Rightarrow> Node \<Rightarrow> job_call list" where
  "run_calls r node = (if hasJobExecutor r then [ExecuteJob (NodeName node) (NodeJob node)]
     else map (\<lambda>step. ExecuteStep (Run step)) (Steps (NodeJob node)))"

definition prepare_calls :: "Runner \<Rightarrow> Node \<Rightarrow> job_call list" where
  "prepare_calls r node = (if hasLogs r then [OpenLog (NodeName node)] else []) @
     (if hasArtifacts r then [ArtifactRestore (NodeName node) (Download (JobArtifacts (NodeJob node)))] else []) @
     (if hasCache r then [CacheRestore (Restore (JobCache (NodeJob node)))] else [])"

text \<open>The calls are a beginning of the given ones, and all of them with good answers exactly when the job passes.\<close>

definition follows :: "Runner \<Rightarrow> job_env \<Rightarrow> job_call list \<Rightarrow> job_call list \<Rightarrow> job_call list \<Rightarrow> outcome \<Rightarrow> bool" where
  "follows r env plan tr cs out \<longleftrightarrow> prefix cs plan \<and> (fst out = Passed \<longleftrightarrow> all_replies (job_fine r) env tr cs) \<and> (fst out = Passed \<longrightarrow> cs = plan)"

lemma follows_Cons:
  assumes "job_fine r c (env tr c)" and "follows r env plan (tr @ [c]) cs out"
  shows "follows r env (c # plan) tr (c # cs) out"
  using assms by (simp add: follows_def)

lemma follows_append:
  assumes "all_replies (job_fine r) env tr pre" and "follows r env plan (tr @ pre) cs out"
  shows "follows r env (pre @ plan) tr (pre @ cs) out"
  using assms by (simp add: follows_def all_replies_append)

lemma artifact_failure_not_passed [simp]: "fst (artifact_failure c p) \<noteq> Passed"
  by (simp add: artifact_failure_def)

lemma finishJob_passed [simp]: "fst (finishJob c e) = Passed \<longleftrightarrow> Err e = None"
  by (simp add: finishJob_def)

lemma publish_follows: "appends (follows r env (publish_calls r node)) (publish r env node)"
  unfolding appends_def publish_def
  by (auto simp: follows_def publish_calls_def job_fine_def split: option.split simp del: split_paired_Ex)

lemma execute_steps_follows:
  "appends (follows r env (map (\<lambda>step. ExecuteStep (Run step)) steps @ publish_calls r node)) (execute_steps r env node steps)"
proof (induction steps)
  case (Cons step steps)
  let ?c = "ExecuteStep (Run step)" and ?plan = "map (\<lambda>step. ExecuteStep (Run step)) steps @ publish_calls r node"
  show ?case
    unfolding execute_steps.simps
  proof (rule appends_ask_bind)
    fix tr
    obtain cs out where s: "run_state (execute_steps r env node steps) (tr @ [?c]) = (out, (tr @ [?c]) @ cs)" "follows r env ?plan (tr @ [?c]) cs out"
      using Cons by (rule appendsE)
    show "\<exists>ds y. run_state (if hasLogs r \<and> jrLogErr (env tr ?c) then State_Monad.return (Failed, True)
        else if Err (jrResult (env tr ?c)) = None then execute_steps r env node steps
        else State_Monad.return (finishJob (jrCanceled (env tr ?c)) (jrResult (env tr ?c)))) (tr @ [?c]) = (y, tr @ ?c # ds) \<and>
        follows r env (map (\<lambda>step. ExecuteStep (Run step)) (step # steps) @ publish_calls r node) tr (?c # ds) y"
    proof (cases "job_fine r ?c (env tr ?c)")
      case True
      then show ?thesis using s follows_Cons [OF True s(2)] by (auto simp: job_fine_def simp del: split_paired_Ex)
    next
      case False
      then show ?thesis by (auto simp: follows_def job_fine_def simp del: split_paired_Ex)
    qed
  qed
qed (simp add: publish_follows)

lemma execute_body_follows: "appends (follows r env (run_calls r node @ publish_calls r node)) (execute_body r env node)"
proof (cases "hasJobExecutor r")
  case True
  let ?c = "ExecuteJob (NodeName node) (NodeJob node)"
  show ?thesis
    unfolding execute_body_def if_P [OF True]
  proof (rule appends_ask_bind)
    fix tr
    obtain cs out where s: "run_state (publish r env node) (tr @ [?c]) = (out, (tr @ [?c]) @ cs)" "follows r env (publish_calls r node) (tr @ [?c]) cs out"
      using publish_follows by (rule appendsE)
    show "\<exists>ds y. run_state (if hasLogs r \<and> jrLogErr (env tr ?c) then State_Monad.return (Failed, True)
       else if fst (finishJobExecution (jrCanceled (env tr ?c)) (jrResult (env tr ?c))) \<noteq> Passed
         then State_Monad.return (finishJobExecution (jrCanceled (env tr ?c)) (jrResult (env tr ?c)))
       else publish r env node) (tr @ [?c]) = (y, tr @ ?c # ds) \<and> follows r env (run_calls r node @ publish_calls r node) tr (?c # ds) y"
    proof (cases "job_fine r ?c (env tr ?c)")
      case fine: True
      then show ?thesis using s follows_Cons [OF fine s(2)] True by (auto simp: job_fine_def finishJobExecution_def run_calls_def simp del: split_paired_Ex)
    next
      case False
      then show ?thesis using True by (auto simp: follows_def job_fine_def finishJobExecution_def run_calls_def simp del: split_paired_Ex)
    qed
  qed
qed (simp add: execute_body_def execute_steps_follows run_calls_def)

lemma executeJob_follows:
  assumes "run_state (executeJob r env node) [] = (out, calls)"
  shows "follows r env (prepare_calls r node @ run_calls r node @ publish_calls r node) [] calls out"
proof -
  let ?tr1 = "if hasLogs r then [OpenLog (NodeName node)] else []"
  let ?c = "ArtifactRestore (NodeName node) (Download (JobArtifacts (NodeJob node)))"
  let ?tr2 = "?tr1 @ (if hasArtifacts r then [?c] else [])"
  obtain cs y where b: "run_state (execute_body r env node) (prepare_calls r node) = (y, prepare_calls r node @ cs)"
      "follows r env (run_calls r node @ publish_calls r node) (prepare_calls r node) cs y"
    using execute_body_follows by (rule appendsE)
  have eq: "run_state (executeJob r env node) [] = (case (if hasArtifacts r then jrErr (env ?tr1 ?c) else None) of
      Some p \<Rightarrow> (artifact_failure (jrCanceled (env ?tr1 ?c)) p, ?tr2) | None \<Rightarrow> (y, prepare_calls r node @ cs))"
    using b(1) unfolding executeJob_def prepare_calls_def
    by (cases "hasLogs r"; cases "hasArtifacts r"; cases "hasCache r") (simp_all split: option.split)
  show ?thesis
  proof (cases "if hasArtifacts r then jrErr (env ?tr1 ?c) else None")
    case None
    have "all_replies (job_fine r) env [] (prepare_calls r node)" using None
      by (auto simp: prepare_calls_def all_replies_append job_fine_def split: if_splits)
    then show ?thesis using eq None assms b(2) follows_append [of r env "[]" "prepare_calls r node"] by (simp del: append_assoc)
  next
    case (Some p)
    then have h: "hasArtifacts r" "jrErr (env ?tr1 ?c) = Some p" by (simp_all split: if_splits)
    then have "out = artifact_failure (jrCanceled (env ?tr1 ?c)) p" "calls = ?tr1 @ [?c]" using eq assms by simp_all
    then show ?thesis using h by (simp add: follows_def prepare_calls_def all_replies_append job_fine_def)
  qed
qed

section \<open>Properties\<close>

lemma compiled_needs:
  assumes "distinct (map fst (Jobs cfg))" and "Validate cfg = Inr ()" and "Compile cfg = Inr g"
  shows "set (needs_list g n) = cfg_needs cfg n" and "set (Order g) = fst ` set (Jobs cfg)" and "length (Nodes g) = length (Jobs cfg)"
proof -
  note c = Compile_Inr [OF validated_compilable [OF assms(1,2)] assms(3)]
  have "set (needs_list g n) = node_needs (Nodes g) n" by (simp add: needs_list_def node_needs_def split: option.splits)
  then show "set (needs_list g n) = cfg_needs cfg n" by (simp add: c(1))
  show "set (Order g) = fst ` set (Jobs cfg)" by (rule c(3))
  show "length (Nodes g) = length (Jobs cfg)" unfolding c(1) by (metis graph_nodes_keys length_map)
qed

text \<open>C9. In every state a local run of a validated pipeline can reach, however goroutines, completions and
  cancellation interleave: no more jobs run than \<open>MaxParallel\<close> allows, a job that has started or ended by itself has
  all its needs passed, a blocked job has a failed or blocked need, and the states the observer was told, replayed
  from the start, are legal changes that lead to the current states.\<close>

theorem local_runner_invariant:
  assumes "distinct (map fst (Jobs cfg))" and "Validate cfg = Inr ()" and "Compile cfg = Inr g" and "local_reachable r g s"
  shows "int (card {n. States s n = Some Running}) \<le> max 1 (MaxParallel r) \<and>
    (\<forall>n. States s n \<in> {Some Running, Some Passed, Some Failed} \<longrightarrow> (\<forall>d \<in> cfg_needs cfg n. States s d = Some Passed)) \<and>
    (\<forall>n. States s n = Some Blocked \<longrightarrow> (\<exists>d \<in> cfg_needs cfg n. States s d \<in> {Some Failed, Some Blocked})) \<and>
    replay (States (init_run g)) (observed s) = Some (States s)"
proof -
  have "core r g s" using local_reachable_inv [OF assms(4) compiled_wf [OF assms(1-3)]] by (simp add: local_inv_def)
  then have c: "states_ok g (ctxDone s) (States s)" "books_ok r g s" "replay (States (init_run g)) (observed s) = Some (States s)" by (simp_all add: core_def)
  have "card {n. States s n = Some Running} = length (goroutines s @ map fst (completions s))"
    using c(2) distinct_card [of "goroutines s @ map fst (completions s)"] by (simp add: books_ok_def del: set_append length_append distinct_append)
  then have "int (card {n. States s n = Some Running}) \<le> max 1 (MaxParallel r)" using c(2) by (simp add: books_ok_def max_parallel_def split: if_splits)
  then show ?thesis using c(1,3) unfolding states_ok_def compiled_needs(1) [OF assms(1-3)] by blast
qed

text \<open>C10. A local run always ends when its jobs do: every execution of the scheduler on a validated pipeline with
  \<open>n\<close> jobs has at most \<open>3 n + 4\<close> steps, the scheduler is never stuck before it returns, and when it returns every job
  has ended. In particular the branch that reports a graph without runnable jobs is never taken.\<close>

theorem local_runner_terminates:
  assumes "distinct (map fst (Jobs cfg))" and "Validate cfg = Inr ()" and "Compile cfg = Inr g"
  shows "(\<forall>k s. (local_step r g ^^ k) (init_run g) s \<longrightarrow> k \<le> 3 * length (Jobs cfg) + 4) \<and>
    (\<forall>s. local_reachable r g s \<longrightarrow> ((\<nexists>s'. local_step r g s s') \<longleftrightarrow> runPhase s = Returned)) \<and>
    (\<forall>s. local_reachable r g s \<longrightarrow> runPhase s = Returned \<longrightarrow> (\<forall>n \<in> fst ` set (Jobs cfg). \<exists>x. States s n = Some x \<and> terminal_state x))"
proof -
  note wf = compiled_wf [OF assms]
  have "local_inv r g (init_run g)" by (rule local_reachable_inv [OF local_reachable.init wf])
  then have bound: "k \<le> 3 * length (Jobs cfg) + 4" if "(local_step r g ^^ k) (init_run g) s" for k s
    using steps_weight(1) [OF that _ wf] init_weight [OF wf] compiled_needs(3) [OF assms] by simp
  have stuck: "\<not> local_step r g s s'" if "local_reachable r g s" "runPhase s = Returned" for s s'
  proof
    assume "local_step r g s s'"
    then show False using that returned_no_goroutines(1) [OF local_reachable_inv [OF that(1) wf] wf that(2)] by (auto elim!: local_stepE)
  qed
  have "\<exists>s'. local_step r g s s'" if "local_reachable r g s" "runPhase s \<noteq> Returned" for s
    by (rule local_progress [OF local_reachable_inv [OF that(1) wf] wf that(2)])
  moreover have "\<forall>n \<in> fst ` set (Jobs cfg). \<exists>x. States s n = Some x \<and> terminal_state x" if "local_reachable r g s" "runPhase s = Returned" for s
    using returned_no_goroutines(2) [OF local_reachable_inv [OF that(1) wf] wf that(2)] compiled_needs(2) [OF assms] by simp
  ultimately show ?thesis using bound stuck by blast
qed

text \<open>C26. What the result of a local run means: the run has succeeded exactly when it was not interrupted and every
  job has passed, an internal error comes with a failed job, and when the context was not canceled the run is not
  interrupted, a job is blocked exactly when one of its needs failed or is blocked, and has run exactly when all
  its needs have passed.\<close>

theorem local_result:
  assumes "distinct (map fst (Jobs cfg))" and "Validate cfg = Inr ()" and "Compile cfg = Inr g"
    and "local_reachable r g s" and "runPhase s = Returned"
  shows "(Succeeded g s \<longleftrightarrow> \<not> Interrupted s \<and> (\<forall>n \<in> fst ` set (Jobs cfg). States s n = Some Passed)) \<and>
    (InternalError s \<longrightarrow> (\<exists>n. States s n = Some Failed)) \<and>
    (\<not> ctxDone s \<longrightarrow> \<not> Interrupted s \<and> (\<forall>n \<in> fst ` set (Jobs cfg).
       (States s n = Some Blocked \<longleftrightarrow> (\<exists>d \<in> cfg_needs cfg n. States s d \<in> {Some Failed, Some Blocked})) \<and>
       (States s n \<in> {Some Passed, Some Failed} \<longleftrightarrow> (\<forall>d \<in> cfg_needs cfg n. States s d = Some Passed))))"
proof -
  note wf = compiled_wf [OF assms(1-3)]
  note inv = local_reachable_inv [OF assms(4) wf]
  note needs = compiled_needs(1) [OF assms(1-3)] and order = compiled_needs(2) [OF assms(1-3)]
  have st: "states_ok g (ctxDone s) (States s)" and f: "flags_ok s" using inv by (simp_all add: local_inv_def core_def)
  have ended: "\<exists>x. States s n = Some x \<and> terminal_state x" if "n \<in> fst ` set (Jobs cfg)" for n
    using returned_no_goroutines(2) [OF inv wf assms(5)] that order by blast
  have dom: "States s n = Some x \<Longrightarrow> n \<in> fst ` set (Jobs cfg)" for n x using states_ok_order [OF st] order by simp
  have int: "InternalError s \<Longrightarrow> \<exists>n. States s n = Some Failed" using f by (simp add: flags_ok_def)
  have nodes: "fst ` set (Nodes g) = fst ` set (Jobs cfg)" using wf_graphD(2) [OF wf] order by simp
  have "list_all (\<lambda>(name, _). States s name = Some Passed) (Nodes g) \<longleftrightarrow> (\<forall>n \<in> fst ` set (Nodes g). States s n = Some Passed)"
    by (auto simp: list_all_iff)
  then have succ: "Succeeded g s \<longleftrightarrow> \<not> Interrupted s \<and> (\<forall>n \<in> fst ` set (Jobs cfg). States s n = Some Passed)"
    unfolding Succeeded_def nodes using int dom by fastforce
  have ran: "\<forall>d \<in> cfg_needs cfg n. States s d = Some Passed" if "States s n \<in> {Some Passed, Some Failed}" for n
    using st that unfolding states_ok_def needs by blast
  have blk: "\<exists>d \<in> cfg_needs cfg n. States s d \<in> {Some Failed, Some Blocked}" if "States s n = Some Blocked" for n
    using st that unfolding states_ok_def needs by blast
  have cases: "States s n \<in> {Some Passed, Some Failed} \<or> States s n = Some Blocked" if job: "n \<in> fst ` set (Jobs cfg)" and live: "\<not> ctxDone s" for n
  proof -
    obtain x where x: "States s n = Some x" "terminal_state x" using ended [OF job] by blast
    have "x \<noteq> Canceled" using states_ok_canceled [OF st, of n] x(1) live by blast
    then show ?thesis using x by (cases x) (auto simp: terminal_state_def)
  qed
  have excl: "\<not> (\<forall>d \<in> cfg_needs cfg n. States s d = Some Passed)" if "\<exists>d \<in> cfg_needs cfg n. States s d \<in> {Some Failed, Some Blocked}" for n
    using that by force
  have "\<not> ctxDone s \<Longrightarrow> \<not> Interrupted s" using f by (auto simp: flags_ok_def)
  then show ?thesis using succ int ran blk cases excl by (intro conjI impI ballI iffI) blast+
qed

text \<open>A job keeps to its protocol: whatever the services answer, the calls a job makes are a beginning of
  opening its log, restoring artifacts, restoring caches, running the job, publishing artifacts and saving caches (those
  that are configured), and the job passes exactly when it made all of these calls and each was answered well. A
  canceled job has seen the canceled context, and only a failed job reports an internal error.\<close>

theorem job_protocol:
  assumes "run_state (executeJob r env node) [] = (out, calls)"
  shows "prefix calls (prepare_calls r node @ run_calls r node @ publish_calls r node) \<and>
    (fst out = Passed \<longleftrightarrow> calls = prepare_calls r node @ run_calls r node @ publish_calls r node \<and> all_replies (job_fine r) env [] calls) \<and>
    (fst out = Canceled \<longrightarrow> (\<exists>tr c. jrCanceled (env tr c))) \<and> (snd out \<longrightarrow> fst out = Failed) \<and> fst out \<in> {Passed, Failed, Canceled}"
proof -
  have "good_outcome env out" using executeJob_good [of env r node] assms unfolding appends_def by (metis append_Nil prod.inject)
  moreover have "follows r env (prepare_calls r node @ run_calls r node @ publish_calls r node) [] calls out" by (rule executeJob_follows [OF assms])
  ultimately show ?thesis unfolding follows_def good_outcome_def by blast
qed

section \<open>Witnesses\<close>

lemma local_returns:
  assumes wf: "wf_graph g" and "local_reachable r g s"
  shows "\<exists>s'. local_reachable r g s' \<and> runPhase s' = Returned"
  using assms(2)
proof (induction "weight g s" arbitrary: s rule: less_induct)
  case less
  note inv = local_reachable_inv [OF less.prems wf]
  show ?case
  proof (cases "runPhase s = Returned")
    case False
    then obtain s' where s': "local_step r g s s'" using local_progress [OF inv wf] by blast
    then show ?thesis using less.hyps [OF local_step_weight [OF s' inv]] local_reachable.step [OF less.prems s'] by blast
  qed (use less.prems in blast)
qed

definition sample_runner :: Runner where
  "sample_runner = \<lparr> hasJobExecutor = True, hasArtifacts = True, hasCache = True, hasLogs = True, MaxParallel = 2 \<rparr>"

theorem local_runner_invariant_witness:
  "\<exists>g s. Compile sample_pipeline = Inr g \<and> local_reachable sample_runner g s \<and> runPhase s = Returned \<and>
     int (card {n. States s n = Some Running}) \<le> 2"
proof -
  obtain g where g: "Compile sample_pipeline = Inr g" by (rule sample_compiles)
  note wf = compiled_wf [OF sample_pipeline_keys sample_pipeline_accepted g]
  obtain s where s: "local_reachable sample_runner g s" "runPhase s = Returned" using local_returns [OF wf local_reachable.init] by blast
  have "int (card {n. States s n = Some Running}) \<le> max 1 (MaxParallel sample_runner)"
    using local_runner_invariant [OF sample_pipeline_keys sample_pipeline_accepted g s(1)] by blast
  then show ?thesis using g s by (auto simp: sample_runner_def)
qed

theorem local_runner_terminates_witness:
  "\<exists>g. Compile sample_pipeline = Inr g \<and> (\<forall>k s. (local_step sample_runner g ^^ k) (init_run g) s \<longrightarrow> k \<le> 10)"
proof -
  obtain g where g: "Compile sample_pipeline = Inr g" by (rule sample_compiles)
  have "\<forall>k s. (local_step sample_runner g ^^ k) (init_run g) s \<longrightarrow> k \<le> 3 * length (Jobs sample_pipeline) + 4"
    using local_runner_terminates [OF sample_pipeline_keys sample_pipeline_accepted g, of sample_runner] by blast
  moreover have "length (Jobs sample_pipeline) = 2" by (simp add: sample_pipeline_def)
  ultimately show ?thesis using g by simp
qed

theorem local_result_witness:
  "\<exists>g s. Compile sample_pipeline = Inr g \<and> local_reachable sample_runner g s \<and> runPhase s = Returned \<and>
     (Succeeded g s \<longleftrightarrow> \<not> Interrupted s \<and> States s ''build'' = Some Passed \<and> States s ''smoke'' = Some Passed)"
proof -
  obtain g where g: "Compile sample_pipeline = Inr g" by (rule sample_compiles)
  note wf = compiled_wf [OF sample_pipeline_keys sample_pipeline_accepted g]
  obtain s where s: "local_reachable sample_runner g s" "runPhase s = Returned" using local_returns [OF wf local_reachable.init] by blast
  have "Succeeded g s \<longleftrightarrow> \<not> Interrupted s \<and> (\<forall>n \<in> fst ` set (Jobs sample_pipeline). States s n = Some Passed)"
    using local_result [OF sample_pipeline_keys sample_pipeline_accepted g s] by blast
  moreover have "fst ` set (Jobs sample_pipeline) = {''build'', ''smoke''}" by (auto simp: sample_pipeline_def)
  ultimately have "Succeeded g s \<longleftrightarrow> \<not> Interrupted s \<and> States s ''build'' = Some Passed \<and> States s ''smoke'' = Some Passed" by simp
  then show ?thesis using g s by (intro exI [of _ g] exI [of _ s] conjI)
qed

definition sample_node :: Node where
  "sample_node = \<lparr> NodeName = ''build'', NodeJob = sample_build, NodeNeeds = [], Dependents = [''smoke''] \<rparr>"

theorem job_protocol_witness:
  "run_state (executeJob sample_runner good_env sample_node) [] =
     ((Passed, False), prepare_calls sample_runner sample_node @ run_calls sample_runner sample_node @ publish_calls sample_runner sample_node)"
proof -
  obtain out calls where e: "run_state (executeJob sample_runner good_env sample_node) [] = (out, calls)" by (metis surj_pair)
  have "job_fine sample_runner c (good_env tr c)" for tr c by (simp add: job_fine_def good_env_def split: job_call.split)
  then have "all_replies (job_fine sample_runner) good_env [] calls" by (simp add: all_replies_def)
  then have out: "fst out = Passed" using executeJob_follows [OF e] by (simp add: follows_def)
  then have "calls = prepare_calls sample_runner sample_node @ run_calls sample_runner sample_node @ publish_calls sample_runner sample_node" "\<not> snd out"
    using job_protocol [OF e] out by (auto simp del: append_assoc)
  then show ?thesis using e out by (metis prod.collapse)
qed

end
