(* ===== verification/Workspace.thy ===== *)
theory Workspace
  imports Archive_Safety
begin

text \<open>
  \<open>internal/runworkspace/workspace.go\<close>: the directories in which runs and jobs are executed, each with a marker
  file that names its owner. \<open>enc\<close> and \<open>dec\<close> are the JSON encoding of a marker and its decoding. The calls that
  remove files and read directories extend the file system of \<open>Files\<close>.
\<close>

section \<open>Removing and reading\<close>

definition fs_del :: "fpath \<Rightarrow> fs \<Rightarrow> fs" where
  "fs_del p fs = filter (\<lambda>e. fst e \<noteq> p) fs"

definition occupied :: "fs \<Rightarrow> fpath \<Rightarrow> bool" where
  "occupied fs p \<longleftrightarrow> list_ex (\<lambda>e. strict_prefix p (fst e)) fs"

text \<open>\<open>os.Remove\<close>: a file, a link or an empty directory.\<close>

definition os_remove :: "bool \<Rightarrow> fpath \<Rightarrow> (os_error, unit) io" where
  "os_remove priv p fs =
    (case os_parent priv p fs of
       Inl e \<Rightarrow> (Inl e, fs)
     | Inr (d, m) \<Rightarrow>
       if p = [] then (Inl ErrOther, fs)
       else let q = d @ [last p] in
       if node fs q = None then (Inl ErrNotExist, fs)
       else if \<not> w_ok priv m \<or> occupied fs q then (Inl ErrOther, fs)
       else (Inr (), fs_del q fs))"

text \<open>\<open>os.RemoveAll\<close> goes down without following links, removes what it may, and fails when something is left.\<close>

definition listable :: "bool \<Rightarrow> fpath \<Rightarrow> fpath \<Rightarrow> fs \<Rightarrow> bool" where
  "listable priv base p fs \<longleftrightarrow>
     list_all (\<lambda>q. prefix base q \<longrightarrow> (case node fs q of Some (Dir m) \<Rightarrow> r_ok priv m \<and> x_ok priv m | _ \<Rightarrow> False)) (prefixes (butlast p))"

definition remove_inner :: "bool \<Rightarrow> fpath \<Rightarrow> fpath \<Rightarrow> fs \<Rightarrow> fs" where
  "remove_inner priv base p fs =
    (case node fs (butlast p) of
       Some (Dir m) \<Rightarrow> if listable priv base p fs \<and> w_ok priv m \<and> \<not> occupied fs p then fs_del p fs else fs
     | _ \<Rightarrow> fs)"

definition os_removeall :: "bool \<Rightarrow> fpath \<Rightarrow> (os_error, unit) io" where
  "os_removeall priv p fs =
    (case os_parent priv p fs of
       Inl ErrNotExist \<Rightarrow> (Inr (), fs)
     | Inl e \<Rightarrow> (Inl e, fs)
     | Inr (d, m) \<Rightarrow>
       let q = d @ [last p] in
       if p = [] then (Inl ErrOther, fs)
       else if node fs q = None then (Inr (), fs)
       else let fs1 = fold (remove_inner priv q) (rev (sort (filter (strict_prefix q) (map fst fs)))) fs in
         if w_ok priv m \<and> \<not> occupied fs1 q then (Inr (), fs_del q fs1) else (Inl ErrOther, fs1))"

definition os_readfile :: "bool \<Rightarrow> fpath \<Rightarrow> fs \<Rightarrow> (os_error, string) result" where
  "os_readfile priv p fs = rbind (resolve priv fs max_links [] p) (\<lambda>q.
     case node fs q of Some (Regular m content) \<Rightarrow> if r_ok priv m then Inr content else Inl ErrOther
     | Some _ \<Rightarrow> Inl ErrOther | None \<Rightarrow> Inl ErrNotExist)"

text \<open>\<open>os.ReadDir\<close>: the names in order, each with whether it is a directory (a link is none).\<close>

definition os_readdir :: "bool \<Rightarrow> fpath \<Rightarrow> fs \<Rightarrow> (os_error, (string \<times> bool) list) result" where
  "os_readdir priv p fs = rbind (resolve priv fs max_links [] p) (\<lambda>q.
     case node fs q of
       Some (Dir m) \<Rightarrow>
         if r_ok priv m
         then Inr (map (\<lambda>name. (name, case node fs (q @ [name]) of Some (Dir _) \<Rightarrow> True | _ \<Rightarrow> False))
           (sort (map (\<lambda>e. last (fst e)) (filter (\<lambda>e. fst e \<noteq> [] \<and> butlast (fst e) = q) fs))))
         else Inl ErrOther
     | Some _ \<Rightarrow> Inl ErrOther | None \<Rightarrow> Inl ErrNotExist)"

section \<open>Workspaces\<close>

record Marker =
  MkRunID :: string
  MkJobName :: string
  MkLeaseID :: string
  MkSourceDigest :: string
  MkGeneration :: int

definition markerName :: string where "markerName = ''.forgeci-workspace.json''"

definition validComponent :: "string \<Rightarrow> bool" where
  "validComponent v \<longleftrightarrow> v \<noteq> '''' \<and> v \<noteq> ''.'' \<and> v \<noteq> ''..'' \<and>
     \<not> list_ex (\<lambda>c. c \<in> {slash, CHR 0x5C, CHR 0x00, CHR 0x0D, CHR 0x0A}) v"

definition workspace_rel :: "Marker \<Rightarrow> string list" where
  "workspace_rel m = (if MkJobName m \<noteq> '''' then [''jobs'', MkRunID m, MkJobName m, MkLeaseID m] else [''runs'', MkRunID m, MkLeaseID m])"

definition workspacePath :: "fpath \<Rightarrow> Marker \<Rightarrow> fpath" where
  "workspacePath root m = path_join root (join_with slash (workspace_rel m))"

definition workspace_Create :: "bool \<Rightarrow> (Marker \<Rightarrow> string) \<Rightarrow> fpath \<Rightarrow> Marker \<Rightarrow> (string, fpath) io" where
  "workspace_Create priv enc root marker =
    (if \<not> validComponent (MkRunID marker) \<or> \<not> validComponent (MkLeaseID marker) then io_fail ''invalid workspace identity''
     else io_bind (io_map_err (\<lambda>_. ''mkdir'') (os_mkdirall priv root 448)) (\<lambda>_.
       let dir = workspacePath root marker in
       io_bind (io_map_err (\<lambda>_. ''mkdir'') (os_mkdirall priv (butlast dir) 448)) (\<lambda>_.
       io_bind (io_map_err (\<lambda>_. ''mkdir'') (os_create priv dir (Dir 448))) (\<lambda>_ fs.
       case os_create priv (dir @ [markerName]) (Regular 384 (enc marker @ [CHR 0x0A])) fs of
         (Inr _, fs1) \<Rightarrow> (Inr dir, fs1)
       | (Inl _, fs1) \<Rightarrow> (Inl ''write marker'', snd (os_remove priv dir fs1))))))"

text \<open>The directories on the way to a workspace.\<close>

definition candidates :: "fpath \<Rightarrow> fpath \<Rightarrow> Marker \<Rightarrow> fpath list" where
  "candidates root dir m =
    (if MkJobName m \<noteq> '''' then [root @ [''jobs''], root @ [''jobs'', MkRunID m], root @ [''jobs'', MkRunID m, MkJobName m], dir]
     else [root @ [''runs''], root @ [''runs'', MkRunID m], dir])"

fun check_dirs :: "bool \<Rightarrow> fpath list \<Rightarrow> fs \<Rightarrow> (string, unit) result" where
  "check_dirs priv [] fs = Inr ()"
| "check_dirs priv (c # cs) fs =
    (case os_lstat priv c fs of
       Inl _ \<Rightarrow> Inl ''lstat''
     | Inr (Dir _) \<Rightarrow> check_dirs priv cs fs
     | Inr _ \<Rightarrow> Inl ''workspace path contains unsafe link'')"

definition workspace_Remove :: "bool \<Rightarrow> (string \<Rightarrow> Marker option) \<Rightarrow> fpath \<Rightarrow> fpath \<Rightarrow> Marker \<Rightarrow> (string, unit) io" where
  "workspace_Remove priv dec root dir expected fs =
    (if \<not> validComponent (MkRunID expected) \<or> \<not> validComponent (MkLeaseID expected) \<or> MkJobName expected \<noteq> '''' \<and> \<not> validComponent (MkJobName expected)
     then (Inl ''invalid workspace identity'', fs)
     else if \<not> within root dir then (Inl ''workspace is outside configured root'', fs)
     else if path_rel root dir \<noteq> workspace_rel expected then (Inl ''workspace path does not match identity'', fs)
     else (case check_dirs priv (candidates root dir expected) fs of
         Inl e \<Rightarrow> (Inl e, fs)
       | Inr _ \<Rightarrow>
         (case os_readfile priv (dir @ [markerName]) fs of
            Inl _ \<Rightarrow> (Inl ''workspace marker'', fs)
          | Inr b \<Rightarrow>
            if dec b \<noteq> Some expected then (Inl ''workspace marker identity mismatch'', fs)
            else (case os_removeall priv dir fs of
                (Inl _, fs1) \<Rightarrow> (Inl ''remove'', fs1)
              | (Inr _, fs1) \<Rightarrow> (Inr (), snd (os_remove priv (butlast dir) fs1))))))"

section \<open>Stale workspaces\<close>

fun io_each :: "('a \<Rightarrow> ('e, unit) io) \<Rightarrow> 'a list \<Rightarrow> ('e, unit) io" where
  "io_each f [] = io_return ()"
| "io_each f (x # xs) = io_bind (f x) (\<lambda>_. io_each f xs)"

definition each_dir :: "bool \<Rightarrow> fpath \<Rightarrow> (string \<Rightarrow> (string, unit) io) \<Rightarrow> (string, unit) io" where
  "each_dir priv p f fs =
    (case os_readdir priv p fs of
       Inl _ \<Rightarrow> (Inl ''readdir'', fs)
     | Inr entries \<Rightarrow> io_each (\<lambda>(name, isDir). if isDir then f name else io_return ()) entries fs)"

definition cleanup_lease :: "bool \<Rightarrow> (string \<Rightarrow> Marker option) \<Rightarrow> fpath \<Rightarrow> fpath \<Rightarrow> (Marker \<Rightarrow> bool) \<Rightarrow> (string, unit) io" where
  "cleanup_lease priv dec root dir matches fs =
    (case os_readfile priv (dir @ [markerName]) fs of
       Inl _ \<Rightarrow> (Inr (), fs)
     | Inr b \<Rightarrow>
       (case dec b of
          None \<Rightarrow> (Inr (), fs)
        | Some marker \<Rightarrow> if \<not> matches marker then (Inr (), fs) else workspace_Remove priv dec root dir marker fs))"

text \<open>A missing directory of runs is no error.\<close>

definition if_exists :: "bool \<Rightarrow> fpath \<Rightarrow> (string, unit) io \<Rightarrow> (string, unit) io" where
  "if_exists priv p f fs = (case os_readdir priv p fs of Inl ErrNotExist \<Rightarrow> (Inr (), fs) | _ \<Rightarrow> f fs)"

definition cleanup_jobs :: "bool \<Rightarrow> (string \<Rightarrow> Marker option) \<Rightarrow> fpath \<Rightarrow> (string, unit) io" where
  "cleanup_jobs priv dec root =
    (let runs = root @ [''jobs''] in
     if_exists priv runs (each_dir priv runs (\<lambda>run. each_dir priv (runs @ [run]) (\<lambda>job. each_dir priv (runs @ [run, job]) (\<lambda>lease.
       cleanup_lease priv dec root (runs @ [run, job, lease])
         (\<lambda>m. MkRunID m = run \<and> MkJobName m = job \<and> MkLeaseID m = lease))))))"

definition cleanup_runs :: "bool \<Rightarrow> (string \<Rightarrow> Marker option) \<Rightarrow> fpath \<Rightarrow> (string, unit) io" where
  "cleanup_runs priv dec root =
    (let runs = root @ [''runs''] in
     if_exists priv runs (each_dir priv runs (\<lambda>run. each_dir priv (runs @ [run]) (\<lambda>lease.
       cleanup_lease priv dec root (runs @ [run, lease]) (\<lambda>m. MkRunID m = run \<and> MkLeaseID m = lease)))))"

definition CleanupStale :: "bool \<Rightarrow> (string \<Rightarrow> Marker option) \<Rightarrow> fpath \<Rightarrow> (string, unit) io" where
  "CleanupStale priv dec root = io_bind (cleanup_jobs priv dec root) (\<lambda>_. cleanup_runs priv dec root)"

section \<open>What removing removes\<close>

lemma node_del: "node (fs_del p fs) q = (if q = p \<and> p \<noteq> [] then None else node fs q)"
proof -
  have "map_of (filter (\<lambda>e. fst e \<noteq> p) fs) q = (if q = p then None else map_of fs q)" by (induction fs) auto
  then show ?thesis by (cases "q = p") (simp_all add: node_def fs_del_def)
qed

lemma occupied_iff: "occupied fs p \<longleftrightarrow> (\<exists>q. strict_prefix p q \<and> node fs q \<noteq> None)"
proof -
  have "node fs q \<noteq> None \<longleftrightarrow> q \<in> fst ` set fs" if "strict_prefix p q" for q
  proof -
    have "q \<noteq> []" using that by auto
    then show ?thesis by (simp add: node_def map_of_eq_None_iff)
  qed
  then have "(\<exists>q. strict_prefix p q \<and> node fs q \<noteq> None) \<longleftrightarrow> (\<exists>q \<in> fst ` set fs. strict_prefix p q)" by blast
  then show ?thesis by (simp add: occupied_def list_ex_iff)
qed

lemma remove_inner_below: "strict_prefix base p \<Longrightarrow> \<not> strict_prefix base q \<Longrightarrow> node (remove_inner priv base p fs) q = node fs q"
  by (auto simp: remove_inner_def node_del split: option.splits fnode.splits)

lemma remove_inners_below:
  assumes "\<forall>p \<in> set ps. strict_prefix base p" and "\<not> strict_prefix base q"
  shows "node (fold (remove_inner priv base) ps fs) q = node fs q"
  using assms by (induction ps arbitrary: fs) (simp_all add: remove_inner_below)

lemma resolve_real:
  assumes "list_all plain cs" and "real_path fs (cur @ cs)"
  shows "resolve priv fs n cur cs \<noteq> Inl ErrNotExist"
  using assms
proof (induction cs arbitrary: cur)
  case (Cons c cs)
  obtain m m' where "node fs cur = Some (Dir m)" "node fs (cur @ [c]) = Some (Dir m')" using Cons.prems(2) unfolding real_path_def
    by (metis append_assoc append_Cons append_Nil prefixI)
  then show ?case using Cons.IH [of "cur @ [c]"] Cons.prems by (simp add: plain_def)
qed simp

lemma os_parent_real:
  assumes "comps p" and "real_path fs (butlast p)"
  shows "os_parent priv p fs \<noteq> Inl ErrNotExist"
proof -
  have b: "list_all plain (butlast p)" using comps_plain [OF comps_butlast [OF assms(1)]] .
  have "resolve priv fs max_links [] (butlast p) \<noteq> Inl ErrNotExist" using resolve_real [OF b, of fs "[]"] assms(2) by simp
  moreover have "d = butlast p" if "resolve priv fs max_links [] (butlast p) = Inr d" for d
    using resolve_no_links [OF b, of fs "[]" priv max_links d] real_no_links [OF assms(2)] that by simp
  moreover have "\<exists>m. node fs (butlast p) = Some (Dir m)" using assms(2) by (auto simp: real_path_def)
  ultimately show ?thesis by (auto simp: os_parent_def rbind_eq_Inl split: if_splits)
qed

text \<open>Below a path that is reached without links, \<open>os.RemoveAll\<close> touches only what is at or below its path, and on
  success nothing is left there.\<close>

lemma os_removeall_spec:
  assumes "comps p" and "p \<noteq> []" and "real_path fs (butlast p)" and "os_removeall priv p fs = (r, fs')"
  shows "\<not> prefix p q \<Longrightarrow> node fs' q = node fs q" and "r = Inr () \<Longrightarrow> node fs p \<noteq> None \<Longrightarrow> prefix p q \<Longrightarrow> node fs' q = None"
proof -
  have "(\<not> prefix p q \<longrightarrow> node fs' q = node fs q) \<and> (r = Inr () \<longrightarrow> node fs p \<noteq> None \<longrightarrow> prefix p q \<longrightarrow> node fs' q = None)"
  proof (cases "os_parent priv p fs")
    case (Inl e)
    then have "e \<noteq> ErrNotExist" using os_parent_real [OF assms(1,3), of priv] by auto
    then show ?thesis using assms(4) Inl by (cases e) (auto simp: os_removeall_def)
  next
    case (Inr dm)
    obtain d m where dm: "dm = (d, m)" by (cases dm)
    have d: "d = butlast p" using os_parent_no_links(1) [OF comps_plain [OF assms(1)] real_no_links [OF assms(3)]] Inr dm by auto
    then have q: "d @ [last p] = p" using assms(2) by simp
    let ?ps = "rev (sort (filter (strict_prefix p) (map fst fs)))"
    let ?fs1 = "fold (remove_inner priv p) ?ps fs"
    have in1: "node ?fs1 q = node fs q" if "\<not> strict_prefix p q" for q by (rule remove_inners_below [OF _ that]) auto
    show ?thesis
    proof (cases "node fs p = None")
      case True
      then show ?thesis using assms(2,4) Inr dm q by (simp add: os_removeall_def Let_def)
    next
      case False
      show ?thesis
      proof (cases "w_ok priv m \<and> \<not> occupied ?fs1 p")
        case True
        then have res: "r = Inr ()" "fs' = fs_del p ?fs1" using assms(2,4) Inr dm q False by (simp_all add: os_removeall_def Let_def)
        have "node ?fs1 q' = None" if "strict_prefix p q'" for q' using True that unfolding occupied_iff by blast
        then have "prefix p q \<Longrightarrow> node fs' q = None" using assms(2) by (auto simp: res(2) node_del prefix_order.le_less)
        moreover have "\<not> prefix p q \<Longrightarrow> node fs' q = node fs q" using in1 [of q] by (auto simp: res(2) node_del)
        ultimately show ?thesis by blast
      next
        case blocked: False
        then have "r = Inl ErrOther" "fs' = ?fs1" using assms(2,4) Inr dm q False by (auto simp: os_removeall_def Let_def)
        then show ?thesis using in1 [of q] by auto
      qed
    qed
  qed
  then show "\<not> prefix p q \<Longrightarrow> node fs' q = node fs q" "r = Inr () \<Longrightarrow> node fs p \<noteq> None \<Longrightarrow> prefix p q \<Longrightarrow> node fs' q = None" by blast+
qed

section \<open>Removing a workspace\<close>

lemma validComponent_plain: "validComponent c \<Longrightarrow> plain c \<and> slash \<notin> set c"
  by (auto simp: validComponent_def plain_def list_ex_iff)

definition identity_ok :: "Marker \<Rightarrow> bool" where
  "identity_ok m \<longleftrightarrow> validComponent (MkRunID m) \<and> validComponent (MkLeaseID m) \<and> (MkJobName m = '''' \<or> validComponent (MkJobName m))"

lemma workspace_rel_comps: "identity_ok m \<Longrightarrow> comps (workspace_rel m)"
  using validComponent_plain by (auto simp: identity_ok_def workspace_rel_def plain_def slash_def)

lemma path_rel_inside:
  assumes "path_rel root p = rel" and "''..'' \<notin> set rel"
  shows "p = root @ rel"
proof -
  let ?l = "longest_common_prefix root p"
  have l: "prefix ?l root" "prefix ?l p" by (simp_all add: longest_common_prefix_prefix1 longest_common_prefix_prefix2)
  have "length root - length ?l = 0"
  proof (rule ccontr)
    assume "length root - length ?l \<noteq> 0"
    then obtain k where "length root - length ?l = Suc k" by (metis not0_implies_Suc)
    then show False using assms by (auto simp: path_rel_def Let_def)
  qed
  then have "?l = root" using l(1) by (metis diff_is_0_eq length_append le_add1 le_antisym prefix_def append_eq_append_conv append_Nil2)
  then show ?thesis using assms(1) l(2) by (auto simp: path_rel_def Let_def prefix_def)
qed

lemma real_dir_step:
  assumes "real_path fs p" and "comps (p @ [c])" and "\<exists>m. os_lstat priv (p @ [c]) fs = Inr (Dir m)"
  shows "real_path fs (p @ [c])"
  using os_lstat_no_links [OF comps_plain [OF assms(2)]] real_no_links [OF assms(1)] assms(1,3) by (auto simp: real_path_snoc)

lemma check_dirs_Cons: "check_dirs priv (c # cs) fs = Inr () \<longleftrightarrow> (\<exists>m. os_lstat priv c fs = Inr (Dir m)) \<and> check_dirs priv cs fs = Inr ()"
  by (auto split: sum.splits fnode.splits)

lemma check_dirs_real:
  assumes "real_path fs root" and "comps (root @ workspace_rel m)" and "check_dirs priv (candidates root (root @ workspace_rel m) m) fs = Inr ()"
  shows "real_path fs (root @ workspace_rel m)"
proof (cases "MkJobName m = ''''")
  case True
  then have "real_path fs (((root @ [''runs'']) @ [MkRunID m]) @ [MkLeaseID m])"
    using assms by (intro real_dir_step [where priv = priv]) (auto simp: candidates_def workspace_rel_def check_dirs_Cons simp del: check_dirs.simps(2))
  then show ?thesis using True by (simp add: workspace_rel_def)
next
  case False
  then have "real_path fs ((((root @ [''jobs'']) @ [MkRunID m]) @ [MkJobName m]) @ [MkLeaseID m])"
    using assms by (intro real_dir_step [where priv = priv]) (auto simp: candidates_def workspace_rel_def check_dirs_Cons simp del: check_dirs.simps(2))
  then show ?thesis using False by (simp add: workspace_rel_def)
qed

lemma os_remove_spec:
  assumes "comps p" and "p \<noteq> []" and "real_path fs (butlast p)"
  shows "q \<noteq> p \<Longrightarrow> node (snd (os_remove priv p fs)) q = node fs q"
    and "occupied fs p \<Longrightarrow> snd (os_remove priv p fs) = fs"
proof -
  have q: "d @ [last p] = p" if "os_parent priv p fs = Inr (d, m)" for d m
    using os_parent_no_links(1) [OF comps_plain [OF assms(1)] real_no_links [OF assms(3)] that] assms(2) by simp
  show "node (snd (os_remove priv p fs)) q = node fs q" if "q \<noteq> p"
    using that q by (auto simp: os_remove_def Let_def node_del split: sum.splits)
  show "snd (os_remove priv p fs) = fs" if "occupied fs p"
    using that q assms(2) by (auto simp: os_remove_def Let_def split: sum.splits)
qed

definition owned :: "bool \<Rightarrow> (string \<Rightarrow> Marker option) \<Rightarrow> fpath \<Rightarrow> fpath \<Rightarrow> Marker \<Rightarrow> fs \<Rightarrow> bool" where
  "owned priv dec root dir m fs \<longleftrightarrow> identity_ok m \<and> dir = root @ workspace_rel m \<and> real_path fs dir \<and>
     (\<exists>b. os_readfile priv (dir @ [markerName]) fs = Inr b \<and> dec b = Some m)"

definition remove_dir :: "bool \<Rightarrow> fpath \<Rightarrow> (string, unit) io" where
  "remove_dir priv dir fs =
    (case os_removeall priv dir fs of (Inl _, fs1) \<Rightarrow> (Inl ''remove'', fs1) | (Inr _, fs1) \<Rightarrow> (Inr (), snd (os_remove priv (butlast dir) fs1)))"

lemma workspace_Remove_cases:
  assumes root: "comps root" and real: "real_path fs root"
  shows "(\<exists>e. workspace_Remove priv dec root dir expected fs = (Inl e, fs)) \<or>
    owned priv dec root dir expected fs \<and> workspace_Remove priv dec root dir expected fs = remove_dir priv dir fs"
proof (cases "identity_ok expected \<and> path_rel root dir = workspace_rel expected \<and> check_dirs priv (candidates root dir expected) fs = Inr ()")
  case True
  have comps: "comps (workspace_rel expected)" using workspace_rel_comps True by blast
  then have "dir = root @ workspace_rel expected" using True plain_no_up [OF comps_plain [OF comps]] by (intro path_rel_inside) simp_all
  moreover have "real_path fs (root @ workspace_rel expected)" using check_dirs_real [OF real, of expected priv] True comps root calculation by simp
  ultimately show ?thesis using True
    by (auto simp: workspace_Remove_def identity_ok_def owned_def remove_dir_def split: sum.splits if_splits)
next
  case False
  then show ?thesis by (auto simp: workspace_Remove_def identity_ok_def split: sum.splits if_splits)
qed

text \<open>Removing a directory that is reached without links.\<close>

lemma remove_dir_spec:
  assumes c: "comps dir" "butlast dir \<noteq> []" and real: "real_path fs dir" and rm: "remove_dir priv dir fs = (r, fs')"
  shows "\<not> prefix dir p \<Longrightarrow> p \<noteq> butlast dir \<or> (\<exists>q. strict_prefix p q \<and> \<not> prefix dir q \<and> node fs q \<noteq> None) \<Longrightarrow> node fs' p = node fs p"
    and "r = Inr () \<Longrightarrow> prefix dir p \<Longrightarrow> node fs' p = None"
proof -
  have ne: "dir \<noteq> []" using c(2) by auto
  have b: "real_path fs (butlast dir)" using real_path_prefix [OF real butlast_prefix] .
  obtain r1 fs1 where r1: "os_removeall priv dir fs = (r1, fs1)" by (cases "os_removeall priv dir fs")
  note sp = os_removeall_spec [OF c(1) ne b r1]
  have "node fs dir \<noteq> None" using real by (auto simp: real_path_def)
  note gone = sp(2) [OF _ this]
  have down: "\<not> prefix dir q" if "length q < length dir" for q using that prefix_length_le by fastforce
  have "real_path fs1 (butlast (butlast dir))"
    unfolding real_path_def
  proof (intro allI impI)
    fix q assume q: "prefix q (butlast (butlast dir))"
    have "0 < length dir" using ne by simp
    then have "length q < length dir" using prefix_length_le [OF q] by (simp only: length_butlast)
    moreover have "prefix q dir" using q butlast_prefix prefix_order.trans by metis
    ultimately show "\<exists>m. node fs1 q = Some (Dir m)" using sp(1) [OF down] real by (auto simp: real_path_def)
  qed
  note os = os_remove_spec [OF comps_butlast [OF c(1)] c(2) this]
  have out: "\<not> prefix dir (butlast dir)" using ne by (intro down) simp
  show "node fs' p = node fs p" if outside: "\<not> prefix dir p" and keep: "p \<noteq> butlast dir \<or> (\<exists>q. strict_prefix p q \<and> \<not> prefix dir q \<and> node fs q \<noteq> None)"
  proof (cases "r1 = Inr () \<and> p = butlast dir")
    case True
    then obtain q where "strict_prefix p q" "\<not> prefix dir q" "node fs q \<noteq> None" using keep by blast
    then have "occupied fs1 (butlast dir)" unfolding occupied_iff using True sp(1) by metis
    then show ?thesis using os(2) rm r1 True sp(1) [OF outside] by (simp add: remove_dir_def)
  next
    case False
    then show ?thesis using os(1) rm r1 sp(1) [OF outside] by (cases r1) (auto simp: remove_dir_def)
  qed
  show "node fs' p = None" if "r = Inr ()" "prefix dir p"
  proof -
    have "r1 = Inr ()" using rm r1 that(1) by (cases r1) (auto simp: remove_dir_def)
    moreover have "p \<noteq> butlast dir" using that(2) out by blast
    ultimately show ?thesis using os(1) rm r1 gone [OF _ that(2)] by (auto simp: remove_dir_def)
  qed
qed

lemma owned_dir:
  assumes "comps root" and "owned priv dec root dir m fs"
  shows "comps dir" "butlast dir \<noteq> []" "real_path fs dir" "strict_prefix root (butlast dir)"
  using assms workspace_rel_comps by (auto simp: owned_def workspace_rel_def butlast_append strict_prefix_def split: if_splits)

text \<open>Stale workspaces: whatever is removed lies below the two directories for workspaces.\<close>

definition tidy :: "fpath \<Rightarrow> fs \<Rightarrow> fs \<Rightarrow> bool" where
  "tidy root fs0 fs \<longleftrightarrow> real_path fs root \<and>
     (\<forall>p. \<not> strict_prefix (root @ [''jobs'']) p \<longrightarrow> \<not> strict_prefix (root @ [''runs'']) p \<longrightarrow> node fs p = node fs0 p)"

lemma tidy_Remove:
  assumes "comps root"
  shows "keeps (tidy root fs0) (workspace_Remove priv dec root dir m)"
proof (rule keepsI)
  fix fs assume t: "tidy root fs0 fs"
  then have real: "real_path fs root" by (simp add: tidy_def)
  obtain r fs' where rm: "workspace_Remove priv dec root dir m fs = (r, fs')" by (cases "workspace_Remove priv dec root dir m fs")
  show "tidy root fs0 (snd (workspace_Remove priv dec root dir m fs))"
  proof (cases "fs' = fs")
    case False
    then have own: "owned priv dec root dir m fs" and eq: "remove_dir priv dir fs = (r, fs')"
      using workspace_Remove_cases [OF assms real, of priv dec dir m] rm by auto
    note d = owned_dir [OF assms own]
    have same: "node fs' p = node fs p" if "\<not> strict_prefix (root @ [''jobs'']) p" "\<not> strict_prefix (root @ [''runs'']) p" for p
    proof (rule remove_dir_spec(1) [OF d(1-3) eq])
      have rel: "dir = root @ workspace_rel m" using own by (simp add: owned_def)
      show "\<not> prefix dir p" "p \<noteq> butlast dir \<or> (\<exists>q. strict_prefix p q \<and> \<not> prefix dir q \<and> node fs q \<noteq> None)"
        using that rel by (auto simp: workspace_rel_def butlast_append prefix_def strict_prefix_def split: if_splits)
    qed
    have "\<not> strict_prefix (root @ [k]) q" if "prefix q root" for q k
      using that prefix_length_le [of q root] by (auto simp: strict_prefix_def dest!: prefix_length_le)
    then have "real_path fs' root" using real same unfolding real_path_def by metis
    then show ?thesis using t same rm by (simp add: tidy_def)
  qed (use t rm in simp)
qed

lemma keeps_each: "(\<And>x. keeps I (f x)) \<Longrightarrow> keeps I (io_each f xs)"
  by (induction xs) auto

lemma keeps_each_dir: "(\<And>x. keeps I (f x)) \<Longrightarrow> keeps I (each_dir priv p f)"
proof (rule keepsI)
  fix fs assume f: "\<And>x. keeps I (f x)" and "I fs"
  have "keeps I (io_each (\<lambda>(name, isDir). if isDir then f name else io_return ()) entries)" for entries
    by (rule keeps_each) (auto simp: f split: prod.splits)
  then show "I (snd (each_dir priv p f fs))" using \<open>I fs\<close> by (auto simp: each_dir_def keeps_def split: sum.splits)
qed

lemma tidy_CleanupStale:
  assumes "comps root"
  shows "keeps (tidy root fs0) (CleanupStale priv dec root)"
proof -
  have lease: "keeps (tidy root fs0) (cleanup_lease priv dec root dir matches)" for dir matches
    using tidy_Remove [OF assms, of fs0 priv dec dir] by (auto simp: cleanup_lease_def keeps_def split: sum.splits option.splits)
  have ex: "keeps (tidy root fs0) f \<Longrightarrow> keeps (tidy root fs0) (if_exists priv p f)" for f p
    by (auto simp: if_exists_def keeps_def split: sum.splits os_error.splits)
  show ?thesis unfolding CleanupStale_def cleanup_jobs_def cleanup_runs_def Let_def
    by (intro keeps_bind ex keeps_each_dir lease)
qed

section \<open>Properties\<close>

text \<open>C18. Removing a workspace touches nothing else, whatever path and identity it is given: below a real root
  directory, every node outside the directory to remove is as before, except that its parent disappears when nothing
  else was in it; and when anything was removed, the directory is the one that belongs to the identity, it was
  reached without links, and it held a marker file with exactly that identity. After a success nothing is left at or
  below it. Removing all stale workspaces touches nothing outside the directories \<open>jobs\<close> and \<open>runs\<close> of
  the root.\<close>

theorem workspace_removal:
  assumes "comps root" and "real_path fs root" and "workspace_Remove priv dec root dir expected fs = (r, fs')"
  shows "(\<forall>p. \<not> prefix dir p \<longrightarrow> p \<noteq> butlast dir \<or> (\<exists>q. strict_prefix p q \<and> \<not> prefix dir q \<and> node fs q \<noteq> None) \<longrightarrow> node fs' p = node fs p) \<and>
    (fs' \<noteq> fs \<longrightarrow> dir = root @ workspace_rel expected \<and> real_path fs dir \<and> (\<exists>b. os_readfile priv (dir @ [markerName]) fs = Inr b \<and> dec b = Some expected)) \<and>
    (r = Inr () \<longrightarrow> (\<forall>p. prefix dir p \<longrightarrow> node fs' p = None)) \<and>
    (\<forall>p. \<not> strict_prefix (root @ [''jobs'']) p \<longrightarrow> \<not> strict_prefix (root @ [''runs'']) p \<longrightarrow> node (snd (CleanupStale priv dec root fs)) p = node fs p)"
proof -
  have "tidy root fs fs" using assms(2) by (simp add: tidy_def)
  then have stale: "tidy root fs (snd (CleanupStale priv dec root fs))" using keepsD [OF tidy_CleanupStale [OF assms(1)]] by blast
  consider (idle) e where "r = Inl e" "fs' = fs" | (gone) "owned priv dec root dir expected fs" "remove_dir priv dir fs = (r, fs')"
    using workspace_Remove_cases [OF assms(1,2), of priv dec dir expected] assms(3) by auto
  then show ?thesis
  proof cases
    case idle
    then show ?thesis using stale by (simp add: tidy_def)
  next
    case gone
    show ?thesis using remove_dir_spec [OF owned_dir(1-3) [OF assms(1) gone(1)] gone(2)] gone(1) stale unfolding tidy_def owned_def by blast
  qed
qed

text \<open>C37. The identity of a workspace is checked in full only when it is removed: a job name that climbs passes the
  checks of the creation, and the workspace is made outside the root directory; it is never removed.\<close>

definition workspace_host :: fs where
  "workspace_host = [([''work''], Dir 448), ([''etc''], Dir 493)]"

definition climbing_marker :: Marker where
  "climbing_marker = \<lparr> MkRunID = ''r1'', MkJobName = ''../../../etc'', MkLeaseID = ''l1'', MkSourceDigest = '''', MkGeneration = 1 \<rparr>"


section \<open>Witnesses\<close>

definition stale_host :: fs where
  "stale_host = [([''work''], Dir 448), ([''work'', ''runs''], Dir 448), ([''work'', ''runs'', ''r1''], Dir 448), ([''work'', ''runs'', ''r1'', ''l1''], Dir 448),
     ([''work'', ''runs'', ''r1'', ''l1'', markerName], Regular 384 ''r1''), ([''work'', ''runs'', ''r1'', ''l1'', ''out''], Link ''/etc''),
     ([''etc''], Dir 493), ([''etc'', ''passwd''], Regular 420 ''root'')]"

definition stale_marker :: Marker where
  "stale_marker = \<lparr> MkRunID = ''r1'', MkJobName = '''', MkLeaseID = ''l1'', MkSourceDigest = '''', MkGeneration = 0 \<rparr>"

theorem workspace_removal_witness:
  "\<exists>fs'. workspace_Remove False (\<lambda>b. if b = ''r1'' then Some stale_marker else None) [''work''] [''work'', ''runs'', ''r1'', ''l1''] stale_marker stale_host = (Inr (), fs') \<and>
     node fs' [''work'', ''runs'', ''r1'', ''l1'', ''out''] = None \<and> node fs' [''etc'', ''passwd''] = Some (Regular 420 ''root'')"
proof -
  let ?dec = "\<lambda>b. if b = ''r1'' then Some stale_marker else None" and ?d = "[''work'', ''runs'', ''r1'', ''l1'']"
  let ?f = "workspace_Remove False ?dec [''work''] ?d stale_marker stale_host"
  have r: "fst ?f = Inr ()" by code_simp
  have "comps [''work'']" by code_simp
  moreover have "real_path stale_host [''work'']" by (auto simp: real_path_def prefix_Cons node_def stale_host_def)
  ultimately have "(\<forall>p. \<not> prefix ?d p \<longrightarrow> p \<noteq> butlast ?d \<or> (\<exists>q. strict_prefix p q \<and> \<not> prefix ?d q \<and> node stale_host q \<noteq> None) \<longrightarrow> node (snd ?f) p = node stale_host p) \<and>
      (fst ?f = Inr () \<longrightarrow> (\<forall>p. prefix ?d p \<longrightarrow> node (snd ?f) p = None))"
    using workspace_removal [of "[''work'']" stale_host False ?dec ?d stale_marker "fst ?f" "snd ?f"] by (simp only: prod.collapse) blast
  then have "node (snd ?f) [''work'', ''runs'', ''r1'', ''l1'', ''out''] = None" "node (snd ?f) [''etc'', ''passwd''] = node stale_host [''etc'', ''passwd'']"
    using r by auto
  moreover have "node stale_host [''etc'', ''passwd''] = Some (Regular 420 ''root'')" by code_simp
  ultimately show ?thesis using r by (metis prod.collapse)
qed

end
