(* ===== verification/Manager.thy ===== *)
theory Manager
  imports Local_Properties Workspace Archive_Properties Scheduler
begin

text \<open>
  \<open>internal/controlplane/manager.go\<close>: the control plane of local mode. It accepts runs, cancels them, and
  executes the queued ones one after another with the local scheduler, whose observer writes every state change of a
  job to the store. The state joins the database, the file system and the snapshot stored with the manager's
  own variables: the wake-up token of the dispatcher, the work signal, the active run and the stage of the dispatcher.
\<close>

section \<open>The manager\<close>

text \<open>What a manager is built with: the store and the workspace, the limits of the snapshot store when there is one, whether
  artifacts and caches are configured, and the codecs of the libraries it calls.\<close>

record control =
  cStore :: Store
  cPriv :: bool
  cWorkspace :: fpath
  cSnapshots :: "Limits option"
  cWorkspaceRoot :: fpath
  cArtifacts :: bool
  cCache :: bool
  cSha :: "string \<Rightarrow> string"
  cEncode :: "Entry list \<Rightarrow> string"
  cPack :: "tar_header list \<Rightarrow> string"
  cUnpack :: "string \<Rightarrow> (string, unpacked) result"
  cMarker :: "Marker \<Rightarrow> string"
  cReadMarker :: "string \<Rightarrow> Marker option"

record execution =
  exRun :: Run
  exRunner :: Runner
  exGraph :: Graph
  exLocal :: local_run
  exErr :: "store_error option"
  exDir :: "(fpath \<times> Marker) option"

datatype stage = Parked | Claiming | Executing execution

text \<open>\<open>mLost\<close> holds the runs whose final write failed, which the manager only prints.\<close>

record mstate =
  mDb :: db
  mFs :: fs
  mBlobs :: "string \<Rightarrow> string option"
  mWake :: bool
  mSignal :: nat
  mActive :: string
  mHasCancel :: bool
  mStage :: stage
  mLost :: "string list"

definition path_text :: "fpath \<Rightarrow> string" where
  "path_text p = slash # join_with slash p"

definition manager_New :: "bool \<Rightarrow> fpath \<Rightarrow> (fpath \<times> Limits) option \<Rightarrow> fs \<Rightarrow> (string, fpath \<times> fpath option) result" where
  "manager_New priv workspace snapshotStore fs =
    (case fst (eval_symlinks priv workspace fs) of
       Inl _ \<Rightarrow> Inl ''resolve workspace''
     | Inr resolved \<Rightarrow> Inr (resolved, map_option (\<lambda>(root, _). root @ [''workspaces'', ''server'']) snapshotStore))"

definition notify :: "mstate \<Rightarrow> mstate" where
  "notify m = m\<lparr> mWake := True, mSignal := mSignal m + 1 \<rparr>"

text \<open>\<open>Start\<close>: a fresh manager on the database and files that are there.\<close>

definition manager_Start :: "control \<Rightarrow> time \<Rightarrow> db \<Rightarrow> fs \<Rightarrow> (string \<Rightarrow> string option) \<Rightarrow> (store_error, mstate) result" where
  "manager_Start c now d fs stored =
    rbind (RecoverInterrupted (cStore c) now d) (\<lambda>(_, d1).
    Inr (notify \<lparr> mDb = d1, mFs = fs, mBlobs = stored, mWake = False, mSignal = 0, mActive = '''', mHasCancel = False,
      mStage = Parked, mLost = [] \<rparr>))"

section \<open>Submitting\<close>

datatype submit_error = InputError string | StoreError store_error

definition safePipelinePath :: "control \<Rightarrow> fs \<Rightarrow> string \<Rightarrow> (string, fpath) result" where
  "safePipelinePath c fs name =
    (if name = '''' \<or> path_is_abs name \<or> list_ex is_control (runes name) then Inl ''pipeline_file must be a safe relative path''
     else if path_clean name = ''..'' \<or> has_prefix (path_clean name) ''../'' then Inl ''pipeline_file escapes workspace''
     else (case fst (eval_symlinks (cPriv c) (path_join (cWorkspace c) (path_clean name)) fs) of
         Inl _ \<Rightarrow> Inl ''resolve pipeline_file''
       | Inr resolved \<Rightarrow> if within (cWorkspace c) resolved then Inr resolved else Inl ''pipeline_file escapes workspace''))"

text \<open>The job and dependency rows of a compiled pipeline.\<close>

definition graph_job :: "Graph \<Rightarrow> string \<Rightarrow> Job" where
  "graph_job g name = NodeJob (the (map_of (Nodes g) name))"

definition graph_jobs :: "Graph \<Rightarrow> (string \<times> string option) list" where
  "graph_jobs g = map (\<lambda>name. (name, Image (graph_job g name))) (Order g)"

definition graph_deps :: "Graph \<Rightarrow> (string \<times> string) list" where
  "graph_deps g = concat (map (\<lambda>name. map (\<lambda>d. (name, d)) (Needs (graph_job g name))) (Order g))"

text \<open>\<open>later\<close> is the file system while the snapshot is written.\<close>

definition submit_snapshot :: "control \<Rightarrow> time \<Rightarrow> fs \<Rightarrow> mstate \<Rightarrow> (string, SourceSnapshot option \<times> (string \<Rightarrow> string option)) result" where
  "submit_snapshot c now later m =
    (case cSnapshots c of
       None \<Rightarrow> Inr (None, mBlobs m)
     | Some lim \<Rightarrow>
       rbind (snapshot_Capture (cPriv c) (cSha c) (cEncode c) (cPack c) lim now (cWorkspace c) (mFs m) later (mBlobs m)) (\<lambda>(meta, stored).
       Inr (Some meta, stored)))"

definition submit_request :: "control \<Rightarrow> time \<Rightarrow> string \<Rightarrow> fs \<Rightarrow> string \<Rightarrow> int \<Rightarrow> mstate \<Rightarrow> (string, CreateRun \<times> (string \<Rightarrow> string option)) result" where
  "submit_request c now ident later pipelineFile maxParallel m =
    rbind (safePipelinePath c (mFs m) pipelineFile) (\<lambda>path.
    case os_readfile (cPriv c) path (mFs m) of
      Inl _ \<Rightarrow> Inl ''read pipeline''
    | Inr data \<Rightarrow>
      (case parse_stored (cStore c) data of
         Inl _ \<Rightarrow> Inl ''parse pipeline''
       | Inr cfg \<Rightarrow>
         (case Compile cfg of
            Inl _ \<Rightarrow> Inl ''compile pipeline''
          | Inr graph \<Rightarrow>
            rbind (submit_snapshot c now later m) (\<lambda>(snap, stored).
            Inr (\<lparr> CrID = ident, CrFile = pipelineFile, CrSHA256 = cSha c data, CrWorkspace = path_text (cWorkspace c), CrYAML = data,
              CrMaxParallel = maxParallel, CrJobs = graph_jobs graph, CrDependencies = graph_deps graph, CrSnapshot = snap \<rparr>, stored)))))"

definition submit_run :: "control \<Rightarrow> time \<Rightarrow> string \<Rightarrow> fs \<Rightarrow> string \<Rightarrow> int \<Rightarrow> mstate \<Rightarrow> (submit_error, Run) result \<times> mstate" where
  "submit_run c now ident later pipelineFile maxParallel m =
    (if maxParallel < 1 then (Inl (InputError ''max_parallel must be greater than zero''), m)
     else (case submit_request c now ident later pipelineFile maxParallel m of
         Inl e \<Rightarrow> (Inl (InputError e), m)
       | Inr (cr, stored) \<Rightarrow>
         (case CreateRun_op (cStore c) now cr (mDb m) of
            Inl e \<Rightarrow> (Inl (StoreError e), m\<lparr> mBlobs := stored \<rparr>)
          | Inr (run, d) \<Rightarrow> (Inr run, notify (m\<lparr> mDb := d, mBlobs := stored \<rparr>)))))"

definition manager_Submit :: "control \<Rightarrow> time \<Rightarrow> string \<Rightarrow> fs \<Rightarrow> string \<Rightarrow> int \<Rightarrow> mstate \<Rightarrow> (submit_error, Run) result \<times> mstate" where
  "manager_Submit c now ident later pipelineFile maxParallel =
    submit_run c now ident later (if pipelineFile = '''' then ''forge.yaml'' else pipelineFile) (if maxParallel = 0 then 1 else maxParallel)"

section \<open>Canceling\<close>

text \<open>The context of the execution is canceled; after the scheduler has returned this has no effect.\<close>

definition cancel_context :: "execution \<Rightarrow> execution" where
  "cancel_context ex = (if runPhase (exLocal ex) = Returned then ex else ex\<lparr> exLocal := (exLocal ex)\<lparr> ctxDone := True \<rparr> \<rparr>)"

definition cancel_active :: "string \<Rightarrow> mstate \<Rightarrow> mstate" where
  "cancel_active ident m =
    (if mActive m = ident \<and> mHasCancel m
     then (case mStage m of Executing ex \<Rightarrow> m\<lparr> mStage := Executing (cancel_context ex) \<rparr> | _ \<Rightarrow> m) else m)"

definition manager_Cancel :: "control \<Rightarrow> time \<Rightarrow> string \<Rightarrow> mstate \<Rightarrow> (store_error \<times> RunStatus option, RunStatus) result \<times> mstate" where
  "manager_Cancel c now ident m =
    (case GetRun (cStore c) ident (mDb m) of
       Inl e \<Rightarrow> (Inl (e, None), m)
     | Inr r \<Rightarrow>
       (case rstatus (RunRow r) of
          RunQueued \<Rightarrow> (case CancelQueued now ident (mDb m) of
              Inl e \<Rightarrow> (Inl (e, None), m)
            | Inr (_, d) \<Rightarrow> (Inr RunCanceled, m\<lparr> mDb := d \<rparr>))
        | RunRunning \<Rightarrow> (case RequestCancel (cStore c) now ident (mDb m) of
              Inl e \<Rightarrow> (Inl e, m)
            | Inr (status, d) \<Rightarrow> (Inr status, notify (cancel_active ident (m\<lparr> mDb := d \<rparr>))))
        | status \<Rightarrow> (Inl (ErrConflict, Some status), m)))"

text \<open>\<open>Close\<close> cancels the active run and waits for the dispatcher.\<close>

definition manager_Close :: "mstate \<Rightarrow> mstate" where
  "manager_Close m = (case mStage m of Executing ex \<Rightarrow> m\<lparr> mStage := Executing (cancel_context ex) \<rparr> | _ \<Rightarrow> m)"

text \<open>A runner that waits holds the signal \<open>k\<close> it got from \<open>WorkAvailable\<close>; the signal fires when it is replaced.\<close>

definition work_fires :: "nat \<Rightarrow> mstate \<Rightarrow> bool" where
  "work_fires k m \<longleftrightarrow> mSignal m \<noteq> k"

definition IsClientError :: "store_error \<Rightarrow> bool" where
  "IsClientError e \<longleftrightarrow> e = ErrNotFound \<or> e = ErrConflict"

section \<open>Executing\<close>

definition local_marker :: "Run \<Rightarrow> string \<Rightarrow> Marker" where
  "local_marker run digest = \<lparr> MkRunID = rid (RunRow run), MkJobName = '''', MkLeaseID = ''local'', MkSourceDigest = digest, MkGeneration = 0 \<rparr>"

definition stored_snapshot :: "Run \<Rightarrow> string \<Rightarrow> SourceSnapshot" where
  "stored_snapshot run digest = \<lparr> SourceDigest = digest, BlobDigest = RunBlob run, SnapFormat = RunFormat run,
     SnapArchiveSize = RunArchiveSize run, SnapLogicalSize = RunLogicalSize run, SnapEntryCount = RunEntryCount run, SnapCreatedAt = 0 \<rparr>"

definition fill_workspace :: "control \<Rightarrow> Limits \<Rightarrow> Run \<Rightarrow> string \<Rightarrow> (string \<Rightarrow> string option) \<Rightarrow> fpath \<Rightarrow> (string, string) io" where
  "fill_workspace c lim run digest stored workspace =
    io_bind (io_map_err (\<lambda>_. ''mkdir'') (os_create (cPriv c) (workspace @ [''source'']) (Dir 448))) (\<lambda>_.
    io_bind (io_of (snapshot_OpenBlob stored digest)) (\<lambda>data.
    io_bind (snapshot_Extract (cPriv c) (cSha c) (cEncode c) (cUnpack c) lim (Some data) (workspace @ [''source''])
      (stored_snapshot run digest)) (\<lambda>_.
    io_return (path_text (workspace @ [''source''])))))"

text \<open>The directory of the execution, with the workspace to remove afterwards.\<close>

definition execution_dir :: "control \<Rightarrow> Run \<Rightarrow> (string \<Rightarrow> string option) \<Rightarrow> fs \<Rightarrow> (fpath \<times> Marker) option \<times> (string, string) result \<times> fs" where
  "execution_dir c run stored fs =
    (case (cSnapshots c, rsnapshot (RunRow run)) of
       (Some lim, Some digest) \<Rightarrow>
         (case workspace_Create (cPriv c) (cMarker c) (cWorkspaceRoot c) (local_marker run digest) fs of
            (Inl e, fs1) \<Rightarrow> (None, Inl e, fs1)
          | (Inr workspace, fs1) \<Rightarrow> (Some (workspace, local_marker run digest), fill_workspace c lim run digest stored workspace fs1))
     | _ \<Rightarrow> (None, Inr (rworkspace (RunRow run)), fs))"

text \<open>\<open>setup\<close> answers for what opens a connection or makes temporary directories: the container client, the artifact session
  and the cache session. The sessions are kept in interface fields of the runner, which are not nil even for a nil session; the
  methods of a nil session do nothing for a job without artifacts or cache entries.\<close>

definition execution_parts :: "control \<Rightarrow> (string \<Rightarrow> string option) \<Rightarrow> Run \<Rightarrow> (string, Runner \<times> Graph) result" where
  "execution_parts c setup run =
    (case parse_stored (cStore c) (ryaml (RunRow run)) of
       Inl _ \<Rightarrow> Inl ''parse pipeline''
     | Inr cfg \<Rightarrow>
       (case Compile cfg of
          Inl _ \<Rightarrow> Inl ''compile pipeline''
        | Inr g \<Rightarrow>
          rbind (if list_ex (\<lambda>(_, job). Image job \<noteq> None) (Jobs cfg) then (case setup ''docker'' of Some e \<Rightarrow> Inl e | None \<Rightarrow> Inr ()) else Inr ()) (\<lambda>_.
          rbind (if cArtifacts c then (case setup ''artifacts'' of Some e \<Rightarrow> Inl e | None \<Rightarrow> Inr ()) else Inr ()) (\<lambda>_.
          rbind (if cCache c then (case setup ''cache'' of Some e \<Rightarrow> Inl e | None \<Rightarrow> Inr ()) else Inr ()) (\<lambda>_.
          Inr (\<lparr> hasJobExecutor = True, hasArtifacts = True, hasCache = True, hasLogs = True,
            MaxParallel = rmax_parallel (RunRow run) \<rparr>, g))))))"

text \<open>\<open>finish\<close> and the last statement of \<open>execute\<close>; \<open>lost\<close> says that the database does not answer.\<close>

definition finish_run :: "control \<Rightarrow> time \<Rightarrow> bool \<Rightarrow> string \<Rightarrow> RunStatus \<Rightarrow> string option \<Rightarrow> mstate \<Rightarrow> mstate" where
  "finish_run c now lost ident status message m =
    (case FinishRun (cStore c) now ident status message (mDb m) of
       Inr (_, d) \<Rightarrow> if lost then m\<lparr> mLost := mLost m @ [ident] \<rparr> else m\<lparr> mDb := d \<rparr>
     | Inl _ \<Rightarrow> m\<lparr> mLost := mLost m @ [ident] \<rparr>)"

text \<open>The deferred calls of \<open>execute\<close>: the workspace is removed, the active run is cleared.\<close>

definition leave_execution :: "control \<Rightarrow> (fpath \<times> Marker) option \<Rightarrow> mstate \<Rightarrow> mstate" where
  "leave_execution c dir m =
    notify ((case dir of
        None \<Rightarrow> m
      | Some (workspace, marker) \<Rightarrow>
        m\<lparr> mFs := snd (workspace_Remove (cPriv c) (cReadMarker c) (cWorkspaceRoot c) workspace marker (mFs m)) \<rparr>)
      \<lparr> mActive := '''', mHasCancel := False, mStage := Claiming \<rparr>)"

definition begin_execution :: "control \<Rightarrow> (string \<Rightarrow> string option) \<Rightarrow> time \<Rightarrow> bool \<Rightarrow> Run \<Rightarrow> mstate \<Rightarrow> mstate" where
  "begin_execution c setup now lost run m =
    (case execution_dir c run (mBlobs m) (mFs m) of
       (dir, source, fs1) \<Rightarrow>
         let m1 = m\<lparr> mActive := rid (RunRow run), mHasCancel := True, mFs := fs1 \<rparr> in
         (case rbind source (\<lambda>_. execution_parts c setup run) of
            Inl message \<Rightarrow> leave_execution c dir (finish_run c now lost (rid (RunRow run)) RunError (Some message) m1)
          | Inr (r, g) \<Rightarrow> m1\<lparr> mStage := Executing \<lparr> exRun = run, exRunner = r, exGraph = g, exLocal = init_run g, exErr = None, exDir = dir \<rparr> \<rparr>))"

text \<open>The observer: a change of state becomes a status of the row. The first error is kept and cancels the context; \<open>outage\<close>
  is the error of a call that the database does not serve.\<close>

fun job_status :: "State \<Rightarrow> JobStatus" where
  "job_status Pending = JobPending"
| "job_status Running = JobRunning"
| "job_status Passed = JobPassed"
| "job_status Failed = JobFailed"
| "job_status Blocked = JobBlocked"
| "job_status Canceled = JobCanceled"

definition OnJobState :: "control \<Rightarrow> (string \<Rightarrow> store_error option) \<Rightarrow> time \<Rightarrow> string \<Rightarrow> string \<times> State option \<times> State
    \<Rightarrow> db \<times> store_error option \<Rightarrow> db \<times> store_error option" where
  "OnJobState c outage now run event acc = (case (event, acc) of ((name, _, new), d, err) \<Rightarrow>
     (case (outage name, UpdateJob (cStore c) now run name (job_status new) None d) of
        (None, Inr (_, d')) \<Rightarrow> (d', err)
      | (None, Inl e) \<Rightarrow> (d, if err = None then Some e else err)
      | (Some e, _) \<Rightarrow> (d, if err = None then Some e else err)))"

text \<open>The scheduler has moved to \<open>l\<close>; the observer is told the events it has added.\<close>

definition advance :: "control \<Rightarrow> (string \<Rightarrow> store_error option) \<Rightarrow> time \<Rightarrow> execution \<Rightarrow> local_run \<Rightarrow> mstate \<Rightarrow> mstate" where
  "advance c outage now ex l m =
    (case fold (OnJobState c outage now (rid (RunRow (exRun ex)))) (drop (length (observed (exLocal ex))) (observed l)) (mDb m, exErr ex) of
       (d, err) \<Rightarrow>
         let ex1 = ex\<lparr> exLocal := l, exErr := err \<rparr> in
         m\<lparr> mDb := d, mStage := Executing (if err = exErr ex then ex1 else cancel_context ex1) \<rparr>)"

definition run_outcome :: "execution \<Rightarrow> RunStatus \<times> string option" where
  "run_outcome ex =
    (case exErr ex of
       Some _ \<Rightarrow> (RunError, Some ''observer'')
     | None \<Rightarrow>
       if InternalError (exLocal ex) then (RunError, Some ''job infrastructure failure'')
       else if Interrupted (exLocal ex) then (RunCanceled, None)
       else if Succeeded (exGraph ex) (exLocal ex) then (RunPassed, None)
       else (RunFailed, None))"

definition mark_failed :: "control \<Rightarrow> time \<Rightarrow> string \<Rightarrow> string option \<Rightarrow> string \<Rightarrow> db \<Rightarrow> db" where
  "mark_failed c now run message name d = (case UpdateJob (cStore c) now run name JobFailed message d of Inl _ \<Rightarrow> d | Inr (_, d') \<Rightarrow> d')"

definition conclude :: "control \<Rightarrow> time \<Rightarrow> bool \<Rightarrow> execution \<Rightarrow> mstate \<Rightarrow> mstate" where
  "conclude c now lost ex m =
    (case run_outcome ex of
       (status, message) \<Rightarrow>
         let failed = (if exErr ex = None \<and> InternalError (exLocal ex)
               then filter (\<lambda>n. States (exLocal ex) n = Some Failed) (Order (exGraph ex)) else []);
             ident = rid (RunRow (exRun ex));
             m1 = m\<lparr> mDb := fold (mark_failed c now ident message) failed (mDb m) \<rparr> in
         leave_execution c (exDir ex) (finish_run c now lost ident status message m1))"

text \<open>\<open>dispatch\<close>, the scheduler, and everything that runs beside them: submissions, cancellations, deliveries that create runs,
  the store operations on artifacts, caches and logs, and a restart of the program. \<open>request\<close> and \<open>interrupt\<close> are
  the two halves of a cancellation, which other steps may separate; closing the manager is an \<open>interrupt\<close>, too.\<close>

inductive manager_step :: "control \<Rightarrow> mstate \<Rightarrow> mstate \<Rightarrow> bool" for c where
  wake: "mStage m = Parked \<Longrightarrow> mWake m \<Longrightarrow> manager_step c m (m\<lparr> mWake := False, mStage := Claiming \<rparr>)"
| claim_none: "mStage m = Claiming \<Longrightarrow> ClaimNextQueuedRun (cStore c) locked now (mDb m) = Inr (None, d) \<Longrightarrow>
    manager_step c m (m\<lparr> mStage := Parked \<rparr>)"
| claim_error: "mStage m = Claiming \<Longrightarrow> manager_step c m (m\<lparr> mStage := Parked \<rparr>)"
| claim: "mStage m = Claiming \<Longrightarrow> ClaimNextQueuedRun (cStore c) locked now (mDb m) = Inr (Some run, d) \<Longrightarrow>
    manager_step c m (begin_execution c setup now' lost run (m\<lparr> mDb := d \<rparr>))"
| advance: "mStage m = Executing ex \<Longrightarrow> local_step (exRunner ex) (exGraph ex) (exLocal ex) l \<Longrightarrow> ctxDone l = ctxDone (exLocal ex) \<Longrightarrow>
    manager_step c m (advance c outage now ex l m)"
| conclude: "mStage m = Executing ex \<Longrightarrow> runPhase (exLocal ex) = Returned \<Longrightarrow> manager_step c m (conclude c now lost ex m)"
| submit: "manager_Submit c now ident later file n m = (r, m') \<Longrightarrow> manager_step c m m'"
| request: "RequestCancel (cStore c) now ident (mDb m) = Inr (st, d) \<Longrightarrow> manager_step c m (m\<lparr> mDb := d \<rparr>)"
| cancel_queued: "CancelQueued now ident (mDb m) = Inr (u, d) \<Longrightarrow> manager_step c m (m\<lparr> mDb := d \<rparr>)"
| interrupt: "mStage m = Executing ex \<Longrightarrow> manager_step c m (m\<lparr> mStage := Executing (cancel_context ex) \<rparr>)"
| notified: "manager_step c m (notify m)"
| delivered: "parse_stored (cStore c) (CrYAML cr) = Inr cfg \<Longrightarrow> Compile cfg = Inr g \<Longrightarrow> CrJobs cr = graph_jobs g \<Longrightarrow>
    createRun now cr (mDb m) = Inr (u, d) \<Longrightarrow> manager_step c m (m\<lparr> mDb := d \<rparr>)"
| storage: "storage_step (cStore c) (mDb m) d \<Longrightarrow> manager_step c m (m\<lparr> mDb := d \<rparr>)"
| files: "manager_step c m (m\<lparr> mFs := fs \<rparr>)"
| restart: "manager_Start c now (mDb m) (mFs m) (mBlobs m) = Inr m' \<Longrightarrow> manager_step c m m'"

inductive manager_reachable :: "control \<Rightarrow> mstate \<Rightarrow> bool" for c where
  start: "manager_Start c now empty_db fs stored = Inr m \<Longrightarrow> manager_reachable c m"
| step: "manager_reachable c m \<Longrightarrow> manager_step c m m' \<Longrightarrow> manager_reachable c m'"

text \<open>A cancellation through the manager is made of these steps, and it only succeeds for a run that is queued or running.\<close>

lemma Cancel_steps:
  assumes "manager_Cancel c now ident m = (res, m')"
  shows "(manager_step c)\<^sup>*\<^sup>* m m'" and "res = Inr st \<Longrightarrow> \<exists>r \<in> set (runs (mDb m)). rid r = ident \<and> rstatus r \<in> {RunQueued, RunRunning}"
    and "res = Inl e \<Longrightarrow> m' = m"
proof -
  have "(manager_step c)\<^sup>*\<^sup>* m m' \<and> (\<forall>st. res = Inr st \<longrightarrow> (\<exists>r \<in> set (runs (mDb m)). rid r = ident \<and> rstatus r \<in> {RunQueued, RunRunning})) \<and>
    (\<forall>e. res = Inl e \<longrightarrow> m' = m)"
  proof (cases "GetRun (cStore c) ident (mDb m)")
    case (Inr r)
    then have r: "RunRow r \<in> set (runs (mDb m))" "rid (RunRow r) = ident"
      by (auto simp: GetRun_def scanRun_def split: option.splits dest: find_SomeD)
    consider (queued) "rstatus (RunRow r) = RunQueued" | (running) "rstatus (RunRow r) = RunRunning" | (ended) "rstatus (RunRow r) \<notin> {RunQueued, RunRunning}" by blast
    then show ?thesis
    proof cases
      case queued
      then show ?thesis using assms Inr r manager_step.cancel_queued [of now ident m] by (auto simp: manager_Cancel_def split: sum.splits)
    next
      case running
      show ?thesis
      proof (cases "RequestCancel (cStore c) now ident (mDb m)")
        case (Inl e)
        then show ?thesis using assms Inr running by (auto simp: manager_Cancel_def)
      next
        case ok: (Inr x)
        obtain st d where x: "x = (st, d)" by (cases x)
        let ?m1 = "m\<lparr> mDb := d \<rparr>"
        have res: "res = Inr st" "m' = notify (cancel_active ident ?m1)" using assms Inr running ok x by (simp_all add: manager_Cancel_def)
        have s1: "manager_step c m ?m1" using manager_step.request ok x by blast
        have "(manager_step c)\<^sup>*\<^sup>* ?m1 (cancel_active ident ?m1)"
          using manager_step.interrupt [of ?m1] by (auto simp: cancel_active_def split: stage.splits)
        then have "(manager_step c)\<^sup>*\<^sup>* m m'" using s1 manager_step.notified res(2)
          by (metis converse_rtranclp_into_rtranclp rtranclp.rtrancl_into_rtrancl)
        then show ?thesis using r running res(1) by auto
      qed
    next
      case ended
      then have "m' = m" "\<exists>e. res = Inl e" using assms Inr by (auto simp: manager_Cancel_def split: RunStatus.splits)
      then show ?thesis by auto
    qed
  qed (use assms in \<open>auto simp: manager_Cancel_def\<close>)
  then show "(manager_step c)\<^sup>*\<^sup>* m m'" "res = Inr st \<Longrightarrow> \<exists>r \<in> set (runs (mDb m)). rid r = ident \<and> rstatus r \<in> {RunQueued, RunRunning}" "res = Inl e \<Longrightarrow> m' = m" by blast+
qed

end
