(* ===== verification/Manager_Safety.thy ===== *)
theory Manager_Safety
  imports Manager Lease_Safety
begin

text \<open>
  What the control plane of local mode keeps: the rows of a run change only while the run is canceled, executed or
  aborted, and while it is executed they follow the states of the local scheduler.
\<close>

section \<open>Frames\<close>

text \<open>\<open>frame X d d'\<close>: no row is added or removed, and only the rows of the runs in \<open>X\<close> may differ.\<close>

definition run_tag :: "run_row \<Rightarrow> string \<times> string" where
  "run_tag r = (rid r, ryaml r)"

definition frame :: "string set \<Rightarrow> db \<Rightarrow> db \<Rightarrow> bool" where
  "frame X d d' \<longleftrightarrow> map run_tag (runs d') = map run_tag (runs d) \<and> map job_key (jobs d') = map job_key (jobs d) \<and>
     (\<forall>r. rid r \<notin> X \<longrightarrow> (r \<in> set (runs d') \<longleftrightarrow> r \<in> set (runs d))) \<and>
     (\<forall>j. jrun j \<notin> X \<longrightarrow> (j \<in> set (jobs d') \<longleftrightarrow> j \<in> set (jobs d)))"

lemma frame_id [simp]: "frame X d d"
  by (simp add: frame_def)

lemma frame_trans2: "frame X d d1 \<Longrightarrow> frame X d1 d2 \<Longrightarrow> frame X d d2"
  by (simp add: frame_def)

lemma frame_mono: "frame X d d' \<Longrightarrow> X \<subseteq> Y \<Longrightarrow> frame Y d d'"
  by (auto simp: frame_def)

lemma frame_exec_jobs:
  assumes "exec_jobs P f d = Inr (n, d')" and "\<And>j. P j \<Longrightarrow> jrun j \<in> X" and key: "\<And>j. job_key (f j) = job_key j"
  shows "frame X d d'"
proof -
  have d': "d' = d\<lparr> jobs := upd_where P f (jobs d) \<rparr>" using assms(1) by (simp add: exec_jobs_Inr)
  have run: "jrun (f j) = jrun j" for j using key [of j] by (simp add: job_key_def)
  have "j \<in> set (upd_where P f (jobs d)) \<longleftrightarrow> j \<in> set (jobs d)" if "jrun j \<notin> X" for j
    using that assms(2) run by (auto simp: set_upd_where image_iff)
  then show ?thesis using map_upd_where [of job_key f P "jobs d", OF key] by (simp add: frame_def d')
qed

lemma frame_exec_runs:
  assumes "exec_runs P f d = Inr (n, d')" and "\<And>r. P r \<Longrightarrow> rid r \<in> X" and key: "\<And>r. run_tag (f r) = run_tag r"
  shows "frame X d d'"
proof -
  have d': "d' = d\<lparr> runs := upd_where P f (runs d) \<rparr>" using assms(1) by (simp add: exec_runs_Inr)
  have run: "rid (f r) = rid r" for r using key [of r] by (simp add: run_tag_def)
  have "r \<in> set (upd_where P f (runs d)) \<longleftrightarrow> r \<in> set (runs d)" if "rid r \<notin> X" for r
    using that assms(2) run by (auto simp: set_upd_where image_iff)
  then show ?thesis using map_upd_where [of run_tag f P "runs d", OF key] by (simp add: frame_def d')
qed

lemma frame_same: "runs d' = runs d \<Longrightarrow> jobs d' = jobs d \<Longrightarrow> frame X d d'"
  by (simp add: frame_def)

lemma expire_frame: "expire_artifacts_of s run d = Inr (u, d') \<Longrightarrow> runs d' = runs d \<and> jobs d' = jobs d"
  by (auto simp: expire_artifacts_of_def any_rows_Inr exec_artifacts_Inr)

lemma UpdateJob_Inr:
  assumes "UpdateJob s now run name status message d = Inr (u, d')"
  obtains f n where "exec_jobs (\<lambda>j. jrun j = run \<and> jname j = name) f d = Inr (n, d')" "\<And>j. job_key (f j) = job_key j" "\<And>j. jstatus (f j) = status"
  using assms that by (fastforce simp: UpdateJob_def rbind_eq_Inr one_row_Inr job_key_def)

lemma UpdateJob_frame: "UpdateJob s now run name status message d = Inr (u, d') \<Longrightarrow> frame {run} d d' \<and> runs d' = runs d"
  by (erule UpdateJob_Inr) (auto intro: frame_exec_jobs simp: exec_jobs_Inr)

lemma FinishRun_Inr:
  assumes "FinishRun s now run status message d = Inr (u, d')"
  shows "frame {run} d d'" and "jobs d' = jobs d"
    and "r \<in> set (runs d') \<Longrightarrow> rid r = run \<Longrightarrow> (\<exists>q \<in> set (runs d). rid q = run \<and> rcancel_at r = rcancel_at q \<and> ryaml r = ryaml q \<and>
       (if rstatus q = RunRunning then rstatus r = status else r = q))"
proof -
  obtain d1 where e: "exec_runs (\<lambda>r. rid r = run \<and> rstatus r = RunRunning)
      (\<lambda>r. r\<lparr> rstatus := status, rfinished_at := Some now, rerror := message \<rparr>) d = Inr (1, d1)" "expire_artifacts_of s run d1 = Inr (u, d')"
    using assms by (auto simp: FinishRun_def rbind_eq_Inr one_row_Inr)
  note x = expire_frame [OF e(2)]
  have "frame {run} d d1" by (rule frame_exec_runs [OF e(1)]) (simp_all add: run_tag_def)
  then show "frame {run} d d'" using frame_same x frame_trans2 by blast
  show "jobs d' = jobs d" using x e(1) by (simp add: exec_runs_Inr)
  show "\<exists>q \<in> set (runs d). rid q = run \<and> rcancel_at r = rcancel_at q \<and> ryaml r = ryaml q \<and> (if rstatus q = RunRunning then rstatus r = status else r = q)"
    if "r \<in> set (runs d')" "rid r = run"
  proof -
    have "r \<in> set (upd_where (\<lambda>r. rid r = run \<and> rstatus r = RunRunning) (\<lambda>r. r\<lparr> rstatus := status, rfinished_at := Some now, rerror := message \<rparr>) (runs d))"
      using that(1) x e(1) by (simp add: exec_runs_Inr)
    then show ?thesis by (cases rule: in_upd_whereE) (use that(2) in auto)
  qed
qed

lemma finalizeRun_frame:
  assumes "finalizeRun s now run d = Inr (u, d')"
  shows "frame {run} d d'"
    and "r \<in> set (runs d') \<Longrightarrow> (\<exists>q \<in> set (runs d). rid q = rid r \<and> rcancel_at r = rcancel_at q \<and> (rstatus r = rstatus q \<or> rstatus r \<notin> {RunQueued, RunRunning}))"
proof -
  have "frame {run} d d' \<and> (\<forall>r \<in> set (runs d'). \<exists>q \<in> set (runs d). rid q = rid r \<and> rcancel_at r = rcancel_at q \<and>
    (rstatus r = rstatus q \<or> rstatus r \<notin> {RunQueued, RunRunning}))"
  proof (cases "d' = d")
    case False
    then obtain f n d1 where e: "exec_runs (\<lambda>r. rid r = run \<and> rstatus r \<in> {RunQueued, RunRunning}) f d = Inr (n, d1)"
      "n = 0 \<and> d' = d1 \<or> expire_artifacts_of s run d1 = Inr ((), d')" "\<And>r. run_tag (f r) = run_tag r" "\<And>r. rcancel_at (f r) = rcancel_at r"
      "\<And>r. rstatus (f r) \<notin> {RunQueued, RunRunning}"
      using assms by (fastforce simp: finalizeRun_def Let_def rbind_eq_Inr run_tag_def run_verdict_def split: if_splits option.splits list.splits)
    have same: "runs d' = runs d1 \<and> jobs d' = jobs d1" using e(2) expire_frame by blast
    have "frame {run} d d1" by (rule frame_exec_runs [OF e(1)]) (simp_all add: e(3))
    then have "frame {run} d d'" using frame_same same frame_trans2 by blast
    moreover have "\<exists>q \<in> set (runs d). rid q = rid r \<and> rcancel_at r = rcancel_at q \<and> (rstatus r = rstatus q \<or> rstatus r \<notin> {RunQueued, RunRunning})"
      if r: "r \<in> set (runs d')" for r
    proof -
      have "r \<in> set (upd_where (\<lambda>r. rid r = run \<and> rstatus r \<in> {RunQueued, RunRunning}) f (runs d))" using r same e(1) by (simp add: exec_runs_Inr)
      then show ?thesis
      proof (cases rule: in_upd_whereE)
        case (changed q)
        then show ?thesis using e(3) [of q] e(4,5) by (intro bexI [of _ q]) (auto simp: run_tag_def)
      qed auto
    qed
    ultimately show ?thesis by blast
  qed auto
  then show "frame {run} d d'" "r \<in> set (runs d') \<Longrightarrow> \<exists>q \<in> set (runs d). rid q = rid r \<and> rcancel_at r = rcancel_at q \<and> (rstatus r = rstatus q \<or> rstatus r \<notin> {RunQueued, RunRunning})"
    by blast+
qed

lemma RequestCancel_Inr:
  assumes "RequestCancel s now run d = Inr (st, d')"
  shows "frame {run} d d'"
    and "distinct (map rid (runs d)) \<Longrightarrow> r \<in> set (runs d') \<Longrightarrow> rid r = run \<Longrightarrow> rstatus r \<noteq> RunQueued \<and> rcancel_at r \<noteq> None"
    and "j \<in> set (jobs d') \<Longrightarrow> j \<in> set (jobs d) \<or> jstatus j = JobCanceled \<and> (\<exists>i \<in> set (jobs d). job_key i = job_key j \<and> jstatus i = JobPending)"
    and "(\<exists>q \<in> set (runs d). rid q = run \<and> rstatus q = RunRunning)"
proof -
  obtain n d1 m d2 where e: "exec_runs (\<lambda>r. rid r = run \<and> rstatus r = RunRunning)
      (\<lambda>r. r\<lparr> rcancel_at := coalesce (rcancel_at r) now \<rparr>) d = Inr (n, d1)" "n \<noteq> 0"
    "exec_jobs (\<lambda>j. jrun j = run \<and> jstatus j = JobPending) (cancel_row now) d1 = Inr (m, d2)"
    "finalizeRun s now run d2 = Inr ((), d')"
    using assms by (auto simp: RequestCancel_def rbind_eq_Inr any_rows_Inr split: sum.splits if_splits)
  have f1: "frame {run} d d1" by (rule frame_exec_runs [OF e(1)]) (simp_all add: run_tag_def)
  have f2: "frame {run} d1 d2" by (rule frame_exec_jobs [OF e(3)]) (simp_all add: cancel_row_def job_key_def)
  show "frame {run} d d'" using frame_trans2 [OF frame_trans2 [OF f1 f2] finalizeRun_frame(1) [OF e(4)]] .
  show running: "\<exists>q \<in> set (runs d). rid q = run \<and> rstatus q = RunRunning" using e(1,2) by (auto simp: exec_runs_Inr affected_0)
  show "j \<in> set (jobs d) \<or> jstatus j = JobCanceled \<and> (\<exists>i \<in> set (jobs d). job_key i = job_key j \<and> jstatus i = JobPending)" if "j \<in> set (jobs d')"
  proof -
    have "j \<in> set (upd_where (\<lambda>j. jrun j = run \<and> jstatus j = JobPending) (cancel_row now) (jobs d))"
      using that finalizeRun_jobs [OF e(4)] e(1,3) by (simp add: exec_runs_Inr exec_jobs_Inr)
    then show ?thesis by (cases rule: in_upd_whereE) (auto simp: cancel_row_def job_key_def)
  qed
  have runs: "runs d2 = upd_where (\<lambda>r. rid r = run \<and> rstatus r = RunRunning) (\<lambda>r. r\<lparr> rcancel_at := coalesce (rcancel_at r) now \<rparr>) (runs d)"
    using e(1,3) by (simp add: exec_runs_Inr exec_jobs_Inr)
  assume dist: "distinct (map rid (runs d))" and r: "r \<in> set (runs d')" "rid r = run"
  obtain q where q: "q \<in> set (runs d2)" "rid q = run" "rcancel_at r = rcancel_at q" "rstatus r = rstatus q \<or> rstatus r \<notin> {RunQueued, RunRunning}"
    using finalizeRun_frame(2) [OF e(4) r(1)] r(2) by auto
  have "rcancel_at q \<noteq> None \<and> rstatus q = RunRunning" using q(1) unfolding runs
  proof (cases rule: in_upd_whereE)
    case kept
    then show ?thesis using key_unique [OF dist, of q] running q(2) by metis
  next
    case (changed p)
    then show ?thesis by (auto simp: coalesce_def split: option.splits)
  qed
  then show "rstatus r \<noteq> RunQueued \<and> rcancel_at r \<noteq> None" using q(3,4) by auto
qed

lemma CancelQueued_Inr:
  assumes "CancelQueued now run d = Inr (u, d')"
  shows "frame {run} d d'" and "distinct (map rid (runs d)) \<Longrightarrow> r \<in> set (runs d') \<Longrightarrow> rid r = run \<Longrightarrow> rstatus r = RunCanceled"
    and "\<exists>q \<in> set (runs d). rid q = run \<and> rstatus q = RunQueued"
proof -
  let ?P = "\<lambda>r :: run_row. rid r = run \<and> rstatus r = RunQueued"
  let ?f = "\<lambda>r. r\<lparr> rstatus := RunCanceled, rcancel_at := Some now, rfinished_at := Some now \<rparr>"
  obtain d1 m where e: "exec_runs ?P ?f d = Inr (1, d1)"
    "exec_jobs (\<lambda>j. jrun j = run \<and> jstatus j = JobPending) (\<lambda>j. j\<lparr> jstatus := JobCanceled, jfinished_at := Some now \<rparr>) d1 = Inr (m, d')"
    using assms by (auto simp: CancelQueued_def rbind_eq_Inr one_row_Inr any_rows_Inr)
  have "frame {run} d d1" by (rule frame_exec_runs [OF e(1)]) (simp_all add: run_tag_def)
  moreover have "frame {run} d1 d'" by (rule frame_exec_jobs [OF e(2)]) (simp_all add: job_key_def)
  ultimately show "frame {run} d d'" by (rule frame_trans2)
  have "0 < affected ?P (runs d)" using e(1) by (auto simp: exec_runs_Inr)
  then show queued: "\<exists>q \<in> set (runs d). ?P q" by (auto simp: affected_pos)
  assume dist: "distinct (map rid (runs d))" and r: "r \<in> set (runs d')" "rid r = run"
  have "r \<in> set (upd_where ?P ?f (runs d))" using r(1) e by (simp add: exec_runs_Inr exec_jobs_Inr)
  then show "rstatus r = RunCanceled"
  proof (cases rule: in_upd_whereE)
    case kept
    then show ?thesis using key_unique [OF dist, of r] queued r(2) by metis
  qed auto
qed

lemma Claim_Inr:
  assumes "ClaimNextQueuedRun s locked now d = Inr (Some run, d')" and dist: "distinct (map rid (runs d))"
  obtains p where "p \<in> set (runs d)" "rstatus p = RunQueued" "frame {rid p} d d'" "jobs d' = jobs d"
    "RunRow run = p\<lparr> rstatus := RunRunning, rstarted_at := Some now \<rparr>" "RunRow run \<in> set (runs d')"
proof -
  obtain p d1 where e: "first_by (\<lambda>r. (rcreated_at r, rid r)) (filter (\<lambda>r. rstatus r = RunQueued \<and> \<not> locked r) (runs d)) = Some p"
    "exec_runs (\<lambda>r. rid r = rid p \<and> rstatus r = RunQueued) (\<lambda>r. r\<lparr> rstatus := RunRunning, rstarted_at := Some now \<rparr>) d = Inr (1, d1)"
    "GetRun s (rid p) d1 = Inr run" "d' = d1"
    using assms(1) by (auto simp: ClaimNextQueuedRun_def rbind_eq_Inr one_row_Inr split: option.splits)
  have p: "p \<in> set (runs d)" "rstatus p = RunQueued" using first_by_Some [OF e(1)] by auto
  let ?p = "p\<lparr> rstatus := RunRunning, rstarted_at := Some now \<rparr>"
  have fr: "frame {rid p} d d1" by (rule frame_exec_runs [OF e(2)]) (simp_all add: run_tag_def)
  have runs: "runs d1 = upd_where (\<lambda>r. rid r = rid p \<and> rstatus r = RunQueued) (\<lambda>r. r\<lparr> rstatus := RunRunning, rstarted_at := Some now \<rparr>) (runs d)"
    using e(2) by (simp add: exec_runs_Inr)
  then have new: "?p \<in> set (runs d1)" using p by (auto simp: set_upd_where)
  have "map rid (runs d1) = map rid (runs d)" unfolding runs by (rule map_upd_where) simp
  then have "find (\<lambda>r. rid r = rid p) (runs d1) = Some ?p" using find_key [of rid "runs d1" ?p] dist new by simp
  then have "RunRow run = ?p" using e(3) by (auto simp: GetRun_def scanRun_def split: option.splits)
  then show thesis using that p fr e(2,4) new by (simp add: exec_runs_Inr)
qed

lemma storage_same: "storage_step s d d' \<Longrightarrow> runs d' = runs d \<and> jobs d' = jobs d"
  using storage_step_frame by (fastforce simp: storage_frame_def)

lemma abort_runs_frame: "abort_runs s now msg ids d = Inr (u, d') \<Longrightarrow> frame (set ids) d d' \<and> runs d' = runs d"
proof (induction ids arbitrary: d)
  case (Cons run ids)
  then obtain n d1 d2 where e: "exec_jobs (\<lambda>j. jrun j = run \<and> jstatus j \<in> {JobPending, JobRunning})
      (\<lambda>j. j\<lparr> jstatus := JobAborted, jfinished_at := Some now, jerror := Some msg \<rparr>) d = Inr (n, d1)"
    "expire_artifacts_of s run d1 = Inr ((), d2)" "abort_runs s now msg ids d2 = Inr (u, d')"
    by (auto simp: rbind_eq_Inr any_rows_Inr)
  have "frame {run} d d1" by (rule frame_exec_jobs [OF e(1)]) (simp_all add: job_key_def)
  then have "frame (set (run # ids)) d d1" by (rule frame_mono) simp
  moreover have "frame (set (run # ids)) d1 d2" using expire_frame [OF e(2)] by (intro frame_same) simp_all
  moreover have "frame (set (run # ids)) d2 d'" using Cons.IH [OF e(3)] by (auto intro: frame_mono)
  moreover have "runs d' = runs d" using Cons.IH [OF e(3)] expire_frame [OF e(2)] e(1) by (simp add: exec_jobs_Inr)
  ultimately show ?case using frame_trans2 by blast
qed simp

lemma RecoverInterrupted_Inr:
  assumes "RecoverInterrupted s now d = Inr (u, d')"
  shows "frame (rid ` {r \<in> set (runs d). rstatus r = RunRunning}) d d'"
    and "r \<in> set (runs d') \<Longrightarrow> (r \<in> set (runs d) \<and> rstatus r \<noteq> RunRunning) \<or> rstatus r = RunAborted"
proof -
  let ?X = "rid ` {r \<in> set (runs d). rstatus r = RunRunning}"
  let ?msg = "''control plane restarted before run completed''"
  let ?f = "\<lambda>r. r\<lparr> rstatus := RunAborted, rfinished_at := Some now, rerror := Some ?msg \<rparr>"
  obtain n d1 where e: "exec_runs (\<lambda>r. rstatus r = RunRunning) ?f d = Inr (n, d1)"
    "abort_runs s now ?msg (sort (map rid (filter (\<lambda>r. rstatus r = RunRunning) (runs d)))) d1 = Inr (u, d')"
    using assms by (auto simp: RecoverInterrupted_def Let_def rbind_eq_Inr any_rows_Inr)
  have d1: "d1 = d\<lparr> runs := upd_where (\<lambda>r. rstatus r = RunRunning) ?f (runs d) \<rparr>" using e(1) by (simp add: exec_runs_Inr)
  have "r \<in> set (runs d1) \<longleftrightarrow> r \<in> set (runs d)" if "rid r \<notin> ?X" for r using that by (auto simp: d1 set_upd_where image_iff)
  moreover have "map run_tag (runs d1) = map run_tag (runs d)" unfolding d1 by (simp add: map_upd_where run_tag_def)
  ultimately have "frame ?X d d1" by (simp add: frame_def d1)
  moreover have "frame ?X d1 d'" using abort_runs_frame [OF e(2)] by (auto intro: frame_mono)
  ultimately show "frame ?X d d'" by (rule frame_trans2)
  assume "r \<in> set (runs d')"
  then have "r \<in> set (upd_where (\<lambda>r. rstatus r = RunRunning) ?f (runs d))" using abort_runs_frame [OF e(2)] by (simp add: d1)
  then show "(r \<in> set (runs d) \<and> rstatus r \<noteq> RunRunning) \<or> rstatus r = RunAborted" by (cases rule: in_upd_whereE) auto
qed

section \<open>The invariant\<close>

definition job_names :: "db \<Rightarrow> string \<Rightarrow> string set" where
  "job_names d run = jname ` {j \<in> set (jobs d). jrun j = run}"

definition described :: "Store \<Rightarrow> db \<Rightarrow> run_row \<Rightarrow> bool" where
  "described s d r \<longleftrightarrow> (\<exists>cfg g. parse_stored s (ryaml r) = Inr cfg \<and> Compile cfg = Inr g \<and> job_names d (rid r) = set (Order g))"

definition ended :: "JobStatus \<Rightarrow> bool" where
  "ended st \<longleftrightarrow> st \<noteq> JobPending \<and> st \<noteq> JobRunning"

definition statuses_fit :: "db \<Rightarrow> run_row \<Rightarrow> bool" where
  "statuses_fit d r \<longleftrightarrow>
     (rstatus r = RunQueued \<longrightarrow> (\<forall>j \<in> set (jobs d). jrun j = rid r \<longrightarrow> jstatus j = JobPending)) \<and>
     (rcancel_at r = None \<longrightarrow> rstatus r = RunPassed \<longrightarrow> (\<forall>j \<in> set (jobs d). jrun j = rid r \<longrightarrow> jstatus j = JobPassed)) \<and>
     (rcancel_at r = None \<longrightarrow> rstatus r = RunFailed \<longrightarrow> (\<forall>j \<in> set (jobs d). jrun j = rid r \<longrightarrow> ended (jstatus j)) \<and>
        (\<exists>j \<in> set (jobs d). jrun j = rid r \<and> jstatus j \<noteq> JobPassed))"

definition busy :: "run_row \<Rightarrow> bool" where
  "busy r \<longleftrightarrow> rstatus r \<noteq> RunQueued \<and> (rstatus r = RunRunning \<or> rcancel_at r \<noteq> None)"

definition mirrors :: "db \<Rightarrow> string \<Rightarrow> (string \<rightharpoonup> State) \<Rightarrow> bool" where
  "mirrors d run states \<longleftrightarrow> (\<forall>j \<in> set (jobs d). jrun j = run \<longrightarrow>
     (\<exists>st. states (jname j) = Some st \<and> (jstatus j = job_status st \<or> st = Pending \<and> jstatus j = JobCanceled)))"

definition exec_ok :: "Store \<Rightarrow> db \<Rightarrow> execution \<Rightarrow> bool" where
  "exec_ok s d ex \<longleftrightarrow>
     (\<exists>r \<in> set (runs d). rid r = rid (RunRow (exRun ex)) \<and> busy r \<and>
       (\<exists>cfg. parse_stored s (ryaml r) = Inr cfg \<and> Compile cfg = Inr (exGraph ex))) \<and>
     local_reachable (exRunner ex) (exGraph ex) (exLocal ex) \<and>
     (exErr ex = None \<longrightarrow> mirrors d (rid (RunRow (exRun ex))) (States (exLocal ex)))"

definition runs_fit :: "Store \<Rightarrow> db \<Rightarrow> bool" where
  "runs_fit s d \<longleftrightarrow> distinct (map rid (runs d)) \<and> (\<forall>j \<in> set (jobs d). jrun j \<in> rid ` set (runs d)) \<and>
     (\<forall>r \<in> set (runs d). described s d r \<and> statuses_fit d r)"

definition manager_inv :: "control \<Rightarrow> mstate \<Rightarrow> bool" where
  "manager_inv c m \<longleftrightarrow> runs_fit (cStore c) (mDb m) \<and>
     (\<forall>ex. mStage m = Executing ex \<longrightarrow> exec_ok (cStore c) (mDb m) ex \<and> mActive m = rid (RunRow (exRun ex))) \<and>
     (\<forall>r \<in> set (runs (mDb m)). rstatus r = RunRunning \<longrightarrow>
        rid r \<in> set (mLost m) \<or> (\<exists>ex. mStage m = Executing ex \<and> rid r = rid (RunRow (exRun ex))))"

lemma busy_statuses_fit: "busy r \<Longrightarrow> statuses_fit d r"
  by (auto simp: busy_def statuses_fit_def)

lemma other_statuses_fit: "rstatus r \<notin> {RunQueued, RunPassed, RunFailed} \<Longrightarrow> statuses_fit d r"
  by (auto simp: statuses_fit_def)

lemma frame_names: "frame X d d' \<Longrightarrow> job_names d' run = job_names d run"
proof -
  assume "frame X d d'"
  then have "job_key ` set (jobs d') = job_key ` set (jobs d)" by (auto simp: frame_def simp flip: set_map)
  moreover have "job_names e run = {n. (run, n) \<in> job_key ` set (jobs e)}" for e by (auto simp: job_names_def job_key_def)
  ultimately show ?thesis by simp
qed

lemma frame_runs_fit:
  assumes ok: "runs_fit s d" and fr: "frame X d d'" and X: "\<And>r. r \<in> set (runs d') \<Longrightarrow> rid r \<in> X \<Longrightarrow> statuses_fit d' r"
  shows "runs_fit s d'"
proof -
  have tags: "map run_tag (runs d') = map run_tag (runs d)" and keys: "map job_key (jobs d') = map job_key (jobs d)" using fr by (simp_all add: frame_def)
  have "map rid (runs e) = map fst (map run_tag (runs e))" for e by (simp add: run_tag_def)
  then have rids: "map rid (runs d') = map rid (runs d)" using tags by metis
  have rset: "rid ` set (runs d') = rid ` set (runs d)" using rids by (metis list.set_map)
  have jruns: "jrun ` set (jobs d') = jrun ` set (jobs d)"
  proof -
    have "jrun ` set (jobs e) = fst ` set (map job_key (jobs e))" for e by (force simp: job_key_def)
    then show ?thesis using keys by metis
  qed
  have desc: "described s d' r" if "r \<in> set (runs d')" for r
  proof -
    have "run_tag r \<in> set (map run_tag (runs d))" using that unfolding tags [symmetric] by simp
    then obtain q where "q \<in> set (runs d)" "rid q = rid r" "ryaml q = ryaml r" by (auto simp: run_tag_def)
    then show ?thesis using ok frame_names [OF fr] by (force simp: runs_fit_def described_def)
  qed
  have "statuses_fit d' r" if r: "r \<in> set (runs d')" for r
  proof (cases "rid r \<in> X")
    case False
    then have "statuses_fit d r" using r ok fr by (simp add: frame_def runs_fit_def)
    moreover have "j \<in> set (jobs d') \<and> jrun j = rid r \<longleftrightarrow> j \<in> set (jobs d) \<and> jrun j = rid r" for j using fr False by (auto simp: frame_def)
    ultimately show ?thesis unfolding statuses_fit_def by blast
  qed (use X r in blast)
  moreover have "jrun ` set (jobs d') \<subseteq> rid ` set (runs d')" unfolding jruns rset using ok by (auto simp: runs_fit_def)
  ultimately show ?thesis using ok desc rids by (auto simp: runs_fit_def)
qed

lemma same_runs_fit: "runs_fit s d \<Longrightarrow> runs d' = runs d \<Longrightarrow> jobs d' = jobs d \<Longrightarrow> runs_fit s d'"
  by (auto simp: runs_fit_def described_def statuses_fit_def job_names_def)

section \<open>The observer\<close>

lemma frame_busy:
  assumes "frame {run} d d'" and "runs d' = runs d" and "runs_fit s d" and "r \<in> set (runs d)" "rid r = run" "busy r"
  shows "runs_fit s d'"
proof (rule frame_runs_fit [OF assms(3,1)])
  fix q assume "q \<in> set (runs d')" "rid q \<in> {run}"
  then have "q = r" using key_unique [of rid "runs d" q r] assms(2-5) by (simp add: runs_fit_def)
  then show "statuses_fit d' q" using busy_statuses_fit assms(6) by simp
qed

lemma OnJobState_err [simp]: "snd acc \<noteq> None \<Longrightarrow> snd (OnJobState c outage now run ev acc) = snd acc"
  by (auto simp: OnJobState_def split: prod.splits option.splits sum.splits)

lemma OnJobState_frame: "frame {run} (fst acc) (fst (OnJobState c outage now run ev acc)) \<and> runs (fst (OnJobState c outage now run ev acc)) = runs (fst acc)"
  using UpdateJob_frame by (fastforce simp: OnJobState_def split: prod.splits option.splits sum.splits)

lemma OnJobState_fold:
  "frame {run} (fst acc) (fst (fold (OnJobState c outage now run) evs acc)) \<and> runs (fst (fold (OnJobState c outage now run) evs acc)) = runs (fst acc)"
proof (induction evs arbitrary: acc)
  case (Cons ev evs)
  show ?case using Cons.IH [of "OnJobState c outage now run ev acc"] OnJobState_frame [of run acc c outage now ev] frame_trans2 by fastforce
qed simp

lemma OnJobState_fold_err: "snd acc \<noteq> None \<Longrightarrow> snd (fold (OnJobState c outage now run) evs acc) = snd acc"
  by (induction evs arbitrary: acc) simp_all

lemma OnJobState_mirrors:
  assumes "mirrors d run states" and "OnJobState c outage now run (name, old, new) (d, None) = (d', None)"
  shows "mirrors d' run (states(name \<mapsto> new))"
proof -
  have "UpdateJob (cStore c) now run name (job_status new) None d = Inr ((), d')"
    using assms(2) by (auto simp: OnJobState_def split: option.splits sum.splits)
  then obtain f n where f: "exec_jobs (\<lambda>j. jrun j = run \<and> jname j = name) f d = Inr (n, d')" "\<And>j. job_key (f j) = job_key j" "\<And>j. jstatus (f j) = job_status new"
    by (rule UpdateJob_Inr) blast
  show ?thesis unfolding mirrors_def
  proof (intro ballI impI)
    fix j assume "j \<in> set (jobs d')" and run: "jrun j = run"
    then have "j \<in> set (upd_where (\<lambda>j. jrun j = run \<and> jname j = name) f (jobs d))" using f(1) by (simp add: exec_jobs_Inr)
    then show "\<exists>st. (states(name \<mapsto> new)) (jname j) = Some st \<and> (jstatus j = job_status st \<or> st = Pending \<and> jstatus j = JobCanceled)"
    proof (cases rule: in_upd_whereE)
      case kept
      then show ?thesis using assms(1) run by (auto simp: mirrors_def)
    next
      case (changed i)
      then have "jname j = name" "jstatus j = job_status new" using f(2) [of i] f(3) by (simp_all add: job_key_def)
      then show ?thesis by simp
    qed
  qed
qed

lemma replay_mirrors:
  assumes "mirrors d run states" and "replay states evs = Some states'" and "fold (OnJobState c outage now run) evs (d, None) = (d', None)"
  shows "mirrors d' run states'"
  using assms
proof (induction evs arbitrary: d states)
  case (Cons ev evs)
  obtain name old new where ev: "ev = (name, old, new)" by (cases ev)
  obtain d1 e1 where d1: "OnJobState c outage now run ev (d, None) = (d1, e1)" by fastforce
  have e1: "e1 = None" using OnJobState_fold_err [of "(d1, e1)" c outage now run evs] Cons.prems(3) d1 by fastforce
  have "mirrors d1 run (states(name \<mapsto> new))" using OnJobState_mirrors Cons.prems(1) d1 e1 ev by metis
  moreover have "replay (states(name \<mapsto> new)) evs = Some states'" using Cons.prems(2) ev by (auto split: if_splits)
  ultimately show ?case using Cons.IH Cons.prems(3) d1 e1 by simp
qed simp

text \<open>A step of the scheduler only adds to what was observed.\<close>

lemma end_pending_observed: "prefix (observed s) (observed (end_pending P new names s))"
proof (induction names arbitrary: s)
  case (Cons n names)
  let ?s = "(change n new s)\<lparr> terminal := terminal s + 1 \<rparr>"
  have "prefix (observed s) (observed ?s)" by (simp add: change_def)
  then show ?case using Cons.IH [of s] Cons.IH [of ?s] prefix_order.trans by fastforce
qed simp

lemma start_jobs_observed: "prefix (observed s) (observed (start_jobs g n s))"
proof (induction g n s rule: start_jobs.induct)
  case (1 g n s)
  let ?name = "nextReadyJob g (States s)"
  have "prefix (observed s) (observed (start_job ?name s))" by (simp add: start_job_def change_def)
  then show ?case using 1 prefix_order.trans by (subst start_jobs.simps) auto
qed

lemma finish_idle_observed: "prefix (observed s) (observed (finish_idle g s))"
proof -
  let ?t = "if canceling s then end_pending (\<lambda>_ _. True) Canceled (Order g) s else s"
  have t: "prefix (observed s) (observed ?t)" using end_pending_observed by simp
  have "prefix (observed ?t) (observed (end_pending (\<lambda>_ _. True) Failed (Order g) (?t\<lparr> InternalError := True \<rparr>)))"
    using end_pending_observed [of "?t\<lparr> InternalError := True \<rparr>"] by simp
  then show ?thesis unfolding finish_idle_def Let_def using t prefix_order.trans by (cases "terminal ?t = int (length (Nodes g))") auto
qed

lemma schedule_observed: "prefix (observed s) (observed (schedule r g s))"
  using prefix_order.trans [OF end_pending_observed start_jobs_observed] by (simp add: schedule_def)

lemma local_step_observed:
  assumes "local_step r g s s'"
  shows "prefix (observed s) (observed s')"
  using assms
proof (cases rule: local_step.cases)
  case head
  let ?s1 = "schedule r g (note_cancel s)"
  have "observed (note_cancel s) = observed s" by (simp add: note_cancel_def)
  then have "prefix (observed s) (observed ?s1)" using schedule_observed [of "note_cancel s" r g] by simp
  then show ?thesis using head finish_idle_observed [of ?s1 g] prefix_order.trans by (auto simp: loop_head_def Let_def)
qed (auto simp: receive_def change_def split: prod.splits)

lemma step_mirrors:
  assumes "local_reachable r g l" and "local_step r g l l'" and wf: "wf_graph g" and "mirrors d run (States l)"
    and "fold (OnJobState c outage now run) (drop (length (observed l)) (observed l')) (d, None) = (d', None)"
  shows "mirrors d' run (States l')"
proof -
  obtain es where es: "observed l' = observed l @ es" using local_step_observed [OF assms(2)] by (auto simp: prefix_def)
  have rep: "replay (States (init_run g)) (observed x) = Some (States x)" if "local_reachable r g x" for x
    using local_reachable_inv [OF that wf] by (simp add: local_inv_def core_def)
  have "replay (States l) es = Some (States l')"
    using rep [OF assms(1)] rep [OF local_reachable.step [OF assms(1,2)]] unfolding es by (simp add: replay_append)
  then show ?thesis using replay_mirrors [OF assms(4)] assms(5) es by simp
qed

section \<open>Preservation\<close>

text \<open>The decoder fills a Go map, whose keys are distinct.\<close>

definition go_maps :: "Store \<Rightarrow> bool" where
  "go_maps s \<longleftrightarrow> (\<forall>data cfg. decode s data = Inr cfg \<longrightarrow> distinct (map fst (Jobs cfg)))"

lemma stored_wf:
  assumes "go_maps s" and "parse_stored s yaml = Inr cfg" and "Compile cfg = Inr g"
  shows "wf_graph g"
proof -
  have "ParseBytes (decode s) (decode_extra s) yaml = Inr cfg" using assms(2) by (simp add: parse_stored_def split: sum.splits)
  then have "decode s yaml = Inr cfg" "Validate cfg = Inr ()" by (auto simp: ParseBytes_def split: sum.splits extra_document.splits)
  then show ?thesis using compiled_wf assms(1,3) by (auto simp: go_maps_def)
qed

lemma exec_frame:
  assumes "exec_ok s d ex" and fr: "frame X d d'" and "rid (RunRow (exRun ex)) \<notin> X"
  shows "exec_ok s d' ex"
  using assms unfolding exec_ok_def mirrors_def frame_def by metis

lemma cancel_context_ok: "exec_ok s d ex \<Longrightarrow> exec_ok s d (cancel_context ex)"
proof -
  assume ok: "exec_ok s d ex"
  have "local_reachable (exRunner ex) (exGraph ex) ((exLocal ex)\<lparr> ctxDone := True \<rparr>)" if "runPhase (exLocal ex) \<noteq> Returned"
  proof (cases "ctxDone (exLocal ex)")
    case True
    then have "(exLocal ex)\<lparr> ctxDone := True \<rparr> = exLocal ex" by simp
    then show ?thesis using ok by (simp add: exec_ok_def)
  next
    case False
    then show ?thesis using ok local_reachable.step [OF _ local_step.cancel [OF False that]] by (simp add: exec_ok_def)
  qed
  then show ?thesis using ok by (simp add: exec_ok_def cancel_context_def)
qed

lemma cancel_context_run [simp]: "exRun (cancel_context ex) = exRun ex"
  by (simp add: cancel_context_def)

lemma runs_fitD:
  assumes "runs_fit s d"
  shows "distinct (map rid (runs d))" and "j \<in> set (jobs d) \<Longrightarrow> jrun j \<in> rid ` set (runs d)"
    and "r \<in> set (runs d) \<Longrightarrow> described s d r" and "r \<in> set (runs d) \<Longrightarrow> statuses_fit d r"
  using assms by (auto simp: runs_fit_def)

lemma manager_invD:
  assumes "manager_inv c m"
  shows "runs_fit (cStore c) (mDb m)" and "mStage m = Executing ex \<Longrightarrow> exec_ok (cStore c) (mDb m) ex"
    and "mStage m = Executing ex \<Longrightarrow> mActive m = rid (RunRow (exRun ex))"
    and "r \<in> set (runs (mDb m)) \<Longrightarrow> rstatus r = RunRunning \<Longrightarrow>
      rid r \<in> set (mLost m) \<or> (\<exists>ex. mStage m = Executing ex \<and> rid r = rid (RunRow (exRun ex)))"
  using assms by (simp_all add: manager_inv_def)

text \<open>A transaction that another part of the program makes.\<close>

lemma inv_transaction:
  assumes inv: "manager_inv c m" and "runs_fit (cStore c) d"
    and "\<And>ex. mStage m = Executing ex \<Longrightarrow> exec_ok (cStore c) (mDb m) ex \<Longrightarrow> exec_ok (cStore c) d ex"
    and "\<And>r. r \<in> set (runs d) \<Longrightarrow> rstatus r = RunRunning \<Longrightarrow> \<exists>q \<in> set (runs (mDb m)). rid q = rid r \<and> rstatus q = RunRunning"
  shows "manager_inv c (m\<lparr> mDb := d \<rparr>)"
proof -
  have "rid r \<in> set (mLost m) \<or> (\<exists>ex. mStage m = Executing ex \<and> rid r = rid (RunRow (exRun ex)))"
    if "r \<in> set (runs d)" "rstatus r = RunRunning" for r using assms(4) [OF that] manager_invD(4) [OF inv] by metis
  then show ?thesis using assms(2,3) manager_invD [OF inv] by (simp add: manager_inv_def)
qed

lemma request_inv:
  assumes inv: "manager_inv c m" and r: "RequestCancel (cStore c) now ident (mDb m) = Inr (st, d)"
  shows "manager_inv c (m\<lparr> mDb := d \<rparr>)"
proof (rule inv_transaction [OF inv])
  note fit = manager_invD(1) [OF inv] and R = RequestCancel_Inr [OF r]
  note dist = runs_fitD(1) [OF fit]
  have "busy x" if "x \<in> set (runs d)" "rid x \<in> {ident}" for x using R(2) [OF dist] that by (simp add: busy_def)
  then show "runs_fit (cStore c) d" using busy_statuses_fit by (intro frame_runs_fit [OF fit R(1)]) blast
  show "\<exists>q \<in> set (runs (mDb m)). rid q = rid x \<and> rstatus q = RunRunning" if "x \<in> set (runs d)" "rstatus x = RunRunning" for x
    using that R(1,4) by (cases "rid x = ident") (auto simp: frame_def)
  fix ex assume ok: "exec_ok (cStore c) (mDb m) ex"
  show "exec_ok (cStore c) d ex"
  proof (cases "rid (RunRow (exRun ex)) = ident")
    case True
    obtain q where q: "q \<in> set (runs (mDb m))" "rid q = ident" "busy q" "\<exists>cfg. parse_stored (cStore c) (ryaml q) = Inr cfg \<and> Compile cfg = Inr (exGraph ex)"
      using ok True by (auto simp: exec_ok_def)
    have "run_tag q \<in> set (map run_tag (runs d))" using R(1) q(1) by (simp add: frame_def)
    then obtain p where p: "p \<in> set (runs d)" "rid p = ident" "ryaml p = ryaml q" using q(2) by (auto simp: run_tag_def)
    then have "busy p" using R(2) [OF dist] by (simp add: busy_def)
    moreover have "mirrors d ident states" if mir: "mirrors (mDb m) ident states" for states
      unfolding mirrors_def
    proof (intro ballI impI)
      fix j assume j: "j \<in> set (jobs d)" "jrun j = ident"
      show "\<exists>st. states (jname j) = Some st \<and> (jstatus j = job_status st \<or> st = Pending \<and> jstatus j = JobCanceled)"
        using R(3) [OF j(1)]
      proof
        assume "jstatus j = JobCanceled \<and> (\<exists>i \<in> set (jobs (mDb m)). job_key i = job_key j \<and> jstatus i = JobPending)"
        then obtain i where i: "i \<in> set (jobs (mDb m))" "jrun i = ident" "jname i = jname j" "jstatus i = JobPending" "jstatus j = JobCanceled"
          using j(2) by (auto simp: job_key_def)
        then obtain st where st: "states (jname j) = Some st" "JobPending = job_status st \<or> st = Pending" using mir by (fastforce simp: mirrors_def)
        then have "st = Pending" by (cases st) auto
        then show ?thesis using st(1) i(5) by blast
      qed (use mir j(2) in \<open>auto simp: mirrors_def\<close>)
    qed
    ultimately show ?thesis using ok p q(4) True by (auto simp: exec_ok_def)
  qed (use exec_frame [OF ok R(1)] in simp)
qed

lemma cancel_queued_inv:
  assumes inv: "manager_inv c m" and r: "CancelQueued now ident (mDb m) = Inr (u, d)"
  shows "manager_inv c (m\<lparr> mDb := d \<rparr>)"
proof (rule inv_transaction [OF inv])
  note fit = manager_invD(1) [OF inv] and R = CancelQueued_Inr [OF r]
  note dist = runs_fitD(1) [OF fit]
  show "runs_fit (cStore c) d" by (rule frame_runs_fit [OF fit R(1)]) (use R(2) [OF dist] in \<open>auto simp: statuses_fit_def\<close>)
  show "\<exists>q \<in> set (runs (mDb m)). rid q = rid x \<and> rstatus q = RunRunning" if "x \<in> set (runs d)" "rstatus x = RunRunning" for x
    using that R(1) R(2) [OF dist, of x] by (cases "rid x = ident") (auto simp: frame_def)
  fix ex assume ok: "exec_ok (cStore c) (mDb m) ex"
  have "rid (RunRow (exRun ex)) \<noteq> ident"
  proof
    assume "rid (RunRow (exRun ex)) = ident"
    then obtain q where "q \<in> set (runs (mDb m))" "rid q = ident" "rstatus q \<noteq> RunQueued" using ok by (auto simp: exec_ok_def busy_def)
    then show False using R(3) key_unique [OF dist] by metis
  qed
  then show "exec_ok (cStore c) d ex" using exec_frame [OF ok R(1)] by simp
qed

text \<open>A new run: the run of a compiled pipeline has a row for each of its jobs.\<close>

lemma create_inv:
  assumes inv: "manager_inv c m" and cr: "createRun now cr (mDb m) = Inr (u, d)"
    and desc: "parse_stored (cStore c) (CrYAML cr) = Inr cfg" "Compile cfg = Inr g" "CrJobs cr = graph_jobs g"
  shows "manager_inv c (m\<lparr> mDb := d \<rparr>)"
  using cr
proof (rule createRun_Inr)
  fix sn sns
  note fit = manager_invD(1) [OF inv]
  let ?new = "new_run_row now cr (SourceDigest sn)"
  assume fresh: "CrID cr \<notin> rid ` set (runs (mDb m))"
    and d: "d = (mDb m)\<lparr> snapshots := sns, runs := runs (mDb m) @ [?new], jobs := jobs (mDb m) @ map (new_job_row (CrID cr)) (CrJobs cr),
      deps := deps (mDb m) @ map (\<lambda>(a, b). \<lparr> drun = CrID cr, djob = a, dupstream = b \<rparr>) (CrDependencies cr) \<rparr>"
  have new: "rid ?new = CrID cr" "ryaml ?new = CrYAML cr" "rstatus ?new = RunQueued" by (simp_all add: new_run_row_def)
  have old: "j \<in> set (jobs d) \<and> jrun j = run \<longleftrightarrow> j \<in> set (jobs (mDb m)) \<and> jrun j = run" if "run \<noteq> CrID cr" for j run
    using that by (auto simp: d)
  have mine: "j \<in> set (jobs d) \<and> jrun j = CrID cr \<longleftrightarrow> j \<in> new_job_row (CrID cr) ` set (graph_jobs g)" for j
  proof -
    have "jrun j \<noteq> CrID cr" if "j \<in> set (jobs (mDb m))" using runs_fitD(2) [OF fit that] fresh by auto
    then show ?thesis by (auto simp: d desc(3))
  qed
  have olds: "described (cStore c) d r \<and> statuses_fit d r" if "r \<in> set (runs (mDb m))" for r
  proof -
    have ne: "rid r \<noteq> CrID cr" using that fresh by (metis imageI)
    then have "job_names d (rid r) = job_names (mDb m) (rid r)" using old by (auto simp: job_names_def)
    moreover have "statuses_fit d r" using runs_fitD(4) [OF fit that] old [OF ne] unfolding statuses_fit_def by blast
    ultimately show ?thesis using runs_fitD(3) [OF fit that] by (simp add: described_def)
  qed
  have "job_names d (CrID cr) = jname ` new_job_row (CrID cr) ` set (graph_jobs g)" using mine by (simp add: job_names_def)
  then have "job_names d (CrID cr) = set (Order g)" by (simp add: graph_jobs_def image_image)
  moreover have "jstatus j = JobPending" if "j \<in> set (jobs d)" "jrun j = CrID cr" for j using mine [of j] that by auto
  then have "statuses_fit d ?new" by (simp add: statuses_fit_def new)
  ultimately have "described (cStore c) d ?new \<and> statuses_fit d ?new" using desc(1,2) new by (auto simp: described_def)
  then have fit': "runs_fit (cStore c) d" using olds runs_fitD(1,2) [OF fit] fresh new(1) by (auto simp: runs_fit_def d)
  show ?thesis
  proof (rule inv_transaction [OF inv fit'])
    show "\<exists>q \<in> set (runs (mDb m)). rid q = rid r \<and> rstatus q = RunRunning" if "r \<in> set (runs d)" "rstatus r = RunRunning" for r
      using that new by (auto simp: d)
    fix ex assume ok: "exec_ok (cStore c) (mDb m) ex"
    then have "rid (RunRow (exRun ex)) \<noteq> CrID cr" using fresh by (metis exec_ok_def imageI)
    then have "mirrors (mDb m) (rid (RunRow (exRun ex))) st \<Longrightarrow> mirrors d (rid (RunRow (exRun ex))) st" for st
      using old by (auto simp: mirrors_def)
    then show "exec_ok (cStore c) d ex" using ok by (auto simp: exec_ok_def d)
  qed
qed

lemma same_inv:
  assumes inv: "manager_inv c m" and "runs d = runs (mDb m)" "jobs d = jobs (mDb m)"
  shows "manager_inv c (m\<lparr> mDb := d \<rparr>)"
  by (rule inv_transaction [OF inv same_runs_fit [OF manager_invD(1) [OF inv] assms(2,3)]])
    (use assms(2,3) in \<open>auto simp: exec_ok_def mirrors_def\<close>)

lemma manager_inv_fields [simp]:
  "manager_inv c (notify m) = manager_inv c m" "manager_inv c (m\<lparr> mBlobs := b \<rparr>) = manager_inv c m" "manager_inv c (m\<lparr> mFs := fs \<rparr>) = manager_inv c m"
  by (simp_all add: manager_inv_def notify_def)

lemma submit_request_Inr:
  assumes "submit_request c now ident later file n m = Inr (cr, stored)"
  obtains path data cfg g snap where "safePipelinePath c (mFs m) file = Inr path" "os_readfile (cPriv c) path (mFs m) = Inr data"
    "parse_stored (cStore c) data = Inr cfg" "Compile cfg = Inr g" "submit_snapshot c now later m = Inr (snap, stored)"
    "cr = \<lparr> CrID = ident, CrFile = file, CrSHA256 = cSha c data, CrWorkspace = path_text (cWorkspace c), CrYAML = data,
       CrMaxParallel = n, CrJobs = graph_jobs g, CrDependencies = graph_deps g, CrSnapshot = snap \<rparr>"
proof -
  obtain path where path: "safePipelinePath c (mFs m) file = Inr path" using assms by (cases "safePipelinePath c (mFs m) file") (auto simp: submit_request_def)
  then obtain data where data: "os_readfile (cPriv c) path (mFs m) = Inr data"
    using assms by (cases "os_readfile (cPriv c) path (mFs m)") (auto simp: submit_request_def)
  then obtain cfg where cfg: "parse_stored (cStore c) data = Inr cfg" using assms path by (cases "parse_stored (cStore c) data") (auto simp: submit_request_def)
  then obtain g where "Compile cfg = Inr g" using assms path data by (cases "Compile cfg") (auto simp: submit_request_def)
  then show thesis using that assms path data cfg by (auto simp: submit_request_def rbind_eq_Inr)
qed

lemma submit_Inr:
  assumes "submit_run c now ident later file n m = (Inr run, m')"
  obtains cr stored d where "submit_request c now ident later file n m = Inr (cr, stored)"
    "CreateRun_op (cStore c) now cr (mDb m) = Inr (run, d)" "m' = notify (m\<lparr> mDb := d, mBlobs := stored \<rparr>)" "0 < n"
proof -
  have n: "\<not> n < 1" using assms by (auto simp: submit_run_def)
  then obtain cr stored where q: "submit_request c now ident later file n m = Inr (cr, stored)"
    using assms by (cases "submit_request c now ident later file n m") (auto simp: submit_run_def)
  then obtain run' d where d: "CreateRun_op (cStore c) now cr (mDb m) = Inr (run', d)"
    using assms n by (cases "CreateRun_op (cStore c) now cr (mDb m)") (auto simp: submit_run_def)
  show thesis using that [OF q] assms d n q by (auto simp: submit_run_def)
qed

lemma submit_Inl:
  assumes "submit_run c now ident later file n m = (Inl e, m')"
  shows "\<exists>b. m' = m\<lparr> mBlobs := b \<rparr>"
proof (cases "n < 1 \<or> (\<exists>e. submit_request c now ident later file n m = Inl e)")
  case True
  then have "m' = m\<lparr> mBlobs := mBlobs m \<rparr>" using assms by (auto simp: submit_run_def split: if_splits)
  then show ?thesis by blast
next
  case False
  then obtain cr stored where q: "submit_request c now ident later file n m = Inr (cr, stored)" "\<not> n < 1"
    by (cases "submit_request c now ident later file n m") auto
  then show ?thesis using assms by (cases "CreateRun_op (cStore c) now cr (mDb m)") (auto simp: submit_run_def)
qed

lemma submit_inv:
  assumes inv: "manager_inv c m" and s: "manager_Submit c now ident later file0 n0 m = (r, m')"
  shows "manager_inv c m'"
proof -
  obtain path n where s': "submit_run c now ident later path n m = (r, m')" using s by (simp add: manager_Submit_def)
  show ?thesis
  proof (cases r)
    case (Inl e)
    then obtain b where "m' = m\<lparr> mBlobs := b \<rparr>" using submit_Inl s' by blast
    then show ?thesis using inv by simp
  next
    case (Inr run)
    with s' obtain cr stored d where e: "submit_request c now ident later path n m = Inr (cr, stored)"
      "CreateRun_op (cStore c) now cr (mDb m) = Inr (run, d)" "m' = notify (m\<lparr> mDb := d, mBlobs := stored \<rparr>)" by (metis submit_Inr)
    obtain cfg g where g: "parse_stored (cStore c) (CrYAML cr) = Inr cfg" "Compile cfg = Inr g" "CrJobs cr = graph_jobs g"
      by (rule submit_request_Inr [OF e(1)]) simp
    have "createRun now cr (mDb m) = Inr ((), d)" using e(2) by (auto simp: CreateRun_op_def rbind_eq_Inr)
    then have "manager_inv c (m\<lparr> mDb := d \<rparr>)" using create_inv [OF inv _ g] by blast
    then have "manager_inv c ((m\<lparr> mDb := d \<rparr>)\<lparr> mBlobs := stored \<rparr>)" by (simp only: manager_inv_fields)
    then show ?thesis using e(3) by simp
  qed
qed

lemma start_inv:
  assumes fit: "runs_fit (cStore c) d" and s: "manager_Start c now d fs stored = Inr m"
  shows "manager_inv c m"
proof -
  obtain d1 where d1: "RecoverInterrupted (cStore c) now d = Inr ((), d1)" "mDb m = d1" "mStage m = Parked"
    using s by (auto simp: manager_Start_def rbind_eq_Inr notify_def)
  note R = RecoverInterrupted_Inr [OF d1(1)]
  have "statuses_fit d1 r" if "r \<in> set (runs d1)" "rid r \<in> rid ` {r \<in> set (runs d). rstatus r = RunRunning}" for r
  proof -
    have "rstatus r = RunAborted" using R(2) [OF that(1)] that(2) key_unique [OF runs_fitD(1) [OF fit]] by auto
    then show ?thesis by (intro other_statuses_fit) simp
  qed
  then have "runs_fit (cStore c) d1" using frame_runs_fit [OF fit R(1)] by blast
  then show ?thesis using R(2) d1(2,3) by (fastforce simp: manager_inv_def)
qed

section \<open>The execution of a run\<close>

lemma advance_inv:
  assumes inv: "manager_inv c m" and maps: "go_maps (cStore c)" and ex: "mStage m = Executing ex"
    and step: "local_step (exRunner ex) (exGraph ex) (exLocal ex) l"
  shows "manager_inv c (advance c outage now ex l m)"
proof -
  let ?R = "rid (RunRow (exRun ex))"
  note ok = manager_invD(2) [OF inv ex]
  obtain d err where f: "fold (OnJobState c outage now ?R) (drop (length (observed (exLocal ex))) (observed l)) (mDb m, exErr ex) = (d, err)" by fastforce
  have fr: "frame {?R} (mDb m) d" "runs d = runs (mDb m)" using OnJobState_fold [of ?R "(mDb m, exErr ex)"] f by (metis fst_conv)+
  obtain r cfg where r: "r \<in> set (runs (mDb m))" "rid r = ?R" "busy r" "parse_stored (cStore c) (ryaml r) = Inr cfg" "Compile cfg = Inr (exGraph ex)"
    using ok by (auto simp: exec_ok_def)
  have fit: "runs_fit (cStore c) d" by (rule frame_busy [OF fr manager_invD(1) [OF inv] r(1-3)])
  have lr: "local_reachable (exRunner ex) (exGraph ex) l" using ok step local_reachable.step by (auto simp: exec_ok_def)
  have "mirrors d ?R (States l)" if "err = None"
  proof -
    have none: "exErr ex = None" using OnJobState_fold_err [of "(mDb m, exErr ex)"] f that by (metis snd_conv)
    then show ?thesis using step_mirrors [OF _ step stored_wf [OF maps r(4,5)], of "mDb m" ?R c outage now d] ok f that by (auto simp: exec_ok_def)
  qed
  then have "exec_ok (cStore c) d (ex\<lparr> exLocal := l, exErr := err \<rparr>)" using r fr(2) lr by (auto simp: exec_ok_def)
  then have ok': "exec_ok (cStore c) d (if err = exErr ex then ex\<lparr> exLocal := l, exErr := err \<rparr> else cancel_context (ex\<lparr> exLocal := l, exErr := err \<rparr>))"
    using cancel_context_ok by (cases "err = exErr ex") simp_all
  have "advance c outage now ex l m = m\<lparr> mDb := d, mStage := Executing (if err = exErr ex then ex\<lparr> exLocal := l, exErr := err \<rparr> else cancel_context (ex\<lparr> exLocal := l, exErr := err \<rparr>)) \<rparr>"
    unfolding advance_def f by (simp add: Let_def)
  then show ?thesis using fit ok' manager_invD(3) [OF inv ex] manager_invD(4) [OF inv] ex fr(2) by (auto simp: manager_inv_def split: if_splits)
qed

lemma finish_run_fits:
  assumes fit: "runs_fit (cStore c) (mDb m)" and st: "status \<noteq> RunRunning"
    and fits: "\<And>r. rid r = ident \<Longrightarrow> rstatus r = status \<Longrightarrow> statuses_fit (mDb m) r"
    and run: "\<And>r. r \<in> set (runs (mDb m)) \<Longrightarrow> rstatus r = RunRunning \<Longrightarrow> rid r \<in> set (mLost m) \<or> rid r = ident"
    and m'_def: "m' = finish_run c now lost ident status message m"
  shows "runs_fit (cStore c) (mDb m') \<and> (\<forall>r \<in> set (runs (mDb m')). rstatus r = RunRunning \<longrightarrow> rid r \<in> set (mLost m'))"
proof (cases "\<exists>d. FinishRun (cStore c) now ident status message (mDb m) = Inr ((), d) \<and> \<not> lost")
  case True
  then obtain d where d: "FinishRun (cStore c) now ident status message (mDb m) = Inr ((), d)" and "\<not> lost" by blast
  then have m': "m' = m\<lparr> mDb := d \<rparr>" by (simp add: m'_def finish_run_def)
  note F = FinishRun_Inr [OF d]
  have "statuses_fit d r" if r: "r \<in> set (runs d)" "rid r = ident" for r
  proof -
    obtain q where q: "q \<in> set (runs (mDb m))" "if rstatus q = RunRunning then rstatus r = status else r = q" using F(3) [OF r] by blast
    have "statuses_fit (mDb m) r" using q fits [OF r(2)] runs_fitD(4) [OF fit] by (cases "rstatus q = RunRunning") auto
    then show ?thesis using F(2) by (simp add: statuses_fit_def)
  qed
  then have "runs_fit (cStore c) d" using frame_runs_fit [OF fit F(1)] by blast
  moreover have "rid r \<in> set (mLost m)" if r: "r \<in> set (runs d)" "rstatus r = RunRunning" for r
  proof (cases "rid r = ident")
    case True
    then show ?thesis using F(3) [OF r(1) True] r(2) st by (auto split: if_splits)
  next
    case False
    then show ?thesis using run [of r] r F(1) by (auto simp: frame_def)
  qed
  ultimately show ?thesis by (simp add: m')
next
  case False
  then have "m' = m\<lparr> mLost := mLost m @ [ident] \<rparr>" by (auto simp: m'_def finish_run_def split: sum.splits prod.splits)
  then show ?thesis using fit run by auto
qed

lemma leave_inv:
  assumes "runs_fit (cStore c) (mDb m)" and "\<forall>r \<in> set (runs (mDb m)). rstatus r = RunRunning \<longrightarrow> rid r \<in> set (mLost m)"
  shows "manager_inv c (leave_execution c dir m)"
  using assms by (auto simp: manager_inv_def leave_execution_def notify_def split: option.splits prod.splits)

text \<open>What the final states of the scheduler mean for the rows.\<close>

lemma outcome_fits:
  assumes maps: "go_maps (cStore c)" and fit: "runs_fit (cStore c) d" and ok: "exec_ok (cStore c) d ex" and ret: "runPhase (exLocal ex) = Returned"
    and r: "rid r = rid (RunRow (exRun ex))" "rstatus r = fst (run_outcome ex)"
  shows "statuses_fit d r"
proof -
  let ?R = "rid (RunRow (exRun ex))" and ?g = "exGraph ex" and ?l = "exLocal ex"
  obtain q cfg where q: "q \<in> set (runs d)" "rid q = ?R" "parse_stored (cStore c) (ryaml q) = Inr cfg" "Compile cfg = Inr ?g"
    using ok by (auto simp: exec_ok_def)
  have names: "job_names d ?R = set (Order ?g)" using runs_fitD(3) [OF fit q(1)] q(2-4) by (auto simp: described_def)
  note wf = stored_wf [OF maps q(3,4)]
  have lr: "local_reachable (exRunner ex) ?g ?l" using ok by (simp add: exec_ok_def)
  have all: "\<exists>x. States ?l n = Some x \<and> terminal_state x" if "n \<in> set (Order ?g)" for n
    using returned_no_goroutines(2) [OF local_reachable_inv [OF lr wf] wf ret] that by blast
  have row: "jname j \<in> set (Order ?g)" if "j \<in> set (jobs d)" "jrun j = ?R" for j using that names by (auto simp: job_names_def)
  consider (other) "rstatus r \<notin> {RunQueued, RunPassed, RunFailed}"
    | (passed) "rstatus r = RunPassed" "exErr ex = None" "Succeeded ?g ?l" | (failed) "rstatus r = RunFailed" "exErr ex = None" "\<not> Interrupted ?l" "\<not> InternalError ?l" "\<not> Succeeded ?g ?l"
    using r(2) by (auto simp: run_outcome_def split: option.splits if_splits)
  then show ?thesis
  proof cases
    case passed
    have "jstatus j = JobPassed" if j: "j \<in> set (jobs d)" "jrun j = ?R" for j
    proof -
      obtain st where st: "States ?l (jname j) = Some st" "jstatus j = job_status st \<or> st = Pending" using ok passed(2) j by (auto simp: exec_ok_def mirrors_def)
      have "jname j \<in> fst ` set (Nodes ?g)" using row [OF j] wf_graphD(2) [OF wf] by simp
      then have "st = Passed" using passed(3) st(1) by (auto simp: Succeeded_def list_all_iff)
      then show ?thesis using st(2) by simp
    qed
    then show ?thesis using passed(1) r(1) by (simp add: statuses_fit_def)
  next
    case failed
    have end_row: "\<exists>st. States ?l (jname j) = Some st \<and> terminal_state st \<and> jstatus j = job_status st" if j: "j \<in> set (jobs d)" "jrun j = ?R" for j
    proof -
      obtain st where st: "States ?l (jname j) = Some st" "jstatus j = job_status st \<or> st = Pending" using ok failed(2) j by (auto simp: exec_ok_def mirrors_def)
      then show ?thesis using all [OF row [OF j]] by (auto simp: terminal_state_def)
    qed
    have ended_status: "ended (job_status st)" if "terminal_state st" for st using that by (cases st) (auto simp: ended_def terminal_state_def)
    obtain n where n: "n \<in> fst ` set (Nodes ?g)" "States ?l n \<noteq> Some Passed" using failed(3-5) by (force simp: Succeeded_def list_all_iff)
    then have "n \<in> job_names d ?R" using names wf_graphD(2) [OF wf] by simp
    then obtain j where j: "j \<in> set (jobs d)" "jrun j = ?R" "jname j = n" by (auto simp: job_names_def)
    obtain st where st: "States ?l n = Some st" "jstatus j = job_status st" using end_row [OF j(1,2)] j(3) by auto
    then have "jstatus j \<noteq> JobPassed" using n(2) by (cases st) auto
    moreover have "ended (jstatus i)" if "i \<in> set (jobs d)" "jrun i = ?R" for i using end_row [OF that] ended_status by metis
    ultimately show ?thesis using failed(1) r(1) j(1,2) by (auto simp: statuses_fit_def)
  qed (rule other_statuses_fit)
qed

lemma mark_failed_frame: "frame {run} d (fold (mark_failed c now run message) names d) \<and> runs (fold (mark_failed c now run message) names d) = runs d"
proof (induction names arbitrary: d)
  case (Cons n names)
  have "frame {run} d (mark_failed c now run message n d) \<and> runs (mark_failed c now run message n d) = runs d"
    using UpdateJob_frame by (fastforce simp: mark_failed_def split: sum.splits prod.splits)
  then show ?case using Cons.IH [of "mark_failed c now run message n d"] frame_trans2 by fastforce
qed simp

lemma outcome_not_running: "fst (run_outcome ex) \<noteq> RunRunning"
  by (auto simp: run_outcome_def split: option.splits)

lemma conclude_inv:
  assumes inv: "manager_inv c m" and maps: "go_maps (cStore c)" and ex: "mStage m = Executing ex" and ret: "runPhase (exLocal ex) = Returned"
  shows "manager_inv c (conclude c now lost ex m)"
proof -
  let ?R = "rid (RunRow (exRun ex))"
  note ok = manager_invD(2) [OF inv ex] and fit = manager_invD(1) [OF inv]
  obtain status message where o: "run_outcome ex = (status, message)" by fastforce
  define names where "names = (if exErr ex = None \<and> InternalError (exLocal ex) then filter (\<lambda>n. States (exLocal ex) n = Some Failed) (Order (exGraph ex)) else [])"
  define d where "d = fold (mark_failed c now ?R message) names (mDb m)"
  have fr: "frame {?R} (mDb m) d" "runs d = runs (mDb m)" using mark_failed_frame by (simp_all add: d_def)
  obtain r where r: "r \<in> set (runs (mDb m))" "rid r = ?R" "busy r" using ok by (auto simp: exec_ok_def)
  have fit': "runs_fit (cStore c) d" by (rule frame_busy [OF fr fit r])
  have "statuses_fit d r" if "rid r = ?R" "rstatus r = status" for r
  proof (cases "exErr ex = None \<and> InternalError (exLocal ex)")
    case True
    then have "status = RunError" using o by (auto simp: run_outcome_def)
    then show ?thesis using that(2) by (intro other_statuses_fit) simp
  next
    case False
    then have "d = mDb m" by (simp only: d_def names_def if_False fold_simps)
    then show ?thesis using outcome_fits [OF maps fit ok ret that(1)] that(2) o by simp
  qed
  moreover have "rid x \<in> set (mLost m) \<or> rid x = ?R" if "x \<in> set (runs d)" "rstatus x = RunRunning" for x
    using manager_invD(4) [OF inv] that fr(2) ex by auto
  moreover have "conclude c now lost ex m = leave_execution c (exDir ex) (finish_run c now lost ?R status message (m\<lparr> mDb := d \<rparr>))"
    by (simp add: conclude_def o Let_def d_def names_def)
  moreover have "status \<noteq> RunRunning" using outcome_not_running [of ex] o by simp
  ultimately show ?thesis using leave_inv finish_run_fits [of c "m\<lparr> mDb := d \<rparr>" status ?R] fit' by (auto simp del: finish_run_def)
qed

lemma begin_inv:
  assumes inv: "manager_inv c m" and maps: "go_maps (cStore c)" and idle: "mStage m = Claiming"
    and claim: "ClaimNextQueuedRun (cStore c) locked now (mDb m) = Inr (Some run, d)"
  shows "manager_inv c (begin_execution c setup now' lost run (m\<lparr> mDb := d \<rparr>))"
proof -
  note fit = manager_invD(1) [OF inv]
  obtain p where p: "p \<in> set (runs (mDb m))" "rstatus p = RunQueued" "frame {rid p} (mDb m) d" "jobs d = jobs (mDb m)"
    "RunRow run = p\<lparr> rstatus := RunRunning, rstarted_at := Some now \<rparr>" "RunRow run \<in> set (runs d)"
    by (rule Claim_Inr [OF claim runs_fitD(1) [OF fit]])
  let ?R = "rid (RunRow run)"
  have R: "?R = rid p" "ryaml (RunRow run) = ryaml p" "busy (RunRow run)" using p(5) by (simp_all add: busy_def)
  have tags: "map run_tag (runs d) = map run_tag (runs (mDb m))" using p(3) by (simp add: frame_def)
  have "map rid xs = map fst (map run_tag xs)" for xs by (simp add: run_tag_def)
  then have dist: "distinct (map rid (runs d))" using runs_fitD(1) [OF fit] tags by metis
  have mine: "r = RunRow run" if "r \<in> set (runs d)" "rid r = rid p" for r using key_unique [OF dist that(1) p(6)] that(2) R(1) by simp
  have fit': "runs_fit (cStore c) d" by (rule frame_runs_fit [OF fit p(3)]) (use mine busy_statuses_fit R(3) in blast)
  have others: "rid r \<in> set (mLost m)" if "r \<in> set (runs d)" "rstatus r = RunRunning" "rid r \<noteq> rid p" for r
    using manager_invD(4) [OF inv, of r] that p(3) idle by (auto simp: frame_def)
  obtain dir source fs1 where dir: "execution_dir c run (mBlobs m) (mFs m) = (dir, source, fs1)" by (metis prod_cases3)
  let ?m = "m\<lparr> mDb := d, mActive := ?R, mHasCancel := True, mFs := fs1 \<rparr>"
  show ?thesis
  proof (cases "rbind source (\<lambda>_. execution_parts c setup run)")
    case (Inl message)
    then have b: "begin_execution c setup now' lost run (m\<lparr> mDb := d \<rparr>) = leave_execution c dir (finish_run c now' lost ?R RunError (Some message) ?m)"
      using dir by (simp add: begin_execution_def Let_def)
    have "runs_fit (cStore c) (mDb (finish_run c now' lost ?R RunError (Some message) ?m)) \<and>
      (\<forall>r \<in> set (runs (mDb (finish_run c now' lost ?R RunError (Some message) ?m))). rstatus r = RunRunning \<longrightarrow> rid r \<in> set (mLost (finish_run c now' lost ?R RunError (Some message) ?m)))"
      by (rule finish_run_fits [OF _ _ _ _ refl]) (use fit' others R(1) in \<open>auto intro: other_statuses_fit\<close>)
    then show ?thesis unfolding b using leave_inv by blast
  next
    case (Inr rg)
    obtain r g where rg: "rg = (r, g)" by (cases rg)
    have "execution_parts c setup run = Inr (r, g)" using Inr rg by (cases source) simp_all
    then obtain cfg where cfg: "parse_stored (cStore c) (ryaml p) = Inr cfg" "Compile cfg = Inr g"
      unfolding R(2) [symmetric] by (auto simp: execution_parts_def rbind_eq_Inr split: sum.splits if_splits option.splits)
    note wf = stored_wf [OF maps cfg]
    have names: "job_names d ?R = set (Order g)" using runs_fitD(3) [OF fit' p(6)] cfg R(2) by (auto simp: described_def)
    have "mirrors d ?R (States (init_run g))" unfolding mirrors_def
    proof (intro ballI impI)
      fix j assume j: "j \<in> set (jobs d)" "jrun j = ?R"
      have "jname j \<in> fst ` set (Nodes g)" using names j wf_graphD(2) [OF wf] by (auto simp: job_names_def)
      then have "States (init_run g) (jname j) = Some Pending" by (simp add: states_init map_of_eq_None_iff)
      moreover have "jstatus j = JobPending" using runs_fitD(4) [OF fit p(1)] p(2,4) j R(1) by (auto simp: statuses_fit_def)
      ultimately show "\<exists>st. States (init_run g) (jname j) = Some st \<and> (jstatus j = job_status st \<or> st = Pending \<and> jstatus j = JobCanceled)" by simp
    qed
    then have "exec_ok (cStore c) d \<lparr> exRun = run, exRunner = r, exGraph = g, exLocal = init_run g, exErr = None, exDir = dir \<rparr>"
      using p(6) R(2,3) cfg local_reachable.init by (auto simp: exec_ok_def)
    moreover have "begin_execution c setup now' lost run (m\<lparr> mDb := d \<rparr>) =
      ?m\<lparr> mStage := Executing \<lparr> exRun = run, exRunner = r, exGraph = g, exLocal = init_run g, exErr = None, exDir = dir \<rparr> \<rparr>"
      using dir Inr rg by (simp add: begin_execution_def Let_def)
    ultimately show ?thesis using fit' others R(1) by (auto simp: manager_inv_def)
  qed
qed

lemma manager_step_inv:
  assumes inv: "manager_inv c m" and maps: "go_maps (cStore c)" and step: "manager_step c m m'"
  shows "manager_inv c m'"
  using step
proof (cases rule: manager_step.cases)
  case (wake)
  then show ?thesis using inv by (auto simp: manager_inv_def)
next
  case (claim_none locked now d)
  then show ?thesis using inv by (auto simp: manager_inv_def)
next
  case claim_error
  then show ?thesis using inv by (auto simp: manager_inv_def)
next
  case (interrupt ex)
  then show ?thesis using inv cancel_context_ok manager_invD [OF inv] by (auto simp: manager_inv_def)
next
  case (storage d)
  then show ?thesis using same_inv [OF inv] storage_same by blast
next
  case (restart now)
  then show ?thesis using start_inv manager_invD(1) [OF inv] by blast
qed (use inv maps in \<open>auto intro: begin_inv advance_inv conclude_inv submit_inv request_inv cancel_queued_inv create_inv\<close>)

lemma manager_reachable_inv:
  assumes "manager_reachable c m" and "go_maps (cStore c)"
  shows "manager_inv c m"
  using assms(1)
proof (induction rule: manager_reachable.induct)
  case (start now fs stored m)
  have "runs_fit (cStore c) empty_db" by (simp add: runs_fit_def empty_db_def)
  then show ?case using start start_inv by blast
qed (use assms(2) manager_step_inv in blast)

end
