(* ===== verification/Manager_Properties.thy ===== *)
theory Manager_Properties
  imports Manager_Safety Sample
begin

text \<open>
  Properties of the control plane of local mode: what submitting creates, that the store tells the truth about runs, and a
  cancellation that is recorded as a failure.
\<close>

section \<open>A history\<close>

text \<open>A run with one job is created and claimed, its cancellation is requested while the job runs, and the scheduler
  receives the canceled job before it looks at its context.\<close>

definition solo_pipeline :: Pipeline where
  "solo_pipeline = \<lparr> Version = 1, Jobs = [(''a'', sample_plain [])] \<rparr>"

definition solo_graph :: Graph where
  "solo_graph = \<lparr> Nodes = [(''a'', \<lparr> NodeName = ''a'', NodeJob = sample_plain [], NodeNeeds = [], Dependents = [] \<rparr>)], Order = [''a''] \<rparr>"

lemma solo_validates: "Validate solo_pipeline = Inr ()"
  by (simp add: Validate_def solo_pipeline_def sorted_names_def validate_job_def sample_plain_def
      image_ok_def validateArtifacts_def validateCache_def alnum_def check_def text_evals)

lemma solo_compiles: "Compile solo_pipeline = Inr solo_graph"
  by code_simp

definition solo_control :: control where
  "solo_control = \<lparr> cStore = sample_store\<lparr> decode := (\<lambda>_. Inr solo_pipeline) \<rparr>, cPriv = False, cWorkspace = [''w''], cSnapshots = None,
     cWorkspaceRoot = [], cArtifacts = False, cCache = False, cSha = (\<lambda>_. ''''), cEncode = (\<lambda>_. ''''), cPack = (\<lambda>_. ''''),
     cUnpack = (\<lambda>_. Inl ''''), cMarker = (\<lambda>_. ''''), cReadMarker = (\<lambda>_. None) \<rparr>"

lemma solo_parse: "parse_stored (cStore solo_control) y = Inr solo_pipeline"
  by (simp add: parse_stored_def ParseBytes_def sample_store_def solo_control_def solo_validates)

lemma solo_maps: "go_maps (cStore solo_control)"
  by (simp add: go_maps_def solo_control_def sample_store_def solo_pipeline_def)

definition solo_create :: CreateRun where
  "solo_create = sample_create\<lparr> CrJobs := [(''a'', None)], CrDependencies := [] \<rparr>"

definition solo_row :: "RunStatus \<Rightarrow> time option \<Rightarrow> run_row" where
  "solo_row st cancel = (new_run_row 0 sample_create sample_digest)\<lparr> rstatus := st, rstarted_at := Some 1, rcancel_at := cancel,
     rfinished_at := (if st = RunRunning then None else Some 9) \<rparr>"

definition solo_job :: "JobStatus \<Rightarrow> job_row" where
  "solo_job st = (new_job_row ''r'' (''a'', None))\<lparr> jstatus := st, jstarted_at := (if st = JobPending then None else Some 2),
     jfinished_at := (if st = JobCanceled then Some 5 else None) \<rparr>"

definition solo_db :: "run_row \<Rightarrow> job_row \<Rightarrow> db" where
  "solo_db r j = empty_db\<lparr> snapshots := [sample_snapshot], runs := [r], jobs := [j] \<rparr>"

definition solo_runner :: Runner where
  "solo_runner = \<lparr> hasJobExecutor = True, hasArtifacts = True, hasCache = True, hasLogs = True, MaxParallel = 2 \<rparr>"

definition solo_exec :: "local_run \<Rightarrow> execution" where
  "solo_exec l = \<lparr> exRun = (scanRun (solo_db (solo_row RunRunning None) (solo_job JobPending)) (solo_row RunRunning None))\<lparr> RunJobs := [solo_job JobPending] \<rparr>,
     exRunner = solo_runner, exGraph = solo_graph, exLocal = l, exErr = None, exDir = None \<rparr>"

definition solo_state :: "run_row \<Rightarrow> job_row \<Rightarrow> stage \<Rightarrow> nat \<Rightarrow> mstate" where
  "solo_state r j st n = \<lparr> mDb = solo_db r j, mFs = [], mBlobs = (\<lambda>_. None), mWake = n \<noteq> 1, mSignal = n,
     mActive = (case st of Executing _ \<Rightarrow> ''r'' | _ \<Rightarrow> ''''), mHasCancel = (case st of Executing _ \<Rightarrow> True | _ \<Rightarrow> False), mStage = st, mLost = [] \<rparr>"

definition solo_running :: local_run where
  "solo_running = \<lparr> States = [''a'' \<mapsto> Running], active = 1, terminal = 0, canceling = False, Interrupted = False, InternalError = False,
     goroutines = [''a''], completions = [], observed = [(''a'', Some Pending, Running)], ctxDone = False, runPhase = Waiting \<rparr>"

definition solo_ended :: local_run where
  "solo_ended = solo_running\<lparr> ctxDone := True, goroutines := [], completions := [(''a'', Canceled, False)] \<rparr>"

definition solo_received :: local_run where
  "solo_received = solo_ended\<lparr> States := [''a'' \<mapsto> Canceled], active := 0, terminal := 1, completions := [],
     observed := [(''a'', Some Pending, Running), (''a'', Some Running, Canceled)], runPhase := LoopHead \<rparr>"

lemmas solo_evals = solo_control_def solo_db_def solo_row_def solo_job_def solo_state_def sample_create_def sample_snapshot_def new_run_row_def
  new_job_row_def empty_db_def exec_jobs_def exec_runs_def exec_artifacts_def one_row_def any_rows_def job_check_def job_lease_consistent_def
  run_check_def remote_lease_consistent_def coalesce_def

lemma solo_started:
  "manager_reachable solo_control (solo_state (new_run_row 0 sample_create sample_digest) (solo_job JobPending) Claiming 1)"
proof -
  let ?r = "new_run_row 0 sample_create sample_digest"
  let ?m0 = "(solo_state ?r (solo_job JobPending) Parked 1)\<lparr> mDb := empty_db, mWake := True \<rparr>"
  have "manager_Start solo_control 0 empty_db [] (\<lambda>_. None) = Inr ?m0"
    by (simp add: manager_Start_def RecoverInterrupted_def notify_def solo_evals)
  then have r0: "manager_reachable solo_control ?m0" by (rule manager_reachable.start)
  have "createRun 0 solo_create (mDb ?m0) = Inr ((), solo_db ?r (solo_job JobPending))"
    using sample_digest_hex
    by (simp add: createRun_def solo_create_def insert_snapshot_def snapshot_check_def same_snapshot_def insert_run_def job_key_def solo_evals)
  moreover have "CrJobs solo_create = graph_jobs solo_graph"
    by (simp add: solo_create_def graph_jobs_def graph_job_def solo_graph_def sample_plain_def)
  ultimately have "manager_step solo_control ?m0 (?m0\<lparr> mDb := solo_db ?r (solo_job JobPending) \<rparr>)"
    using manager_step.delivered [OF solo_parse solo_compiles] by blast
  with r0 have r1: "manager_reachable solo_control (?m0\<lparr> mDb := solo_db ?r (solo_job JobPending) \<rparr>)" by (rule manager_reachable.step)
  show ?thesis
    using manager_reachable.step [OF r1 manager_step.wake] by (simp add: solo_state_def)
qed

lemma solo_claimed:
  "manager_reachable solo_control (solo_state (solo_row RunRunning None) (solo_job JobPending) (Executing (solo_exec (init_run solo_graph))) 1)"
proof -
  let ?m = "solo_state (new_run_row 0 sample_create sample_digest) (solo_job JobPending) Claiming 1"
  let ?d = "solo_db (solo_row RunRunning None) (solo_job JobPending)" and ?run = "exRun (solo_exec (init_run solo_graph))"
  have claim: "ClaimNextQueuedRun (cStore solo_control) (\<lambda>_. False) 1 (mDb ?m) = Inr (Some ?run, ?d)"
    by (simp add: ClaimNextQueuedRun_def first_by_def GetRun_def scanRun_def solo_exec_def solo_evals)
  have row: "RunRow ?run = solo_row RunRunning None" by (simp add: solo_exec_def scanRun_def split: option.splits)
  have parts: "execution_parts solo_control (\<lambda>_. None) ?run = Inr (solo_runner, solo_graph)"
    using solo_parse solo_compiles unfolding execution_parts_def row
    by (simp add: solo_pipeline_def sample_plain_def) (simp add: solo_control_def solo_runner_def solo_row_def new_run_row_def sample_create_def)
  have dir: "execution_dir solo_control ?run b fs = (None, Inr ''w'', fs)" for b fs
    unfolding execution_dir_def row by (simp add: solo_evals)
  have "begin_execution solo_control (\<lambda>_. None) 0 False ?run (?m\<lparr> mDb := ?d \<rparr>) =
    solo_state (solo_row RunRunning None) (solo_job JobPending) (Executing (solo_exec (init_run solo_graph))) 1"
    unfolding begin_execution_def dir prod.case Let_def rbind_Inr parts row
    by (simp add: solo_state_def) (simp add: solo_exec_def solo_row_def new_run_row_def sample_create_def)
  then show ?thesis
    using manager_reachable.step [OF solo_started manager_step.claim [OF _ claim, of "\<lambda>_. None" 0 False]] by (simp add: solo_state_def)
qed

lemma solo_head: "loop_head solo_runner solo_graph (init_run solo_graph) = solo_running"
proof -
  have init: "init_run solo_graph = \<lparr> States = [''a'' \<mapsto> Pending], active = 0, terminal = 0, canceling = False, Interrupted = False, InternalError = False,
     goroutines = [], completions = [], observed = [], ctxDone = False, runPhase = LoopHead \<rparr>"
    by (auto simp: init_run_def solo_graph_def)
  show ?thesis
    unfolding loop_head_def init
    by (simp add: note_cancel_def schedule_def hasFailedDependency_def needs_list_def start_jobs.simps nextReadyJob_def job_ready_def
        max_parallel_def start_job_def change_def Let_def solo_graph_def solo_runner_def solo_running_def)
qed

text \<open>A goroutine whose step was killed by the cancellation.\<close>

definition killed_env :: job_env where
  "killed_env calls c = \<lparr> jrErr = None, jrResult = \<lparr> ExitCode = - 1, Err = Some ''signal: killed'' \<rparr>, jrLogErr = False, jrCanceled = True \<rparr>"

lemma solo_killed: "\<exists>calls. run_state (executeJob solo_runner killed_env nd) [] = ((Canceled, False), calls)"
  by (simp add: executeJob_def execute_body_def finishJobExecution_def finishJob_def solo_runner_def killed_env_def)

lemma solo_step:
  assumes "manager_reachable solo_control (solo_state r j (Executing (solo_exec l)) n)"
    and "local_step solo_runner solo_graph l l'" and "ctxDone l' = ctxDone l"
    and "fold (OnJobState solo_control (\<lambda>_. None) now ''r'') (drop (length (observed l)) (observed l')) (solo_db r j, None) = (solo_db r j', None)"
  shows "manager_reachable solo_control (solo_state r j' (Executing (solo_exec l')) n)"
proof -
  have run: "rid (RunRow (exRun (solo_exec l))) = ''r''" by (simp add: solo_exec_def scanRun_def solo_row_def new_run_row_def sample_create_def split: option.splits)
  have f: "fold (OnJobState solo_control (\<lambda>_. None) now (rid (RunRow (exRun (solo_exec l))))) (drop (length (observed (exLocal (solo_exec l)))) (observed l'))
      (mDb (solo_state r j (Executing (solo_exec l)) n), exErr (solo_exec l)) = (solo_db r j', None)"
    unfolding run using assms(4) by (simp add: solo_exec_def solo_state_def)
  have "advance solo_control (\<lambda>_. None) now (solo_exec l) l' (solo_state r j (Executing (solo_exec l)) n) = solo_state r j' (Executing (solo_exec l')) n"
    unfolding advance_def f by (simp add: Let_def) (simp add: solo_exec_def solo_state_def)
  moreover have "local_step (exRunner (solo_exec l)) (exGraph (solo_exec l)) (exLocal (solo_exec l)) l'" "ctxDone l' = ctxDone (exLocal (solo_exec l))"
    using assms(2,3) by (simp_all add: solo_exec_def)
  ultimately show ?thesis
    using manager_reachable.step [OF assms(1) manager_step.advance [of _ "solo_exec l" l' solo_control "\<lambda>_. None" now]] by (simp add: solo_state_def)
qed

lemma solo_interrupted:
  "manager_reachable solo_control (solo_state (solo_row RunRunning (Some 4)) (solo_job JobRunning) (Executing (solo_exec (solo_running\<lparr> ctxDone := True \<rparr>))) 1)"
proof -
  let ?row = "solo_row RunRunning" and ?job = "solo_job"
  have "runPhase (init_run solo_graph) = LoopHead" by (simp add: init_run_def)
  from local_step.head [OF this, of solo_runner solo_graph] have "local_step solo_runner solo_graph (init_run solo_graph) solo_running" unfolding solo_head .
  then have s1: "manager_reachable solo_control (solo_state (?row None) (?job JobRunning) (Executing (solo_exec solo_running)) 1)"
    by (rule solo_step [OF solo_claimed, where now = 2])
      (simp_all add: init_run_def solo_running_def OnJobState_def UpdateJob_def finished_statuses_def solo_evals)
  have "RequestCancel (cStore solo_control) 4 ''r'' (mDb (solo_state (?row None) (?job JobRunning) (Executing (solo_exec solo_running)) 1)) =
      Inr (RunRunning, solo_db (?row (Some 4)) (?job JobRunning))"
    by (simp add: RequestCancel_def finalizeRun_def solo_evals)
  from manager_reachable.step [OF s1 manager_step.request [OF this]]
  have s2: "manager_reachable solo_control (solo_state (?row (Some 4)) (?job JobRunning) (Executing (solo_exec solo_running)) 1)" by (simp add: solo_state_def)
  from manager_reachable.step [OF this manager_step.interrupt]
  show ?thesis by (simp add: solo_state_def cancel_context_def solo_exec_def solo_running_def)
qed

lemma solo_returned:
  "manager_reachable solo_control (solo_state (solo_row RunRunning (Some 4)) (solo_job JobCanceled) (Executing (solo_exec (solo_received\<lparr> runPhase := Returned \<rparr>))) 1)"
proof -
  let ?row = "solo_row RunRunning" and ?job = "solo_job"
  obtain nd where nd: "map_of (Nodes solo_graph) ''a'' = Some nd" by (simp add: solo_graph_def)
  obtain calls where k: "run_state (executeJob solo_runner killed_env nd) [] = ((Canceled, False), calls)" using solo_killed by blast
  have "local_step solo_runner solo_graph (solo_running\<lparr> ctxDone := True \<rparr>) solo_ended"
    using local_step.finish [OF _ nd _ k, of "solo_running\<lparr> ctxDone := True \<rparr>"] by (simp add: solo_ended_def solo_running_def)
  then have s4: "manager_reachable solo_control (solo_state (?row (Some 4)) (?job JobRunning) (Executing (solo_exec solo_ended)) 1)"
    by (rule solo_step [OF solo_interrupted, where now = 5]) (simp_all add: solo_ended_def solo_running_def)
  have "local_step solo_runner solo_graph solo_ended solo_received"
    using local_step.receive [of solo_ended "(''a'', Canceled, False)" "[]"]
    by (simp add: receive_def change_def solo_ended_def solo_running_def solo_received_def)
  then have s5: "manager_reachable solo_control (solo_state (?row (Some 4)) (?job JobCanceled) (Executing (solo_exec solo_received)) 1)"
    by (rule solo_step [OF s4, where now = 5])
      (simp_all add: solo_received_def solo_ended_def solo_running_def OnJobState_def UpdateJob_def finished_statuses_def solo_evals)
  have "local_step solo_runner solo_graph solo_received (solo_received\<lparr> runPhase := Returned \<rparr>)"
    using local_step.head [of solo_received solo_runner solo_graph] by (simp add: loop_head_def solo_graph_def solo_received_def)
  then show ?thesis by (rule solo_step [OF s5, where now = 5]) (simp_all add: solo_received_def)
qed

lemma solo_failed: "manager_reachable solo_control (solo_state (solo_row RunFailed (Some 4)) (solo_job JobCanceled) Claiming 2)"
proof -
  let ?ex = "solo_exec (solo_received\<lparr> runPhase := Returned \<rparr>)"
  let ?m = "solo_state (solo_row RunRunning (Some 4)) (solo_job JobCanceled) (Executing ?ex) 1"
  have run: "rid (RunRow (exRun ?ex)) = ''r''" by (simp add: solo_exec_def scanRun_def solo_row_def new_run_row_def sample_create_def split: option.splits)
  have out: "run_outcome ?ex = (RunFailed, None)"
    by (simp add: run_outcome_def solo_exec_def solo_received_def solo_ended_def solo_running_def Succeeded_def solo_graph_def)
  have ie: "InternalError (exLocal ?ex) = False" "exErr ?ex = None" "exDir ?ex = None"
    by (simp_all add: solo_exec_def solo_received_def solo_ended_def solo_running_def)
  have "finish_run solo_control 9 False ''r'' RunFailed None ?m = ?m\<lparr> mDb := solo_db (solo_row RunFailed (Some 4)) (solo_job JobCanceled) \<rparr>"
    by (simp add: finish_run_def FinishRun_def expire_artifacts_of_def solo_evals)
  then have "conclude solo_control 9 False ?ex ?m = solo_state (solo_row RunFailed (Some 4)) (solo_job JobCanceled) Claiming 2"
    unfolding conclude_def out run ie by (simp add: leave_execution_def notify_def solo_state_def Let_def)
  moreover have "runPhase (exLocal ?ex) = Returned" by (simp add: solo_exec_def)
  ultimately show ?thesis using manager_reachable.step [OF solo_returned manager_step.conclude [of _ ?ex solo_control 9 False]] by (simp add: solo_state_def)
qed

section \<open>Properties\<close>



text \<open>C12. While a run is executed and its observer has had no error, the store follows the scheduler: every job row of the run has the
  status of the job's state, except that a job still pending may already be stored as canceled by a requested cancellation.
  When the scheduler has returned there is no exception.\<close>

theorem store_follows_scheduler:
  assumes "\<forall>data cfg. decode (cStore c) data = Inr cfg \<longrightarrow> distinct (map fst (Jobs cfg))"
    and "manager_reachable c m" and "mStage m = Executing ex" and "exErr ex = None"
    and "j \<in> set (jobs (mDb m))" and "jrun j = rid (RunRow (exRun ex))"
  shows "\<exists>st. States (exLocal ex) (jname j) = Some st \<and>
      (jstatus j = job_status st \<or> runPhase (exLocal ex) \<noteq> Returned \<and> st = Pending \<and> jstatus j = JobCanceled)"
proof -
  have inv: "manager_inv c m" and maps: "go_maps (cStore c)" using manager_reachable_inv [OF assms(2)] assms(1) by (simp_all add: go_maps_def)
  note ok = manager_invD(2) [OF inv assms(3)]
  obtain st where st: "States (exLocal ex) (jname j) = Some st" "jstatus j = job_status st \<or> st = Pending \<and> jstatus j = JobCanceled"
    using ok assms(4-6) by (auto simp: exec_ok_def mirrors_def)
  obtain cfg yaml where g: "parse_stored (cStore c) yaml = Inr cfg" "Compile cfg = Inr (exGraph ex)" using ok by (auto simp: exec_ok_def)
  note wf = stored_wf [OF maps g]
  have lr: "local_inv (exRunner ex) (exGraph ex) (exLocal ex)" using ok local_reachable_inv [OF _ wf] by (auto simp: exec_ok_def)
  have "st \<noteq> Pending" if "runPhase (exLocal ex) = Returned"
  proof -
    have "jname j \<in> set (Order (exGraph ex))" using states_ok_order st(1) lr by (auto simp: local_inv_def core_def)
    then show ?thesis using returned_no_goroutines(2) [OF lr wf that] st(1) by (auto simp: terminal_state_def)
  qed
  then show ?thesis using st by blast
qed

theorem store_follows_scheduler_witness:
  "\<exists>st. States (init_run solo_graph) ''a'' = Some st \<and> job_status st = JobPending"
proof -
  have "\<exists>st. States (exLocal (solo_exec (init_run solo_graph))) (jname (solo_job JobPending)) = Some st \<and> (jstatus (solo_job JobPending) = job_status st \<or>
      runPhase (exLocal (solo_exec (init_run solo_graph))) \<noteq> Returned \<and> st = Pending \<and> jstatus (solo_job JobPending) = JobCanceled)"
    by (rule store_follows_scheduler [OF _ solo_claimed])
      (use solo_maps in \<open>simp_all add: go_maps_def solo_state_def solo_db_def solo_exec_def scanRun_def solo_row_def solo_job_def new_job_row_def
        new_run_row_def sample_create_def split: option.splits\<close>)
  then show ?thesis by (auto simp: solo_exec_def solo_job_def new_job_row_def)
qed

text \<open>C38. A cancellation can be recorded as a failure: when the scheduler receives the completion of its last job, canceled,
  before it looks at its context, its loop ends without noticing the interruption, and the manager stores the run whose
  cancellation was requested, and whose only job is canceled, as \<open>RunFailed\<close> instead of \<open>RunCanceled\<close>.\<close>

theorem canceled_run_recorded_failed:
  "\<exists>m r. manager_reachable solo_control m \<and> runs (mDb m) = [r] \<and> rcancel_at r \<noteq> None \<and> rstatus r = RunFailed \<and>
     map jstatus (jobs (mDb m)) = [JobCanceled] \<and> mLost m = []"
  using solo_failed
  by (intro exI [of _ "solo_state (solo_row RunFailed (Some 4)) (solo_job JobCanceled) Claiming 2"] exI [of _ "solo_row RunFailed (Some 4)"])
    (simp add: solo_state_def solo_db_def solo_row_def solo_job_def)

section \<open>Submissions\<close>

lemma resolve_no_dots: "resolve priv fs n cur cs = Inr q \<Longrightarrow> ''..'' \<notin> set cur \<Longrightarrow> ''..'' \<notin> set q"
proof (induction priv fs n cur cs rule: resolve.induct)
  case (2 priv fs n cur c cs)
  have "''..'' \<notin> set (butlast cur)" using "2.prems"(2) by (meson in_set_butlastD)
  then show ?case using 2 by (auto split: option.splits fnode.splits if_splits nat.splits)
qed simp

lemma safePipelinePath_inside: "safePipelinePath c fs name = Inr path \<Longrightarrow> prefix (cWorkspace c) path"
proof -
  assume "safePipelinePath c fs name = Inr path"
  then have e: "fst (eval_symlinks (cPriv c) (path_join (cWorkspace c) (path_clean name)) fs) = Inr path" and w: "within (cWorkspace c) path"
    by (auto simp: safePipelinePath_def split: if_splits sum.splits)
  have "''..'' \<notin> set path" using e resolve_no_dots by (fastforce simp: eval_symlinks_def rbind_eq_Inr split: option.splits)
  then show ?thesis using w within_iff by blast
qed

lemma created_rows:
  assumes "createRun now cr d = Inr (u, d')"
  shows "\<exists>digest. CrID cr \<notin> rid ` set (runs d) \<and> runs d' = runs d @ [new_run_row now cr digest] \<and>
    jobs d' = jobs d @ map (new_job_row (CrID cr)) (CrJobs cr) \<and>
    deps d' = deps d @ map (\<lambda>(a, b). \<lparr> drun = CrID cr, djob = a, dupstream = b \<rparr>) (CrDependencies cr)"
proof (rule createRun_Inr [OF assms])
  fix sn :: SourceSnapshot and sns
  assume "CrID cr \<notin> rid ` set (runs d)" and d': "d' = d\<lparr> snapshots := sns, runs := runs d @ [new_run_row now cr (SourceDigest sn)],
    jobs := jobs d @ map (new_job_row (CrID cr)) (CrJobs cr), deps := deps d @ map (\<lambda>(a, b). \<lparr> drun = CrID cr, djob = a, dupstream = b \<rparr>) (CrDependencies cr) \<rparr>"
  then show ?thesis by (intro exI [of _ "SourceDigest sn"]) simp
qed

lemma find_snoc: "\<forall>y \<in> set xs. \<not> P y \<Longrightarrow> P x \<Longrightarrow> find P (xs @ [x]) = Some x"
  by (induction xs) auto

text \<open>C27. What a submission does: when it is accepted, the pipeline was read inside the workspace, through whatever links the
  path has; the stored run holds those bytes, their digest and the requested parallelism, is queued, and has exactly the jobs
  and dependencies of the compiled pipeline, all jobs pending; and the dispatcher is woken. A rejected submission
  changes neither the database nor the files, and a rejected input not even the snapshot store.\<close>

theorem submitted_run:
  assumes "manager_Submit c now ident later pipelineFile n m = (res, m')"
    and "\<forall>j \<in> set (jobs (mDb m)). jrun j \<in> rid ` set (runs (mDb m))"
  shows "(\<forall>run. res = Inr run \<longrightarrow> (\<exists>path data cfg g. prefix (cWorkspace c) path \<and> os_readfile (cPriv c) path (mFs m) = Inr data \<and>
      parse_stored (cStore c) data = Inr cfg \<and> Compile cfg = Inr g \<and>
      rid (RunRow run) = ident \<and> rstatus (RunRow run) = RunQueued \<and> ryaml (RunRow run) = data \<and> rsha256 (RunRow run) = cSha c data \<and>
      rmax_parallel (RunRow run) = (if n = 0 then 1 else n) \<and> 0 \<le> n \<and> RunRow run \<in> set (runs (mDb m')) \<and>
      {(jname j, jstatus j) |j. j \<in> set (jobs (mDb m')) \<and> jrun j = ident} = {(x, JobPending) |x. x \<in> set (Order g)} \<and>
      deps (mDb m') = deps (mDb m) @ map (\<lambda>(a, b). \<lparr> drun = ident, djob = a, dupstream = b \<rparr>) (graph_deps g) \<and> mWake m')) \<and>
    (\<forall>e. res = Inl e \<longrightarrow> mDb m' = mDb m \<and> mFs m' = mFs m \<and> (\<forall>s. e = InputError s \<longrightarrow> m' = m))"
proof (cases res)
  case (Inl e)
  let ?f = "if pipelineFile = '''' then ''forge.yaml'' else pipelineFile" and ?n = "if n = 0 then 1 else n"
  have s: "submit_run c now ident later ?f ?n m = (Inl e, m')" using assms(1) Inl by (simp add: manager_Submit_def)
  have "m' = m" if "e = InputError x" for x
    using s that by (cases "submit_request c now ident later ?f ?n m")
      (auto simp: submit_run_def split: if_splits sum.splits prod.splits simp del: split_paired_All)
  then show ?thesis using submit_Inl [OF s] Inl by auto
next
  case (Inr run)
  let ?f = "if pipelineFile = '''' then ''forge.yaml'' else pipelineFile" and ?n = "if n = 0 then 1 else n"
  obtain cr stored d where e: "submit_request c now ident later ?f ?n m = Inr (cr, stored)"
    "CreateRun_op (cStore c) now cr (mDb m) = Inr (run, d)" "m' = notify (m\<lparr> mDb := d, mBlobs := stored \<rparr>)" "0 < ?n"
    using assms(1) Inr unfolding manager_Submit_def by (metis submit_Inr)
  obtain path data cfg g snap where q: "safePipelinePath c (mFs m) ?f = Inr path" "os_readfile (cPriv c) path (mFs m) = Inr data"
    "parse_stored (cStore c) data = Inr cfg" "Compile cfg = Inr g"
    "cr = \<lparr> CrID = ident, CrFile = ?f, CrSHA256 = cSha c data, CrWorkspace = path_text (cWorkspace c), CrYAML = data,
       CrMaxParallel = ?n, CrJobs = graph_jobs g, CrDependencies = graph_deps g, CrSnapshot = snap \<rparr>"
    by (rule submit_request_Inr [OF e(1)]) blast
  have created: "createRun now cr (mDb m) = Inr ((), d)" "GetRun (cStore c) ident d = Inr run" using e(2) q(5) by (auto simp: CreateRun_op_def rbind_eq_Inr)
  obtain digest where c: "CrID cr \<notin> rid ` set (runs (mDb m))" "runs d = runs (mDb m) @ [new_run_row now cr digest]"
    "jobs d = jobs (mDb m) @ map (new_job_row (CrID cr)) (CrJobs cr)"
    "deps d = deps (mDb m) @ map (\<lambda>(a, b). \<lparr> drun = CrID cr, djob = a, dupstream = b \<rparr>) (CrDependencies cr)"
    using created_rows [OF created(1)] by blast
  let ?row = "new_run_row now cr digest"
  have "find (\<lambda>r. rid r = ident) (runs d) = Some ?row"
    unfolding c(2) by (rule find_snoc) (use c(1) q(5) in \<open>auto simp: new_run_row_def\<close>)
  then have row: "RunRow run = ?row" using created(2) by (auto simp: GetRun_def scanRun_def split: option.splits)
  have none: "jrun j \<noteq> ident" if "j \<in> set (jobs (mDb m))" for j using assms(2) c(1) q(5) that by fastforce
  have "j \<in> set (jobs d) \<and> jrun j = ident \<longleftrightarrow> j \<in> new_job_row ident ` set (graph_jobs g)" for j using none by (auto simp: c(3) q(5))
  then have "{(jname j, jstatus j) |j. j \<in> set (jobs d) \<and> jrun j = ident} = (\<lambda>j. (jname j, jstatus j)) ` new_job_row ident ` set (graph_jobs g)" by blast
  also have "\<dots> = {(x, JobPending) |x. x \<in> set (Order g)}" by (auto simp: graph_jobs_def image_image)
  finally have "{(jname j, jstatus j) |j. j \<in> set (jobs d) \<and> jrun j = ident} = {(x, JobPending) |x. x \<in> set (Order g)}" .
  moreover have "deps d = deps (mDb m) @ map (\<lambda>(a, b). \<lparr> drun = ident, djob = a, dupstream = b \<rparr>) (graph_deps g)" by (simp add: c(4) q(5))
  moreover have "RunRow run \<in> set (runs d)" by (simp add: c(2) row)
  moreover have "rid (RunRow run) = ident" "rstatus (RunRow run) = RunQueued" "ryaml (RunRow run) = data" "rsha256 (RunRow run) = cSha c data"
    "rmax_parallel (RunRow run) = ?n" by (simp_all only: row) (simp_all add: new_run_row_def q(5))
  moreover have "0 \<le> n" "mDb m' = d" "mWake m'" using e(3,4) by (simp_all add: notify_def split: if_splits)
  ultimately have "\<exists>path data cfg g. prefix (cWorkspace c) path \<and> os_readfile (cPriv c) path (mFs m) = Inr data \<and>
      parse_stored (cStore c) data = Inr cfg \<and> Compile cfg = Inr g \<and>
      rid (RunRow run) = ident \<and> rstatus (RunRow run) = RunQueued \<and> ryaml (RunRow run) = data \<and> rsha256 (RunRow run) = cSha c data \<and>
      rmax_parallel (RunRow run) = ?n \<and> 0 \<le> n \<and> RunRow run \<in> set (runs (mDb m')) \<and>
      {(jname j, jstatus j) |j. j \<in> set (jobs (mDb m')) \<and> jrun j = ident} = {(x, JobPending) |x. x \<in> set (Order g)} \<and>
      deps (mDb m') = deps (mDb m) @ map (\<lambda>(a, b). \<lparr> drun = ident, djob = a, dupstream = b \<rparr>) (graph_deps g) \<and> mWake m'"
    using q(2-4) safePipelinePath_inside [OF q(1)] by (intro exI [of _ path] exI [of _ data] exI [of _ cfg] exI [of _ g] conjI) simp_all
  then show ?thesis using Inr by (simp del: split_paired_Ex)
qed

definition submit_control :: control where
  "submit_control = solo_control\<lparr> cSnapshots := Some DefaultLimits,
     cSha := (\<lambda>_. sample_digest) \<rparr>"

definition submit_state :: mstate where
  "submit_state = \<lparr> mDb = empty_db, mFs = [([''w''], Dir 448), ([''w'', ''forge.yaml''], Regular 384 ''y'')], mBlobs = (\<lambda>_. None),
     mWake = False, mSignal = 0, mActive = '''', mHasCancel = False, mStage = Parked, mLost = [] \<rparr>"

lemma remote_lease_consistent_code [code]:
  "remote_lease_consistent r \<longleftrightarrow>
     (rrunner r = None \<and> rlease r = None \<and> rlease_expires r = None) \<or>
     (rrunner r \<noteq> None \<and> rlease r \<noteq> None \<and> rlease_expires r \<noteq> None \<and>
      (case reffective r of None \<Rightarrow> False | Some n \<Rightarrow> n > 0) \<and> rgeneration r > 0)"
  by (auto simp: remote_lease_consistent_def split: option.splits)

theorem submitted_run_witness:
  "\<exists>run m'. manager_Submit submit_control 7 ''r'' (mFs submit_state) '''' 0 submit_state = (Inr run, m') \<and>
     rid (RunRow run) = ''r'' \<and> rstatus (RunRow run) = RunQueued \<and> rmax_parallel (RunRow run) = 1 \<and> mWake m'"
proof -
  have ok: "\<not> isl (fst (manager_Submit submit_control 7 ''r'' (mFs submit_state) '''' 0 submit_state))" by code_simp
  obtain run m' where run: "manager_Submit submit_control 7 ''r'' (mFs submit_state) '''' 0 submit_state = (Inr run, m')" using ok
    by (cases "manager_Submit submit_control 7 ''r'' (mFs submit_state) '''' 0 submit_state"; cases "fst (manager_Submit submit_control 7 ''r'' (mFs submit_state) '''' 0 submit_state)")
      auto
  have "rid (RunRow run) = ''r'' \<and> rstatus (RunRow run) = RunQueued \<and> rmax_parallel (RunRow run) = 1 \<and> mWake m'"
    using submitted_run [OF run] by (auto simp: submit_state_def empty_db_def)
  then show ?thesis using run by blast
qed

end
