(* ===== verification/Artifact_Archive.thy ===== *)
theory Artifact_Archive
  imports Link_Safety Workspace
begin

text \<open>
  \<open>internal/artifact/artifact.go\<close> and the archive half of \<open>internal/cache/cache.go\<close>: an artifact is a file or a directory,
  archived under the name of its root. An archive differs from a source snapshot in that its root is an entry, its links
  must stay below the root, and the modes of directories are set after everything else. The codecs are
  arguments as in \<open>Archive\<close>; an archive file outside the workspace is represented by its content.
\<close>

section \<open>Metadata\<close>

record ArtifactMeta =
  AmName :: string
  AmRootName :: string
  AmRootKind :: string
  AmContent :: string
  AmBlob :: string
  AmFormat :: string
  AmArchiveSize :: int
  AmLogicalSize :: int
  AmEntryCount :: int
  AmCreatedAt :: time

definition validateMetadata :: "Limits \<Rightarrow> ArtifactMeta \<Rightarrow> (string, unit) result" where
  "validateMetadata lim m =
    (if \<not> validateLimits lim then Inl ''artifact limits must be greater than zero''
     else if AmFormat m \<noteq> Artifact_Store.Format \<or> \<not> ValidDigest (AmContent m) \<or> \<not> ValidDigest (AmBlob m) \<or> unsafePath (AmRootName m) \<or>
       path_base (AmRootName m) \<noteq> AmRootName m \<or> AmArchiveSize m < 0 \<or> AmArchiveSize m > MaxArchiveBytes lim \<or>
       AmLogicalSize m < 0 \<or> AmEntryCount m < 1
     then Inl ''invalid artifact metadata'' else Inr ())"

definition below_root :: "string \<Rightarrow> string \<Rightarrow> bool" where
  "below_root root name \<longleftrightarrow> name = root \<or> has_prefix name (root @ ''/'')"

section \<open>Scanning\<close>

text \<open>Where a path leads when its last component is not followed.\<close>

definition os_locate :: "bool \<Rightarrow> fpath \<Rightarrow> fs \<Rightarrow> (os_error, fpath) result" where
  "os_locate priv p fs = (if p = [] then Inr [] else rbind (os_parent priv p fs) (\<lambda>(d, _). Inr (d @ [last p])))"

definition artifact_name :: "string \<Rightarrow> fpath \<Rightarrow> fpath \<Rightarrow> string" where
  "artifact_name root base p = (if p = base then root else path_join2 root (rel_name base p))"

definition artifact_scan_entry :: "bool \<Rightarrow> (string \<Rightarrow> string) \<Rightarrow> Limits \<Rightarrow> string \<Rightarrow> fpath \<Rightarrow> fs \<Rightarrow> fpath \<Rightarrow> Entry list \<times> int
    \<Rightarrow> (string, Entry list \<times> int) result" where
  "artifact_scan_entry priv sha lim root base fs p acc =
    (let name = artifact_name root base p; entries = fst acc; logical = snd acc;
       push = (\<lambda>e logical'. let entries' = entries @ [e] in
         if int (length entries') > MaxEntries lim then Inl ''artifact exceeds entry limit'' else Inr (entries', logical')) in
     if unsafePath name \<or> int (length name) > MaxPathBytes lim then Inl ''unsafe artifact path''
     else if \<not> searchable priv fs (butlast p) then Inl ''lstat''
     else (case node fs p of
         None \<Rightarrow> Inl ''lstat''
       | Some (Dir m) \<Rightarrow>
         rbind (push \<lparr> EnPath = name, EnType = KDirectory, EnMode = m, EnSize = 0, EnSHA256 = '''', EnTarget = '''', EnHost = p \<rparr> logical) (\<lambda>acc'.
         if r_ok priv m then Inr acc' else Inl ''readdir'')
       | Some (Regular m content) \<Rightarrow>
         let size = int (length content) in
         if size > MaxFileBytes lim then Inl ''file exceeds size limit''
         else if logical + size > MaxLogicalBytes lim then Inl ''artifact exceeds logical byte limit''
         else if \<not> r_ok priv m then Inl ''open''
         else push \<lparr> EnPath = name, EnType = KFile, EnMode = m, EnSize = size, EnSHA256 = sha content, EnTarget = '''', EnHost = p \<rparr> (logical + size)
       | Some (Link target) \<Rightarrow>
         if unsafeLink target then Inl ''unsafe symlink''
         else if \<not> below_root root (link_end name target) then Inl ''symlink escapes artifact root''
         else push \<lparr> EnPath = name, EnType = KSymlink, EnMode = 511, EnSize = 0, EnSHA256 = '''', EnTarget = target, EnHost = p \<rparr> logical))"

fun artifact_scan_all :: "bool \<Rightarrow> (string \<Rightarrow> string) \<Rightarrow> Limits \<Rightarrow> string \<Rightarrow> fpath \<Rightarrow> fs \<Rightarrow> fpath list \<Rightarrow> Entry list \<times> int \<Rightarrow> (string, Entry list \<times> int) result" where
  "artifact_scan_all priv sha lim root base fs [] acc = Inr acc"
| "artifact_scan_all priv sha lim root base fs (p # ps) acc =
    rbind (artifact_scan_entry priv sha lim root base fs p acc) (artifact_scan_all priv sha lim root base fs ps)"

text \<open>\<open>filepath.WalkDir\<close> from the root, which it visits first.\<close>

definition artifact_walk :: "fpath \<Rightarrow> fs \<Rightarrow> fpath list" where
  "artifact_walk base fs = base # sort (filter (strict_prefix base) (map fst fs))"

definition artifact_scan :: "bool \<Rightarrow> (string \<Rightarrow> string) \<Rightarrow> Limits \<Rightarrow> fpath \<Rightarrow> string \<Rightarrow> fs \<Rightarrow> (string, Entry list \<times> int) result" where
  "artifact_scan priv sha lim source root fs =
    (case os_locate priv source fs of
       Inl _ \<Rightarrow> Inl ''lstat''
     | Inr base \<Rightarrow>
       rbind (artifact_scan_all priv sha lim root base fs (artifact_walk base fs) ([], 0)) (\<lambda>(entries, logical).
       Inr (sort_key EnPath entries, logical)))"

section \<open>Capture\<close>

definition root_kind :: "fnode \<Rightarrow> string option" where
  "root_kind n = (case n of Dir _ \<Rightarrow> Some ''directory'' | Regular _ _ \<Rightarrow> Some ''file'' | Link _ \<Rightarrow> None)"

definition base_name :: "fpath \<Rightarrow> string" where
  "base_name p = (if p = [] then ''/'' else last p)"

definition artifact_Capture :: "bool \<Rightarrow> (string \<Rightarrow> string) \<Rightarrow> (Entry list \<Rightarrow> string) \<Rightarrow> (tar_header list \<Rightarrow> string) \<Rightarrow> Limits \<Rightarrow> time
    \<Rightarrow> fpath \<Rightarrow> string \<Rightarrow> fs \<Rightarrow> fs \<Rightarrow> (string, ArtifactMeta \<times> string) result" where
  "artifact_Capture priv sha encode pack lim now source name fs later =
    (if \<not> validateLimits lim then Inl ''artifact limits must be greater than zero''
     else (case os_lstat priv source fs of
         Inl _ \<Rightarrow> Inl ''inspect artifact''
       | Inr n \<Rightarrow>
         (case root_kind n of
            None \<Rightarrow> Inl ''artifact root has unsupported file type''
          | Some kind \<Rightarrow>
            rbind (artifact_scan priv sha lim source (base_name source) fs) (\<lambda>(entries, logical).
            rbind (headers_of priv sha later entries) (\<lambda>hs.
            let data = pack hs in
            if int (length data) > MaxArchiveBytes lim then Inl ''artifact exceeds archive byte limit''
            else Inr (\<lparr> AmName = name, AmRootName = base_name source, AmRootKind = kind, AmContent = digestManifest sha encode entries, AmBlob = sha data,
              AmFormat = Artifact_Store.Format, AmArchiveSize = int (length data), AmLogicalSize = logical, AmEntryCount = int (length entries),
              AmCreatedAt = now \<rparr>, data))))))"

section \<open>Extraction\<close>

record artifact_extraction = extraction +
  xDirs :: "(fpath \<times> nat) list"

definition artifact_file :: "bool \<Rightarrow> Limits \<Rightarrow> ArtifactMeta \<Rightarrow> fpath \<Rightarrow> tar_header \<Rightarrow> artifact_extraction \<Rightarrow> (string, artifact_extraction) io" where
  "artifact_file priv lim expected target h x =
    (if TSize h < 0 \<or> TSize h > MaxFileBytes lim then io_fail ''artifact file exceeds limit''
     else let total = xTotal x + TSize h in
     if total > MaxLogicalBytes lim \<or> total > AmLogicalSize expected then io_fail ''artifact exceeds logical byte limit''
     else io_bind (io_map_err (\<lambda>_. ''open'') (os_create priv target (Regular (TMode h mod 512) (take (nat (TSize h)) (TContent h))))) (\<lambda>_.
       if int (length (TContent h)) < TSize h then io_fail ''extract artifact file''
       else io_bind (io_map_err (\<lambda>_. ''chmod'') (os_chmod priv target (TMode h mod 512))) (\<lambda>_.
         io_return (x\<lparr> xTotal := total \<rparr>))))"

text \<open>\<open>os.Mkdir\<close> where an existing node is no error.\<close>

definition mkdir_or_exists :: "bool \<Rightarrow> fpath \<Rightarrow> (string, unit) io" where
  "mkdir_or_exists priv p fs =
    (case os_create priv p (Dir 448) fs of
       (Inl ErrExist, fs1) \<Rightarrow> (Inr (), fs1)
     | (Inl _, fs1) \<Rightarrow> (Inl ''mkdir'', fs1)
     | (Inr _, fs1) \<Rightarrow> (Inr (), fs1))"

definition artifact_entry :: "bool \<Rightarrow> Limits \<Rightarrow> ArtifactMeta \<Rightarrow> fpath \<Rightarrow> tar_header \<Rightarrow> artifact_extraction \<Rightarrow> (string, artifact_extraction) io" where
  "artifact_entry priv lim expected destination h x0 =
    (let x = x0\<lparr> xEntries := xEntries x0 + 1 \<rparr> in
     if xEntries x > MaxEntries lim \<or> xEntries x > AmEntryCount expected then io_fail ''artifact exceeds entry limit''
     else if unsafePath (TName h) \<or> int (length (TName h)) > MaxPathBytes lim then io_fail ''unsafe artifact archive path''
     else if \<not> below_root (AmRootName expected) (TName h) then io_fail ''artifact archive has unexpected root''
     else let target = path_join destination (TName h) in
     if \<not> within destination target then io_fail ''artifact archive path escapes destination''
     else io_bind (safeParents priv destination (butlast target)) (\<lambda>_.
       case TType h of
         TypeDir \<Rightarrow> io_bind (mkdir_or_exists priv target) (\<lambda>_. io_return (x\<lparr> xDirs := xDirs x @ [(target, TMode h mod 512)] \<rparr>))
       | TypeReg \<Rightarrow> artifact_file priv lim expected target h x
       | TypeSymlink \<Rightarrow>
           if unsafeLink (TLinkname h) then io_fail ''unsafe artifact symlink''
           else if \<not> below_root (AmRootName expected) (link_end (TName h) (TLinkname h)) then io_fail ''artifact symlink escapes root''
           else io_return (x\<lparr> xLinks := xLinks x @ [(target, TLinkname h)] \<rparr>)
       | TypeOther _ \<Rightarrow> io_fail ''unsupported artifact archive entry type''))"

fun artifact_loop :: "bool \<Rightarrow> Limits \<Rightarrow> ArtifactMeta \<Rightarrow> fpath \<Rightarrow> tar_header list \<Rightarrow> artifact_extraction \<Rightarrow> (string, artifact_extraction) io" where
  "artifact_loop priv lim expected destination [] x = io_return x"
| "artifact_loop priv lim expected destination (h # hs) x =
    io_bind (artifact_entry priv lim expected destination h x) (artifact_loop priv lim expected destination hs)"

fun set_modes :: "bool \<Rightarrow> (fpath \<times> nat) list \<Rightarrow> (string, unit) io" where
  "set_modes priv [] = io_return ()"
| "set_modes priv ((p, m) # ds) = io_bind (io_map_err (\<lambda>_. ''chmod'') (os_chmod priv p m)) (\<lambda>_. set_modes priv ds)"

definition check_content :: "bool \<Rightarrow> (string \<Rightarrow> string) \<Rightarrow> (Entry list \<Rightarrow> string) \<Rightarrow> Limits \<Rightarrow> fpath \<Rightarrow> ArtifactMeta \<Rightarrow> (string, unit) io" where
  "check_content priv sha encode lim destination expected fs =
    (rbind (artifact_scan priv sha lim (destination @ [AmRootName expected]) (AmRootName expected) fs) (\<lambda>(entries, _).
     if digestManifest sha encode entries \<noteq> AmContent expected then Inl ''artifact content digest mismatch'' else Inr ()), fs)"

definition artifact_Extract :: "bool \<Rightarrow> (string \<Rightarrow> string) \<Rightarrow> (Entry list \<Rightarrow> string) \<Rightarrow> (string \<Rightarrow> (string, unpacked) result) \<Rightarrow> Limits
    \<Rightarrow> string option \<Rightarrow> fpath \<Rightarrow> ArtifactMeta \<Rightarrow> (string, unit) io" where
  "artifact_Extract priv sha encode unpack lim blob destination expected =
    io_bind (io_of (validateMetadata lim expected)) (\<lambda>_.
    case blob of
      None \<Rightarrow> io_fail ''open''
    | Some data \<Rightarrow>
      if int (length data) \<noteq> AmArchiveSize expected then io_fail ''artifact archive size mismatch''
      else if sha data \<noteq> AmBlob expected then io_fail ''artifact blob digest mismatch''
      else (case unpack data of
          Inl e \<Rightarrow> io_fail e
        | Inr (hs, bad) \<Rightarrow>
          io_bind (artifact_loop priv lim expected destination hs \<lparr> xLinks = [], xEntries = 0, xTotal = 0, xDirs = [] \<rparr>) (\<lambda>x.
          case bad of
            Some e \<Rightarrow> io_fail e
          | None \<Rightarrow>
            if xEntries x \<noteq> AmEntryCount expected \<or> xTotal x \<noteq> AmLogicalSize expected then io_fail ''artifact metadata mismatch''
            else io_bind (make_links priv destination (xLinks x)) (\<lambda>_.
              io_bind (set_modes priv (rev (xDirs x))) (\<lambda>_. check_content priv sha encode lim destination expected)))))"

section \<open>Confinement\<close>

lemma below_root_inside:
  assumes "\<not> unsafePath root" and "below_root root (link_end name t)"
  shows "\<not> link_escapes name t"
proof
  assume "link_escapes name t"
  then have e: "link_end name t = ''..'' \<or> has_prefix (link_end name t) ''../''" by (simp add: link_escapes_def)
  have r: "root \<noteq> ''''" "root \<noteq> ''.''" "root \<noteq> ''..''" "\<not> has_prefix root ''../''"
    using assms(1) by (auto simp: unsafePath_def Let_def path_clean_def split: if_splits)
  have "\<exists>w. link_end name t = root @ w \<and> (w = [] \<or> hd w = slash)"
  proof (cases "link_end name t = root")
    case False
    then have "take (length root + 1) (link_end name t) = root @ ''/''" using assms(2) by (simp add: below_root_def has_prefix_def)
    then have "link_end name t = root @ ''/'' @ drop (length root + 1) (link_end name t)" by (metis append_assoc append_take_drop_id)
    then show ?thesis by (metis append_Cons list.sel(1) slash_def)
  qed simp
  then obtain w where w: "link_end name t = root @ w" "w = [] \<or> hd w = slash" by blast
  show False using e r w unfolding has_prefix_def slash_def
    by (cases root; cases "tl root"; cases "tl (tl root)"; cases w) auto
qed

section \<open>Growth\<close>

text \<open>The steps of an extraction make nodes and change modes; they neither remove a node nor change its kind.\<close>

definition persists :: "fs \<Rightarrow> fs \<Rightarrow> bool" where
  "persists fs0 fs \<longleftrightarrow> (\<forall>p n. node fs0 p = Some n \<longrightarrow> (\<exists>m. node fs p = Some n \<or> node fs p = Some (set_mode m n)))"

lemma set_mode_set_mode [simp]: "set_mode m (set_mode k n) = set_mode m n"
  by (cases n) (simp_all add: set_mode_def)

lemma persists_refl [simp]: "persists fs fs"
  by (auto simp: persists_def)

lemma persists_fresh: "persists fs0 fs \<Longrightarrow> node fs q = None \<Longrightarrow> persists fs0 (fs_set q n fs)"
  unfolding persists_def by (metis node_Nil node_set option.distinct(1))

lemma persists_mode: "persists fs0 fs \<Longrightarrow> q \<noteq> [] \<Longrightarrow> node fs q = Some n \<Longrightarrow> persists fs0 (fs_set q (set_mode m n) fs)"
  unfolding persists_def by (simp add: node_set) (metis option.inject set_mode_set_mode)

lemma persists_create: "keeps (persists fs0) (os_create priv p n)"
  by (rule keepsI) (auto simp: os_create_def persists_fresh split: sum.splits prod.splits)

lemma persists_chmod: "keeps (persists fs0) (os_chmod priv p m)"
  by (rule keepsI) (auto simp: os_chmod_def persists_mode split: sum.splits option.splits)

text \<open>What every creation and every change of a mode keeps, an extraction keeps.\<close>

locale stable_extraction =
  fixes I :: "fs \<Rightarrow> bool" and priv :: bool
  assumes create: "keeps I (os_create priv p n)" and chmod: "keeps I (os_chmod priv p m)"
begin

lemma keeps_safe_walk: "I fs \<Longrightarrow> I (snd (safe_walk priv current parts fs))"
proof (induction parts arbitrary: current fs)
  case (Cons c cs)
  have "I fs1" if "os_create priv p n fs = (r, fs1)" for p n r fs1
    using keepsD [OF create Cons.prems, of p n] that by simp
  then show ?case using Cons by (auto simp: Let_def split: sum.splits prod.splits os_error.splits fnode.splits)
qed simp

lemma keeps_parents: "keeps I (safeParents priv dest q)"
  by (rule keepsI) (simp add: safeParents_def keeps_safe_walk)

lemmas keeps_rules = keeps_bind keeps_map_err create chmod keeps_parents

lemma keeps_all_dirs: "keeps I (os_mkdirall priv p m)"
proof (rule keepsI)
  fix fs assume "I fs"
  then show "I (snd (os_mkdirall priv p m fs))"
  proof (induction p arbitrary: fs rule: rev_induct)
    case (snoc c p)
    obtain r fs1 where r: "os_mkdirall priv p m fs = (r, fs1)" by (cases "os_mkdirall priv p m fs")
    have I1: "I fs1" using snoc.IH [OF snoc.prems] r by simp
    have "I fs2" if "os_create priv (p @ [c]) (Dir m) fs1 = (r', fs2)" for r' fs2
      using keepsD [OF create I1, of "p @ [c]" "Dir m"] that by simp
    then show ?case using snoc.prems r I1 by (subst os_mkdirall.simps) (auto split: sum.splits fnode.splits prod.splits)
  qed (subst os_mkdirall.simps, auto split: sum.splits fnode.splits)
qed

lemma keeps_links: "keeps I (make_links priv dest ls)"
  by (induction ls) (auto intro!: keeps_rules)

lemma keeps_modes: "keeps I (set_modes priv ds)"
  by (induction ds) (auto intro!: keeps_rules)

lemma keeps_mkdir_or_exists: "keeps I (mkdir_or_exists priv p)"
proof (rule keepsI)
  fix fs assume "I fs"
  from keepsD [OF create this, of p "Dir 448"] show "I (snd (mkdir_or_exists priv p fs))"
    by (auto simp: mkdir_or_exists_def split: prod.splits sum.splits os_error.splits)
qed

lemma keeps_entry: "keeps I (artifact_entry priv lim expected dest h x)"
  unfolding artifact_entry_def artifact_file_def Let_def by (auto intro!: keeps_rules keeps_mkdir_or_exists split: tar_type.split)

lemma keeps_loop: "keeps I (artifact_loop priv lim expected dest hs x)"
  by (induction hs arbitrary: x) (auto intro!: keeps_bind keeps_entry)

lemma keeps_content: "keeps I (check_content priv sha encode lim dest expected)"
  by (rule keepsI) (simp add: check_content_def)

lemma keeps_extract: "keeps I (artifact_Extract priv sha encode unpack lim blob dest expected)"
proof -
  have "keeps I (io_of (validateMetadata lim expected))" by (rule keepsI) (simp add: io_of_def)
  then show ?thesis unfolding artifact_Extract_def
    by (auto intro!: keeps_bind keeps_loop keeps_links keeps_modes keeps_content split: option.split sum.split)
qed

end

interpretation persisting: stable_extraction "persists fs0" priv for fs0 priv
  by unfold_locales (rule persists_create persists_chmod)+

section \<open>Directories whose modes are set last\<close>

definition seen :: "fs \<Rightarrow> fpath \<Rightarrow> bool" where
  "seen fs p \<longleftrightarrow> real_path fs (butlast p) \<and> (\<exists>n. node fs p = Some n \<and> (\<forall>t. n \<noteq> Link t))"

lemma persists_real: "persists fs0 fs \<Longrightarrow> real_path fs0 p \<Longrightarrow> real_path fs p"
  by (fastforce simp: persists_def real_path_def set_mode_def)

lemma persists_seen: "persists fs0 fs \<Longrightarrow> seen fs0 p \<Longrightarrow> seen fs p"
  using persists_real [of fs0 fs "butlast p"] by (fastforce simp: seen_def persists_def)

lemma seen_no_links:
  assumes "seen fs p"
  shows "no_links fs p"
proof (cases "p = []")
  case False
  then have "prefix q p \<Longrightarrow> q = p \<or> prefix q (butlast p)" for q by (metis append_butlast_last_id prefix_snoc)
  then show ?thesis using assms real_no_links [of fs "butlast p"] unfolding seen_def no_links_def by (metis option.inject)
qed (simp add: no_links_def)

lemma keeps_mkdir:
  assumes "comps p" and "strict_prefix dest p"
  shows "keeps (hard_sealed dest fs0) (mkdir_or_exists priv p)"
proof (rule keepsI)
  fix fs assume "hard_sealed dest fs0 fs"
  from keepsD [OF keeps_create [OF assms, of "Dir 448"] this, where priv1 = priv] show "hard_sealed dest fs0 (snd (mkdir_or_exists priv p fs))"
    by (auto simp: mkdir_or_exists_def split: prod.splits sum.splits os_error.splits)
qed

lemma resolve_not_exist: "resolve priv fs n cur cs \<noteq> Inl ErrExist"
  by (induction priv fs n cur cs rule: resolve.induct) (auto split: option.splits fnode.splits nat.splits if_splits, force+)

lemma os_parent_not_exist: "os_parent priv p fs \<noteq> Inl ErrExist"
  using resolve_not_exist [of priv fs max_links "[]" "butlast p"]
  by (cases "resolve priv fs max_links [] (butlast p)") (auto simp: os_parent_def split: option.splits fnode.splits)

lemma mkdir_seen:
  assumes "comps p" and "p \<noteq> []" and "real_path fs (butlast p)" and "no_links fs p" and "mkdir_or_exists priv p fs = (Inr u, fs')"
  shows "seen fs' p"
proof -
  have pl: "list_all plain p" and nb: "no_links fs (butlast p)" using assms(1,3) by (simp_all add: comps_plain real_no_links)
  have par: "d = butlast p" if "os_parent priv p fs = Inr (d, m)" for d m using os_parent_no_links [OF pl nb that] by simp
  have p: "butlast p @ [last p] = p" using assms(2) by simp
  consider (old) n where "node fs p = Some n" "fs' = fs" | (new) "node fs p = None" "fs' = fs_set p (Dir 448) fs"
  proof (cases "os_parent priv p fs")
    case (Inl e)
    then show thesis using assms(5) os_parent_not_exist [of priv p fs] by (cases e) (simp_all add: mkdir_or_exists_def os_create_def)
  next
    case (Inr dm)
    then show thesis using assms(2,5) par [of "fst dm" "snd dm"] p that
      by (cases dm) (auto simp: mkdir_or_exists_def os_create_def split: if_splits)
  qed
  then show ?thesis
  proof cases
    case old
    then show ?thesis using assms(3,4) by (auto simp: seen_def no_links_def)
  next
    case new
    then show ?thesis using real_path_set [OF assms(3) new(1)] assms(2) by (simp add: seen_def node_set)
  qed
qed

lemma keeps_artifact_entry:
  assumes "comps dest"
  shows "keeps (hard_sealed dest fs0) (artifact_entry priv lim expected dest h x)"
proof (cases "unsafePath (TName h)")
  case True
  then show ?thesis by (simp add: artifact_entry_def Let_def)
next
  case False
  note t = target_below [OF assms False]
  note rules = keeps_bind keeps_map_err keeps_create [OF t(2,3)] keeps_chmod [OF t(2,3)] keeps_mkdir [OF t(2,3)]
    keeps_safeParents [OF assms comps_butlast [OF t(2)] below_butlast [OF t(3)]]
  show ?thesis unfolding artifact_entry_def artifact_file_def Let_def by (auto intro!: rules split: tar_type.split)
qed

lemma keeps_artifact_loop: "comps dest \<Longrightarrow> keeps (hard_sealed dest fs0) (artifact_loop priv lim expected dest hs x)"
  by (induction hs arbitrary: x) (auto intro!: keeps_bind keeps_artifact_entry)

section \<open>What a successful pass collects\<close>

text \<open>The links an archive asks for stay below its root, and its directories are nodes that no link leads to.\<close>

definition collected :: "fpath \<Rightarrow> artifact_extraction \<Rightarrow> fs \<Rightarrow> bool" where
  "collected dest x fs \<longleftrightarrow> (\<forall>l \<in> set (xLinks x). link_ok dest l) \<and> (\<forall>d \<in> set (xDirs x). comps (fst d) \<and> strict_prefix dest (fst d) \<and> seen fs (fst d))"

lemma collected_persists: "persists fs fs' \<Longrightarrow> collected dest x fs \<Longrightarrow> collected dest x fs'"
  by (auto simp: collected_def persists_seen)

lemma artifact_file_same:
  "artifact_file priv lim expected target h x fs = (Inr y, fs') \<Longrightarrow> xLinks y = xLinks x \<and> xDirs y = xDirs x"
  by (auto simp: artifact_file_def Let_def io_bind_Inr io_fail_def io_return_def split: if_splits)

lemma artifact_entry_collects:
  assumes dest: "comps dest" and root: "\<not> unsafePath (AmRootName expected)" and h: "hard_sealed dest fs0 fs" and c: "collected dest x fs"
    and e: "artifact_entry priv lim expected dest h x fs = (Inr y, fs')"
  shows "collected dest y fs'"
proof -
  have safe: "\<not> unsafePath (TName h)" using e by (auto simp: artifact_entry_def Let_def io_fail_def split: if_splits)
  note t = target_below [OF dest safe]
  let ?q = "path_join dest (TName h)"
  have c': "collected dest x fs'" using collected_persists [OF _ c] keepsD [OF persisting.keeps_entry persists_refl, of fs priv lim expected dest h x] e by simp
  obtain fs1 where s: "safeParents priv dest (butlast ?q) fs = (Inr (), fs1)"
    using e by (auto simp: artifact_entry_def Let_def io_fail_def io_bind_Inr split: if_splits)
  have real: "real_path fs dest" using h by (simp add: hard_sealed_def sealed_def)
  have h1: "hard_sealed dest fs0 fs1" "real_path fs1 (butlast ?q)"
    using safeParents_spec [where I = "hard_sealed dest fs0", OF dest comps_butlast [OF t(2)] below_butlast [OF t(3)] real h _ s] hard_sealed_set by auto
  have dir: "seen fs' ?q" if "mkdir_or_exists priv ?q fs1 = (Inr u, fs')" for u
    using mkdir_seen [OF t(2) _ h1(2) hard_sealed_no_links [OF h1(1)] that] t(3) t(1) by (auto simp: strict_prefix_def)
  have link: "link_ok dest (?q, TLinkname h)" if "\<not> unsafeLink (TLinkname h)" "below_root (AmRootName expected) (link_end (TName h) (TLinkname h))"
    using that safe t(1) below_root_inside [OF root that(2)] by (auto simp: link_ok_def)
  show ?thesis using e c' s dir link t artifact_file_same
    by (auto simp: artifact_entry_def Let_def io_bind_Inr io_fail_def io_return_def collected_def split: if_splits tar_type.splits dest!: artifact_file_same)
qed

lemma artifact_loop_collects:
  assumes "comps dest" and "\<not> unsafePath (AmRootName expected)" and "hard_sealed dest fs0 fs" and "collected dest x fs"
    and "artifact_loop priv lim expected dest hs x fs = (Inr y, fs')"
  shows "collected dest y fs'"
  using assms(3-5)
proof (induction hs arbitrary: x fs)
  case (Cons h hs)
  then obtain z fs1 where z: "artifact_entry priv lim expected dest h x fs = (Inr z, fs1)" "artifact_loop priv lim expected dest hs z fs1 = (Inr y, fs')"
    by (auto simp: io_bind_Inr)
  have "hard_sealed dest fs0 fs1" using keepsD [OF keeps_artifact_entry [OF assms(1)] Cons.prems(1)] z(1) by (metis snd_conv)
  then show ?case using Cons.IH artifact_entry_collects [OF assms(1,2) Cons.prems(1,2) z(1)] z(2) by blast
qed (simp add: io_return_def)

section \<open>Confinement\<close>

definition inside_only :: "fpath \<Rightarrow> fs \<Rightarrow> fs \<Rightarrow> bool" where
  "inside_only dest fs0 fs \<longleftrightarrow> sealed dest fs0 fs \<and> good_links dest fs"

lemma good_links_mode:
  assumes "good_links dest fs" and "q \<noteq> []" and "node fs q = Some n"
  shows "good_links dest (fs_set q (set_mode m n) fs)"
proof -
  have "persists fs (fs_set q (set_mode m n) fs)" using persists_mode [OF persists_refl assms(2,3)] .
  then have r: "real_path fs p \<Longrightarrow> real_path (fs_set q (set_mode m n) fs) p" for p by (rule persists_real)
  have "node (fs_set q (set_mode m n) fs) p = Some (Link t) \<Longrightarrow> node fs p = Some (Link t)" for p t
    using assms(2,3) by (auto simp: node_set split: if_splits)
  then show ?thesis using assms(1) r unfolding good_links_def by blast
qed

lemma set_modes_inside:
  assumes "inside_only dest fs0 fs" and "\<forall>d \<in> set ds. comps (fst d) \<and> strict_prefix dest (fst d) \<and> seen fs (fst d)"
  shows "inside_only dest fs0 (snd (set_modes priv ds fs))"
  using assms
proof (induction ds arbitrary: fs)
  case (Cons d ds)
  obtain p m where d: "d = (p, m)" by (cases d)
  have p: "comps p" "strict_prefix dest p" "seen fs p" using Cons.prems(2) d by simp_all
  from comps_plain [OF p(1)] seen_no_links [OF p(3)] show ?case
  proof (cases rule: os_chmod_no_links [of p fs priv m])
    case (idle e)
    then show ?thesis using Cons.prems(1) by (simp add: d io_bind_def io_map_err_def)
  next
    case (made n)
    let ?fs = "fs_set p (set_mode m n) fs"
    have "inside_only dest fs0 ?fs" using Cons.prems(1) sealed_set [OF _ p(2)] good_links_mode [OF _ made(2,3)] by (simp add: inside_only_def)
    moreover have "\<forall>d \<in> set ds. comps (fst d) \<and> strict_prefix dest (fst d) \<and> seen ?fs (fst d)"
      using Cons.prems(2) persists_seen [OF persists_mode [OF persists_refl made(2,3)]] by simp
    ultimately show ?thesis using Cons.IH made(1) by (simp add: d io_bind_def io_map_err_def)
  qed
qed (simp add: io_return_def)

lemma artifact_links_inside:
  assumes dest: "comps dest" and h: "hard_sealed dest fs0 fs" and c: "collected dest x fs" and l: "make_links priv dest (xLinks x) fs = (r, fs')"
  shows "inside_only dest fs0 fs'" and "collected dest x fs'"
proof -
  have "(\<lambda>fs. sealed dest fs0 fs \<and> good_links dest fs) (snd (make_links priv dest (xLinks x) fs))"
  proof (rule make_links_keeps [OF dest good_grows])
    show "sealed dest fs0 fs \<and> good_links dest fs" using h by (simp add: hard_sealed_def linkless_good)
    fix p t assume "(p, t) \<in> set (xLinks x)"
    then show "comps p \<and> strict_prefix dest p \<and> (\<exists>t'. Link t = Link t' \<and> link_ok dest (p, t'))"
      using c link_ok_below [OF dest] by (auto simp: collected_def)
  qed
  then show "inside_only dest fs0 fs'" using l by (simp add: inside_only_def)
  show "collected dest x fs'" using collected_persists [OF _ c] keepsD [OF persisting.keeps_links persists_refl, of fs priv dest "xLinks x"] l by simp
qed

lemma artifact_Extract_inside:
  assumes dest: "comps dest" and real: "real_path fs dest" and none: "linkless dest fs"
  shows "inside_only dest fs (snd (artifact_Extract priv sha encode unpack lim blob dest expected fs))"
proof (cases "validateMetadata lim expected")
  case (Inl e)
  then show ?thesis using real none by (simp add: artifact_Extract_def io_bind_def io_of_def inside_only_def sealed_def outside_same_def linkless_good)
next
  case (Inr u)
  have root: "\<not> unsafePath (AmRootName expected)" using Inr by (auto simp: validateMetadata_def split: if_splits)
  have h0: "hard_sealed dest fs fs" and I0: "inside_only dest fs fs"
    using real none by (simp_all add: hard_sealed_def inside_only_def sealed_def outside_same_def linkless_good)
  let ?x0 = "\<lparr> xLinks = [], xEntries = 0, xTotal = 0, xDirs = [] \<rparr>"
  {
    fix hs bad
    obtain r fs1 where r: "artifact_loop priv lim expected dest hs ?x0 fs = (r, fs1)" by (cases "artifact_loop priv lim expected dest hs ?x0 fs")
    have h1: "hard_sealed dest fs fs1" using keepsD [OF keeps_artifact_loop [OF dest] h0] r by (metis snd_conv)
    then have I1: "inside_only dest fs fs1" by (simp add: hard_sealed_def inside_only_def linkless_good)
    have rest: "inside_only dest fs (snd (io_bind (make_links priv dest (xLinks x)) (\<lambda>_.
        io_bind (set_modes priv (rev (xDirs x))) (\<lambda>_. check_content priv sha encode lim dest expected)) fs1))" if x: "r = Inr x" for x
    proof -
      have c: "collected dest x fs1" using artifact_loop_collects [OF dest root h0 _ r [unfolded x]] by (simp add: collected_def)
      obtain r2 fs2 where l: "make_links priv dest (xLinks x) fs1 = (r2, fs2)" by (cases "make_links priv dest (xLinks x) fs1")
      note i = artifact_links_inside [OF dest h1 c l]
      have m: "inside_only dest fs (snd (set_modes priv (rev (xDirs x)) fs2))"
        using set_modes_inside [OF i(1), of "rev (xDirs x)"] i(2) by (simp add: collected_def)
      then show ?thesis using i(1) l
        by (cases r2) (auto simp: io_bind_def check_content_def split: prod.splits sum.splits)
    qed
    have "inside_only dest fs (snd (io_bind (artifact_loop priv lim expected dest hs ?x0) (\<lambda>x. case bad of Some e \<Rightarrow> io_fail e
      | None \<Rightarrow> if xEntries x \<noteq> AmEntryCount expected \<or> xTotal x \<noteq> AmLogicalSize expected then io_fail ''artifact metadata mismatch''
          else io_bind (make_links priv dest (xLinks x)) (\<lambda>_. io_bind (set_modes priv (rev (xDirs x))) (\<lambda>_. check_content priv sha encode lim dest expected))) fs))"
      using I1 rest r by (cases r) (auto simp: io_bind_def io_fail_def split: option.splits)
  }
  then show ?thesis using I0 Inr unfolding artifact_Extract_def
    by (auto simp: io_fail_def io_of_def io_bind_def split: option.splits sum.splits if_splits)
qed

end
