(* ===== verification/Artifact_Session.thy ===== *)
theory Artifact_Session
  imports Artifact_Archive Pipeline_Config
begin

text \<open>
  \<open>internal/artifact/session.go\<close> and \<open>internal/artifact/remote.go\<close>: the artifacts of one run. A job's uploads are
  captured below the workspace and published together; its downloads are extracted beside their destination and
  renamed into place. \<open>pick\<close> chooses the names of temporary directories. The temporary archives live in a
  directory of their own, outside the workspace, and are gone when a call returns, so each is represented by its content;
  what can fail is making one (\<open>temp_usable\<close>).
\<close>

section \<open>Renaming and temporary directories\<close>

definition fs_move :: "fpath \<Rightarrow> fpath \<Rightarrow> fs \<Rightarrow> fs" where
  "fs_move a b fs = map (\<lambda>(p, n). (if prefix a p then b @ drop (length a) p else p, n)) (filter (\<lambda>(p, _). prefix a p \<or> \<not> prefix b p) fs)"

text \<open>\<open>os.Rename\<close> on one file system: a directory is never replaced, a file or link is, by another file or link;
  moving a directory to another parent needs the right to write to it.\<close>

definition os_rename :: "bool \<Rightarrow> fpath \<Rightarrow> fpath \<Rightarrow> (os_error, unit) io" where
  "os_rename priv old new fs =
    (case os_parent priv old fs of
       Inl e \<Rightarrow> (Inl e, fs)
     | Inr (d1, m1) \<Rightarrow>
       (case os_parent priv new fs of
          Inl e \<Rightarrow> (Inl e, fs)
        | Inr (d2, m2) \<Rightarrow>
          if old = [] \<or> new = [] then (Inl ErrOther, fs)
          else let a = d1 @ [last old]; b = d2 @ [last new] in
          (case node fs a of
             None \<Rightarrow> (Inl ErrNotExist, fs)
           | Some n \<Rightarrow>
             if a = b then (if old = new \<and> (case n of Dir _ \<Rightarrow> True | _ \<Rightarrow> False) then Inl ErrExist else Inr (), fs)
             else if prefix a b then (Inl ErrOther, fs)
             else if (case node fs b of Some (Dir _) \<Rightarrow> True | _ \<Rightarrow> False) then (Inl ErrExist, fs)
             else if \<not> w_ok priv m1 \<or> \<not> w_ok priv m2 then (Inl ErrOther, fs)
             else if (case n of Dir m \<Rightarrow> node fs b \<noteq> None \<or> d1 \<noteq> d2 \<and> \<not> w_ok priv m | _ \<Rightarrow> False) then (Inl ErrOther, fs)
             else (Inr (), fs_move a b fs))))"

definition os_mkdirtemp :: "bool \<Rightarrow> (fpath \<Rightarrow> fs \<Rightarrow> string) \<Rightarrow> fpath \<Rightarrow> (os_error, fpath) io" where
  "os_mkdirtemp priv pick dir fs =
    (case os_create priv (dir @ [pick dir fs]) (Dir 448) fs of
       (Inl e, fs1) \<Rightarrow> (Inl e, fs1)
     | (Inr _, fs1) \<Rightarrow> (Inr (dir @ [pick dir fs]), fs1))"

definition temp_usable :: "bool \<Rightarrow> fpath \<Rightarrow> fs \<Rightarrow> bool" where
  "temp_usable priv temp fs =
    (case resolve priv fs max_links [] temp of
       Inl _ \<Rightarrow> False
     | Inr d \<Rightarrow> (case node fs d of Some (Dir m) \<Rightarrow> w_ok priv m \<and> x_ok priv m | _ \<Rightarrow> False))"

section \<open>Sessions\<close>

datatype session_error = PipelineError string | InfraError string

definition IsPipelineError :: "session_error \<Rightarrow> bool" where
  "IsPipelineError e = (case e of PipelineError _ \<Rightarrow> True | InfraError _ \<Rightarrow> False)"

record artifact_record =
  RecProducer :: string
  RecMetadata :: ArtifactMeta

record artifact_session =
  AsWorkspace :: fpath
  AsTemp :: fpath
  AsLimits :: Limits
  AsRecords :: "string \<Rightarrow> artifact_record option"

definition artifact_NewSession :: "bool \<Rightarrow> fpath \<Rightarrow> fpath \<Rightarrow> Limits \<Rightarrow> (string, artifact_session) io" where
  "artifact_NewSession priv workspace temp lim =
    io_bind (io_map_err (\<lambda>_. ''evalsymlinks'') (eval_symlinks priv workspace)) (\<lambda>resolved.
    io_bind (io_map_err (\<lambda>_. ''mkdir'') (os_mkdirall priv temp 448)) (\<lambda>_.
    io_return \<lparr> AsWorkspace = resolved, AsTemp = temp, AsLimits = lim, AsRecords = Map.empty \<rparr>))"

text \<open>The callbacks of a session with durable metadata, over a database of any type.\<close>

record 'db callbacks =
  CbCommit :: "string \<Rightarrow> ArtifactMeta list \<Rightarrow> 'db \<Rightarrow> (session_error, unit) result \<times> 'db"
  CbLookup :: "string \<Rightarrow> string \<Rightarrow> 'db \<Rightarrow> (session_error, ArtifactMeta) result"

text \<open>The callbacks \<open>internal/controlplane/manager.go\<close> installs for a run of the local mode.\<close>

definition artifact_of_meta :: "string \<Rightarrow> string \<Rightarrow> ArtifactMeta \<Rightarrow> Artifact" where
  "artifact_of_meta run job m = \<lparr> ArID = '''', ArRunID = run, ArProducer = job, ArName = AmName m, ArRootName = AmRootName m, ArRootKind = AmRootKind m,
     ArContent = AmContent m, ArBlob = AmBlob m, ArFormat = AmFormat m, ArArchiveSize = AmArchiveSize m, ArLogicalSize = AmLogicalSize m,
     ArEntryCount = AmEntryCount m, ArCreatedAt = AmCreatedAt m, ArExpiresAt = None, ArDeletedAt = None \<rparr>"

definition meta_of_artifact :: "Artifact \<Rightarrow> ArtifactMeta" where
  "meta_of_artifact a = \<lparr> AmName = ArName a, AmRootName = ArRootName a, AmRootKind = ArRootKind a, AmContent = ArContent a, AmBlob = ArBlob a,
     AmFormat = ArFormat a, AmArchiveSize = ArArchiveSize a, AmLogicalSize = ArLogicalSize a, AmEntryCount = ArEntryCount a, AmCreatedAt = ArCreatedAt a \<rparr>"

definition manager_artifacts :: "Store \<Rightarrow> (nat \<Rightarrow> string) \<Rightarrow> time \<Rightarrow> string \<Rightarrow> db callbacks" where
  "manager_artifacts st fresh now run = \<lparr>
     CbCommit = (\<lambda>job metas d.
       case CommitArtifacts st fresh now \<lparr> OwRunID = run, OwRunnerID = '''', OwLeaseID = '''', OwJobName = job, OwGeneration = 0 \<rparr>
           (map (artifact_of_meta run job) metas) d of
         Inl _ \<Rightarrow> (Inl (InfraError ''commit''), d)
       | Inr (_, d1) \<Rightarrow> (Inr (), d1)),
     CbLookup = (\<lambda>producer name d. case GetArtifact run producer name d of
         Inl _ \<Rightarrow> Inl (InfraError ''lookup'')
       | Inr (a, _) \<Rightarrow> Inr (meta_of_artifact a)) \<rparr>"

definition record_key :: "string \<Rightarrow> string \<Rightarrow> string" where
  "record_key producer name = producer @ [CHR 0x00] @ name"

definition sameMetadata :: "ArtifactMeta \<Rightarrow> ArtifactMeta \<Rightarrow> bool" where
  "sameMetadata a b \<longleftrightarrow> AmName a = AmName b \<and> AmRootName a = AmRootName b \<and> AmRootKind a = AmRootKind b \<and> AmContent a = AmContent b \<and>
     AmBlob a = AmBlob b \<and> AmFormat a = AmFormat b \<and> AmArchiveSize a = AmArchiveSize b \<and> AmLogicalSize a = AmLogicalSize b \<and>
     AmEntryCount a = AmEntryCount b"

section \<open>Publishing\<close>

definition safeSource :: "bool \<Rightarrow> fpath \<Rightarrow> string \<Rightarrow> fs \<Rightarrow> (string, fpath) result" where
  "safeSource priv workspace relative fs =
    (let candidate = path_join workspace relative in
     case fst (eval_symlinks priv (butlast candidate) fs) of
       Inl _ \<Rightarrow> Inl ''resolve upload path''
     | Inr parent \<Rightarrow>
       if \<not> within workspace parent then Inl ''upload path escapes workspace''
       else Inr (if candidate = [] then parent else parent @ [last candidate]))"

text \<open>The first loop of both sessions: every upload is captured before anything is stored. \<open>later\<close> is the
  file system when the files are copied.\<close>

fun capture_all :: "bool \<Rightarrow> (string \<Rightarrow> string) \<Rightarrow> (Entry list \<Rightarrow> string) \<Rightarrow> (tar_header list \<Rightarrow> string) \<Rightarrow> artifact_session \<Rightarrow> time \<Rightarrow> fs \<Rightarrow> fs
    \<Rightarrow> ArtifactUpload list \<Rightarrow> (session_error, (ArtifactMeta \<times> string) list) result" where
  "capture_all priv sha encode pack s now fs later [] = Inr []"
| "capture_all priv sha encode pack s now fs later (item # items) =
    (case safeSource priv (AsWorkspace s) (UpPath item) fs of
       Inl e \<Rightarrow> Inl (PipelineError e)
     | Inr source \<Rightarrow>
       if \<not> temp_usable priv (AsTemp s) fs then Inl (InfraError ''createtemp'')
       else (case artifact_Capture priv sha encode pack (AsLimits s) now source (UpName item) fs later of
           Inl e \<Rightarrow> Inl (PipelineError e)
         | Inr c \<Rightarrow> rbind (capture_all priv sha encode pack s now fs later items) (\<lambda>cs. Inr (c # cs))))"

text \<open>\<open>canceled\<close> says whether the context is done while the blob is stored.\<close>

fun put_all :: "(string \<Rightarrow> string) \<Rightarrow> time \<Rightarrow> bool \<Rightarrow> (ArtifactMeta \<times> string) list \<Rightarrow> blob_store \<Rightarrow> (session_error, unit) result \<times> blob_store" where
  "put_all sha now canceled [] st = (Inr (), st)"
| "put_all sha now canceled ((meta, data) # cs) st =
    (case Put sha now (AmBlob meta) (AmArchiveSize meta) (if canceled then None else Some data) st of
       Inl _ \<Rightarrow> (Inl (InfraError ''put''), st)
     | Inr (_, st1) \<Rightarrow> put_all sha now canceled cs st1)"

fun record_all :: "string \<Rightarrow> ArtifactMeta list \<Rightarrow> artifact_session \<Rightarrow> (session_error, unit) result \<times> artifact_session" where
  "record_all job [] s = (Inr (), s)"
| "record_all job (meta # metas) s =
    (let key = record_key job (AmName meta) in
     case AsRecords s key of
       Some existing \<Rightarrow> if \<not> sameMetadata (RecMetadata existing) meta then (Inl (InfraError ''conflicting artifact publication''), s)
         else record_all job metas s
     | None \<Rightarrow> record_all job metas (s\<lparr> AsRecords := (AsRecords s)(key \<mapsto> \<lparr> RecProducer = job, RecMetadata = meta \<rparr>) \<rparr>))"

definition commit_metas :: "'db callbacks option \<Rightarrow> string \<Rightarrow> ArtifactMeta list \<Rightarrow> 'db \<Rightarrow> (session_error, unit) result \<times> 'db" where
  "commit_metas cb job metas d =
    (case cb of
       None \<Rightarrow> (Inr (), d)
     | Some c \<Rightarrow> CbCommit c job metas d)"

definition artifact_Publish :: "bool \<Rightarrow> (string \<Rightarrow> string) \<Rightarrow> (Entry list \<Rightarrow> string) \<Rightarrow> (tar_header list \<Rightarrow> string) \<Rightarrow> 'db callbacks option \<Rightarrow> time \<Rightarrow> bool
    \<Rightarrow> fs \<Rightarrow> fs \<Rightarrow> string \<Rightarrow> ArtifactUpload list \<Rightarrow> artifact_session \<times> blob_store \<times> 'db \<Rightarrow> (session_error, unit) result \<times> (artifact_session \<times> blob_store \<times> 'db)" where
  "artifact_Publish priv sha encode pack cb now canceled fs later job items w =
    (case w of (s, st, d) \<Rightarrow>
     if items = [] then (Inr (), w)
     else (case capture_all priv sha encode pack s now fs later items of
         Inl e \<Rightarrow> (Inl e, w)
       | Inr cs \<Rightarrow>
         (case put_all sha now canceled cs st of
            (Inl e, st1) \<Rightarrow> (Inl e, (s, st1, d))
          | (Inr _, st1) \<Rightarrow>
            (case commit_metas cb job (map fst cs) d of
               (Inl e, d1) \<Rightarrow> (Inl e, (s, st1, d1))
             | (Inr _, d1) \<Rightarrow> (case record_all job (map fst cs) s of (r, s1) \<Rightarrow> (r, (s1, st1, d1)))))))"

text \<open>A remote session: the transport is a component of its own, an argument here.\<close>

record 'w transport =
  TrUpload :: "string \<Rightarrow> ArtifactMeta \<Rightarrow> string \<Rightarrow> 'w \<Rightarrow> (session_error, unit) result \<times> 'w"
  TrCommit :: "string \<Rightarrow> ArtifactMeta list \<Rightarrow> 'w \<Rightarrow> (session_error, unit) result \<times> 'w"
  TrDownload :: "string \<Rightarrow> string \<Rightarrow> string \<Rightarrow> 'w \<Rightarrow> (session_error, ArtifactMeta \<times> string) result"

fun upload_all :: "'w transport \<Rightarrow> string \<Rightarrow> (ArtifactMeta \<times> string) list \<Rightarrow> 'w \<Rightarrow> (session_error, unit) result \<times> 'w" where
  "upload_all tr job [] w = (Inr (), w)"
| "upload_all tr job ((meta, data) # cs) w =
    (case TrUpload tr job meta data w of
       (Inl e, w1) \<Rightarrow> (Inl e, w1)
     | (Inr _, w1) \<Rightarrow> upload_all tr job cs w1)"

definition remote_Publish :: "bool \<Rightarrow> (string \<Rightarrow> string) \<Rightarrow> (Entry list \<Rightarrow> string) \<Rightarrow> (tar_header list \<Rightarrow> string) \<Rightarrow> 'w transport \<Rightarrow> time
    \<Rightarrow> fs \<Rightarrow> fs \<Rightarrow> artifact_session \<Rightarrow> string \<Rightarrow> ArtifactUpload list \<Rightarrow> 'w \<Rightarrow> (session_error, unit) result \<times> 'w" where
  "remote_Publish priv sha encode pack tr now fs later s job items w =
    (if items = [] then (Inr (), w)
     else (case capture_all priv sha encode pack s now fs later items of
         Inl e \<Rightarrow> (Inl e, w)
       | Inr cs \<Rightarrow>
         (case upload_all tr job cs w of
            (Inl e, w1) \<Rightarrow> (Inl e, w1)
          | (Inr _, w1) \<Rightarrow> TrCommit tr job (map fst cs) w1)))"

section \<open>Restoring\<close>

fun destination_walk :: "bool \<Rightarrow> fpath \<Rightarrow> string list \<Rightarrow> fs \<Rightarrow> (string, unit) result" where
  "destination_walk priv current [] fs = Inr ()"
| "destination_walk priv current (part # parts) fs =
    (if part = ''.'' \<or> part = '''' then destination_walk priv current parts fs
     else let next = path_join current part in
       (case os_lstat priv next fs of
          Inl ErrNotExist \<Rightarrow> destination_walk priv next parts fs
        | Inl _ \<Rightarrow> Inl ''lstat''
        | Inr (Dir _) \<Rightarrow> destination_walk priv next parts fs
        | Inr _ \<Rightarrow> Inl ''unsafe artifact destination parent''))"

definition safeDestination :: "bool \<Rightarrow> fpath \<Rightarrow> string \<Rightarrow> fs \<Rightarrow> (string, fpath) result" where
  "safeDestination priv workspace relative fs =
    (let candidate = path_join workspace relative in
     if \<not> within workspace candidate then Inl ''download destination escapes workspace''
     else rbind (destination_walk priv workspace (path_rel workspace candidate) fs) (\<lambda>_. Inr candidate))"

text \<open>The common end of both sessions: extract beside the destination, rename, remove the rest.\<close>

definition place_artifact :: "bool \<Rightarrow> (string \<Rightarrow> string) \<Rightarrow> (Entry list \<Rightarrow> string) \<Rightarrow> (string \<Rightarrow> (string, unpacked) result) \<Rightarrow> (fpath \<Rightarrow> fs \<Rightarrow> string)
    \<Rightarrow> Limits \<Rightarrow> fpath \<Rightarrow> ArtifactMeta \<Rightarrow> string \<Rightarrow> (session_error, unit) io" where
  "place_artifact priv sha encode unpack pick lim destination meta data =
    io_bind (io_map_err (\<lambda>_. InfraError ''mkdirtemp'') (os_mkdirtemp priv pick destination)) (\<lambda>stage fs1.
      case artifact_Extract priv sha encode unpack lim (Some data) stage meta fs1 of
        (Inl e, fs2) \<Rightarrow> (Inl (InfraError e), snd (os_removeall priv stage fs2))
      | (Inr _, fs2) \<Rightarrow>
        (case os_rename priv (path_join stage (AmRootName meta)) (path_join destination (AmRootName meta)) fs2 of
           (Inl _, fs3) \<Rightarrow> (Inl (InfraError ''rename''), snd (os_removeall priv stage fs3))
         | (Inr _, fs3) \<Rightarrow> io_map_err (\<lambda>_. InfraError ''removeall'') (os_removeall priv stage) fs3))"

definition absent :: "bool \<Rightarrow> fpath \<Rightarrow> (session_error, unit) io" where
  "absent priv final fs =
    (case os_lstat priv final fs of
       Inr _ \<Rightarrow> Inl (PipelineError ''artifact destination already exists'')
     | Inl ErrNotExist \<Rightarrow> Inr ()
     | Inl _ \<Rightarrow> Inl (InfraError ''lstat''), fs)"

definition lift_err :: "('e \<Rightarrow> session_error) \<Rightarrow> ('e, 'a) result \<Rightarrow> (session_error, 'a) io" where
  "lift_err h r fs = (case r of Inl e \<Rightarrow> Inl (h e) | Inr x \<Rightarrow> Inr x, fs)"

definition find_record :: "'db callbacks option \<Rightarrow> 'db \<Rightarrow> artifact_session \<Rightarrow> string \<Rightarrow> string \<Rightarrow> (session_error, artifact_record) result" where
  "find_record cb d s producer name =
    (case AsRecords s (record_key producer name) of
       Some r \<Rightarrow> Inr r
     | None \<Rightarrow>
       (case cb of
          None \<Rightarrow> Inl (InfraError ''committed artifact is unavailable'')
        | Some c \<Rightarrow> rbind (CbLookup c producer name d) (\<lambda>meta. Inr \<lparr> RecProducer = producer, RecMetadata = meta \<rparr>)))"

definition artifact_restore_item :: "bool \<Rightarrow> (string \<Rightarrow> string) \<Rightarrow> (Entry list \<Rightarrow> string) \<Rightarrow> (string \<Rightarrow> (string, unpacked) result) \<Rightarrow> (fpath \<Rightarrow> fs \<Rightarrow> string)
    \<Rightarrow> 'db callbacks option \<Rightarrow> artifact_session \<Rightarrow> blob_store \<Rightarrow> 'db \<Rightarrow> ArtifactDownload \<Rightarrow> (session_error, unit) io" where
  "artifact_restore_item priv sha encode unpack pick cb s st d item =
    io_bind (lift_err id (find_record cb d s (From item) (DlName item))) (\<lambda>record.
    let meta = RecMetadata record in
    io_bind (\<lambda>fs. lift_err PipelineError (safeDestination priv (AsWorkspace s) (Into item) fs) fs) (\<lambda>destination.
    io_bind (absent priv (path_join destination (AmRootName meta))) (\<lambda>_.
    io_bind (io_map_err (\<lambda>_. InfraError ''mkdir'') (os_mkdirall priv destination 448)) (\<lambda>_.
    io_bind (lift_err (\<lambda>_. InfraError ''openblob'') (OpenBlob (AmBlob meta) st)) (\<lambda>blob.
    io_bind (\<lambda>fs. lift_err InfraError (if temp_usable priv (AsTemp s) fs then Inr () else Inl ''createtemp'') fs) (\<lambda>_.
    io_bind (lift_err InfraError (CopyVerified sha (Some blob) (AmArchiveSize meta) (AmBlob meta) (MaxArchiveBytes (AsLimits s)))) (\<lambda>data.
    io_bind (io_map_err (\<lambda>_. InfraError ''mkdir'') (os_mkdirall priv destination 448)) (\<lambda>_.
    place_artifact priv sha encode unpack pick (AsLimits s) destination meta data))))))))"

text \<open>Each download comes with whether the context is done at its turn.\<close>

fun artifact_Restore :: "bool \<Rightarrow> (string \<Rightarrow> string) \<Rightarrow> (Entry list \<Rightarrow> string) \<Rightarrow> (string \<Rightarrow> (string, unpacked) result) \<Rightarrow> (fpath \<Rightarrow> fs \<Rightarrow> string)
    \<Rightarrow> 'db callbacks option \<Rightarrow> artifact_session \<Rightarrow> blob_store \<Rightarrow> 'db \<Rightarrow> (ArtifactDownload \<times> bool) list \<Rightarrow> (session_error, unit) io" where
  "artifact_Restore priv sha encode unpack pick cb s st d [] = io_return ()"
| "artifact_Restore priv sha encode unpack pick cb s st d ((item, canceled) # items) =
    (if canceled then io_fail (InfraError ''context canceled'')
     else io_bind (artifact_restore_item priv sha encode unpack pick cb s st d item) (\<lambda>_. artifact_Restore priv sha encode unpack pick cb s st d items))"

definition remote_restore_item :: "bool \<Rightarrow> (string \<Rightarrow> string) \<Rightarrow> (Entry list \<Rightarrow> string) \<Rightarrow> (string \<Rightarrow> (string, unpacked) result) \<Rightarrow> (fpath \<Rightarrow> fs \<Rightarrow> string)
    \<Rightarrow> 'w transport \<Rightarrow> artifact_session \<Rightarrow> 'w \<Rightarrow> string \<Rightarrow> ArtifactDownload \<Rightarrow> (session_error, unit) io" where
  "remote_restore_item priv sha encode unpack pick tr s w consumer item =
    io_bind (\<lambda>fs. lift_err PipelineError (safeDestination priv (AsWorkspace s) (Into item) fs) fs) (\<lambda>destination.
    io_bind (\<lambda>fs. lift_err InfraError (if temp_usable priv (AsTemp s) fs then Inr () else Inl ''createtemp'') fs) (\<lambda>_.
    io_bind (lift_err id (TrDownload tr (From item) (DlName item) consumer w)) (\<lambda>(meta, data).
    io_bind (absent priv (path_join destination (AmRootName meta))) (\<lambda>_.
    io_bind (io_map_err (\<lambda>_. InfraError ''mkdir'') (os_mkdirall priv destination 448)) (\<lambda>_.
    place_artifact priv sha encode unpack pick (AsLimits s) destination meta data)))))"

fun remote_Restore :: "bool \<Rightarrow> (string \<Rightarrow> string) \<Rightarrow> (Entry list \<Rightarrow> string) \<Rightarrow> (string \<Rightarrow> (string, unpacked) result) \<Rightarrow> (fpath \<Rightarrow> fs \<Rightarrow> string)
    \<Rightarrow> 'w transport \<Rightarrow> artifact_session \<Rightarrow> 'w \<Rightarrow> string \<Rightarrow> ArtifactDownload list \<Rightarrow> (session_error, unit) io" where
  "remote_Restore priv sha encode unpack pick tr s w consumer [] = io_return ()"
| "remote_Restore priv sha encode unpack pick tr s w consumer (item # items) =
    io_bind (remote_restore_item priv sha encode unpack pick tr s w consumer item) (\<lambda>_. remote_Restore priv sha encode unpack pick tr s w consumer items)"

end
