(* ===== verification/Session_Safety.thy ===== *)
theory Session_Safety
  imports Artifact_Session
begin

text \<open>
  What the sessions may touch. A restoration adds nodes below the workspace and changes nothing else; a publication
  reads nothing outside the workspace.
\<close>

section \<open>Trees without orphans\<close>

definition rooted :: "fs \<Rightarrow> bool" where
  "rooted fs \<longleftrightarrow> (\<forall>p n. node fs p = Some n \<longrightarrow> p \<noteq> [] \<longrightarrow> (\<exists>m. node fs (butlast p) = Some (Dir m)))"

lemma rooted_parent: "rooted fs \<Longrightarrow> node fs (p @ [c]) = Some n \<Longrightarrow> \<exists>m. node fs p = Some (Dir m)"
  unfolding rooted_def by (metis butlast_snoc snoc_eq_iff_butlast)

lemma rooted_real:
  assumes "rooted fs" and "node fs p = Some (Dir m)"
  shows "real_path fs p"
  using assms(2)
proof (induction p arbitrary: m rule: rev_induct)
  case (snoc c p)
  then show ?case using rooted_parent [OF assms(1) snoc.prems] by (auto simp: real_path_snoc)
qed (simp add: real_path_def)

lemma rooted_below: "rooted fs \<Longrightarrow> node fs p = Some n \<Longrightarrow> strict_prefix q p \<Longrightarrow> \<exists>m. node fs q = Some (Dir m)"
proof (induction p arbitrary: n rule: rev_induct)
  case (snoc c p)
  obtain m where m: "node fs p = Some (Dir m)" using rooted_parent [OF snoc.prems(1,2)] by blast
  have "q = p \<or> strict_prefix q p" using snoc.prems(3) by (auto simp: strict_prefix_def prefix_snoc)
  then show ?case using m snoc.IH [OF snoc.prems(1) m] by blast
qed simp

lemma rooted_set:
  assumes "rooted fs" and "node fs q = None" and "node fs (butlast q) = Some (Dir m)"
  shows "rooted (fs_set q n fs)"
proof -
  have q: "q \<noteq> []" using assms(2) by auto
  then have "butlast q \<noteq> q" by (metis append_butlast_last_id append_self_conv not_Cons_self2)
  then show ?thesis using assms unfolding rooted_def node_set [OF q] by (metis option.distinct(1))
qed

lemma rooted_mode:
  assumes "rooted fs" and "q \<noteq> []" and "node fs q = Some n"
  shows "rooted (fs_set q (set_mode m n) fs)"
  unfolding rooted_def
proof (intro allI impI)
  fix p k assume "node (fs_set q (set_mode m n) fs) p = Some k" "p \<noteq> []"
  then have "\<exists>k. node fs p = Some k" using assms(2,3) by (auto simp: node_set split: if_splits)
  then obtain j where j: "node fs (butlast p) = Some (Dir j)" using assms(1) \<open>p \<noteq> []\<close> unfolding rooted_def by blast
  then have "real_path (fs_set q (set_mode m n) fs) (butlast p)"
    using persists_real [OF persists_mode [OF persists_refl assms(2,3)]] rooted_real [OF assms(1) j] by blast
  then show "\<exists>m'. node (fs_set q (set_mode m n) fs) (butlast p) = Some (Dir m')" unfolding real_path_def by blast
qed

lemma os_parent_dir: "os_parent priv p fs = Inr (d, m) \<Longrightarrow> node fs d = Some (Dir m) \<and> x_ok priv m"
  by (cases "resolve priv fs max_links [] (butlast p)") (auto simp: os_parent_def split: option.splits fnode.splits if_splits)

lemma rooted_create: "keeps rooted (os_create priv p n)"
proof (rule keepsI)
  fix fs assume "rooted fs"
  then show "rooted (snd (os_create priv p n fs))"
    by (auto simp: os_create_def split: sum.splits prod.splits dest!: os_parent_dir intro!: rooted_set)
qed

lemma rooted_chmod: "keeps rooted (os_chmod priv p m)"
  by (rule keepsI) (auto simp: os_chmod_def rooted_mode split: sum.splits option.splits)

interpretation rooting: stable_extraction rooted priv for priv
  by unfold_locales (rule rooted_create rooted_chmod)+

lemma rooted_del: "rooted fs \<Longrightarrow> \<not> occupied fs p \<Longrightarrow> rooted (fs_del p fs)"
proof -
  assume r: "rooted fs" and o: "\<not> occupied fs p"
  have "node fs q = None" if "butlast q = p" "q \<noteq> []" for q
  proof -
    have "q = p @ [last q]" using that append_butlast_last_id [of q] by simp
    then have "strict_prefix p q" by (metis append_self_conv not_Cons_self2 prefixI strict_prefixI)
    then show ?thesis using o unfolding occupied_iff by blast
  qed
  then show "rooted (fs_del p fs)" using r unfolding rooted_def node_del by (metis option.distinct(1))
qed

lemma rooted_removeall: "keeps rooted (os_removeall priv p)"
proof (rule keepsI)
  fix fs assume r: "rooted fs"
  have "rooted (remove_inner priv b q fs')" if "rooted fs'" for b q fs'
    using that rooted_del by (auto simp: remove_inner_def split: option.splits fnode.splits)
  then have f: "rooted (fold (remove_inner priv b) ps fs')" if "rooted fs'" for b ps fs' using that by (induction ps arbitrary: fs') auto
  show "rooted (snd (os_removeall priv p fs))"
    using r f [OF r] rooted_del [OF f [OF r]] by (auto simp: os_removeall_def Let_def split: sum.splits os_error.splits)
qed

section \<open>Renaming\<close>

lemma prefix_drop: "prefix a p \<Longrightarrow> p = a @ drop (length a) p"
  by (auto simp: prefix_def)

lemma node_move:
  assumes "\<not> prefix a b" and "\<not> prefix b a"
  shows "node (fs_move a b fs) q = (if prefix b q then node fs (a @ drop (length b) q) else if prefix a q then None else node fs q)"
proof -
  have ne: "a \<noteq> []" "b \<noteq> []" using assms by auto
  have "map_of (fs_move a b fs) q = (if prefix b q then map_of fs (a @ drop (length b) q) else if prefix a q then None else map_of fs q)"
  proof (induction fs)
    case (Cons e fs)
    obtain p n where e: "e = (p, n)" by (cases e)
    have apart: "\<not> (prefix a r \<and> prefix b r)" for r using assms prefix_same_cases by blast
    show ?case
    proof (cases "prefix a p")
      case True
      then obtain r where r: "p = a @ r" by (auto simp: prefix_def)
      have "\<not> prefix a (b @ r)" using apart by (meson prefixI)
      then show ?thesis using Cons.IH by (auto simp: e r fs_move_def prefix_def)
    next
      case False
      then have "p \<noteq> a @ drop (length b) q" by auto
      then show ?thesis using False Cons.IH by (auto simp: e fs_move_def)
    qed
  qed (simp add: fs_move_def)
  then show ?thesis using ne by (cases "q = []") (simp_all add: node_def)
qed

lemma rooted_move:
  assumes r: "rooted fs" and a: "node fs a = Some n" and b: "node fs (butlast b) = Some (Dir m)" "node fs b = None"
    and ab: "\<not> prefix a b" "\<not> prefix b a"
  shows "rooted (fs_move a b fs)"
  unfolding rooted_def
proof (intro allI impI)
  fix q k assume q: "node (fs_move a b fs) q = Some k" "q \<noteq> []"
  note nd = node_move [OF ab]
  have up: "prefix p (butlast q) \<Longrightarrow> prefix p q" for p using butlast_prefix prefix_order.trans by blast
  show "\<exists>m. node (fs_move a b fs) (butlast q) = Some (Dir m)"
  proof (cases "prefix b q")
    case True
    then obtain w where w: "q = b @ w" by (auto simp: prefix_def)
    show ?thesis
    proof (cases "w = []")
      case True
      have "\<not> prefix b (butlast b)" using b(2) b(1) by (metis butlast_prefix option.distinct(1) prefix_order.antisym)
      moreover have "\<not> prefix a (butlast b)" using ab(1) butlast_prefix prefix_order.trans by blast
      ultimately show ?thesis using b(1) w True by (simp add: nd)
    next
      case False
      have "node fs (a @ w) = Some k" using q(1) w by (simp add: nd)
      then have "\<exists>m. node fs (butlast (a @ w)) = Some (Dir m)" using r False unfolding rooted_def by (metis append_is_Nil_conv)
      then show ?thesis using False w by (simp add: nd butlast_append)
    qed
  next
    case False
    then have k: "node fs q = Some k" "\<not> prefix a q" using q(1) by (auto simp: nd split: if_splits)
    have "\<exists>m. node fs (butlast q) = Some (Dir m)" using r k(1) q(2) unfolding rooted_def by blast
    then show ?thesis using False k(2) up by (auto simp: nd)
  qed
qed

section \<open>What a restoration adds\<close>

text \<open>Every node of the first file system is unchanged in the second, and whatever is new lies below the workspace.\<close>

definition added :: "fpath \<Rightarrow> fs \<Rightarrow> fs \<Rightarrow> bool" where
  "added ws fs0 fs \<longleftrightarrow> rooted fs \<and> (\<forall>p. \<not> strict_prefix ws p \<longrightarrow> node fs p = node fs0 p) \<and> (\<forall>p n. node fs0 p = Some n \<longrightarrow> node fs p = Some n)"

lemma added_refl: "rooted fs \<Longrightarrow> added ws fs fs"
  by (simp add: added_def)

lemma added_trans: "added ws a b \<Longrightarrow> added ws b c \<Longrightarrow> added ws a c"
  by (simp add: added_def)

lemma added_real: "added ws fs0 fs \<Longrightarrow> real_path fs0 p \<Longrightarrow> real_path fs p"
  unfolding added_def real_path_def by blast

lemma path_join_comps:
  assumes "comps ws"
  shows "comps (path_join ws name)"
proof -
  have up: "list_all plain st \<Longrightarrow> list_all plain (clean_parts True st xs)" for st xs
    by (induction xs arbitrary: st) (auto simp: plain_def split: list.splits)
  have "set (path_join ws name) \<subseteq> set ws \<union> set (split_on slash name)" using clean_parts_subset unfolding path_join_def by fastforce
  then have "\<forall>w \<in> set (path_join ws name). slash \<notin> set w" using assms split_on_no_sep [of _ slash name] by (auto simp: comps_def)
  moreover have "list_all plain (path_join ws name)" unfolding path_join_def by (rule up) simp
  ultimately show ?thesis by (simp add: comps_def list_all_iff)
qed

lemma missing_node:
  assumes "rooted fs" and "comps p" and "p \<noteq> []" and "no_links fs (butlast p)" and "os_lstat priv p fs = Inl ErrNotExist"
  shows "node fs p = None"
proof (rule ccontr)
  assume "node fs p \<noteq> None"
  then obtain n m where n: "node fs p = Some n" and m: "node fs (butlast p) = Some (Dir m)" using assms(1,3) unfolding rooted_def by blast
  have real: "real_path fs (butlast p)" using rooted_real [OF assms(1) m] .
  obtain d k where d: "os_parent priv p fs = Inr (d, k)"
    using assms(3,5) os_parent_real [OF assms(2) real, of priv] by (cases "os_parent priv p fs") (auto simp: os_lstat_def)
  have "d = butlast p" using os_parent_no_links(1) [OF comps_plain [OF assms(2)] assms(4) d] .
  then show False using assms(3,5) d n by (simp add: os_lstat_def)
qed

lemma destination_walk_no_links:
  assumes "rooted fs" and "comps (current @ parts)" and "no_links fs current" and "destination_walk priv current parts fs = Inr ()"
  shows "no_links fs (current @ parts)"
  using assms(2-4)
proof (induction parts arbitrary: current)
  case (Cons c cs)
  have c: "plain c" "slash \<notin> set c" "comps current" "comps (current @ [c])" using Cons.prems(1) by simp_all
  have j: "path_join current c = current @ [c]" using path_join_single [OF comps_plain [OF c(3)] c(1,2)] .
  have nb: "no_links fs (butlast (current @ [c]))" using Cons.prems(2) by simp
  have rest: "destination_walk priv (current @ [c]) cs fs = Inr ()"
    and stat: "os_lstat priv (current @ [c]) fs = Inl ErrNotExist \<or> (\<exists>m. os_lstat priv (current @ [c]) fs = Inr (Dir m))"
    using Cons.prems(3) c(1) by (auto simp: j Let_def plain_def split: sum.splits os_error.splits fnode.splits)
  have "node fs (current @ [c]) \<noteq> Some (Link t)" for t
    using stat missing_node [OF assms(1) c(4) _ nb] os_lstat_no_links [OF comps_plain [OF c(4)] nb] by fastforce
  then have "no_links fs (current @ [c])" using Cons.prems(2) by (auto simp: no_links_def prefix_snoc)
  then show ?case using Cons.IH [of "current @ [c]"] Cons.prems(1) rest by simp
qed simp

lemma safeDestination_spec:
  assumes "comps ws" and "rooted fs" and "real_path fs ws" and "safeDestination priv ws rel fs = Inr dest"
  shows "comps dest" and "prefix ws dest" and "no_links fs dest"
proof -
  have d: "dest = path_join ws rel" "within ws dest" "destination_walk priv ws (path_rel ws dest) fs = Inr ()"
    using assms(4) by (auto simp: safeDestination_def Let_def rbind_eq_Inr split: if_splits)
  show c: "comps dest" using path_join_comps [OF assms(1)] d(1) by simp
  show p: "prefix ws dest" using within_iff [OF plain_no_up [OF comps_plain [OF c]]] d(2) by simp
  then obtain w where w: "dest = ws @ w" by (auto simp: prefix_def)
  show "no_links fs dest" using destination_walk_no_links [OF assms(2) _ real_no_links [OF assms(3)]] c d(3) by (simp add: w path_rel_append)
qed

lemma mkdirall_adds:
  assumes "comps dest" and "prefix ws dest" and "real_path fs ws" and "rooted fs" and "no_links fs dest"
    and "os_mkdirall priv dest m fs = (r, fs')"
  shows "added ws fs fs'" and "no_links fs' dest" and "\<not> prefix p dest \<Longrightarrow> node fs' p = node fs p"
proof -
  let ?I = "\<lambda>f. (\<forall>p. \<not> strict_prefix ws p \<or> \<not> prefix p dest \<longrightarrow> node f p = node fs p) \<and> (\<forall>p n. node fs p = Some n \<longrightarrow> node f p = Some n) \<and> no_links f dest"
  have "?I (snd (os_mkdirall priv dest m fs))"
  proof (rule os_mkdirall_keeps [where I = ?I, OF comps_plain [OF assms(1)]])
    show "?I fs" using assms(5) by simp
    show "no_links f dest" if "?I f" for f using that by blast
    fix q f assume I: "?I f" and q: "prefix q dest" "q \<noteq> []" "node f q = None"
    have "node fs q = None" using I q(3) by (metis not_None_eq)
    then have "\<not> prefix q ws" using assms(3) unfolding real_path_def by (metis option.distinct(1))
    then have below: "strict_prefix ws q" using prefix_same_cases [OF q(1) assms(2)] by (auto simp: strict_prefix_def)
    then show "?I (fs_set q (Dir m) f)" using I q by (auto simp: node_set no_links_def)
  qed
  then have I: "?I fs'" using assms(6) by simp
  have "rooted fs'" using keepsD [OF rooting.keeps_all_dirs assms(4), of priv dest m] assms(6) by simp
  then show "added ws fs fs'" "no_links fs' dest" "\<not> prefix p dest \<Longrightarrow> node fs' p = node fs p" using I unfolding added_def by blast+
qed

lemma os_rename_spec:
  assumes "comps old" and "comps new" and "real_path fs (butlast old)" and "real_path fs (butlast new)" and "os_rename priv old new fs = (r, fs')"
  obtains (idle) "fs' = fs" "\<exists>e. r = Inl e" | (same) "fs' = fs" "old = new"
  | (moved) n m where "fs' = fs_move old new fs" "node fs old = Some n" "node fs (butlast new) = Some (Dir m)" "\<not> prefix old new"
      "\<And>k. node fs new \<noteq> Some (Dir k)" "new \<noteq> []"
proof (cases "os_parent priv old fs")
  case (Inl e)
  then show thesis using idle assms(5) by (auto simp: os_rename_def)
next
  case p1: (Inr x)
  obtain d1 m1 where x: "x = (d1, m1)" by (cases x)
  show thesis
  proof (cases "os_parent priv new fs")
    case (Inl e)
    then show thesis using idle assms(5) p1 x by (auto simp: os_rename_def)
  next
    case (Inr y)
    obtain d2 m2 where y: "y = (d2, m2)" by (cases y)
    show thesis
    proof (cases "old = [] \<or> new = []")
      case True
      then show thesis using idle assms(5) p1 x Inr y by (auto simp: os_rename_def)
    next
      case False
      have d1: "d1 = butlast old" using os_parent_no_links(1) [OF comps_plain [OF assms(1)] real_no_links [OF assms(3)]] p1 x by simp
      have d2: "d2 = butlast new" "node fs d2 = Some (Dir m2)"
        using os_parent_no_links [OF comps_plain [OF assms(2)] real_no_links [OF assms(4)]] Inr y by simp_all
      have eq: "d1 @ [last old] = old" "d2 @ [last new] = new" using d1 d2 False by simp_all
      show thesis using idle same moved assms(5) p1 x Inr y False d2 eq
        by (auto simp: os_rename_def Let_def split: option.splits if_splits fnode.splits)
    qed
  qed
qed

definition only_at :: "fpath \<Rightarrow> fs \<Rightarrow> fs \<Rightarrow> bool" where
  "only_at stage fs0 fs \<longleftrightarrow> rooted fs \<and> (\<forall>p. \<not> prefix stage p \<longrightarrow> node fs p = node fs0 p)"

lemma rooted_none: "rooted fs \<Longrightarrow> node fs q = None \<Longrightarrow> prefix q p \<Longrightarrow> node fs p = None"
  by (metis not_Some_eq prefix_order.le_less rooted_below)

lemma only_added:
  assumes "only_at stage fs f" and "rooted fs" and "node fs stage = None" and "strict_prefix ws stage"
  shows "added ws fs f"
proof -
  have "strict_prefix ws p" if "prefix stage p" for p using assms(4) that by (rule prefix_order.less_le_trans)
  then show ?thesis using assms(1) rooted_none [OF assms(2,3)] unfolding added_def only_at_def by (metis option.distinct(1))
qed

lemma only_removeall:
  assumes "only_at stage fs0 fs" and "comps stage" and "stage \<noteq> []" and "real_path fs (butlast stage)"
  shows "only_at stage fs0 (snd (os_removeall priv stage fs))"
proof -
  obtain r fs' where s: "os_removeall priv stage fs = (r, fs')" by (cases "os_removeall priv stage fs")
  have "rooted fs'" using keepsD [OF rooted_removeall] assms(1) s unfolding only_at_def by (metis snd_conv)
  then show ?thesis using assms(1) os_removeall_spec(1) [OF assms(2-4) s] s by (simp add: only_at_def)
qed

lemma only_parent: "only_at stage fs0 fs \<Longrightarrow> stage = d @ [c] \<Longrightarrow> real_path fs0 d \<Longrightarrow> real_path fs d"
  unfolding only_at_def real_path_def by (metis append_self_conv not_Cons_self2 prefixI prefix_order.antisym prefix_order.trans)

text \<open>Extraction into a directory just made stays in it.\<close>

lemma extract_stage:
  assumes "rooted fs" and "comps stage" and "node fs stage = None" and "real_path fs (butlast stage)"
    and "artifact_Extract priv sha encode unpack lim blob stage meta (fs_set stage (Dir 448) fs) = (r, fs2)"
  shows "only_at stage fs fs2" and "real_path fs2 stage"
proof -
  let ?fs1 = "fs_set stage (Dir 448) fs"
  have ne: "stage \<noteq> []" using assms(3) by auto
  obtain m where "node fs (butlast stage) = Some (Dir m)" using assms(4) by (auto simp: real_path_def)
  then have r1: "rooted ?fs1" using rooted_set [OF assms(1,3)] by blast
  have "node ?fs1 stage = Some (Dir 448)" using ne by (simp add: node_set)
  then have real: "real_path ?fs1 stage" by (rule rooted_real [OF r1])
  have "linkless stage ?fs1" using rooted_none [OF assms(1,3)] ne by (auto simp: linkless_def node_set)
  then have i: "inside_only stage ?fs1 fs2" using artifact_Extract_inside [OF assms(2) real] assms(5) by (metis snd_conv)
  have "rooted fs2" using keepsD [OF rooting.keeps_extract r1] assms(5) by (metis snd_conv)
  moreover have "node fs2 p = node fs p" if "\<not> prefix stage p" for p
  proof -
    have "\<not> strict_prefix stage p" "p \<noteq> stage" using that by auto
    then show ?thesis using i ne by (simp add: inside_only_def sealed_def outside_same_def node_set)
  qed
  ultimately show "only_at stage fs fs2" by (simp add: only_at_def)
  show "real_path fs2 stage" using i by (simp add: inside_only_def sealed_def)
qed

lemma path_base_flat: "slash \<notin> set (path_base p) \<or> path_base p = ''/''"
proof -
  let ?q = "rev (dropWhile (\<lambda>x. x = slash) (rev p))"
  have "slash \<notin> set (last (split_on slash ?q))" using split_on_no_sep [of "last (split_on slash ?q)" slash ?q] by simp
  then show ?thesis by (auto simp: path_base_def Let_def slash_def)
qed

lemma extract_root:
  assumes "artifact_Extract priv sha encode unpack lim blob stage meta fs = (Inr u, fs2)"
  shows "plain (AmRootName meta)" and "slash \<notin> set (AmRootName meta)"
proof -
  have "validateMetadata lim meta = Inr ()" using assms by (cases "validateMetadata lim meta") (auto simp: artifact_Extract_def io_bind_def io_of_def)
  then have u: "\<not> unsafePath (AmRootName meta)" and b: "path_base (AmRootName meta) = AmRootName meta"
    by (auto simp: validateMetadata_def split: if_splits)
  show "slash \<notin> set (AmRootName meta)" using path_base_flat [of "AmRootName meta"] b u
    by (auto simp: unsafePath_def Let_def path_is_abs_def has_prefix_def slash_def)
  then have "split_on slash (AmRootName meta) = [AmRootName meta]" by (rule split_on_single)
  then show "plain (AmRootName meta)" using safe_plain [OF u] by (simp add: plain_path_def)
qed

lemma moved_adds:
  assumes fs: "rooted fs" "node fs stage = None" "real_path fs dest" and stage: "stage = dest @ [c]" and ws: "prefix ws dest"
    and f: "only_at stage fs f" and b: "node fs (dest @ [root]) = None"
    and n: "node f (stage @ [root]) = Some n" and free: "\<And>k. node f (dest @ [root]) \<noteq> Some (Dir k)" and apart: "\<not> prefix (stage @ [root]) (dest @ [root])"
  shows "added ws fs (fs_move (stage @ [root]) (dest @ [root]) f)" and "real_path (fs_move (stage @ [root]) (dest @ [root]) f) dest"
    and "node (fs_move (stage @ [root]) (dest @ [root]) f) p = node f p \<or> prefix (stage @ [root]) p \<or> prefix (dest @ [root]) p"
proof -
  let ?a = "stage @ [root]" and ?b = "dest @ [root]"
  have rf: "rooted f" and same: "\<And>p. \<not> prefix stage p \<Longrightarrow> node f p = node fs p" using f by (auto simp: only_at_def)
  obtain k where k: "node f stage = Some (Dir k)" using rooted_parent [OF rf n] by blast
  have neq: "stage \<noteq> ?b" using k free [of k] by auto
  have nb: "node f ?b = None" using same [of ?b] b neq stage by (auto simp: prefix_snoc)
  have ba: "\<not> prefix ?b ?a" using nb neq k rooted_below [OF rf n, of ?b] stage by (auto simp: strict_prefix_def prefix_def)
  note nd = node_move [OF apart ba, of f]
  have real: "real_path f dest" using only_parent [OF f stage fs(3)] .
  then obtain m where m: "node f (butlast ?b) = Some (Dir m)" by (auto simp: real_path_def)
  have "rooted (fs_move ?a ?b f)" using rooted_move [OF rf n m nb apart ba] .
  moreover have sub: "prefix ?a p \<Longrightarrow> prefix stage p" for p by (auto simp: prefix_def)
  moreover have "node (fs_move ?a ?b f) p = node fs p" if "\<not> strict_prefix ws p" for p
  proof -
    have "\<not> prefix stage p" "\<not> prefix ?b p" using that ws stage by (auto simp: strict_prefix_def prefix_def)
    then show ?thesis using same sub by (auto simp: nd)
  qed
  moreover have "node (fs_move ?a ?b f) p = Some k" if "node fs p = Some k" for p k
  proof -
    have "\<not> prefix stage p" "\<not> prefix ?b p" using that rooted_none [OF fs(1,2)] rooted_none [OF fs(1) b] by force+
    then show ?thesis using that same sub by (auto simp: nd)
  qed
  ultimately show "added ws fs (fs_move ?a ?b f)" unfolding added_def by blast
  have "\<not> prefix ?a q \<and> \<not> prefix ?b q" if "prefix q dest" for q
    using that stage prefix_length_le [of q dest] by (auto dest!: prefix_length_le)
  then show "real_path (fs_move ?a ?b f) dest" using real unfolding real_path_def nd by simp
  show "node (fs_move ?a ?b f) p = node f p \<or> prefix ?a p \<or> prefix ?b p" by (simp add: nd)
qed

lemma place_adds:
  assumes ws: "prefix ws dest" and dest: "comps dest" and fs: "rooted fs" "no_links fs dest" and pick: "comps [pick dest fs]"
    and final: "plain (AmRootName meta) \<Longrightarrow> slash \<notin> set (AmRootName meta) \<Longrightarrow> node fs (dest @ [AmRootName meta]) = None"
    and p: "place_artifact priv sha encode unpack pick lim dest meta data fs = (r, fs')"
  shows "added ws fs fs'"
proof -
  let ?stage = "dest @ [pick dest fs]" and ?root = "AmRootName meta"
  have st: "comps ?stage" "?stage \<noteq> []" "strict_prefix ws ?stage" using dest pick ws by (auto simp: strict_prefix_def prefix_def)
  have nb: "no_links fs (butlast ?stage)" using fs(2) by simp
  from comps_plain [OF st(1)] nb show ?thesis
  proof (cases rule: os_create_no_links [of ?stage fs priv "Dir 448"])
    case (idle e)
    then show ?thesis using p added_refl [OF fs(1)] by (auto simp: place_artifact_def io_bind_def io_map_err_def os_mkdirtemp_def)
  next
    case made
    then have none: "node fs ?stage = None" and dir: "real_path fs dest" using rooted_real [OF fs(1)] by auto
    let ?fs1 = "fs_set ?stage (Dir 448) fs"
    obtain r2 fs2 where ex: "artifact_Extract priv sha encode unpack lim (Some data) ?stage meta ?fs1 = (r2, fs2)"
      by (cases "artifact_Extract priv sha encode unpack lim (Some data) ?stage meta ?fs1")
    have o2: "only_at ?stage fs fs2" and real2: "real_path fs2 ?stage" using extract_stage [OF fs(1) st(1) none _ ex] dir by simp_all
    have d2: "real_path fs2 dest" using only_parent [OF o2 refl dir] .
    have gone: "added ws fs (snd (os_removeall priv ?stage fs2))"
      using only_added [OF only_removeall [OF o2 st(1,2)] fs(1) none st(3)] d2 by simp
    show ?thesis
    proof (cases r2)
      case (Inl e)
      then show ?thesis using p gone ex made(1) by (auto simp: place_artifact_def io_bind_def io_map_err_def os_mkdirtemp_def)
    next
      case (Inr u)
      have root: "plain ?root" "slash \<notin> set ?root" using extract_root [OF ex [unfolded Inr]] by simp_all
      have j: "path_join ?stage ?root = ?stage @ [?root]" "path_join dest ?root = dest @ [?root]"
        using path_join_single [OF comps_plain root] st(1) dest by blast+
      obtain r3 fs3 where rn: "os_rename priv (?stage @ [?root]) (dest @ [?root]) fs2 = (r3, fs3)"
        by (cases "os_rename priv (?stage @ [?root]) (dest @ [?root]) fs2")
      have res: "fs' = snd (os_removeall priv ?stage fs3)"
        using p ex Inr made(1) rn j by (cases r3) (auto simp: place_artifact_def io_bind_def io_map_err_def os_mkdirtemp_def split: prod.splits sum.splits)
      have cs: "comps (?stage @ [?root])" "comps (dest @ [?root])" using st(1) dest root by auto
      have up: "real_path fs2 (butlast (?stage @ [?root]))" "real_path fs2 (butlast (dest @ [?root]))"
        using real2 d2 by (simp_all only: butlast_snoc)
      from cs up rn show ?thesis
      proof (cases rule: os_rename_spec)
        case idle
        then show ?thesis using gone res by simp
      next
        case same
        then show ?thesis using gone res by simp
      next
        case (moved n m)
        note mv = moved_adds [OF fs(1) none dir refl ws o2 final [OF root] moved(2,5,4)]
        have a3: "added ws fs fs3" and d3: "real_path fs3 dest" using mv(1,2) moved(1) by simp_all
        obtain r4 where rm: "os_removeall priv ?stage fs3 = (r4, fs')" using res by (cases "os_removeall priv ?stage fs3") simp
        have "rooted fs'" using keepsD [OF rooted_removeall, of fs3 priv ?stage] a3 res by (simp add: added_def)
        moreover have "node fs' q = node fs3 q" if "\<not> prefix ?stage q" for q using os_removeall_spec(1) [OF st(1,2) _ rm that] d3 by simp
        moreover have "strict_prefix ws q" if "prefix ?stage q" for q using st(3) that by (rule prefix_order.less_le_trans)
        ultimately show ?thesis using a3 rooted_none [OF fs(1) none] unfolding added_def by (metis option.distinct(1))
      qed
    qed
  qed
qed

section \<open>Whole restorations\<close>

text \<open>A step that starts in a rooted file system with a real workspace and only adds to it.\<close>

definition adding :: "fpath \<Rightarrow> ('e, 'a) io \<Rightarrow> bool" where
  "adding ws f \<longleftrightarrow> (\<forall>fs. rooted fs \<longrightarrow> real_path fs ws \<longrightarrow> added ws fs (snd (f fs)))"

lemma adding_bind: "adding ws f \<Longrightarrow> (\<And>x. adding ws (g x)) \<Longrightarrow> adding ws (io_bind f g)"
  unfolding adding_def
proof (intro allI impI)
  fix fs assume f: "\<forall>fs. rooted fs \<longrightarrow> real_path fs ws \<longrightarrow> added ws fs (snd (f fs))"
    and g: "\<And>x. \<forall>fs. rooted fs \<longrightarrow> real_path fs ws \<longrightarrow> added ws fs (snd (g x fs))" and fs: "rooted fs" "real_path fs ws"
  obtain r fs1 where r: "f fs = (r, fs1)" by (cases "f fs")
  have a: "added ws fs fs1" using f fs r by (metis snd_conv)
  then have "rooted fs1" "real_path fs1 ws" using added_real [OF a fs(2)] by (simp_all add: added_def)
  then show "added ws fs (snd (io_bind f g fs))" using a g added_trans [OF a] r by (cases r) (simp_all add: io_bind_def)
qed

lemma adding_pure: "(\<And>fs. snd (f fs) = fs) \<Longrightarrow> adding ws f"
  by (simp add: adding_def added_refl)

lemma adding_idle: "adding ws (io_return x)" "adding ws (io_fail e)"
  by (simp_all add: adding_pure io_return_def io_fail_def)

text \<open>The end of every restoration: the destination is checked, nothing is at the final path, the destination is
  made, once or twice, and the artifact is placed.\<close>

lemma placing_adds:
  assumes ws: "comps ws" and pick: "\<And>d f. comps [pick d f]" and fs: "rooted fs" "real_path fs ws"
    and d: "safeDestination priv ws rel fs = Inr dest" and a: "os_lstat priv (path_join dest (AmRootName meta)) fs = Inl ErrNotExist"
    and m1: "os_mkdirall priv dest 448 fs = (r1, fs1)" and m2: "os_mkdirall priv dest 448 fs1 = (r2, fs2)"
  shows "added ws fs fs1" and "added ws fs fs2" and "added ws fs (snd (place_artifact priv sha encode unpack pick lim dest meta data fs1))"
    and "added ws fs (snd (place_artifact priv sha encode unpack pick lim dest meta data fs2))"
proof -
  note s = safeDestination_spec [OF ws fs d]
  note x1 = mkdirall_adds [OF s(1,2) fs(2,1) s(3) m1]
  have fs1: "rooted fs1" "real_path fs1 ws" using x1(1) added_real [OF x1(1) fs(2)] by (simp_all add: added_def)
  note x2 = mkdirall_adds [OF s(1,2) fs1(2,1) x1(2) m2]
  have fs2: "rooted fs2" using x2(1) by (simp add: added_def)
  have none: "node fs (dest @ [AmRootName meta]) = None" if r: "plain (AmRootName meta)" "slash \<notin> set (AmRootName meta)"
    using missing_node [OF fs(1), of "dest @ [AmRootName meta]"] s(1,3) r a path_join_single [OF comps_plain [OF s(1)] r] by simp
  have long: "\<not> prefix (dest @ [c]) dest" for c by (auto dest: prefix_length_le)
  show "added ws fs fs1" by (rule x1(1))
  show "added ws fs fs2" by (rule added_trans [OF x1(1) x2(1)])
  have p1: "added ws fs1 (snd (place_artifact priv sha encode unpack pick lim dest meta data fs1))"
    by (rule place_adds [where pick = pick and data = data, OF s(2,1) fs1(1) x1(2) pick _ prod.collapse [symmetric]]) (use none x1(3) [OF long] in simp)
  show "added ws fs (snd (place_artifact priv sha encode unpack pick lim dest meta data fs1))" by (rule added_trans [OF x1(1) p1])
  have p2: "added ws fs2 (snd (place_artifact priv sha encode unpack pick lim dest meta data fs2))"
    by (rule place_adds [where pick = pick and data = data, OF s(2,1) fs2 x2(2) pick _ prod.collapse [symmetric]]) (use none x1(3) [OF long] x2(3) [OF long] in simp)
  show "added ws fs (snd (place_artifact priv sha encode unpack pick lim dest meta data fs2))"
    by (rule added_trans [OF x1(1) added_trans [OF x2(1) p2]])
qed

lemma bind_lift:
  "io_bind (\<lambda>fs. lift_err h (r fs) fs) g fs = (case r fs of Inl e \<Rightarrow> (Inl (h e), fs) | Inr x \<Rightarrow> g x fs)"
  "io_bind (lift_err h r') g fs = (case r' of Inl e \<Rightarrow> (Inl (h e), fs) | Inr x \<Rightarrow> g x fs)"
  by (simp_all add: io_bind_def lift_err_def split: sum.splits)

lemma remote_item_adds:
  assumes "comps (AsWorkspace s)" and "\<And>d f. comps [pick d f]"
  shows "adding (AsWorkspace s) (remote_restore_item priv sha encode unpack pick tr s w consumer item)"
  unfolding adding_def
proof (intro allI impI)
  fix fs assume fs: "rooted fs" "real_path fs (AsWorkspace s)"
  note same = added_refl [OF fs(1)]
  have "added (AsWorkspace s) fs (snd (io_bind (absent priv (path_join dest (AmRootName meta))) (\<lambda>_.
      io_bind (io_map_err (\<lambda>_. InfraError ''mkdir'') (os_mkdirall priv dest 448)) (\<lambda>_.
      place_artifact priv sha encode unpack pick (AsLimits s) dest meta data)) fs))"
    if d: "safeDestination priv (AsWorkspace s) (Into item) fs = Inr dest" for dest meta data
  proof (cases "os_lstat priv (path_join dest (AmRootName meta)) fs = Inl ErrNotExist")
    case True
    obtain r1 fs1 where m1: "os_mkdirall priv dest 448 fs = (r1, fs1)" by (cases "os_mkdirall priv dest 448 fs")
    obtain r2 fs2 where m2: "os_mkdirall priv dest 448 fs1 = (r2, fs2)" by (cases "os_mkdirall priv dest 448 fs1")
    show ?thesis using placing_adds(1,3) [OF assms fs d True m1 m2] True m1
      by (cases r1) (auto simp: io_bind_def io_map_err_def absent_def)
  next
    case False
    then show ?thesis using same by (auto simp: io_bind_def absent_def split: sum.splits os_error.splits)
  qed
  then show "added (AsWorkspace s) fs (snd (remote_restore_item priv sha encode unpack pick tr s w consumer item fs))"
    using same by (auto simp: remote_restore_item_def bind_lift split: sum.splits)
qed

lemma local_item_adds:
  assumes "comps (AsWorkspace s)" and "\<And>d f. comps [pick d f]"
  shows "adding (AsWorkspace s) (artifact_restore_item priv sha encode unpack pick cb s st d item)"
  unfolding adding_def
proof (intro allI impI)
  fix fs assume fs: "rooted fs" "real_path fs (AsWorkspace s)"
  note same = added_refl [OF fs(1)]
  have "added (AsWorkspace s) fs (snd (io_bind (absent priv (path_join dest (AmRootName meta))) (\<lambda>_.
      io_bind (io_map_err (\<lambda>_. InfraError ''mkdir'') (os_mkdirall priv dest 448)) (\<lambda>_.
      io_bind (lift_err (\<lambda>_. InfraError ''openblob'') (OpenBlob (AmBlob meta) st)) (\<lambda>blob.
      io_bind (\<lambda>fs. lift_err InfraError (if temp_usable priv (AsTemp s) fs then Inr () else Inl ''createtemp'') fs) (\<lambda>_.
      io_bind (lift_err InfraError (CopyVerified sha (Some blob) (AmArchiveSize meta) (AmBlob meta) (MaxArchiveBytes (AsLimits s)))) (\<lambda>data.
      io_bind (io_map_err (\<lambda>_. InfraError ''mkdir'') (os_mkdirall priv dest 448)) (\<lambda>_.
      place_artifact priv sha encode unpack pick (AsLimits s) dest meta data)))))) fs))"
    if d: "safeDestination priv (AsWorkspace s) (Into item) fs = Inr dest" for dest meta
  proof (cases "os_lstat priv (path_join dest (AmRootName meta)) fs = Inl ErrNotExist")
    case True
    obtain r1 fs1 where m1: "os_mkdirall priv dest 448 fs = (r1, fs1)" by (cases "os_mkdirall priv dest 448 fs")
    obtain r2 fs2 where m2: "os_mkdirall priv dest 448 fs1 = (r2, fs2)" by (cases "os_mkdirall priv dest 448 fs1")
    note pl = placing_adds [OF assms fs d True m1 m2]
    have "added (AsWorkspace s) fs (snd (io_bind (io_map_err (\<lambda>_. InfraError ''mkdir'') (os_mkdirall priv dest 448)) (\<lambda>_.
        place_artifact priv sha encode unpack pick (AsLimits s) dest meta data) fs1))" for data
      using pl(2,4) m2 by (cases r2) (auto simp: io_bind_def io_map_err_def)
    then have "added (AsWorkspace s) fs (snd (io_bind (lift_err (\<lambda>_. InfraError ''openblob'') (OpenBlob (AmBlob meta) st)) (\<lambda>blob.
        io_bind (\<lambda>fs. lift_err InfraError (if temp_usable priv (AsTemp s) fs then Inr () else Inl ''createtemp'') fs) (\<lambda>_.
        io_bind (lift_err InfraError (CopyVerified sha (Some blob) (AmArchiveSize meta) (AmBlob meta) (MaxArchiveBytes (AsLimits s)))) (\<lambda>data.
        io_bind (io_map_err (\<lambda>_. InfraError ''mkdir'') (os_mkdirall priv dest 448)) (\<lambda>_.
        place_artifact priv sha encode unpack pick (AsLimits s) dest meta data)))) fs1))"
      using pl(1) by (auto simp: bind_lift split: sum.splits)
    then show ?thesis using pl(1) True m1
      by (cases r1) (simp_all add: io_bind_def [of "absent _ _"] io_bind_def [of "io_map_err _ _"] io_map_err_def absent_def)
  next
    case False
    then show ?thesis using same by (auto simp: io_bind_def [of "absent _ _"] absent_def split: sum.splits os_error.splits)
  qed
  then show "added (AsWorkspace s) fs (snd (artifact_restore_item priv sha encode unpack pick cb s st d item fs))"
    using same by (auto simp: artifact_restore_item_def bind_lift Let_def split: sum.splits)
qed

lemma local_Restore_adds:
  assumes "comps (AsWorkspace s)" and "\<And>d f. comps [pick d f]"
  shows "adding (AsWorkspace s) (artifact_Restore priv sha encode unpack pick cb s st d items)"
proof (induction items)
  case (Cons x items)
  then show ?case by (cases x) (auto intro!: adding_idle adding_bind local_item_adds [where pick = pick, OF assms])
qed (simp add: adding_idle)

lemma remote_Restore_adds:
  assumes "comps (AsWorkspace s)" and "\<And>d f. comps [pick d f]"
  shows "adding (AsWorkspace s) (remote_Restore priv sha encode unpack pick tr s w consumer items)"
  by (induction items) (auto intro!: adding_idle adding_bind remote_item_adds [where pick = pick, OF assms])

section \<open>What a publication reads\<close>

lemma resolve_clean:
  assumes "no_links fs cur" and "list_all plain cur" and "resolve priv fs n cur cs = Inr q"
  shows "no_links fs q \<and> list_all plain q"
  using assms
proof (induction priv fs n cur cs rule: resolve.induct)
  case (2 priv fs n cur c cs)
  have up: "no_links fs (butlast cur)" "list_all plain (butlast cur)"
    using no_links_prefix [OF "2.prems"(1) butlast_prefix] "2.prems"(2) by (auto simp: list_all_iff dest: in_set_butlastD)
  have down: "no_links fs (cur @ [c])" if "\<And>t. node fs (cur @ [c]) \<noteq> Some (Link t)"
    using that "2.prems"(1) by (auto simp: no_links_def prefix_snoc)
  have start: "no_links fs []" by (simp add: no_links_def)
  obtain m where m: "node fs cur = Some (Dir m)" "x_ok priv m" using "2.prems"(3) by (auto split: option.splits fnode.splits if_splits)
  show ?case
  proof (cases "plain c")
    case False
    then have "(c = '''' \<or> c = ''.'') \<or> c = ''..''" by (auto simp: plain_def)
    then show ?thesis using "2.IH"(1,2) [OF m(1) refl] "2.prems" m up by (auto split: if_splits)
  next
    case True
    then have c: "\<not> (c = '''' \<or> c = ''.'')" "c \<noteq> ''..''" by (auto simp: plain_def)
    obtain nd where nd: "node fs (cur @ [c]) = Some nd" using "2.prems"(3) m c by (auto split: option.splits)
    note IH = "2.IH"(3-5) [OF m(1) refl _ c nd]
    show ?thesis
    proof (cases nd)
      case (Link t)
      then obtain k where k: "n = Suc k" using "2.prems"(3) m c nd by (cases n) auto
      show ?thesis using IH(3) [OF _ Link k] "2.prems" m c nd Link k start by (auto split: if_splits)
    next
      case (Dir j)
      show ?thesis using IH(1) [OF _ Dir] "2.prems" m c nd Dir down True by auto
    next
      case (Regular j w)
      show ?thesis using IH(2) [OF _ Regular] "2.prems" m c nd Regular down True by auto
    qed
  qed
qed simp

lemma safeSource_inside:
  assumes "safeSource priv ws rel fs = Inr p" and "os_locate priv p fs = Inr b"
  shows "prefix ws b"
proof -
  let ?c = "path_join ws rel"
  obtain parent where e: "fst (eval_symlinks priv (butlast ?c) fs) = Inr parent" "within ws parent" "p = (if ?c = [] then parent else parent @ [last ?c])"
    using assms(1) by (auto simp: safeSource_def Let_def split: sum.splits if_splits)
  have r: "resolve priv fs max_links [] (butlast ?c) = Inr parent" using e(1) by (auto simp: eval_symlinks_def rbind_eq_Inr split: option.splits)
  have cl: "no_links fs parent" "list_all plain parent" using resolve_clean [OF _ _ r] by (auto simp: no_links_def)
  have ws: "prefix ws parent" using within_iff [OF plain_no_up [OF cl(2)]] e(2) by simp
  show ?thesis
  proof (cases "p = []")
    case True
    then show ?thesis using assms(2) ws e(3) by (auto simp: os_locate_def split: if_splits)
  next
    case False
    then obtain d m where d: "os_parent priv p fs = Inr (d, m)" "b = d @ [last p]" using assms(2) by (auto simp: os_locate_def rbind_eq_Inr)
    then have rd: "resolve priv fs max_links [] (butlast p) = Inr d"
      by (cases "resolve priv fs max_links [] (butlast p)") (auto simp: os_parent_def split: option.splits fnode.splits if_splits)
    show ?thesis
    proof (cases "?c = []")
      case True
      then have "ws = []" using r ws by (simp add: e(3))
      then show ?thesis by simp
    next
      case False
      then have "d = parent" using resolve_no_links [of parent fs "[]" priv max_links d] cl rd e(3) by simp
      then show ?thesis using ws d(2) by simp
    qed
  qed
qed

lemma headers_of_content:
  assumes "headers_of priv sha later es = Inr hs" and "h \<in> set hs" and "TType h = TypeReg"
  shows "\<exists>e m. e \<in> set es \<and> EnType e = KFile \<and> node later (EnHost e) = Some (Regular m (TContent h))"
  using assms
proof (induction es arbitrary: hs)
  case (Cons e es)
  then obtain k ks where k: "header_of priv sha later e = Inr k" "headers_of priv sha later es = Inr ks" "hs = k # ks" by (auto simp: rbind_eq_Inr)
  show ?case
  proof (cases "h = k")
    case True
    then show ?thesis using k(1) Cons.prems(3)
      by (auto simp: header_of_def split: entry_type.splits option.splits fnode.splits if_splits)
  next
    case False
    then show ?thesis using Cons.IH [OF k(2)] Cons.prems k(3) by auto
  qed
qed simp

lemma artifact_scan_hosts:
  assumes "artifact_scan_all priv sha lim root base fs ps acc = Inr (es, l)" and "e \<in> set es"
  shows "e \<in> set (fst acc) \<or> EnHost e \<in> set ps"
  using assms(1)
proof (induction ps arbitrary: acc)
  case Nil
  then show ?case using assms(2) by simp
next
  case (Cons p ps)
  then obtain a where a: "artifact_scan_entry priv sha lim root base fs p acc = Inr a" "artifact_scan_all priv sha lim root base fs ps a = Inr (es, l)"
    by (auto simp: rbind_eq_Inr)
  have "\<forall>e' \<in> set (fst a). e' \<in> set (fst acc) \<or> EnHost e' = p"
    using a(1) by (auto simp: artifact_scan_entry_def Let_def rbind_eq_Inr split: option.splits fnode.splits if_splits)
  then show ?case using Cons.IH [OF a(2)] by auto
qed

lemma artifact_Capture_reads:
  assumes "artifact_Capture priv sha encode pack lim now source name fs later = Inr (meta, data)"
  obtains base hs where "os_locate priv source fs = Inr base" "data = pack hs"
    "\<And>h. h \<in> set hs \<Longrightarrow> TType h = TypeReg \<Longrightarrow> \<exists>q m. prefix base q \<and> node later q = Some (Regular m (TContent h))"
proof -
  obtain es l hs where s: "artifact_scan priv sha lim source (base_name source) fs = Inr (es, l)" "headers_of priv sha later es = Inr hs" "data = pack hs"
    using assms by (auto simp: artifact_Capture_def rbind_eq_Inr Let_def split: if_splits sum.splits option.splits)
  then obtain b where b: "os_locate priv source fs = Inr b" by (cases "os_locate priv source fs") (auto simp: artifact_scan_def)
  then obtain es0 where e0: "artifact_scan_all priv sha lim (base_name source) b fs (artifact_walk b fs) ([], 0) = Inr (es0, l)" "es = sort_key EnPath es0"
    using s(1) by (auto simp: artifact_scan_def rbind_eq_Inr)
  have "prefix b (EnHost e)" if "e \<in> set es" for e
    using artifact_scan_hosts [OF e0(1), of e] that e0(2) by (auto simp: artifact_walk_def strict_prefix_def)
  then show thesis using that [OF b s(3)] headers_of_content [OF s(2)] by blast
qed

lemma capture_all_reads:
  assumes "capture_all priv sha encode pack s now fs later items = Inr cs"
  shows "\<forall>(meta, data) \<in> set cs. \<exists>hs. data = pack hs \<and> AmBlob meta = sha data \<and>
      (\<forall>h \<in> set hs. TType h = TypeReg \<longrightarrow> (\<exists>q m. prefix (AsWorkspace s) q \<and> node later q = Some (Regular m (TContent h))))"
    and "map (\<lambda>(meta, _). AmName meta) cs = map UpName items"
proof -
  let ?ok = "\<lambda>(meta, data). \<exists>hs. data = pack hs \<and> AmBlob meta = sha data \<and>
    (\<forall>h \<in> set hs. TType h = TypeReg \<longrightarrow> (\<exists>q m. prefix (AsWorkspace s) q \<and> node later q = Some (Regular m (TContent h))))"
  have "(\<forall>c \<in> set cs. ?ok c) \<and> map (\<lambda>(meta, _). AmName meta) cs = map UpName items" using assms
  proof (induction items arbitrary: cs)
    case (Cons item items)
    then obtain source meta data cs' where c: "safeSource priv (AsWorkspace s) (UpPath item) fs = Inr source"
        "artifact_Capture priv sha encode pack (AsLimits s) now source (UpName item) fs later = Inr (meta, data)"
        "capture_all priv sha encode pack s now fs later items = Inr cs'" "cs = (meta, data) # cs'"
      by (auto simp: rbind_eq_Inr split: sum.splits if_splits)
    obtain b hs where b: "os_locate priv source fs = Inr b" "data = pack hs"
        "\<And>h. h \<in> set hs \<Longrightarrow> TType h = TypeReg \<Longrightarrow> \<exists>q m. prefix b q \<and> node later q = Some (Regular m (TContent h))"
      using artifact_Capture_reads [OF c(2)] by blast
    have m: "AmBlob meta = sha data" "AmName meta = UpName item"
      using c(2) by (auto simp: artifact_Capture_def rbind_eq_Inr Let_def split: sum.splits option.splits if_splits)
    have "prefix (AsWorkspace s) q" if "prefix b q" for q using safeSource_inside [OF c(1) b(1)] that prefix_order.trans by blast
    then have "\<forall>h \<in> set hs. TType h = TypeReg \<longrightarrow> (\<exists>q m. prefix (AsWorkspace s) q \<and> node later q = Some (Regular m (TContent h)))" using b(3) by blast
    then have "?ok (meta, data)" using b(2) m(1) by auto
    then show ?case using Cons.IH [OF c(3)] c(4) m(2) by simp
  qed simp
  then show "\<forall>c \<in> set cs. ?ok c" and "map (\<lambda>(meta, _). AmName meta) cs = map UpName items" by (rule conjunct1, rule conjunct2)
qed

lemma put_all_stores:
  assumes "put_all sha now canceled cs st = (r, st')" and "blobs st' digest = Some (content, t)"
  shows "blobs st digest = Some (content, t) \<or> (\<exists>meta. (meta, content) \<in> set cs \<and> digest = AmBlob meta \<and> sha content = digest)"
  using assms(1)
proof (induction cs arbitrary: st)
  case (Cons c cs)
  obtain meta data where c: "c = (meta, data)" by (cases c)
  show ?case
  proof (cases "Put sha now (AmBlob meta) (AmArchiveSize meta) (if canceled then None else Some data) st")
    case (Inl e)
    then show ?thesis using Cons.prems assms(2) c by simp
  next
    case (Inr x)
    obtain n st1 where x: "x = (n, st1)" by (cases x)
    have p: "Put sha now (AmBlob meta) (AmArchiveSize meta) (if canceled then None else Some data) st = Inr (n, st1)" using Inr x by simp
    have "blobs st1 digest = Some (content, t) \<Longrightarrow> blobs st digest = Some (content, t) \<or> content = data \<and> digest = AmBlob meta \<and> sha content = digest"
      using p by (rule Put_cases) (auto split: if_splits)
    then show ?thesis using Cons.IH [of st1] Cons.prems Inr x c by auto
  qed
qed (use assms(2) in simp)

lemma put_all_has:
  assumes "put_all sha now canceled cs st = (Inr u, st')" and "(meta, data) \<in> set cs"
  shows "\<exists>content. OpenBlob (AmBlob meta) st' = Inr content \<and> sha content = AmBlob meta \<and> int (length content) = AmArchiveSize meta"
  using assms
proof (induction cs arbitrary: st)
  case (Cons c cs)
  obtain m x where c: "c = (m, x)" by (cases c)
  obtain n st1 where p: "Put sha now (AmBlob m) (AmArchiveSize m) (if canceled then None else Some x) st = Inr (n, st1)" "put_all sha now canceled cs st1 = (Inr u, st')"
    using Cons.prems(1) c by (auto split: sum.splits prod.splits)
  have keep: "OpenBlob dg st1 = Inr content \<Longrightarrow> OpenBlob dg st' = Inr content" for dg content
    using p(2)
  proof (induction cs arbitrary: st1)
    case (Cons e es)
    obtain m' x' where e: "e = (m', x')" by (cases e)
    obtain n' st2 where "Put sha now (AmBlob m') (AmArchiveSize m') (if canceled then None else Some x') st1 = Inr (n', st2)" "put_all sha now canceled es st2 = (Inr u, st')"
      using Cons.prems(2) e by (auto split: sum.splits prod.splits)
    then show ?case using Cons.IH Put_keeps Cons.prems(1) by blast
  qed simp
  show ?case using Cons.IH [OF p(2)] Cons.prems(2) c Put_OpenBlob [OF p(1)] keep by auto
qed simp

lemma record_all_records:
  assumes "record_all job metas s = (Inr u, s')" and "meta \<in> set metas"
  shows "\<exists>rec. AsRecords s' (record_key job (AmName meta)) = Some rec \<and> sameMetadata (RecMetadata rec) meta"
proof -
  have keep: "record_all job metas s = (r, s') \<Longrightarrow> AsRecords s k = Some rec \<Longrightarrow> AsRecords s' k = Some rec" for metas s r k rec
  proof (induction metas arbitrary: s)
    case (Cons m ms)
    show ?case
    proof (cases "AsRecords s (record_key job (AmName m))")
      case None
      then have "k \<noteq> record_key job (AmName m)" using Cons.prems(2) by auto
      then show ?thesis using Cons None by (simp add: Let_def)
    next
      case (Some old)
      then show ?thesis using Cons by (auto simp: Let_def split: if_splits)
    qed
  qed simp
  show ?thesis using assms
  proof (induction metas arbitrary: s)
    case (Cons m ms)
    show ?case
    proof (cases "AsRecords s (record_key job (AmName m))")
      case None
      let ?s = "s\<lparr> AsRecords := (AsRecords s)(record_key job (AmName m) \<mapsto> \<lparr> RecProducer = job, RecMetadata = m \<rparr>) \<rparr>"
      have r: "record_all job ms ?s = (Inr u, s')" using Cons.prems(1) None by (simp add: Let_def)
      have "AsRecords s' (record_key job (AmName m)) = Some \<lparr> RecProducer = job, RecMetadata = m \<rparr>" using keep [OF r] by simp
      then show ?thesis using Cons.IH [OF r] Cons.prems(2) by (auto simp: sameMetadata_def)
    next
      case (Some old)
      then have r: "record_all job ms s = (Inr u, s')" "sameMetadata (RecMetadata old) m" using Cons.prems(1) by (auto simp: Let_def split: if_splits)
      then show ?thesis using Cons.IH [OF r(1)] Cons.prems(2) keep [OF r(1) Some] by auto
    qed
  qed simp
qed

end
