(* ===== verification/Cache_Session.thy ===== *)
theory Cache_Session
  imports Artifact_Session Cache_Store
begin

text \<open>
  \<open>internal/cache/session.go\<close> and the archives of \<open>internal/cache/cache.go\<close>: what a job keeps from one run to
  the next. No failure of a cache fails the job; each item is reported in one line of the job's output, represented by
  its kind and key. The remote side is an argument of the session; \<open>LocalRemote\<close> is the one of the local mode, with
  the callbacks into the database that \<open>internal/controlplane/manager.go\<close> installs.
\<close>

section \<open>Archives\<close>

record cache_meta =
  CaKey :: string
  CaMeta :: ArtifactMeta
  CaLastAccessedAt :: time
  CaExpiresAt :: "time option"

definition CacheFormat :: string where "CacheFormat = ''cache-tar-gzip-v1''"

definition cache_Capture :: "bool \<Rightarrow> (string \<Rightarrow> string) \<Rightarrow> (Entry list \<Rightarrow> string) \<Rightarrow> (tar_header list \<Rightarrow> string) \<Rightarrow> Limits \<Rightarrow> time
    \<Rightarrow> fpath \<Rightarrow> string \<Rightarrow> fs \<Rightarrow> fs \<Rightarrow> (string, cache_meta \<times> string) result" where
  "cache_Capture priv sha encode pack lim now source key fs later =
    rbind (artifact_Capture priv sha encode pack lim now source key fs later) (\<lambda>(meta, data).
    Inr (\<lparr> CaKey = key, CaMeta = meta\<lparr> AmFormat := CacheFormat \<rparr>, CaLastAccessedAt = now, CaExpiresAt = None \<rparr>, data))"

definition cache_Extract :: "bool \<Rightarrow> (string \<Rightarrow> string) \<Rightarrow> (Entry list \<Rightarrow> string) \<Rightarrow> (string \<Rightarrow> (string, unpacked) result) \<Rightarrow> Limits
    \<Rightarrow> string option \<Rightarrow> fpath \<Rightarrow> cache_meta \<Rightarrow> (string, unit) io" where
  "cache_Extract priv sha encode unpack lim blob destination expected =
    artifact_Extract priv sha encode unpack lim blob destination ((CaMeta expected)\<lparr> AmFormat := Artifact_Store.Format \<rparr>)"

section \<open>The remote side\<close>

datatype lookup_error = ErrCacheMiss | LookupNotExist | LookupError string

record 'w cache_remote =
  RLookup :: "string \<Rightarrow> 'w \<Rightarrow> (lookup_error, cache_meta) result \<times> 'w"
  RDownload :: "cache_meta \<Rightarrow> 'w \<Rightarrow> (string, string) result"
  RUpload :: "cache_meta \<Rightarrow> string \<Rightarrow> 'w \<Rightarrow> (string, unit) result \<times> 'w"
  RCommit :: "cache_meta \<Rightarrow> 'w \<Rightarrow> (string, unit) result \<times> 'w"

record 'db local_cache =
  LcStore :: blob_store
  LcEntries :: "string \<Rightarrow> cache_meta option"
  LcDb :: 'db

text \<open>\<open>LookupFn\<close> and \<open>CommitFn\<close>, installed together.\<close>

record 'db cache_callbacks =
  LookupFn :: "string \<Rightarrow> 'db \<Rightarrow> (lookup_error, cache_meta) result \<times> 'db"
  CommitFn :: "cache_meta \<Rightarrow> 'db \<Rightarrow> (string, unit) result \<times> 'db"

definition same_cache_metadata :: "cache_meta \<Rightarrow> cache_meta \<Rightarrow> bool" where
  "same_cache_metadata a b \<longleftrightarrow> CaKey a = CaKey b \<and> AmRootName (CaMeta a) = AmRootName (CaMeta b) \<and> AmRootKind (CaMeta a) = AmRootKind (CaMeta b) \<and>
     AmContent (CaMeta a) = AmContent (CaMeta b) \<and> AmBlob (CaMeta a) = AmBlob (CaMeta b) \<and> AmFormat (CaMeta a) = AmFormat (CaMeta b) \<and>
     AmArchiveSize (CaMeta a) = AmArchiveSize (CaMeta b) \<and> AmLogicalSize (CaMeta a) = AmLogicalSize (CaMeta b) \<and>
     AmEntryCount (CaMeta a) = AmEntryCount (CaMeta b)"

definition local_Lookup :: "'db cache_callbacks option \<Rightarrow> string \<Rightarrow> 'db local_cache \<Rightarrow> (lookup_error, cache_meta) result \<times> 'db local_cache" where
  "local_Lookup cb key c =
    (case cb of
       Some f \<Rightarrow> (case LookupFn f key (LcDb c) of (r, d) \<Rightarrow> (r, c\<lparr> LcDb := d \<rparr>))
     | None \<Rightarrow> (case LcEntries c key of None \<Rightarrow> Inl ErrCacheMiss | Some m \<Rightarrow> Inr m, c))"

definition local_Download :: "(string \<Rightarrow> string) \<Rightarrow> cache_meta \<Rightarrow> 'db local_cache \<Rightarrow> (string, string) result" where
  "local_Download sha m c =
    (case OpenBlob (AmBlob (CaMeta m)) (LcStore c) of
       Inl _ \<Rightarrow> Inl ''openblob''
     | Inr blob \<Rightarrow> CopyVerified sha (Some blob) (AmArchiveSize (CaMeta m)) (AmBlob (CaMeta m)) (MaxArchiveBytes (limits (LcStore c))))"

text \<open>\<open>canceled\<close> says whether the context is done while the blob is stored.\<close>

definition local_Upload :: "(string \<Rightarrow> string) \<Rightarrow> time \<Rightarrow> bool \<Rightarrow> cache_meta \<Rightarrow> string \<Rightarrow> 'db local_cache \<Rightarrow> (string, unit) result \<times> 'db local_cache" where
  "local_Upload sha now canceled m data c =
    (case Put sha now (AmBlob (CaMeta m)) (AmArchiveSize (CaMeta m)) (if canceled then None else Some data) (LcStore c) of
       Inl _ \<Rightarrow> (Inl ''put'', c)
     | Inr (_, st) \<Rightarrow> (Inr (), c\<lparr> LcStore := st \<rparr>))"

definition local_Commit :: "'db cache_callbacks option \<Rightarrow> cache_meta \<Rightarrow> 'db local_cache \<Rightarrow> (string, unit) result \<times> 'db local_cache" where
  "local_Commit cb m c =
    (case cb of
       Some f \<Rightarrow> (case CommitFn f m (LcDb c) of (r, d) \<Rightarrow> (r, c\<lparr> LcDb := d \<rparr>))
     | None \<Rightarrow>
       if (case LcEntries c (CaKey m) of None \<Rightarrow> False | Some old \<Rightarrow> \<not> same_cache_metadata old m) then (Inl ''cache key conflict'', c)
       else (Inr (), c\<lparr> LcEntries := (LcEntries c)(CaKey m \<mapsto> m) \<rparr>))"

definition local_remote :: "(string \<Rightarrow> string) \<Rightarrow> time \<Rightarrow> bool \<Rightarrow> 'db cache_callbacks option \<Rightarrow> 'db local_cache cache_remote" where
  "local_remote sha now canceled cb =
    \<lparr> RLookup = local_Lookup cb, RDownload = local_Download sha, RUpload = local_Upload sha now canceled, RCommit = local_Commit cb \<rparr>"

text \<open>The callbacks of the local mode over the database.\<close>

definition cache_of_row :: "CacheMetadata \<Rightarrow> cache_meta" where
  "cache_of_row m = \<lparr> CaKey = CmKey m, CaMeta = \<lparr> AmName = CmKey m, AmRootName = CmRootName m, AmRootKind = CmRootKind m, AmContent = CmContent m,
     AmBlob = CmBlob m, AmFormat = CmFormat m, AmArchiveSize = CmArchiveSize m, AmLogicalSize = CmLogicalSize m, AmEntryCount = CmEntryCount m,
     AmCreatedAt = CmCreatedAt m \<rparr>, CaLastAccessedAt = CmLastAccessedAt m, CaExpiresAt = CmExpiresAt m \<rparr>"

definition row_of_cache :: "string \<Rightarrow> time \<Rightarrow> cache_meta \<Rightarrow> CacheMetadata" where
  "row_of_cache workspace clock c = (let m = CaMeta c in
     \<lparr> CmID = '''', CmWorkspace = workspace, CmKey = CaKey c, CmRootName = AmRootName m, CmRootKind = AmRootKind m, CmContent = AmContent m,
       CmBlob = AmBlob m, CmFormat = AmFormat m, CmArchiveSize = AmArchiveSize m, CmLogicalSize = AmLogicalSize m, CmEntryCount = AmEntryCount m,
       CmCreatedAt = AmCreatedAt m, CmLastAccessedAt = clock, CmExpiresAt = None, CmDeletedAt = None \<rparr>)"

definition manager_cache :: "Store \<Rightarrow> string \<Rightarrow> time \<Rightarrow> string \<Rightarrow> db cache_callbacks" where
  "manager_cache s ident clock workspace = \<lparr>
     LookupFn = (\<lambda>key d. case LookupCache s workspace key clock d of
         Inl _ \<Rightarrow> (Inl (LookupError ''store''), d)
       | Inr (m, d1) \<Rightarrow> (Inr (cache_of_row m), d1)),
     CommitFn = (\<lambda>m d. case CommitCache s ident clock (row_of_cache workspace clock m) d of
         Inl _ \<Rightarrow> (Inl ''commit'', d)
       | Inr (_, d1) \<Rightarrow> (Inr (), d1)) \<rparr>"

section \<open>Sessions\<close>

record cache_session =
  CsWorkspace :: fpath
  CsTemp :: fpath

definition cache_NewSession :: "bool \<Rightarrow> fpath \<Rightarrow> fpath \<Rightarrow> (string, cache_session) io" where
  "cache_NewSession priv workspace temp =
    io_bind (io_map_err (\<lambda>_. ''evalsymlinks'') (eval_symlinks priv workspace)) (\<lambda>resolved.
    io_bind (io_map_err (\<lambda>_. ''mkdir'') (os_mkdirall priv temp 448)) (\<lambda>_.
    io_return \<lparr> CsWorkspace = resolved, CsTemp = temp \<rparr>))"

definition safePath :: "fpath \<Rightarrow> string \<Rightarrow> fpath option" where
  "safePath root v =
    (if v = '''' \<or> v = ''.'' \<or> path_is_abs v \<or> CHR 0x5C \<in> set v \<or> CHR 0x00 \<in> set v then None
     else let clean = path_clean v in
     if clean \<noteq> v \<or> clean = ''..'' \<or> has_prefix clean ''../'' then None else Some (path_join root clean))"

datatype cache_line = Miss string | Unavailable string | Rejected string | Bypass string | Hit string | SaveSkipped string | Saved string

text \<open>Between the download and the end of an item: extraction into a new directory, and the rename to the
  destination. The directory is removed whether or not this succeeds.\<close>

definition cache_place :: "bool \<Rightarrow> (string \<Rightarrow> string) \<Rightarrow> (Entry list \<Rightarrow> string) \<Rightarrow> (string \<Rightarrow> (string, unpacked) result) \<Rightarrow> (fpath \<Rightarrow> fs \<Rightarrow> string)
    \<Rightarrow> fpath \<Rightarrow> fpath \<Rightarrow> cache_meta \<Rightarrow> string \<Rightarrow> (string, unit) io" where
  "cache_place priv sha encode unpack pick temp destination meta data =
    io_bind (io_map_err (\<lambda>_. ''mkdirtemp'') (os_mkdirtemp priv pick temp)) (\<lambda>stage fs1.
      case io_bind (cache_Extract priv sha encode unpack DefaultLimits (Some data) stage meta) (\<lambda>_.
           io_bind (io_map_err (\<lambda>_. ''mkdir'') (os_mkdirall priv (butlast destination) 448)) (\<lambda>_.
           io_map_err (\<lambda>_. ''rename'') (os_rename priv (path_join stage (AmRootName (CaMeta meta))) destination))) fs1 of
        (r, fs2) \<Rightarrow> (r, snd (os_removeall priv stage fs2)))"

definition cache_restore_item :: "bool \<Rightarrow> (string \<Rightarrow> string) \<Rightarrow> (Entry list \<Rightarrow> string) \<Rightarrow> (string \<Rightarrow> (string, unpacked) result) \<Rightarrow> (fpath \<Rightarrow> fs \<Rightarrow> string)
    \<Rightarrow> 'w cache_remote \<Rightarrow> cache_session \<Rightarrow> CacheEntry \<Rightarrow> fs \<times> 'w \<Rightarrow> cache_line \<times> fs \<times> 'w" where
  "cache_restore_item priv sha encode unpack pick remote s item w0 =
    (case w0 of (fs, w) \<Rightarrow>
     let key = Key item in
     case RLookup remote key w of
       (Inl ErrCacheMiss, w1) \<Rightarrow> (Miss key, fs, w1)
     | (Inl LookupNotExist, w1) \<Rightarrow> (Miss key, fs, w1)
     | (Inl (LookupError _), w1) \<Rightarrow> (Unavailable key, fs, w1)
     | (Inr meta, w1) \<Rightarrow>
       if AmRootName (CaMeta meta) = '''' \<or> AmRootKind (CaMeta meta) = '''' then (Rejected key, fs, w1)
       else (case safePath (CsWorkspace s) (CachePath item) of
           None \<Rightarrow> (Rejected key, fs, w1)
         | Some destination \<Rightarrow>
           (case os_lstat priv destination fs of
              Inr _ \<Rightarrow> (Bypass key, fs, w1)
            | Inl ErrNotExist \<Rightarrow>
              (case os_mkdirall priv (CsTemp s) 448 fs of
                 (Inl _, fs1) \<Rightarrow> (Unavailable key, fs1, w1)
               | (Inr _, fs1) \<Rightarrow>
                 if \<not> temp_usable priv (CsTemp s) fs1 then (Unavailable key, fs1, w1)
                 else (case RDownload remote meta w1 of
                     Inl _ \<Rightarrow> (Rejected key, fs1, w1)
                   | Inr data \<Rightarrow>
                     (case cache_place priv sha encode unpack pick (CsTemp s) destination meta data fs1 of
                        (Inl _, fs2) \<Rightarrow> (Rejected key, fs2, w1)
                      | (Inr _, fs2) \<Rightarrow> (Hit key, fs2, w1))))
            | Inl _ \<Rightarrow> (Unavailable key, fs, w1))))"

text \<open>Each item comes with whether the context is done at its turn; the lines are those printed.\<close>

fun cache_Restore :: "bool \<Rightarrow> (string \<Rightarrow> string) \<Rightarrow> (Entry list \<Rightarrow> string) \<Rightarrow> (string \<Rightarrow> (string, unpacked) result) \<Rightarrow> (fpath \<Rightarrow> fs \<Rightarrow> string)
    \<Rightarrow> 'w cache_remote \<Rightarrow> cache_session \<Rightarrow> (CacheEntry \<times> bool) list \<Rightarrow> fs \<times> 'w \<Rightarrow> cache_line list \<times> fs \<times> 'w" where
  "cache_Restore priv sha encode unpack pick remote s [] w = ([], w)"
| "cache_Restore priv sha encode unpack pick remote s ((item, canceled) # items) w =
    (if canceled then ([], w)
     else case cache_restore_item priv sha encode unpack pick remote s item w of (line, w1) \<Rightarrow>
       (case cache_Restore priv sha encode unpack pick remote s items w1 of (lines, w2) \<Rightarrow> (line # lines, w2)))"

text \<open>Saving reads the workspace; \<open>later\<close> is the file system when the files are copied.\<close>

definition cache_save_item :: "bool \<Rightarrow> (string \<Rightarrow> string) \<Rightarrow> (Entry list \<Rightarrow> string) \<Rightarrow> (tar_header list \<Rightarrow> string) \<Rightarrow> 'w cache_remote \<Rightarrow> cache_session \<Rightarrow> time
    \<Rightarrow> fs \<Rightarrow> fs \<Rightarrow> CacheEntry \<Rightarrow> 'w \<Rightarrow> cache_line \<times> 'w" where
  "cache_save_item priv sha encode pack remote s now fs later item w =
    (let key = Key item; skip = (SaveSkipped key, w) in
     case safePath (CsWorkspace s) (CachePath item) of
       None \<Rightarrow> skip
     | Some source \<Rightarrow>
       (case os_lstat priv source fs of
          Inl _ \<Rightarrow> skip
        | Inr n \<Rightarrow>
          if root_kind n = None \<or> \<not> temp_usable priv (CsTemp s) fs then skip
          else (case cache_Capture priv sha encode pack DefaultLimits now source key fs later of
              Inl _ \<Rightarrow> skip
            | Inr (meta, data) \<Rightarrow>
              (case RUpload remote meta data w of
                 (Inl _, w1) \<Rightarrow> (SaveSkipped key, w1)
               | (Inr _, w1) \<Rightarrow>
                 (case RCommit remote meta w1 of
                    (Inl _, w2) \<Rightarrow> (SaveSkipped key, w2)
                  | (Inr _, w2) \<Rightarrow> (Saved key, w2))))))"

fun cache_Save :: "bool \<Rightarrow> (string \<Rightarrow> string) \<Rightarrow> (Entry list \<Rightarrow> string) \<Rightarrow> (tar_header list \<Rightarrow> string) \<Rightarrow> 'w cache_remote \<Rightarrow> cache_session \<Rightarrow> time
    \<Rightarrow> fs \<Rightarrow> fs \<Rightarrow> (CacheEntry \<times> bool) list \<Rightarrow> 'w \<Rightarrow> cache_line list \<times> 'w" where
  "cache_Save priv sha encode pack remote s now fs later [] w = ([], w)"
| "cache_Save priv sha encode pack remote s now fs later ((item, canceled) # items) w =
    (if canceled then ([], w)
     else case cache_save_item priv sha encode pack remote s now fs later item w of (line, w1) \<Rightarrow>
       (case cache_Save priv sha encode pack remote s now fs later items w1 of (lines, w2) \<Rightarrow> (line # lines, w2)))"

end
