(* ===== verification/Session_Properties.thy ===== *)
theory Session_Properties
  imports Session_Safety Cache_Session Archive_Sample Sample
begin

text \<open>
  Properties of the artifact and cache sessions, with a host whose workspace holds a link that leads out of it.
\<close>

section \<open>Artifacts\<close>

text \<open>C16. Restoring artifacts only adds files, below the workspace: whatever the artifacts hold, and whether or not the
  restoration succeeds, every node of the file system is afterwards what it was, inside the workspace as well, and every
  new node lies below the workspace. Links in the workspace that lead out of it are not followed. This holds for the
  local and for the remote session.\<close>

theorem restore_only_adds:
  assumes "comps (AsWorkspace s)" and "real_path fs (AsWorkspace s)" and "rooted fs" and "\<And>d f. comps [pick d f]"
    and "artifact_Restore priv sha encode unpack pick cb s st d items fs = (r, fs') \<or>
      remote_Restore priv sha encode unpack pick tr s w consumer downloads fs = (r, fs')"
  shows "(\<forall>p n. node fs p = Some n \<longrightarrow> node fs' p = Some n) \<and> (\<forall>p. node fs' p \<noteq> node fs p \<longrightarrow> strict_prefix (AsWorkspace s) p)"
proof -
  have "added (AsWorkspace s) fs fs'"
    using assms(5)
  proof
    assume "artifact_Restore priv sha encode unpack pick cb s st d items fs = (r, fs')"
    then show ?thesis using local_Restore_adds [where pick = pick, OF assms(1,4)] assms(2,3) unfolding adding_def by (metis snd_conv)
  next
    assume "remote_Restore priv sha encode unpack pick tr s w consumer downloads fs = (r, fs')"
    then show ?thesis using remote_Restore_adds [where pick = pick, OF assms(1,4)] assms(2,3) unfolding adding_def by (metis snd_conv)
  qed
  then show ?thesis unfolding added_def by blast
qed


section \<open>Caches\<close>


section \<open>A workspace with a link that leads out\<close>

definition linked_fs :: fs where
  "linked_fs = [([''work''], Dir 448), ([''work'', ''out''], Link ''/etc''), ([''work'', ''dist''], Dir 493), ([''work'', ''dist'', ''app''], Regular 493 ''bin''),
     ([''etc''], Dir 493), ([''etc'', ''shadow''], Regular 384 ''root:x''), ([''tmp''], Dir 448)]"

definition session_store :: blob_store where
  "session_store = \<lparr> limits = sample_limits, blobs = Map.empty, temps = [] \<rparr>"

definition linked_cache :: "unit local_cache" where
  "linked_cache = \<lparr> LcStore = session_store, LcEntries = Map.empty, LcDb = () \<rparr>"

definition linked_remote :: "unit local_cache cache_remote" where
  "linked_remote = local_remote sample_sha 0 False None"

definition linked_session :: cache_session where
  "linked_session = \<lparr> CsWorkspace = [''work''], CsTemp = [''tmp''] \<rparr>"

definition temp_name :: "fpath \<Rightarrow> fs \<Rightarrow> string" where
  "temp_name d f = ''.extract-0''"

definition leaked :: tar_header where
  "leaked = \<lparr> TName = ''shadow'', TType = TypeReg, TMode = 384, TSize = 6, TLinkname = '''', TContent = ''root:x'' \<rparr>"

definition saved_cache :: "unit local_cache" where
  "saved_cache = snd (cache_Save True sample_sha sample_encode sample_pack linked_remote linked_session 0 linked_fs linked_fs
     [(\<lparr> Key = ''k'', CachePath = ''out/shadow'' \<rparr>, False)] linked_cache)"

lemma linked_run:
  "case cache_Save True sample_sha sample_encode sample_pack linked_remote linked_session 0 linked_fs linked_fs
       [(\<lparr> Key = ''k'', CachePath = ''out/shadow'' \<rparr>, False)] linked_cache of
     (ls, c) \<Rightarrow> ls = [Saved ''k''] \<and> OpenBlob (sample_sha '''') (LcStore c) = Inr (sample_pack [leaked]) \<and>
       (case cache_Restore True sample_sha sample_encode sample_unpack temp_name linked_remote linked_session
           [(\<lparr> Key = ''k'', CachePath = ''out/copy'' \<rparr>, False)] (linked_fs, c) of
          (ls', fs', c') \<Rightarrow> ls' = [Hit ''k''] \<and> node fs' [''etc'', ''copy''] = Some (Regular 384 ''root:x''))"
  by code_simp


section \<open>Witnesses\<close>

definition linked_artifacts :: artifact_session where
  "linked_artifacts = \<lparr> AsWorkspace = [''work''], AsTemp = [''tmp''], AsLimits = sample_limits, AsRecords = Map.empty \<rparr>"

definition published :: "(session_error, unit) result \<times> (artifact_session \<times> blob_store \<times> unit)" where
  "published = artifact_Publish True sample_sha sample_encode sample_pack None 0 False linked_fs linked_fs ''build'' [\<lparr> UpName = ''dist'', UpPath = ''dist'' \<rparr>]
     (linked_artifacts, session_store, ())"

lemma published_run:
  "artifact_Publish True sample_sha sample_encode sample_pack None 0 False linked_fs linked_fs ''build'' [\<lparr> UpName = ''dist'', UpPath = ''dist'' \<rparr>]
     (linked_artifacts, session_store, ()) = (fst published, (fst (snd published), fst (snd (snd published)), snd (snd (snd published))))"
  by (simp only: published_def prod.collapse)

lemma published_restored:
  "case published of (r, s, st, d) \<Rightarrow> r = Inr () \<and> AsWorkspace s = [''work''] \<and>
     (case artifact_Restore True sample_sha sample_encode sample_unpack temp_name (None :: unit callbacks option) s st ()
         [(\<lparr> From = ''build'', DlName = ''dist'', Into = ''in'' \<rparr>, False)] linked_fs of
        (r', fs') \<Rightarrow> r' = Inr () \<and> node fs' [''work'', ''in'', ''dist'', ''app''] = Some (Regular 493 ''bin''))"
  by code_simp


definition restored :: "(session_error, unit) result \<times> fs" where
  "restored = artifact_Restore True sample_sha sample_encode sample_unpack temp_name (None :: unit callbacks option) (fst (snd published)) (fst (snd (snd published))) ()
     [(\<lparr> From = ''build'', DlName = ''dist'', Into = ''in'' \<rparr>, False)] linked_fs"

lemma published_workspace: "AsWorkspace (fst (snd published)) = [''work'']"
  using published_restored by (simp add: case_prod_beta)

lemma linked_rooted: "rooted linked_fs"
  unfolding rooted_def
proof (intro allI impI)
  fix p n assume "node linked_fs p = Some n" "p \<noteq> []"
  then have "(p, n) \<in> set linked_fs" by (auto simp: node_def dest: map_of_SomeD)
  then show "\<exists>m. node linked_fs (butlast p) = Some (Dir m)" by (auto simp: linked_fs_def node_def)
qed

lemma linked_real: "real_path linked_fs [''work'']"
  by (rule rooted_real [OF linked_rooted, of _ 448]) (simp add: linked_fs_def node_def)

theorem restore_only_adds_witness:
  "fst restored = Inr () \<and> node (snd restored) [''work'', ''in'', ''dist'', ''app''] = Some (Regular 493 ''bin'') \<and>
   node (snd restored) [''work'', ''dist'', ''app''] = Some (Regular 493 ''bin'') \<and> node (snd restored) [''etc'', ''dist''] = None"
proof -
  have ok: "fst restored = Inr ()" "node (snd restored) [''work'', ''in'', ''dist'', ''app''] = Some (Regular 493 ''bin'')"
    using published_restored by (simp_all add: restored_def case_prod_beta del: artifact_Restore.simps)
  have pick: "comps [temp_name d f]" for d f by (simp add: temp_name_def plain_def slash_def)
  have run: "artifact_Restore True sample_sha sample_encode sample_unpack temp_name (None :: unit callbacks option) (fst (snd published)) (fst (snd (snd published))) ()
     [(\<lparr> From = ''build'', DlName = ''dist'', Into = ''in'' \<rparr>, False)] linked_fs = (fst restored, snd restored)" by (simp add: restored_def)
  have ws: "comps (AsWorkspace (fst (snd published)))" by (simp add: published_workspace plain_def slash_def)
  have adds: "(\<forall>p n. node linked_fs p = Some n \<longrightarrow> node (snd restored) p = Some n) \<and>
      (\<forall>p. node (snd restored) p \<noteq> node linked_fs p \<longrightarrow> strict_prefix [''work''] p)"
    using restore_only_adds [where pick = temp_name, OF ws _ linked_rooted pick disjI1 [OF run]] linked_real by (simp add: published_workspace)
  have "node linked_fs [''work'', ''dist'', ''app''] = Some (Regular 493 ''bin'')" by (simp add: linked_fs_def node_def)
  then have kept: "node (snd restored) [''work'', ''dist'', ''app''] = Some (Regular 493 ''bin'')"
    by (rule adds [THEN conjunct1, rule_format])
  have "\<not> strict_prefix [''work''] [''etc'', ''dist'']" by simp
  then have "node (snd restored) [''etc'', ''dist''] = node linked_fs [''etc'', ''dist'']"
    using adds [THEN conjunct2, rule_format, of "[''etc'', ''dist'']"] by argo
  moreover have "node linked_fs [''etc'', ''dist''] = None" by (simp add: linked_fs_def node_def)
  ultimately show ?thesis using ok kept by simp
qed

section \<open>A read-only root directory\<close>

definition readonly_root_fs :: fs where
  "readonly_root_fs = [([''work''], Dir 448), ([''work'', ''dist''], Dir 365), ([''work'', ''dist'', ''app''], Regular 493 ''bin''), ([''tmp''], Dir 448)]"

definition readonly_published :: "(session_error, unit) result \<times> (artifact_session \<times> blob_store \<times> unit)" where
  "readonly_published = artifact_Publish False sample_sha sample_encode sample_pack None 0 False readonly_root_fs readonly_root_fs ''build''
     [\<lparr> UpName = ''dist'', UpPath = ''dist'' \<rparr>] (linked_artifacts, session_store, ())"

definition readonly_restored :: "(session_error, unit) result \<times> fs" where
  "readonly_restored = artifact_Restore False sample_sha sample_encode sample_unpack temp_name (None :: unit callbacks option) (fst (snd readonly_published))
     (fst (snd (snd readonly_published))) () [(\<lparr> From = ''build'', DlName = ''dist'', Into = ''in'' \<rparr>, False)] readonly_root_fs"

lemma readonly_run:
  "case readonly_published of (r, s, st, d) \<Rightarrow> r = Inr () \<and>
     (case artifact_Restore False sample_sha sample_encode sample_unpack temp_name (None :: unit callbacks option) s st ()
         [(\<lparr> From = ''build'', DlName = ''dist'', Into = ''in'' \<rparr>, False)] readonly_root_fs of
        (r', fs') \<Rightarrow> r' = Inl (InfraError ''rename'') \<and> node fs' [''work'', ''in'', ''.extract-0'', ''dist'', ''app''] = Some (Regular 493 ''bin''))"
  by code_simp

text \<open>An artifact whose root is a directory of mode 0555 is published but cannot be restored without privileges: its mode
  is set before it is renamed, and moving a directory needs the right to write to it. The temporary directory
  stays behind in the workspace.\<close>

theorem readonly_root_not_restored:
  "fst readonly_published = Inr () \<and> fst readonly_restored = Inl (InfraError ''rename'') \<and>
   node (snd readonly_restored) [''work'', ''in'', ''.extract-0'', ''dist'', ''app''] = Some (Regular 493 ''bin'')"
  using readonly_run by (simp add: readonly_restored_def case_prod_beta del: artifact_Restore.simps)

end
