(* ===== verification/Spec2Isabelle.thy ===== *)
theory Spec2Isabelle
  imports Pipeline_Graph Remote_Properties Storage_Properties Scm_Properties Archive_Properties Manager_Properties Session_Properties
begin

text \<open>
  A verification development for ForgeCI (\<open>src/\<close>), a continuous-integration server written in Go. A server
  (\<open>cmd/forge-server\<close>) keeps runs, jobs, logs, artifacts and caches in PostgreSQL (\<open>internal/store/postgres\<close>)
  and blobs in directories; runners (\<open>cmd/forge-runner\<close>) lease jobs over HTTP (\<open>internal/runnerproto\<close>); webhooks
  of a source-control provider start runs (\<open>internal/scm\<close>, \<open>internal/scmworker\<close>); without runners the server, or the
  command line tool, executes a pipeline itself (\<open>internal/controlplane\<close>, \<open>internal/runner\<close>, \<open>internal/executor\<close>).

  \<^bold>\<open>How the code is modelled.\<close> A struct is a record, an enumeration a datatype, a Go error a value of a sum type
  (\<open>Inl\<close>). The database is a record of tables, a store method a function from a database to an error or a result
  with the next database (\<open>'a tx\<close>): a failed method leaves the database as it was, as its transaction is rolled back,
  and methods do not overlap, as the code locks the rows it reads. Concurrency is the interleaving of such steps in
  an \<open>inductive\<close> step relation. Time is a natural number of nanoseconds passed as an argument. Code outside the
  repository is an argument: SHA-256, the tar, gzip and JSON codecs, git, the container daemon, the shell; what a
  theorem needs of it is a named hypothesis, and the witness of the theorem instantiates it. Programs that talk to
  such code call by call are programs of the state monad over their history of calls (theory \<open>Calls\<close>), answered by
  an arbitrary environment. The file system has directories, files, links and permissions, and paths are resolved
  through links as the operating system does (theory \<open>Files\<close>).

  \<^bold>\<open>Theories.\<close>
  \<^item> \<open>Prelude\<close>, \<open>Go_Text\<close>: results, table updates, and the functions of Go's string and path packages.
  \<^item> \<open>Pipeline_Config\<close> (\<open>internal/config\<close>): validation of a pipeline; it accepts exactly the well-formed ones.
    \<open>Pipeline_Graph\<close> (\<open>internal/pipeline\<close>): Kahn's algorithm; it succeeds exactly on acyclic pipelines and yields
    the least topological order.
  \<^item> \<open>Database\<close>, \<open>Job_Store\<close>, \<open>Run_Store\<close>, \<open>Artifact_Store\<close>, \<open>Cache_Store\<close>, \<open>Log_Store\<close>, \<open>Scm_Store\<close>
    (\<open>internal/store/store.go\<close>, \<open>internal/store/postgres\<close>): the tables and every store method. \<open>Storage_Step\<close>,
    \<open>Scheduler\<close>, \<open>Lease_Safety\<close>, \<open>Storage_Safety\<close>, \<open>Scm_Safety\<close>: the step relation of the whole store, its
    invariant, and what it implies: a job is leased and completed at most once, completions are fenced by leases, no
    run is stuck, a passed job has its artifacts, caches stay within their budget, one delivery starts one run.
  \<^item> \<open>Log_Writer\<close> (\<open>internal/joblog\<close>), \<open>Log_Queue\<close> (\<open>internal/runner/log_queue.go\<close>), \<open>Log_Delivery\<close> (the upload in
    \<open>cmd/forge-runner/main.go\<close>): output reaches the durable log in order, once, through lost answers and retries. The
    locales \<open>numbered_log\<close> and \<open>log_sink\<close> are the contracts of the durable log and of the log endpoint; they are
    interpreted on the PostgreSQL store and on the HTTP handlers.
  \<^item> \<open>Blob_Store\<close> (\<open>internal/artifact/store.go\<close>), \<open>Runner_Proto\<close> (\<open>internal/runnerproto\<close>): the content-addressed
    store, and the HTTP handlers with authentication, routing and lease checks.
  \<^item> \<open>Scm\<close>, \<open>Scm_Worker\<close>, \<open>Worker_Safety\<close> (\<open>internal/scm\<close>, \<open>internal/scmworker\<close>): webhooks, the materialisation of a
    commit, and the workers as a step relation whose databases are states of the store (a simulation).
  \<^item> \<open>Files\<close>, \<open>Archive\<close>, \<open>Archive_Safety\<close>, \<open>Link_Safety\<close>, \<open>Archive_Roundtrip\<close> (\<open>internal/snapshot\<close>): capture and
    extraction of source trees; extraction is confined to its destination and rebuilds what was captured.
  \<^item> \<open>Workspace\<close> (\<open>internal/runworkspace\<close>): the directories of runs and jobs; only matching ones are removed.
  \<^item> \<open>Artifact_Archive\<close>, \<open>Artifact_Session\<close> (\<open>internal/artifact\<close>), \<open>Cache_Session\<close> (\<open>internal/cache\<close>),
    \<open>Session_Safety\<close>: archives of artifacts and caches, and the sessions that publish, restore and save them. The locale
    \<open>stable_extraction\<close> states what an extraction keeps; it is interpreted twice. Restorations of artifacts only add files
    below the workspace, and publications read only files of it.
  \<^item> \<open>Calls\<close>, \<open>Executors\<close> (\<open>internal/executor\<close>), \<open>Local_Runner\<close>, \<open>Local_Safety\<close> (\<open>internal/runner/runner.go\<close>): the
    execution of a job in a shell or a container, and the local scheduler with its goroutines.
  \<^item> \<open>Manager\<close>, \<open>Manager_Safety\<close> (\<open>internal/controlplane\<close>): the control plane of local mode, which joins the
    store, the workspaces, the snapshots and the local scheduler in one step relation; the rows of a run follow the
    scheduler, and the stored status of a run agrees with those of its jobs.
  \<^item> \<open>Sample\<close>, \<open>Storage_Sample\<close>, \<open>Scm_Sample\<close>, \<open>Archive_Sample\<close>: concrete histories and inputs for witnesses.
  \<^item> \<open>Remote_Properties\<close>, \<open>Storage_Properties\<close>, \<open>Scm_Properties\<close>, \<open>Archive_Properties\<close>, \<open>Local_Properties\<close>,
    \<open>Manager_Properties\<close>, \<open>Session_Properties\<close>, and the last sections of \<open>Pipeline_Config\<close>, \<open>Pipeline_Graph\<close>, \<open>Scm\<close>, \<open>Executors\<close> and
    \<open>Workspace\<close>: the properties.

  \<^bold>\<open>Bounds.\<close> No model uses fuel to hide a loop: loops are structural recursions or \<open>function\<close>s with a
  termination proof. The resolution of a path follows at most 40 links, as Linux does, and fails beyond. The
  local scheduler makes at most \<open>3 n + 4\<close> steps for \<open>n\<close> jobs.

  \<^bold>\<open>Findings\<close> that the theorems show: a schema check that rejects artifact sets the code commits, a canceled job in a
  passed run, recovery that a constraint rejects, log uploads of jobs named like a route, superseded runs that keep
  their jobs, a lookup failure that ends a delivery for good, snapshots with read-only directories that an
  unprivileged runner cannot extract, job names that climb out of the workspace root, a canceled run that local
  mode stores as failed, cache paths that follow links out of the workspace, cache misses that local mode reports as
  failures, and artifacts with a read-only root that cannot be restored.

  \<^bold>\<open>Not modelled.\<close> Row decoding and SQL text, migrations, process start-up and signal handling, HTTP transport, JSON
  and YAML decoding, printed output, and I/O errors beyond missing files and permissions. The programs in \<open>cmd\<close>,
  the HTTP API (\<open>internal/api\<close>) and the clients of the API and of GitHub are not modelled, except for the parts named
  above.
\<close>

end
